(* ===== verification/Prelude.thy ===== *)
theory Prelude
  imports Complex_Main "HOL-Library.AList" "HOL-Library.Multiset" "HOL-Library.Sublist"
begin

section \<open>Shared vocabulary of the development\<close>

text \<open>
  What every component uses: the Python exceptions as values (\<open>py_error\<close>), the result type of
  code that may raise and its sequencing (\<open>res_bind\<close>, \<open>res_foldl\<close>), the outcome of one iteration
  of a loop with \<^verbatim>\<open>break\<close> and \<^verbatim>\<open>continue\<close> (\<open>flow\<close>), dictionaries in insertion order (association
  lists under \<open>AList.update\<close>), Python slices, and the generic theory of transition systems:
  reachable states, and the locale \<open>inv_system\<close> whose interpretations give each stateful
  component its reachable-state invariant.
\<close>

named_theorems res_simps \<open>evaluation of the result type\<close>
named_theorems dict_simps \<open>dictionaries as association lists\<close>

subsection \<open>Exceptions and results\<close>

datatype py_error =
    AssertionError
  | AttributeError
  | KeyError
  | IndexError
  | TypeError
  | ValueError
  | RuntimeError
  | NotImplementedError
  | ZeroDivisionError
  | StopIteration
  | ZMQError
  | LLMException

type_synonym 'a result = "py_error + 'a"

definition res_bind :: "'a result \<Rightarrow> ('a \<Rightarrow> 'b result) \<Rightarrow> 'b result" where
  "res_bind m f = (case m of Inl e \<Rightarrow> Inl e | Inr x \<Rightarrow> f x)"

definition py_assert :: "bool \<Rightarrow> unit result" where
  "py_assert b = (if b then Inr () else Inl AssertionError)"

lemma res_bind_Inl [simp]: "res_bind (Inl e) f = Inl e"
  by (simp add: res_bind_def)

lemma res_bind_Inr [simp]: "res_bind (Inr x) f = f x"
  by (simp add: res_bind_def)

lemma res_bind_eq_Inr: "res_bind m f = Inr y \<longleftrightarrow> (\<exists>x. m = Inr x \<and> f x = Inr y)"
  by (cases m) simp_all

lemma res_bind_eq_Inl: "res_bind m f = Inl e \<longleftrightarrow> m = Inl e \<or> (\<exists>x. m = Inr x \<and> f x = Inl e)"
  by (cases m) simp_all

lemma res_bind_cong [fundef_cong]:
  "m = m' \<Longrightarrow> (\<And>x. m' = Inr x \<Longrightarrow> f x = f' x) \<Longrightarrow> res_bind m f = res_bind m' f'"
  by (cases m') simp_all

lemma py_assert_simps [simp]:
  "py_assert True = Inr ()" "py_assert False = Inl AssertionError"
  by (simp_all add: py_assert_def)

lemma py_assert_eq_Inr [simp]: "py_assert b = Inr u \<longleftrightarrow> b"
  by (simp add: py_assert_def)

lemma py_assert_eq_Inl [simp]: "py_assert b = Inl e \<longleftrightarrow> \<not> b \<and> e = AssertionError"
  by (auto simp: py_assert_def)

lemmas res_elims = res_bind_eq_Inr res_bind_eq_Inl

text \<open>A \<^verbatim>\<open>for\<close> loop whose body may raise: the first exception ends it.\<close>

fun res_foldl :: "('s \<Rightarrow> 'a \<Rightarrow> 's result) \<Rightarrow> 's \<Rightarrow> 'a list \<Rightarrow> 's result" where
  "res_foldl f s [] = Inr s"
| "res_foldl f s (x # xs) = res_bind (f s x) (\<lambda>s'. res_foldl f s' xs)"

lemma res_foldl_append:
  "res_foldl f s (xs @ ys) = res_bind (res_foldl f s xs) (\<lambda>s'. res_foldl f s' ys)"
proof (induction xs arbitrary: s)
  case (Cons x xs)
  then show ?case by (cases "f s x") simp_all
qed simp

lemma res_foldl_invariant:
  assumes "res_foldl f s xs = Inr t" and "I s"
    and "\<And>s x t. x \<in> set xs \<Longrightarrow> I s \<Longrightarrow> f s x = Inr t \<Longrightarrow> I t"
  shows "I t"
  using assms
proof (induction xs arbitrary: s)
  case (Cons x xs)
  from Cons.prems(1) obtain u where u: "f s x = Inr u" "res_foldl f u xs = Inr t"
    by (auto simp: res_bind_eq_Inr)
  from u(1) Cons.prems(2,3) have "I u" by auto
  then show ?case using Cons.IH [OF u(2)] Cons.prems(3) by auto
qed simp

subsection \<open>One iteration of a loop\<close>

datatype 's flow = Raise py_error | Break 's | Continue 's

text \<open>Code that may raise before the iteration decides how to go on.\<close>

definition flow_bind :: "'a result \<Rightarrow> ('a \<Rightarrow> 's flow) \<Rightarrow> 's flow" where
  "flow_bind m f = (case m of Inl e \<Rightarrow> Raise e | Inr x \<Rightarrow> f x)"

lemma flow_bind_simps [simp]:
  "flow_bind (Inl e) f = Raise e" "flow_bind (Inr x) f = f x"
  by (simp_all add: flow_bind_def)

lemma flow_bind_eq_Continue: "flow_bind m f = Continue s \<longleftrightarrow> (\<exists>x. m = Inr x \<and> f x = Continue s)"
  by (cases m) simp_all

lemma flow_bind_eq_Break: "flow_bind m f = Break s \<longleftrightarrow> (\<exists>x. m = Inr x \<and> f x = Break s)"
  by (cases m) simp_all

lemma flow_bind_eq_Raise:
  "flow_bind m f = Raise e \<longleftrightarrow> m = Inl e \<or> (\<exists>x. m = Inr x \<and> f x = Raise e)"
  by (cases m) simp_all

lemmas flow_elims = flow_bind_eq_Continue flow_bind_eq_Break flow_bind_eq_Raise

subsection \<open>Dictionaries\<close>

text \<open>
  A Python \<^verbatim>\<open>dict\<close> iterates in insertion order and an assignment to a key it holds keeps the
  key's place: \<open>AList.update\<close> on association lists. Reading a missing key with \<^verbatim>\<open>d[k]\<close> raises.
\<close>

abbreviation dict_set :: "'k \<Rightarrow> 'v \<Rightarrow> ('k \<times> 'v) list \<Rightarrow> ('k \<times> 'v) list" where
  "dict_set \<equiv> AList.update"

definition dict_pop :: "'k \<Rightarrow> ('k \<times> 'v) list \<Rightarrow> ('k \<times> 'v) list" where
  "dict_pop k d = filter (\<lambda>kv. fst kv \<noteq> k) d"

definition dict_item :: "('k \<times> 'v) list \<Rightarrow> 'k \<Rightarrow> 'v result" where
  "dict_item d k = (case map_of d k of None \<Rightarrow> Inl KeyError | Some v \<Rightarrow> Inr v)"

definition map_item :: "('k \<rightharpoonup> 'v) \<Rightarrow> 'k \<Rightarrow> 'v result" where
  "map_item m k = (case m k of None \<Rightarrow> Inl KeyError | Some v \<Rightarrow> Inr v)"

lemma map_item_eq_Inr [simp]: "map_item m k = Inr v \<longleftrightarrow> m k = Some v"
  by (simp add: map_item_def split: option.splits)

lemma dict_item_eq_Inr [simp]: "dict_item d k = Inr v \<longleftrightarrow> map_of d k = Some v"
  by (simp add: dict_item_def split: option.splits)

lemma dict_item_Some [simp]: "map_of d k = Some v \<Longrightarrow> dict_item d k = Inr v"
  by (simp add: dict_item_def)

lemma dict_item_None [simp]: "map_of d k = None \<Longrightarrow> dict_item d k = Inl KeyError"
  by (simp add: dict_item_def)

lemma dict_set_fresh [dict_simps]: "k \<notin> fst ` set d \<Longrightarrow> dict_set k v d = d @ [(k, v)]"
  by (induction d) auto

lemma fst_set_dict_set [dict_simps]: "fst ` set (dict_set k v d) = insert k (fst ` set d)"
  using AList.dom_update [of k v d] by simp

lemma length_dict_set_old: "map_of d k \<noteq> None \<Longrightarrow> length (dict_set k v d) = length d"
  by (induction d) (auto split: if_splits)

lemma map_of_dict_pop [dict_simps]: "map_of (dict_pop k d) = (map_of d)(k := None)"
  by (induction d) (auto simp: dict_pop_def fun_eq_iff)

lemma fst_set_dict_pop [dict_simps]: "fst ` set (dict_pop k d) = fst ` set d - {k}"
  by (auto simp: dict_pop_def)

lemma set_dict_pop [dict_simps]: "set (dict_pop k d) = {kv \<in> set d. fst kv \<noteq> k}"
  by (auto simp: dict_pop_def)

lemma distinct_dict_pop [dict_simps]: "distinct (map fst d) \<Longrightarrow> distinct (map fst (dict_pop k d))"
  by (induction d) (auto simp: dict_pop_def)

subsection \<open>Lists the way Python indexes and slices them\<close>

definition list_item :: "'a list \<Rightarrow> int \<Rightarrow> 'a result" where
  "list_item xs i =
     (if 0 \<le> i \<and> nat i < length xs then Inr (xs ! nat i)
      else if i < 0 \<and> nat (- i) \<le> length xs then Inr (xs ! (length xs - nat (- i)))
      else Inl IndexError)"

lemma list_item_nat [simp]: "i < length xs \<Longrightarrow> list_item xs (int i) = Inr (xs ! i)"
  by (simp add: list_item_def)

lemma list_item_eq_Inr: "0 \<le> i \<Longrightarrow> list_item xs i = Inr x \<longleftrightarrow> nat i < length xs \<and> x = xs ! nat i"
  by (auto simp: list_item_def)

text \<open>\<^verbatim>\<open>xs[a:b]\<close> for bounds that are not negative.\<close>

definition slice :: "nat \<Rightarrow> nat \<Rightarrow> 'a list \<Rightarrow> 'a list" where
  "slice a b xs = take (b - a) (drop a xs)"

lemma length_slice [simp]: "length (slice a b xs) = min (b - a) (length xs - a)"
  by (simp add: slice_def)

lemma nth_slice: "a + i < b \<Longrightarrow> b \<le> length xs \<Longrightarrow> slice a b xs ! i = xs ! (a + i)"
  by (simp add: slice_def)

lemma slice_append_slice:
  assumes "a \<le> b" "b \<le> c"
  shows "slice a b xs @ slice b c xs = slice a c xs"
proof -
  have "take (c - a) (drop a xs) = take (b - a) (drop a xs) @ take (c - b) (drop (b - a) (drop a xs))"
    using assms take_add [of "b - a" "c - b" "drop a xs"] by simp
  then show ?thesis using assms by (simp add: slice_def)
qed

subsection \<open>Decimal strings\<close>

text \<open>\<^verbatim>\<open>str(n)\<close> for integers.\<close>

definition digit_char :: "nat \<Rightarrow> char" where
  "digit_char d = char_of (48 + d)"

fun str_nat :: "nat \<Rightarrow> string" where
  "str_nat n = (if n < 10 then [digit_char n] else str_nat (n div 10) @ [digit_char (n mod 10)])"

declare str_nat.simps [simp del]

definition str_int :: "int \<Rightarrow> string" where
  "str_int i = (if i < 0 then ''-'' @ str_nat (nat (- i)) else str_nat (nat i))"

text \<open>
  \<^verbatim>\<open>int(s)\<close> on strings of ASCII characters: surrounding blanks and a sign are accepted, and single
  underscores between digits.
\<close>

definition digit_val :: "char \<Rightarrow> nat option" where
  "digit_val c = (let n = of_char c in if 48 \<le> n \<and> n \<le> (57 :: nat) then Some (n - 48) else None)"

fun parse_digits :: "nat \<Rightarrow> string \<Rightarrow> nat option" where
  "parse_digits acc [] = Some acc"
| "parse_digits acc (c # cs) =
     (case digit_val c of
        Some d \<Rightarrow> parse_digits (10 * acc + d) cs
      | None \<Rightarrow>
          if c = CHR ''_'' then
            (case cs of
               [] \<Rightarrow> None
             | c' # cs' \<Rightarrow> (case digit_val c' of None \<Rightarrow> None | Some d \<Rightarrow> parse_digits (10 * acc + d) cs'))
          else None)"

definition parse_nat :: "string \<Rightarrow> nat option" where
  "parse_nat s =
     (case s of [] \<Rightarrow> None | c # cs \<Rightarrow> (case digit_val c of None \<Rightarrow> None | Some d \<Rightarrow> parse_digits d cs))"

definition is_blank :: "char \<Rightarrow> bool" where
  "is_blank c = (let n = of_char c in n = (32 :: nat) \<or> 9 \<le> n \<and> n \<le> 13 \<or> 28 \<le> n \<and> n \<le> 31)"

definition strip_blanks :: "string \<Rightarrow> string" where
  "strip_blanks s = rev (dropWhile is_blank (rev (dropWhile is_blank s)))"

definition py_int :: "string \<Rightarrow> int result" where
  "py_int s =
     (let t = strip_blanks s;
          r = (case t of
                 [] \<Rightarrow> None
               | c # cs \<Rightarrow>
                   if c = CHR ''-'' then map_option (\<lambda>n. - int n) (parse_nat cs)
                   else if c = CHR ''+'' then map_option int (parse_nat cs)
                   else map_option int (parse_nat t))
      in case r of None \<Rightarrow> Inl ValueError | Some i \<Rightarrow> Inr i)"

lemma digit_val_char [simp]: "d < 10 \<Longrightarrow> digit_val (digit_char d) = Some d"
  by (simp add: digit_val_def digit_char_def of_char_of)

lemma parse_digits_snoc:
  "list_all (\<lambda>c. digit_val c \<noteq> None) s \<Longrightarrow> d < 10 \<Longrightarrow>
   parse_digits acc (s @ [digit_char d]) = map_option (\<lambda>n. 10 * n + d) (parse_digits acc s)"
  by (induction acc s rule: parse_digits.induct) (auto split: option.splits)

lemma str_nat_digits: "list_all (\<lambda>c. digit_val c \<noteq> None) (str_nat n)" "str_nat n \<noteq> []"
proof (induction n rule: str_nat.induct)
  case (1 n)
  { case 1 then show ?case using "1.IH" by (subst str_nat.simps) auto }
  { case 2 then show ?case by (subst str_nat.simps) simp }
qed

lemma parse_nat_str_nat [simp]: "parse_nat (str_nat n) = Some n"
proof (induction n rule: str_nat.induct)
  case (1 n)
  show ?case
  proof (cases "n < 10")
    case True
    then show ?thesis by (subst str_nat.simps) (simp add: parse_nat_def)
  next
    case False
    obtain c cs where c: "str_nat (n div 10) = c # cs" using str_nat_digits(2) by (metis list.exhaust)
    obtain d where d: "digit_val c = Some d" and cs: "list_all (\<lambda>c. digit_val c \<noteq> None) cs"
      using str_nat_digits(1) [of "n div 10"] by (auto simp: c)
    have "parse_digits d cs = Some (n div 10)" using 1 [OF False] by (simp add: c d parse_nat_def)
    then have "parse_digits d (cs @ [digit_char (n mod 10)]) = Some n" using parse_digits_snoc [OF cs, of "n mod 10" d] by simp
    then show ?thesis using False by (subst str_nat.simps) (simp add: c d parse_nat_def)
  qed
qed

lemma digit_not_special: "digit_val c \<noteq> None \<Longrightarrow> \<not> is_blank c \<and> c \<noteq> CHR ''-'' \<and> c \<noteq> CHR ''+''"
  by (auto simp: digit_val_def is_blank_def Let_def split: if_splits)

lemma strip_none: "xs \<noteq> [] \<Longrightarrow> \<not> is_blank (hd xs) \<Longrightarrow> \<not> is_blank (last xs) \<Longrightarrow> strip_blanks xs = xs"
proof -
  assume a: "xs \<noteq> []" "\<not> is_blank (hd xs)" "\<not> is_blank (last xs)"
  then have "dropWhile is_blank xs = xs" "dropWhile is_blank (rev xs) = rev xs"
    by (simp_all add: dropWhile_eq_self_iff hd_rev)
  then show ?thesis by (simp add: strip_blanks_def)
qed

text \<open>\<^verbatim>\<open>int(str(n)) == n\<close>\<close>

lemma py_int_str_int [simp]: "py_int (str_int i) = Inr i"
proof -
  let ?s = "str_nat (nat \<bar>i\<bar>)"
  have all: "\<forall>c \<in> set ?s. digit_val c \<noteq> None" "?s \<noteq> []"
    using str_nat_digits [of "nat \<bar>i\<bar>"] by (auto simp: list_all_iff)
  then have ends: "\<not> is_blank (hd ?s)" "\<not> is_blank (last ?s)" "hd ?s \<noteq> CHR ''-''" "hd ?s \<noteq> CHR ''+''"
    using digit_not_special hd_in_set last_in_set by metis+
  show ?thesis
  proof (cases "i < 0")
    case True
    have "strip_blanks (CHR ''-'' # ?s) = CHR ''-'' # ?s"
      by (rule strip_none) (use all(2) ends(2) in \<open>simp_all add: is_blank_def\<close>)
    then show ?thesis using True by (simp add: str_int_def py_int_def)
  next
    case False
    have "strip_blanks ?s = ?s" by (rule strip_none [OF all(2) ends(1,2)])
    then show ?thesis using False all(2) ends(3,4) parse_nat_str_nat [of "nat i"]
      by (cases ?s) (simp_all add: str_int_def py_int_def Let_def del: parse_nat_str_nat)
  qed
qed

text \<open>\<^verbatim>\<open>s.split(c)\<close> for a one-character separator.\<close>

fun split_char :: "char \<Rightarrow> string \<Rightarrow> string list" where
  "split_char c [] = [[]]"
| "split_char c (x # xs) =
     (if x = c then [] # split_char c xs
      else (case split_char c xs of [] \<Rightarrow> [[x]] | w # ws \<Rightarrow> (x # w) # ws))"

text \<open>A list comprehension whose body may raise.\<close>

fun res_map :: "('a \<Rightarrow> 'b result) \<Rightarrow> 'a list \<Rightarrow> 'b list result" where
  "res_map f [] = Inr []"
| "res_map f (x # xs) = res_bind (f x) (\<lambda>y. res_bind (res_map f xs) (\<lambda>ys. Inr (y # ys)))"

lemma res_map_eq_Inr: "res_map f xs = Inr ys \<longleftrightarrow> list_all2 (\<lambda>x y. f x = Inr y) xs ys"
  by (induction xs arbitrary: ys) (auto simp: res_bind_eq_Inr list_all2_Cons1)

lemma res_map_Inr [simp]: "(\<And>x. x \<in> set xs \<Longrightarrow> f x = Inr (g x)) \<Longrightarrow> res_map f xs = Inr (map g xs)"
  by (induction xs) auto

subsection \<open>Transition systems\<close>

text \<open>
  A component that is driven from outside is a set of initial states and a step relation
  labelled by the call that is made.
\<close>

inductive reachable :: "('s \<Rightarrow> bool) \<Rightarrow> ('s \<Rightarrow> 'e \<Rightarrow> 's \<Rightarrow> bool) \<Rightarrow> 's \<Rightarrow> bool"
  for init :: "'s \<Rightarrow> bool" and step :: "'s \<Rightarrow> 'e \<Rightarrow> 's \<Rightarrow> bool"
  where
    reach_init: "init s \<Longrightarrow> reachable init step s"
  | reach_step: "reachable init step s \<Longrightarrow> step s e t \<Longrightarrow> reachable init step t"

inductive run :: "('s \<Rightarrow> 'e \<Rightarrow> 's \<Rightarrow> bool) \<Rightarrow> 's \<Rightarrow> 'e list \<Rightarrow> 's \<Rightarrow> bool"
  for step :: "'s \<Rightarrow> 'e \<Rightarrow> 's \<Rightarrow> bool"
  where
    run_Nil: "run step s [] s"
  | run_Cons: "step s e t \<Longrightarrow> run step t es u \<Longrightarrow> run step s (e # es) u"

inductive_cases run_NilE [elim!]: "run step s [] t"
inductive_cases run_ConsE [elim!]: "run step s (e # es) t"

lemma run_append: "run step s xs t \<Longrightarrow> run step t ys u \<Longrightarrow> run step s (xs @ ys) u"
  by (induction rule: run.induct) (auto intro: run.intros)

lemma reachable_run:
  assumes "run step s es t" and "reachable init step s"
  shows "reachable init step t"
  using assms by (induction rule: run.induct) (auto intro: reach_step)

text \<open>
  The contract of an inductive invariant. A component interprets it with its own initial states
  and steps, and gets its invariant on every reachable state and along every run.
\<close>

locale inv_system =
  fixes init :: "'s \<Rightarrow> bool" and step :: "'s \<Rightarrow> 'e \<Rightarrow> 's \<Rightarrow> bool" and inv :: "'s \<Rightarrow> bool"
  assumes inv_init: "init s \<Longrightarrow> inv s"
    and inv_step: "inv s \<Longrightarrow> step s e t \<Longrightarrow> inv t"
begin

lemma reachable_inv: "reachable init step s \<Longrightarrow> inv s"
  by (induction rule: reachable.induct) (auto intro: inv_init inv_step)

lemma run_inv: "run step s es t \<Longrightarrow> inv s \<Longrightarrow> inv t"
  by (induction rule: run.induct) (auto intro: inv_step)

lemma init_run_inv: "init s \<Longrightarrow> run step s es t \<Longrightarrow> inv t"
  by (blast intro: inv_init run_inv)

end

end
