(* ===== verification/Engine_Types.thy ===== *)
theory Engine_Types
  imports Prelude
begin

section \<open>The engine's data that the components share\<close>

text \<open>
  The classes of vLLM that the scheduler and the KV connectors exchange: \<open>Request\<close> with its
  status, its LoRA adapter and its \<open>kv_transfer_params\<close> dictionary, the blocks of the KV cache,
  \<open>SchedulerOutput\<close>, and the connector interface \<open>KVConnectorBase_V1\<close> as a record of the methods
  the scheduler calls. Only the fields that the code of this repository reads or writes are kept.
  A \<open>Request\<close> object is named by its request id.
\<close>

type_synonym rid = string

text \<open>Values of the dictionaries that carry the transfer parameters.\<close>

datatype py_value =
    PNone
  | PBool bool
  | PInt int
  | PFloat rat
  | PStr string
  | PBytes string
  | PInts "int list"

fun truthy :: "py_value \<Rightarrow> bool" where
  "truthy PNone = False"
| "truthy (PBool b) = b"
| "truthy (PInt i) = (i \<noteq> 0)"
| "truthy (PFloat x) = (x \<noteq> 0)"
| "truthy (PStr s) = (s \<noteq> [])"
| "truthy (PBytes s) = (s \<noteq> [])"
| "truthy (PInts xs) = (xs \<noteq> [])"

type_synonym kv_params = "string \<rightharpoonup> py_value"

text \<open>\<^verbatim>\<open>if params.get(key)\<close>\<close>

definition get_truthy :: "kv_params \<Rightarrow> string \<Rightarrow> bool" where
  "get_truthy ps k = (case ps k of None \<Rightarrow> False | Some v \<Rightarrow> truthy v)"

lemma get_truthy_upd [simp]:
  "get_truthy (ps(k \<mapsto> v)) k' = (if k' = k then truthy v else get_truthy ps k')"
  by (simp add: get_truthy_def)

text \<open>\<^verbatim>\<open>params[key]\<close> where a list of numbers, a string or a number is expected.\<close>

definition param_ints :: "kv_params \<Rightarrow> string \<Rightarrow> int list result" where
  "param_ints ps k = (case ps k of None \<Rightarrow> Inl KeyError | Some (PInts xs) \<Rightarrow> Inr xs | Some _ \<Rightarrow> Inl TypeError)"

definition param_str :: "kv_params \<Rightarrow> string \<Rightarrow> string result" where
  "param_str ps k = (case ps k of None \<Rightarrow> Inl KeyError | Some (PStr s) \<Rightarrow> Inr s | Some _ \<Rightarrow> Inl TypeError)"

definition param_int :: "kv_params \<Rightarrow> string \<Rightarrow> int result" where
  "param_int ps k = (case ps k of None \<Rightarrow> Inl KeyError | Some (PInt i) \<Rightarrow> Inr i | Some _ \<Rightarrow> Inl TypeError)"

text \<open>\<^verbatim>\<open>int(v)\<close>\<close>

fun py_int_of :: "py_value \<Rightarrow> int result" where
  "py_int_of (PInt i) = Inr i"
| "py_int_of (PBool b) = Inr (if b then 1 else 0)"
| "py_int_of (PFloat x) = Inr (if 0 \<le> x then \<lfloor>x\<rfloor> else \<lceil>x\<rceil>)"
| "py_int_of (PStr s) = py_int s"
| "py_int_of (PBytes s) = py_int s"
| "py_int_of PNone = Inl TypeError"
| "py_int_of (PInts xs) = Inl TypeError"

datatype request_status =
    WAITING
  | WAITING_FOR_REMOTE_KVS
  | RUNNING
  | PREEMPTED
  | FINISHED_STOPPED
  | FINISHED_LENGTH_CAPPED
  | FINISHED_ABORTED
  | FINISHED_IGNORED

datatype engine_event = EV_SCHEDULED | EV_PREEMPTED

record lora_request =
  lora_int_id :: int
  long_lora_max_len :: "int option"

record request =
  request_id :: rid
  status :: request_status
  num_tokens :: int
  num_computed_tokens :: int
  num_cached_tokens :: int
  prompt_token_ids :: "int list"
  spec_token_ids :: "int list"
  lora_req :: "lora_request option"
  kv_transfer_params :: "kv_params option"
  events :: "engine_event list"

lemma params_frame: "\<exists>ps. q = q\<lparr>kv_transfer_params := ps\<rparr>" for q :: request
  by (rule exI [of _ "kv_transfer_params q"]) simp

record kv_block =
  block_id :: int
  ref_cnt :: int

text \<open>What the encoder cache manager reports as freed: the field differs between vLLM versions.\<close>

datatype freed_encoder = FreedIds "(rid \<times> int) list" | FreedHashes "string list"

record ('c, 'm) scheduler_output =
  so_scheduled_new_reqs :: "(request \<times> int list list) list"
  so_scheduled_cached_reqs :: 'c
  so_num_scheduled_tokens :: "(rid \<times> int) list"
  so_total_num_scheduled_tokens :: int
  so_scheduled_spec_decode_tokens :: "(rid \<times> int list) list"
  so_num_common_prefix_blocks :: int
  so_finished_req_ids :: "rid set"
  so_freed_encoder :: freed_encoder
  so_kv_connector_metadata :: "'m option"

text \<open>
  The scheduler side of a KV connector. A method that changes the request it is given returns the
  request; \<open>build_connector_meta\<close> reads the request objects the connector holds on to, so it is
  given the object store.
\<close>

record ('cn, 'b, 'm) connector_ops =
  cn_get_num_new_matched_tokens :: "'cn \<Rightarrow> request \<Rightarrow> int \<Rightarrow> (int \<times> bool) result"
  cn_update_state_after_alloc :: "'cn \<Rightarrow> request \<Rightarrow> 'b \<Rightarrow> int \<Rightarrow> ('cn \<times> request) result"
  cn_build_connector_meta :: "'cn \<Rightarrow> (rid \<Rightarrow> request) \<Rightarrow> ('cn \<times> 'm) result"
  cn_request_finished :: "'cn \<Rightarrow> request \<Rightarrow> int list \<Rightarrow> bool \<times> kv_params option"

end
