(* ===== verification/Ascend_Scheduler.thy ===== *)
theory Ascend_Scheduler
  imports Engine_Types
begin

section \<open>The prefill-first scheduler\<close>

text \<open>
  \<^verbatim>\<open>AscendScheduler\<close> of \<^verbatim>\<open>vllm_ascend/core/scheduler.py\<close> and its configuration class of
  \<^verbatim>\<open>vllm_ascend/core/schedule_config.py\<close>. The state \<open>sched\<close> holds the queues \<^verbatim>\<open>waiting\<close> and
  \<^verbatim>\<open>running\<close>, the sets \<^verbatim>\<open>scheduled_req_ids\<close> and \<^verbatim>\<open>finished_req_ids\<close> and the request objects; the
  local variables of \<^verbatim>\<open>schedule\<close> are the record \<open>plan\<close>. The KV cache manager, the encoder cache
  manager and the methods of the base class \<^verbatim>\<open>Scheduler\<close> belong to vLLM: they are the function
  fields of \<open>sched_env\<close>, and their state is the type variable \<open>'kv\<close>. The connector is a field of
  type \<open>connector_ops option\<close>, which the connector theories fill in. Time stamps and log messages
  are left out; the watermark is a rational.
\<close>

datatype 'b new_blocks_entry = BlockIds "int list list" | Blocks 'b

record ('kv, 'cn) sched =
  obj :: "rid \<Rightarrow> request"
  requests :: "rid set"
  waiting :: "rid list"
  running :: "rid list"
  scheduled_req_ids :: "rid set"
  finished_req_ids :: "rid set"
  kv_state :: 'kv
  cn_state :: 'cn
  published :: "string list list"

record 'b plan =
  token_budget :: int
  scheduled_new_reqs :: "rid list"
  scheduled_resumed_reqs :: "rid list"
  scheduled_running_reqs :: "rid list"
  preempted_reqs :: "rid list"
  num_scheduled_tokens :: "(rid \<times> int) list"
  req_to_new_blocks :: "(rid \<times> 'b new_blocks_entry) list"
  scheduled_spec_decode_tokens :: "(rid \<times> int list) list"
  scheduled_loras :: "int set"
  skipped_waiting_requests :: "rid list"

record ('kv, 'b, 'c, 'cn, 'm) sched_env =
  chunked_prefill_enabled :: bool
  is_multi_step :: bool
  config_max_model_len :: int
  max_num_batched_tokens :: int
  config_watermark :: "rat option"
  max_num_scheduled_tokens :: int
  max_num_running_reqs :: int
  max_model_len :: int
  lora_config :: "int option"
  num_kv_blocks :: int
  block_size :: int
  num_lookahead_tokens :: int
  log_stats :: bool
  is_vllm_0_10_1_1 :: bool
  connector :: "('cn, 'b, 'm) connector_ops option"
  cdiv :: "int \<Rightarrow> int \<Rightarrow> int"
  num_tokens_with_spec :: "request \<Rightarrow> int"
  update_waiting_for_remote_kv :: "'kv \<Rightarrow> request \<Rightarrow> bool \<times> 'kv \<times> request"
  get_computed_blocks :: "'kv \<Rightarrow> request \<Rightarrow> ('b \<times> int) \<times> 'kv"
  create_empty_block_list :: "'kv \<Rightarrow> 'b"
  first_group_blocks :: "'b \<Rightarrow> kv_block list"
  add_blocks :: "'b \<Rightarrow> 'b \<Rightarrow> 'b"
  allocate_slots :: "'kv \<Rightarrow> request \<Rightarrow> int \<Rightarrow> int \<Rightarrow> 'b option \<Rightarrow> int \<Rightarrow> bool \<Rightarrow> 'b option \<times> 'kv"
  free_request :: "'kv \<Rightarrow> request \<Rightarrow> 'kv"
  len_req_blocks :: "'kv \<Rightarrow> rid \<Rightarrow> int"
  get_num_free_blocks :: "'kv \<Rightarrow> int"
  manager_block_ids :: "'kv \<Rightarrow> rid \<Rightarrow> int list list"
  get_block_ids :: "'b \<Rightarrow> int list list"
  get_num_common_prefix_blocks :: "'kv \<Rightarrow> request \<Rightarrow> int \<Rightarrow> int"
  take_events :: "'kv \<Rightarrow> string list \<times> 'kv"
  get_freed :: "'kv \<Rightarrow> freed_encoder \<times> 'kv"
  make_cached_request_data ::
    "request list \<Rightarrow> request list \<Rightarrow> (rid \<times> int) list \<Rightarrow> (rid \<times> int list) list \<Rightarrow>
     (rid \<times> 'b new_blocks_entry) list \<Rightarrow> 'c"
  super_schedule :: "('kv, 'cn) sched \<Rightarrow> (('c, 'm) scheduler_output \<times> ('kv, 'cn) sched) result"

type_synonym ('kv, 'cn, 'b) loop_state = "('kv, 'cn) sched \<times> 'b plan"

definition set_obj :: "rid \<Rightarrow> (request \<Rightarrow> request) \<Rightarrow> ('kv, 'cn) sched \<Rightarrow> ('kv, 'cn) sched" where
  "set_obj r f s = s\<lparr>obj := (obj s)(r := f (obj s r))\<rparr>"

subsection \<open>Helper methods\<close>

definition get_prompt_limit :: "('kv, 'b, 'c, 'cn, 'm) sched_env \<Rightarrow> request \<Rightarrow> int result" where
  "get_prompt_limit e r =
     (let prompt_limit =
        (if chunked_prefill_enabled e \<and> \<not> is_multi_step e then config_max_model_len e
         else min (config_max_model_len e) (max_num_batched_tokens e))
      in case lora_req r of
           None \<Rightarrow> Inr prompt_limit
         | Some l \<Rightarrow>
             (case long_lora_max_len l of
                None \<Rightarrow> Inr prompt_limit
              | Some n \<Rightarrow>
                  if n = 0 then Inr prompt_limit
                  else res_bind (py_assert (prompt_limit \<le> n)) (\<lambda>_. Inr n)))"

definition check_watermark_for_prefill ::
  "('kv, 'b, 'c, 'cn, 'm) sched_env \<Rightarrow> 'kv \<Rightarrow> request \<Rightarrow> int \<Rightarrow> kv_block list option \<Rightarrow> rat \<Rightarrow> bool" where
  "check_watermark_for_prefill e kv r num_new_tokens blocks watermark =
     (let computed_blocks = (case blocks of None \<Rightarrow> [] | Some bs \<Rightarrow> bs);
          watermark_blocks = of_int (num_kv_blocks e) * watermark;
          num_computed = num_computed_tokens r + int (length computed_blocks) * block_size e;
          num_required_blocks = cdiv e (num_new_tokens + num_computed) (block_size e);
          num_new_blocks = num_required_blocks - len_req_blocks e kv (request_id r)
                           - int (length computed_blocks);
          num_evictable_computed_blocks = int (length (filter (\<lambda>b. ref_cnt b = 0) computed_blocks))
      in \<not> of_int (get_num_free_blocks e kv - num_evictable_computed_blocks - num_new_blocks)
             < watermark_blocks)"

text \<open>The LoRA test that both loops make.\<close>

definition lora_exceeded :: "('kv, 'b, 'c, 'cn, 'm) sched_env \<Rightarrow> int set \<Rightarrow> request \<Rightarrow> bool" where
  "lora_exceeded e loras r =
     (case (lora_config e, lora_req r) of
        (Some max_loras, Some l) \<Rightarrow> int (card loras) = max_loras \<and> lora_int_id l \<notin> loras
      | _ \<Rightarrow> False)"

definition record_lora :: "('kv, 'b, 'c, 'cn, 'm) sched_env \<Rightarrow> request \<Rightarrow> 'b plan \<Rightarrow> 'b plan" where
  "record_lora e r p =
     (case (lora_config e, lora_req r) of
        (Some _, Some l) \<Rightarrow> p\<lparr>scheduled_loras := insert (lora_int_id l) (scheduled_loras p)\<rparr>
      | _ \<Rightarrow> p)"

definition record_event ::
  "('kv, 'b, 'c, 'cn, 'm) sched_env \<Rightarrow> engine_event \<Rightarrow> request \<Rightarrow> request" where
  "record_event e ev r = (if log_stats e then r\<lparr>events := events r @ [ev]\<rparr> else r)"

subsection \<open>One iteration of the prefill loop\<close>

definition skip_cur_request :: "rid \<Rightarrow> ('kv, 'cn, 'b) loop_state \<Rightarrow> ('kv, 'cn, 'b) loop_state" where
  "skip_cur_request r sp =
     (case sp of (s, p) \<Rightarrow>
        (s\<lparr>waiting := tl (waiting s)\<rparr>,
         p\<lparr>skipped_waiting_requests := r # skipped_waiting_requests p\<rparr>))"

text \<open>A request that waits for remote KV blocks: \<open>False\<close> when it is still not ready.\<close>

definition poll_remote_kv ::
  "('kv, 'b, 'c, 'cn, 'm) sched_env \<Rightarrow> ('kv, 'cn) sched \<Rightarrow> rid \<Rightarrow> bool \<times> ('kv, 'cn) sched" where
  "poll_remote_kv e s r =
     (if status (obj s r) = WAITING_FOR_REMOTE_KVS then
        (case update_waiting_for_remote_kv e (kv_state s) (obj s r) of
           (is_ready, kv', r') \<Rightarrow>
             (is_ready,
              set_obj r (\<lambda>_. if is_ready then r'\<lparr>status := WAITING\<rparr> else r') (s\<lparr>kv_state := kv'\<rparr>)))
      else (True, s))"

text \<open>The tokens that are already cached, here and at the connector's other end.\<close>

record 'b cached_tokens =
  ct_new_computed_blocks :: 'b
  ct_num_new_local :: int
  ct_num_external :: int
  ct_load_kv_async :: bool
  ct_num_computed :: int

definition get_cached_tokens ::
  "('kv, 'b, 'c, 'cn, 'm) sched_env \<Rightarrow> ('kv, 'cn) sched \<Rightarrow> rid \<Rightarrow> ('b cached_tokens \<times> ('kv, 'cn) sched) result" where
  "get_cached_tokens e s r =
     (if num_computed_tokens (obj s r) = 0 then
        (case get_computed_blocks e (kv_state s) (obj s r) of
           ((blocks, n_local), kv') \<Rightarrow>
             res_bind
               (case connector e of
                  None \<Rightarrow> Inr (0, False)
                | Some c \<Rightarrow> cn_get_num_new_matched_tokens c (cn_state s) (obj s r) n_local)
               (\<lambda>(n_ext, async).
                  Inr (\<lparr>ct_new_computed_blocks = blocks, ct_num_new_local = n_local,
                        ct_num_external = n_ext, ct_load_kv_async = async,
                        ct_num_computed = n_local + n_ext\<rparr>,
                       s\<lparr>kv_state := kv'\<rparr>)))
      else
        Inr (\<lparr>ct_new_computed_blocks = create_empty_block_list e (kv_state s),
              ct_num_new_local = 0, ct_num_external = 0, ct_load_kv_async = False,
              ct_num_computed = num_computed_tokens (obj s r)\<rparr>, s))"

text \<open>How many tokens to schedule, or why not.\<close>

datatype token_decision = Ignore_Too_Long | Skip_Over_Budget | Tokens int "kv_block list option"

definition decide_tokens ::
  "('kv, 'b, 'c, 'cn, 'm) sched_env \<Rightarrow> int \<Rightarrow> request \<Rightarrow> 'b cached_tokens \<Rightarrow> token_decision result" where
  "decide_tokens e budget r ct =
     (if ct_load_kv_async ct then
        res_bind (py_assert (ct_num_external ct > 0)) (\<lambda>_. Inr (Tokens 0 None))
      else
        res_bind (get_prompt_limit e r) (\<lambda>limit.
          let num_new_tokens = num_tokens r - ct_num_computed ct;
              max_tokens_in_kvcache = num_kv_blocks e * block_size e;
              prompt_limit = min limit max_tokens_in_kvcache
          in if num_new_tokens > prompt_limit then Inr Ignore_Too_Long
             else if num_new_tokens > budget then Inr Skip_Over_Budget
             else res_bind (py_assert (num_new_tokens > 0))
                    (\<lambda>_. Inr (Tokens num_new_tokens
                               (Some (first_group_blocks e (ct_new_computed_blocks ct)))))))"

text \<open>A prompt over the limit: the request leaves the queue as finished.\<close>

definition finish_ignored :: "rid \<Rightarrow> ('kv, 'cn, 'b) loop_state \<Rightarrow> ('kv, 'cn, 'b) loop_state" where
  "finish_ignored r sp =
     (case sp of (s, p) \<Rightarrow>
        ((set_obj r (\<lambda>q. q\<lparr>status := FINISHED_IGNORED\<rparr>) s)
           \<lparr>finished_req_ids := insert r (finished_req_ids s),
            waiting := tl (waiting s)\<rparr>, p))"

text \<open>Everything after the allocation of a request that is scheduled now.\<close>

definition admit_prefill ::
  "('kv, 'b, 'c, 'cn, 'm) sched_env \<Rightarrow> rid \<Rightarrow> int \<Rightarrow> int \<Rightarrow> 'b \<Rightarrow> ('kv, 'cn, 'b) loop_state \<Rightarrow>
   ('kv, 'cn, 'b) loop_state result" where
  "admit_prefill e r num_new_tokens num_computed new_blocks sp =
     (case sp of (s, p) \<Rightarrow>
        let s1 = (set_obj r (record_event e EV_SCHEDULED) s)
                   \<lparr>running := running s @ [r],
                    scheduled_req_ids := insert r (scheduled_req_ids s)\<rparr>;
            entry = (if is_vllm_0_10_1_1 e then BlockIds (manager_block_ids e (kv_state s1) r)
                     else Blocks new_blocks);
            finish = (\<lambda>p1.
              let p2 = record_lora e (obj s1 r) p1;
                  p3 = p2\<lparr>req_to_new_blocks := dict_set r entry (req_to_new_blocks p2),
                          num_scheduled_tokens := dict_set r num_new_tokens (num_scheduled_tokens p2),
                          token_budget := token_budget p2 - num_new_tokens\<rparr>;
                  s2 = set_obj r (\<lambda>q. q\<lparr>status := RUNNING, num_computed_tokens := num_computed,
                                       num_cached_tokens := (if num_cached_tokens q < 0 then num_computed
                                                             else num_cached_tokens q)\<rparr>) s1
              in Inr (s2, p3))
        in if status (obj s1 r) = WAITING then
             finish (p\<lparr>scheduled_new_reqs := scheduled_new_reqs p @ [r]\<rparr>)
           else if status (obj s1 r) = PREEMPTED then
             finish (p\<lparr>scheduled_resumed_reqs := scheduled_resumed_reqs p @ [r]\<rparr>)
           else Inl RuntimeError)"

text \<open>Allocation of the blocks, the connector's bookkeeping, and what becomes of the request.\<close>

definition allocate_prefill ::
  "('kv, 'b, 'c, 'cn, 'm) sched_env \<Rightarrow> rid \<Rightarrow> int \<Rightarrow> 'b cached_tokens \<Rightarrow> ('kv, 'cn, 'b) loop_state \<Rightarrow>
   ('kv, 'cn, 'b) loop_state flow" where
  "allocate_prefill e r num_new_tokens ct sp =
     (case sp of (s, p) \<Rightarrow>
        (case allocate_slots e (kv_state s) (obj s r) (num_new_tokens + ct_num_external ct)
                (ct_num_new_local ct) (Some (ct_new_computed_blocks ct)) (num_lookahead_tokens e)
                (ct_load_kv_async ct) of
           (None, kv') \<Rightarrow> Break (s\<lparr>kv_state := kv'\<rparr>, p)
         | (Some new_blocks, kv') \<Rightarrow>
             flow_bind
               (case connector e of
                  None \<Rightarrow> Inr (s\<lparr>kv_state := kv'\<rparr>)
                | Some c \<Rightarrow>
                    res_bind (cn_update_state_after_alloc c (cn_state s) (obj s r)
                                (add_blocks e (ct_new_computed_blocks ct) new_blocks)
                                (ct_num_external ct))
                      (\<lambda>(cn', r'). Inr (set_obj r (\<lambda>_. r') (s\<lparr>kv_state := kv', cn_state := cn'\<rparr>))))
               (\<lambda>s1.
                  let s2 = s1\<lparr>waiting := tl (waiting s1)\<rparr> in
                  if ct_load_kv_async ct then
                    Continue (set_obj r (\<lambda>q. q\<lparr>status := WAITING_FOR_REMOTE_KVS\<rparr>) s2,
                              p\<lparr>skipped_waiting_requests := r # skipped_waiting_requests p\<rparr>)
                  else
                    flow_bind (admit_prefill e r num_new_tokens (ct_num_computed ct) new_blocks (s2, p))
                      Continue)))"

definition act_on_decision ::
  "('kv, 'b, 'c, 'cn, 'm) sched_env \<Rightarrow> rid \<Rightarrow> 'b cached_tokens \<Rightarrow> token_decision \<Rightarrow>
   ('kv, 'cn, 'b) loop_state \<Rightarrow> ('kv, 'cn, 'b) loop_state flow" where
  "act_on_decision e r ct d sp =
     (case d of
        Ignore_Too_Long \<Rightarrow> Continue (finish_ignored r sp)
      | Skip_Over_Budget \<Rightarrow> Continue (skip_cur_request r sp)
      | Tokens num_new_tokens blocks \<Rightarrow>
          let watermark = (case config_watermark e of None \<Rightarrow> 1 / 100 | Some w \<Rightarrow> w) in
          if \<not> check_watermark_for_prefill e (kv_state (fst sp)) (obj (fst sp) r) num_new_tokens blocks watermark
          then Continue (skip_cur_request r sp)
          else allocate_prefill e r num_new_tokens ct sp)"

definition prefill_step ::
  "('kv, 'b, 'c, 'cn, 'm) sched_env \<Rightarrow> ('kv, 'cn, 'b) loop_state \<Rightarrow> ('kv, 'cn, 'b) loop_state flow" where
  "prefill_step e sp =
     (case sp of (s, p) \<Rightarrow>
        if int (length (running s)) = max_num_running_reqs e then Break (s, p)
        else
          let r = hd (waiting s); (is_ready, s1) = poll_remote_kv e s r in
          if \<not> is_ready then Continue (skip_cur_request r (s1, p))
          else if lora_exceeded e (scheduled_loras p) (obj s1 r) then
            Continue (skip_cur_request r (s1, p))
          else
            flow_bind (get_cached_tokens e s1 r) (\<lambda>(ct, s2).
              flow_bind (decide_tokens e (token_budget p) (obj s2 r) ct) (\<lambda>d.
                act_on_decision e r ct d (s2, p))))"

text \<open>Every iteration that goes on takes one request off the waiting queue.\<close>

lemma waiting_set_obj [simp]: "waiting (set_obj r f s) = waiting s"
  and running_set_obj [simp]: "running (set_obj r f s) = running s"
  and requests_set_obj [simp]: "requests (set_obj r f s) = requests s"
  and scheduled_set_obj [simp]: "scheduled_req_ids (set_obj r f s) = scheduled_req_ids s"
  and finished_set_obj [simp]: "finished_req_ids (set_obj r f s) = finished_req_ids s"
  and kv_set_obj [simp]: "kv_state (set_obj r f s) = kv_state s"
  and cn_set_obj [simp]: "cn_state (set_obj r f s) = cn_state s"
  and published_set_obj [simp]: "published (set_obj r f s) = published s"
  and obj_set_obj [simp]: "obj (set_obj r f s) = (obj s)(r := f (obj s r))"
  by (simp_all add: set_obj_def)

text \<open>
  Polling and looking up cached tokens touch the request objects and the KV state only: the
  queues are the same before and after.
\<close>

definition same_queues :: "('kv, 'cn) sched \<Rightarrow> ('kv, 'cn) sched \<Rightarrow> bool" where
  "same_queues s t \<longleftrightarrow> waiting t = waiting s \<and> running t = running s \<and>
     requests t = requests s \<and> scheduled_req_ids t = scheduled_req_ids s \<and>
     finished_req_ids t = finished_req_ids s \<and> published t = published s"

lemma poll_remote_kv_same: "poll_remote_kv e s r = (b, t) \<Longrightarrow> same_queues s t"
  by (auto simp: poll_remote_kv_def same_queues_def split: if_splits prod.splits)

lemma get_cached_tokens_same: "get_cached_tokens e s r = Inr (ct, t) \<Longrightarrow> same_queues s t"
  by (auto simp: get_cached_tokens_def same_queues_def res_bind_eq_Inr split: if_splits prod.splits)

lemma admit_prefill_waiting:
  "admit_prefill e r n c nb (s, p) = Inr (s', p') \<Longrightarrow> waiting s' = waiting s"
  by (auto simp: admit_prefill_def Let_def split: if_splits)

lemma allocate_prefill_waiting:
  "allocate_prefill e r n ct (s, p) = Continue (s', p') \<Longrightarrow> waiting s' = tl (waiting s)"
  by (auto simp: allocate_prefill_def flow_elims res_elims Let_def dest!: admit_prefill_waiting
      split: prod.splits option.splits if_splits)

text \<open>
  The four ways in which an iteration goes on or stops, with what each has established. All facts
  about the loop go through these two rules.
\<close>

lemma same_queues_trans: "same_queues s t \<Longrightarrow> same_queues t u \<Longrightarrow> same_queues s u"
  by (simp add: same_queues_def)

lemma decide_tokens_Tokens:
  "decide_tokens e budget r ct = Inr (Tokens n bs) \<Longrightarrow>
   ct_load_kv_async ct \<and> n = 0 \<and> ct_num_external ct > 0 \<or>
   \<not> ct_load_kv_async ct \<and> 0 < n \<and> n \<le> budget \<and> n = num_tokens r - ct_num_computed ct"
  by (auto simp: decide_tokens_def res_elims Let_def split: if_splits)

lemma prefill_step_Continue:
  assumes "prefill_step e (s, p) = Continue sp'"
  obtains
    (skip) t where "same_queues s t" "sp' = skip_cur_request (hd (waiting s)) (t, p)"
  | (ignore) t where "same_queues s t" "sp' = finish_ignored (hd (waiting s)) (t, p)"
  | (alloc) t n ct where "same_queues s t" "int (length (running s)) \<noteq> max_num_running_reqs e"
      "\<exists>u. same_queues s u \<and> \<not> lora_exceeded e (scheduled_loras p) (obj u (hd (waiting s))) \<and>
           obj t = obj u"
      "ct_load_kv_async ct \<or> 0 < n \<and> n \<le> token_budget p \<and>
         n = num_tokens (obj t (hd (waiting s))) - ct_num_computed ct"
      "allocate_prefill e (hd (waiting s)) n ct (t, p) = Continue sp'"
proof -
  let ?r = "hd (waiting s)"
  obtain b s1 where poll: "poll_remote_kv e s ?r = (b, s1)" by (cases "poll_remote_kv e s ?r")
  note q1 = poll_remote_kv_same [OF poll]
  have nb: "int (length (running s)) \<noteq> max_num_running_reqs e"
    using assms by (auto simp: prefill_step_def)
  show thesis
  proof (cases "b \<and> \<not> lora_exceeded e (scheduled_loras p) (obj s1 ?r)")
    case False
    then have "sp' = skip_cur_request ?r (s1, p)"
      using assms nb poll by (auto simp: prefill_step_def Let_def split: if_splits)
    then show thesis using skip q1 by blast
  next
    case True
    with assms nb poll obtain ct s2 d where
      ct: "get_cached_tokens e s1 ?r = Inr (ct, s2)" and
      d: "decide_tokens e (token_budget p) (obj s2 ?r) ct = Inr d" and
      res: "act_on_decision e ?r ct d (s2, p) = Continue sp'"
      by (auto simp: prefill_step_def flow_elims Let_def)
    from q1 get_cached_tokens_same [OF ct] have q2: "same_queues s s2" by (rule same_queues_trans)
    have ob: "obj s2 = obj s1"
      using ct by (auto simp: get_cached_tokens_def res_elims split: if_splits prod.splits)
    show thesis
    proof (cases d)
      case (Tokens n bs)
      then have "ct_load_kv_async ct \<or> 0 < n \<and> n \<le> token_budget p \<and>
         n = num_tokens (obj s2 ?r) - ct_num_computed ct"
        using decide_tokens_Tokens d by blast
      then show thesis
        using Tokens res alloc [OF q2 nb] skip [OF q2] q1 ob True
        by (auto simp: act_on_decision_def Let_def split: if_splits)
    qed (use res q2 skip ignore in \<open>auto simp: act_on_decision_def\<close>)
  qed
qed

lemma prefill_step_Break:
  assumes "prefill_step e (s, p) = Break (s', p')"
  shows "same_queues s s' \<and> p' = p"
proof (cases "int (length (running s)) = max_num_running_reqs e")
  case True
  then show ?thesis using assms by (simp add: prefill_step_def same_queues_def)
next
  case False
  let ?r = "hd (waiting s)"
  obtain b s1 where poll: "poll_remote_kv e s ?r = (b, s1)" by (cases "poll_remote_kv e s ?r")
  from False assms poll obtain ct s2 d where
    ct: "get_cached_tokens e s1 ?r = Inr (ct, s2)" and
    res: "act_on_decision e ?r ct d (s2, p) = Break (s', p')"
    by (auto simp: prefill_step_def flow_elims Let_def split: if_splits)
  from res obtain n where al: "allocate_prefill e ?r n ct (s2, p) = Break (s', p')"
    by (cases d) (auto simp: act_on_decision_def Let_def split: if_splits)
  have "same_queues s2 s' \<and> p' = p"
    using al by (auto simp: allocate_prefill_def same_queues_def flow_elims Let_def
        split: prod.splits option.splits if_splits)
  then show ?thesis
    using poll_remote_kv_same [OF poll] get_cached_tokens_same [OF ct] same_queues_trans by blast
qed

lemma prefill_step_waiting:
  assumes "prefill_step e (s, p) = Continue (s', p')"
  shows "waiting s' = tl (waiting s)"
  using assms
  by (cases rule: prefill_step_Continue)
    (auto simp: skip_cur_request_def finish_ignored_def same_queues_def dest: allocate_prefill_waiting)

function prefill_loop ::
  "('kv, 'b, 'c, 'cn, 'm) sched_env \<Rightarrow> ('kv, 'cn, 'b) loop_state \<Rightarrow> ('kv, 'cn, 'b) loop_state result" where
  "prefill_loop e sp =
     (if waiting (fst sp) \<noteq> [] \<and> token_budget (snd sp) > 0 then
        (case prefill_step e sp of
           Raise x \<Rightarrow> Inl x
         | Break sp' \<Rightarrow> Inr sp'
         | Continue sp' \<Rightarrow> prefill_loop e sp')
      else Inr sp)"
  by pat_completeness auto
termination
proof (relation "measure (\<lambda>(e, sp). length (waiting (fst sp)))", goal_cases)
  case (2 e sp sp')
  then show ?case
    by (cases sp; cases sp'; cases "waiting (fst sp)") (auto dest: prefill_step_waiting)
qed simp

declare prefill_loop.simps [simp del]

text \<open>The requests that were skipped go back to the head of the waiting queue.\<close>

definition put_back_skipped :: "('kv, 'cn, 'b) loop_state \<Rightarrow> ('kv, 'cn, 'b) loop_state" where
  "put_back_skipped sp =
     (case sp of (s, p) \<Rightarrow> (s\<lparr>waiting := rev (skipped_waiting_requests p) @ waiting s\<rparr>, p))"

subsection \<open>The decode loop\<close>

definition preempt_last ::
  "('kv, 'b, 'c, 'cn, 'm) sched_env \<Rightarrow> ('kv, 'cn, 'b) loop_state \<Rightarrow> rid \<Rightarrow> ('kv, 'cn, 'b) loop_state" where
  "preempt_last e sp v =
     (case sp of (s, p) \<Rightarrow>
        (set_obj v (\<lambda>q. record_event e EV_PREEMPTED (q\<lparr>status := PREEMPTED, num_computed_tokens := 0\<rparr>))
           (s\<lparr>running := butlast (running s), kv_state := free_request e (kv_state s) (obj s v),
              waiting := v # waiting s\<rparr>),
         p\<lparr>preempted_reqs := preempted_reqs p @ [v]\<rparr>))"

text \<open>
  The inner \<^verbatim>\<open>while True\<close>: allocate, and while there is no room preempt the last running request;
  \<open>None\<close> when the request itself was preempted.
\<close>

function preempt_loop ::
  "('kv, 'b, 'c, 'cn, 'm) sched_env \<Rightarrow> rid \<Rightarrow> int \<Rightarrow> ('kv, 'cn, 'b) loop_state \<Rightarrow>
   ('b option \<times> ('kv, 'cn, 'b) loop_state) result" where
  "preempt_loop e r n (s, p) =
     (case allocate_slots e (kv_state s) (obj s r) n 0 None (num_lookahead_tokens e) False of
        (Some new_blocks, kv') \<Rightarrow> Inr (Some new_blocks, (s\<lparr>kv_state := kv'\<rparr>, p))
      | (None, kv') \<Rightarrow>
          if running s = [] then Inl IndexError
          else
            let v = last (running s); sp' = preempt_last e (s\<lparr>kv_state := kv'\<rparr>, p) v in
            if v = r then Inr (None, sp') else preempt_loop e r n sp')"
  by pat_completeness auto
termination
  by (relation "measure (\<lambda>(e, r, n, s, p). length (running s))")
    (auto simp: preempt_last_def set_obj_def)

declare preempt_loop.simps [simp del]

definition num_decode_tokens ::
  "('kv, 'b, 'c, 'cn, 'm) sched_env \<Rightarrow> 'b plan \<Rightarrow> request \<Rightarrow> int result" where
  "num_decode_tokens e p r =
     res_bind (py_assert (num_tokens r - num_computed_tokens r = 1)) (\<lambda>_.
       let n0 = num_tokens_with_spec e r - num_computed_tokens r;
           n1 = min n0 (token_budget p);
           n2 = min n1 (max_model_len e - num_computed_tokens r)
       in Inr (if lora_exceeded e (scheduled_loras p) r then 0 else n2))"

text \<open>The request's draft tokens, cut to the ones that are scheduled.\<close>

definition schedule_spec_tokens :: "rid \<Rightarrow> int \<Rightarrow> ('kv, 'cn, 'b) loop_state \<Rightarrow> ('kv, 'cn, 'b) loop_state" where
  "schedule_spec_tokens r num_new_tokens sp =
     (case sp of (s, p) \<Rightarrow>
        let q = obj s r; k = num_new_tokens + num_computed_tokens q - num_tokens q in
        if spec_token_ids q \<noteq> [] \<and> k > 0 then
          let ids = take (nat k) (spec_token_ids q)
          in (set_obj r (\<lambda>q. q\<lparr>spec_token_ids := ids\<rparr>) s,
              p\<lparr>scheduled_spec_decode_tokens := dict_set r ids (scheduled_spec_decode_tokens p)\<rparr>)
        else (s, p))"

definition admit_decode ::
  "('kv, 'b, 'c, 'cn, 'm) sched_env \<Rightarrow> rid \<Rightarrow> int \<Rightarrow> 'b \<Rightarrow> ('kv, 'cn, 'b) loop_state \<Rightarrow> ('kv, 'cn, 'b) loop_state" where
  "admit_decode e r num_new_tokens new_blocks sp =
     (case sp of (s, p) \<Rightarrow>
        let entry = (if is_vllm_0_10_1_1 e then BlockIds (get_block_ids e new_blocks) else Blocks new_blocks);
            s1 = s\<lparr>scheduled_req_ids := insert r (scheduled_req_ids s)\<rparr>;
            p1 = p\<lparr>scheduled_running_reqs := scheduled_running_reqs p @ [r],
                   req_to_new_blocks := dict_set r entry (req_to_new_blocks p),
                   num_scheduled_tokens := dict_set r num_new_tokens (num_scheduled_tokens p),
                   token_budget := token_budget p - num_new_tokens\<rparr>
        in (case schedule_spec_tokens r num_new_tokens (s1, p1) of
              (s2, p2) \<Rightarrow> (s2, record_lora e (obj s2 r) p2)))"

definition decode_step ::
  "('kv, 'b, 'c, 'cn, 'm) sched_env \<Rightarrow> nat \<Rightarrow> ('kv, 'cn, 'b) loop_state \<Rightarrow> ('kv, 'cn, 'b) loop_state flow" where
  "decode_step e req_index sp =
     (case sp of (s, p) \<Rightarrow>
        let r = running s ! req_index in
        if r \<in> scheduled_req_ids s then Continue (s, p)
        else
          flow_bind (num_decode_tokens e p (obj s r)) (\<lambda>num_new_tokens.
            if num_new_tokens = 0 then Continue (s, p)
            else
              flow_bind (preempt_loop e r num_new_tokens (s, p)) (\<lambda>(nb, sp').
                case nb of
                  None \<Rightarrow> Break sp'
                | Some new_blocks \<Rightarrow> Continue (admit_decode e r num_new_tokens new_blocks sp'))))"

lemma preempt_loop_shrinks:
  "preempt_loop e r n (s, p) = Inr (nb, (s', p')) \<Longrightarrow> length (running s') \<le> length (running s)"
proof (induction e r n "(s, p)" arbitrary: s p rule: preempt_loop.induct)
  case (1 e r n s p)
  obtain bl kv' where al: "allocate_slots e (kv_state s) (obj s r) n 0 None (num_lookahead_tokens e) False = (bl, kv')"
    by fastforce
  let ?t = "preempt_last e (s\<lparr>kv_state := kv'\<rparr>, p) (last (running s))"
  show ?case
  proof (cases "bl = None \<and> running s \<noteq> [] \<and> last (running s) \<noteq> r")
    case True
    obtain s1 p1 where t: "?t = (s1, p1)" by fastforce
    have "length (running s') \<le> length (running s1)"
      using "1.hyps" [OF al [symmetric]] True t "1.prems" al by (simp add: preempt_loop.simps [of e r n s p])
    also have "\<dots> \<le> length (running s)" using t by (auto simp: preempt_last_def)
    finally show ?thesis .
  next
    case False
    then show ?thesis using "1.prems" al
      by (auto simp: preempt_loop.simps [of e r n s p] preempt_last_def Let_def split: option.splits if_splits)
  qed
qed

lemma schedule_spec_tokens_fields:
  assumes "schedule_spec_tokens r n (s, p) = (s', p')"
  shows "same_queues s s'" "\<exists>d. p' = p\<lparr>scheduled_spec_decode_tokens := d\<rparr>"
    "\<exists>d. obj s' = (obj s)(r := (obj s r)\<lparr>spec_token_ids := d\<rparr>)"
proof -
  have "\<exists>d. p = p\<lparr>scheduled_spec_decode_tokens := d\<rparr>"
    by (rule exI [of _ "scheduled_spec_decode_tokens p"]) simp
  then show "\<exists>d. p' = p\<lparr>scheduled_spec_decode_tokens := d\<rparr>"
    using assms by (auto simp: schedule_spec_tokens_def Let_def split: if_splits)
  have "\<exists>d. obj s = (obj s)(r := (obj s r)\<lparr>spec_token_ids := d\<rparr>)"
    by (rule exI [of _ "spec_token_ids (obj s r)"]) simp
  then show "\<exists>d. obj s' = (obj s)(r := (obj s r)\<lparr>spec_token_ids := d\<rparr>)"
    using assms by (auto simp: schedule_spec_tokens_def Let_def split: if_splits)
qed (use assms in \<open>auto simp: schedule_spec_tokens_def same_queues_def Let_def split: if_splits\<close>)

lemma record_lora_fields [simp]:
  "token_budget (record_lora e q p) = token_budget p"
  "scheduled_new_reqs (record_lora e q p) = scheduled_new_reqs p"
  "scheduled_resumed_reqs (record_lora e q p) = scheduled_resumed_reqs p"
  "scheduled_running_reqs (record_lora e q p) = scheduled_running_reqs p"
  "preempted_reqs (record_lora e q p) = preempted_reqs p"
  "num_scheduled_tokens (record_lora e q p) = num_scheduled_tokens p"
  "req_to_new_blocks (record_lora e q p) = req_to_new_blocks p"
  "scheduled_spec_decode_tokens (record_lora e q p) = scheduled_spec_decode_tokens p"
  "skipped_waiting_requests (record_lora e q p) = skipped_waiting_requests p"
  by (simp_all add: record_lora_def split: option.split)

lemma record_lora_ignores:
  "record_lora e (q\<lparr>spec_token_ids := d\<rparr>) p = record_lora e q p"
  by (simp add: record_lora_def)

lemma admit_decode_fields:
  assumes "admit_decode e r n nb (s, p) = (s', p')"
  shows "running s' = running s" "waiting s' = waiting s" "requests s' = requests s"
    "scheduled_req_ids s' = insert r (scheduled_req_ids s)"
    "finished_req_ids s' = finished_req_ids s"
    "\<exists>d. obj s' = (obj s)(r := (obj s r)\<lparr>spec_token_ids := d\<rparr>)"
    "token_budget p' = token_budget p - n"
    "scheduled_new_reqs p' = scheduled_new_reqs p" "scheduled_resumed_reqs p' = scheduled_resumed_reqs p"
    "scheduled_running_reqs p' = scheduled_running_reqs p @ [r]"
    "preempted_reqs p' = preempted_reqs p"
    "num_scheduled_tokens p' = dict_set r n (num_scheduled_tokens p)"
    "fst ` set (req_to_new_blocks p') = insert r (fst ` set (req_to_new_blocks p))"
    "scheduled_loras p' = scheduled_loras (record_lora e (obj s r) p)"
    "skipped_waiting_requests p' = skipped_waiting_requests p"
proof -
  let ?s1 = "s\<lparr>scheduled_req_ids := insert r (scheduled_req_ids s)\<rparr>"
  let ?entry = "if is_vllm_0_10_1_1 e then BlockIds (get_block_ids e nb) else Blocks nb"
  let ?p1 = "p\<lparr>scheduled_running_reqs := scheduled_running_reqs p @ [r],
                req_to_new_blocks := dict_set r ?entry (req_to_new_blocks p),
                num_scheduled_tokens := dict_set r n (num_scheduled_tokens p),
                token_budget := token_budget p - n\<rparr>"
  obtain s2 p2 where spec: "schedule_spec_tokens r n (?s1, ?p1) = (s2, p2)" by fastforce
  have eq: "s' = s2" "p' = record_lora e (obj s2 r) p2"
    using assms spec by (auto simp: admit_decode_def Let_def split: prod.splits if_splits)
  note f = schedule_spec_tokens_fields [OF spec, unfolded same_queues_def]
  obtain d where p2: "p2 = ?p1\<lparr>scheduled_spec_decode_tokens := d\<rparr>" using f(2) by blast
  obtain d' where o2: "obj s2 = (obj s)(r := (obj s r)\<lparr>spec_token_ids := d'\<rparr>)" using f(3) by auto
  show "running s' = running s" "waiting s' = waiting s" "requests s' = requests s"
    "scheduled_req_ids s' = insert r (scheduled_req_ids s)" "finished_req_ids s' = finished_req_ids s"
    "\<exists>d. obj s' = (obj s)(r := (obj s r)\<lparr>spec_token_ids := d\<rparr>)"
    using eq f(1) o2 by auto
  show "scheduled_loras p' = scheduled_loras (record_lora e (obj s r) p)"
    unfolding eq o2 by (simp add: record_lora_ignores) (simp add: record_lora_def p2 split: option.split)
  show "token_budget p' = token_budget p - n"
    "scheduled_new_reqs p' = scheduled_new_reqs p" "scheduled_resumed_reqs p' = scheduled_resumed_reqs p"
    "scheduled_running_reqs p' = scheduled_running_reqs p @ [r]" "preempted_reqs p' = preempted_reqs p"
    "num_scheduled_tokens p' = dict_set r n (num_scheduled_tokens p)"
    "fst ` set (req_to_new_blocks p') = insert r (fst ` set (req_to_new_blocks p))"
    "skipped_waiting_requests p' = skipped_waiting_requests p"
    by (simp_all add: eq p2 fst_set_dict_set)
qed

function decode_loop ::
  "('kv, 'b, 'c, 'cn, 'm) sched_env \<Rightarrow> nat \<Rightarrow> ('kv, 'cn, 'b) loop_state \<Rightarrow> ('kv, 'cn, 'b) loop_state result" where
  "decode_loop e req_index sp =
     (if req_index < length (running (fst sp)) \<and> token_budget (snd sp) > 0 then
        (case decode_step e req_index sp of
           Raise x \<Rightarrow> Inl x
         | Break sp' \<Rightarrow> Inr sp'
         | Continue sp' \<Rightarrow> decode_loop e (Suc req_index) sp')
      else Inr sp)"
  by pat_completeness auto

termination
proof (relation "measure (\<lambda>(e, i, sp). length (running (fst sp)) - i)", goal_cases)
  case (2 e i sp sp')
  obtain s p s' p' where sp: "sp = (s, p)" "sp' = (s', p')" by (cases sp; cases sp')
  have "length (running s') \<le> length (running s)"
    using 2 sp by (auto simp: decode_step_def flow_elims Let_def split: if_splits option.splits
        dest!: preempt_loop_shrinks admit_decode_fields(1))
  with 2 sp show ?case by auto
qed simp

declare decode_loop.simps [simp del]

subsection \<open>The whole step\<close>

definition initial_plan :: "('kv, 'b, 'c, 'cn, 'm) sched_env \<Rightarrow> 'b plan" where
  "initial_plan e =
     \<lparr>token_budget = max_num_scheduled_tokens e, scheduled_new_reqs = [], scheduled_resumed_reqs = [],
      scheduled_running_reqs = [], preempted_reqs = [], num_scheduled_tokens = [],
      req_to_new_blocks = [], scheduled_spec_decode_tokens = [], scheduled_loras = {},
      skipped_waiting_requests = []\<rparr>"

text \<open>Prefill requests first; decode requests only when no prefill is in flight.\<close>

definition prefill_phase ::
  "('kv, 'b, 'c, 'cn, 'm) sched_env \<Rightarrow> ('kv, 'cn) sched \<Rightarrow> ('kv, 'cn, 'b) loop_state result" where
  "prefill_phase e s =
     res_bind (prefill_loop e (s, initial_plan e)) (\<lambda>sp. Inr (put_back_skipped sp))"

definition schedule_plan ::
  "('kv, 'b, 'c, 'cn, 'm) sched_env \<Rightarrow> ('kv, 'cn) sched \<Rightarrow> ('kv, 'cn, 'b) loop_state result" where
  "schedule_plan e s =
     res_bind (prefill_phase e s) (\<lambda>sp.
       if card (scheduled_req_ids (fst sp)) = 0 then decode_loop e 0 sp else Inr sp)"

definition check_constraints ::
  "('kv, 'b, 'c, 'cn, 'm) sched_env \<Rightarrow> ('kv, 'cn, 'b) loop_state \<Rightarrow> int result" where
  "check_constraints e sp =
     (case sp of (s, p) \<Rightarrow>
        let tot = sum_list (map snd (num_scheduled_tokens p)) in
        res_bind (py_assert (tot \<le> max_num_scheduled_tokens e)) (\<lambda>_.
        res_bind (py_assert (token_budget p \<ge> 0)) (\<lambda>_.
        res_bind (py_assert (int (length (running s)) \<le> max_num_running_reqs e)) (\<lambda>_.
        res_bind (py_assert (length (scheduled_new_reqs p) + length (scheduled_resumed_reqs p)
                             + length (scheduled_running_reqs p) \<le> length (running s))) (\<lambda>_.
        Inr tot)))))"

fun entry_block_ids :: "('kv, 'b, 'c, 'cn, 'm) sched_env \<Rightarrow> 'b new_blocks_entry \<Rightarrow> int list list" where
  "entry_block_ids e (BlockIds ids) = ids"
| "entry_block_ids e (Blocks b) = get_block_ids e b"

fun new_reqs_data ::
  "('kv, 'b, 'c, 'cn, 'm) sched_env \<Rightarrow> (rid \<Rightarrow> request) \<Rightarrow> (rid \<times> 'b new_blocks_entry) list \<Rightarrow> rid list \<Rightarrow>
   (request \<times> int list list) list result" where
  "new_reqs_data e ob d [] = Inr []"
| "new_reqs_data e ob d (r # rs) =
     res_bind (dict_item d r) (\<lambda>b.
     res_bind (new_reqs_data e ob d rs) (\<lambda>xs. Inr ((ob r, entry_block_ids e b) # xs)))"

definition build_output ::
  "('kv, 'b, 'c, 'cn, 'm) sched_env \<Rightarrow> int \<Rightarrow> ('kv, 'cn, 'b) loop_state \<Rightarrow>
   (('c, 'm) scheduler_output \<times> ('kv, 'cn) sched) result" where
  "build_output e tot sp =
     (case sp of (s, p) \<Rightarrow>
        let num_common =
              (case running s of [] \<Rightarrow> 0
               | r # _ \<Rightarrow> get_num_common_prefix_blocks e (kv_state s) (obj s r) (int (length (running s))))
        in res_bind (new_reqs_data e (obj s) (req_to_new_blocks p) (scheduled_new_reqs p)) (\<lambda>news.
             case get_freed e (kv_state s) of (freed, kv') \<Rightarrow>
               Inr (\<lparr>so_scheduled_new_reqs = news,
                     so_scheduled_cached_reqs =
                       make_cached_request_data e (map (obj s) (scheduled_running_reqs p))
                         (map (obj s) (scheduled_resumed_reqs p)) (num_scheduled_tokens p)
                         (scheduled_spec_decode_tokens p) (req_to_new_blocks p),
                     so_num_scheduled_tokens = num_scheduled_tokens p,
                     so_total_num_scheduled_tokens = tot,
                     so_scheduled_spec_decode_tokens = scheduled_spec_decode_tokens p,
                     so_num_common_prefix_blocks = num_common,
                     so_finished_req_ids = finished_req_ids s,
                     so_freed_encoder = freed,
                     so_kv_connector_metadata = None\<rparr>,
                    s\<lparr>kv_state := kv'\<rparr>)))"

definition attach_connector_meta ::
  "('kv, 'b, 'c, 'cn, 'm) sched_env \<Rightarrow> ('c, 'm) scheduler_output \<times> ('kv, 'cn) sched \<Rightarrow>
   (('c, 'm) scheduler_output \<times> ('kv, 'cn) sched) result" where
  "attach_connector_meta e os =
     (case os of (out, s) \<Rightarrow>
        (case connector e of
           None \<Rightarrow> Inr (out, s)
         | Some c \<Rightarrow>
             res_bind (cn_build_connector_meta c (cn_state s) (obj s)) (\<lambda>(cn', meta).
               Inr (out\<lparr>so_kv_connector_metadata := Some meta\<rparr>, s\<lparr>cn_state := cn'\<rparr>))))"

definition publish_events ::
  "('kv, 'b, 'c, 'cn, 'm) sched_env \<Rightarrow> ('kv, 'cn) sched \<Rightarrow> ('kv, 'cn) sched" where
  "publish_events e s =
     (case take_events e (kv_state s) of (evs, kv') \<Rightarrow>
        s\<lparr>kv_state := kv', published := (if evs = [] then published s else published s @ [evs])\<rparr>)"

definition advance_computed ::
  "('kv, 'cn) sched \<Rightarrow> rid \<times> int \<Rightarrow> ('kv, 'cn) sched result" where
  "advance_computed s rn =
     (case rn of (r, n) \<Rightarrow>
        if r \<in> requests s then
          Inr (set_obj r (\<lambda>q. q\<lparr>num_computed_tokens := num_computed_tokens q + n\<rparr>) s)
        else Inl KeyError)"

definition finish_schedule ::
  "('kv, 'b, 'c, 'cn, 'm) sched_env \<Rightarrow> ('kv, 'cn, 'b) loop_state \<Rightarrow>
   (('c, 'm) scheduler_output \<times> ('kv, 'cn) sched) result" where
  "finish_schedule e sp =
     res_bind (check_constraints e sp) (\<lambda>tot.
     res_bind (build_output e tot sp) (\<lambda>os.
     res_bind (attach_connector_meta e os) (\<lambda>(out, s).
     res_bind (res_foldl advance_computed (publish_events e s) (so_num_scheduled_tokens out)) (\<lambda>s'.
     Inr (out, s'\<lparr>finished_req_ids := {}\<rparr>)))))"

definition schedule ::
  "('kv, 'b, 'c, 'cn, 'm) sched_env \<Rightarrow> ('kv, 'cn) sched \<Rightarrow>
   (('c, 'm) scheduler_output \<times> ('kv, 'cn) sched) result" where
  "schedule e s =
     (if chunked_prefill_enabled e then super_schedule e s
      else res_bind (schedule_plan e s) (finish_schedule e))"

subsection \<open>Requests that finish, and the model's output\<close>

text \<open>
  \<^verbatim>\<open>finish_requests\<close> is called with one id or with several. The loop of the override iterates over
  the argument as it is, so over the characters of a single id; the base class treats a string as
  one id.
\<close>

datatype ids_arg = OneId string | ManyIds "string list"

fun iterate_ids :: "ids_arg \<Rightarrow> string list" where
  "iterate_ids (OneId s) = map (\<lambda>c. [c]) s"
| "iterate_ids (ManyIds ids) = ids"

definition discard_scheduled :: "('kv, 'cn) sched \<Rightarrow> rid \<Rightarrow> ('kv, 'cn) sched" where
  "discard_scheduled s r =
     (if r \<in> requests s \<and> status (obj s r) = RUNNING
      then s\<lparr>scheduled_req_ids := scheduled_req_ids s - {r}\<rparr> else s)"

definition finish_requests ::
  "(('kv, 'cn) sched \<Rightarrow> ids_arg \<Rightarrow> request_status \<Rightarrow> ('kv, 'cn) sched) \<Rightarrow> ('kv, 'cn) sched \<Rightarrow> ids_arg \<Rightarrow>
   request_status \<Rightarrow> ('kv, 'cn) sched" where
  "finish_requests super_finish s ids st = super_finish (foldl discard_scheduled s (iterate_ids ids)) ids st"

definition clear_scheduled :: "(rid \<times> int) list \<Rightarrow> ('kv, 'cn) sched \<Rightarrow> rid \<Rightarrow> ('kv, 'cn) sched" where
  "clear_scheduled num s r =
     (let n = (case map_of num r of None \<Rightarrow> 0 | Some k \<Rightarrow> k) in
      if n = 0 then s
      else if r \<in> scheduled_req_ids s then s\<lparr>scheduled_req_ids := scheduled_req_ids s - {r}\<rparr>
      else s)"

definition update_from_output ::
  "(('kv, 'cn) sched \<Rightarrow> ('c, 'm) scheduler_output \<Rightarrow> 'mo \<Rightarrow> 'eo \<times> ('kv, 'cn) sched) \<Rightarrow> ('kv, 'cn) sched \<Rightarrow>
   ('c, 'm) scheduler_output \<Rightarrow> 'mo \<Rightarrow> 'eo \<times> ('kv, 'cn) sched" where
  "update_from_output super_update s out mo =
     super_update (foldl (clear_scheduled (so_num_scheduled_tokens out)) s (running s)) out mo"

end
