(* ===== verification/Scheduler_Proofs.thy ===== *)
theory Scheduler_Proofs
  imports Ascend_Scheduler
begin

section \<open>Correctness of the scheduler\<close>

text \<open>
  The invariant of the scheduler between steps (\<open>sched_inv\<close>), what one iteration of each loop does
  to the queues (\<open>prefill_rel\<close>, \<open>decode_rel\<close>), the contract of a KV connector as the scheduler
  relies on it (locale \<open>kv_connector\<close>), and the properties of a whole step: no request is lost,
  the waiting queue keeps its order, the token, LoRA and batch bounds hold, so the assertions at
  the end of \<^verbatim>\<open>schedule\<close> never fail.
\<close>

definition sched_inv :: "('kv, 'b, 'c, 'cn, 'm) sched_env \<Rightarrow> ('kv, 'cn) sched \<Rightarrow> bool" where
  "sched_inv e s \<longleftrightarrow>
     distinct (waiting s @ running s) \<and> set (waiting s @ running s) \<subseteq> requests s \<and>
     int (length (running s)) \<le> max_num_running_reqs e \<and>
     scheduled_req_ids s \<subseteq> set (running s) \<and> 0 \<le> max_num_scheduled_tokens e"

subsection \<open>The prefill loop\<close>

lemma admit_prefill_fields:
  assumes "admit_prefill e r n c nb (s, p) = Inr (s', p')"
  shows "waiting s' = waiting s" "running s' = running s @ [r]" "requests s' = requests s"
    "scheduled_req_ids s' = insert r (scheduled_req_ids s)" "finished_req_ids s' = finished_req_ids s"
    "token_budget p' = token_budget p - n"
    "mset (scheduled_new_reqs p' @ scheduled_resumed_reqs p')
       = mset (scheduled_new_reqs p @ scheduled_resumed_reqs p @ [r])"
    "scheduled_running_reqs p' = scheduled_running_reqs p" "preempted_reqs p' = preempted_reqs p"
    "num_scheduled_tokens p' = dict_set r n (num_scheduled_tokens p)"
    "fst ` set (req_to_new_blocks p') = insert r (fst ` set (req_to_new_blocks p))"
    "scheduled_loras p' = scheduled_loras (record_lora e (obj s r) p)"
    "skipped_waiting_requests p' = skipped_waiting_requests p"
proof -
  have lora: "scheduled_loras (record_lora e (record_event e ev q) (p\<lparr>scheduled_new_reqs := x\<rparr>))
      = scheduled_loras (record_lora e q p)"
    "scheduled_loras (record_lora e (record_event e ev q) (p\<lparr>scheduled_resumed_reqs := x\<rparr>))
      = scheduled_loras (record_lora e q p)" for ev q x
    by (simp_all add: record_lora_def record_event_def split: option.split)
  show "scheduled_loras p' = scheduled_loras (record_lora e (obj s r) p)"
    using assms by (auto simp: admit_prefill_def Let_def lora split: if_splits)
  show "fst ` set (req_to_new_blocks p') = insert r (fst ` set (req_to_new_blocks p))"
    using assms
    by (simp add: admit_prefill_def Let_def split: if_splits; elim conjE; hypsubst)
      (simp_all add: fst_set_dict_set)
qed (use assms in \<open>auto simp: admit_prefill_def Let_def split: if_splits\<close>)

text \<open>What an allocation that succeeds does with the request at the head of the queue.\<close>

lemma allocate_prefill_Continue:
  assumes "allocate_prefill e r n ct (s, p) = Continue (s', p')"
  obtains
    (async) "ct_load_kv_async ct" "waiting s' = tl (waiting s)" "running s' = running s"
      "requests s' = requests s" "scheduled_req_ids s' = scheduled_req_ids s"
      "finished_req_ids s' = finished_req_ids s"
      "p' = p\<lparr>skipped_waiting_requests := r # skipped_waiting_requests p\<rparr>"
  | (admit) s2 nb where "\<not> ct_load_kv_async ct" "waiting s2 = tl (waiting s)" "running s2 = running s"
      "requests s2 = requests s" "scheduled_req_ids s2 = scheduled_req_ids s"
      "finished_req_ids s2 = finished_req_ids s"
      "admit_prefill e r n (ct_num_computed ct) nb (s2, p) = Inr (s', p')"
      "case connector e of None \<Rightarrow> obj s2 = obj s
       | Some c \<Rightarrow> \<exists>bl cn' r'. cn_update_state_after_alloc c (cn_state s) (obj s r) bl (ct_num_external ct)
                     = Inr (cn', r') \<and> obj s2 = (obj s)(r := r')"
proof -
  from assms obtain nb kv' where
    al: "allocate_slots e (kv_state s) (obj s r) (n + ct_num_external ct)
           (ct_num_new_local ct) (Some (ct_new_computed_blocks ct)) (num_lookahead_tokens e)
           (ct_load_kv_async ct) = (Some nb, kv')"
    by (auto simp: allocate_prefill_def split: prod.splits option.splits)
  define upd where "upd = (case connector e of
                  None \<Rightarrow> Inr (s\<lparr>kv_state := kv'\<rparr>)
                | Some c \<Rightarrow>
                    res_bind (cn_update_state_after_alloc c (cn_state s) (obj s r)
                                (add_blocks e (ct_new_computed_blocks ct) nb) (ct_num_external ct))
                      (\<lambda>(cn', r'). Inr (set_obj r (\<lambda>_. r') (s\<lparr>kv_state := kv', cn_state := cn'\<rparr>))))"
  from assms al obtain s1 where s1: "upd = Inr s1" and
    k: "(let s2 = s1\<lparr>waiting := tl (waiting s1)\<rparr> in
                  if ct_load_kv_async ct then
                    Continue (set_obj r (\<lambda>q. q\<lparr>status := WAITING_FOR_REMOTE_KVS\<rparr>) s2,
                              p\<lparr>skipped_waiting_requests := r # skipped_waiting_requests p\<rparr>)
                  else
                    flow_bind (admit_prefill e r n (ct_num_computed ct) nb (s2, p)) Continue)
        = Continue (s', p')"
    by (auto simp: allocate_prefill_def flow_elims upd_def)
  have s1f: "waiting s1 = waiting s" "running s1 = running s" "requests s1 = requests s"
    "scheduled_req_ids s1 = scheduled_req_ids s" "finished_req_ids s1 = finished_req_ids s"
    using s1 by (auto simp: upd_def res_elims split: option.splits prod.splits)
  have ob: "case connector e of None \<Rightarrow> obj s1 = obj s
       | Some c \<Rightarrow> \<exists>bl cn' r'. cn_update_state_after_alloc c (cn_state s) (obj s r) bl (ct_num_external ct)
                     = Inr (cn', r') \<and> obj s1 = (obj s)(r := r')"
    using s1 by (auto simp: upd_def res_elims split: option.splits prod.splits) blast
  show thesis
  proof (cases "ct_load_kv_async ct")
    case True
    then show thesis using async k s1f by (auto simp: Let_def)
  next
    case False
    let ?s2 = "s1\<lparr>waiting := tl (waiting s1)\<rparr>"
    have "admit_prefill e r n (ct_num_computed ct) nb (?s2, p) = Inr (s', p')"
      using False k by (auto simp: Let_def flow_elims)
    with False s1f ob show thesis
      by (intro admit [of ?s2 nb]) (auto split: option.splits)
  qed
qed

text \<open>
  How the loop has split the waiting queue so far: \<open>dn\<close> are the requests it has looked at, \<open>adm\<close> the
  ones it moved to the running queue, \<open>ign\<close> the ones it finished as too long; the others are in the
  deque of skipped requests, in reverse order.
\<close>

definition prefill_rel ::
  "('kv, 'cn) sched \<Rightarrow> ('kv, 'cn) sched \<Rightarrow> 'b plan \<Rightarrow> rid list \<Rightarrow> rid list \<Rightarrow> rid list \<Rightarrow> bool" where
  "prefill_rel s0 s p dn adm ign \<longleftrightarrow>
     waiting s0 = dn @ waiting s \<and> running s = running s0 @ adm \<and>
     filter (\<lambda>r. r \<in> set adm) dn = adm \<and> filter (\<lambda>r. r \<in> set ign) dn = ign \<and>
     rev (skipped_waiting_requests p) = filter (\<lambda>r. r \<notin> set adm \<and> r \<notin> set ign) dn \<and>
     set adm \<inter> set ign = {} \<and> set ign \<subseteq> finished_req_ids s \<and> map fst (num_scheduled_tokens p) = adm \<and>
     mset (scheduled_new_reqs p @ scheduled_resumed_reqs p) = mset adm \<and>
     scheduled_running_reqs p = [] \<and> preempted_reqs p = [] \<and>
     scheduled_req_ids s = scheduled_req_ids s0 \<union> set adm \<and> requests s = requests s0 \<and>
     fst ` set (req_to_new_blocks p) = set adm"

definition budget_inv :: "('kv, 'b, 'c, 'cn, 'm) sched_env \<Rightarrow> 'b plan \<Rightarrow> bool" where
  "budget_inv e p \<longleftrightarrow>
     0 \<le> token_budget p \<and> 0 \<notin> snd ` set (num_scheduled_tokens p) \<and>
     token_budget p + sum_list (map snd (num_scheduled_tokens p)) = max_num_scheduled_tokens e"

definition lora_ok :: "('kv, 'b, 'c, 'cn, 'm) sched_env \<Rightarrow> int set \<Rightarrow> bool" where
  "lora_ok e ls \<longleftrightarrow> finite ls \<and> (case lora_config e of None \<Rightarrow> ls = {} | Some m \<Rightarrow> int (card ls) \<le> m)"

abbreviation lora_inv :: "('kv, 'b, 'c, 'cn, 'm) sched_env \<Rightarrow> 'b plan \<Rightarrow> bool" where
  "lora_inv e p \<equiv> lora_ok e (scheduled_loras p)"

lemma prefill_rel_init: "prefill_rel s s (initial_plan e) [] [] []"
  by (simp add: prefill_rel_def initial_plan_def)

lemma filter_notin_snoc:
  "r \<notin> set dn \<Longrightarrow> filter (\<lambda>x. x \<in> set (xs @ [r])) (dn @ [r]) = filter (\<lambda>x. x \<in> set xs) dn @ [r]"
  by (induction dn) auto

lemma prefill_rel_skip:
  assumes "prefill_rel s0 s p dn adm ign" "waiting s = r # ws" "distinct (waiting s0)"
    and "waiting t = ws" "running t = running s" "requests t = requests s"
    "scheduled_req_ids t = scheduled_req_ids s" "finished_req_ids t = finished_req_ids s"
  shows "prefill_rel s0 t (p\<lparr>skipped_waiting_requests := r # skipped_waiting_requests p\<rparr>) (dn @ [r]) adm ign"
proof -
  from assms(1-3) have "r \<notin> set dn" by (auto simp: prefill_rel_def)
  moreover from assms(1) have "set adm \<subseteq> set dn" "set ign \<subseteq> set dn"
    unfolding prefill_rel_def by (metis filter_is_subset)+
  ultimately have "r \<notin> set adm" "r \<notin> set ign" by auto
  with assms show ?thesis by (simp add: prefill_rel_def)
qed

lemma prefill_rel_ignore:
  assumes "prefill_rel s0 s p dn adm ign" "waiting s = r # ws" "distinct (waiting s0)"
    and "waiting t = ws" "running t = running s" "requests t = requests s"
    "scheduled_req_ids t = scheduled_req_ids s" "finished_req_ids t = insert r (finished_req_ids s)"
  shows "prefill_rel s0 t p (dn @ [r]) adm (ign @ [r])"
proof -
  from assms(1-3) have r: "r \<notin> set dn" by (auto simp: prefill_rel_def)
  moreover from assms(1) have sub: "set adm \<subseteq> set dn" "set ign \<subseteq> set dn"
    unfolding prefill_rel_def by (metis filter_is_subset)+
  ultimately have nin: "r \<notin> set adm" "r \<notin> set ign" by auto
  have "filter (\<lambda>x. x \<notin> set adm \<and> x \<notin> set (ign @ [r])) dn = filter (\<lambda>x. x \<notin> set adm \<and> x \<notin> set ign) dn"
    using r by (intro filter_cong) auto
  moreover have "filter (\<lambda>x. x \<in> set (ign @ [r])) (dn @ [r]) = ign @ [r]"
    using filter_notin_snoc [OF r, of ign] assms(1) by (simp add: prefill_rel_def)
  ultimately show ?thesis using assms nin by (auto simp: prefill_rel_def)
qed

lemma prefill_rel_admit:
  assumes "prefill_rel s0 s p dn adm ign" "waiting s = r # ws" "distinct (waiting s0 @ running s0)"
    and "waiting t = ws" "running t = running s @ [r]" "requests t = requests s"
    "scheduled_req_ids t = insert r (scheduled_req_ids s)" "finished_req_ids t = finished_req_ids s"
    "mset (scheduled_new_reqs p' @ scheduled_resumed_reqs p')
       = mset (scheduled_new_reqs p @ scheduled_resumed_reqs p @ [r])"
    "scheduled_running_reqs p' = scheduled_running_reqs p" "preempted_reqs p' = preempted_reqs p"
    "num_scheduled_tokens p' = dict_set r n (num_scheduled_tokens p)"
    "fst ` set (req_to_new_blocks p') = insert r (fst ` set (req_to_new_blocks p))"
    "skipped_waiting_requests p' = skipped_waiting_requests p"
  shows "prefill_rel s0 t p' (dn @ [r]) (adm @ [r]) ign"
    and "num_scheduled_tokens p' = num_scheduled_tokens p @ [(r, n)]"
proof -
  from assms(1-3) have r: "r \<notin> set dn" by (auto simp: prefill_rel_def)
  moreover from assms(1) have sub: "set adm \<subseteq> set dn" "set ign \<subseteq> set dn"
    unfolding prefill_rel_def by (metis filter_is_subset)+
  ultimately have nin: "r \<notin> set adm" "r \<notin> set ign" by auto
  have keys: "map fst (num_scheduled_tokens p) = adm" using assms(1) by (simp add: prefill_rel_def)
  have "r \<notin> fst ` set (num_scheduled_tokens p)" using nin keys by (metis list.set_map)
  with assms show num: "num_scheduled_tokens p' = num_scheduled_tokens p @ [(r, n)]"
    by (simp add: dict_set_fresh)
  have "filter (\<lambda>x. x \<notin> set (adm @ [r]) \<and> x \<notin> set ign) dn = filter (\<lambda>x. x \<notin> set adm \<and> x \<notin> set ign) dn"
    using r by (intro filter_cong) auto
  moreover have "filter (\<lambda>x. x \<in> set (adm @ [r])) (dn @ [r]) = adm @ [r]"
    using filter_notin_snoc [OF r, of adm] assms(1) by (simp add: prefill_rel_def)
  ultimately show "prefill_rel s0 t p' (dn @ [r]) (adm @ [r]) ign"
    using assms(1-11,13,14) nin num by (simp add: prefill_rel_def)
qed

text \<open>The loop keeps the split of the queue, the budget and the size of the batch.\<close>

definition prefill_inv ::
  "('kv, 'b, 'c, 'cn, 'm) sched_env \<Rightarrow> ('kv, 'cn) sched \<Rightarrow> ('kv, 'cn) sched \<Rightarrow> 'b plan \<Rightarrow> bool" where
  "prefill_inv e s0 s p \<longleftrightarrow>
     (\<exists>dn adm ign. prefill_rel s0 s p dn adm ign) \<and> budget_inv e p \<and>
     int (length (running s)) \<le> max_num_running_reqs e"

lemma prefill_rel_same: "prefill_rel s0 s p dn adm ign \<Longrightarrow> same_queues s t \<Longrightarrow> prefill_rel s0 t p dn adm ign"
  by (simp add: prefill_rel_def same_queues_def)

lemma prefill_inv_same: "prefill_inv e s0 s p \<Longrightarrow> same_queues s t \<Longrightarrow> prefill_inv e s0 t p"
  using prefill_rel_same by (fastforce simp: prefill_inv_def same_queues_def)

lemma prefill_step_inv:
  assumes inv: "prefill_inv e s0 s p" and d: "distinct (waiting s0 @ running s0)"
    and ne: "waiting s \<noteq> []" and step: "prefill_step e (s, p) = Continue (s', p')"
  shows "prefill_inv e s0 s' p'"
proof -
  from inv obtain dn adm ign where rel: "prefill_rel s0 s p dn adm ign"
    and bud: "budget_inv e p" and len: "int (length (running s)) \<le> max_num_running_reqs e"
    by (auto simp: prefill_inv_def)
  from ne obtain r ws where w: "waiting s = r # ws" by (cases "waiting s") auto
  from d have dw: "distinct (waiting s0)" by simp
  from step show ?thesis
  proof (cases rule: prefill_step_Continue)
    case (skip t)
    have "prefill_rel s0 s' p' (dn @ [r]) adm ign"
      using prefill_rel_skip [OF rel w dw, of s'] skip w by (auto simp: skip_cur_request_def same_queues_def)
    then show ?thesis using skip bud len
      by (auto simp: prefill_inv_def budget_inv_def skip_cur_request_def same_queues_def)
  next
    case (ignore t)
    have "prefill_rel s0 s' p' (dn @ [r]) adm (ign @ [r])"
      using prefill_rel_ignore [OF rel w dw, of s'] ignore w by (auto simp: finish_ignored_def same_queues_def)
    then show ?thesis using ignore bud len
      by (auto simp: prefill_inv_def budget_inv_def finish_ignored_def same_queues_def)
  next
    case (alloc t n ct)
    note q = alloc(1) [unfolded same_queues_def]
    from alloc(5) show ?thesis
    proof (cases rule: allocate_prefill_Continue)
      case async
      have "prefill_rel s0 s' p' (dn @ [r]) adm ign"
        using prefill_rel_skip [OF rel w dw, of s'] async q w by simp
      then show ?thesis using async q bud len by (auto simp: prefill_inv_def budget_inv_def)
    next
      case (admit s2 nb)
      note f = admit_prefill_fields [OF admit(7)]
      have r: "hd (waiting s) = r" using w by simp
      note g = prefill_rel_admit [OF rel w d, of s' p' n]
      have "prefill_rel s0 s' p' (dn @ [r]) (adm @ [r]) ign"
        by (rule g(1)) (use f admit q w r in simp_all)
      moreover have "num_scheduled_tokens p' = num_scheduled_tokens p @ [(r, n)]"
        by (rule g(2)) (use f admit q w r in simp_all)
      moreover have "n \<le> token_budget p" "0 \<noteq> n" using alloc(4) admit(1) by auto
      moreover have "int (length (running s')) \<le> max_num_running_reqs e"
        using f(2) admit(3) q alloc(2) len by simp
      ultimately show ?thesis using bud f(6) by (auto simp: prefill_inv_def budget_inv_def)
    qed
  qed
qed

lemma prefill_loop_induct:
  assumes loop: "prefill_loop e sp = Inr sp'" and init: "P (fst sp) (snd sp)"
    and cont: "\<And>s p s' p'. P s p \<Longrightarrow> waiting s \<noteq> [] \<Longrightarrow> prefill_step e (s, p) = Continue (s', p') \<Longrightarrow> P s' p'"
    and brk: "\<And>s p s' p'. P s p \<Longrightarrow> waiting s \<noteq> [] \<Longrightarrow> prefill_step e (s, p) = Break (s', p') \<Longrightarrow> P s' p'"
  shows "P (fst sp') (snd sp')"
  using loop init cont brk
proof (induction e sp rule: prefill_loop.induct)
  case (1 e sp)
  obtain s p where sp: "sp = (s, p)" by fastforce
  show ?case
  proof (cases "waiting s \<noteq> [] \<and> token_budget p > 0")
    case False
    then show ?thesis using "1.prems"(1,2) sp by (auto simp: prefill_loop.simps [of e "(s, p)"])
  next
    case True
    show ?thesis
    proof (cases "prefill_step e (s, p)")
      case (Raise x)
      then show ?thesis using "1.prems"(1,2) sp True by (simp add: prefill_loop.simps [of e "(s, p)"])
    next
      case (Break q)
      obtain s1 p1 where q: "q = (s1, p1)" by fastforce
      show ?thesis
        using "1.prems"(4) [of s p s1 p1] Break "1.prems"(1,2) sp True q
        by (auto simp: prefill_loop.simps [of e "(s, p)"])
    next
      case (Continue q)
      obtain s1 p1 where q: "q = (s1, p1)" by fastforce
      have "P s1 p1" using "1.prems"(3) [of s p s1 p1] Continue "1.prems"(2) sp True q by simp
      moreover have "prefill_loop e q = Inr sp'"
        using "1.prems"(1) Continue sp True by (simp add: prefill_loop.simps [of e "(s, p)"])
      ultimately show ?thesis
        by (intro "1.IH" [of q])
          (use sp True Continue q in simp_all, erule (2) "1.prems"(3), erule (2) "1.prems"(4))
    qed
  qed
qed

lemma prefill_loop_inv:
  assumes "prefill_loop e (s0, initial_plan e) = Inr (s, p)" "sched_inv e s0"
  shows "prefill_inv e s0 s p"
proof -
  have init: "prefill_inv e s0 s0 (initial_plan e)"
    using assms(2) prefill_rel_init [of s0 e]
    by (auto simp: prefill_inv_def budget_inv_def initial_plan_def sched_inv_def)
  have d: "distinct (waiting s0 @ running s0)" using assms(2) by (simp add: sched_inv_def)
  have "prefill_inv e s0 (fst (s, p)) (snd (s, p))"
    by (rule prefill_loop_induct [OF assms(1)])
      (use init in simp, erule (2) prefill_step_inv [OF _ d], use prefill_step_Break prefill_inv_same in blast)
  then show ?thesis by simp
qed

subsection \<open>The connector's contract and the LoRA bound\<close>

text \<open>
  What the scheduler relies on when it calls a KV connector: tokens that are loaded asynchronously
  are at least one (the assertion after the call), and the bookkeeping after an allocation touches
  only the transfer parameters of the request.
\<close>

locale kv_connector =
  fixes ops :: "('cn, 'b, 'm) connector_ops"
  assumes matched_async: "cn_get_num_new_matched_tokens ops cn q n = Inr (k, True) \<Longrightarrow> 0 < k"
    and matched_nonneg: "cn_get_num_new_matched_tokens ops cn q n = Inr (k, b) \<Longrightarrow> 0 \<le> k"
    and update_frame: "cn_update_state_after_alloc ops cn q bl k = Inr (cn', q') \<Longrightarrow>
      \<exists>ps. q' = q\<lparr>kv_transfer_params := ps\<rparr>"
begin

lemma update_keeps_lora: "cn_update_state_after_alloc ops cn q bl k = Inr (cn', q') \<Longrightarrow> lora_req q' = lora_req q"
  by (auto dest: update_frame)

lemma update_keeps_status: "cn_update_state_after_alloc ops cn q bl k = Inr (cn', q') \<Longrightarrow> status q' = status q"
  by (auto dest: update_frame)

lemma async_tokens_positive:
  assumes "connector e = Some ops" "get_cached_tokens e s r = Inr (ct, t)" "ct_load_kv_async ct"
  shows "0 < ct_num_external ct"
  using assms
  by (auto simp: get_cached_tokens_def res_elims matched_async split: if_splits prod.splits)

text \<open>With such a connector the assertion on asynchronous loads holds whenever it is reached.\<close>

lemma async_never_asserts:
  assumes "connector e = Some ops" "get_cached_tokens e s r = Inr (ct, t)" "ct_load_kv_async ct"
  shows "decide_tokens e budget (obj t r) ct = Inr (Tokens 0 None)"
  using async_tokens_positive [OF assms] assms(3) by (simp add: decide_tokens_def)

end

definition connector_ok :: "('kv, 'b, 'c, 'cn, 'm) sched_env \<Rightarrow> bool" where
  "connector_ok e \<longleftrightarrow> (case connector e of None \<Rightarrow> True | Some c \<Rightarrow> kv_connector c)"

lemma record_lora_inv:
  assumes "lora_inv e p" "\<not> lora_exceeded e (scheduled_loras p) q" "lora_req q' = lora_req q"
  shows "lora_inv e (record_lora e q' p)"
  using assms
  by (auto simp: lora_ok_def lora_exceeded_def record_lora_def card_insert_if split: option.splits)

lemma prefill_step_lora:
  assumes "connector_ok e" "lora_inv e p" "prefill_step e (s, p) = Continue (s', p')"
  shows "lora_inv e p'"
  using assms(3)
proof (cases rule: prefill_step_Continue)
  case (alloc t n ct)
  from alloc(5) show ?thesis
  proof (cases rule: allocate_prefill_Continue)
    case (admit s2 nb)
    let ?r = "hd (waiting s)"
    have "lora_req (obj s2 ?r) = lora_req (obj t ?r)"
      using admit(8) assms(1)
      by (auto simp: connector_ok_def kv_connector.update_keeps_lora split: option.splits)
    then have "lora_inv e (record_lora e (obj s2 ?r) p)"
      using record_lora_inv [OF assms(2)] alloc(3) by metis
    then show ?thesis
      using admit_prefill_fields(12) [OF admit(7)] by simp
  qed (use assms(2) in simp)
qed (use assms(2) in \<open>auto simp: skip_cur_request_def finish_ignored_def\<close>)

lemma prefill_loop_lora:
  assumes "prefill_loop e (s0, initial_plan e) = Inr (s, p)" "connector_ok e"
    "\<forall>m. lora_config e = Some m \<longrightarrow> 0 \<le> m"
  shows "lora_inv e p"
proof -
  have "lora_inv e (initial_plan e)"
    using assms(3) by (auto simp: lora_ok_def initial_plan_def split: option.splits)
  then have "lora_inv e (snd (s, p))"
    by (intro prefill_loop_induct [where P = "\<lambda>s. lora_inv e", OF assms(1)])
      (simp, erule (1) prefill_step_lora [OF assms(2)], use prefill_step_Break in blast)
  then show ?thesis by simp
qed

subsection \<open>The decode loop\<close>

definition preempted_obj :: "('kv, 'b, 'c, 'cn, 'm) sched_env \<Rightarrow> request \<Rightarrow> request" where
  "preempted_obj e q = record_event e EV_PREEMPTED (q\<lparr>status := PREEMPTED, num_computed_tokens := 0\<rparr>)"

text \<open>
  Preemption takes a suffix of the running queue and puts it, in the same order, in front of the
  waiting queue. It stops at the request itself, so the queue is never empty when it is popped.
\<close>

definition preempted_suffix ::
  "('kv, 'b, 'c, 'cn, 'm) sched_env \<Rightarrow> nat \<Rightarrow> ('kv, 'cn, 'b) loop_state \<Rightarrow> ('kv, 'cn, 'b) loop_state \<Rightarrow> bool" where
  "preempted_suffix e k sp sp' \<longleftrightarrow>
     (case (sp, sp') of ((s, p), (s', p')) \<Rightarrow>
        k \<le> length (running s) \<and> running s' = take k (running s) \<and>
        waiting s' = drop k (running s) @ waiting s \<and>
        p' = p\<lparr>preempted_reqs := preempted_reqs p @ rev (drop k (running s))\<rparr> \<and>
        requests s' = requests s \<and> scheduled_req_ids s' = scheduled_req_ids s \<and>
        finished_req_ids s' = finished_req_ids s \<and>
        (\<forall>v. obj s' v = (if v \<in> set (drop k (running s)) then preempted_obj e (obj s v) else obj s v)))"

lemma preempted_suffix_refl: "preempted_suffix e (length (running s)) (s, p) (s\<lparr>kv_state := kv'\<rparr>, p)"
  by (simp add: preempted_suffix_def)

lemma preempted_suffix_one:
  assumes "running s \<noteq> []"
  shows "preempted_suffix e (length (running s) - 1) (s, p)
           (preempt_last e (s\<lparr>kv_state := kv'\<rparr>, p) (last (running s)))"
proof -
  obtain xs x where "running s = xs @ [x]" using assms by (metis append_butlast_last_id)
  then show ?thesis by (auto simp: preempted_suffix_def preempt_last_def preempted_obj_def)
qed

lemma preempted_suffix_trans:
  assumes "preempted_suffix e j (s, p) (s1, p1)" "preempted_suffix e k (s1, p1) (s2, p2)"
    and "distinct (running s)"
  shows "preempted_suffix e k (s, p) (s2, p2)"
proof -
  have k: "k \<le> j" "j \<le> length (running s)" using assms by (auto simp: preempted_suffix_def)
  let ?xs = "running s"
  have cut: "drop k (take j ?xs) @ drop j ?xs = drop k ?xs"
    using k by (metis append_take_drop_id drop_append length_take min.absorb2 diff_is_0_eq drop_0)
  have disj: "set (drop k (take j ?xs)) \<inter> set (drop j ?xs) = {}"
    using assms(3) cut by (metis distinct_append distinct_drop)
  have "set (drop k ?xs) = set (drop k (take j ?xs)) \<union> set (drop j ?xs)"
    using cut by (metis set_append)
  moreover have "rev (drop k ?xs) = rev (drop j ?xs) @ rev (drop k (take j ?xs))"
    using cut by (metis rev_append)
  moreover have "running s2 = take k ?xs" "waiting s2 = drop k ?xs @ waiting s"
    using assms(1,2) k cut by (auto simp: preempted_suffix_def min_def append_assoc [symmetric] simp del: append_assoc)
  ultimately show ?thesis
    using assms(1,2) k disj unfolding preempted_suffix_def by (simp add: Int_iff) blast
qed

lemma preempt_loop_spec:
  assumes "distinct (running s)" "i < length (running s)" "r = running s ! i"
  shows "\<exists>nb k sp'. preempt_loop e r n (s, p) = Inr (nb, sp') \<and> preempted_suffix e k (s, p) sp' \<and>
           (if nb = None then k = i else i < k)"
  using assms
proof (induction "length (running s)" arbitrary: s p)
  case (Suc m)
  obtain bl kv' where al: "allocate_slots e (kv_state s) (obj s r) n 0 None (num_lookahead_tokens e) False = (bl, kv')"
    by fastforce
  note unf = preempt_loop.simps [of e r n s p]
  let ?v = "last (running s)" and ?t = "preempt_last e (s\<lparr>kv_state := kv'\<rparr>, p) (last (running s))"
  have ne: "running s \<noteq> []" using Suc by auto
  have last: "?v = r \<longleftrightarrow> i = m"
    using Suc.prems Suc.hyps(2) ne by (auto simp: last_conv_nth nth_eq_iff_index_eq)
  note one = preempted_suffix_one [OF ne, of e p kv']
  show ?case
  proof (cases bl)
    case (Some b)
    then show ?thesis
      using al preempted_suffix_refl [of e s p kv'] Suc.prems(2) by (auto simp: unf)
  next
    case None
    show ?thesis
    proof (cases "?v = r")
      case True
      have "preempt_loop e r n (s, p) = Inr (None, ?t)" using al None ne True by (simp add: unf Let_def)
      with one last True Suc.hyps(2) show ?thesis by (metis diff_Suc_1)
    next
      case False
      obtain s1 p1 where t: "?t = (s1, p1)" by fastforce
      have r1: "running s1 = butlast (running s)" using t by (auto simp: preempt_last_def)
      have i: "i < length (running s1)" using False last Suc.prems(2) Suc.hyps(2) r1 by simp
      have "\<exists>nb k sp'. preempt_loop e r n (s1, p1) = Inr (nb, sp') \<and> preempted_suffix e k (s1, p1) sp' \<and>
           (if nb = None then k = i else i < k)"
        using Suc.prems Suc.hyps(2) r1 i
        by (intro Suc.hyps(1)) (auto simp: nth_butlast distinct_butlast)
      then obtain nb k s2 p2 where ih: "preempt_loop e r n (s1, p1) = Inr (nb, (s2, p2))"
        "preempted_suffix e k (s1, p1) (s2, p2)" "if nb = None then k = i else i < k" by auto
      have "preempt_loop e r n (s, p) = Inr (nb, (s2, p2))"
        using al None ne False t ih(1) by (simp add: unf Let_def)
      moreover have "preempted_suffix e k (s, p) (s2, p2)"
        using preempted_suffix_trans [OF one [unfolded t] ih(2) Suc.prems(1)] .
      ultimately show ?thesis using ih(3) by blast
    qed
  qed
qed simp

text \<open>
  State of the decode loop at index \<open>i\<close>, with respect to the state \<open>s0\<close> in which it started: the
  requests that were scheduled are among the first \<open>i\<close> running ones, so they are never preempted.
\<close>

definition decode_inv ::
  "('kv, 'b, 'c, 'cn, 'm) sched_env \<Rightarrow> ('kv, 'cn) sched \<Rightarrow> nat \<Rightarrow> ('kv, 'cn) sched \<Rightarrow> 'b plan \<Rightarrow> bool" where
  "decode_inv e s0 i s p \<longleftrightarrow>
     running s @ waiting s = running s0 @ waiting s0 \<and> requests s = requests s0 \<and>
     finished_req_ids s = finished_req_ids s0 \<and>
     length (running s) \<le> length (running s0) \<and>
     map fst (num_scheduled_tokens p) = scheduled_running_reqs p \<and>
     distinct (scheduled_running_reqs p) \<and> set (scheduled_running_reqs p) \<subseteq> set (take i (running s)) \<and>
     scheduled_new_reqs p = [] \<and> scheduled_resumed_reqs p = [] \<and>
     scheduled_req_ids s = set (scheduled_running_reqs p) \<and>
     preempted_reqs p = rev (drop (length (running s)) (running s0)) \<and>
     (\<forall>v \<in> set (preempted_reqs p). status (obj s v) = PREEMPTED \<and> num_computed_tokens (obj s v) = 0) \<and>
     budget_inv e p"

lemma preempted_obj_fields [simp]:
  "status (preempted_obj e q) = PREEMPTED" "num_computed_tokens (preempted_obj e q) = 0"
  by (simp_all add: preempted_obj_def record_event_def)

lemma take_running_prefix:
  "running s @ ws = xs @ ys \<Longrightarrow> length (running s) \<le> length xs \<Longrightarrow>
   running s = take (length (running s)) xs"
  by (metis append_eq_append_conv_if)

lemma decode_inv_preempt:
  assumes inv: "decode_inv e s0 i s p" and d: "distinct (running s0 @ waiting s0)"
    and suf: "preempted_suffix e k (s, p) (s', p')" and k: "i \<le> k"
  shows "decode_inv e s0 i s' p'"
proof -
  let ?l = "length (running s)"
  have rs: "running s = take ?l (running s0)"
    using inv take_running_prefix [of s "waiting s" "running s0" "waiting s0"] by (simp add: decode_inv_def)
  have kl: "k \<le> ?l" using suf by (simp add: preempted_suffix_def)
  have ll: "?l \<le> length (running s0)" using inv by (simp add: decode_inv_def)
  have "drop k (running s) @ drop ?l (running s0) = drop k (running s0)"
    using rs kl ll by (metis append_take_drop_id drop_append length_take min.absorb2 diff_is_0_eq drop_0)
  then have "rev (drop ?l (running s0)) @ rev (drop k (running s)) = rev (drop k (running s0))"
    by (metis rev_append)
  then have pre: "preempted_reqs p' = rev (drop (length (running s')) (running s0))"
    using inv suf kl by (simp add: decode_inv_def preempted_suffix_def min_def)
  have st: "\<forall>v \<in> set (preempted_reqs p'). status (obj s' v) = PREEMPTED \<and> num_computed_tokens (obj s' v) = 0"
    using inv suf by (auto simp: decode_inv_def preempted_suffix_def)
  have "running s' @ waiting s' = running s @ waiting s"
    using suf by (simp add: preempted_suffix_def append_assoc [symmetric] del: append_assoc)
  moreover have "take i (running s') = take i (running s)" "budget_inv e p' = budget_inv e p"
    using suf k by (auto simp: preempted_suffix_def min_def budget_inv_def)
  ultimately show ?thesis
    using inv suf pre st by (auto simp: decode_inv_def preempted_suffix_def)
qed

lemma decode_inv_mono: "decode_inv e s0 i s p \<Longrightarrow> decode_inv e s0 (Suc i) s p"
  using set_take_subset_set_take [of i "Suc i"] by (fastforce simp: decode_inv_def)

lemma decode_inv_disjoint:
  assumes "decode_inv e s0 i s p" "distinct (running s0 @ waiting s0)" "r \<in> set (running s)"
  shows "r \<notin> set (preempted_reqs p)"
proof -
  have "running s = take (length (running s)) (running s0)"
    using assms(1) take_running_prefix [of s "waiting s" "running s0" "waiting s0"]
    by (simp add: decode_inv_def)
  then have "r \<in> set (take (length (running s)) (running s0))" using assms(3) by metis
  moreover have "distinct (running s0)" using assms(2) by simp
  ultimately have "r \<notin> set (drop (length (running s)) (running s0))"
    by (meson order_refl set_take_disj_set_drop_if_distinct disjoint_iff)
  then show ?thesis using assms(1) by (simp add: decode_inv_def)
qed

lemma decode_inv_admit:
  assumes inv: "decode_inv e s0 i s p" and d: "distinct (running s0 @ waiting s0)"
    and r: "i < length (running s)" "r = running s ! i" "r \<notin> scheduled_req_ids s"
    and n: "n \<le> token_budget p" "n \<noteq> 0" and adm: "admit_decode e r n nb (s, p) = (s', p')"
  shows "decode_inv e s0 (Suc i) s' p'"
proof -
  note f = admit_decode_fields [OF adm]
  obtain d' where o: "obj s' = (obj s)(r := (obj s r)\<lparr>spec_token_ids := d'\<rparr>)" using f(6) by blast
  have fresh: "r \<notin> fst ` set (num_scheduled_tokens p)"
    using inv r(3) unfolding decode_inv_def by (metis list.set_map)
  have num: "num_scheduled_tokens p' = num_scheduled_tokens p @ [(r, n)]"
    using f(12) dict_set_fresh [OF fresh] by simp
  have "r \<notin> set (preempted_reqs p)" using decode_inv_disjoint [OF inv d] r by simp
  moreover have "take (Suc i) (running s) = take i (running s) @ [r]"
    using r by (simp add: take_Suc_conv_app_nth)
  ultimately show ?thesis
    using inv f(1-5,7-11) num o n r(3) by (auto simp: decode_inv_def budget_inv_def)
qed

lemma num_decode_tokens_le:
  "num_decode_tokens e p q = Inr n \<Longrightarrow> 0 \<le> token_budget p \<Longrightarrow> n \<le> token_budget p"
  by (auto simp: num_decode_tokens_def res_elims Let_def split: if_splits)

lemma decode_step_cases:
  assumes inv: "decode_inv e s0 i s p" and d: "distinct (running s0 @ waiting s0)"
    and i: "i < length (running s)"
  shows "case decode_step e i (s, p) of
           Raise x \<Rightarrow> x = AssertionError \<and>
             num_tokens (obj s (running s ! i)) - num_computed_tokens (obj s (running s ! i)) \<noteq> 1
         | Break sp' \<Rightarrow> decode_inv e s0 i (fst sp') (snd sp')
         | Continue sp' \<Rightarrow> decode_inv e s0 (Suc i) (fst sp') (snd sp')"
proof (cases "running s ! i \<in> scheduled_req_ids s")
  case True
  then show ?thesis using decode_inv_mono [OF inv] by (simp add: decode_step_def Let_def)
next
  case False
  let ?r = "running s ! i"
  show ?thesis
  proof (cases "num_decode_tokens e p (obj s ?r)")
    case (Inl x)
    then show ?thesis using False
      by (auto simp: decode_step_def num_decode_tokens_def res_elims Let_def)
  next
    case (Inr n)
    have dr: "distinct (running s)"
      using inv d unfolding decode_inv_def by (metis distinct_append)
    obtain nb k s1 p1 where pl: "preempt_loop e ?r n (s, p) = Inr (nb, (s1, p1))"
      "preempted_suffix e k (s, p) (s1, p1)" "if nb = None then k = i else i < k"
      using preempt_loop_spec [OF dr i refl, of e n p] by auto
    have inv1: "decode_inv e s0 i s1 p1"
      using decode_inv_preempt [OF inv d pl(2)] pl(3) by (auto split: if_splits)
    have bud: "0 \<le> token_budget p" "token_budget p1 = token_budget p"
      using inv pl(2) by (auto simp: decode_inv_def budget_inv_def preempted_suffix_def)
    have same: "scheduled_req_ids s1 = scheduled_req_ids s" using pl(2) by (simp add: preempted_suffix_def)
    show ?thesis
    proof (cases nb)
      case None
      then show ?thesis using False Inr pl inv1 decode_inv_mono [OF inv] by (simp add: decode_step_def Let_def)
    next
      case (Some b)
      have r1: "i < length (running s1)" "?r = running s1 ! i"
        using pl(2,3) Some by (auto simp: preempted_suffix_def)
      obtain s2 p2 where ad: "admit_decode e ?r n b (s1, p1) = (s2, p2)" by fastforce
      have "n \<le> token_budget p1" using num_decode_tokens_le [OF Inr] bud by simp
      then have "n \<noteq> 0 \<Longrightarrow> decode_inv e s0 (Suc i) s2 p2"
        using decode_inv_admit [OF inv1 d r1 _ _ _ ad] False same by simp
      then show ?thesis
        using False Inr pl Some ad decode_inv_mono [OF inv] by (simp add: decode_step_def Let_def)
    qed
  qed
qed

lemma decode_loop_inv:
  assumes "decode_inv e s0 i s p" "distinct (running s0 @ waiting s0)"
  shows "case decode_loop e i (s, p) of Inl x \<Rightarrow> x = AssertionError
         | Inr sp' \<Rightarrow> \<exists>j. decode_inv e s0 j (fst sp') (snd sp')"
  using assms
proof (induction e i "(s, p)" arbitrary: s p rule: decode_loop.induct)
  case (1 e i s p)
  note unf = decode_loop.simps [of e i "(s, p)"]
  show ?case
  proof (cases "i < length (running s) \<and> token_budget p > 0")
    case False
    then show ?thesis using "1.prems" by (auto simp: unf)
  next
    case True
    note c = decode_step_cases [OF "1.prems"(1,2) conjunct1 [OF True]]
    show ?thesis
    proof (cases "decode_step e i (s, p)")
      case (Continue q)
      obtain s1 p1 where q: "q = (s1, p1)" by fastforce
      have "decode_inv e s0 (Suc i) s1 p1" using c Continue q by simp
      then show ?thesis using "1.hyps" [of s1 p1] Continue True q "1.prems"(2) by (simp add: unf)
    next
      case (Break q)
      then show ?thesis using c True by (auto simp: unf)
    qed (use c True in \<open>auto simp: unf\<close>)
  qed
qed

subsection \<open>LoRA adapters in the decode loop\<close>

lemma preempt_loop_loras:
  "preempt_loop e r n (s, p) = Inr (nb, (s', p')) \<Longrightarrow>
   scheduled_loras p' = scheduled_loras p \<and> (\<forall>v. lora_req (obj s' v) = lora_req (obj s v))"
proof (induction e r n "(s, p)" arbitrary: s p rule: preempt_loop.induct)
  case (1 e r n s p)
  obtain bl kv' where al: "allocate_slots e (kv_state s) (obj s r) n 0 None (num_lookahead_tokens e) False = (bl, kv')"
    by fastforce
  obtain s1 p1 where t: "preempt_last e (s\<lparr>kv_state := kv'\<rparr>, p) (last (running s)) = (s1, p1)" by fastforce
  have one: "scheduled_loras p1 = scheduled_loras p" "\<forall>v. lora_req (obj s1 v) = lora_req (obj s v)"
    using t by (auto simp: preempt_last_def record_event_def)
  show ?case
  proof (cases "bl = None \<and> running s \<noteq> [] \<and> last (running s) \<noteq> r")
    case True
    then show ?thesis
      using "1.hyps" [OF al [symmetric]] t "1.prems" al one by (simp add: preempt_loop.simps [of e r n s p])
  next
    case False
    then show ?thesis using "1.prems" al t one
      by (auto simp: preempt_loop.simps [of e r n s p] Let_def split: option.splits if_splits)
  qed
qed

lemma decode_step_lora:
  assumes "lora_inv e p" "decode_step e i (s, p) = Continue (s', p') \<or> decode_step e i (s, p) = Break (s', p')"
  shows "lora_inv e p'"
proof (cases "running s ! i \<in> scheduled_req_ids s")
  case False
  let ?r = "running s ! i"
  from False assms(2) obtain n where n: "num_decode_tokens e p (obj s ?r) = Inr n"
    by (auto simp: decode_step_def flow_elims Let_def)
  show ?thesis
  proof (cases "n = 0")
    case True
    then show ?thesis using assms False n by (auto simp: decode_step_def)
  next
    case n0: False
    obtain nb s1 p1 where pl: "preempt_loop e ?r n (s, p) = Inr (nb, (s1, p1))"
      using assms(2) False n n0 by (auto simp: decode_step_def flow_elims Let_def)
    note l = preempt_loop_loras [OF pl]
    have ex: "\<not> lora_exceeded e (scheduled_loras p1) (obj s ?r)"
      using n n0 l by (auto simp: num_decode_tokens_def res_elims Let_def split: if_splits)
    have "lora_inv e p1" using assms(1) l by simp
    moreover have "lora_inv e (record_lora e (obj s1 ?r) p1)"
      using record_lora_inv [OF \<open>lora_inv e p1\<close> ex] l by blast
    ultimately show ?thesis
      using assms(2) False n n0 pl admit_decode_fields(14) [of e ?r n _ s1 p1 s' p']
      by (auto simp: decode_step_def Let_def split: option.splits)
  qed
qed (use assms in \<open>auto simp: decode_step_def\<close>)

lemma decode_loop_lora:
  "decode_loop e i (s, p) = Inr (s', p') \<Longrightarrow> lora_inv e p \<Longrightarrow> lora_inv e p'"
proof (induction e i "(s, p)" arbitrary: s p rule: decode_loop.induct)
  case (1 e i s p)
  note unf = decode_loop.simps [of e i "(s, p)"]
  show ?case
  proof (cases "i < length (running s) \<and> token_budget p > 0")
    case True
    show ?thesis
    proof (cases "decode_step e i (s, p)")
      case (Continue q)
      obtain s1 p1 where q: "q = (s1, p1)" by fastforce
      then show ?thesis
        using decode_step_lora [OF "1.prems"(2), of i s s1 p1] "1.hyps" [of s1 p1] Continue True "1.prems"(1)
        by (simp add: unf)
    next
      case (Break q)
      then show ?thesis using decode_step_lora [OF "1.prems"(2), of i s s' p'] True "1.prems"(1) by (simp add: unf)
    qed (use True "1.prems" in \<open>simp add: unf\<close>)
  qed (use "1.prems" in \<open>auto simp: unf\<close>)
qed

subsection \<open>The two kinds of step\<close>

text \<open>
  After the prefill phase the waiting queue is the old one without the requests that were admitted
  or ignored.
\<close>

lemma put_back_waiting:
  assumes "prefill_rel s0 s p dn adm ign" "distinct (waiting s0)"
  shows "rev (skipped_waiting_requests p) @ waiting s = filter (\<lambda>r. r \<notin> set adm \<and> r \<notin> set ign) (waiting s0)"
proof -
  have "set adm \<subseteq> set dn" "set ign \<subseteq> set dn"
    using assms(1) unfolding prefill_rel_def by (metis filter_is_subset)+
  moreover have w: "waiting s0 = dn @ waiting s" using assms(1) by (simp add: prefill_rel_def)
  ultimately have "filter (\<lambda>r. r \<notin> set adm \<and> r \<notin> set ign) (waiting s) = waiting s"
    using assms(2) by (auto simp: filter_id_conv)
  then show ?thesis using assms(1) w by (simp add: prefill_rel_def)
qed

lemma prefill_rel_filters:
  assumes "prefill_rel s0 s p dn adm ign" "distinct (waiting s0)"
  shows "filter (\<lambda>r. r \<in> set adm) (waiting s0) = adm" "filter (\<lambda>r. r \<in> set ign) (waiting s0) = ign"
proof -
  have "set adm \<subseteq> set dn" "set ign \<subseteq> set dn"
    using assms(1) unfolding prefill_rel_def by (metis filter_is_subset)+
  moreover have w: "waiting s0 = dn @ waiting s" using assms(1) by (simp add: prefill_rel_def)
  ultimately have "filter (\<lambda>r. r \<in> set adm) (waiting s) = []" "filter (\<lambda>r. r \<in> set ign) (waiting s) = []"
    using assms(2) by (auto simp: filter_empty_conv)
  then show "filter (\<lambda>r. r \<in> set adm) (waiting s0) = adm" "filter (\<lambda>r. r \<in> set ign) (waiting s0) = ign"
    using assms(1) w by (simp_all add: prefill_rel_def)
qed

lemma mset_filter_split3:
  "set xs \<inter> set ys = {} \<Longrightarrow>
   mset (filter (\<lambda>r. r \<notin> set xs \<and> r \<notin> set ys) zs) + mset (filter (\<lambda>r. r \<in> set xs) zs)
     + mset (filter (\<lambda>r. r \<in> set ys) zs) = mset zs"
  by (induction zs) auto

text \<open>What the prefill phase has done, seen from the state before it.\<close>

definition prefill_result ::
  "('kv, 'b, 'c, 'cn, 'm) sched_env \<Rightarrow> ('kv, 'cn) sched \<Rightarrow> ('kv, 'cn) sched \<Rightarrow> 'b plan \<Rightarrow> rid list \<Rightarrow> rid list \<Rightarrow> bool" where
  "prefill_result e s0 s p adm ign \<longleftrightarrow>
     waiting s = filter (\<lambda>r. r \<notin> set adm \<and> r \<notin> set ign) (waiting s0) \<and>
     running s = running s0 @ adm \<and>
     filter (\<lambda>r. r \<in> set adm) (waiting s0) = adm \<and> filter (\<lambda>r. r \<in> set ign) (waiting s0) = ign \<and>
     set adm \<inter> set ign = {} \<and> set ign \<subseteq> finished_req_ids s \<and>
     map fst (num_scheduled_tokens p) = adm \<and>
     mset (scheduled_new_reqs p @ scheduled_resumed_reqs p) = mset adm \<and>
     scheduled_running_reqs p = [] \<and> preempted_reqs p = [] \<and>
     scheduled_req_ids s = scheduled_req_ids s0 \<union> set adm \<and> requests s = requests s0 \<and>
     fst ` set (req_to_new_blocks p) = set adm \<and> budget_inv e p \<and>
     int (length (running s)) \<le> max_num_running_reqs e"

lemma prefill_phase_result:
  assumes "sched_inv e s0" "prefill_phase e s0 = Inr (s, p)"
  shows "\<exists>adm ign. prefill_result e s0 s p adm ign"
proof -
  from assms(2) obtain s1 where l: "prefill_loop e (s0, initial_plan e) = Inr (s1, p)"
    and s: "s = s1\<lparr>waiting := rev (skipped_waiting_requests p) @ waiting s1\<rparr>"
    by (auto simp: prefill_phase_def res_elims put_back_skipped_def split: prod.splits)
  from prefill_loop_inv [OF l assms(1)] obtain dn adm ign where
    rel: "prefill_rel s0 s1 p dn adm ign" and b: "budget_inv e p"
    and len: "int (length (running s1)) \<le> max_num_running_reqs e" by (auto simp: prefill_inv_def)
  have d: "distinct (waiting s0)" using assms(1) by (simp add: sched_inv_def)
  have "prefill_result e s0 s p adm ign"
    using put_back_waiting [OF rel d] prefill_rel_filters [OF rel d] rel b len s
    by (simp add: prefill_result_def prefill_rel_def)
  then show ?thesis by blast
qed

lemma prefill_result_distinct:
  assumes "sched_inv e s0" "prefill_result e s0 s p adm ign"
  shows "distinct (running s @ waiting s)" "set (waiting s @ running s) \<subseteq> requests s"
    "mset (waiting s @ running s @ ign) = mset (waiting s0 @ running s0)"
proof -
  have eq: "mset (waiting s) + mset adm + mset ign = mset (waiting s0)"
    using mset_filter_split3 [of adm ign "waiting s0"] assms(2) unfolding prefill_result_def by metis
  then show m: "mset (waiting s @ running s @ ign) = mset (waiting s0 @ running s0)"
    using assms(2) by (simp add: prefill_result_def ac_simps)
  have "distinct (waiting s @ running s @ ign)"
    using assms(1) mset_eq_imp_distinct_iff [OF m] by (simp add: sched_inv_def)
  then show "distinct (running s @ waiting s)" by auto
  have "set (waiting s @ running s @ ign) = set (waiting s0 @ running s0)"
    using m by (metis set_mset_mset)
  then show "set (waiting s @ running s) \<subseteq> requests s"
    using assms by (auto simp: sched_inv_def prefill_result_def)
qed

lemma schedule_plan_cases:
  assumes inv: "sched_inv e s0" and plan: "schedule_plan e s0 = Inr (s, p)"
  obtains
    (prefill) adm ign where "prefill_result e s0 s p adm ign" "scheduled_req_ids s \<noteq> {}"
      "prefill_phase e s0 = Inr (s, p)"
  | (decode) s1 p1 ign j where "prefill_phase e s0 = Inr (s1, p1)" "prefill_result e s0 s1 p1 [] ign"
      "scheduled_req_ids s1 = {}" "decode_inv e s1 j s p" "decode_loop e 0 (s1, p1) = Inr (s, p)"
proof -
  from plan obtain s1 p1 where ph: "prefill_phase e s0 = Inr (s1, p1)"
    and k: "(if card (scheduled_req_ids s1) = 0 then decode_loop e 0 (s1, p1) else Inr (s1, p1)) = Inr (s, p)"
    by (auto simp: schedule_plan_def res_elims)
  from prefill_phase_result [OF inv ph] obtain adm ign where res: "prefill_result e s0 s1 p1 adm ign" by blast
  have fin: "finite (scheduled_req_ids s1)"
    using res inv by (auto simp: prefill_result_def sched_inv_def intro: finite_subset)
  show thesis
  proof (cases "scheduled_req_ids s1 = {}")
    case False
    then show thesis using k fin prefill res ph by (auto simp: card_eq_0_iff)
  next
    case True
    then have adm: "adm = []" using res by (simp add: prefill_result_def)
    have "decode_inv e s1 0 s1 p1"
      using res True adm by (auto simp: decode_inv_def prefill_result_def)
    moreover have "distinct (running s1 @ waiting s1)"
      using prefill_result_distinct(1) [OF inv res] .
    moreover have dl: "decode_loop e 0 (s1, p1) = Inr (s, p)" using k True by simp
    ultimately obtain j where "decode_inv e s1 j s p"
      using decode_loop_inv [of e s1 0 s1 p1] by auto
    then show thesis using decode [OF ph] res adm True dl by blast
  qed
qed

subsection \<open>The request objects in the prefill loop\<close>

lemma poll_remote_kv_frame: "poll_remote_kv e s r = (b, t) \<Longrightarrow> v \<noteq> r \<Longrightarrow> obj t v = obj s v"
  by (auto simp: poll_remote_kv_def split: if_splits prod.splits)

lemma get_cached_tokens_obj: "get_cached_tokens e s r = Inr (ct, t) \<Longrightarrow> obj t = obj s"
  by (auto simp: get_cached_tokens_def res_elims split: if_splits prod.splits)

lemma admit_prefill_obj:
  assumes "admit_prefill e r n c nb (s, p) = Inr (s', p')"
  shows "v \<noteq> r \<Longrightarrow> obj s' v = obj s v" "status (obj s' r) = RUNNING"
    "num_computed_tokens (obj s' r) = c" "num_tokens (obj s' r) = num_tokens (obj s r)"
  using assms by (auto simp: admit_prefill_def record_event_def Let_def split: if_splits)

lemma allocate_prefill_frame:
  assumes "allocate_prefill e r n ct (s, p) = Continue (s', p')" "v \<noteq> r"
  shows "obj s' v = obj s v"
  using assms
  by (auto simp: allocate_prefill_def flow_elims res_elims Let_def
      dest!: admit_prefill_obj(1) [where v = v] split: prod.splits option.splits if_splits)

lemma prefill_step_frame:
  assumes "prefill_step e (s, p) = Continue (s', p')" "v \<noteq> hd (waiting s)"
  shows "obj s' v = obj s v"
proof -
  let ?r = "hd (waiting s)"
  obtain b s1 where poll: "poll_remote_kv e s ?r = (b, s1)" by fastforce
  have o1: "obj s1 v = obj s v" using poll_remote_kv_frame [OF poll assms(2)] .
  show ?thesis
  proof (cases "b \<and> \<not> lora_exceeded e (scheduled_loras p) (obj s1 ?r)")
    case False
    then show ?thesis
      using assms(1) poll o1 by (auto simp: prefill_step_def skip_cur_request_def Let_def split: if_splits)
  next
    case True
    with assms(1) poll obtain ct s2 d where
      ct: "get_cached_tokens e s1 ?r = Inr (ct, s2)" and
      res: "act_on_decision e ?r ct d (s2, p) = Continue (s', p')"
      by (auto simp: prefill_step_def flow_elims Let_def split: if_splits)
    have "obj s2 v = obj s v" using get_cached_tokens_obj [OF ct] o1 by simp
    then show ?thesis
      using res assms(2)
      by (cases d) (auto dest!: allocate_prefill_frame [OF _ assms(2)]
          simp: act_on_decision_def skip_cur_request_def finish_ignored_def Let_def split: if_splits)
  qed
qed

text \<open>A request that the loop has admitted is running, and all its tokens are planned.\<close>

definition admitted_inv :: "('kv, 'cn) sched \<Rightarrow> 'b plan \<Rightarrow> bool" where
  "admitted_inv s p \<longleftrightarrow> (\<forall>(r, n) \<in> set (num_scheduled_tokens p).
     status (obj s r) = RUNNING \<and> num_computed_tokens (obj s r) + n = num_tokens (obj s r))"

lemma head_not_scheduled:
  assumes "prefill_inv e s0 s p" "distinct (waiting s0 @ running s0)" "waiting s \<noteq> []"
  shows "hd (waiting s) \<notin> fst ` set (num_scheduled_tokens p)"
proof -
  from assms(1) obtain dn ad ign where rel: "prefill_rel s0 s p dn ad ign" by (auto simp: prefill_inv_def)
  have "hd (waiting s) \<in> set (waiting s)" using assms(3) by simp
  moreover have "set ad \<subseteq> set dn" using rel unfolding prefill_rel_def by (metis filter_is_subset)
  moreover have "waiting s0 = dn @ waiting s" "ad = map fst (num_scheduled_tokens p)"
    using rel by (simp_all add: prefill_rel_def)
  ultimately show ?thesis using assms(2) by auto
qed

lemma admitted_inv_frame:
  assumes "admitted_inv s p" "r \<notin> fst ` set (num_scheduled_tokens p)"
    and "\<And>v. v \<noteq> r \<Longrightarrow> obj s' v = obj s v"
  shows "admitted_inv s' p"
  unfolding admitted_inv_def
proof (clarify)
  fix x n assume m: "(x, n) \<in> set (num_scheduled_tokens p)"
  then have "x \<noteq> r" using assms(2) by force
  then show "status (obj s' x) = RUNNING \<and> num_computed_tokens (obj s' x) + n = num_tokens (obj s' x)"
    using assms(1,3) m by (auto simp: admitted_inv_def)
qed

lemma prefill_step_admitted:
  assumes ok: "connector_ok e" and inv: "prefill_inv e s0 s p" and d: "distinct (waiting s0 @ running s0)"
    and ne: "waiting s \<noteq> []" and adm: "admitted_inv s p"
    and step: "prefill_step e (s, p) = Continue (s', p')"
  shows "admitted_inv s' p'"
proof -
  let ?r = "hd (waiting s)"
  note fresh = head_not_scheduled [OF inv d ne]
  have keep: "admitted_inv s' p"
    using admitted_inv_frame [OF adm fresh] prefill_step_frame [OF step] by blast
  from step show ?thesis
  proof (cases rule: prefill_step_Continue)
    case (skip t)
    then show ?thesis using keep by (simp add: skip_cur_request_def admitted_inv_def)
  next
    case (ignore t)
    then show ?thesis using keep by (simp add: finish_ignored_def admitted_inv_def)
  next
    case (alloc t n ct)
    from alloc(5) show ?thesis
    proof (cases rule: allocate_prefill_Continue)
      case async
      then show ?thesis using keep by (simp add: admitted_inv_def)
    next
      case (admit s2 nb)
      have "num_tokens (obj s2 ?r) = num_tokens (obj t ?r)"
        using admit(8) ok
        by (auto simp: connector_ok_def dest: kv_connector.update_frame split: option.splits)
      moreover have "num_scheduled_tokens p' = num_scheduled_tokens p @ [(?r, n)]"
        using admit_prefill_fields(10) [OF admit(7)] dict_set_fresh [OF fresh] by simp
      ultimately show ?thesis
        using keep admit_prefill_obj [OF admit(7)] alloc(4) admit(1) by (auto simp: admitted_inv_def)
    qed
  qed
qed

lemma prefill_step_Break_frame:
  assumes "prefill_step e (s, p) = Break (s', p')" "v \<noteq> hd (waiting s)"
  shows "obj s' v = obj s v"
proof (cases "int (length (running s)) = max_num_running_reqs e")
  case False
  let ?r = "hd (waiting s)"
  obtain b s1 where poll: "poll_remote_kv e s ?r = (b, s1)" by fastforce
  from False assms(1) poll obtain ct s2 d where
    ct: "get_cached_tokens e s1 ?r = Inr (ct, s2)" and
    res: "act_on_decision e ?r ct d (s2, p) = Break (s', p')"
    by (auto simp: prefill_step_def flow_elims Let_def split: if_splits)
  from res obtain n where "allocate_prefill e ?r n ct (s2, p) = Break (s', p')"
    by (cases d) (auto simp: act_on_decision_def Let_def split: if_splits)
  then have "obj s' = obj s2"
    by (auto simp: allocate_prefill_def flow_elims Let_def split: prod.splits option.splits if_splits)
  then show ?thesis
    using poll_remote_kv_frame [OF poll assms(2)] get_cached_tokens_obj [OF ct] by simp
qed (use assms in \<open>simp add: prefill_step_def\<close>)

lemma prefill_loop_admitted:
  assumes "prefill_loop e (s0, initial_plan e) = Inr (s, p)" "sched_inv e s0" "connector_ok e"
  shows "admitted_inv s p"
proof -
  let ?P = "\<lambda>s p. prefill_inv e s0 s p \<and> admitted_inv s p"
  have d: "distinct (waiting s0 @ running s0)" using assms(2) by (simp add: sched_inv_def)
  have init: "?P s0 (initial_plan e)"
    using assms(2) prefill_rel_init [of s0 e]
    by (auto simp: prefill_inv_def budget_inv_def initial_plan_def sched_inv_def admitted_inv_def)
  have brk: "?P s' p'" if "?P s p" "waiting s \<noteq> []" "prefill_step e (s, p) = Break (s', p')" for s p s' p'
  proof -
    note b = prefill_step_Break [OF that(3)]
    have "admitted_inv s' p"
      using admitted_inv_frame head_not_scheduled [OF _ d that(2)] prefill_step_Break_frame [OF that(3)] that(1)
      by blast
    then show ?thesis using b prefill_inv_same that(1) by blast
  qed
  have cont: "?P s' p'" if "?P s p" "waiting s \<noteq> []" "prefill_step e (s, p) = Continue (s', p')" for s p s' p'
    using prefill_step_inv [OF _ d that(2,3)] prefill_step_admitted [OF assms(3) _ d that(2) _ that(3)] that(1)
    by blast
  have "?P (fst (s, p)) (snd (s, p))"
    by (rule prefill_loop_induct [OF assms(1)]) (use init in simp, erule (2) cont, erule (2) brk)
  then show ?thesis by simp
qed

subsection \<open>The end of a step\<close>

lemma attach_connector_meta_fields:
  assumes "attach_connector_meta e (out, s) = Inr (out', s')"
  shows "same_queues s s'" "obj s' = obj s" "so_num_scheduled_tokens out' = so_num_scheduled_tokens out"
    "so_total_num_scheduled_tokens out' = so_total_num_scheduled_tokens out"
    "so_finished_req_ids out' = so_finished_req_ids out"
  using assms by (auto simp: attach_connector_meta_def same_queues_def res_elims split: option.splits)

lemma build_output_fields:
  assumes "build_output e tot (s, p) = Inr (out, s')"
  shows "same_queues s s'" "obj s' = obj s" "so_num_scheduled_tokens out = num_scheduled_tokens p"
    "so_total_num_scheduled_tokens out = tot" "so_finished_req_ids out = finished_req_ids s"
  using assms
  by (cases "get_freed e (kv_state s)"; auto simp: build_output_def same_queues_def Let_def res_elims)+

lemma publish_events_fields:
  "waiting (publish_events e s) = waiting s" "running (publish_events e s) = running s"
  "requests (publish_events e s) = requests s" "scheduled_req_ids (publish_events e s) = scheduled_req_ids s"
  "obj (publish_events e s) = obj s"
  by (simp_all add: publish_events_def split: prod.splits)

definition advance_all :: "('kv, 'cn) sched \<Rightarrow> (rid \<times> int) list \<Rightarrow> ('kv, 'cn) sched result" where
  "advance_all s num = res_foldl advance_computed s num"

lemma advance_all_fields:
  "advance_all s num = Inr t \<Longrightarrow>
   waiting t = waiting s \<and> running t = running s \<and> requests t = requests s \<and>
   scheduled_req_ids t = scheduled_req_ids s \<and> finished_req_ids t = finished_req_ids s \<and>
   (distinct (map fst num) \<longrightarrow> (\<forall>r. num_computed_tokens (obj t r) =
      num_computed_tokens (obj s r) + (case map_of num r of None \<Rightarrow> 0 | Some n \<Rightarrow> n)) \<and>
      (\<forall>r. status (obj t r) = status (obj s r) \<and> num_tokens (obj t r) = num_tokens (obj s r)))"
proof (induction num arbitrary: s)
  case (Cons x num)
  obtain r n where x: "x = (r, n)" by fastforce
  let ?s = "set_obj r (\<lambda>q. q\<lparr>num_computed_tokens := num_computed_tokens q + n\<rparr>) s"
  from Cons.prems x have "advance_all ?s num = Inr t"
    by (auto simp: advance_all_def advance_computed_def res_elims split: if_splits)
  note ih = Cons.IH [OF this]
  have "map_of num r = None" if "distinct (map fst (x # num))"
    using that x by (simp add: map_of_eq_None_iff)
  then show ?case using ih x by (auto split: option.splits)
qed (auto simp: advance_all_def)

lemma advance_all_total:
  "fst ` set num \<subseteq> requests s \<Longrightarrow> \<exists>t. advance_all s num = Inr t"
  by (induction num arbitrary: s) (auto simp: advance_all_def advance_computed_def)

text \<open>What \<^verbatim>\<open>schedule\<close> returns, in terms of the plan it made.\<close>

lemma schedule_cases:
  assumes "\<not> chunked_prefill_enabled e" "schedule e s0 = Inr (out, s')"
  obtains s p t where "schedule_plan e s0 = Inr (s, p)"
    "check_constraints e (s, p) = Inr (so_total_num_scheduled_tokens out)"
    "so_num_scheduled_tokens out = num_scheduled_tokens p" "so_finished_req_ids out = finished_req_ids s"
    "waiting s' = waiting s" "running s' = running s" "requests s' = requests s"
    "scheduled_req_ids s' = scheduled_req_ids s" "finished_req_ids s' = {}"
    "obj t = obj s" "advance_all t (num_scheduled_tokens p) = Inr (s'\<lparr>finished_req_ids := finished_req_ids t\<rparr>)"
proof -
  from assms obtain sp where sp: "schedule_plan e s0 = Inr sp" and fin: "finish_schedule e sp = Inr (out, s')"
    by (auto simp: schedule_def res_elims)
  obtain s p where spp: "sp = (s, p)" by fastforce
  from fin spp obtain tot out1 s1 s2 s3 where
    c: "check_constraints e (s, p) = Inr tot" and b: "build_output e tot (s, p) = Inr (out1, s1)" and
    a: "attach_connector_meta e (out1, s1) = Inr (out, s2)" and
    f: "advance_all (publish_events e s2) (so_num_scheduled_tokens out) = Inr s3" and
    s': "s' = s3\<lparr>finished_req_ids := {}\<rparr>"
    by (auto simp: finish_schedule_def res_elims advance_all_def)
  note bf = build_output_fields [OF b] and af = attach_connector_meta_fields [OF a]
    and ff = advance_all_fields [OF f]
  have fr: "finished_req_ids s3 = finished_req_ids (publish_events e s2)"
    using ff by simp
  have q: "waiting s3 = waiting s" "running s3 = running s" "requests s3 = requests s"
    "scheduled_req_ids s3 = scheduled_req_ids s" "obj (publish_events e s2) = obj s"
    "so_num_scheduled_tokens out = num_scheduled_tokens p"
    using bf(1-3) af(1-3) ff publish_events_fields [of e s2] by (simp_all add: same_queues_def)
  have o: "so_total_num_scheduled_tokens out = tot" "so_finished_req_ids out = finished_req_ids s"
    using bf(4,5) af(4,5) by simp_all
  have "advance_all (publish_events e s2) (num_scheduled_tokens p)
      = Inr (s'\<lparr>finished_req_ids := finished_req_ids (publish_events e s2)\<rparr>)"
    using f q(6) s' fr by simp
  with sp spp c q o s' show thesis by (intro that [of s p "publish_events e s2"]) simp_all
qed

end
