(* ===== verification/Scheduler_Props.thy ===== *)
theory Scheduler_Props
  imports Scheduler_Proofs
begin

section \<open>Properties of the scheduler\<close>

text \<open>
  The theorems about \<^verbatim>\<open>AscendScheduler\<close>, each with a witness on \<open>demo_env\<close>: a KV cache manager that
  counts free blocks of sixteen tokens, no connector, a budget of 32 tokens and three running slots.
\<close>

definition demo_env :: "(int, int, unit, unit, unit) sched_env" where
  "demo_env =
     \<lparr>chunked_prefill_enabled = False, is_multi_step = False, config_max_model_len = 32,
      max_num_batched_tokens = 32, config_watermark = None, max_num_scheduled_tokens = 32,
      max_num_running_reqs = 3, max_model_len = 32, lora_config = Some 1, num_kv_blocks = 8,
      block_size = 16, num_lookahead_tokens = 0, log_stats = False, is_vllm_0_10_1_1 = False,
      connector = None, cdiv = (\<lambda>a b. - ((- a) div b)),
      num_tokens_with_spec = (\<lambda>q. num_tokens q + int (length (spec_token_ids q))),
      update_waiting_for_remote_kv = (\<lambda>kv q. (True, kv, q)),
      get_computed_blocks = (\<lambda>kv q. ((0, 0), kv)), create_empty_block_list = (\<lambda>kv. 0),
      first_group_blocks = (\<lambda>b. []), add_blocks = (+),
      allocate_slots = (\<lambda>kv q n c b l d. if kv \<ge> 1 then (Some 1, kv - 1) else (None, kv)),
      free_request = (\<lambda>kv q. kv + 1), len_req_blocks = (\<lambda>kv r. 0), get_num_free_blocks = (\<lambda>kv. kv),
      manager_block_ids = (\<lambda>kv r. []), get_block_ids = (\<lambda>b. []),
      get_num_common_prefix_blocks = (\<lambda>kv q n. 0), take_events = (\<lambda>kv. ([], kv)),
      get_freed = (\<lambda>kv. (FreedHashes [], kv)), make_cached_request_data = (\<lambda>a b c d e. ()),
      super_schedule = (\<lambda>s. Inl NotImplementedError)\<rparr>"

definition demo_request :: "rid \<Rightarrow> request_status \<Rightarrow> int \<Rightarrow> int \<Rightarrow> request" where
  "demo_request r st n c =
     \<lparr>request_id = r, status = st, num_tokens = n, num_computed_tokens = c, num_cached_tokens = -1,
      prompt_token_ids = replicate (nat n) 7, spec_token_ids = [], lora_req = None,
      kv_transfer_params = None, events = []\<rparr>"

text \<open>Three waiting prompts of 10, 40 and 12 tokens; one running request that is due a token.\<close>

definition demo_sched :: "(int, unit) sched" where
  "demo_sched =
     \<lparr>obj = (\<lambda>_. demo_request ''d'' RUNNING 5 4)
        (''a'' := demo_request ''a'' WAITING 10 0, ''b'' := demo_request ''b'' WAITING 40 0,
         ''c'' := demo_request ''c'' WAITING 12 0),
      requests = {''a'', ''b'', ''c'', ''d''}, waiting = [''a'', ''b'', ''c''], running = [''d''],
      scheduled_req_ids = {}, finished_req_ids = {}, kv_state = 6, cn_state = (), published = []\<rparr>"

text \<open>Two running requests and one free block: the second is preempted for the first.\<close>

definition tight_sched :: "(int, unit) sched" where
  "tight_sched =
     demo_sched\<lparr>obj := (\<lambda>_. demo_request ''d'' RUNNING 5 4)(''f'' := demo_request ''f'' RUNNING 9 8),
       requests := {''d'', ''f''}, waiting := [], running := [''d'', ''f''], kv_state := 0\<rparr>"

lemma demo_inv: "sched_inv demo_env demo_sched"
  by (simp add: sched_inv_def demo_env_def demo_sched_def)

lemma tight_inv: "sched_inv demo_env tight_sched"
  by (simp add: sched_inv_def demo_env_def demo_sched_def tight_sched_def)

lemma not_isl_projr: "\<not> isl x \<Longrightarrow> x = Inr (projr x)"
  by (cases x) simp_all

lemma demo_plan_ok: "schedule_plan demo_env demo_sched = Inr (projr (schedule_plan demo_env demo_sched))"
  by (rule not_isl_projr) code_simp

lemma demo_schedule_ok: "schedule demo_env demo_sched = Inr (projr (schedule demo_env demo_sched))"
  by (rule not_isl_projr) code_simp

lemma tight_plan_ok: "schedule_plan demo_env tight_sched = Inr (projr (schedule_plan demo_env tight_sched))"
  by (rule not_isl_projr) code_simp

lemma demo_not_chunked: "\<not> chunked_prefill_enabled demo_env"
  by (simp add: demo_env_def)

lemma demo_connector_ok: "connector_ok demo_env"
  by (simp add: connector_ok_def demo_env_def)

subsection \<open>Bounds\<close>

lemma plan_bounds:
  assumes "sched_inv e s0" "schedule_plan e s0 = Inr (s, p)"
  shows "budget_inv e p" "int (length (running s)) \<le> max_num_running_reqs e"
    "length (scheduled_new_reqs p) + length (scheduled_resumed_reqs p) + length (scheduled_running_reqs p)
       \<le> length (running s)"
    "distinct (map fst (num_scheduled_tokens p))" "fst ` set (num_scheduled_tokens p) \<subseteq> set (running s)"
    "fst ` set (num_scheduled_tokens p) \<subseteq> scheduled_req_ids s"
proof -
  have "budget_inv e p \<and> int (length (running s)) \<le> max_num_running_reqs e \<and>
    length (scheduled_new_reqs p) + length (scheduled_resumed_reqs p) + length (scheduled_running_reqs p)
       \<le> length (running s) \<and> distinct (map fst (num_scheduled_tokens p)) \<and>
    set (map fst (num_scheduled_tokens p)) \<subseteq> set (running s) \<and>
    set (map fst (num_scheduled_tokens p)) \<subseteq> scheduled_req_ids s"
    using assms
  proof (cases rule: schedule_plan_cases)
    case (prefill adm ign)
    have "length (scheduled_new_reqs p @ scheduled_resumed_reqs p) = length adm"
      using prefill(1) unfolding prefill_result_def by (metis mset_eq_length)
    moreover have "distinct adm"
      using prefill_result_distinct(1) [OF assms(1) prefill(1)] prefill(1) by (auto simp: prefill_result_def)
    ultimately show ?thesis using prefill(1) by (auto simp: prefill_result_def)
  next
    case (decode s1 p1 ign j)
    have "length (scheduled_running_reqs p) = card (set (scheduled_running_reqs p))"
      using decode(4) by (simp add: decode_inv_def distinct_card)
    also have "\<dots> \<le> card (set (running s))"
      using decode(4) set_take_subset [of j "running s"] by (intro card_mono) (auto simp: decode_inv_def)
    also have "\<dots> \<le> length (running s)" by (rule card_length)
    finally show ?thesis
      using decode(2,4) set_take_subset [of j "running s"] by (auto simp: decode_inv_def prefill_result_def)
  qed
  then show "budget_inv e p" "int (length (running s)) \<le> max_num_running_reqs e"
    "length (scheduled_new_reqs p) + length (scheduled_resumed_reqs p) + length (scheduled_running_reqs p)
       \<le> length (running s)"
    "distinct (map fst (num_scheduled_tokens p))" "fst ` set (num_scheduled_tokens p) \<subseteq> set (running s)"
    "fst ` set (num_scheduled_tokens p) \<subseteq> scheduled_req_ids s" by simp_all
qed

text \<open>
  C1. The four assertions at the end of \<^verbatim>\<open>schedule\<close> never fail: whatever the KV cache manager and the
  connector answer, when the two loops return, the scheduled tokens stay within
  \<^verbatim>\<open>max_num_scheduled_tokens\<close>, the budget is not negative, at most \<^verbatim>\<open>max_num_running_reqs\<close> requests
  run, and the scheduled requests are no more than the running ones.
\<close>

theorem schedule_assertions_hold:
  assumes "sched_inv e s" "schedule_plan e s = Inr sp"
  shows "check_constraints e sp = Inr (sum_list (map snd (num_scheduled_tokens (snd sp))))"
proof -
  obtain t p where sp: "sp = (t, p)" by fastforce
  note b = plan_bounds [OF assms(1) assms(2) [unfolded sp]]
  show ?thesis using b(1-3) sp by (simp add: check_constraints_def Let_def budget_inv_def py_assert_def)
qed

theorem schedule_assertions_hold_witness:
  "sched_inv demo_env demo_sched \<and>
   check_constraints demo_env (projr (schedule_plan demo_env demo_sched)) = Inr 22"
proof -
  have "sum_list (map snd (num_scheduled_tokens (snd (projr (schedule_plan demo_env demo_sched))))) = 22"
    by code_simp
  then show ?thesis using schedule_assertions_hold [OF demo_inv demo_plan_ok] demo_inv by simp
qed

text \<open>
  C2. A step of \<^verbatim>\<open>schedule\<close> loses no request and invents none: as multisets, the waiting and running
  queues after the step together with the requests it finished as too long are the queues before
  it, and every request that leaves the queues is reported in \<^verbatim>\<open>finished_req_ids\<close> of the output.
\<close>

theorem schedule_loses_no_request:
  assumes "sched_inv e s" "\<not> chunked_prefill_enabled e" "schedule e s = Inr (out, s')"
  shows "\<exists>ign. mset (waiting s' @ running s' @ ign) = mset (waiting s @ running s) \<and>
           set ign \<subseteq> so_finished_req_ids out"
  using assms(2,3)
proof (cases rule: schedule_cases)
  case (1 t p u)
  from assms(1) 1(1) show ?thesis
  proof (cases rule: schedule_plan_cases)
    case (prefill adm ign)
    then show ?thesis
      using prefill_result_distinct(3) [OF assms(1) prefill(1)] 1(4-6) by (auto simp: prefill_result_def)
  next
    case (decode s1 p1 ign j)
    have "mset (running t @ waiting t) = mset (running s1 @ waiting s1)"
      using decode(4) unfolding decode_inv_def by metis
    then have "mset (waiting s' @ running s' @ ign) = mset (waiting s1 @ running s1 @ ign)"
      using 1(5,6) by (simp add: ac_simps)
    then have "mset (waiting s' @ running s' @ ign) = mset (waiting s @ running s)"
      using prefill_result_distinct(3) [OF assms(1) decode(2)] by (rule trans)
    moreover have "set ign \<subseteq> so_finished_req_ids out"
      using 1(4) decode(2,4) by (simp add: prefill_result_def decode_inv_def)
    ultimately show ?thesis by blast
  qed
qed

theorem schedule_loses_no_request_witness:
  "\<exists>ign. mset (waiting (snd (projr (schedule demo_env demo_sched)))
              @ running (snd (projr (schedule demo_env demo_sched))) @ ign)
           = mset [''a'', ''b'', ''c'', ''d''] \<and>
         set ign \<subseteq> so_finished_req_ids (fst (projr (schedule demo_env demo_sched)))"
proof -
  have "mset (waiting demo_sched @ running demo_sched) = mset [''a'', ''b'', ''c'', ''d'']"
    by (simp add: demo_sched_def)
  then show ?thesis
    using schedule_loses_no_request [OF demo_inv demo_not_chunked, of
        "fst (projr (schedule demo_env demo_sched))" "snd (projr (schedule demo_env demo_sched))"]
      demo_schedule_ok by simp
qed

subsection \<open>Order\<close>

text \<open>
  C3. The prefill phase is first come, first served up to what it skips: the requests it admits are
  appended to the running queue in the order in which they waited, and the requests it skips are
  back in the waiting queue in exactly the order they had (the deque of skipped requests and
  \<^verbatim>\<open>extendleft\<close> reverse it twice).
\<close>

theorem prefill_phase_keeps_order:
  assumes "sched_inv e s" "prefill_phase e s = Inr (s', p)"
  shows "\<exists>adm ign. running s' = running s @ adm \<and> filter (\<lambda>r. r \<in> set adm) (waiting s) = adm \<and>
           waiting s' = filter (\<lambda>r. r \<notin> set adm \<and> r \<notin> set ign) (waiting s) \<and>
           set ign \<subseteq> finished_req_ids s' \<and> map fst (num_scheduled_tokens p) = adm"
  using prefill_phase_result [OF assms] unfolding prefill_result_def by blast

theorem prefill_phase_keeps_order_witness:
  "\<exists>s' p adm ign. prefill_phase demo_env demo_sched = Inr (s', p) \<and> running s' = [''d''] @ adm \<and>
     waiting s' = filter (\<lambda>r. r \<notin> set adm \<and> r \<notin> set ign) [''a'', ''b'', ''c'']"
proof -
  have "\<not> isl (prefill_phase demo_env demo_sched)" by code_simp
  then obtain s' p where ok: "prefill_phase demo_env demo_sched = Inr (s', p)"
    using not_isl_projr by (metis surj_pair)
  have "running demo_sched = [''d'']" "waiting demo_sched = [''a'', ''b'', ''c'']"
    by (simp_all add: demo_sched_def)
  then show ?thesis using prefill_phase_keeps_order [OF demo_inv ok] ok by auto
qed

text \<open>
  C4. Prefill goes first: a step never mixes prefill and decode. If the step prefills a request, or if
  a request scheduled before has not been reported back yet, then no decode request is scheduled
  and none is preempted.
\<close>

theorem schedule_plan_prefill_first:
  assumes "sched_inv e s" "schedule_plan e s = Inr (s', p)"
    and "scheduled_req_ids s \<noteq> {} \<or> scheduled_new_reqs p \<noteq> [] \<or> scheduled_resumed_reqs p \<noteq> []"
  shows "scheduled_running_reqs p = [] \<and> preempted_reqs p = []"
  using assms(1,2)
proof (cases rule: schedule_plan_cases)
  case (decode s1 p1 ign j)
  then show ?thesis using assms(3) by (simp add: prefill_result_def decode_inv_def)
qed (simp add: prefill_result_def)

theorem schedule_plan_prefill_first_witness:
  "let p = snd (projr (schedule_plan demo_env demo_sched)) in
   scheduled_new_reqs p = [''a'', ''c''] \<and> scheduled_running_reqs p = [] \<and> preempted_reqs p = []"
proof -
  let ?sp = "projr (schedule_plan demo_env demo_sched)"
  have "scheduled_new_reqs (snd ?sp) = [''a'', ''c'']" by code_simp
  then show ?thesis
    using schedule_plan_prefill_first [OF demo_inv, of "fst ?sp" "snd ?sp"] demo_plan_ok
    by (simp add: Let_def)
qed

text \<open>
  C5. Preemption: the requests that are preempted in a step are the last ones of the running queue;
  they stand, in their order, at the head of the waiting queue, marked as preempted with no computed
  tokens, and no request that the step schedules is among them.
\<close>

theorem schedule_plan_preemption:
  assumes "sched_inv e s" "schedule_plan e s = Inr (s', p)" "preempted_reqs p \<noteq> []"
  shows "running s' @ rev (preempted_reqs p) = running s \<and>
         (\<exists>ws. waiting s' = rev (preempted_reqs p) @ ws \<and> subseq ws (waiting s)) \<and>
         (\<forall>v \<in> set (preempted_reqs p). status (obj s' v) = PREEMPTED \<and> num_computed_tokens (obj s' v) = 0) \<and>
         set (preempted_reqs p) \<inter> fst ` set (num_scheduled_tokens p) = {}"
  using assms(1,2)
proof (cases rule: schedule_plan_cases)
  case (decode s1 p1 ign j)
  let ?k = "length (running s')"
  have d: "distinct (running s1 @ waiting s1)" using prefill_result_distinct(1) [OF assms(1) decode(2)] .
  have k: "?k \<le> length (running s1)" "running s' @ waiting s' = running s1 @ waiting s1"
    "rev (preempted_reqs p) = drop ?k (running s1)"
    using decode(4) by (simp_all add: decode_inv_def)
  have r: "running s' = take ?k (running s1)" using take_running_prefix [OF k(2,1)] .
  then have eq: "running s' @ rev (preempted_reqs p) = running s1" using k(3) by (metis append_take_drop_id)
  then have w: "waiting s' = rev (preempted_reqs p) @ waiting s1" using k(2) by (metis append.assoc same_append_eq)
  have "running s1 = running s" "subseq (waiting s1) (waiting s)"
    using decode(2) unfolding prefill_result_def by (simp_all add: subseq_filter_left)
  moreover have "fst ` set (num_scheduled_tokens p) \<subseteq> set (running s')"
    using plan_bounds(5) [OF assms(1,2)] .
  then have "set (preempted_reqs p) \<inter> fst ` set (num_scheduled_tokens p) = {}"
    using decode_inv_disjoint [OF decode(4) d] by blast
  ultimately show ?thesis using eq w decode(4) by (auto simp: decode_inv_def)
qed (use assms(3) in \<open>simp add: prefill_result_def\<close>)

theorem schedule_plan_preemption_witness:
  "let sp = projr (schedule_plan demo_env tight_sched) in
   preempted_reqs (snd sp) = [''f''] \<and> running (fst sp) = [''d''] \<and> status (obj (fst sp) ''f'') = PREEMPTED"
proof -
  let ?sp = "projr (schedule_plan demo_env tight_sched)"
  have pre: "preempted_reqs (snd ?sp) = [''f'']" by code_simp
  have ok: "schedule_plan demo_env tight_sched = Inr (fst ?sp, snd ?sp)" using tight_plan_ok by simp
  note t = schedule_plan_preemption [OF tight_inv ok]
  have "running (fst ?sp) @ [''f''] = [''d''] @ [''f'']" "status (obj (fst ?sp) ''f'') = PREEMPTED"
    using t pre by (simp_all add: tight_sched_def)
  then show ?thesis using pre by (simp add: Let_def)
qed

subsection \<open>Adapters, tokens, and the invariant across steps\<close>

text \<open>
  At most \<^verbatim>\<open>max_loras\<close> different LoRA adapters are scheduled in one step, through both loops, for
  any connector that keeps its contract.
\<close>

theorem schedule_plan_lora_bound:
  assumes "sched_inv e s" "connector_ok e" "lora_config e = Some m" "0 \<le> m"
    and "schedule_plan e s = Inr (s', p)"
  shows "finite (scheduled_loras p) \<and> int (card (scheduled_loras p)) \<le> m"
proof -
  from assms(5) obtain s1 p1 where ph: "prefill_phase e s = Inr (s1, p1)"
    and k: "(if card (scheduled_req_ids s1) = 0 then decode_loop e 0 (s1, p1) else Inr (s1, p1)) = Inr (s', p)"
    by (auto simp: schedule_plan_def res_elims)
  from ph obtain s0 where l: "prefill_loop e (s, initial_plan e) = Inr (s0, p1)"
    by (auto simp: prefill_phase_def res_elims put_back_skipped_def split: prod.splits)
  have "lora_inv e p1" using prefill_loop_lora [OF l assms(2)] assms(3,4) by auto
  then have "lora_inv e p" using decode_loop_lora [of e 0 s1 p1 s' p] k by (auto split: if_splits)
  then show ?thesis using assms(3) by (simp add: lora_ok_def)
qed

theorem schedule_plan_lora_bound_witness:
  "let p = snd (projr (schedule_plan demo_env demo_sched)) in
   finite (scheduled_loras p) \<and> int (card (scheduled_loras p)) \<le> 1"
proof -
  let ?sp = "projr (schedule_plan demo_env demo_sched)"
  have "lora_config demo_env = Some 1" by (simp add: demo_env_def)
  then show ?thesis
    using schedule_plan_lora_bound [OF demo_inv demo_connector_ok, of 1 "fst ?sp" "snd ?sp"] demo_plan_ok
    by (simp add: Let_def)
qed

text \<open>
  The invariant between steps is kept by \<^verbatim>\<open>schedule\<close>: the queues stay disjoint and duplicate-free
  and inside the table of requests, at most \<^verbatim>\<open>max_num_running_reqs\<close> requests run, and only running
  requests are marked as scheduled.
\<close>

theorem schedule_preserves_inv:
  assumes "sched_inv e s" "\<not> chunked_prefill_enabled e" "schedule e s = Inr (out, s')"
  shows "sched_inv e s'"
  using assms(2,3)
proof (cases rule: schedule_cases)
  case (1 t p u)
  note b = plan_bounds [OF assms(1) 1(1)]
  from assms(1) 1(1) have "distinct (running t @ waiting t) \<and> set (waiting t @ running t) \<subseteq> requests t \<and>
      scheduled_req_ids t \<subseteq> set (running t)"
  proof (cases rule: schedule_plan_cases)
    case (prefill adm ign)
    then show ?thesis using prefill_result_distinct [OF assms(1) prefill(1)] assms(1)
      by (auto simp: prefill_result_def sched_inv_def)
  next
    case (decode s1 p1 ign j)
    have eq: "running t @ waiting t = running s1 @ waiting s1" "requests t = requests s1"
      using decode(4) by (simp_all add: decode_inv_def)
    have "set (waiting t @ running t) = set (waiting s1 @ running s1)"
      using arg_cong [OF eq(1), of set] by auto
    moreover have "scheduled_req_ids t \<subseteq> set (running t)"
      using decode(4) set_take_subset [of j "running t"] by (auto simp: decode_inv_def)
    ultimately show ?thesis
      using prefill_result_distinct [OF assms(1) decode(2)] eq by simp
  qed
  then show ?thesis using 1(5-8) b(2) assms(1) by (auto simp: sched_inv_def)
qed

theorem schedule_preserves_inv_witness:
  "sched_inv demo_env (snd (projr (schedule demo_env demo_sched)))"
  using schedule_preserves_inv [OF demo_inv demo_not_chunked,
      of "fst (projr (schedule demo_env demo_sched))" "snd (projr (schedule demo_env demo_sched))"]
    demo_schedule_ok by simp

text \<open>
  A prefill is whole: when a step schedules a request from the waiting queue, the request is
  running afterwards and the tokens it had computed plus the tokens scheduled now are all its
  tokens. (So the assertion of the decode loop, that one token is left to compute, holds once the
  model has produced the next token.)
\<close>

theorem schedule_prefills_whole_prompt:
  assumes "sched_inv e s" "connector_ok e" "\<not> chunked_prefill_enabled e"
    and "schedule e s = Inr (out, s')" "(r, n) \<in> set (so_num_scheduled_tokens out)" "r \<in> set (waiting s)"
  shows "status (obj s' r) = RUNNING \<and> num_computed_tokens (obj s' r) = num_tokens (obj s' r) \<and>
         r \<in> set (running s')"
  using assms(3,4)
proof (cases rule: schedule_cases)
  case (1 t p u)
  note b = plan_bounds [OF assms(1) 1(1)]
  have m: "(r, n) \<in> set (num_scheduled_tokens p)" using assms(5) 1(3) by simp
  then have run: "r \<in> set (running t)" using b(5) by force
  from assms(1) 1(1) show ?thesis
  proof (cases rule: schedule_plan_cases)
    case (prefill adm ign)
    from prefill(3) obtain s1 where l: "prefill_loop e (s, initial_plan e) = Inr (s1, p)" "obj t = obj s1"
      by (auto simp: prefill_phase_def res_elims put_back_skipped_def split: prod.splits)
    have "status (obj t r) = RUNNING \<and> num_computed_tokens (obj t r) + n = num_tokens (obj t r)"
      using prefill_loop_admitted [OF l(1) assms(1,2)] m l(2) by (auto simp: admitted_inv_def)
    moreover have "map_of (num_scheduled_tokens p) r = Some n" using m b(4) by simp
    ultimately show ?thesis
      using advance_all_fields [OF 1(11)] b(4) 1(6,10) run by simp
  next
    case (decode s1 p1 ign j)
    have "running t @ waiting t = running s @ waiting s1" "distinct (waiting s @ running s)"
      using decode(2,4) assms(1) by (simp_all add: decode_inv_def prefill_result_def sched_inv_def)
    moreover have "length (running t) \<le> length (running s)"
      using decode(2,4) by (simp add: decode_inv_def prefill_result_def)
    ultimately have "set (running t) \<subseteq> set (running s)"
      using take_running_prefix [of t "waiting t" "running s" "waiting s1"] by (metis set_take_subset)
    then show ?thesis using run assms(1,6) by (auto simp: sched_inv_def)
  qed
qed

theorem schedule_prefills_whole_prompt_witness:
  "let s' = snd (projr (schedule demo_env demo_sched)) in
   status (obj s' ''c'') = RUNNING \<and> num_computed_tokens (obj s' ''c'') = 12"
proof -
  let ?o = "fst (projr (schedule demo_env demo_sched))" and ?s = "snd (projr (schedule demo_env demo_sched))"
  have "(''c'', 12) \<in> set (so_num_scheduled_tokens ?o)" "num_tokens (obj ?s ''c'') = 12" by code_simp+
  moreover have "''c'' \<in> set (waiting demo_sched)" by (simp add: demo_sched_def)
  ultimately show ?thesis
    using schedule_prefills_whole_prompt [OF demo_inv demo_connector_ok demo_not_chunked, of ?o ?s "''c''" 12]
      demo_schedule_ok by (simp add: Let_def)
qed

subsection \<open>The marks of scheduled requests\<close>

lemma clear_scheduled_fields:
  "running (clear_scheduled num s r) = running s" "obj (clear_scheduled num s r) = obj s"
  "waiting (clear_scheduled num s r) = waiting s" "requests (clear_scheduled num s r) = requests s"
  by (simp_all add: clear_scheduled_def Let_def)

lemma foldl_clear_scheduled:
  "scheduled_req_ids (foldl (clear_scheduled num) s rs)
     = scheduled_req_ids s - {r \<in> set rs. map_of num r \<noteq> None \<and> map_of num r \<noteq> Some 0}"
proof (induction rs arbitrary: s)
  case (Cons r rs)
  have "scheduled_req_ids (clear_scheduled num s r)
      = scheduled_req_ids s - {x. x = r \<and> map_of num r \<noteq> None \<and> map_of num r \<noteq> Some 0}"
    by (auto simp: clear_scheduled_def Let_def split: option.splits)
  then show ?case using Cons.IH [of "clear_scheduled num s r"] by auto
qed simp

lemma foldl_clear_scheduled_queues:
  "running (foldl (clear_scheduled num) s rs) = running s"
  "waiting (foldl (clear_scheduled num) s rs) = waiting s"
  by (induction rs arbitrary: s) (simp_all add: clear_scheduled_fields)

text \<open>
  C9. \<^verbatim>\<open>update_from_output\<close> takes back exactly the marks of the step: when no mark was left before a
  \<^verbatim>\<open>schedule\<close>, none is left when the base class takes over in \<^verbatim>\<open>update_from_output\<close> for its output. So
  a prefill step never keeps later steps from decoding.
\<close>

theorem update_from_output_clears_marks:
  assumes "sched_inv e s" "\<not> chunked_prefill_enabled e" "schedule e s = Inr (out, s')"
    and "scheduled_req_ids s = {}"
  shows "\<exists>s2. update_from_output super_update s' out mo = super_update s2 out mo \<and>
           scheduled_req_ids s2 = {} \<and> running s2 = running s' \<and> waiting s2 = waiting s'"
  using assms(2,3)
proof (cases rule: schedule_cases)
  case (1 t p u)
  let ?s2 = "foldl (clear_scheduled (so_num_scheduled_tokens out)) s' (running s')"
  note b = plan_bounds [OF assms(1) 1(1)]
  have "scheduled_req_ids t = fst ` set (num_scheduled_tokens p)"
    using assms(1) 1(1)
  proof (cases rule: schedule_plan_cases)
    case (prefill adm ign)
    then show ?thesis using assms(4) unfolding prefill_result_def by (metis list.set_map sup_bot_left)
  next
    case (decode s1 p1 ign j)
    then show ?thesis using assms(4) unfolding decode_inv_def by (metis list.set_map)
  qed
  moreover have "map_of (num_scheduled_tokens p) r \<noteq> None \<and> map_of (num_scheduled_tokens p) r \<noteq> Some 0"
    if "r \<in> fst ` set (num_scheduled_tokens p)" for r
  proof -
    obtain n where n: "(r, n) \<in> set (num_scheduled_tokens p)" using \<open>r \<in> fst ` set (num_scheduled_tokens p)\<close> by force
    then have "n \<noteq> 0" using b(1) by (force simp: budget_inv_def)
    then show ?thesis using n b(4) by simp
  qed
  ultimately have "scheduled_req_ids ?s2 = {}"
    using 1(3,6,8) b(5) by (auto simp: foldl_clear_scheduled)
  moreover have "running ?s2 = running s'" "waiting ?s2 = waiting s'"
    by (rule foldl_clear_scheduled_queues)+
  ultimately show ?thesis by (auto simp: update_from_output_def)
qed

theorem update_from_output_clears_marks_witness:
  "\<exists>s2. update_from_output (\<lambda>s o' m. (m, s)) (snd (projr (schedule demo_env demo_sched)))
           (fst (projr (schedule demo_env demo_sched))) True = (True, s2) \<and> scheduled_req_ids s2 = {} \<and>
        length (running s2) = 3"
proof -
  let ?o = "fst (projr (schedule demo_env demo_sched))" and ?s = "snd (projr (schedule demo_env demo_sched))"
  have "scheduled_req_ids demo_sched = {}" by (simp add: demo_sched_def)
  moreover have "length (running ?s) = 3" by code_simp
  ultimately show ?thesis
    using update_from_output_clears_marks [OF demo_inv demo_not_chunked, of ?o ?s "\<lambda>s o' m. (m, s)" True]
      demo_schedule_ok by auto
qed

text \<open>
  \<^verbatim>\<open>finish_requests\<close> called with a list takes the mark of a running request back; called with the
  id itself, as its signature allows, it iterates over the characters of the id and takes back
  nothing (unless the characters happen to be ids). The mark then outlives the request.
\<close>

theorem finish_requests_single_id:
  assumes "\<forall>c \<in> set i. [c] \<notin> requests s" "i \<in> requests s" "status (obj s i) = RUNNING"
  shows "finish_requests super_finish s (OneId i) st = super_finish s (OneId i) st \<and>
         finish_requests super_finish s (ManyIds [i]) st
           = super_finish (s\<lparr>scheduled_req_ids := scheduled_req_ids s - {i}\<rparr>) (ManyIds [i]) st"
proof -
  have "foldl discard_scheduled s (map (\<lambda>c. [c]) cs) = s" if "set cs \<subseteq> set i" for cs
    using that assms(1) by (induction cs) (auto simp: discard_scheduled_def)
  then show ?thesis using assms(2,3) by (simp add: finish_requests_def discard_scheduled_def)
qed

theorem finish_requests_single_id_witness:
  "let s = demo_sched\<lparr>requests := {''dd''}, scheduled_req_ids := {''dd''}\<rparr> in
   scheduled_req_ids (finish_requests (\<lambda>s i st. s) s (OneId ''dd'') FINISHED_ABORTED) = {''dd''} \<and>
   scheduled_req_ids (finish_requests (\<lambda>s i st. s) s (ManyIds [''dd'']) FINISHED_ABORTED) = {}"
proof -
  let ?s = "demo_sched\<lparr>requests := {''dd''}, scheduled_req_ids := {''dd''}\<rparr>"
  have "\<forall>c \<in> set ''dd''. [c] \<notin> requests ?s" "''dd'' \<in> requests ?s" "status (obj ?s ''dd'') = RUNNING"
    by (simp_all add: demo_sched_def demo_request_def)
  from finish_requests_single_id [OF this, of "\<lambda>s i st. s" FINISHED_ABORTED] show ?thesis
    by (simp add: Let_def)
qed

end
