(* ===== verification/Mooncake_Connector.thy ===== *)
theory Mooncake_Connector
  imports Engine_Types
begin

section \<open>The Mooncake KV connector\<close>

text \<open>
  \<^verbatim>\<open>vllm_ascend/distributed/mooncake_connector.py\<close>: the tracker that counts which ranks have finished
  a transfer (\<open>task_tracker\<close>), the thread of the prefill node that answers metadata requests and
  completion signals (\<open>sending_thread_step\<close>), the thread of the decode node that pulls blocks
  (\<open>recv_thread\<close>), the connector's scheduler side (\<open>mc_sched\<close>) and its worker side (\<open>mc_worker\<close>).
  Sockets, message encoding, the transfer engine, the random sample and SHA-256 are parameters:
  an operation that does network I/O takes the outcome of each attempt as an argument.
\<close>

definition GET_META_MSG :: string where "GET_META_MSG = ''get_meta_msg''"
definition DONE_RECVING_MSG :: string where "DONE_RECVING_MSG = ''done_recving_msg''"

record mc_agent_metadata =
  am_engine_id :: string
  am_te_rpc_port :: int
  am_kv_caches_base_addr :: "int list"
  am_num_blocks :: int

record mc_req_meta =
  rm_local_block_ids :: "int list"
  rm_remote_block_ids :: "int list"
  rm_remote_host :: string
  rm_remote_port :: int
  rm_remote_engine_id :: string

subsection \<open>KVCacheTaskTracker\<close>

text \<open>
  \<open>pushed\<close> are the messages a rank other than 0 has sent to the listener of rank 0.
\<close>

record task_tracker =
  tt_tp_rank :: int
  tt_target_count :: nat
  done_task_counts :: "rid \<rightharpoonup> int set"
  finished_requests :: "rid set"
  pushed :: "(rid \<times> int) list"

definition tracker_init :: "int \<Rightarrow> nat \<Rightarrow> task_tracker" where
  "tracker_init rank target =
     \<lparr>tt_tp_rank = rank, tt_target_count = target, done_task_counts = Map.empty,
      finished_requests = {}, pushed = []\<rparr>"

definition increment_task_count :: "task_tracker \<Rightarrow> rid \<Rightarrow> int \<Rightarrow> task_tracker" where
  "increment_task_count t r rank =
     (let ranks = (case done_task_counts t r of None \<Rightarrow> {} | Some rs \<Rightarrow> rs) in
      if rank \<in> ranks then t
      else
        let ranks' = insert rank ranks in
        if card ranks' = tt_target_count t then
          t\<lparr>finished_requests := insert r (finished_requests t),
            done_task_counts := (done_task_counts t)(r := None)\<rparr>
        else t\<lparr>done_task_counts := (done_task_counts t)(r \<mapsto> ranks')\<rparr>)"

definition update_done_task_count :: "task_tracker \<Rightarrow> rid \<Rightarrow> int \<Rightarrow> task_tracker" where
  "update_done_task_count t r rank =
     (if tt_tp_rank t = 0 then increment_task_count t r rank
      else t\<lparr>pushed := pushed t @ [(r, rank)]\<rparr>)"

text \<open>The listener of rank 0, one received message at a time.\<close>

definition listen_step :: "task_tracker \<Rightarrow> rid \<times> int \<Rightarrow> task_tracker" where
  "listen_step t m = increment_task_count t (fst m) (snd m)"

definition get_and_clear_finished_requests :: "task_tracker \<Rightarrow> rid set \<times> task_tracker" where
  "get_and_clear_finished_requests t = (finished_requests t, t\<lparr>finished_requests := {}\<rparr>)"

subsection \<open>KVCacheSendingThread\<close>

text \<open>
  One turn of the loop of \<^verbatim>\<open>run\<close>: the frames received, the multipart messages sent back. \<open>dec\<close> is the
  msgpack decoder; what it and the handler raise is caught and logged.
\<close>

definition handle_message ::
  "string \<Rightarrow> string \<Rightarrow> py_value list \<Rightarrow> task_tracker \<Rightarrow> (string list list \<times> task_tracker) result" where
  "handle_message encoded_data ident msg t =
     res_bind (list_item msg 0) (\<lambda>kind.
       if kind = PBytes GET_META_MSG then Inr ([[ident, [], encoded_data]], t)
       else if kind = PBytes DONE_RECVING_MSG then
         res_bind (list_item msg 1) (\<lambda>m1.
         res_bind (list_item msg 2) (\<lambda>m2.
           case (m1, m2) of
             (PStr r, PInt decode_tp_rank) \<Rightarrow>
               Inr ([[ident, [], ''ACK'']], update_done_task_count t r decode_tp_rank)
           | _ \<Rightarrow> Inl TypeError))
       else Inr ([], t))"

definition sending_thread_step ::
  "(string \<Rightarrow> py_value list result) \<Rightarrow> string \<Rightarrow> string list \<Rightarrow> task_tracker \<Rightarrow> string list list \<times> task_tracker" where
  "sending_thread_step dec encoded_data frames t =
     (if length frames < 2 then ([], t)
      else
        let payload = filter (\<lambda>f. f \<noteq> []) (tl frames) in
        if length payload \<noteq> 1 then ([], t)
        else
          (case res_bind (dec (hd payload)) (\<lambda>msg. handle_message encoded_data (hd frames) msg t) of
             Inl _ \<Rightarrow> ([], t)
           | Inr x \<Rightarrow> x))"

subsection \<open>Retries on sockets\<close>

text \<open>
  The attempts of a send or receive are numbered; \<open>None\<close> is a ZMQ error or a timeout. Both helpers
  give up with a \<open>RuntimeError\<close> when the retries are used up.
\<close>

fun ensure_zmq :: "(nat \<Rightarrow> 'a option) \<Rightarrow> nat \<Rightarrow> nat \<Rightarrow> 'a result" where
  "ensure_zmq attempt i retries_left =
     (case attempt i of
        Some x \<Rightarrow> Inr x
      | None \<Rightarrow>
          if retries_left - 1 > 0 then ensure_zmq attempt (Suc i) (retries_left - 1)
          else Inl RuntimeError)"

declare ensure_zmq.simps [simp del]

definition ensure_zmq_send :: "(nat \<Rightarrow> unit option) \<Rightarrow> unit result" where
  "ensure_zmq_send attempt = ensure_zmq attempt 0 3"

definition ensure_zmq_recv :: "(nat \<Rightarrow> string option) \<Rightarrow> string result" where
  "ensure_zmq_recv attempt = ensure_zmq attempt 0 3"

subsection \<open>Grouping contiguous blocks\<close>

text \<open>
  \<^verbatim>\<open>np.diff\<close>, the broadcasting of an elementwise operation on two one-dimensional arrays, and
  \<^verbatim>\<open>np.split\<close> at a list of indices.
\<close>

fun np_diff :: "int list \<Rightarrow> int list" where
  "np_diff (x # y # zs) = (y - x) # np_diff (y # zs)"
| "np_diff _ = []"

definition np_broadcast :: "('a \<Rightarrow> 'b \<Rightarrow> 'c) \<Rightarrow> 'a list \<Rightarrow> 'b list \<Rightarrow> 'c list result" where
  "np_broadcast f xs ys =
     (if length xs = length ys then Inr (map2 f xs ys)
      else if length xs = 1 then Inr (map (f (hd xs)) ys)
      else if length ys = 1 then Inr (map (\<lambda>x. f x (hd ys)) xs)
      else Inl ValueError)"

fun np_split_from :: "nat \<Rightarrow> nat list \<Rightarrow> 'a list \<Rightarrow> 'a list list" where
  "np_split_from a [] xs = [drop a xs]"
| "np_split_from a (b # bs) xs = slice a b xs # np_split_from b bs xs"

definition np_split :: "nat list \<Rightarrow> 'a list \<Rightarrow> 'a list list" where
  "np_split brk xs = np_split_from 0 brk xs"

definition where_true :: "bool list \<Rightarrow> nat list" where
  "where_true bs = filter (\<lambda>i. bs ! i) [0..<length bs]"

definition group_concurrent_contiguous ::
  "int list \<Rightarrow> int list \<Rightarrow> (int list list \<times> int list list) result" where
  "group_concurrent_contiguous src dst =
     (if src = [] then Inr ([], [])
      else
        res_bind (np_broadcast (\<lambda>a b. a \<noteq> 1 \<or> b \<noteq> 1) (np_diff src) (np_diff dst)) (\<lambda>cut.
          let brk = map (\<lambda>i. i + 1) (where_true cut)
          in Inr (np_split brk src, np_split brk dst)))"

subsection \<open>KVCacheRecvingThread\<close>

record mc_task =
  tk_request_id :: rid
  tk_local_block_ids :: "int list"
  tk_remote_block_ids :: "int list"
  tk_remote_engine_id :: string
  tk_remote_host :: string
  tk_remote_handshake_port :: int

text \<open>
  Sockets are numbered in the order in which they are made; \<open>remote_sockets\<close> is the pool of idle
  ones, by path. \<open>unfinished_tasks\<close> is the counter behind \<^verbatim>\<open>task_done\<close> of the queue.
\<close>

record recv_thread =
  rt_tp_rank :: int
  rt_local_engine_id :: string
  rt_local_handshake_port :: int
  kv_caches_base_addr :: "string \<rightharpoonup> (int \<rightharpoonup> int list)"
  remote_te_port :: "string \<rightharpoonup> (int \<rightharpoonup> int)"
  rt_block_len :: "int list"
  request_queue :: "mc_task list"
  unfinished_tasks :: nat
  rt_tracker :: task_tracker
  remote_sockets :: "string \<Rightarrow> nat list"
  next_socket :: nat

definition use_mla :: "recv_thread \<Rightarrow> bool" where
  "use_mla rt = (length (rt_block_len rt) = 2)"

definition recv_thread_init ::
  "int \<Rightarrow> nat \<Rightarrow> string \<Rightarrow> int \<Rightarrow> int list \<Rightarrow> int list \<Rightarrow> recv_thread" where
  "recv_thread_init tp_rank tp_size engine_id port base_addr block_len =
     \<lparr>rt_tp_rank = tp_rank, rt_local_engine_id = engine_id, rt_local_handshake_port = port,
      kv_caches_base_addr = [engine_id \<mapsto> [port \<mapsto> base_addr]], remote_te_port = Map.empty,
      rt_block_len = block_len, request_queue = [], unfinished_tasks = 0,
      rt_tracker = tracker_init tp_rank tp_size, remote_sockets = (\<lambda>_. []), next_socket = 0\<rparr>"

definition add_request :: "recv_thread \<Rightarrow> mc_task \<Rightarrow> recv_thread" where
  "add_request rt tk = rt\<lparr>request_queue := request_queue rt @ [tk], unfinished_tasks := Suc (unfinished_tasks rt)\<rparr>"

text \<open>\<open>zmq_path\<close> is \<^verbatim>\<open>make_zmq_path("tcp", host, port)\<close>.\<close>

definition get_remote_socket ::
  "(string \<Rightarrow> int \<Rightarrow> string) \<Rightarrow> recv_thread \<Rightarrow> string \<Rightarrow> int \<Rightarrow> nat \<times> recv_thread" where
  "get_remote_socket zmq_path rt host port =
     (let path = zmq_path host port in
      case remote_sockets rt path of
        s # ss \<Rightarrow> (s, rt\<lparr>remote_sockets := (remote_sockets rt)(path := ss)\<rparr>)
      | [] \<Rightarrow> (next_socket rt, rt\<lparr>next_socket := Suc (next_socket rt)\<rparr>))"

definition return_remote_socket ::
  "(string \<Rightarrow> int \<Rightarrow> string) \<Rightarrow> recv_thread \<Rightarrow> nat \<Rightarrow> string \<Rightarrow> int \<Rightarrow> recv_thread" where
  "return_remote_socket zmq_path rt s host port =
     (let path = zmq_path host port in
      rt\<lparr>remote_sockets := (remote_sockets rt)(path := remote_sockets rt path @ [s])\<rparr>)"

text \<open>
  The tables of remote addresses and ports are nested dictionaries. (The empty inner dictionary
  that a failing read of a \<^verbatim>\<open>defaultdict\<close> leaves behind is not recorded: it answers every test as a
  missing one does.) An outcome is the state reached when a \<^verbatim>\<open>try\<close>
  block and its \<^verbatim>\<open>finally\<close> have ended, and what was raised.
\<close>

type_synonym 'a outcome = "recv_thread \<times> 'a result"

definition dict2_set ::
  "string \<Rightarrow> int \<Rightarrow> 'v \<Rightarrow> (string \<rightharpoonup> (int \<rightharpoonup> 'v)) \<Rightarrow> (string \<rightharpoonup> (int \<rightharpoonup> 'v))" where
  "dict2_set k1 k2 v m =
     m(k1 \<mapsto> (case m k1 of None \<Rightarrow> [k2 \<mapsto> v] | Some inner \<Rightarrow> inner(k2 \<mapsto> v)))"

definition dict2_item :: "(string \<rightharpoonup> (int \<rightharpoonup> 'v)) \<Rightarrow> string \<Rightarrow> int \<Rightarrow> 'v result" where
  "dict2_item m k1 k2 = (case m k1 of None \<Rightarrow> Inl KeyError | Some inner \<Rightarrow> map_item inner k2)"

record mc_io =
  io_send :: "nat \<Rightarrow> unit option"
  io_recv :: "nat \<Rightarrow> string option"

definition get_remote_metadata ::
  "(string \<Rightarrow> int \<Rightarrow> string) \<Rightarrow> (string \<Rightarrow> mc_agent_metadata result) \<Rightarrow> mc_io \<Rightarrow> recv_thread \<Rightarrow> string \<Rightarrow> int \<Rightarrow> unit outcome" where
  "get_remote_metadata zmq_path dec io rt host port =
     (let (sock, rt1) = get_remote_socket zmq_path rt host port;
          received = res_bind (ensure_zmq_send (io_send io)) (\<lambda>_.
                     res_bind (ensure_zmq_recv (io_recv io)) (\<lambda>bytes.
                     res_bind (dec bytes) (\<lambda>m.
                     res_bind (py_assert (am_engine_id m \<noteq> rt_local_engine_id rt1)) (\<lambda>_. Inr m))));
          rt2 = (case received of
                   Inl _ \<Rightarrow> rt1
                 | Inr m \<Rightarrow>
                     rt1\<lparr>kv_caches_base_addr :=
                           dict2_set (am_engine_id m) port (am_kv_caches_base_addr m) (kv_caches_base_addr rt1),
                         remote_te_port := dict2_set (am_engine_id m) port (am_te_rpc_port m) (remote_te_port rt1)\<rparr>)
      in (return_remote_socket zmq_path rt2 sock host port, res_bind received (\<lambda>_. Inr ())))"

definition send_done_recv_signal ::
  "(string \<Rightarrow> int \<Rightarrow> string) \<Rightarrow> mc_io \<Rightarrow> recv_thread \<Rightarrow> rid \<Rightarrow> string \<Rightarrow> int \<Rightarrow> unit outcome" where
  "send_done_recv_signal zmq_path io rt r host port =
     (let (sock, rt1) = get_remote_socket zmq_path rt host port;
          res = res_bind (ensure_zmq_send (io_send io)) (\<lambda>_.
                res_bind (ensure_zmq_recv (io_recv io)) (\<lambda>resp.
                if resp \<noteq> ''ACK'' then Inl RuntimeError else Inr ()))
      in (return_remote_socket zmq_path rt1 sock host port, res))"

text \<open>
  The list of copies of one transfer: for each layer and each group of contiguous blocks, the local
  address, the remote address and the length in bytes.
\<close>

definition layer_block_len :: "recv_thread \<Rightarrow> nat \<Rightarrow> int result" where
  "layer_block_len rt k =
     (if use_mla rt then list_item (rt_block_len rt) (int (k mod 2)) else list_item (rt_block_len rt) 0)"

definition group_copy :: "int \<Rightarrow> int \<Rightarrow> int \<Rightarrow> int list \<times> int list \<Rightarrow> (int \<times> int \<times> int) result" where
  "group_copy src_base dst_base bl grp =
     (case grp of (remote_ids, local_ids) \<Rightarrow>
        res_bind (list_item local_ids 0) (\<lambda>l0.
        res_bind (list_item remote_ids 0) (\<lambda>r0.
        Inr (src_base + l0 * bl, dst_base + r0 * bl, int (length local_ids) * bl))))"

definition layer_copies ::
  "recv_thread \<Rightarrow> int list list \<times> int list list \<Rightarrow> nat \<times> int \<times> int \<Rightarrow> (int \<times> int \<times> int) list result" where
  "layer_copies rt groups layer =
     (case layer of (k, src_base, dst_base) \<Rightarrow>
        res_bind (layer_block_len rt k) (\<lambda>bl.
          res_map (group_copy src_base dst_base bl) (zip (fst groups) (snd groups))))"

definition transfer_list ::
  "recv_thread \<Rightarrow> int list \<Rightarrow> int list \<Rightarrow> int list list \<times> int list list \<Rightarrow> (int \<times> int \<times> int) list result" where
  "transfer_list rt local_bases remote_bases groups =
     res_bind (res_map (layer_copies rt groups)
                 (zip [0..<min (length local_bases) (length remote_bases)] (zip local_bases remote_bases)))
       (\<lambda>xss. Inr (concat xss))"

record mc_env =
  zmq_path :: "string \<Rightarrow> int \<Rightarrow> string"
  decode_metadata :: "string \<Rightarrow> mc_agent_metadata result"
  batch_transfer_sync_read :: "string \<Rightarrow> int list \<Rightarrow> int list \<Rightarrow> int list \<Rightarrow> int"

definition transfer_kv_cache :: "mc_env \<Rightarrow> mc_io \<Rightarrow> recv_thread \<Rightarrow> mc_task \<Rightarrow> unit outcome" where
  "transfer_kv_cache env io rt tk =
     (if tk_local_block_ids tk = [] then (rt, Inr ())
      else
        let engine = tk_remote_engine_id tk; port = tk_remote_handshake_port tk;
            known = (case kv_caches_base_addr rt engine of None \<Rightarrow> False | Some inner \<Rightarrow> inner port \<noteq> None);
            (rt1, got) = (if known then (rt, Inr ())
                          else get_remote_metadata (zmq_path env) (decode_metadata env) io rt (tk_remote_host tk) port);
            done = res_bind got (\<lambda>_.
                   res_bind (group_concurrent_contiguous (tk_remote_block_ids tk) (tk_local_block_ids tk)) (\<lambda>groups.
                   res_bind (dict2_item (kv_caches_base_addr rt1) engine port) (\<lambda>remote_bases.
                   res_bind (dict2_item (kv_caches_base_addr rt1) (rt_local_engine_id rt1) (rt_local_handshake_port rt1)) (\<lambda>local_bases.
                   res_bind (dict2_item (remote_te_port rt1) engine port) (\<lambda>te_port.
                   res_bind (transfer_list rt1 local_bases remote_bases groups) (\<lambda>copies.
                   let ret = batch_transfer_sync_read env (tk_remote_host tk @ '':'' @ str_int te_port)
                               (map fst copies) (map (fst \<circ> snd) copies) (map (snd \<circ> snd) copies)
                   in if ret < 0 then Inl RuntimeError else Inr ()))))))
        in (rt1, done))"

text \<open>
  \<^verbatim>\<open>_handle_request\<close>: an exception of the transfer is logged; the \<^verbatim>\<open>finally\<close> block marks the request as
  done and signals the other side. If the signal raises, \<^verbatim>\<open>task_done\<close> is not reached and the exception
  is logged by \<^verbatim>\<open>run\<close>. The two I/O arguments are for the metadata and for the signal.
\<close>

definition handle_request :: "mc_env \<Rightarrow> mc_io \<Rightarrow> mc_io \<Rightarrow> recv_thread \<Rightarrow> mc_task \<Rightarrow> unit outcome" where
  "handle_request env io io' rt tk =
     (let rt1 = fst (transfer_kv_cache env io rt tk);
          rt2 = rt1\<lparr>rt_tracker := update_done_task_count (rt_tracker rt1) (tk_request_id tk) (rt_tp_rank rt1)\<rparr>;
          (rt3, sent) = send_done_recv_signal (zmq_path env) io' rt2 (tk_request_id tk) (tk_remote_host tk)
                          (tk_remote_handshake_port tk)
      in (case sent of
            Inl x \<Rightarrow> (rt3, Inl x)
          | Inr _ \<Rightarrow> (rt3\<lparr>unfinished_tasks := unfinished_tasks rt3 - 1\<rparr>, Inr ())))"

text \<open>One turn of \<^verbatim>\<open>run\<close>; with an empty queue the thread blocks.\<close>

definition recv_thread_step :: "mc_env \<Rightarrow> mc_io \<Rightarrow> mc_io \<Rightarrow> recv_thread \<Rightarrow> recv_thread option" where
  "recv_thread_step env io io' rt =
     (case request_queue rt of
        [] \<Rightarrow> None
      | tk # tks \<Rightarrow> Some (fst (handle_request env io io' (rt\<lparr>request_queue := tks\<rparr>) tk)))"

subsection \<open>MooncakeConnectorScheduler\<close>

type_synonym mc_meta = "(rid \<times> mc_req_meta) list"

definition mc_add_new_req :: "mc_meta \<Rightarrow> rid \<Rightarrow> int list \<Rightarrow> kv_params \<Rightarrow> mc_meta result" where
  "mc_add_new_req meta r local_ids ps =
     res_bind (param_ints ps ''remote_block_ids'') (\<lambda>remote_ids.
     res_bind (param_str ps ''remote_engine_id'') (\<lambda>engine.
     res_bind (param_str ps ''remote_host'') (\<lambda>host.
     res_bind (param_int ps ''remote_port'') (\<lambda>port.
     Inr (dict_set r \<lparr>rm_local_block_ids = local_ids, rm_remote_block_ids = remote_ids, rm_remote_host = host,
                      rm_remote_port = port, rm_remote_engine_id = engine\<rparr> meta)))))"

record mc_sched =
  ms_engine_id :: string
  ms_side_channel_host :: string
  ms_side_channel_port :: int
  reqs_need_recv :: "(rid \<times> int list) list"

definition handshake_base_port :: "int \<Rightarrow> int \<Rightarrow> int \<Rightarrow> int" where
  "handshake_base_port kv_port dp_rank_local tp_size = kv_port + dp_rank_local * tp_size"

definition mc_sched_init :: "string \<Rightarrow> string \<Rightarrow> int \<Rightarrow> int \<Rightarrow> int \<Rightarrow> mc_sched" where
  "mc_sched_init engine_id ip kv_port dp_rank_local tp_size =
     \<lparr>ms_engine_id = engine_id, ms_side_channel_host = ip,
      ms_side_channel_port = handshake_base_port kv_port dp_rank_local tp_size, reqs_need_recv = []\<rparr>"

definition mc_get_num_new_matched_tokens :: "mc_sched \<Rightarrow> request \<Rightarrow> int \<Rightarrow> (int \<times> bool) result" where
  "mc_get_num_new_matched_tokens s q n =
     (case kv_transfer_params q of
        None \<Rightarrow> Inr (0, False)
      | Some ps \<Rightarrow>
          if get_truthy ps ''do_remote_prefill'' then
            res_bind (py_assert (n = 0)) (\<lambda>_.
              let count = max (int (length (prompt_token_ids q)) - 1) 0
              in if count > 0 then Inr (count, True) else Inr (0, False))
          else Inr (0, False))"

definition mc_update_state_after_alloc ::
  "('b \<Rightarrow> int list) \<Rightarrow> mc_sched \<Rightarrow> request \<Rightarrow> 'b \<Rightarrow> int \<Rightarrow> (mc_sched \<times> request) result" where
  "mc_update_state_after_alloc unhashed s q blocks num_external_tokens =
     (case kv_transfer_params q of
        None \<Rightarrow> Inr (s, q)
      | Some ps \<Rightarrow>
          if get_truthy ps ''do_remote_prefill'' then
            res_bind
              (if get_truthy ps ''remote_block_ids'' then
                 if list_all (\<lambda>k. ps k \<noteq> None) [''remote_engine_id'', ''remote_host'', ''remote_port''] then
                   let local_ids = (if num_external_tokens > 0 then unhashed blocks else [])
                   in Inr (s\<lparr>reqs_need_recv := dict_set (request_id q) local_ids (reqs_need_recv s)\<rparr>)
                 else Inr s
               else res_bind (py_assert (num_external_tokens = 0)) (\<lambda>_. Inr s))
              (\<lambda>s'. Inr (s', q\<lparr>kv_transfer_params := Some (ps(''do_remote_prefill'' \<mapsto> PBool False))\<rparr>))
          else Inr (s, q))"

definition mc_build_connector_meta :: "mc_sched \<Rightarrow> (rid \<Rightarrow> request) \<Rightarrow> (mc_sched \<times> mc_meta) result" where
  "mc_build_connector_meta s ob =
     res_bind
       (res_foldl (\<lambda>meta (r, ids).
            case kv_transfer_params (ob r) of
              None \<Rightarrow> Inl AssertionError
            | Some ps \<Rightarrow> mc_add_new_req meta r ids ps) [] (reqs_need_recv s))
       (\<lambda>meta. Inr (s\<lparr>reqs_need_recv := []\<rparr>, meta))"

definition mc_request_finished :: "mc_sched \<Rightarrow> request \<Rightarrow> int list \<Rightarrow> bool \<times> kv_params option" where
  "mc_request_finished s q block_ids =
     (case kv_transfer_params q of
        None \<Rightarrow> (False, None)
      | Some ps \<Rightarrow>
          if \<not> get_truthy ps ''do_remote_decode'' \<or> status q \<noteq> FINISHED_LENGTH_CAPPED then (False, None)
          else
            (length block_ids > 0,
             Some [''do_remote_prefill'' \<mapsto> PBool True, ''do_remote_decode'' \<mapsto> PBool False,
                   ''remote_block_ids'' \<mapsto> PInts block_ids, ''remote_engine_id'' \<mapsto> PStr (ms_engine_id s),
                   ''remote_host'' \<mapsto> PStr (ms_side_channel_host s),
                   ''remote_port'' \<mapsto> PInt (ms_side_channel_port s)]))"

text \<open>The methods as the scheduler calls them; \<open>unhashed\<close> is \<^verbatim>\<open>KVCacheBlocks.get_unhashed_block_ids\<close>.\<close>

definition mooncake_ops :: "('b \<Rightarrow> int list) \<Rightarrow> (mc_sched, 'b, mc_meta) connector_ops" where
  "mooncake_ops unhashed =
     \<lparr>cn_get_num_new_matched_tokens = mc_get_num_new_matched_tokens,
      cn_update_state_after_alloc = mc_update_state_after_alloc unhashed,
      cn_build_connector_meta = mc_build_connector_meta,
      cn_request_finished = mc_request_finished\<rparr>"

subsection \<open>MooncakeConnectorWorker\<close>

record tensor_info =
  ti_shape :: "int list"
  ti_element_size :: int
  ti_data_ptr :: int

record parallel_sizes =
  ps_prefill_tp :: int
  ps_prefill_dp :: int
  ps_decode_tp :: int
  ps_decode_dp :: int

text \<open>\<open>extra\<close> are the two dictionaries of \<^verbatim>\<open>get_from_extra_config\<close>, empty when the key is missing.\<close>

definition get_prefill_decode_size ::
  "(string \<rightharpoonup> int) \<Rightarrow> (string \<rightharpoonup> int) \<Rightarrow> parallel_sizes result" where
  "get_prefill_decode_size prefill decode =
     (case (prefill ''tp_size'', prefill ''dp_size'', decode ''tp_size'', decode ''dp_size'') of
        (Some ptp, Some pdp, Some dtp, Some ddp) \<Rightarrow>
          Inr \<lparr>ps_prefill_tp = ptp, ps_prefill_dp = pdp, ps_decode_tp = dtp, ps_decode_dp = ddp\<rparr>
      | _ \<Rightarrow> Inl AssertionError)"

record mc_worker =
  mw_sizes :: parallel_sizes
  mw_engine_id :: string
  mw_tp_rank :: int
  mw_tp_size :: int
  mw_dp_rank :: int
  mw_kv_role :: string
  mw_side_channel_host :: string
  mw_side_channel_port :: int
  mw_handshake_port :: int
  mw_device_id :: int
  mw_te_rpc_port :: int
  mw_use_mla :: bool
  mw_num_blocks :: int
  mw_block_len :: "int list"
  mw_registered :: "(int \<times> int) list"
  mw_send_thread :: "(mc_agent_metadata \<times> task_tracker) option"
  mw_recv_thread :: "recv_thread option"

record mc_worker_env =
  we_initialize :: "string \<Rightarrow> int"
  we_get_rpc_port :: int
  we_register_memory :: "int \<Rightarrow> int \<Rightarrow> int"
  we_sample :: "int \<Rightarrow> int list \<Rightarrow> int \<Rightarrow> int list"
  we_sha256 :: "string \<Rightarrow> nat list"

definition visible_devices :: "string option \<Rightarrow> int \<Rightarrow> int \<Rightarrow> int list result" where
  "visible_devices device_ids_str dp_rank tp_size =
     (case device_ids_str of
        None \<Rightarrow> Inr [dp_rank * tp_size..(dp_rank + 1) * tp_size - 1]
      | Some s \<Rightarrow> res_map py_int (split_char (CHR '','') s))"

definition mc_worker_init ::
  "mc_worker_env \<Rightarrow> (string \<rightharpoonup> int) \<Rightarrow> (string \<rightharpoonup> int) \<Rightarrow> string \<Rightarrow> string \<Rightarrow> string \<Rightarrow> int \<Rightarrow> int \<Rightarrow> int \<Rightarrow> int \<Rightarrow>
   string option \<Rightarrow> mc_worker result" where
  "mc_worker_init env prefill decode engine_id ip kv_role kv_port tp_rank tp_size dp_rank device_ids_str =
     res_bind (get_prefill_decode_size prefill decode) (\<lambda>sizes.
     if ps_prefill_tp sizes < ps_decode_tp sizes then Inl ValueError
     else
       res_bind (visible_devices device_ids_str dp_rank tp_size) (\<lambda>device_ids.
       res_bind (py_assert (int (length device_ids) > tp_rank)) (\<lambda>_.
       res_bind (list_item device_ids tp_rank) (\<lambda>device_id.
       if we_initialize env (ip @ '':'' @ ''0'' @ '':'' @ ''npu_'' @ str_int device_id) \<noteq> 0 then Inl RuntimeError
       else
         let base = handshake_base_port kv_port dp_rank tp_size in
         Inr \<lparr>mw_sizes = sizes, mw_engine_id = engine_id, mw_tp_rank = tp_rank, mw_tp_size = tp_size,
              mw_dp_rank = dp_rank, mw_kv_role = kv_role, mw_side_channel_host = ip,
              mw_side_channel_port = base, mw_handshake_port = base + tp_rank, mw_device_id = device_id,
              mw_te_rpc_port = we_get_rpc_port env, mw_use_mla = False, mw_num_blocks = 0, mw_block_len = [],
              mw_registered = [], mw_send_thread = None, mw_recv_thread = None\<rparr>))))"

text \<open>\<^verbatim>\<open>shape[-3:]\<close> and its product.\<close>

definition block_elems :: "tensor_info \<Rightarrow> int" where
  "block_elems t = prod_list (drop (length (ti_shape t) - 3) (ti_shape t))"

text \<open>
  The block lengths. In the MLA case both element sizes are read off slices 0 and 1 of the first
  tensor, which has to have two blocks for that.
\<close>

definition cache_layout :: "tensor_info list \<Rightarrow> (bool \<times> int \<times> int list) result" where
  "cache_layout first_tuple =
     res_bind (list_item first_tuple 0) (\<lambda>t0.
     res_bind (list_item first_tuple 1) (\<lambda>t1.
     res_bind (list_item (ti_shape t0) (-1)) (\<lambda>d0.
     res_bind (list_item (ti_shape t1) (-1)) (\<lambda>d1.
     res_bind (list_item (ti_shape t0) 0) (\<lambda>num_blocks.
     if d0 \<noteq> d1 then
       if num_blocks < 2 then Inl IndexError
       else Inr (True, num_blocks, [ti_element_size t0 * block_elems t0, ti_element_size t0 * block_elems t1])
     else Inr (False, num_blocks, [ti_element_size t0 * block_elems t0]))))))"

definition register_one ::
  "mc_worker_env \<Rightarrow> (int \<times> int) list \<Rightarrow> int \<times> int \<Rightarrow> (int \<times> int) list result" where
  "register_one env acc region =
     (if we_register_memory env (fst region) (snd region) \<noteq> 0 then Inl RuntimeError else Inr (acc @ [region]))"

definition tuple_regions :: "bool \<Rightarrow> int \<Rightarrow> int list \<Rightarrow> tensor_info list \<Rightarrow> (int \<times> int) list" where
  "tuple_regions mla num_blocks block_len caches =
     map (\<lambda>(i, t). (ti_data_ptr t, num_blocks * block_len ! (if mla then i mod 2 else 0)))
       (zip [0..<length caches] caches)"

definition register_kv_caches ::
  "mc_worker_env \<Rightarrow> mc_worker \<Rightarrow> (string \<times> tensor_info list) list \<Rightarrow> mc_worker result" where
  "register_kv_caches env w kv_caches =
     (case kv_caches of
        [] \<Rightarrow> Inl StopIteration
      | (_, first_tuple) # _ \<Rightarrow>
          res_bind (cache_layout first_tuple) (\<lambda>(mla, num_blocks, block_len).
          res_bind (res_foldl (register_one env) []
                      (concat (map (\<lambda>(_, caches). tuple_regions mla num_blocks block_len caches) kv_caches))) (\<lambda>regions.
          let base_addr = map fst regions;
              w' = w\<lparr>mw_use_mla := mla, mw_num_blocks := num_blocks, mw_block_len := block_len, mw_registered := regions\<rparr>;
              metadata = \<lparr>am_engine_id = mw_engine_id w, am_te_rpc_port = mw_te_rpc_port w,
                          am_kv_caches_base_addr = base_addr, am_num_blocks = num_blocks\<rparr>
          in if mw_kv_role w = ''kv_producer'' then
               Inr (w'\<lparr>mw_send_thread := Some (metadata, tracker_init (mw_tp_rank w) (nat (ps_decode_tp (mw_sizes w))))\<rparr>)
             else
               Inr (w'\<lparr>mw_recv_thread := Some (recv_thread_init (mw_tp_rank w) (nat (mw_tp_size w)) (mw_engine_id w)
                                               (mw_handshake_port w) base_addr block_len)\<rparr>))))"

definition mc_get_finished :: "mc_worker \<Rightarrow> ((rid set \<times> rid set) \<times> mc_worker) result" where
  "mc_get_finished w =
     res_bind
       (if mw_kv_role w = ''kv_producer'' then
          (case mw_send_thread w of
             None \<Rightarrow> Inl AttributeError
           | Some (m, t) \<Rightarrow>
               let (d, t') = get_and_clear_finished_requests t in Inr (d, w\<lparr>mw_send_thread := Some (m, t')\<rparr>))
        else Inr ({}, w)) (\<lambda>(done_sending, w1).
     res_bind
       (if mw_kv_role w = ''kv_consumer'' then
          (case mw_recv_thread w1 of
             None \<Rightarrow> Inl AttributeError
           | Some rt \<Rightarrow>
               let (d, t') = get_and_clear_finished_requests (rt_tracker rt)
               in Inr (d, w1\<lparr>mw_recv_thread := Some (rt\<lparr>rt_tracker := t'\<rparr>)\<rparr>))
        else Inr ({}, w1)) (\<lambda>(done_recving, w2). Inr ((done_sending, done_recving), w2)))"

text \<open>The first eight bytes of the digest, little-endian.\<close>

definition string_to_int64_hash :: "mc_worker_env \<Rightarrow> string \<Rightarrow> int" where
  "string_to_int64_hash env s = foldr (\<lambda>b acc. int b + 256 * acc) (take 8 (we_sha256 env s)) 0"

definition get_remote_tp_ranks_for_req :: "mc_worker_env \<Rightarrow> mc_worker \<Rightarrow> rid \<Rightarrow> int list" where
  "get_remote_tp_ranks_for_req env w r =
     (let ptp = ps_prefill_tp (mw_sizes w); dtp = ps_decode_tp (mw_sizes w) in
      if ptp = dtp then [0..ptp - 1]
      else we_sample env (string_to_int64_hash env r) [0..ptp - 1] dtp)"

definition get_remote_tp_rank :: "mc_worker_env \<Rightarrow> mc_worker \<Rightarrow> rid \<Rightarrow> int result" where
  "get_remote_tp_rank env w r = list_item (get_remote_tp_ranks_for_req env w r) (mw_tp_rank w)"

definition start_load_one :: "mc_worker_env \<Rightarrow> mc_worker \<Rightarrow> rid \<times> mc_req_meta \<Rightarrow> mc_worker result" where
  "start_load_one env w rm =
     (case rm of (r, m) \<Rightarrow>
        res_bind (get_remote_tp_rank env w r) (\<lambda>rank.
          case mw_recv_thread w of
            None \<Rightarrow> Inl AttributeError
          | Some rt \<Rightarrow>
              Inr (w\<lparr>mw_recv_thread := Some (add_request rt
                \<lparr>tk_request_id = r, tk_local_block_ids = rm_local_block_ids m,
                 tk_remote_block_ids = rm_remote_block_ids m, tk_remote_engine_id = rm_remote_engine_id m,
                 tk_remote_host = rm_remote_host m, tk_remote_handshake_port = rm_remote_port m + rank\<rparr>)\<rparr>)))"

definition start_load_kv :: "mc_worker_env \<Rightarrow> mc_worker \<Rightarrow> mc_meta \<Rightarrow> mc_worker result" where
  "start_load_kv env w meta = res_foldl (start_load_one env) w meta"

subsection \<open>MooncakeConnector\<close>

text \<open>The connector has a scheduler side or a worker side, by its role; a call to the other side asserts.\<close>

datatype mc_connector = McScheduler mc_sched | McWorker mc_worker

fun connector_scheduler :: "mc_connector \<Rightarrow> mc_sched result" where
  "connector_scheduler (McScheduler s) = Inr s"
| "connector_scheduler (McWorker w) = Inl AssertionError"

fun connector_worker :: "mc_connector \<Rightarrow> mc_worker result" where
  "connector_worker (McScheduler s) = Inl AssertionError"
| "connector_worker (McWorker w) = Inr w"

definition connector_get_num_new_matched_tokens :: "mc_connector \<Rightarrow> request \<Rightarrow> int \<Rightarrow> (int \<times> bool) result" where
  "connector_get_num_new_matched_tokens c q n =
     res_bind (connector_scheduler c) (\<lambda>s. mc_get_num_new_matched_tokens s q n)"

definition connector_update_state_after_alloc ::
  "('b \<Rightarrow> int list) \<Rightarrow> mc_connector \<Rightarrow> request \<Rightarrow> 'b \<Rightarrow> int \<Rightarrow> (mc_connector \<times> request) result" where
  "connector_update_state_after_alloc unhashed c q blocks n =
     res_bind (connector_scheduler c) (\<lambda>s.
     res_bind (mc_update_state_after_alloc unhashed s q blocks n) (\<lambda>(s', q'). Inr (McScheduler s', q')))"

definition connector_build_connector_meta :: "mc_connector \<Rightarrow> (rid \<Rightarrow> request) \<Rightarrow> (mc_connector \<times> mc_meta) result" where
  "connector_build_connector_meta c ob =
     res_bind (connector_scheduler c) (\<lambda>s.
     res_bind (mc_build_connector_meta s ob) (\<lambda>(s', m). Inr (McScheduler s', m)))"

definition connector_request_finished :: "mc_connector \<Rightarrow> request \<Rightarrow> int list \<Rightarrow> (bool \<times> kv_params option) result" where
  "connector_request_finished c q ids = res_bind (connector_scheduler c) (\<lambda>s. Inr (mc_request_finished s q ids))"

definition connector_register_kv_caches ::
  "mc_worker_env \<Rightarrow> mc_connector \<Rightarrow> (string \<times> tensor_info list) list \<Rightarrow> mc_connector result" where
  "connector_register_kv_caches env c kvs =
     res_bind (connector_worker c) (\<lambda>w. res_bind (register_kv_caches env w kvs) (\<lambda>w'. Inr (McWorker w')))"

definition connector_get_finished :: "mc_connector \<Rightarrow> rid set \<Rightarrow> ((rid set \<times> rid set) \<times> mc_connector) result" where
  "connector_get_finished c finished_req_ids =
     res_bind (connector_worker c) (\<lambda>w. res_bind (mc_get_finished w) (\<lambda>(d, w'). Inr (d, McWorker w')))"

definition connector_start_load_kv :: "mc_worker_env \<Rightarrow> mc_connector \<Rightarrow> mc_meta \<Rightarrow> mc_connector result" where
  "connector_start_load_kv env c meta =
     res_bind (connector_worker c) (\<lambda>w. res_bind (start_load_kv env w meta) (\<lambda>w'. Inr (McWorker w')))"

end
