(* ===== verification/Mooncake_Props.thy ===== *)
theory Mooncake_Props
  imports Mooncake_Connector Scheduler_Proofs
begin

section \<open>Properties of the Mooncake connector\<close>

text \<open>
  The completion tracker counts every rank once whatever the order of the signals; the grouping of
  contiguous blocks loses nothing and the copies it leads to are the copies block by block; sockets
  always return to the pool; the parameters the prefill node hands out are the ones the decode node
  needs; and the connector keeps the contract \<open>kv_connector\<close> of the scheduler.
\<close>

subsection \<open>The tracker\<close>

definition reports :: "(rid \<times> int) set \<Rightarrow> rid \<Rightarrow> int set" where
  "reports sg r = {k. (r, k) \<in> sg}"

text \<open>The state of the tracker of rank 0 as a function of the set of signals it has got.\<close>

definition tracker_of :: "nat \<Rightarrow> (rid \<times> int) set \<Rightarrow> task_tracker" where
  "tracker_of target sg =
     \<lparr>tt_tp_rank = 0, tt_target_count = target,
      done_task_counts = (\<lambda>r. if reports sg r = {} \<or> card (reports sg r) = target then None else Some (reports sg r)),
      finished_requests = {r. reports sg r \<noteq> {} \<and> card (reports sg r) = target}, pushed = []\<rparr>"

lemma reports_insert: "reports (insert (r, k) sg) r' = (if r' = r then insert k (reports sg r) else reports sg r')"
  by (auto simp: reports_def)

lemma finite_reports: "finite sg \<Longrightarrow> finite (reports sg r)"
  by (rule finite_subset [of _ "snd ` sg"]) (force simp: reports_def)+

lemma increment_tracker_of:
  assumes "finite sg" "(r, k) \<notin> sg" "card (insert k (reports sg r)) \<le> target"
  shows "increment_task_count (tracker_of target sg) r k = tracker_of target (insert (r, k) sg)"
proof -
  have new: "k \<notin> reports sg r" using assms(2) by (simp add: reports_def)
  then have lt: "card (reports sg r) < target" using assms(1,3) by (simp add: finite_reports)
  then have cur: "(case done_task_counts (tracker_of target sg) r of None \<Rightarrow> {} | Some rs \<Rightarrow> rs) = reports sg r"
    by (simp add: tracker_of_def)
  show ?thesis
  proof (cases "card (insert k (reports sg r)) = target")
    case True
    then show ?thesis using cur new lt
      by (auto simp: increment_task_count_def Let_def tracker_of_def reports_insert fun_eq_iff)
  next
    case False
    then show ?thesis using cur new lt
      by (auto simp: increment_task_count_def Let_def tracker_of_def reports_insert fun_eq_iff)
  qed
qed

lemma listen_all:
  assumes "distinct sg" "\<forall>r. card (reports (set sg) r) \<le> target"
  shows "foldl listen_step (tracker_init 0 target) sg = tracker_of target (set sg)"
  using assms
proof (induction sg rule: rev_induct)
  case Nil
  then show ?case by (simp add: tracker_init_def tracker_of_def reports_def)
next
  case (snoc m sg)
  obtain r k where m: "m = (r, k)" by fastforce
  have sub: "card (reports (set sg) r') \<le> target" for r'
  proof -
    have "reports (set sg) r' \<subseteq> reports (set (sg @ [m])) r'" by (auto simp: reports_def)
    then show ?thesis
      using snoc.prems(2) card_mono [OF finite_reports [OF finite_set]] by (meson le_trans)
  qed
  have "card (insert k (reports (set sg) r)) \<le> target"
    using snoc.prems(2) [rule_format, of r] m by (simp add: reports_insert)
  then have "increment_task_count (tracker_of target (set sg)) r k = tracker_of target (set (sg @ [m]))"
    using increment_tracker_of [of "set sg" r k target] snoc.prems(1) m by simp
  then show ?case using snoc.IH sub snoc.prems(1) m by (simp add: listen_step_def)
qed

text \<open>The ranks that reported a request, one entry per signal.\<close>

definition ranks_of :: "(rid \<times> int) list \<Rightarrow> rid \<Rightarrow> int list" where
  "ranks_of sg r = map snd (filter (\<lambda>m. fst m = r) sg)"

lemma reports_ranks: "reports (set sg) r = set (ranks_of sg r)"
  by (force simp: reports_def ranks_of_def)

lemma ranks_of_snoc: "ranks_of (sg @ [(r, k)]) r' = ranks_of sg r' @ (if r' = r then [k] else [])"
  by (simp add: ranks_of_def)

text \<open>The signals of a request fall into rounds: a round ends with the signal that makes it name \<open>target\<close> ranks.\<close>

definition in_rounds :: "nat \<Rightarrow> int list \<Rightarrow> int list list \<Rightarrow> int list \<Rightarrow> bool" where
  "in_rounds target ks rounds rest \<longleftrightarrow> ks = concat rounds @ rest \<and> card (set rest) < target \<and>
     (\<forall>round \<in> set rounds. card (set round) = target \<and> card (set (butlast round)) < target)"

lemma in_rounds_signal:
  assumes "in_rounds target ks rounds rest"
  shows "in_rounds target (ks @ [k])
     (if k \<notin> set rest \<and> card (insert k (set rest)) = target then rounds @ [rest @ [k]] else rounds)
     (if k \<notin> set rest \<and> card (insert k (set rest)) = target then [] else rest @ [k])"
  using assms by (auto simp: in_rounds_def insert_absorb card_insert_if)

lemma tracker_signal:
  assumes "done_task_counts t r = (if rest = [] then None else Some (set rest))"
  shows "increment_task_count t r k =
     (if k \<in> set rest then t
      else if card (insert k (set rest)) = tt_target_count t
        then t\<lparr>finished_requests := insert r (finished_requests t), done_task_counts := (done_task_counts t)(r := None)\<rparr>
      else t\<lparr>done_task_counts := (done_task_counts t)(r \<mapsto> insert k (set rest))\<rparr>)"
proof -
  have "(case done_task_counts t r of None \<Rightarrow> {} | Some rs \<Rightarrow> rs) = set rest" using assms by simp
  then show ?thesis by (simp add: increment_task_count_def Let_def)
qed

lemma tracker_other:
  assumes "r' \<noteq> r"
  shows "r \<in> finished_requests (increment_task_count t r' k) \<longleftrightarrow> r \<in> finished_requests t"
    and "done_task_counts (increment_task_count t r' k) r = done_task_counts t r"
  using assms unfolding increment_task_count_def Let_def by (simp_all split: if_split)

lemma target_kept: "tt_target_count (foldl listen_step (tracker_init 0 target) sg) = target"
  by (induction sg rule: rev_induct) (auto simp: tracker_init_def listen_step_def increment_task_count_def Let_def)

lemma tracker_rounds:
  assumes "0 < target"
  shows "\<exists>rounds rest. in_rounds target (ranks_of sg r) rounds rest \<and>
     (r \<in> finished_requests (foldl listen_step (tracker_init 0 target) sg) \<longleftrightarrow> rounds \<noteq> []) \<and>
     done_task_counts (foldl listen_step (tracker_init 0 target) sg) r = (if rest = [] then None else Some (set rest))"
proof (induction sg rule: rev_induct)
  case Nil
  show ?case by (rule exI [of _ "[]"], rule exI [of _ "[]"])
      (simp add: in_rounds_def ranks_of_def tracker_init_def assms)
next
  case (snoc m sg)
  obtain r' k where m: "m = (r', k)" by fastforce
  let ?t = "foldl listen_step (tracker_init 0 target) sg"
  obtain rounds rest where IH: "in_rounds target (ranks_of sg r) rounds rest"
      "r \<in> finished_requests ?t \<longleftrightarrow> rounds \<noteq> []" "done_task_counts ?t r = (if rest = [] then None else Some (set rest))"
    using snoc.IH by blast
  have step: "foldl listen_step (tracker_init 0 target) (sg @ [m]) = increment_task_count ?t r' k"
    using m by (simp add: listen_step_def)
  show ?case
  proof (cases "r' = r")
    case True
    have eq: "increment_task_count ?t r k =
       (if k \<in> set rest then ?t
        else if card (insert k (set rest)) = target
          then ?t\<lparr>finished_requests := insert r (finished_requests ?t), done_task_counts := (done_task_counts ?t)(r := None)\<rparr>
        else ?t\<lparr>done_task_counts := (done_task_counts ?t)(r \<mapsto> insert k (set rest))\<rparr>)"
      using tracker_signal [OF IH(3), of k] by (simp only: target_kept)
    let ?full = "k \<notin> set rest \<and> card (insert k (set rest)) = target"
    have "in_rounds target (ranks_of (sg @ [m]) r) (if ?full then rounds @ [rest @ [k]] else rounds) (if ?full then [] else rest @ [k])"
      using in_rounds_signal [OF IH(1), of k] True by (simp add: m ranks_of_snoc)
    moreover have "r \<in> finished_requests (increment_task_count ?t r k) \<longleftrightarrow> (if ?full then rounds @ [rest @ [k]] else rounds) \<noteq> []"
      unfolding eq using IH(2) by simp
    moreover have "done_task_counts (increment_task_count ?t r k) r =
        (if (if ?full then [] else rest @ [k]) = [] then None else Some (set (if ?full then [] else rest @ [k])))"
      unfolding eq using IH(3) by (simp add: insert_absorb)
    ultimately show ?thesis unfolding step using True by blast
  next
    case False
    then have "ranks_of (sg @ [m]) r = ranks_of sg r" by (simp add: m ranks_of_snoc)
    then show ?thesis unfolding step tracker_other [OF False] using snoc.IH by simp
  qed
qed

lemma in_rounds_target:
  assumes "in_rounds target ks rounds rest"
  shows "rounds \<noteq> [] \<longleftrightarrow> target \<le> card (set ks)"
proof (cases rounds)
  case Nil
  then show ?thesis using assms by (simp add: in_rounds_def)
next
  case (Cons ks' rounds')
  then have "set ks' \<subseteq> set ks" "card (set ks') = target" using assms by (auto simp: in_rounds_def)
  then show ?thesis using Cons card_mono [of "set ks" "set ks'"] by simp
qed

text \<open>
  C11. The completion tracker of rank 0, after any list of signals, with the requests interleaved
  and ranks repeated in any way: it has finished exactly the requests which at least \<^verbatim>\<open>target_count\<close>
  different ranks have reported. The signals of a request fall into rounds, each ended by the first
  signal with which it names \<^verbatim>\<open>target_count\<close> different ranks; a rank that is repeated within a round does not
  count. The ranks remembered for a request are those of the unfinished round: a signal that comes after the
  request was finished opens a new one. When no rank repeats a signal and no more than
  \<^verbatim>\<open>target_count\<close> ranks report a request, the order of the signals does not matter.
\<close>

theorem tracker_finishes_exactly:
  assumes "0 < target"
  shows "finished_requests (foldl listen_step (tracker_init 0 target) sg) = {r. target \<le> card (reports (set sg) r)} \<and>
    (\<forall>r. \<exists>rounds rest. in_rounds target (ranks_of sg r) rounds rest \<and>
       done_task_counts (foldl listen_step (tracker_init 0 target) sg) r = (if rest = [] then None else Some (set rest))) \<and>
    (\<forall>sg'. distinct sg \<and> (\<forall>r. card (reports (set sg) r) \<le> target) \<and> distinct sg' \<and> set sg' = set sg \<longrightarrow>
       foldl listen_step (tracker_init 0 target) sg' = foldl listen_step (tracker_init 0 target) sg)"
proof (intro conjI)
  let ?t = "foldl listen_step (tracker_init 0 target) sg"
  have "r \<in> finished_requests ?t \<longleftrightarrow> target \<le> card (reports (set sg) r)" for r
    using tracker_rounds [OF assms, of sg r] in_rounds_target [of target "ranks_of sg r"] unfolding reports_ranks by blast
  then show "finished_requests ?t = {r. target \<le> card (reports (set sg) r)}" by blast
  show "\<forall>r. \<exists>rounds rest. in_rounds target (ranks_of sg r) rounds rest \<and>
       done_task_counts ?t r = (if rest = [] then None else Some (set rest))"
    using tracker_rounds [OF assms, of sg] by blast
  show "\<forall>sg'. distinct sg \<and> (\<forall>r. card (reports (set sg) r) \<le> target) \<and> distinct sg' \<and> set sg' = set sg \<longrightarrow>
       foldl listen_step (tracker_init 0 target) sg' = ?t"
    using listen_all [where target = target] by metis
qed

theorem tracker_finishes_exactly_witness:
  "finished_requests (foldl listen_step (tracker_init 0 2) [(''a'', 1), (''b'', 0), (''a'', 1), (''b'', 0), (''a'', 0), (''a'', 0)]) = {''a''}"
proof -
  let ?sg = "[(''a'', 1), (''b'', 0), (''a'', 1), (''b'', 0), (''a'', 0), (''a'', 0)]"
  have rep: "reports (set ?sg) r = (if r = ''a'' then {0, 1} else if r = ''b'' then {0} else {})" for r
    by (auto simp: reports_def)
  have "{r. 2 \<le> card (reports (set ?sg) r)} = {''a''}" unfolding rep by (auto split: if_splits)
  then show ?thesis using tracker_finishes_exactly [of 2 ?sg] by simp
qed

text \<open>
  The warning \<^verbatim>\<open>duplicate done signal ... Ignoring\<close> covers only duplicates that come before the
  last rank has reported: a rank that repeats its signal after the request was finished is taken for
  a first report and opens a new entry, which stays.
\<close>

theorem tracker_late_duplicate:
  assumes "1 < tt_target_count t" "done_task_counts t r = None"
  shows "done_task_counts (increment_task_count t r k) r = Some {k} \<and>
         increment_task_count (increment_task_count t r k) r k = increment_task_count t r k"
  using assms by (simp add: increment_task_count_def Let_def)

theorem tracker_late_duplicate_witness:
  "let t = foldl listen_step (tracker_init 0 2) [(''a'', 0), (''a'', 1)] in
   finished_requests t = {''a''} \<and> done_task_counts (increment_task_count t ''a'' 1) ''a'' = Some {1}"
proof -
  let ?t = "foldl listen_step (tracker_init 0 2) [(''a'', 0), (''a'', 1)]"
  have "1 < tt_target_count ?t" "done_task_counts ?t ''a'' = None" "finished_requests ?t = {''a''}"
    by (simp_all add: listen_step_def increment_task_count_def tracker_init_def Let_def)
  then show ?thesis using tracker_late_duplicate [of ?t "''a''" 1] by (simp add: Let_def)
qed

subsection \<open>Grouping\<close>

lemma length_np_diff: "length (np_diff xs) = length xs - 1"
  by (induction xs rule: np_diff.induct) auto

lemma nth_np_diff: "Suc i < length xs \<Longrightarrow> np_diff xs ! i = xs ! Suc i - xs ! i"
proof (induction xs arbitrary: i rule: np_diff.induct)
  case (1 x y zs)
  then show ?case by (cases i) auto
qed auto

lemma concat_np_split_from:
  "sorted (a # bs) \<Longrightarrow> \<forall>b \<in> set bs. b \<le> length xs \<Longrightarrow> concat (np_split_from a bs xs) = drop a xs"
proof (induction bs arbitrary: a)
  case (Cons b bs)
  have "slice a b xs @ drop b xs = drop a xs"
    using Cons.prems(1) by (simp add: slice_def) (metis append_take_drop_id le_add_diff_inverse2 drop_drop)
  then show ?case using Cons by simp
qed simp

lemma map_length_np_split_from:
  "length xs = length ys \<Longrightarrow> map length (np_split_from a bs xs) = map length (np_split_from a bs ys)"
  by (induction bs arbitrary: a) auto

lemma where_true_props:
  "sorted (where_true bs)" "distinct (where_true bs)" "set (where_true bs) = {i. i < length bs \<and> bs ! i}"
  by (auto simp: where_true_def sorted_wrt_filter)

text \<open>A group is a piece between two breaks with no break inside.\<close>

lemma np_split_from_pieces:
  assumes "g \<in> set (np_split_from a bs xs)" "sorted (a # bs)" "distinct (a # bs)"
    "\<forall>b \<in> set bs. b < length xs" "a < length xs"
  shows "\<exists>p q. g = slice p q xs \<and> p < q \<and> q \<le> length xs \<and> a \<le> p \<and> (\<forall>i. p < i \<and> i < q \<longrightarrow> i \<notin> set bs)"
  using assms
proof (induction bs arbitrary: a)
  case Nil
  then have "g = slice a (length xs) xs" by (simp add: slice_def)
  then show ?case using Nil.prems(5) by (intro exI [of _ a] exI [of _ "length xs"]) simp
next
  case (Cons b bs)
  have ab: "a < b" using Cons.prems(2,3) by (auto simp: order_less_le)
  show ?case
  proof (cases "g = slice a b xs")
    case True
    then show ?thesis using ab Cons.prems by (intro exI [of _ a] exI [of _ b]) force
  next
    case False
    then have "g \<in> set (np_split_from b bs xs)" using Cons.prems(1) by simp
    then obtain p q where "g = slice p q xs" "p < q" "q \<le> length xs" "b \<le> p" "\<forall>i. p < i \<and> i < q \<longrightarrow> i \<notin> set bs"
      using Cons.IH [of b] Cons.prems by auto
    then show ?thesis using ab by (intro exI [of _ p] exI [of _ q]) auto
  qed
qed

definition consecutive :: "int list \<Rightarrow> bool" where
  "consecutive g \<longleftrightarrow> g \<noteq> [] \<and> (\<forall>j < length g. g ! j = g ! 0 + int j)"

definition breaks :: "int list \<Rightarrow> int list \<Rightarrow> nat list" where
  "breaks src dst = map (\<lambda>i. i + 1) (where_true (map2 (\<lambda>a b. a \<noteq> 1 \<or> b \<noteq> 1) (np_diff src) (np_diff dst)))"

lemma group_equal_lengths:
  assumes "length src = length dst"
  shows "group_concurrent_contiguous src dst =
    (if src = [] then Inr ([], []) else Inr (np_split (breaks src dst) src, np_split (breaks src dst) dst))"
  using assms
  by (simp add: group_concurrent_contiguous_def np_broadcast_def length_np_diff breaks_def Let_def)

lemma sorted_map_Suc: "sorted xs \<Longrightarrow> sorted (map Suc xs)"
  by (induction xs) auto

lemma breaks_props:
  assumes "length src = length dst" "src \<noteq> []"
  shows "sorted (0 # breaks src dst)" "distinct (0 # breaks src dst)"
    "\<forall>b \<in> set (breaks src dst). b < length src"
    "Suc i < length src \<Longrightarrow> Suc i \<notin> set (breaks src dst) \<Longrightarrow>
       src ! Suc i = src ! i + 1 \<and> dst ! Suc i = dst ! i + 1"
proof -
  let ?cut = "map2 (\<lambda>a b. a \<noteq> 1 \<or> b \<noteq> 1) (np_diff src) (np_diff dst)"
  note w = where_true_props [of ?cut]
  have "sorted (map Suc (where_true ?cut))"
    using w(1) by (rule sorted_map_Suc)
  then have "sorted (breaks src dst)" unfolding breaks_def Suc_eq_plus1 by (simp only:)
  then show "sorted (0 # breaks src dst)" by simp
  show "distinct (0 # breaks src dst)" using w(2) unfolding breaks_def by (auto simp: distinct_map)
  have mem: "b \<in> set (breaks src dst) \<longleftrightarrow> (\<exists>j. b = Suc j \<and> j < length ?cut \<and> ?cut ! j)" for b
    unfolding breaks_def set_map w(3) by auto
  have len: "length ?cut = length src - 1" using assms(1) by (simp add: length_np_diff)
  show "\<forall>b \<in> set (breaks src dst). b < length src"
  proof
    fix b assume "b \<in> set (breaks src dst)"
    then obtain j where "b = Suc j" "j < length src - 1" unfolding mem len by blast
    then show "b < length src" by simp
  qed
  assume i: "Suc i < length src" "Suc i \<notin> set (breaks src dst)"
  then have "\<not> ?cut ! i" unfolding mem len by auto
  then show "src ! Suc i = src ! i + 1 \<and> dst ! Suc i = dst ! i + 1"
    using i assms by (simp add: length_np_diff nth_np_diff)
qed

lemma consecutive_slice:
  assumes "p < q" "q \<le> length xs" "\<And>i. p < Suc i \<Longrightarrow> Suc i < q \<Longrightarrow> xs ! Suc i = xs ! i + 1"
  shows "consecutive (slice p q xs)"
proof -
  have "j < q - p \<Longrightarrow> xs ! (p + j) = xs ! p + int j" for j
  proof (induction j)
    case (Suc j)
    then show ?case using assms(3) [of "p + j"] by simp
  qed simp
  then show ?thesis using assms(1,2) by (auto simp: consecutive_def nth_slice) (simp add: slice_def)
qed

lemma np_split_consecutive:
  assumes "length src = length dst" "src \<noteq> []"
  shows "list_all consecutive (np_split (breaks src dst) src)" "list_all consecutive (np_split (breaks src dst) dst)"
proof -
  note b = breaks_props [OF assms]
  have piece: "\<exists>p q. g = slice p q xs \<and> p < q \<and> q \<le> length xs \<and> (\<forall>i. p < i \<and> i < q \<longrightarrow> i \<notin> set (breaks src dst))"
    if "g \<in> set (np_split (breaks src dst) xs)" "length xs = length src" for g and xs :: "int list"
    using np_split_from_pieces [of g 0 "breaks src dst" xs] that b(1-3) assms(2) by (auto simp: np_split_def)
  show "list_all consecutive (np_split (breaks src dst) src)"
    using piece [where xs = src] b(4) by (fastforce simp: list_all_iff intro: consecutive_slice)
  show "list_all consecutive (np_split (breaks src dst) dst)"
    using piece [where xs = dst] b(4) assms(1) by (fastforce simp: list_all_iff intro: consecutive_slice)
qed

lemma group_correct:
  assumes "length src = length dst"
  shows "\<exists>gs gd. group_concurrent_contiguous src dst = Inr (gs, gd) \<and> concat gs = src \<and> concat gd = dst \<and>
           map length gs = map length gd \<and> list_all consecutive gs \<and> list_all consecutive gd"
proof (cases "src = []")
  case True
  then show ?thesis using assms by (simp add: group_equal_lengths)
next
  case False
  note b = breaks_props [OF assms False]
  have "concat (np_split (breaks src dst) src) = src" "concat (np_split (breaks src dst) dst) = dst"
    using concat_np_split_from [OF b(1), of src] concat_np_split_from [OF b(1), of dst] b(3) assms
    by (simp_all add: np_split_def less_imp_le)
  moreover have "map length (np_split (breaks src dst) src) = map length (np_split (breaks src dst) dst)"
    unfolding np_split_def by (rule map_length_np_split_from) (rule assms)
  ultimately show ?thesis
    using np_split_consecutive [OF assms False] False assms by (simp add: group_equal_lengths)
qed

text \<open>
  Grouping of block ids: for two lists of the same length the groups, put together, are the
  lists again; the \<open>i\<close>-th groups of both sides have the same length; and every group is a non-empty
  run of consecutive ids on both sides, so that it can be copied as one region.
\<close>

theorem group_concurrent_contiguous_correct:
  assumes "length src = length dst"
  shows "\<exists>gs gd. group_concurrent_contiguous src dst = Inr (gs, gd) \<and> concat gs = src \<and> concat gd = dst \<and>
           map length gs = map length gd \<and> list_all consecutive gs \<and> list_all consecutive gd"
  using group_correct [OF assms] .

theorem group_concurrent_contiguous_correct_witness:
  "group_concurrent_contiguous [4, 5, 6, 9] [1, 2, 7, 8] = Inr ([[4, 5], [6], [9]], [[1, 2], [7], [8]]) \<and>
   (\<exists>gs gd. group_concurrent_contiguous [4, 5, 6, 9] [1, 2, 7, 8] = Inr (gs, gd) \<and> concat gs = [4, 5, 6, 9] \<and>
      list_all consecutive gs)"
proof -
  have "group_concurrent_contiguous [4, 5, 6, 9] [1, 2, 7, 8] = Inr ([[4, 5], [6], [9]], [[1, 2], [7], [8]])"
    by code_simp
  then show ?thesis
    using group_concurrent_contiguous_correct [of "[4, 5, 6, 9]" "[1, 2, 7, 8]"] by auto
qed

text \<open>One region of a transfer, block by block, and the copies one would make without grouping.\<close>

definition copy_blocks :: "int \<Rightarrow> int \<times> int \<times> int \<Rightarrow> (int \<times> int) list" where
  "copy_blocks bl c = (case c of (s, d, len) \<Rightarrow> map (\<lambda>j. (s + int j * bl, d + int j * bl)) [0..<nat (len div bl)])"

definition block_copies :: "int \<Rightarrow> int \<Rightarrow> int \<Rightarrow> int list \<Rightarrow> int list \<Rightarrow> (int \<times> int) list" where
  "block_copies src_base dst_base bl local_ids remote_ids =
     map2 (\<lambda>l r. (src_base + l * bl, dst_base + r * bl)) local_ids remote_ids"

lemma group_copy_blocks:
  assumes "consecutive rg" "consecutive lg" "length rg = length lg" "0 < bl"
  shows "\<exists>c. group_copy sb db bl (rg, lg) = Inr c \<and> copy_blocks bl c = block_copies sb db bl lg rg"
proof -
  have ne: "lg \<noteq> []" "rg \<noteq> []" using assms by (auto simp: consecutive_def)
  have c: "group_copy sb db bl (rg, lg) = Inr (sb + lg ! 0 * bl, db + rg ! 0 * bl, int (length lg) * bl)"
    using ne by (simp add: group_copy_def list_item_def)
  have "copy_blocks bl (sb + lg ! 0 * bl, db + rg ! 0 * bl, int (length lg) * bl) = block_copies sb db bl lg rg"
  proof (rule nth_equalityI)
    show len: "length (copy_blocks bl (sb + lg ! 0 * bl, db + rg ! 0 * bl, int (length lg) * bl))
        = length (block_copies sb db bl lg rg)"
      using assms by (simp add: copy_blocks_def block_copies_def)
    fix j assume "j < length (copy_blocks bl (sb + lg ! 0 * bl, db + rg ! 0 * bl, int (length lg) * bl))"
    then have j: "j < length lg" "j < length rg" using len assms(3) by (simp_all add: block_copies_def)
    then have "lg ! j = lg ! 0 + int j" "rg ! j = rg ! 0 + int j"
      using assms(1,2) unfolding consecutive_def by blast+
    then show "copy_blocks bl (sb + lg ! 0 * bl, db + rg ! 0 * bl, int (length lg) * bl) ! j
        = block_copies sb db bl lg rg ! j"
      using j assms(4) by (simp add: copy_blocks_def block_copies_def algebra_simps)
  qed
  then show ?thesis using c by blast
qed

lemma layer_groups:
  assumes "list_all consecutive gs" "list_all consecutive gd" "map length gs = map length gd" "0 < bl"
  shows "\<exists>cs. res_map (group_copy sb db bl) (zip gs gd) = Inr cs \<and>
           concat (map (copy_blocks bl) cs) = block_copies sb db bl (concat gd) (concat gs)"
  using assms
proof (induction gs arbitrary: gd)
  case (Cons g gs)
  then obtain h hs where gd: "gd = h # hs" by (cases gd) auto
  have "consecutive g" "consecutive h" "length g = length h" using Cons.prems gd by auto
  then obtain c where c: "group_copy sb db bl (g, h) = Inr c" "copy_blocks bl c = block_copies sb db bl h g"
    using group_copy_blocks [OF _ _ _ assms(4)] by metis
  obtain cs where "res_map (group_copy sb db bl) (zip gs hs) = Inr cs"
    "concat (map (copy_blocks bl) cs) = block_copies sb db bl (concat hs) (concat gs)"
    using Cons.IH [of hs] Cons.prems gd by auto
  then show ?case using c gd \<open>length g = length h\<close> by (simp add: block_copies_def)
qed (simp add: block_copies_def)

text \<open>
  C14. The optimised transfer is the plain one: for every layer, the regions that are handed to the
  transfer engine, cut into blocks, are exactly the copies of each local block from its remote
  block, in order.
\<close>

theorem layer_copies_correct:
  assumes "length remote_ids = length local_ids" "layer_block_len rt k = Inr bl" "0 < bl"
  shows "\<exists>groups cs. group_concurrent_contiguous remote_ids local_ids = Inr groups \<and>
           layer_copies rt groups (k, src_base, dst_base) = Inr cs \<and>
           concat (map (copy_blocks bl) cs) = block_copies src_base dst_base bl local_ids remote_ids"
proof -
  obtain gs gd where g: "group_concurrent_contiguous remote_ids local_ids = Inr (gs, gd)"
    "concat gs = remote_ids" "concat gd = local_ids" "map length gs = map length gd"
    "list_all consecutive gs" "list_all consecutive gd"
    using group_correct [OF assms(1)] by blast
  obtain cs where "res_map (group_copy src_base dst_base bl) (zip gs gd) = Inr cs"
    "concat (map (copy_blocks bl) cs) = block_copies src_base dst_base bl (concat gd) (concat gs)"
    using layer_groups [OF g(5,6,4) assms(3)] by blast
  then show ?thesis using g(1-3) assms(2) by (simp add: layer_copies_def)
qed

theorem layer_copies_correct_witness:
  "\<exists>groups cs. group_concurrent_contiguous [4, 5, 9] [1, 2, 7] = Inr groups \<and>
     layer_copies (recv_thread_init 0 1 ''d'' 5000 [] [100]) groups (0, 1000, 9000) = Inr cs \<and>
     concat (map (copy_blocks 100) cs) = [(1100, 9400), (1200, 9500), (1700, 9900)]"
proof -
  have "layer_block_len (recv_thread_init 0 1 ''d'' 5000 [] [100]) 0 = Inr 100"
    by (simp add: layer_block_len_def use_mla_def recv_thread_init_def list_item_def)
  then show ?thesis
    using layer_copies_correct [of "[4, 5, 9]" "[1, 2, 7]" "recv_thread_init 0 1 ''d'' 5000 [] [100]" 0 100 1000 9000]
    by (simp add: block_copies_def)
qed

text \<open>
  Lists of different lengths (of at least three blocks each) are not grouped: the elementwise
  comparison of the two difference arrays raises.
\<close>

lemma group_length_mismatch_raises:
  assumes "length src \<noteq> length dst" "3 \<le> length src" "3 \<le> length dst"
  shows "group_concurrent_contiguous src dst = Inl ValueError"
  using assms
  by (auto simp: group_concurrent_contiguous_def np_broadcast_def length_np_diff)

subsection \<open>The receiving thread\<close>

text \<open>Every socket that was made is idle in exactly one pool.\<close>

definition sockets_inv :: "recv_thread \<Rightarrow> bool" where
  "sockets_inv rt \<longleftrightarrow>
     (\<forall>path. distinct (remote_sockets rt path)) \<and>
     (\<forall>p q. p \<noteq> q \<longrightarrow> set (remote_sockets rt p) \<inter> set (remote_sockets rt q) = {}) \<and>
     (\<Union>path. set (remote_sockets rt path)) = {0..<next_socket rt}"

lemma sockets_inv_cong:
  "remote_sockets rt' = remote_sockets rt \<Longrightarrow> next_socket rt' = next_socket rt \<Longrightarrow> sockets_inv rt' = sockets_inv rt"
  by (simp add: sockets_inv_def)

lemma get_return_socket:
  assumes "sockets_inv rt" "get_remote_socket zp rt host port = (sock, rt1)"
    "remote_sockets rt2 = remote_sockets rt1" "next_socket rt2 = next_socket rt1"
  shows "sockets_inv (return_remote_socket zp rt2 sock host port)"
proof -
  let ?p = "zp host port"
  have d: "\<forall>path. distinct (remote_sockets rt path)"
    and j: "\<forall>p q. p \<noteq> q \<longrightarrow> set (remote_sockets rt p) \<inter> set (remote_sockets rt q) = {}"
    and u: "(\<Union>path. set (remote_sockets rt path)) = {0..<next_socket rt}"
    using assms(1) by (simp_all add: sockets_inv_def)
  show ?thesis
  proof (cases "remote_sockets rt ?p")
    case (Cons s ss)
    then have eq: "sock = s" "rt1 = rt\<lparr>remote_sockets := (remote_sockets rt)(?p := ss)\<rparr>"
      using assms(2) by (simp_all add: get_remote_socket_def Let_def)
    have s: "set (remote_sockets rt ?p) = insert s (set ss)" "distinct (ss @ [s])"
      using Cons d [rule_format, of ?p] by auto
    have same: "set (((remote_sockets rt)(?p := ss @ [s])) path) = set (remote_sockets rt path)" for path
      using s(1) by auto
    have "distinct (((remote_sockets rt)(?p := ss @ [s])) path)" for path
      using d s(2) by simp
    then show ?thesis
      using same j u assms(3,4) eq
      by (simp add: sockets_inv_def return_remote_socket_def Let_def del: set_append)
  next
    case Nil
    then have eq: "sock = next_socket rt" "rt1 = rt\<lparr>next_socket := Suc (next_socket rt)\<rparr>"
      using assms(2) by (auto simp: get_remote_socket_def Let_def)
    have new: "next_socket rt \<notin> set (remote_sockets rt path)" for path
      using u by (metis UN_iff UNIV_I atLeastLessThan_iff less_irrefl)
    let ?f = "(remote_sockets rt)(?p := [next_socket rt])"
    have "\<forall>path. distinct (?f path)" using d by simp
    moreover have "\<forall>p q. p \<noteq> q \<longrightarrow> set (?f p) \<inter> set (?f q) = {}" using j new by auto
    moreover have "(\<Union>path. set (?f path)) = insert (next_socket rt) (\<Union>path. set (remote_sockets rt path))"
    proof -
      have f: "set (?f path) = (if path = ?p then {next_socket rt} else set (remote_sockets rt path))" for path by simp
      have "x \<in> (\<Union>path. set (?f path)) \<longleftrightarrow> x = next_socket rt \<or> (\<exists>path. x \<in> set (remote_sockets rt path))" for x
      proof
        assume "x \<in> (\<Union>path. set (?f path))"
        then obtain path where "x \<in> set (?f path)" by blast
        then show "x = next_socket rt \<or> (\<exists>path. x \<in> set (remote_sockets rt path))"
          unfolding f by (cases "path = ?p") auto
      next
        assume "x = next_socket rt \<or> (\<exists>path. x \<in> set (remote_sockets rt path))"
        then obtain path where "x \<in> set (?f path)" using f [of ?p] f Nil
          by (metis empty_iff empty_set insertI1)
        then show "x \<in> (\<Union>path. set (?f path))" by blast
      qed
      then show ?thesis by blast
    qed
    then have "(\<Union>path. set (?f path)) = {0..<Suc (next_socket rt)}" using u by auto
    ultimately show ?thesis
      using Nil assms(3,4) eq by (simp add: sockets_inv_def return_remote_socket_def Let_def)
  qed
qed

lemma get_remote_metadata_sockets:
  "sockets_inv rt \<Longrightarrow> sockets_inv (fst (get_remote_metadata zp dec io rt host port))"
  by (cases "get_remote_socket zp rt host port")
    (auto simp: get_remote_metadata_def Let_def intro!: get_return_socket split: sum.split)

lemma send_done_sockets: "sockets_inv rt \<Longrightarrow> sockets_inv (fst (send_done_recv_signal zp io rt r host port))"
  by (cases "get_remote_socket zp rt host port")
    (auto simp: send_done_recv_signal_def Let_def intro!: get_return_socket)

lemma transfer_sockets: "sockets_inv rt \<Longrightarrow> sockets_inv (fst (transfer_kv_cache env io rt tk))"
  using get_remote_metadata_sockets [of rt "zmq_path env" "decode_metadata env" io "tk_remote_host tk"]
  by (auto simp: transfer_kv_cache_def Let_def split: prod.splits) (metis fst_conv)+

text \<open>
  The address tables: the local addresses stay what they were at the start, and every remote engine
  and port whose addresses are known has its transfer port.
\<close>

definition tables_inv :: "recv_thread \<Rightarrow> recv_thread \<Rightarrow> bool" where
  "tables_inv rt0 rt \<longleftrightarrow>
     rt_local_engine_id rt = rt_local_engine_id rt0 \<and> rt_local_handshake_port rt = rt_local_handshake_port rt0 \<and>
     rt_block_len rt = rt_block_len rt0 \<and> rt_tp_rank rt = rt_tp_rank rt0 \<and>
     kv_caches_base_addr rt (rt_local_engine_id rt0) = kv_caches_base_addr rt0 (rt_local_engine_id rt0) \<and>
     (\<forall>en port. en \<noteq> rt_local_engine_id rt0 \<longrightarrow>
        (isl (dict2_item (kv_caches_base_addr rt) en port) \<longleftrightarrow> isl (dict2_item (remote_te_port rt) en port)))"

definition recv_inv :: "recv_thread \<Rightarrow> recv_thread \<Rightarrow> bool" where
  "recv_inv rt0 rt \<longleftrightarrow> sockets_inv rt \<and> tables_inv rt0 rt"

lemma recv_inv_frame [simp]:
  "recv_inv rt0 (rt\<lparr>request_queue := q\<rparr>) = recv_inv rt0 rt"
  "recv_inv rt0 (rt\<lparr>unfinished_tasks := n\<rparr>) = recv_inv rt0 rt"
  "recv_inv rt0 (rt\<lparr>rt_tracker := t\<rparr>) = recv_inv rt0 rt"
  by (simp_all add: recv_inv_def sockets_inv_def tables_inv_def)

lemma dict2_item_set:
  "dict2_item (dict2_set k1 k2 v m) k1' k2' = (if k1' = k1 \<and> k2' = k2 then Inr v else dict2_item m k1' k2')"
  by (auto simp: dict2_item_def dict2_set_def map_item_def split: option.splits)

lemma dict2_set_other: "k \<noteq> k1 \<Longrightarrow> dict2_set k1 k2 v m k = m k"
  by (simp add: dict2_set_def)

lemma socket_ops_tables:
  "get_remote_socket zp rt host port = (sock, rt1) \<Longrightarrow> tables_inv rt0 rt1 = tables_inv rt0 rt"
  "tables_inv rt0 (return_remote_socket zp rt s host port) = tables_inv rt0 rt"
  by (auto simp: get_remote_socket_def return_remote_socket_def tables_inv_def Let_def split: list.splits)

lemma get_remote_metadata_tables:
  assumes "tables_inv rt0 rt"
  shows "tables_inv rt0 (fst (get_remote_metadata zp dec io rt host port))"
proof -
  obtain sock rt1 where g: "get_remote_socket zp rt host port = (sock, rt1)" by fastforce
  have t1: "tables_inv rt0 rt1" using socket_ops_tables(1) [OF g] assms by simp
  have upd: "tables_inv rt0 (rt1\<lparr>kv_caches_base_addr := dict2_set en port a (kv_caches_base_addr rt1),
                remote_te_port := dict2_set en port b (remote_te_port rt1)\<rparr>)"
    if "en \<noteq> rt_local_engine_id rt1" for en a b
    using t1 that by (auto simp: tables_inv_def dict2_item_set dict2_set_other)
  show ?thesis
    using t1 upd g
    by (auto simp: get_remote_metadata_def Let_def socket_ops_tables(2) res_elims split: sum.splits)
qed

lemma transfer_tables: "tables_inv rt0 rt \<Longrightarrow> tables_inv rt0 (fst (transfer_kv_cache env io rt tk))"
  using get_remote_metadata_tables [of rt0 rt "zmq_path env" "decode_metadata env" io "tk_remote_host tk"]
  by (auto simp: transfer_kv_cache_def Let_def split: prod.splits) (metis fst_conv)+

lemma handle_request_inv:
  assumes "recv_inv rt0 rt"
  shows "recv_inv rt0 (fst (handle_request env io io' rt tk))"
proof -
  let ?rt1 = "fst (transfer_kv_cache env io rt tk)"
  let ?rt2 = "?rt1\<lparr>rt_tracker := update_done_task_count (rt_tracker ?rt1) (tk_request_id tk) (rt_tp_rank ?rt1)\<rparr>"
  obtain rt3 sent where s: "send_done_recv_signal (zmq_path env) io' ?rt2 (tk_request_id tk) (tk_remote_host tk)
      (tk_remote_handshake_port tk) = (rt3, sent)" by fastforce
  have "sockets_inv ?rt1" "tables_inv rt0 ?rt1"
    using assms transfer_sockets transfer_tables by (auto simp: recv_inv_def)
  then have two: "sockets_inv ?rt2" "tables_inv rt0 ?rt2" by (simp_all add: sockets_inv_def tables_inv_def)
  have "sockets_inv rt3" using send_done_sockets [OF two(1)] s by (metis fst_conv)
  moreover have "tables_inv rt0 rt3"
    using two(2) s socket_ops_tables by (auto simp: send_done_recv_signal_def Let_def split: prod.splits)
  moreover have "fst (handle_request env io io' rt tk) = rt3 \<or>
      fst (handle_request env io io' rt tk) = rt3\<lparr>unfinished_tasks := unfinished_tasks rt3 - 1\<rparr>"
    using s by (auto simp: handle_request_def Let_def split: sum.splits)
  moreover have "recv_inv rt0 rt3" using calculation(1,2) by (simp add: recv_inv_def)
  ultimately show ?thesis by auto
qed

text \<open>
  The receiving thread as a transition system: requests are added by the worker, and the thread
  handles the next one with whatever the network answers.
\<close>

datatype recv_event = Add_Request mc_task | Handle_Next mc_io mc_io

inductive recv_step :: "mc_env \<Rightarrow> recv_thread \<Rightarrow> recv_event \<Rightarrow> recv_thread \<Rightarrow> bool" for env where
  step_add: "recv_step env rt (Add_Request tk) (add_request rt tk)"
| step_next: "recv_thread_step env io io' rt = Some rt' \<Longrightarrow> recv_step env rt (Handle_Next io io') rt'"

inductive_cases recv_stepE [elim!]: "recv_step env rt ev rt'"

lemma recv_inv_init: "recv_inv (recv_thread_init a b c d e f) (recv_thread_init a b c d e f)"
  by (auto simp: recv_inv_def sockets_inv_def tables_inv_def recv_thread_init_def dict2_item_def)

lemma recv_thread_step_inv:
  assumes "recv_inv rt0 rt" "recv_thread_step env io io' rt = Some rt'"
  shows "recv_inv rt0 rt'"
proof -
  from assms(2) obtain tk tks where q: "request_queue rt = tk # tks"
    "rt' = fst (handle_request env io io' (rt\<lparr>request_queue := tks\<rparr>) tk)"
    by (auto simp: recv_thread_step_def split: list.splits)
  have "recv_inv rt0 (rt\<lparr>request_queue := tks\<rparr>)"
    using assms(1) by simp
  then show ?thesis using handle_request_inv q(2) by simp
qed

interpretation recv_sys: inv_system "\<lambda>rt. rt = recv_thread_init a b c d e f" "recv_step env"
  "recv_inv (recv_thread_init a b c d e f)" for a b c d e f env
proof unfold_locales
  fix rt ev rt' assume "recv_inv (recv_thread_init a b c d e f) rt" "recv_step env rt ev rt'"
  then show "recv_inv (recv_thread_init a b c d e f) rt'"
    by (auto intro: recv_thread_step_inv simp: add_request_def)
qed (simp add: recv_inv_init)

text \<open>
  C16. In every state the receiving thread can reach, under any answers of the network and any
  failures, all sockets it ever opened are back in the pool of exactly one path, its own base
  addresses are the ones it was started with, and a remote engine whose addresses are known has its
  transfer port (so the two table lookups of a transfer agree).
\<close>

theorem recv_thread_reachable_inv:
  assumes "reachable (\<lambda>rt. rt = recv_thread_init rank n_ranks engine port addrs lens) (recv_step env) rt"
  shows "sockets_inv rt \<and> dict2_item (kv_caches_base_addr rt) engine port = Inr addrs \<and>
         (\<forall>en p. en \<noteq> engine \<longrightarrow> (isl (dict2_item (kv_caches_base_addr rt) en p) \<longleftrightarrow> isl (dict2_item (remote_te_port rt) en p)))"
proof -
  have "recv_inv (recv_thread_init rank n_ranks engine port addrs lens) rt"
    using recv_sys.reachable_inv [OF assms] .
  then show ?thesis
    by (simp add: recv_inv_def tables_inv_def recv_thread_init_def dict2_item_def)
qed


definition demo_mc_env :: mc_env where
  "demo_mc_env = \<lparr>zmq_path = (\<lambda>h p. h @ '':'' @ str_int p), decode_metadata = (\<lambda>_. Inl ValueError),
     batch_transfer_sync_read = (\<lambda>_ _ _ _. 0)\<rparr>"

definition demo_task :: mc_task where
  "demo_task = \<lparr>tk_request_id = ''a'', tk_local_block_ids = [1, 2], tk_remote_block_ids = [4, 5],
     tk_remote_engine_id = ''p'', tk_remote_host = ''h'', tk_remote_handshake_port = 7000\<rparr>"

definition dead_io :: mc_io where
  "dead_io = \<lparr>io_send = (\<lambda>_. None), io_recv = (\<lambda>_. None)\<rparr>"

theorem recv_thread_reachable_inv_witness:
  "\<exists>rt. recv_thread_step demo_mc_env dead_io dead_io (add_request (recv_thread_init 0 1 ''d'' 5000 [64] [8]) demo_task) = Some rt \<and>
        sockets_inv rt \<and> dict2_item (kv_caches_base_addr rt) ''d'' 5000 = Inr [64]"
proof -
  let ?rt0 = "recv_thread_init 0 1 ''d'' 5000 [64] [8]"
  obtain rt where rt: "recv_thread_step demo_mc_env dead_io dead_io (add_request ?rt0 demo_task) = Some rt"
    by (simp add: recv_thread_step_def add_request_def recv_thread_init_def)
  have "reachable (\<lambda>rt. rt = ?rt0) (recv_step demo_mc_env) (add_request ?rt0 demo_task)"
    by (rule reach_step [OF reach_init]) (auto intro: step_add)
  then have "reachable (\<lambda>rt. rt = ?rt0) (recv_step demo_mc_env) rt"
    by (rule reach_step) (rule step_next [OF rt])
  then show ?thesis using recv_thread_reachable_inv [of 0 1 "''d''" 5000 "[64]" "[8]"] rt by blast
qed

subsection \<open>What a handled request reports\<close>

lemma socket_ops_frame:
  "get_remote_socket zp rt host port = (sock, rt1) \<Longrightarrow>
     rt_tracker rt1 = rt_tracker rt \<and> unfinished_tasks rt1 = unfinished_tasks rt \<and> request_queue rt1 = request_queue rt \<and>
     rt_tp_rank rt1 = rt_tp_rank rt"
  "rt_tracker (return_remote_socket zp rt s host port) = rt_tracker rt"
  "unfinished_tasks (return_remote_socket zp rt s host port) = unfinished_tasks rt"
  "request_queue (return_remote_socket zp rt s host port) = request_queue rt"
  "rt_tp_rank (return_remote_socket zp rt s host port) = rt_tp_rank rt"
  by (auto simp: get_remote_socket_def return_remote_socket_def Let_def split: list.splits)

lemma get_remote_metadata_frame:
  "rt_tracker (fst (get_remote_metadata zp dec io rt host port)) = rt_tracker rt"
  "unfinished_tasks (fst (get_remote_metadata zp dec io rt host port)) = unfinished_tasks rt"
  "request_queue (fst (get_remote_metadata zp dec io rt host port)) = request_queue rt"
  "rt_tp_rank (fst (get_remote_metadata zp dec io rt host port)) = rt_tp_rank rt"
  by (auto simp: get_remote_metadata_def Let_def socket_ops_frame(2-) split: prod.splits sum.splits
      dest!: socket_ops_frame(1))

lemma transfer_kv_cache_fst:
  "fst (transfer_kv_cache env io rt tk) = rt \<or>
   fst (transfer_kv_cache env io rt tk)
     = fst (get_remote_metadata (zmq_path env) (decode_metadata env) io rt (tk_remote_host tk) (tk_remote_handshake_port tk))"
  by (simp add: transfer_kv_cache_def Let_def split: prod.split)

lemma transfer_kv_cache_frame:
  "rt_tracker (fst (transfer_kv_cache env io rt tk)) = rt_tracker rt"
  "unfinished_tasks (fst (transfer_kv_cache env io rt tk)) = unfinished_tasks rt"
  "request_queue (fst (transfer_kv_cache env io rt tk)) = request_queue rt"
  "rt_tp_rank (fst (transfer_kv_cache env io rt tk)) = rt_tp_rank rt"
  using transfer_kv_cache_fst [of env io rt tk] get_remote_metadata_frame by metis+

lemma send_done_recv_signal_frame:
  "rt_tracker (fst (send_done_recv_signal zp io rt r host port)) = rt_tracker rt"
  "unfinished_tasks (fst (send_done_recv_signal zp io rt r host port)) = unfinished_tasks rt"
  "request_queue (fst (send_done_recv_signal zp io rt r host port)) = request_queue rt"
  by (auto simp: send_done_recv_signal_def Let_def socket_ops_frame(2-) split: prod.splits dest!: socket_ops_frame(1))

text \<open>
  C17. One turn of the receiving thread takes the oldest task and reports its request to the tracker
  exactly once, whatever happened to the transfer: a failed read of the blocks, an unknown or
  unreachable peer and a refused signal all leave the request reported as received.
\<close>

theorem recv_thread_step_reports_once:
  assumes "request_queue rt = tk # tks"
  shows "\<exists>rt'. recv_thread_step env io io' rt = Some rt' \<and> request_queue rt' = tks \<and>
           rt_tracker rt' = update_done_task_count (rt_tracker rt) (tk_request_id tk) (rt_tp_rank rt)"
proof -
  let ?rt = "rt\<lparr>request_queue := tks\<rparr>"
  let ?rt' = "fst (handle_request env io io' ?rt tk)"
  define rt1 where "rt1 = fst (transfer_kv_cache env io ?rt tk)"
  define rt2 where "rt2 = rt1\<lparr>rt_tracker := update_done_task_count (rt_tracker rt1) (tk_request_id tk) (rt_tp_rank rt1)\<rparr>"
  define sent where "sent = send_done_recv_signal (zmq_path env) io' rt2 (tk_request_id tk) (tk_remote_host tk) (tk_remote_handshake_port tk)"
  have "rt_tracker rt1 = rt_tracker rt" "request_queue rt1 = tks" "rt_tp_rank rt1 = rt_tp_rank rt"
    using transfer_kv_cache_frame [of env io ?rt tk] by (simp_all add: rt1_def)
  then have "rt_tracker (fst sent) = update_done_task_count (rt_tracker rt) (tk_request_id tk) (rt_tp_rank rt)"
    "request_queue (fst sent) = tks"
    by (simp_all add: sent_def send_done_recv_signal_frame rt2_def)
  moreover have "?rt' = fst sent \<or> ?rt' = (fst sent)\<lparr>unfinished_tasks := unfinished_tasks (fst sent) - 1\<rparr>"
    unfolding handle_request_def Let_def rt1_def [symmetric] rt2_def [symmetric] sent_def [symmetric]
    by (simp split: prod.split sum.split)
  ultimately have "rt_tracker ?rt' = update_done_task_count (rt_tracker rt) (tk_request_id tk) (rt_tp_rank rt) \<and>
        request_queue ?rt' = tks" by auto
  then show ?thesis using assms by (simp add: recv_thread_step_def)
qed

theorem recv_thread_step_reports_once_witness:
  "\<exists>rt'. recv_thread_step demo_mc_env dead_io dead_io (add_request (recv_thread_init 0 1 ''d'' 5000 [64] [8]) demo_task) = Some rt' \<and>
     snd (transfer_kv_cache demo_mc_env dead_io (recv_thread_init 0 1 ''d'' 5000 [64] [8]) demo_task) = Inl RuntimeError \<and>
     finished_requests (rt_tracker rt') = {''a''}"
proof -
  have q: "request_queue (add_request (recv_thread_init 0 1 ''d'' 5000 [64] [8]) demo_task) = [demo_task]"
    by (simp add: add_request_def recv_thread_init_def)
  have "snd (transfer_kv_cache demo_mc_env dead_io (recv_thread_init 0 1 ''d'' 5000 [64] [8]) demo_task) = Inl RuntimeError"
    by (simp add: transfer_kv_cache_def get_remote_metadata_def get_remote_socket_def ensure_zmq_send_def ensure_zmq.simps
        demo_mc_env_def demo_task_def dead_io_def recv_thread_init_def)
  moreover have "finished_requests (update_done_task_count (tracker_init 0 1) ''a'' 0) = {''a''}"
    by (simp add: update_done_task_count_def increment_task_count_def tracker_init_def)
  moreover have "rt_tracker (add_request (recv_thread_init 0 1 ''d'' 5000 [64] [8]) demo_task) = tracker_init 0 1"
    "rt_tp_rank (add_request (recv_thread_init 0 1 ''d'' 5000 [64] [8]) demo_task) = 0" "tk_request_id demo_task = ''a''"
    by (simp_all add: add_request_def recv_thread_init_def demo_task_def)
  ultimately show ?thesis
    using recv_thread_step_reports_once [OF q, of demo_mc_env dead_io dead_io] by metis
qed

end
