(* ===== verification/Mooncake_Handover.thy ===== *)
theory Mooncake_Handover
  imports Mooncake_Connector Scheduler_Proofs
begin

section \<open>The handover from the prefill node to the decode node\<close>

text \<open>
  The scheduler side of the Mooncake connector keeps the contract \<open>kv_connector\<close> of the scheduler; the
  parameters that the prefill node returns with a finished request are the ones that the decode node
  turns into a transfer of those blocks; and the task that a decode worker queues is addressed to
  the listener of a prefill worker.
\<close>

interpretation mooncake: kv_connector "mooncake_ops unhashed"
  by unfold_locales
    (auto simp: mooncake_ops_def mc_get_num_new_matched_tokens_def mc_update_state_after_alloc_def Let_def res_elims
      split: option.splits if_splits intro: params_frame)

subsection \<open>The parameters\<close>

definition handover :: "mc_sched \<Rightarrow> int list \<Rightarrow> kv_params" where
  "handover s ids =
     [''do_remote_prefill'' \<mapsto> PBool True, ''do_remote_decode'' \<mapsto> PBool False,
      ''remote_block_ids'' \<mapsto> PInts ids, ''remote_engine_id'' \<mapsto> PStr (ms_engine_id s),
      ''remote_host'' \<mapsto> PStr (ms_side_channel_host s), ''remote_port'' \<mapsto> PInt (ms_side_channel_port s)]"

lemma request_finished_handover:
  assumes "mc_request_finished s q ids = (b, Some ps)"
  shows "ps = handover s ids \<and> b = (ids \<noteq> []) \<and> status q = FINISHED_LENGTH_CAPPED"
  using assms by (auto simp: mc_request_finished_def handover_def split: option.splits if_splits)

lemma handover_flags:
  "get_truthy (handover s ids) ''do_remote_prefill''" "get_truthy (handover s ids) ''remote_block_ids'' = (ids \<noteq> [])"
  by (simp_all add: handover_def get_truthy_def)

lemma handover_keys:
  "handover s ids ''remote_engine_id'' \<noteq> None" "handover s ids ''remote_host'' \<noteq> None" "handover s ids ''remote_port'' \<noteq> None"
  by (simp_all add: handover_def)

lemma update_handover:
  assumes "kv_transfer_params q = Some (handover sp ids)" "ids \<noteq> []" "0 < n"
  shows "mc_update_state_after_alloc unhashed s q blocks n =
    Inr (s\<lparr>reqs_need_recv := dict_set (request_id q) (unhashed blocks) (reqs_need_recv s)\<rparr>,
         q\<lparr>kv_transfer_params := Some ((handover sp ids)(''do_remote_prefill'' \<mapsto> PBool False))\<rparr>)"
  using assms using handover_keys [of sp ids]
  by (simp add: mc_update_state_after_alloc_def handover_flags)

lemma add_handover:
  "mc_add_new_req meta r lids ((handover sp ids)(''do_remote_prefill'' \<mapsto> PBool False)) =
   Inr (dict_set r \<lparr>rm_local_block_ids = lids, rm_remote_block_ids = ids, rm_remote_host = ms_side_channel_host sp,
          rm_remote_port = ms_side_channel_port sp, rm_remote_engine_id = ms_engine_id sp\<rparr> meta)"
  by (simp add: mc_add_new_req_def handover_def param_ints_def param_str_def param_int_def)

lemma build_single:
  assumes "reqs_need_recv s = []" "kv_transfer_params q' = Some ((handover sp ids)(''do_remote_prefill'' \<mapsto> PBool False))"
  shows "mc_build_connector_meta (s\<lparr>reqs_need_recv := dict_set r lids (reqs_need_recv s)\<rparr>) (ob(r := q')) =
    Inr (s, [(r, \<lparr>rm_local_block_ids = lids, rm_remote_block_ids = ids, rm_remote_host = ms_side_channel_host sp,
          rm_remote_port = ms_side_channel_port sp, rm_remote_engine_id = ms_engine_id sp\<rparr>)])"
  using assms by (simp add: mc_build_connector_meta_def add_handover)

text \<open>
  C18. Handover: a request that the prefill node finished because of its length and that asks for a
  remote decode keeps its blocks (they are freed later) and returns parameters with which the decode
  node counts the whole prompt but its last token as remote, loads asynchronously, and, once blocks
  are allocated, sends its workers a transfer of exactly those remote blocks of that engine, host and
  port into the allocated blocks; the request then asks for nothing more, so it is transferred once.
\<close>

theorem mooncake_handover:
  assumes "mc_request_finished sp qp ids = (delay, Some ps)" "ids \<noteq> []"
    and "kv_transfer_params q = Some ps" "1 < length (prompt_token_ids q)" "reqs_need_recv sd = []"
  shows "delay \<and>
    mc_get_num_new_matched_tokens sd q 0 = Inr (int (length (prompt_token_ids q)) - 1, True) \<and>
    (\<exists>sd1 q1. mc_update_state_after_alloc unhashed sd q blocks (int (length (prompt_token_ids q)) - 1) = Inr (sd1, q1) \<and>
       mc_build_connector_meta sd1 (ob(request_id q := q1)) =
         Inr (sd, [(request_id q, \<lparr>rm_local_block_ids = unhashed blocks, rm_remote_block_ids = ids,
                     rm_remote_host = ms_side_channel_host sp, rm_remote_port = ms_side_channel_port sp,
                     rm_remote_engine_id = ms_engine_id sp\<rparr>)]) \<and>
       mc_get_num_new_matched_tokens sd q1 0 = Inr (0, False))"
proof -
  have ps: "ps = handover sp ids" "delay" using request_finished_handover [OF assms(1)] assms(2) by auto
  let ?q1 = "q\<lparr>kv_transfer_params := Some ((handover sp ids)(''do_remote_prefill'' \<mapsto> PBool False))\<rparr>"
  have "mc_get_num_new_matched_tokens sd q 0 = Inr (int (length (prompt_token_ids q)) - 1, True)"
    using assms(3,4) ps by (simp add: mc_get_num_new_matched_tokens_def handover_flags)
  moreover have "mc_get_num_new_matched_tokens sd ?q1 0 = Inr (0, False)"
    by (simp add: mc_get_num_new_matched_tokens_def get_truthy_def)
  moreover note update_handover [of q sp ids "int (length (prompt_token_ids q)) - 1" unhashed sd blocks]
    build_single [of sd ?q1 sp ids "request_id q" "unhashed blocks" ob]
  ultimately show ?thesis using assms(2-5) ps by simp
qed

definition demo_p_sched :: mc_sched where "demo_p_sched = mc_sched_init ''p'' ''10.0.0.1'' 5000 1 4"
definition demo_d_sched :: mc_sched where "demo_d_sched = mc_sched_init ''d'' ''10.0.0.2'' 6000 0 2"

definition demo_p_request :: request where
  "demo_p_request = \<lparr>request_id = ''a'', status = FINISHED_LENGTH_CAPPED, num_tokens = 3, num_computed_tokens = 3,
     num_cached_tokens = 0, prompt_token_ids = [7, 8, 9], spec_token_ids = [], lora_req = None,
     kv_transfer_params = Some [''do_remote_decode'' \<mapsto> PBool True], events = []\<rparr>"

definition demo_d_request :: request where
  "demo_d_request = demo_p_request\<lparr>status := WAITING, num_computed_tokens := 0,
     kv_transfer_params := snd (mc_request_finished demo_p_sched demo_p_request [4, 5])\<rparr>"

theorem mooncake_handover_witness:
  "\<exists>sd1 q1. mc_update_state_after_alloc id demo_d_sched demo_d_request [1, 2] 2 = Inr (sd1, q1) \<and>
     mc_build_connector_meta sd1 ((\<lambda>_. demo_d_request)(''a'' := q1)) =
       Inr (demo_d_sched, [(''a'', \<lparr>rm_local_block_ids = [1, 2], rm_remote_block_ids = [4, 5], rm_remote_host = ''10.0.0.1'',
              rm_remote_port = 5004, rm_remote_engine_id = ''p''\<rparr>)])"
proof -
  have fin: "mc_request_finished demo_p_sched demo_p_request [4, 5] = (True, Some (handover demo_p_sched [4, 5]))"
    by (simp add: mc_request_finished_def demo_p_request_def handover_def get_truthy_def)
  have q: "kv_transfer_params demo_d_request = Some (handover demo_p_sched [4, 5])"
    "prompt_token_ids demo_d_request = [7, 8, 9]" "request_id demo_d_request = ''a''"
    using fin by (simp_all add: demo_d_request_def) (simp_all add: demo_p_request_def)
  have s: "reqs_need_recv demo_d_sched = []" "ms_side_channel_host demo_p_sched = ''10.0.0.1''"
    "ms_side_channel_port demo_p_sched = 5004" "ms_engine_id demo_p_sched = ''p''"
    by (simp_all add: demo_d_sched_def demo_p_sched_def mc_sched_init_def handshake_base_port_def)
  show ?thesis
    using mooncake_handover [OF fin _ q(1) _ s(1), of id "[1, 2]" "\<lambda>_. demo_d_request"] q(2,3) s(2-4) by simp blast
qed

lemma add_new_req_keys: "mc_add_new_req meta r ids ps = Inr meta' \<Longrightarrow> fst ` set meta' = insert r (fst ` set meta)"
  unfolding mc_add_new_req_def res_elims by (elim exE conjE, simp only: sum.inject, hypsubst, rule fst_set_dict_set)

lemma build_fold_keys:
  "res_foldl (\<lambda>meta (r, ids). case kv_transfer_params (ob r) of None \<Rightarrow> Inl AssertionError
     | Some ps \<Rightarrow> mc_add_new_req meta r ids ps) acc xs = Inr meta \<Longrightarrow> fst ` set meta = fst ` set acc \<union> fst ` set xs"
proof (induction xs arbitrary: acc)
  case (Cons x xs)
  obtain r ids where x: "x = (r, ids)" by fastforce
  then obtain ps acc' where "mc_add_new_req acc r ids ps = Inr acc'"
    "res_foldl (\<lambda>meta (r, ids). case kv_transfer_params (ob r) of None \<Rightarrow> Inl AssertionError
     | Some ps \<Rightarrow> mc_add_new_req meta r ids ps) acc' xs = Inr meta"
    using Cons.prems by (auto simp: res_elims split: option.splits)
  then show ?case using Cons.IH [of acc'] add_new_req_keys x by auto
qed simp

lemma build_keys: "mc_build_connector_meta s ob = Inr (s', meta) \<Longrightarrow> fst ` set meta = fst ` set (reqs_need_recv s)"
  unfolding mc_build_connector_meta_def res_elims by (elim exE conjE) (drule build_fold_keys, simp)

text \<open>The keys of the remote side that the update asks for.\<close>

definition remote_named :: "kv_params \<Rightarrow> bool" where
  "remote_named ps \<longleftrightarrow> ps ''remote_engine_id'' \<noteq> None \<and> ps ''remote_host'' \<noteq> None \<and> ps ''remote_port'' \<noteq> None"

text \<open>
  C19. Parameters that ask for a remote prefill and are incomplete: the whole prompt but its last token is
  announced as an asynchronous load whatever else they hold. When there are remote blocks but the remote
  engine, host or port is missing, the update only logs a warning: no worker is told to load
  the request and the request no longer asks for a transfer, so no transfer ever ends for it. The same happens
  without remote blocks when no external tokens are counted; when some are, as announced, the update raises
  an \<open>AssertionError\<close>. Only with remote blocks and all three keys is the request put down for a transfer.
\<close>

theorem mooncake_invalid_params_never_loaded:
  assumes "kv_transfer_params q = Some ps" "get_truthy ps ''do_remote_prefill''"
    "1 < length (prompt_token_ids q)" "request_id q \<notin> fst ` set (reqs_need_recv s)"
  shows "mc_get_num_new_matched_tokens s q 0 = Inr (int (length (prompt_token_ids q)) - 1, True) \<and>
    (if get_truthy ps ''remote_block_ids'' \<and> remote_named ps then
       \<exists>s1 q1. mc_update_state_after_alloc unhashed s q blocks n = Inr (s1, q1) \<and>
         request_id q \<in> fst ` set (reqs_need_recv s1)
     else if get_truthy ps ''remote_block_ids'' \<or> n = 0 then
       \<exists>q1. mc_update_state_after_alloc unhashed s q blocks n = Inr (s, q1) \<and>
         (\<forall>ob s' meta. mc_build_connector_meta s ob = Inr (s', meta) \<longrightarrow> request_id q \<notin> fst ` set meta) \<and>
         (\<forall>m. mc_get_num_new_matched_tokens s q1 m = Inr (0, False)) \<and>
         (\<forall>bs k. mc_update_state_after_alloc unhashed s q1 bs k = Inr (s, q1))
     else mc_update_state_after_alloc unhashed s q blocks n = Inl AssertionError)"
proof -
  let ?q1 = "q\<lparr>kv_transfer_params := Some (ps(''do_remote_prefill'' \<mapsto> PBool False))\<rparr>"
  have "mc_get_num_new_matched_tokens s q 0 = Inr (int (length (prompt_token_ids q)) - 1, True)"
    using assms by (simp add: mc_get_num_new_matched_tokens_def Let_def)
  moreover have "mc_update_state_after_alloc unhashed s q blocks n =
      (if get_truthy ps ''remote_block_ids'' \<and> remote_named ps
       then Inr (s\<lparr>reqs_need_recv := dict_set (request_id q) (if n > 0 then unhashed blocks else []) (reqs_need_recv s)\<rparr>, ?q1)
       else if get_truthy ps ''remote_block_ids'' \<or> n = 0 then Inr (s, ?q1) else Inl AssertionError)"
    using assms(1,2) by (simp add: mc_update_state_after_alloc_def remote_named_def py_assert_def)
  moreover have "request_id q \<in> fst ` set (dict_set (request_id q) ids (reqs_need_recv s))" for ids
    by (simp add: fst_set_dict_set)
  moreover have "request_id q \<notin> fst ` set meta" if "mc_build_connector_meta s ob = Inr (s', meta)" for ob s' meta
    using build_keys [OF that] assms(4) by simp
  moreover have "mc_get_num_new_matched_tokens s ?q1 m = Inr (0, False)" for m
    by (simp add: mc_get_num_new_matched_tokens_def get_truthy_def)
  moreover have "mc_update_state_after_alloc unhashed s ?q1 bs k = Inr (s, ?q1)" for bs k
    by (simp add: mc_update_state_after_alloc_def get_truthy_def)
  ultimately show ?thesis by simp
qed

theorem mooncake_invalid_params_never_loaded_witness:
  "let q = demo_d_request\<lparr>kv_transfer_params :=
       Some [''do_remote_prefill'' \<mapsto> PBool True, ''remote_block_ids'' \<mapsto> PInts [4]]\<rparr> in
   \<exists>q1. mc_update_state_after_alloc id demo_d_sched q [1] 2 = Inr (demo_d_sched, q1) \<and>
     (\<forall>m. mc_get_num_new_matched_tokens demo_d_sched q1 m = Inr (0, False))"
proof -
  let ?q = "demo_d_request\<lparr>kv_transfer_params := Some [''do_remote_prefill'' \<mapsto> PBool True, ''remote_block_ids'' \<mapsto> PInts [4]]\<rparr>"
  have "1 < length (prompt_token_ids ?q)" "request_id ?q \<notin> fst ` set (reqs_need_recv demo_d_sched)"
    by (simp_all add: demo_d_request_def demo_p_request_def demo_d_sched_def mc_sched_init_def)
  then show ?thesis
    using mooncake_invalid_params_never_loaded [of ?q _ demo_d_sched id "[1]" 2]
    by (auto simp: Let_def get_truthy_def remote_named_def)
qed

subsection \<open>Addressing the prefill workers\<close>

text \<open>What \<^verbatim>\<open>random.sample\<close> promises: as many different elements of the population as asked for.\<close>

definition sample_ok :: "mc_worker_env \<Rightarrow> bool" where
  "sample_ok env \<longleftrightarrow> (\<forall>seed xs n. 0 \<le> n \<longrightarrow> n \<le> int (length xs) \<longrightarrow> distinct xs \<longrightarrow>
     distinct (we_sample env seed xs n) \<and> length (we_sample env seed xs n) = nat n \<and> set (we_sample env seed xs n) \<subseteq> set xs)"

lemma remote_ranks:
  assumes "sample_ok env" "0 \<le> ps_decode_tp (mw_sizes w)" "ps_decode_tp (mw_sizes w) \<le> ps_prefill_tp (mw_sizes w)"
  shows "distinct (get_remote_tp_ranks_for_req env w r)"
    "length (get_remote_tp_ranks_for_req env w r) = nat (ps_decode_tp (mw_sizes w))"
    "set (get_remote_tp_ranks_for_req env w r) \<subseteq> {0..<ps_prefill_tp (mw_sizes w)}"
  using assms(1) [unfolded sample_ok_def, rule_format, of "ps_decode_tp (mw_sizes w)" "[0..ps_prefill_tp (mw_sizes w) - 1]"
      "string_to_int64_hash env r"] assms(2,3)
  by (auto simp: get_remote_tp_ranks_for_req_def Let_def split: if_splits)

lemma remote_rank_exists:
  assumes "sample_ok env" "0 \<le> mw_tp_rank w" "mw_tp_rank w < ps_decode_tp (mw_sizes w)"
    "ps_decode_tp (mw_sizes w) \<le> ps_prefill_tp (mw_sizes w)"
  shows "\<exists>k. get_remote_tp_rank env w r = Inr k \<and> 0 \<le> k \<and> k < ps_prefill_tp (mw_sizes w)"
proof -
  note rs = remote_ranks [OF assms(1) _ assms(4), of r]
  have "nat (mw_tp_rank w) < length (get_remote_tp_ranks_for_req env w r)" using rs(2) assms(2,3) by simp
  moreover from this have "get_remote_tp_ranks_for_req env w r ! nat (mw_tp_rank w) \<in> {0..<ps_prefill_tp (mw_sizes w)}"
    using rs(3) assms(2,3) nth_mem by (metis order.strict_trans1 less_imp_le subsetD)
  ultimately show ?thesis using assms(2) by (simp add: get_remote_tp_rank_def list_item_def)
qed

lemma remote_rank_inj:
  assumes "sample_ok env" "0 \<le> ps_decode_tp (mw_sizes w)" "ps_decode_tp (mw_sizes w) \<le> ps_prefill_tp (mw_sizes w)"
    "get_remote_tp_rank env w r = Inr k" "get_remote_tp_rank env (w\<lparr>mw_tp_rank := i\<rparr>) r = Inr k" "0 \<le> mw_tp_rank w" "0 \<le> i"
  shows "i = mw_tp_rank w"
proof -
  have same: "get_remote_tp_ranks_for_req env (w\<lparr>mw_tp_rank := i\<rparr>) r = get_remote_tp_ranks_for_req env w r"
    by (simp add: get_remote_tp_ranks_for_req_def)
  have "nat i = nat (mw_tp_rank w)"
    using assms(4-7) remote_ranks(1) [OF assms(1-3), of r]
    by (auto simp: get_remote_tp_rank_def same list_item_eq_Inr nth_eq_iff_index_eq)
  then show ?thesis using assms(6,7) by simp
qed

lemma worker_init_port:
  assumes "mc_worker_init env pre dec en ip role kv_port k tp dp devs = Inr w"
  shows "mw_handshake_port w = ms_side_channel_port (mc_sched_init en ip kv_port dp tp) + k \<and>
         mw_side_channel_host w = ms_side_channel_host (mc_sched_init en ip kv_port dp tp)"
  using assms by (auto simp: mc_worker_init_def res_elims mc_sched_init_def Let_def split: if_splits)

text \<open>
  A decode worker that is told to load a request whose metadata comes from the scheduler of a
  prefill engine queues one task for it, whose host and port are those on which the prefill worker of
  some rank listens; two decode workers never choose the same prefill rank for a request.
\<close>

theorem start_load_addresses_prefill_worker:
  assumes "sample_ok env" "mw_recv_thread w = Some rt" "0 \<le> mw_tp_rank w" "mw_tp_rank w < ps_decode_tp (mw_sizes w)"
    and "ps_decode_tp (mw_sizes w) \<le> ps_prefill_tp (mw_sizes w)"
    and "rm_remote_port m = ms_side_channel_port (mc_sched_init en ip kv_port dp tp)"
    and "rm_remote_host m = ms_side_channel_host (mc_sched_init en ip kv_port dp tp)"
  shows "\<exists>k tk. 0 \<le> k \<and> k < ps_prefill_tp (mw_sizes w) \<and>
    start_load_kv env w [(r, m)] = Inr (w\<lparr>mw_recv_thread := Some (add_request rt tk)\<rparr>) \<and>
    tk_request_id tk = r \<and> tk_local_block_ids tk = rm_local_block_ids m \<and> tk_remote_block_ids tk = rm_remote_block_ids m \<and>
    (\<forall>envp pre dec role devs wp. mc_worker_init envp pre dec en ip role kv_port k tp dp devs = Inr wp \<longrightarrow>
       tk_remote_handshake_port tk = mw_handshake_port wp \<and> tk_remote_host tk = mw_side_channel_host wp) \<and>
    (\<forall>i. 0 \<le> i \<longrightarrow> i \<noteq> mw_tp_rank w \<longrightarrow> get_remote_tp_rank env (w\<lparr>mw_tp_rank := i\<rparr>) r \<noteq> Inr k)"
proof -
  obtain k where k: "get_remote_tp_rank env w r = Inr k" "0 \<le> k" "k < ps_prefill_tp (mw_sizes w)"
    using remote_rank_exists [OF assms(1,3,4,5)] by blast
  let ?tk = "\<lparr>tk_request_id = r, tk_local_block_ids = rm_local_block_ids m,
                 tk_remote_block_ids = rm_remote_block_ids m, tk_remote_engine_id = rm_remote_engine_id m,
                 tk_remote_host = rm_remote_host m, tk_remote_handshake_port = rm_remote_port m + k\<rparr>"
  have "start_load_kv env w [(r, m)] = Inr (w\<lparr>mw_recv_thread := Some (add_request rt ?tk)\<rparr>)"
    using k(1) assms(2) by (simp add: start_load_kv_def start_load_one_def)
  moreover have "tk_remote_handshake_port ?tk = mw_handshake_port wp \<and> tk_remote_host ?tk = mw_side_channel_host wp"
    if "mc_worker_init envp pre dec en ip role kv_port k tp dp devs = Inr wp" for envp pre dec role devs wp
    using worker_init_port [OF that] assms(6,7) by simp
  moreover have "get_remote_tp_rank env (w\<lparr>mw_tp_rank := i\<rparr>) r \<noteq> Inr k" if "0 \<le> i" "i \<noteq> mw_tp_rank w" for i
    using remote_rank_inj [OF assms(1) _ assms(5) k(1) _ assms(3) that(1)] that(2) assms(3,4) by force
  ultimately show ?thesis using k(2,3) by (intro exI [of _ k] exI [of _ ?tk]) simp
qed

definition demo_worker_env :: mc_worker_env where
  "demo_worker_env = \<lparr>we_initialize = (\<lambda>_. 0), we_get_rpc_port = 9, we_register_memory = (\<lambda>_ _. 0),
     we_sample = (\<lambda>_ xs n. take (nat n) xs), we_sha256 = (\<lambda>_. [])\<rparr>"

definition demo_sizes :: parallel_sizes where
  "demo_sizes = \<lparr>ps_prefill_tp = 4, ps_prefill_dp = 1, ps_decode_tp = 2, ps_decode_dp = 1\<rparr>"

definition demo_d_worker :: mc_worker where
  "demo_d_worker = \<lparr>mw_sizes = demo_sizes, mw_engine_id = ''d'', mw_tp_rank = 1, mw_tp_size = 2, mw_dp_rank = 0,
     mw_kv_role = ''kv_consumer'', mw_side_channel_host = ''10.0.0.2'', mw_side_channel_port = 6000, mw_handshake_port = 6001,
     mw_device_id = 1, mw_te_rpc_port = 9, mw_use_mla = False, mw_num_blocks = 8, mw_block_len = [100], mw_registered = [],
     mw_send_thread = None, mw_recv_thread = Some (recv_thread_init 1 2 ''d'' 6001 [64] [100])\<rparr>"

theorem start_load_addresses_prefill_worker_witness:
  "sample_ok demo_worker_env \<and>
   (\<exists>w' k. start_load_kv demo_worker_env demo_d_worker [(''a'', \<lparr>rm_local_block_ids = [1, 2], rm_remote_block_ids = [4, 5],
      rm_remote_host = ''10.0.0.1'', rm_remote_port = 5004, rm_remote_engine_id = ''p''\<rparr>)] = Inr w' \<and> 0 \<le> k \<and> k < 4 \<and>
      (\<forall>i. 0 \<le> i \<longrightarrow> i \<noteq> 1 \<longrightarrow> get_remote_tp_rank demo_worker_env (demo_d_worker\<lparr>mw_tp_rank := i\<rparr>) ''a'' \<noteq> Inr k))"
proof -
  have ok: "sample_ok demo_worker_env"
    by (auto simp: sample_ok_def demo_worker_env_def dest: in_set_takeD)
  have w: "mw_recv_thread demo_d_worker = Some (recv_thread_init 1 2 ''d'' 6001 [64] [100])" "mw_tp_rank demo_d_worker = 1"
    "ps_decode_tp (mw_sizes demo_d_worker) = 2" "ps_prefill_tp (mw_sizes demo_d_worker) = 4"
    by (simp_all add: demo_d_worker_def demo_sizes_def)
  have p: "(5004 :: int) = ms_side_channel_port (mc_sched_init ''p'' ''10.0.0.1'' 5000 1 4)"
    "''10.0.0.1'' = ms_side_channel_host (mc_sched_init ''p'' ''10.0.0.1'' 5000 1 4)"
    by (simp_all add: mc_sched_init_def handshake_base_port_def)
  let ?m = "\<lparr>rm_local_block_ids = [1, 2], rm_remote_block_ids = [4, 5],
      rm_remote_host = ''10.0.0.1'', rm_remote_port = 5004, rm_remote_engine_id = ''p''\<rparr>"
  show ?thesis
    using start_load_addresses_prefill_worker [of demo_worker_env demo_d_worker _ ?m "''p''" "''10.0.0.1''" 5000 1 4 "''a''"]
      ok w p by (simp del: mc_sched.simps) metis
qed

end
