(* ===== verification/Input_Batch.thy ===== *)
theory Input_Batch
  imports Engine_Types
begin

section \<open>The persistent batch of the model runner\<close>

text \<open>
  \<^verbatim>\<open>vllm_ascend/worker/npu_input_batch.py\<close>: \<open>CachedRequestState\<close> and \<open>InputBatch\<close>, the arrays that hold one
  row per running request, with the operations that add, remove, swap and condense rows and the
  metadata made from them. The arrays on the host are lists of \<open>max_num_reqs\<close> entries; the
  tensors on the device are the fields \<open>dev_...\<close>. Objects that the batch only refers to (random generators,
  tensors of log probabilities) are numbers. The list of output tokens is the value it has when the
  request is added.

  Code of vLLM and the rounding to 32 bits are parameters: \<open>BatchUpdateBuilder\<close> is a record of its
  methods, the block table another, and the helpers \<^verbatim>\<open>swap_dict_values\<close>, \<^verbatim>\<open>copy_slice\<close> and
  \<^verbatim>\<open>is_spec_decode_unsupported\<close> are fields of \<open>batch_env\<close>.
\<close>

type_synonym object_ref = nat

record sampling_params =
  sp_greedy :: bool
  sp_temperature :: real
  sp_top_p :: real
  sp_top_k :: int
  sp_frequency_penalty :: real
  sp_presence_penalty :: real
  sp_repetition_penalty :: real
  sp_logprobs :: "int option"
  sp_prompt_logprobs :: "int option"
  sp_allowed_token_ids :: "int list option"
  sp_bad_words_token_ids :: "int list list option"

record pooling_params =
  requires_token_ids :: bool

record cached_request =
  cr_req_id :: rid
  cr_prompt_token_ids :: "int list"
  cr_sampling_params :: "sampling_params option"
  cr_pooling_params :: "pooling_params option"
  cr_generator :: "object_ref option"
  cr_block_ids :: "int list list"
  cr_num_computed_tokens :: int
  cr_output_token_ids :: "int list"
  cr_lora_request :: "lora_request option"

definition cr_num_prompt_tokens :: "cached_request \<Rightarrow> nat" where
  "cr_num_prompt_tokens q = length (cr_prompt_token_ids q)"

definition cr_num_tokens :: "cached_request \<Rightarrow> nat" where
  "cr_num_tokens q = cr_num_prompt_tokens q + length (cr_output_token_ids q)"

definition get_token_id :: "cached_request \<Rightarrow> int \<Rightarrow> int result" where
  "get_token_id q idx =
     (if idx < int (cr_num_prompt_tokens q) then list_item (cr_prompt_token_ids q) idx
      else list_item (cr_output_token_ids q) (idx - int (cr_num_prompt_tokens q)))"

datatype move_directionality = UNIDIRECTIONAL | SWAP

text \<open>\<open>bb_removed\<close> is the property \<^verbatim>\<open>removed\<close>.\<close>

record ('bb, 'up) builder_ops =
  bb_removed :: "'bb \<Rightarrow> nat list"
  bb_removed_append :: "'bb \<Rightarrow> nat \<Rightarrow> 'bb result"
  bb_pop_removed :: "'bb \<Rightarrow> nat option \<times> 'bb"
  bb_peek_removed :: "'bb \<Rightarrow> nat option"
  bb_added_append :: "'bb \<Rightarrow> nat \<times> sampling_params \<times> int list \<times> int list \<Rightarrow> 'bb"
  bb_moved_append :: "'bb \<Rightarrow> nat \<times> nat \<times> move_directionality \<Rightarrow> 'bb"
  bb_get_and_reset :: "'bb \<Rightarrow> nat \<Rightarrow> 'up option \<times> 'bb"

record 'bt table_ops =
  bt_add_row :: "'bt \<Rightarrow> int list list \<Rightarrow> nat \<Rightarrow> 'bt"
  bt_move_row :: "'bt \<Rightarrow> nat \<Rightarrow> nat \<Rightarrow> 'bt"
  bt_swap_row :: "'bt \<Rightarrow> nat \<Rightarrow> nat \<Rightarrow> 'bt"
  bt_row :: "'bt \<Rightarrow> nat \<Rightarrow> int list list"

record ('bb, 'up, 'bt, 'lp) batch_env =
  be_builder :: "('bb, 'up) builder_ops"
  be_table :: "'bt table_ops"
  be_unsupported :: "sampling_params \<Rightarrow> bool"
  be_f32 :: "real \<Rightarrow> real"
  be_swap_generators :: "(nat \<rightharpoonup> object_ref) \<Rightarrow> nat \<Rightarrow> nat \<Rightarrow> (nat \<rightharpoonup> object_ref)"
  be_swap_bad_words :: "(nat \<rightharpoonup> int list list) \<Rightarrow> nat \<Rightarrow> nat \<Rightarrow> (nat \<rightharpoonup> int list list)"
  be_copy_reals :: "real list \<Rightarrow> real list \<Rightarrow> nat \<Rightarrow> real list"
  be_copy_ints :: "int list \<Rightarrow> int list \<Rightarrow> nat \<Rightarrow> int list"
  be_copy_rows :: "bool list list \<Rightarrow> bool list list \<Rightarrow> nat \<Rightarrow> bool list list"
  be_update_state :: "'lp \<Rightarrow> 'up option \<Rightarrow> 'lp"

text \<open>
  The values that a \<^verbatim>\<open>SamplingMetadata\<close> object holds. Its fields \<^verbatim>\<open>generators\<close>, \<^verbatim>\<open>output_token_ids\<close>,
  \<^verbatim>\<open>bad_words_token_ids\<close> and \<^verbatim>\<open>logitsprocs\<close> are references to the batch's own objects, which every operation
  of the batch changes in place: they are not part of this record but read from the batch (\<open>sm_generators\<close> and
  the other functions below).
\<close>

record sampling_metadata =
  sm_temperature :: "real list option"
  sm_all_greedy :: bool
  sm_all_random :: bool
  sm_top_p :: "real list option"
  sm_top_k :: "int list option"
  sm_max_num_logprobs :: "int option"
  sm_prompt_token_ids :: "int list list option"
  sm_frequency_penalties :: "real list"
  sm_presence_penalties :: "real list"
  sm_repetition_penalties :: "real list"
  sm_no_penalties :: bool
  sm_allowed_token_ids_mask :: "bool list list option"

record ('bb, 'bt, 'lp) input_batch =
  is_pooling_model :: bool
  is_spec_decode :: bool
  max_num_reqs :: nat
  max_model_len :: nat
  vocab_size :: nat
  req_ids :: "rid option list"
  req_id_to_index :: "(rid \<times> nat) list"
  token_ids_cpu :: "int list list"
  ib_num_tokens :: "nat list"
  num_tokens_no_spec :: "nat list"
  ib_num_prompt_tokens :: "nat list"
  num_computed_tokens_cpu :: "int list"
  block_table :: 'bt
  temperature_cpu :: "real list"
  greedy_reqs :: "rid set"
  random_reqs :: "rid set"
  top_p_cpu :: "real list"
  top_p_reqs :: "rid set"
  top_k_cpu :: "int list"
  top_k_reqs :: "rid set"
  spec_decode_unsupported_reqs :: "rid set"
  frequency_penalties_cpu :: "real list"
  frequency_penalties_reqs :: "rid set"
  presence_penalties_cpu :: "real list"
  presence_penalties_reqs :: "rid set"
  repetition_penalties_cpu :: "real list"
  repetition_penalties_reqs :: "rid set"
  request_lora_mapping :: "int list"
  lora_id_to_request_ids :: "int \<rightharpoonup> rid set"
  lora_id_to_lora_request :: "(int \<times> lora_request) list"
  generators :: "nat \<rightharpoonup> object_ref"
  num_logprobs :: "(rid \<times> int) list"
  num_prompt_logprobs :: "(rid \<times> int) list"
  in_progress_prompt_logprobs_cpu :: "rid \<rightharpoonup> object_ref"
  batch_update_builder :: 'bb
  has_allowed_token_ids :: "rid set"
  allowed_token_ids_mask_cpu_tensor :: "bool list list option"
  bad_words_token_ids :: "nat \<rightharpoonup> int list list"
  logits_processing_needs_token_ids :: "bool list"
  req_output_token_ids :: "int list option list"
  ib_logitsprocs :: "'lp list"
  ib_pooling_params :: "(rid \<times> pooling_params) list"
  dev_temperature :: "real list"
  dev_top_p :: "real list"
  dev_top_k :: "int list"
  dev_frequency_penalties :: "real list"
  dev_presence_penalties :: "real list"
  dev_repetition_penalties :: "real list"
  dev_allowed_token_ids_mask :: "bool list list option"
  ib_sampling_metadata :: sampling_metadata

subsection \<open>Properties of the batch\<close>

definition num_reqs :: "('bb, 'bt, 'lp) input_batch \<Rightarrow> nat" where
  "num_reqs B = length (req_id_to_index B)"

definition all_greedy :: "('bb, 'bt, 'lp) input_batch \<Rightarrow> bool" where
  "all_greedy B \<longleftrightarrow> random_reqs B = {}"

definition all_random :: "('bb, 'bt, 'lp) input_batch \<Rightarrow> bool" where
  "all_random B \<longleftrightarrow> greedy_reqs B = {}"

definition no_top_p :: "('bb, 'bt, 'lp) input_batch \<Rightarrow> bool" where
  "no_top_p B \<longleftrightarrow> top_p_reqs B = {}"

definition no_top_k :: "('bb, 'bt, 'lp) input_batch \<Rightarrow> bool" where
  "no_top_k B \<longleftrightarrow> top_k_reqs B = {}"

definition no_penalties :: "('bb, 'bt, 'lp) input_batch \<Rightarrow> bool" where
  "no_penalties B \<longleftrightarrow>
     presence_penalties_reqs B = {} \<and> frequency_penalties_reqs B = {} \<and> repetition_penalties_reqs B = {}"

definition max_num_logprobs :: "('bb, 'bt, 'lp) input_batch \<Rightarrow> int option" where
  "max_num_logprobs B =
     (case num_logprobs B of [] \<Rightarrow> None | kv # kvs \<Rightarrow> Some (foldl max (snd kv) (map snd kvs)))"

definition no_prompt_logprob :: "('bb, 'bt, 'lp) input_batch \<Rightarrow> bool" where
  "no_prompt_logprob B \<longleftrightarrow> num_prompt_logprobs B = []"

definition no_allowed_token_ids :: "('bb, 'bt, 'lp) input_batch \<Rightarrow> bool" where
  "no_allowed_token_ids B \<longleftrightarrow> has_allowed_token_ids B = {}"

subsection \<open>Metadata\<close>

text \<open>The prompts of the batch, padded with \<open>vocab_size\<close>; the maximum of an empty array raises.\<close>

definition make_prompt_token_ids_tensor :: "('bb, 'bt, 'lp) input_batch \<Rightarrow> int list list result" where
  "make_prompt_token_ids_tensor B =
     (let lens = take (num_reqs B) (ib_num_prompt_tokens B) in
      if lens = [] then Inl ValueError
      else
        let max_prompt_len = Max (set lens)
        in Inr (map (\<lambda>(n, row). take n (take max_prompt_len row)
                       @ replicate (length (take max_prompt_len row) - n) (int (vocab_size B)))
                  (zip lens (take (num_reqs B) (token_ids_cpu B)))))"

text \<open>
  \<^verbatim>\<open>_make_sampling_metadata\<close> copies what is needed to the device and makes the metadata from the
  device tensors.
\<close>

definition sync_device ::
  "('bb, 'up, 'bt, 'lp) batch_env \<Rightarrow> ('bb, 'bt, 'lp) input_batch \<Rightarrow> ('bb, 'bt, 'lp) input_batch" where
  "sync_device env B =
     (let n = num_reqs B; pen = \<not> no_penalties B in
      B\<lparr>dev_temperature := (if all_greedy B then dev_temperature B
                            else be_copy_reals env (temperature_cpu B) (dev_temperature B) n),
        dev_top_p := (if no_top_p B then dev_top_p B else be_copy_reals env (top_p_cpu B) (dev_top_p B) n),
        dev_top_k := (if no_top_k B then dev_top_k B else be_copy_ints env (top_k_cpu B) (dev_top_k B) n),
        dev_frequency_penalties := (if pen then be_copy_reals env (frequency_penalties_cpu B) (dev_frequency_penalties B) n
                                    else dev_frequency_penalties B),
        dev_presence_penalties := (if pen then be_copy_reals env (presence_penalties_cpu B) (dev_presence_penalties B) n
                                   else dev_presence_penalties B),
        dev_repetition_penalties := (if pen then be_copy_reals env (repetition_penalties_cpu B) (dev_repetition_penalties B) n
                                     else dev_repetition_penalties B)\<rparr>)"

definition make_sampling_metadata ::
  "('bb, 'up, 'bt, 'lp) batch_env \<Rightarrow> ('bb, 'bt, 'lp) input_batch \<Rightarrow> (('bb, 'bt, 'lp) input_batch \<times> sampling_metadata) result" where
  "make_sampling_metadata env B =
     (let n = num_reqs B;
          B1 = sync_device env B;
          needs_prompt_token_ids = (\<not> no_penalties B \<or> (\<exists>b \<in> set (take n (logits_processing_needs_token_ids B)). b))
      in
      res_bind (if needs_prompt_token_ids then res_bind (make_prompt_token_ids_tensor B1) (\<lambda>t. Inr (Some t)) else Inr None)
        (\<lambda>prompt_token_ids.
      res_bind
        (if no_allowed_token_ids B then Inr (B1, None)
         else
           (case (allowed_token_ids_mask_cpu_tensor B1, dev_allowed_token_ids_mask B1) of
              (Some m, Some d) \<Rightarrow>
                let d' = be_copy_rows env m d n in Inr (B1\<lparr>dev_allowed_token_ids_mask := Some d'\<rparr>, Some (take n d'))
            | _ \<Rightarrow> Inl AssertionError))
        (\<lambda>(B2, mask).
      Inr (B2, \<lparr>sm_temperature = (if all_greedy B then None else Some (take n (dev_temperature B2))),
                sm_all_greedy = all_greedy B, sm_all_random = all_random B,
                sm_top_p = (if no_top_p B then None else Some (take n (dev_top_p B2))),
                sm_top_k = (if no_top_k B then None else Some (take n (dev_top_k B2))),
                sm_max_num_logprobs = max_num_logprobs B,
                sm_prompt_token_ids = prompt_token_ids,
                sm_frequency_penalties = take n (dev_frequency_penalties B2),
                sm_presence_penalties = take n (dev_presence_penalties B2),
                sm_repetition_penalties = take n (dev_repetition_penalties B2),
                sm_no_penalties = no_penalties B,
                sm_allowed_token_ids_mask = mask\<rparr>))))"

text \<open>What the sampler reads through the references of the metadata of a batch, at the moment it reads.\<close>

definition sm_generators :: "('bb, 'bt, 'lp) input_batch \<Rightarrow> nat \<rightharpoonup> object_ref" where
  "sm_generators B = generators B"

definition sm_output_token_ids :: "('bb, 'bt, 'lp) input_batch \<Rightarrow> int list option list" where
  "sm_output_token_ids B = req_output_token_ids B"

definition sm_bad_words_token_ids :: "('bb, 'bt, 'lp) input_batch \<Rightarrow> nat \<rightharpoonup> int list list" where
  "sm_bad_words_token_ids B = bad_words_token_ids B"

definition refresh_metadata ::
  "('bb, 'up, 'bt, 'lp) batch_env \<Rightarrow> ('bb, 'bt, 'lp) input_batch \<Rightarrow> ('bb, 'bt, 'lp) input_batch result" where
  "refresh_metadata env B =
     (if is_pooling_model B then
        res_bind (make_sampling_metadata env B) (\<lambda>(B', m). Inr (B'\<lparr>ib_sampling_metadata := m\<rparr>))
      else
        let (batch_update, bb) = bb_get_and_reset (be_builder env) (batch_update_builder B) (num_reqs B);
            B1 = B\<lparr>batch_update_builder := bb,
                   ib_logitsprocs := map (\<lambda>p. be_update_state env p batch_update) (ib_logitsprocs B)\<rparr>
        in if batch_update \<noteq> None then
             res_bind (make_sampling_metadata env B1) (\<lambda>(B', m). Inr (B'\<lparr>ib_sampling_metadata := m\<rparr>))
           else Inr B1)"

text \<open>\<^verbatim>\<open>pooling_metadata\<close>: the prompt lengths, the prompts and the parameters of the requests in batch order.\<close>

definition pooling_metadata ::
  "('bb, 'bt, 'lp) input_batch \<Rightarrow> (nat list \<times> int list list option \<times> pooling_params list) result" where
  "pooling_metadata B =
     res_bind
       (if ib_pooling_params B = [] then Inr []
        else
          res_bind (py_assert (length (req_ids B) = length (ib_pooling_params B))) (\<lambda>_.
            res_map (\<lambda>r. case r of None \<Rightarrow> Inl KeyError | Some r \<Rightarrow> dict_item (ib_pooling_params B) r) (req_ids B)))
       (\<lambda>ps. Inr (take (num_reqs B) (ib_num_prompt_tokens B), sm_prompt_token_ids (ib_sampling_metadata B), ps))"

definition make_lora_inputs ::
  "('bb, 'bt, 'lp) input_batch \<Rightarrow> nat list \<Rightarrow> (int list \<times> int list \<times> lora_request set) result" where
  "make_lora_inputs B num_scheduled_tokens =
     (let req_lora_mapping = take (num_reqs B) (request_lora_mapping B) in
      if length num_scheduled_tokens = length req_lora_mapping then
        Inr (req_lora_mapping, concat (map2 (\<lambda>l n. replicate n l) req_lora_mapping num_scheduled_tokens),
             snd ` set (lora_id_to_lora_request B))
      else if length num_scheduled_tokens = 1 then
        Inr (req_lora_mapping, concat (map (replicate (hd num_scheduled_tokens)) req_lora_mapping),
             snd ` set (lora_id_to_lora_request B))
      else Inl ValueError)"

subsection \<open>Creation\<close>

text \<open>\<open>junk\<close> is what \<^verbatim>\<open>torch.empty\<close> finds in memory, by tensor and position.\<close>

definition empty_metadata :: sampling_metadata where
  "empty_metadata =
     \<lparr>sm_temperature = None, sm_all_greedy = True, sm_all_random = True, sm_top_p = None, sm_top_k = None,
      sm_max_num_logprobs = None, sm_prompt_token_ids = None, sm_frequency_penalties = [],
      sm_presence_penalties = [], sm_repetition_penalties = [], sm_no_penalties = True,
      sm_allowed_token_ids_mask = None\<rparr>"

definition input_batch_init ::
  "(string \<Rightarrow> nat \<Rightarrow> real) \<Rightarrow> (string \<Rightarrow> nat \<Rightarrow> int) \<Rightarrow> nat \<Rightarrow> nat \<Rightarrow> nat \<Rightarrow> 'bt \<Rightarrow> 'bb \<Rightarrow> 'lp list \<Rightarrow> bool \<Rightarrow> bool \<Rightarrow>
   ('bb, 'bt, 'lp) input_batch" where
  "input_batch_init junk ijunk n len vocab bt bb logitsprocs spec_decode pooling_model =
     \<lparr>is_pooling_model = pooling_model, is_spec_decode = spec_decode, max_num_reqs = n, max_model_len = len,
      vocab_size = vocab, req_ids = [], req_id_to_index = [], token_ids_cpu = replicate n (replicate len 0),
      ib_num_tokens = replicate n 0, num_tokens_no_spec = replicate n 0, ib_num_prompt_tokens = replicate n 0,
      num_computed_tokens_cpu = replicate n 0, block_table = bt,
      temperature_cpu = map (junk ''temperature_cpu'') [0..<n], greedy_reqs = {}, random_reqs = {},
      top_p_cpu = map (junk ''top_p_cpu'') [0..<n], top_p_reqs = {},
      top_k_cpu = map (ijunk ''top_k_cpu'') [0..<n], top_k_reqs = {}, spec_decode_unsupported_reqs = {},
      frequency_penalties_cpu = map (junk ''frequency_penalties_cpu'') [0..<n], frequency_penalties_reqs = {},
      presence_penalties_cpu = map (junk ''presence_penalties_cpu'') [0..<n], presence_penalties_reqs = {},
      repetition_penalties_cpu = map (junk ''repetition_penalties_cpu'') [0..<n], repetition_penalties_reqs = {},
      request_lora_mapping = replicate n 0, lora_id_to_request_ids = Map.empty, lora_id_to_lora_request = [],
      generators = Map.empty, num_logprobs = [], num_prompt_logprobs = [], in_progress_prompt_logprobs_cpu = Map.empty,
      batch_update_builder = bb, has_allowed_token_ids = {}, allowed_token_ids_mask_cpu_tensor = None,
      bad_words_token_ids = Map.empty, logits_processing_needs_token_ids = replicate n False, req_output_token_ids = [],
      ib_logitsprocs = logitsprocs, ib_pooling_params = [],
      dev_temperature = map (junk ''temperature'') [0..<n], dev_top_p = map (junk ''top_p'') [0..<n],
      dev_top_k = map (ijunk ''top_k'') [0..<n],
      dev_frequency_penalties = map (junk ''frequency_penalties'') [0..<n],
      dev_presence_penalties = map (junk ''presence_penalties'') [0..<n],
      dev_repetition_penalties = map (junk ''repetition_penalties'') [0..<n],
      dev_allowed_token_ids_mask = None, ib_sampling_metadata = empty_metadata\<rparr>"

subsection \<open>Adding a request\<close>

definition register_add_request ::
  "('bb, 'up, 'bt, 'lp) batch_env \<Rightarrow> ('bb, 'bt, 'lp) input_batch \<Rightarrow> cached_request \<Rightarrow> (nat \<times> ('bb, 'bt, 'lp) input_batch) result" where
  "register_add_request env B q =
     (case cr_sampling_params q of
        None \<Rightarrow> Inl AssertionError
      | Some sp \<Rightarrow>
          let (popped, bb) = bb_pop_removed (be_builder env) (batch_update_builder B);
              new_req_index = (case popped of None \<Rightarrow> num_reqs B | Some i \<Rightarrow> i)
          in res_bind (py_assert (new_req_index < max_num_reqs B)) (\<lambda>_.
               Inr (new_req_index,
                    B\<lparr>batch_update_builder := bb_added_append (be_builder env) bb
                        (new_req_index, sp, cr_prompt_token_ids q, cr_output_token_ids q)\<rparr>)))"

text \<open>\<^verbatim>\<open>row[a:b] = vals\<close> of NumPy: the lengths agree, or a single value is repeated.\<close>

definition np_assign :: "'a list \<Rightarrow> nat \<Rightarrow> nat \<Rightarrow> 'a list \<Rightarrow> 'a list result" where
  "np_assign row a b vals =
     (let w = length (slice a b row) in
      if length vals = w then Inr (take a row @ vals @ drop (a + w) row)
      else if length vals = 1 then Inr (take a row @ replicate w (hd vals) @ drop (a + w) row)
      else Inl ValueError)"

definition place_request ::
  "('bb, 'bt, 'lp) input_batch \<Rightarrow> cached_request \<Rightarrow> nat \<Rightarrow> ('bb, 'bt, 'lp) input_batch result" where
  "place_request B q i =
     (if i = length (req_ids B) then
        Inr (B\<lparr>req_ids := req_ids B @ [Some (cr_req_id q)],
               req_output_token_ids := req_output_token_ids B @ [Some (cr_output_token_ids q)],
               req_id_to_index := dict_set (cr_req_id q) i (req_id_to_index B)\<rparr>)
      else if i < length (req_ids B) \<and> i < length (req_output_token_ids B) then
        Inr (B\<lparr>req_ids := (req_ids B)[i := Some (cr_req_id q)],
               req_output_token_ids := (req_output_token_ids B)[i := Some (cr_output_token_ids q)],
               req_id_to_index := dict_set (cr_req_id q) i (req_id_to_index B)\<rparr>)
      else Inl IndexError)"

text \<open>All arrays have \<open>max_num_reqs\<close> rows, so the first assignment is the one that can raise \<open>IndexError\<close>.\<close>

definition copy_tokens ::
  "('bb, 'up, 'bt, 'lp) batch_env \<Rightarrow> ('bb, 'bt, 'lp) input_batch \<Rightarrow> cached_request \<Rightarrow> nat \<Rightarrow> ('bb, 'bt, 'lp) input_batch result" where
  "copy_tokens env B q i =
     (if length (ib_num_prompt_tokens B) \<le> i then Inl IndexError
      else
        let start_idx = cr_num_prompt_tokens q; end_idx = start_idx + length (cr_output_token_ids q) in
        res_bind (np_assign (token_ids_cpu B ! i) 0 start_idx (cr_prompt_token_ids q)) (\<lambda>row.
        res_bind (np_assign row start_idx end_idx (cr_output_token_ids q)) (\<lambda>row'.
        Inr (B\<lparr>ib_num_prompt_tokens := (ib_num_prompt_tokens B)[i := start_idx],
               token_ids_cpu := (token_ids_cpu B)[i := row'],
               ib_num_tokens := (ib_num_tokens B)[i := cr_num_tokens q],
               num_tokens_no_spec := (num_tokens_no_spec B)[i := cr_num_tokens q],
               num_computed_tokens_cpu := (num_computed_tokens_cpu B)[i := cr_num_computed_tokens q],
               block_table := bt_add_row (be_table env) (block_table B) (cr_block_ids q) i\<rparr>))))"

text \<open>
  A mask row is \<open>True\<close> where a token is forbidden; indexing with a list accepts negative ids.
\<close>

definition mask_row :: "nat \<Rightarrow> int list \<Rightarrow> bool list result" where
  "mask_row vocab ids =
     (if list_all (\<lambda>t. - int vocab \<le> t \<and> t < int vocab) ids then
        Inr (map (\<lambda>j. int j \<notin> set ids \<and> int j - int vocab \<notin> set ids) [0..<vocab])
      else Inl IndexError)"

definition add_allowed ::
  "('bb, 'bt, 'lp) input_batch \<Rightarrow> rid \<Rightarrow> nat \<Rightarrow> int list option \<Rightarrow> ('bb, 'bt, 'lp) input_batch result" where
  "add_allowed B r i allowed =
     (case allowed of
        None \<Rightarrow> Inr B
      | Some ids \<Rightarrow>
          if ids = [] then Inr B
          else
            let zeros = replicate (max_num_reqs B) (replicate (vocab_size B) False);
                B1 = (case allowed_token_ids_mask_cpu_tensor B of
                        None \<Rightarrow> B\<lparr>dev_allowed_token_ids_mask := Some zeros, allowed_token_ids_mask_cpu_tensor := Some zeros\<rparr>
                      | Some _ \<Rightarrow> B)
            in res_bind (mask_row (vocab_size B) ids) (\<lambda>row.
                 Inr (B1\<lparr>has_allowed_token_ids := insert r (has_allowed_token_ids B),
                         allowed_token_ids_mask_cpu_tensor :=
                           map_option (\<lambda>m. m[i := row]) (allowed_token_ids_mask_cpu_tensor B1)\<rparr>)))"

definition insert_if :: "bool \<Rightarrow> 'a \<Rightarrow> 'a set \<Rightarrow> 'a set" where
  "insert_if b x s = (if b then insert x s else s)"

definition set_sampling ::
  "('bb, 'up, 'bt, 'lp) batch_env \<Rightarrow> ('bb, 'bt, 'lp) input_batch \<Rightarrow> cached_request \<Rightarrow> nat \<Rightarrow> sampling_params \<Rightarrow>
   ('bb, 'bt, 'lp) input_batch" where
  "set_sampling env B q i sp =
     (let r = cr_req_id q; f32 = be_f32 env; k_used = (0 < sp_top_k sp \<and> sp_top_k sp < int (vocab_size B)) in
      B\<lparr>spec_decode_unsupported_reqs :=
          insert_if (is_spec_decode B \<and> be_unsupported env sp) r (spec_decode_unsupported_reqs B),
        temperature_cpu := (temperature_cpu B)[i := if sp_greedy sp then - 1 else f32 (sp_temperature sp)],
        greedy_reqs := insert_if (sp_greedy sp) r (greedy_reqs B),
        random_reqs := insert_if (\<not> sp_greedy sp) r (random_reqs B),
        top_p_cpu := (top_p_cpu B)[i := f32 (sp_top_p sp)],
        top_p_reqs := insert_if (sp_top_p sp < 1) r (top_p_reqs B),
        top_k_reqs := insert_if k_used r (top_k_reqs B),
        top_k_cpu := (top_k_cpu B)[i := if k_used then sp_top_k sp else int (vocab_size B)],
        frequency_penalties_cpu := (frequency_penalties_cpu B)[i := f32 (sp_frequency_penalty sp)],
        frequency_penalties_reqs := insert_if (sp_frequency_penalty sp \<noteq> 0) r (frequency_penalties_reqs B),
        presence_penalties_cpu := (presence_penalties_cpu B)[i := f32 (sp_presence_penalty sp)],
        presence_penalties_reqs := insert_if (sp_presence_penalty sp \<noteq> 0) r (presence_penalties_reqs B),
        repetition_penalties_cpu := (repetition_penalties_cpu B)[i := f32 (sp_repetition_penalty sp)],
        repetition_penalties_reqs := insert_if (sp_repetition_penalty sp \<noteq> 1) r (repetition_penalties_reqs B),
        generators := (case cr_generator q of None \<Rightarrow> generators B | Some g \<Rightarrow> (generators B)(i \<mapsto> g)),
        num_logprobs := (case sp_logprobs sp of
                           None \<Rightarrow> num_logprobs B
                         | Some k \<Rightarrow> dict_set r (if k = - 1 then int (vocab_size B) else k) (num_logprobs B)),
        num_prompt_logprobs := (case sp_prompt_logprobs sp of
                                  None \<Rightarrow> num_prompt_logprobs B
                                | Some k \<Rightarrow> dict_set r k (num_prompt_logprobs B))\<rparr>)"

definition add_bad_words ::
  "('bb, 'bt, 'lp) input_batch \<Rightarrow> nat \<Rightarrow> int list list option \<Rightarrow> ('bb, 'bt, 'lp) input_batch" where
  "add_bad_words B i words =
     (case words of
        None \<Rightarrow> B
      | Some ws \<Rightarrow> if ws = [] then B else B\<lparr>bad_words_token_ids := (bad_words_token_ids B)(i \<mapsto> ws)\<rparr>)"

definition add_params ::
  "('bb, 'up, 'bt, 'lp) batch_env \<Rightarrow> ('bb, 'bt, 'lp) input_batch \<Rightarrow> cached_request \<Rightarrow> nat \<Rightarrow> ('bb, 'bt, 'lp) input_batch result" where
  "add_params env B q i =
     (case cr_sampling_params q of
        Some sp \<Rightarrow>
          res_bind (add_allowed (set_sampling env B q i sp) (cr_req_id q) i (sp_allowed_token_ids sp)) (\<lambda>B1.
          Inr (add_bad_words B1 i (sp_bad_words_token_ids sp)))
      | None \<Rightarrow>
          (case cr_pooling_params q of
             Some pp \<Rightarrow>
               Inr (B\<lparr>ib_pooling_params := dict_set (cr_req_id q) pp (ib_pooling_params B),
                      logits_processing_needs_token_ids :=
                        (logits_processing_needs_token_ids B)[i := requires_token_ids pp]\<rparr>)
           | None \<Rightarrow> Inl NotImplementedError))"

definition add_lora ::
  "('bb, 'bt, 'lp) input_batch \<Rightarrow> cached_request \<Rightarrow> nat \<Rightarrow> ('bb, 'bt, 'lp) input_batch" where
  "add_lora B q i =
     (case cr_lora_request q of
        None \<Rightarrow> B\<lparr>request_lora_mapping := (request_lora_mapping B)[i := 0]\<rparr>
      | Some l \<Rightarrow>
          let k = lora_int_id l;
              ids = (case lora_id_to_request_ids B k of None \<Rightarrow> {} | Some rs \<Rightarrow> rs)
          in B\<lparr>request_lora_mapping := (request_lora_mapping B)[i := k],
               lora_id_to_request_ids := (lora_id_to_request_ids B)(k \<mapsto> insert (cr_req_id q) ids),
               lora_id_to_lora_request := dict_set k l (lora_id_to_lora_request B)\<rparr>)"

definition ib_add_request ::
  "('bb, 'up, 'bt, 'lp) batch_env \<Rightarrow> ('bb, 'bt, 'lp) input_batch \<Rightarrow> cached_request \<Rightarrow> (nat \<times> ('bb, 'bt, 'lp) input_batch) result" where
  "ib_add_request env B q =
     res_bind (if is_pooling_model B then Inr (num_reqs B, B) else register_add_request env B q) (\<lambda>(i, B1).
     res_bind (place_request B1 q i) (\<lambda>B2.
     res_bind (copy_tokens env B2 q i) (\<lambda>B3.
     res_bind (add_params env B3 q i) (\<lambda>B4.
     Inr (i, add_lora B4 q i)))))"

subsection \<open>Removing a request\<close>

definition remove_lora ::
  "('bb, 'bt, 'lp) input_batch \<Rightarrow> rid \<Rightarrow> nat \<Rightarrow> ('bb, 'bt, 'lp) input_batch result" where
  "remove_lora B r i =
     (let k = request_lora_mapping B ! i in
      if k = 0 then Inr B
      else
        res_bind (map_item (lora_id_to_request_ids B) k) (\<lambda>rs.
          if rs - {r} = {} then
            if map_of (lora_id_to_lora_request B) k = None then Inl KeyError
            else
              Inr (B\<lparr>lora_id_to_request_ids := (lora_id_to_request_ids B)(k := None),
                     lora_id_to_lora_request := dict_pop k (lora_id_to_lora_request B),
                     request_lora_mapping := (request_lora_mapping B)[i := 0]\<rparr>)
          else
            Inr (B\<lparr>lora_id_to_request_ids := (lora_id_to_request_ids B)(k \<mapsto> rs - {r}),
                   request_lora_mapping := (request_lora_mapping B)[i := 0]\<rparr>)))"

definition clear_request ::
  "('bb, 'bt, 'lp) input_batch \<Rightarrow> rid \<Rightarrow> nat \<Rightarrow> ('bb, 'bt, 'lp) input_batch" where
  "clear_request B r i =
     B\<lparr>req_id_to_index := dict_pop r (req_id_to_index B),
       req_ids := (req_ids B)[i := None], req_output_token_ids := (req_output_token_ids B)[i := None],
       greedy_reqs := greedy_reqs B - {r}, random_reqs := random_reqs B - {r}, top_p_reqs := top_p_reqs B - {r},
       top_k_reqs := top_k_reqs B - {r}, spec_decode_unsupported_reqs := spec_decode_unsupported_reqs B - {r},
       frequency_penalties_reqs := frequency_penalties_reqs B - {r},
       presence_penalties_reqs := presence_penalties_reqs B - {r},
       repetition_penalties_reqs := repetition_penalties_reqs B - {r},
       generators := (generators B)(i := None), num_logprobs := dict_pop r (num_logprobs B),
       num_prompt_logprobs := dict_pop r (num_prompt_logprobs B),
       in_progress_prompt_logprobs_cpu := (in_progress_prompt_logprobs_cpu B)(r := None)\<rparr>"

definition ib_remove_request ::
  "('bb, 'up, 'bt, 'lp) batch_env \<Rightarrow> ('bb, 'bt, 'lp) input_batch \<Rightarrow> rid \<Rightarrow> (nat option \<times> ('bb, 'bt, 'lp) input_batch) result" where
  "ib_remove_request env B r =
     (case map_of (req_id_to_index B) r of
        None \<Rightarrow> Inr (None, B)
      | Some i \<Rightarrow>
          res_bind (if is_pooling_model B then Inr B
                    else res_bind (bb_removed_append (be_builder env) (batch_update_builder B) i)
                           (\<lambda>bb. Inr (B\<lparr>batch_update_builder := bb\<rparr>))) (\<lambda>B1.
          res_bind (if length (req_ids B) \<le> i then Inl IndexError else Inr (clear_request B1 r i)) (\<lambda>B2.
          res_bind (remove_lora B2 r i) (\<lambda>B3.
          Inr (Some i,
               B3\<lparr>has_allowed_token_ids := has_allowed_token_ids B3 - {r},
                  allowed_token_ids_mask_cpu_tensor :=
                    map_option (\<lambda>m. m[i := replicate (vocab_size B) False]) (allowed_token_ids_mask_cpu_tensor B3),
                  bad_words_token_ids := (bad_words_token_ids B3)(i := None),
                  ib_pooling_params := dict_pop r (ib_pooling_params B3)\<rparr>)))))"

subsection \<open>Swapping two rows\<close>

definition list_swap :: "'a list \<Rightarrow> nat \<Rightarrow> nat \<Rightarrow> 'a list" where
  "list_swap xs i j = xs[i := xs ! j, j := xs ! i]"

text \<open>
  The mask is a two-dimensional tensor: both sides of the parallel assignment are views, so the
  second assignment reads the row that the first one has just overwritten.
\<close>

definition swap_rows_by_view :: "'a list \<Rightarrow> nat \<Rightarrow> nat \<Rightarrow> 'a list" where
  "swap_rows_by_view m i j = (let m1 = m[i := m ! j] in m1[j := m1 ! i])"

definition swap_arrays ::
  "('bb, 'up, 'bt, 'lp) batch_env \<Rightarrow> ('bb, 'bt, 'lp) input_batch \<Rightarrow> nat \<Rightarrow> nat \<Rightarrow> ('bb, 'bt, 'lp) input_batch" where
  "swap_arrays env B i1 i2 =
     B\<lparr>ib_num_tokens := list_swap (ib_num_tokens B) i1 i2,
       num_tokens_no_spec := list_swap (num_tokens_no_spec B) i1 i2,
       ib_num_prompt_tokens := list_swap (ib_num_prompt_tokens B) i1 i2,
       num_computed_tokens_cpu := list_swap (num_computed_tokens_cpu B) i1 i2,
       temperature_cpu := list_swap (temperature_cpu B) i1 i2, top_p_cpu := list_swap (top_p_cpu B) i1 i2,
       top_k_cpu := list_swap (top_k_cpu B) i1 i2,
       frequency_penalties_cpu := list_swap (frequency_penalties_cpu B) i1 i2,
       presence_penalties_cpu := list_swap (presence_penalties_cpu B) i1 i2,
       repetition_penalties_cpu := list_swap (repetition_penalties_cpu B) i1 i2,
       token_ids_cpu := list_swap (token_ids_cpu B) i1 i2,
       generators := be_swap_generators env (generators B) i1 i2,
       bad_words_token_ids := be_swap_bad_words env (bad_words_token_ids B) i1 i2,
       request_lora_mapping := list_swap (request_lora_mapping B) i1 i2,
       allowed_token_ids_mask_cpu_tensor :=
         map_option (\<lambda>m. swap_rows_by_view m i1 i2) (allowed_token_ids_mask_cpu_tensor B),
       block_table := bt_swap_row (be_table env) (block_table B) i1 i2\<rparr>"

definition swap_states ::
  "('bb, 'up, 'bt, 'lp) batch_env \<Rightarrow> ('bb, 'bt, 'lp) input_batch \<Rightarrow> nat \<Rightarrow> nat \<Rightarrow> ('bb, 'bt, 'lp) input_batch result" where
  "swap_states env B i1 i2 =
     (if length (req_ids B) \<le> i1 \<or> length (req_ids B) \<le> i2 then Inl IndexError
      else
        (case (req_ids B ! i1, req_ids B ! i2) of
           (Some r1, Some r2) \<Rightarrow>
             res_bind (dict_item (req_id_to_index B) r2) (\<lambda>k2.
             res_bind (dict_item (req_id_to_index B) r1) (\<lambda>k1.
             Inr (swap_arrays env
                    (B\<lparr>batch_update_builder := bb_moved_append (be_builder env) (batch_update_builder B) (i1, i2, SWAP),
                       req_ids := list_swap (req_ids B) i1 i2,
                       req_output_token_ids := list_swap (req_output_token_ids B) i1 i2,
                       req_id_to_index := dict_set r2 k1 (dict_set r1 k2 (req_id_to_index B))\<rparr>) i1 i2)))
         | _ \<Rightarrow> Inl AssertionError))"

subsection \<open>Condensing the batch\<close>

function skip_empty :: "nat list \<Rightarrow> int \<Rightarrow> int" where
  "skip_empty removed last_idx =
     (if last_idx \<in> int ` set removed then skip_empty removed (last_idx - 1) else last_idx)"
  by auto

termination
  by (relation "measure (\<lambda>(removed, n). card {x \<in> set removed. int x \<le> n})")
    (auto intro!: psubset_card_mono)

declare skip_empty.simps [simp del]

text \<open>The body of the loop: row \<open>l\<close> moves down to the empty row \<open>e\<close>.\<close>

definition move_row ::
  "('bb, 'up, 'bt, 'lp) batch_env \<Rightarrow> ('bb, 'bt, 'lp) input_batch \<Rightarrow> nat \<Rightarrow> nat \<Rightarrow> rid \<Rightarrow> ('bb, 'bt, 'lp) input_batch" where
  "move_row env B l e r =
     (let n = ib_num_tokens B ! l in
      B\<lparr>req_ids := (req_ids B)[e := Some r, l := None],
        req_output_token_ids := (req_output_token_ids B)[e := req_output_token_ids B ! l, l := None],
        req_id_to_index := dict_set r e (req_id_to_index B),
        token_ids_cpu := (token_ids_cpu B)[e := take n (token_ids_cpu B ! l) @ drop n (token_ids_cpu B ! e)],
        ib_num_tokens := (ib_num_tokens B)[e := n],
        num_tokens_no_spec := (num_tokens_no_spec B)[e := num_tokens_no_spec B ! l],
        ib_num_prompt_tokens := (ib_num_prompt_tokens B)[e := ib_num_prompt_tokens B ! l],
        num_computed_tokens_cpu := (num_computed_tokens_cpu B)[e := num_computed_tokens_cpu B ! l],
        block_table := bt_move_row (be_table env) (block_table B) l e,
        temperature_cpu := (temperature_cpu B)[e := temperature_cpu B ! l],
        top_p_cpu := (top_p_cpu B)[e := top_p_cpu B ! l], top_k_cpu := (top_k_cpu B)[e := top_k_cpu B ! l],
        frequency_penalties_cpu := (frequency_penalties_cpu B)[e := frequency_penalties_cpu B ! l],
        presence_penalties_cpu := (presence_penalties_cpu B)[e := presence_penalties_cpu B ! l],
        repetition_penalties_cpu := (repetition_penalties_cpu B)[e := repetition_penalties_cpu B ! l],
        generators := (case generators B l of
                         None \<Rightarrow> (generators B)(l := None)
                       | Some g \<Rightarrow> (generators B)(l := None, e \<mapsto> g)),
        request_lora_mapping := (request_lora_mapping B)[e := request_lora_mapping B ! l],
        allowed_token_ids_mask_cpu_tensor := map_option (\<lambda>m. m[e := m ! l]) (allowed_token_ids_mask_cpu_tensor B),
        bad_words_token_ids := (case bad_words_token_ids B l of
                                  None \<Rightarrow> (bad_words_token_ids B)(l := None)
                                | Some ws \<Rightarrow> (bad_words_token_ids B)(l := None, e \<mapsto> ws))\<rparr>)"

definition condense_move ::
  "('bb, 'up, 'bt, 'lp) batch_env \<Rightarrow> ('bb, 'bt, 'lp) input_batch \<Rightarrow> nat \<Rightarrow> nat \<Rightarrow> ('bb, 'bt, 'lp) input_batch result" where
  "condense_move env B l e =
     (let ops = be_builder env;
          bb = bb_moved_append ops (snd (bb_pop_removed ops (batch_update_builder B))) (l, e, UNIDIRECTIONAL)
      in if length (req_ids B) \<le> l then Inl IndexError
         else
           (case req_ids B ! l of
              None \<Rightarrow> Inl AssertionError
            | Some r \<Rightarrow> Inr (move_row env (B\<lparr>batch_update_builder := bb\<rparr>) l e r)))"

text \<open>The outer loop may not end for a builder whose list never gets shorter; that is the value \<open>None\<close>.\<close>

partial_function (option) condense_loop ::
  "('bb, 'up, 'bt, 'lp) batch_env \<Rightarrow> ('bb, 'bt, 'lp) input_batch \<Rightarrow> int \<Rightarrow> ('bb, 'bt, 'lp) input_batch result option" where
  "condense_loop env B last_idx =
     (let removed = bb_removed (be_builder env) (batch_update_builder B) in
      if removed = [] then Some (Inr B)
      else
        let l = skip_empty removed last_idx in
        (case bb_peek_removed (be_builder env) (batch_update_builder B) of
           None \<Rightarrow> Some (Inl AssertionError)
         | Some e \<Rightarrow>
             if l \<le> int e then Some (Inr B)
             else
               (case condense_move env B (nat l) e of
                  Inl x \<Rightarrow> Some (Inl x)
                | Inr B' \<Rightarrow> condense_loop env B' (l - 1))))"

declare condense_loop.simps [code]

definition trim :: "('bb, 'bt, 'lp) input_batch \<Rightarrow> nat \<Rightarrow> ('bb, 'bt, 'lp) input_batch" where
  "trim B n = B\<lparr>req_ids := take n (req_ids B), req_output_token_ids := take n (req_output_token_ids B)\<rparr>"

definition condense ::
  "('bb, 'up, 'bt, 'lp) batch_env \<Rightarrow> ('bb, 'bt, 'lp) input_batch \<Rightarrow> ('bb, 'bt, 'lp) input_batch result option" where
  "condense env B =
     (let n = num_reqs B; removed = bb_removed (be_builder env) (batch_update_builder B) in
      if is_pooling_model B then Some (Inr (trim B n))
      else if removed = [] then Some (Inr B)
      else if n = 0 then Some (Inr (B\<lparr>req_ids := [], req_output_token_ids := []\<rparr>))
      else
        map_option (\<lambda>res. res_bind res (\<lambda>B'. Inr (trim B' n)))
          (condense_loop env B (int n + int (length removed) - 1)))"

end
