(* ===== verification/Input_Batch_Inv.thy ===== *)
theory Input_Batch_Inv
  imports Input_Batch
begin

section \<open>Contracts and invariant of the persistent batch\<close>

text \<open>
  What the batch relies on of vLLM: the list of removed rows of a \<open>BatchUpdateBuilder\<close> is descending and is
  consumed from its end, a block table stores rows, and the helpers swap and copy. The invariant says
  how the arrays, the list of ids and the index dictionary fit together; \<open>view\<close> is what the batch
  stands for: a finite map from request ids to rows.
\<close>

locale update_builder =
  fixes ops :: "('bb, 'up) builder_ops"
  assumes removed_desc: "sorted (rev (bb_removed ops b))"
    and removed_append: "bb_removed_append ops b i = Inr b' \<Longrightarrow> mset (bb_removed ops b') = add_mset i (mset (bb_removed ops b))"
    and pop_empty: "bb_removed ops b = [] \<Longrightarrow> fst (bb_pop_removed ops b) = None \<and> bb_removed ops (snd (bb_pop_removed ops b)) = []"
    and pop_nonempty: "bb_removed ops b \<noteq> [] \<Longrightarrow> fst (bb_pop_removed ops b) = Some (last (bb_removed ops b)) \<and>
      bb_removed ops (snd (bb_pop_removed ops b)) = butlast (bb_removed ops b)"
    and peek: "bb_peek_removed ops b = (if bb_removed ops b = [] then None else Some (last (bb_removed ops b)))"
    and added_keeps: "bb_removed ops (bb_added_append ops b x) = bb_removed ops b"
    and moved_keeps: "bb_removed ops (bb_moved_append ops b y) = bb_removed ops b"
    and reset_clears: "bb_removed ops (snd (bb_get_and_reset ops b n)) = []"
begin

lemma last_is_least:
  assumes "x \<in> set (bb_removed ops b)"
  shows "last (bb_removed ops b) \<le> x"
proof -
  have "x \<in> set (rev (bb_removed ops b))" "rev (bb_removed ops b) \<noteq> []" using assms by auto
  then have "hd (rev (bb_removed ops b)) \<le> x"
    using removed_desc [of b] by (cases "rev (bb_removed ops b)") auto
  then show ?thesis by (simp add: hd_rev)
qed

lemma set_removed_append:
  assumes "bb_removed_append ops b i = Inr b'"
  shows "set (bb_removed ops b') = insert i (set (bb_removed ops b))"
  using arg_cong [OF removed_append [OF assms], of set_mset] by simp

lemma distinct_removed_append:
  assumes "bb_removed_append ops b i = Inr b'" "distinct (bb_removed ops b)" "i \<notin> set (bb_removed ops b)"
  shows "distinct (bb_removed ops b')"
proof -
  have "mset (bb_removed ops b') = mset (i # bb_removed ops b)" using removed_append [OF assms(1)] by simp
  then show ?thesis using assms(2,3) mset_eq_imp_distinct_iff by (metis distinct.simps(2))
qed

lemma set_pop:
  assumes "distinct (bb_removed ops b)" "bb_removed ops b \<noteq> []"
  shows "set (bb_removed ops (snd (bb_pop_removed ops b))) = set (bb_removed ops b) - {last (bb_removed ops b)}"
    "distinct (bb_removed ops (snd (bb_pop_removed ops b)))"
proof -
  obtain xs x where eq: "bb_removed ops b = xs @ [x]" using assms(2) by (cases "bb_removed ops b" rule: rev_cases) auto
  then show "set (bb_removed ops (snd (bb_pop_removed ops b))) = set (bb_removed ops b) - {last (bb_removed ops b)}"
    "distinct (bb_removed ops (snd (bb_pop_removed ops b)))"
    using assms(1) pop_nonempty [OF assms(2)] by auto
qed

end

locale block_rows =
  fixes ops :: "'bt table_ops"
  assumes add_row: "bt_row ops (bt_add_row ops t ids i) = (bt_row ops t)(i := ids)"
    and move_row_to: "bt_row ops (bt_move_row ops t i j) = (bt_row ops t)(j := bt_row ops t i)"
    and swap_row: "bt_row ops (bt_swap_row ops t i j) = (bt_row ops t)(i := bt_row ops t j, j := bt_row ops t i)"

text \<open>The two contracts and the helpers together.\<close>

locale batch_parts = update_builder "be_builder env" + block_rows "be_table env"
  for env :: "('bb, 'up, 'bt, 'lp) batch_env" +
  assumes swap_generators: "be_swap_generators env g i j = g(i := g j, j := g i)"
    and swap_bad_words: "be_swap_bad_words env w i j = w(i := w j, j := w i)"
    and copy_reals: "be_copy_reals env xs ys n = take n xs @ drop n ys"
    and copy_ints: "be_copy_ints env ks ls n = take n ks @ drop n ls"
    and copy_rows: "be_copy_rows env ms ns n = take n ms @ drop n ns"

subsection \<open>A builder on lists\<close>

text \<open>An instance: the three lists of the builder, the removed rows sorted when they are read.\<close>

type_synonym list_builder =
  "nat list \<times> (nat \<times> sampling_params \<times> int list \<times> int list) list \<times> (nat \<times> nat \<times> move_directionality) list"

definition removed_of :: "list_builder \<Rightarrow> nat list" where
  "removed_of b = rev (sort (fst b))"

definition list_builder_ops :: "(list_builder, list_builder) builder_ops" where
  "list_builder_ops =
     \<lparr>bb_removed = removed_of,
      bb_removed_append = (\<lambda>(rm, ad, mv) i. Inr (rm @ [i], ad, mv)),
      bb_pop_removed = (\<lambda>(rm, ad, mv). case sort rm of [] \<Rightarrow> (None, rm, ad, mv) | i # is \<Rightarrow> (Some i, is, ad, mv)),
      bb_peek_removed = (\<lambda>(rm, ad, mv). case sort rm of [] \<Rightarrow> None | i # _ \<Rightarrow> Some i),
      bb_added_append = (\<lambda>(rm, ad, mv) x. (rm, ad @ [x], mv)),
      bb_moved_append = (\<lambda>(rm, ad, mv) y. (rm, ad, mv @ [y])),
      bb_get_and_reset = (\<lambda>b n. (if b = ([], [], []) then None else Some b, ([], [], [])))\<rparr>"

lemma sort_Cons_tl: "sort xs = y # ys \<Longrightarrow> sort ys = ys"
  by (metis list.sel(3) sorted_sort sorted_sort_id sorted_wrt.simps(2))

interpretation list_builder: update_builder list_builder_ops
proof unfold_locales
  fix b :: list_builder
  obtain rm ad mv where b: "b = (rm, ad, mv)" by (cases b) auto
  show "sorted (rev (bb_removed list_builder_ops b))"
    by (simp add: list_builder_ops_def removed_of_def)
  show "bb_removed list_builder_ops b = [] \<Longrightarrow> fst (bb_pop_removed list_builder_ops b) = None \<and>
      bb_removed list_builder_ops (snd (bb_pop_removed list_builder_ops b)) = []"
    by (simp add: list_builder_ops_def removed_of_def b)
  show "bb_removed list_builder_ops b \<noteq> [] \<Longrightarrow>
      fst (bb_pop_removed list_builder_ops b) = Some (last (bb_removed list_builder_ops b)) \<and>
      bb_removed list_builder_ops (snd (bb_pop_removed list_builder_ops b)) = butlast (bb_removed list_builder_ops b)"
    using sort_Cons_tl [of rm]
    by (cases "sort rm") (auto simp: list_builder_ops_def removed_of_def b)
  show "bb_peek_removed list_builder_ops b =
      (if bb_removed list_builder_ops b = [] then None else Some (last (bb_removed list_builder_ops b)))"
    by (cases "sort rm") (auto simp: list_builder_ops_def removed_of_def b)
qed (auto simp: list_builder_ops_def removed_of_def)

definition list_table_ops :: "(nat \<Rightarrow> int list list) table_ops" where
  "list_table_ops =
     \<lparr>bt_add_row = (\<lambda>t ids i. t(i := ids)), bt_move_row = (\<lambda>t i j. t(j := t i)),
      bt_swap_row = (\<lambda>t i j. t(i := t j, j := t i)), bt_row = (\<lambda>t. t)\<rparr>"

interpretation list_table: block_rows list_table_ops
  by unfold_locales (simp_all add: list_table_ops_def)

definition list_batch_env :: "(list_builder, list_builder, nat \<Rightarrow> int list list, unit) batch_env" where
  "list_batch_env =
     \<lparr>be_builder = list_builder_ops, be_table = list_table_ops, be_unsupported = (\<lambda>_. False), be_f32 = (\<lambda>x. x),
      be_swap_generators = (\<lambda>g i j. g(i := g j, j := g i)), be_swap_bad_words = (\<lambda>g i j. g(i := g j, j := g i)),
      be_copy_reals = (\<lambda>xs ys n. take n xs @ drop n ys), be_copy_ints = (\<lambda>xs ys n. take n xs @ drop n ys),
      be_copy_rows = (\<lambda>xs ys n. take n xs @ drop n ys), be_update_state = (\<lambda>p _. p)\<rparr>"

interpretation list_batch: batch_parts list_batch_env
  by (intro batch_parts.intro batch_parts_axioms.intro)
    (simp_all add: list_batch_env_def list_builder.update_builder_axioms list_table.block_rows_axioms)

subsection \<open>The invariant\<close>

definition arrays_ok :: "('bb, 'bt, 'lp) input_batch \<Rightarrow> bool" where
  "arrays_ok B \<longleftrightarrow>
     length (token_ids_cpu B) = max_num_reqs B \<and> (\<forall>i < max_num_reqs B. length (token_ids_cpu B ! i) = max_model_len B) \<and>
     length (ib_num_tokens B) = max_num_reqs B \<and> length (num_tokens_no_spec B) = max_num_reqs B \<and>
     length (ib_num_prompt_tokens B) = max_num_reqs B \<and> length (num_computed_tokens_cpu B) = max_num_reqs B \<and>
     length (temperature_cpu B) = max_num_reqs B \<and> length (top_p_cpu B) = max_num_reqs B \<and>
     length (top_k_cpu B) = max_num_reqs B \<and> length (frequency_penalties_cpu B) = max_num_reqs B \<and>
     length (presence_penalties_cpu B) = max_num_reqs B \<and> length (repetition_penalties_cpu B) = max_num_reqs B \<and>
     length (request_lora_mapping B) = max_num_reqs B \<and>
     (\<forall>m. allowed_token_ids_mask_cpu_tensor B = Some m \<longrightarrow> length m = max_num_reqs B)"

text \<open>The ids, the outputs and the index dictionary.\<close>

definition index_ok :: "('bb, 'bt, 'lp) input_batch \<Rightarrow> bool" where
  "index_ok B \<longleftrightarrow>
     \<not> is_pooling_model B \<and> length (req_output_token_ids B) = length (req_ids B) \<and> length (req_ids B) \<le> max_num_reqs B \<and>
     distinct (map fst (req_id_to_index B)) \<and>
     (\<forall>r i. map_of (req_id_to_index B) r = Some i \<longleftrightarrow> i < length (req_ids B) \<and> req_ids B ! i = Some r)"

definition active :: "('bb, 'bt, 'lp) input_batch \<Rightarrow> nat set" where
  "active B = {i. i < length (req_ids B) \<and> req_ids B ! i \<noteq> None}"

definition holes :: "('bb, 'bt, 'lp) input_batch \<Rightarrow> nat set" where
  "holes B = {i. i < length (req_ids B) \<and> req_ids B ! i = None}"

definition rows_ok :: "('bb, 'bt, 'lp) input_batch \<Rightarrow> bool" where
  "rows_ok B \<longleftrightarrow> dom (generators B) \<subseteq> active B \<and> dom (bad_words_token_ids B) \<subseteq> active B"

definition members :: "('bb, 'bt, 'lp) input_batch \<Rightarrow> int \<Rightarrow> rid set" where
  "members B k = {r. \<exists>i. map_of (req_id_to_index B) r = Some i \<and> request_lora_mapping B ! i = k}"

definition lora_ok_batch :: "('bb, 'bt, 'lp) input_batch \<Rightarrow> bool" where
  "lora_ok_batch B \<longleftrightarrow>
     (\<forall>k. lora_id_to_request_ids B k = (if k = 0 \<or> members B k = {} then None else Some (members B k))) \<and>
     (\<forall>k. map_of (lora_id_to_lora_request B) k = None \<longleftrightarrow> lora_id_to_request_ids B k = None) \<and>
     (\<forall>(k, l) \<in> set (lora_id_to_lora_request B). lora_int_id l = k)"

text \<open>
  The sets and dictionaries by request id, read as the flags of a request: which sampling features it
  asks for. A request that is not in the batch has none, one in the batch is either greedy or random.
\<close>

record req_flags =
  rf_greedy :: bool
  rf_random :: bool
  rf_top_p :: bool
  rf_top_k :: bool
  rf_spec_unsupported :: bool
  rf_frequency :: bool
  rf_presence :: bool
  rf_repetition :: bool
  rf_allowed :: bool
  rf_logprobs :: "int option"
  rf_prompt_logprobs :: "int option"

definition flags :: "('bb, 'bt, 'lp) input_batch \<Rightarrow> rid \<Rightarrow> req_flags" where
  "flags B r =
     \<lparr>rf_greedy = r \<in> greedy_reqs B, rf_random = r \<in> random_reqs B, rf_top_p = r \<in> top_p_reqs B,
      rf_top_k = r \<in> top_k_reqs B, rf_spec_unsupported = r \<in> spec_decode_unsupported_reqs B,
      rf_frequency = r \<in> frequency_penalties_reqs B, rf_presence = r \<in> presence_penalties_reqs B,
      rf_repetition = r \<in> repetition_penalties_reqs B, rf_allowed = r \<in> has_allowed_token_ids B,
      rf_logprobs = map_of (num_logprobs B) r, rf_prompt_logprobs = map_of (num_prompt_logprobs B) r\<rparr>"

definition no_flags :: req_flags where
  "no_flags =
     \<lparr>rf_greedy = False, rf_random = False, rf_top_p = False, rf_top_k = False, rf_spec_unsupported = False,
      rf_frequency = False, rf_presence = False, rf_repetition = False, rf_allowed = False,
      rf_logprobs = None, rf_prompt_logprobs = None\<rparr>"

definition flags_ok :: "('bb, 'bt, 'lp) input_batch \<Rightarrow> bool" where
  "flags_ok B \<longleftrightarrow>
     distinct (map fst (num_logprobs B)) \<and>
     (\<forall>r. map_of (req_id_to_index B) r = None \<longrightarrow> flags B r = no_flags) \<and>
     (\<forall>r i. map_of (req_id_to_index B) r = Some i \<longrightarrow> rf_greedy (flags B r) \<noteq> rf_random (flags B r))"

text \<open>The masks of allowed tokens, on the host and on the device, exist when a request needs them.\<close>

definition masks_ok :: "('bb, 'bt, 'lp) input_batch \<Rightarrow> bool" where
  "masks_ok B \<longleftrightarrow>
     (has_allowed_token_ids B \<noteq> {} \<longrightarrow> allowed_token_ids_mask_cpu_tensor B \<noteq> None) \<and>
     (allowed_token_ids_mask_cpu_tensor B \<noteq> None \<longrightarrow> dev_allowed_token_ids_mask B \<noteq> None)"

definition batch_inv :: "('bb, 'bt, 'lp) input_batch \<Rightarrow> bool" where
  "batch_inv B \<longleftrightarrow> arrays_ok B \<and> index_ok B \<and> rows_ok B \<and> lora_ok_batch B \<and> flags_ok B \<and> masks_ok B"

text \<open>Between \<open>refresh_metadata\<close> and \<open>condense\<close> the builder knows exactly the holes.\<close>

definition updating :: "('bb, 'up, 'bt, 'lp) batch_env \<Rightarrow> ('bb, 'bt, 'lp) input_batch \<Rightarrow> bool" where
  "updating env B \<longleftrightarrow> batch_inv B \<and> distinct (bb_removed (be_builder env) (batch_update_builder B)) \<and>
     set (bb_removed (be_builder env) (batch_update_builder B)) = holes B"

definition condensed :: "('bb, 'bt, 'lp) input_batch \<Rightarrow> bool" where
  "condensed B \<longleftrightarrow> batch_inv B \<and> holes B = {}"

subsection \<open>What the batch stands for\<close>

record batch_row =
  br_tokens :: "int list"
  br_num_tokens_no_spec :: nat
  br_num_prompt_tokens :: nat
  br_num_computed_tokens :: int
  br_blocks :: "int list list"
  br_temperature :: real
  br_top_p :: real
  br_top_k :: int
  br_frequency_penalty :: real
  br_presence_penalty :: real
  br_repetition_penalty :: real
  br_lora_id :: int
  br_generator :: "object_ref option"
  br_bad_words :: "int list list option"
  br_output :: "int list option"

definition row_at :: "('bb, 'up, 'bt, 'lp) batch_env \<Rightarrow> ('bb, 'bt, 'lp) input_batch \<Rightarrow> nat \<Rightarrow> batch_row" where
  "row_at env B i =
     \<lparr>br_tokens = take (ib_num_tokens B ! i) (token_ids_cpu B ! i), br_num_tokens_no_spec = num_tokens_no_spec B ! i,
      br_num_prompt_tokens = ib_num_prompt_tokens B ! i, br_num_computed_tokens = num_computed_tokens_cpu B ! i,
      br_blocks = bt_row (be_table env) (block_table B) i, br_temperature = temperature_cpu B ! i,
      br_top_p = top_p_cpu B ! i, br_top_k = top_k_cpu B ! i,
      br_frequency_penalty = frequency_penalties_cpu B ! i, br_presence_penalty = presence_penalties_cpu B ! i,
      br_repetition_penalty = repetition_penalties_cpu B ! i, br_lora_id = request_lora_mapping B ! i,
      br_generator = generators B i, br_bad_words = bad_words_token_ids B i, br_output = req_output_token_ids B ! i\<rparr>"

definition view :: "('bb, 'up, 'bt, 'lp) batch_env \<Rightarrow> ('bb, 'bt, 'lp) input_batch \<Rightarrow> rid \<rightharpoonup> batch_row" where
  "view env B r = map_option (row_at env B) (map_of (req_id_to_index B) r)"

text \<open>The mask row of a request, kept apart from the rest of its row.\<close>

definition mask_of :: "('bb, 'bt, 'lp) input_batch \<Rightarrow> rid \<Rightarrow> bool list option" where
  "mask_of B r =
     (case (map_of (req_id_to_index B) r, allowed_token_ids_mask_cpu_tensor B) of
        (Some i, Some m) \<Rightarrow> Some (m ! i)
      | _ \<Rightarrow> None)"

text \<open>The row of a request that has just been added.\<close>

definition request_row ::
  "('bb, 'up, 'bt, 'lp) batch_env \<Rightarrow> nat \<Rightarrow> cached_request \<Rightarrow> sampling_params \<Rightarrow> batch_row" where
  "request_row env vocab q sp =
     \<lparr>br_tokens = cr_prompt_token_ids q @ cr_output_token_ids q, br_num_tokens_no_spec = cr_num_tokens q,
      br_num_prompt_tokens = cr_num_prompt_tokens q, br_num_computed_tokens = cr_num_computed_tokens q,
      br_blocks = cr_block_ids q,
      br_temperature = (if sp_greedy sp then - 1 else be_f32 env (sp_temperature sp)),
      br_top_p = be_f32 env (sp_top_p sp),
      br_top_k = (if 0 < sp_top_k sp \<and> sp_top_k sp < int vocab then sp_top_k sp else int vocab),
      br_frequency_penalty = be_f32 env (sp_frequency_penalty sp),
      br_presence_penalty = be_f32 env (sp_presence_penalty sp),
      br_repetition_penalty = be_f32 env (sp_repetition_penalty sp),
      br_lora_id = (case cr_lora_request q of None \<Rightarrow> 0 | Some l \<Rightarrow> lora_int_id l),
      br_generator = cr_generator q,
      br_bad_words = (case sp_bad_words_token_ids sp of None \<Rightarrow> None | Some ws \<Rightarrow> if ws = [] then None else Some ws),
      br_output = Some (cr_output_token_ids q)\<rparr>"

text \<open>Its flags.\<close>

definition request_flags ::
  "('bb, 'up, 'bt, 'lp) batch_env \<Rightarrow> ('bb, 'bt, 'lp) input_batch \<Rightarrow> sampling_params \<Rightarrow> req_flags" where
  "request_flags env B sp =
     \<lparr>rf_greedy = sp_greedy sp, rf_random = (\<not> sp_greedy sp), rf_top_p = (sp_top_p sp < 1),
      rf_top_k = (0 < sp_top_k sp \<and> sp_top_k sp < int (vocab_size B)),
      rf_spec_unsupported = (is_spec_decode B \<and> be_unsupported env sp),
      rf_frequency = (sp_frequency_penalty sp \<noteq> 0), rf_presence = (sp_presence_penalty sp \<noteq> 0),
      rf_repetition = (sp_repetition_penalty sp \<noteq> 1),
      rf_allowed = (sp_allowed_token_ids sp \<noteq> None \<and> sp_allowed_token_ids sp \<noteq> Some []),
      rf_logprobs = map_option (\<lambda>k. if k = - 1 then int (vocab_size B) else k) (sp_logprobs sp),
      rf_prompt_logprobs = sp_prompt_logprobs sp\<rparr>"

text \<open>The builder is not part of what a batch stands for.\<close>

lemma builder_frame [simp]:
  "row_at env (B\<lparr>batch_update_builder := bb\<rparr>) = row_at env B"
  "view env (B\<lparr>batch_update_builder := bb\<rparr>) = view env B"
  "mask_of (B\<lparr>batch_update_builder := bb\<rparr>) = mask_of B"
  "num_reqs (B\<lparr>batch_update_builder := bb\<rparr>) = num_reqs B"
  "holes (B\<lparr>batch_update_builder := bb\<rparr>) = holes B"
  "active (B\<lparr>batch_update_builder := bb\<rparr>) = active B"
  "batch_inv (B\<lparr>batch_update_builder := bb\<rparr>) = batch_inv B"
  "flags (B\<lparr>batch_update_builder := bb\<rparr>) = flags B"
proof -
  show row: "row_at env (B\<lparr>batch_update_builder := bb\<rparr>) = row_at env B" by (rule ext) (simp add: row_at_def)
  show "view env (B\<lparr>batch_update_builder := bb\<rparr>) = view env B" by (rule ext) (simp add: view_def row)
  show "mask_of (B\<lparr>batch_update_builder := bb\<rparr>) = mask_of B" by (rule ext) (simp add: mask_of_def)
  show fl: "flags (B\<lparr>batch_update_builder := bb\<rparr>) = flags B" by (rule ext) (simp add: flags_def)
  show "batch_inv (B\<lparr>batch_update_builder := bb\<rparr>) = batch_inv B" unfolding batch_inv_def flags_ok_def fl
    by (simp add: arrays_ok_def index_ok_def rows_ok_def active_def lora_ok_batch_def members_def masks_ok_def)
qed (simp_all add: num_reqs_def holes_def active_def)

text \<open>Operations that leave the sets and the ids alone keep the flags.\<close>

lemma flags_ok_cong:
  "flags B' = flags B \<Longrightarrow> num_logprobs B' = num_logprobs B \<Longrightarrow>
   (\<And>r. map_of (req_id_to_index B') r = None \<longleftrightarrow> map_of (req_id_to_index B) r = None) \<Longrightarrow> flags_ok B' = flags_ok B"
  by (auto simp: flags_ok_def) (metis option.exhaust)+

subsection \<open>Counting rows\<close>

lemma index_lookup:
  assumes "index_ok B"
  shows "map_of (req_id_to_index B) r = Some i \<longleftrightarrow> i < length (req_ids B) \<and> req_ids B ! i = Some r"
  using assms by (simp add: index_ok_def)

lemma num_reqs_active:
  assumes "index_ok B"
  shows "num_reqs B = card (active B)"
proof -
  let ?f = "\<lambda>r. the (map_of (req_id_to_index B) r)"
  have "num_reqs B = card (fst ` set (req_id_to_index B))"
    using assms distinct_card [of "map fst (req_id_to_index B)"] by (simp add: num_reqs_def index_ok_def)
  moreover have "bij_betw ?f (fst ` set (req_id_to_index B)) (active B)"
  proof (rule bij_betwI')
    fix r r' assume "r \<in> fst ` set (req_id_to_index B)" "r' \<in> fst ` set (req_id_to_index B)"
    then obtain i i' where i: "map_of (req_id_to_index B) r = Some i" "map_of (req_id_to_index B) r' = Some i'"
      by (metis dom_map_of_conv_image_fst domD)
    then have "req_ids B ! i = Some r" "req_ids B ! i' = Some r'" by (simp_all add: index_lookup [OF assms])
    then show "(?f r = ?f r') = (r = r')" using i by auto
  next
    fix r assume "r \<in> fst ` set (req_id_to_index B)"
    then obtain i where i: "map_of (req_id_to_index B) r = Some i" by (metis dom_map_of_conv_image_fst domD)
    then have "i < length (req_ids B) \<and> req_ids B ! i = Some r" by (simp add: index_lookup [OF assms])
    then show "?f r \<in> active B" using i by (simp add: active_def)
  next
    fix i assume "i \<in> active B"
    then obtain r where "map_of (req_id_to_index B) r = Some i"
      using index_lookup [OF assms] by (auto simp: active_def)
    then show "\<exists>r \<in> fst ` set (req_id_to_index B). i = ?f r"
      by (metis dom_map_of_conv_image_fst domI option.sel)
  qed
  ultimately show ?thesis using bij_betw_same_card by metis
qed

lemma rows_split: "active B \<union> holes B = {..<length (req_ids B)}" "active B \<inter> holes B = {}"
  "finite (active B)" "finite (holes B)"
  by (auto simp: active_def holes_def)

lemma length_req_ids:
  assumes "index_ok B"
  shows "length (req_ids B) = num_reqs B + card (holes B)"
  using card_Un_disjoint [OF rows_split(3,4,2), of B] num_reqs_active [OF assms]
  unfolding rows_split(1) card_lessThan by simp

end
