(* ===== verification/Input_Batch_Add.thy ===== *)
theory Input_Batch_Add
  imports Input_Batch_Inv
begin

section \<open>Adding a request to the persistent batch\<close>

text \<open>
  An addition fills the lowest hole or appends a row; with room, a new id and tokens that fit it
  always succeeds, keeps the invariant, and adds exactly the row of the request to the view.
\<close>

lemma np_assign_prefix:
  assumes "length vals = n" "n \<le> length row"
  shows "np_assign row 0 n vals = Inr (vals @ drop n row)"
  using assms by (simp add: np_assign_def Let_def)

lemma np_assign_middle:
  assumes "length vals = b - a" "a \<le> b" "b \<le> length row"
  shows "np_assign row a b vals = Inr (take a row @ vals @ drop b row)"
  using assms by (simp add: np_assign_def Let_def)

lemma np_assign_tokens:
  assumes "length ps + length os \<le> length row"
  shows "res_bind (np_assign row 0 (length ps) ps) (\<lambda>row1. np_assign row1 (length ps) (length ps + length os) os)
    = Inr (ps @ os @ drop (length ps + length os) row)"
  using assms by (simp add: np_assign_prefix np_assign_middle add.commute)

context batch_parts
begin

text \<open>The row that is chosen: the lowest hole, or the end.\<close>

lemma register_eq:
  assumes "cr_sampling_params q = Some sp" "fst (bb_pop_removed (be_builder env) (batch_update_builder B)) = x"
    "i = (case x of None \<Rightarrow> num_reqs B | Some i \<Rightarrow> i)" "i < max_num_reqs B"
  shows "register_add_request env B q = Inr (i, B\<lparr>batch_update_builder :=
     bb_added_append (be_builder env) (snd (bb_pop_removed (be_builder env) (batch_update_builder B)))
       (i, sp, cr_prompt_token_ids q, cr_output_token_ids q)\<rparr>)"
  using assms by (simp add: register_add_request_def case_prod_unfold Let_def)

lemma register_index:
  assumes "updating env B" "cr_sampling_params q = Some sp" "num_reqs B < max_num_reqs B"
  shows "\<exists>i bb. register_add_request env B q = Inr (i, B\<lparr>batch_update_builder := bb\<rparr>) \<and>
    i < max_num_reqs B \<and> (i = length (req_ids B) \<and> holes B = {} \<or> i \<in> holes B) \<and>
    distinct (bb_removed (be_builder env) bb) \<and> set (bb_removed (be_builder env) bb) = holes B - {i}"
proof -
  let ?ops = "be_builder env" and ?b = "batch_update_builder B"
  have d: "distinct (bb_removed ?ops ?b)" and h: "set (bb_removed ?ops ?b) = holes B" and ix: "index_ok B"
    using assms(1) by (simp_all add: updating_def batch_inv_def)
  show ?thesis
  proof (cases "bb_removed ?ops ?b = []")
    case True
    then have none: "holes B = {}" using h by simp
    then have len: "num_reqs B = length (req_ids B)" using length_req_ids [OF ix] by simp
    have eq: "register_add_request env B q = Inr (num_reqs B, B\<lparr>batch_update_builder :=
      bb_added_append ?ops (snd (bb_pop_removed ?ops ?b)) (num_reqs B, sp, cr_prompt_token_ids q, cr_output_token_ids q)\<rparr>)"
      by (rule register_eq [OF assms(2) conjunct1 [OF pop_empty [OF True]]]) (simp_all add: assms(3))
    show ?thesis
      by (rule exI, rule exI, rule conjI [OF eq], unfold added_keeps conjunct2 [OF pop_empty [OF True]] none)
        (simp add: len [symmetric] assms(3))
  next
    case False
    let ?i = "last (bb_removed ?ops ?b)"
    have i: "?i \<in> holes B" unfolding h [symmetric] by (rule last_in_set) (rule False)
    have lt: "?i < max_num_reqs B" using i ix by (simp add: holes_def index_ok_def)
    have eq: "register_add_request env B q = Inr (?i, B\<lparr>batch_update_builder :=
      bb_added_append ?ops (snd (bb_pop_removed ?ops ?b)) (?i, sp, cr_prompt_token_ids q, cr_output_token_ids q)\<rparr>)"
      by (rule register_eq [OF assms(2) conjunct1 [OF pop_nonempty [OF False]]]) (simp_all add: lt)
    show ?thesis
      by (rule exI, rule exI, rule conjI [OF eq], unfold added_keeps set_pop(1) [OF d False] h)
        (simp add: i lt set_pop(2) [OF d False])
  qed
qed

end

text \<open>The pieces of an addition as record updates.\<close>

lemma mask_length: "arrays_ok B \<Longrightarrow> allowed_token_ids_mask_cpu_tensor B = Some m \<Longrightarrow> length m = max_num_reqs B"
  by (simp add: arrays_ok_def)

lemma add_allowed_frame:
  assumes "add_allowed B r i a = Inr B1" "arrays_ok B"
  shows "\<exists>d m. B1 = B\<lparr>has_allowed_token_ids := insert_if (a \<noteq> None \<and> a \<noteq> Some []) r (has_allowed_token_ids B),
      dev_allowed_token_ids_mask := d, allowed_token_ids_mask_cpu_tensor := m\<rparr> \<and>
    (\<forall>mm. m = Some mm \<longrightarrow> length mm = max_num_reqs B) \<and> (masks_ok B \<longrightarrow> masks_ok B1)"
proof (cases "a = None \<or> a = Some []")
  case True
  then have "B1 = B\<lparr>has_allowed_token_ids := insert_if (a \<noteq> None \<and> a \<noteq> Some []) r (has_allowed_token_ids B),
      dev_allowed_token_ids_mask := dev_allowed_token_ids_mask B,
      allowed_token_ids_mask_cpu_tensor := allowed_token_ids_mask_cpu_tensor B\<rparr>"
    using assms(1) by (auto simp: add_allowed_def insert_if_def)
  moreover have "masks_ok B \<longrightarrow> masks_ok B1" using True assms(1) by (auto simp: add_allowed_def)
  ultimately show ?thesis using mask_length [OF assms(2)] by blast
next
  case False
  let ?m = "case allowed_token_ids_mask_cpu_tensor B of None \<Rightarrow> replicate (max_num_reqs B) (replicate (vocab_size B) False) | Some m \<Rightarrow> m"
  obtain ids row where ids: "a = Some ids" "ids \<noteq> []" "mask_row (vocab_size B) ids = Inr row"
  proof -
    obtain ids where ids: "a = Some ids" "ids \<noteq> []" using False by (cases a) auto
    then show ?thesis using assms(1) that by (cases "mask_row (vocab_size B) ids") (auto simp: add_allowed_def Let_def)
  qed
  have "\<exists>d. B1 = B\<lparr>has_allowed_token_ids := insert r (has_allowed_token_ids B), dev_allowed_token_ids_mask := d,
      allowed_token_ids_mask_cpu_tensor := Some (?m[i := row])\<rparr>"
  proof (cases "allowed_token_ids_mask_cpu_tensor B")
    case None
    then show ?thesis using assms(1) ids
      by (intro exI [of _ "Some (replicate (max_num_reqs B) (replicate (vocab_size B) False))"]) (auto simp: add_allowed_def Let_def)
  next
    case (Some m)
    then have "B1 = B\<lparr>has_allowed_token_ids := insert r (has_allowed_token_ids B), dev_allowed_token_ids_mask := dev_allowed_token_ids_mask B,
      allowed_token_ids_mask_cpu_tensor := Some (m[i := row])\<rparr>"
      using assms(1) ids by (simp add: add_allowed_def)
    then show ?thesis using Some by (intro exI [of _ "dev_allowed_token_ids_mask B"]) simp
  qed
  moreover have "length (?m[i := row]) = max_num_reqs B" using mask_length [OF assms(2)] by (simp split: option.split)
  moreover have h: "insert_if (a \<noteq> None \<and> a \<noteq> Some []) r (has_allowed_token_ids B) = insert r (has_allowed_token_ids B)"
    using ids(1,2) by (simp add: insert_if_def)
  moreover have "masks_ok B \<longrightarrow> masks_ok B1"
    using assms(1) ids by (cases "allowed_token_ids_mask_cpu_tensor B") (auto simp: masks_ok_def add_allowed_def Let_def)
  ultimately show ?thesis unfolding h by blast
qed

definition words_of :: "int list list option \<Rightarrow> int list list option" where
  "words_of w = (case w of None \<Rightarrow> None | Some ws \<Rightarrow> if ws = [] then None else Some ws)"

definition words_after :: "int list list option \<Rightarrow> nat \<Rightarrow> (nat \<rightharpoonup> int list list) \<Rightarrow> (nat \<rightharpoonup> int list list)" where
  "words_after w i m = (case words_of w of None \<Rightarrow> m | Some ws \<Rightarrow> m(i \<mapsto> ws))"

lemma add_bad_words_frame:
  "add_bad_words B i w = B\<lparr>bad_words_token_ids := words_after w i (bad_words_token_ids B)\<rparr>"
  by (simp add: add_bad_words_def words_after_def words_of_def split: option.split)

definition lora_id_of :: "cached_request \<Rightarrow> int" where
  "lora_id_of q = (case cr_lora_request q of None \<Rightarrow> 0 | Some l \<Rightarrow> lora_int_id l)"

definition ids_after :: "cached_request \<Rightarrow> (int \<rightharpoonup> rid set) \<Rightarrow> (int \<rightharpoonup> rid set)" where
  "ids_after q m =
     (case cr_lora_request q of
        None \<Rightarrow> m
      | Some l \<Rightarrow> m(lora_int_id l \<mapsto> insert (cr_req_id q) (case m (lora_int_id l) of None \<Rightarrow> {} | Some rs \<Rightarrow> rs)))"

definition loras_after :: "cached_request \<Rightarrow> (int \<times> lora_request) list \<Rightarrow> (int \<times> lora_request) list" where
  "loras_after q d = (case cr_lora_request q of None \<Rightarrow> d | Some l \<Rightarrow> dict_set (lora_int_id l) l d)"

lemma add_lora_frame:
  "add_lora B q i = B\<lparr>request_lora_mapping := (request_lora_mapping B)[i := lora_id_of q],
     lora_id_to_request_ids := ids_after q (lora_id_to_request_ids B),
     lora_id_to_lora_request := loras_after q (lora_id_to_lora_request B)\<rparr>"
  by (simp add: add_lora_def lora_id_of_def ids_after_def loras_after_def Let_def split: option.split)

lemma copy_tokens_ok:
  assumes "arrays_ok B" "i < max_num_reqs B" "cr_num_tokens q \<le> max_model_len B"
  shows "copy_tokens env B q i = Inr (B\<lparr>ib_num_prompt_tokens := (ib_num_prompt_tokens B)[i := cr_num_prompt_tokens q],
     token_ids_cpu := (token_ids_cpu B)[i := cr_prompt_token_ids q @ cr_output_token_ids q
                         @ drop (cr_num_tokens q) (token_ids_cpu B ! i)],
     ib_num_tokens := (ib_num_tokens B)[i := cr_num_tokens q],
     num_tokens_no_spec := (num_tokens_no_spec B)[i := cr_num_tokens q],
     num_computed_tokens_cpu := (num_computed_tokens_cpu B)[i := cr_num_computed_tokens q],
     block_table := bt_add_row (be_table env) (block_table B) (cr_block_ids q) i\<rparr>)"
proof -
  have "length (token_ids_cpu B ! i) = max_model_len B" using assms(1,2) by (simp add: arrays_ok_def)
  then show ?thesis
    using assms np_assign_prefix [OF refl, of "cr_prompt_token_ids q" "token_ids_cpu B ! i"]
      np_assign_middle [of "cr_output_token_ids q" "cr_num_tokens q" "cr_num_prompt_tokens q"
        "cr_prompt_token_ids q @ drop (cr_num_prompt_tokens q) (token_ids_cpu B ! i)"]
    by (simp add: copy_tokens_def Let_def cr_num_tokens_def cr_num_prompt_tokens_def arrays_ok_def add.commute)
qed

lemma rows_update:
  "\<forall>j < n. length (xs ! j) = w \<Longrightarrow> length row = w \<Longrightarrow> \<forall>j < n. length (xs[i := row] ! j) = w"
  by (cases "i < length xs") (auto simp: nth_list_update list_update_beyond)

lemma copy_tokens_arrays:
  assumes "copy_tokens env B q i = Inr B'" "arrays_ok B" "cr_num_tokens q \<le> max_model_len B"
  shows "arrays_ok B'"
proof -
  have i: "i < max_num_reqs B" using assms(1,2) by (simp add: copy_tokens_def arrays_ok_def split: if_splits)
  let ?row = "cr_prompt_token_ids q @ cr_output_token_ids q @ drop (cr_num_tokens q) (token_ids_cpu B ! i)"
  have "length ?row = max_model_len B"
    using assms(2,3) i by (simp add: arrays_ok_def cr_num_tokens_def cr_num_prompt_tokens_def)
  moreover have "B' = B\<lparr>ib_num_prompt_tokens := (ib_num_prompt_tokens B)[i := cr_num_prompt_tokens q],
     token_ids_cpu := (token_ids_cpu B)[i := ?row], ib_num_tokens := (ib_num_tokens B)[i := cr_num_tokens q],
     num_tokens_no_spec := (num_tokens_no_spec B)[i := cr_num_tokens q],
     num_computed_tokens_cpu := (num_computed_tokens_cpu B)[i := cr_num_computed_tokens q],
     block_table := bt_add_row (be_table env) (block_table B) (cr_block_ids q) i\<rparr>"
    using assms(1) copy_tokens_ok [OF assms(2) i assms(3), of env] by simp
  moreover have "\<forall>j < max_num_reqs B. length ((token_ids_cpu B)[i := ?row] ! j) = max_model_len B"
    using calculation(1) assms(2) by (intro rows_update) (simp_all add: arrays_ok_def)
  ultimately show ?thesis using assms(2) by (simp add: arrays_ok_def)
qed

lemma place_request_ok:
  assumes "index_ok B" "i = length (req_ids B) \<or> i \<in> holes B"
  shows "\<exists>ids outs. place_request B q i = Inr (B\<lparr>req_ids := ids, req_output_token_ids := outs,
      req_id_to_index := dict_set (cr_req_id q) i (req_id_to_index B)\<rparr>) \<and>
    length ids = max (length (req_ids B)) (Suc i) \<and> length outs = length ids \<and>
    (\<forall>j. j < length ids \<longrightarrow> ids ! j = (if j = i then Some (cr_req_id q) else req_ids B ! j)) \<and>
    (\<forall>j. j < length ids \<longrightarrow> outs ! j = (if j = i then Some (cr_output_token_ids q) else req_output_token_ids B ! j))"
proof (cases "i = length (req_ids B)")
  case True
  then show ?thesis using assms(1)
    by (intro exI [of _ "req_ids B @ [Some (cr_req_id q)]"] exI [of _ "req_output_token_ids B @ [Some (cr_output_token_ids q)]"])
      (auto simp: place_request_def index_ok_def nth_append)
next
  case False
  then have "i < length (req_ids B)" using assms(2) by (simp add: holes_def)
  then show ?thesis using assms(1) False
    by (intro exI [of _ "(req_ids B)[i := Some (cr_req_id q)]"] exI [of _ "(req_output_token_ids B)[i := Some (cr_output_token_ids q)]"])
      (auto simp: place_request_def index_ok_def max_def)
qed

text \<open>The batch after a successful addition, as one update.\<close>

definition added ::
  "('bb, 'up, 'bt, 'lp) batch_env \<Rightarrow> ('bb, 'bt, 'lp) input_batch \<Rightarrow> cached_request \<Rightarrow> sampling_params \<Rightarrow> nat \<Rightarrow> 'bb \<Rightarrow>
   rid option list \<Rightarrow> int list option list \<Rightarrow> bool list list option \<Rightarrow> bool list list option \<Rightarrow>
   ('bb, 'bt, 'lp) input_batch" where
  "added env B q sp i bb ids outs d m =
     (set_sampling env
       (B\<lparr>batch_update_builder := bb, req_ids := ids, req_output_token_ids := outs,
          req_id_to_index := dict_set (cr_req_id q) i (req_id_to_index B),
          ib_num_prompt_tokens := (ib_num_prompt_tokens B)[i := cr_num_prompt_tokens q],
          token_ids_cpu := (token_ids_cpu B)[i := cr_prompt_token_ids q @ cr_output_token_ids q
                              @ drop (cr_num_tokens q) (token_ids_cpu B ! i)],
          ib_num_tokens := (ib_num_tokens B)[i := cr_num_tokens q],
          num_tokens_no_spec := (num_tokens_no_spec B)[i := cr_num_tokens q],
          num_computed_tokens_cpu := (num_computed_tokens_cpu B)[i := cr_num_computed_tokens q],
          block_table := bt_add_row (be_table env) (block_table B) (cr_block_ids q) i\<rparr>) q i sp)
     \<lparr>has_allowed_token_ids := insert_if (sp_allowed_token_ids sp \<noteq> None \<and> sp_allowed_token_ids sp \<noteq> Some [])
        (cr_req_id q) (has_allowed_token_ids B),
      dev_allowed_token_ids_mask := d, allowed_token_ids_mask_cpu_tensor := m,
      bad_words_token_ids := words_after (sp_bad_words_token_ids sp) i (bad_words_token_ids B),
      request_lora_mapping := (request_lora_mapping B)[i := lora_id_of q],
      lora_id_to_request_ids := ids_after q (lora_id_to_request_ids B),
      lora_id_to_lora_request := loras_after q (lora_id_to_lora_request B)\<rparr>"

definition allowed_in_range :: "nat \<Rightarrow> sampling_params \<Rightarrow> bool" where
  "allowed_in_range vocab sp =
     (case sp_allowed_token_ids sp of None \<Rightarrow> True | Some ids \<Rightarrow> list_all (\<lambda>t. - int vocab \<le> t \<and> t < int vocab) ids)"

lemma add_allowed_total:
  assumes "allowed_in_range (vocab_size B) sp"
  shows "\<exists>B1. add_allowed B r i (sp_allowed_token_ids sp) = Inr B1"
  using assms by (auto simp: add_allowed_def allowed_in_range_def mask_row_def Let_def split: option.split)

lemma set_sampling_frame:
  "arrays_ok B \<Longrightarrow> arrays_ok (set_sampling env B q i sp)" "vocab_size (set_sampling env B q i sp) = vocab_size B"
  "max_num_reqs (set_sampling env B q i sp) = max_num_reqs B"
  "bad_words_token_ids (set_sampling env B q i sp) = bad_words_token_ids B"
  "request_lora_mapping (set_sampling env B q i sp) = request_lora_mapping B"
  "lora_id_to_request_ids (set_sampling env B q i sp) = lora_id_to_request_ids B"
  "lora_id_to_lora_request (set_sampling env B q i sp) = lora_id_to_lora_request B"
  "has_allowed_token_ids (set_sampling env B q i sp) = has_allowed_token_ids B"
  by (simp_all add: set_sampling_def Let_def arrays_ok_def)

text \<open>What a caller has to provide: room, a new id, a prompt that fits and an adapter id that is not 0.\<close>

definition can_add :: "('bb, 'bt, 'lp) input_batch \<Rightarrow> cached_request \<Rightarrow> sampling_params \<Rightarrow> bool" where
  "can_add B q sp \<longleftrightarrow>
     cr_sampling_params q = Some sp \<and> num_reqs B < max_num_reqs B \<and> map_of (req_id_to_index B) (cr_req_id q) = None \<and>
     cr_num_tokens q \<le> max_model_len B \<and> allowed_in_range (vocab_size B) sp \<and>
     (\<forall>l. cr_lora_request q = Some l \<longrightarrow> lora_int_id l \<noteq> 0)"

context batch_parts
begin

lemma add_request_result:
  assumes "updating env B" "can_add B q sp"
  shows "\<exists>i bb ids outs d m. ib_add_request env B q = Inr (i, added env B q sp i bb ids outs d m) \<and>
    i < max_num_reqs B \<and> (i = length (req_ids B) \<and> holes B = {} \<or> i \<in> holes B) \<and>
    distinct (bb_removed (be_builder env) bb) \<and> set (bb_removed (be_builder env) bb) = holes B - {i} \<and>
    length ids = max (length (req_ids B)) (Suc i) \<and> length outs = length ids \<and>
    (\<forall>j. j < length ids \<longrightarrow> ids ! j = (if j = i then Some (cr_req_id q) else req_ids B ! j)) \<and>
    (\<forall>j. j < length ids \<longrightarrow> outs ! j = (if j = i then Some (cr_output_token_ids q) else req_output_token_ids B ! j)) \<and>
    (\<forall>mm. m = Some mm \<longrightarrow> length mm = max_num_reqs B) \<and> masks_ok (added env B q sp i bb ids outs d m)"
proof -
  have sp: "cr_sampling_params q = Some sp" "num_reqs B < max_num_reqs B" "cr_num_tokens q \<le> max_model_len B"
    "allowed_in_range (vocab_size B) sp" using assms(2) by (simp_all add: can_add_def)
  have inv: "arrays_ok B" "index_ok B" "masks_ok B" using assms(1) by (simp_all add: updating_def batch_inv_def)
  obtain i bb where i: "register_add_request env B q = Inr (i, B\<lparr>batch_update_builder := bb\<rparr>)" "i < max_num_reqs B"
    "i = length (req_ids B) \<and> holes B = {} \<or> i \<in> holes B" "distinct (bb_removed (be_builder env) bb)"
    "set (bb_removed (be_builder env) bb) = holes B - {i}"
    using register_index [OF assms(1) sp(1,2)] by blast
  let ?B1 = "B\<lparr>batch_update_builder := bb\<rparr>"
  have 1: "index_ok ?B1" "arrays_ok ?B1" "i = length (req_ids ?B1) \<or> i \<in> holes ?B1"
    using inv i(3) by (auto simp: index_ok_def arrays_ok_def holes_def)
  obtain ids outs where p: "place_request ?B1 q i = Inr (?B1\<lparr>req_ids := ids, req_output_token_ids := outs,
      req_id_to_index := dict_set (cr_req_id q) i (req_id_to_index B)\<rparr>)"
    "length ids = max (length (req_ids B)) (Suc i)" "length outs = length ids"
    "\<forall>j. j < length ids \<longrightarrow> ids ! j = (if j = i then Some (cr_req_id q) else req_ids B ! j)"
    "\<forall>j. j < length ids \<longrightarrow> outs ! j = (if j = i then Some (cr_output_token_ids q) else req_output_token_ids B ! j)"
    using place_request_ok [OF 1(1,3), of q] by auto
  let ?B2 = "?B1\<lparr>req_ids := ids, req_output_token_ids := outs, req_id_to_index := dict_set (cr_req_id q) i (req_id_to_index B)\<rparr>"
  have 2: "arrays_ok ?B2" using 1(2) by (simp add: arrays_ok_def)
  define B3 where "B3 = B\<lparr>batch_update_builder := bb, req_ids := ids, req_output_token_ids := outs,
          req_id_to_index := dict_set (cr_req_id q) i (req_id_to_index B),
          ib_num_prompt_tokens := (ib_num_prompt_tokens B)[i := cr_num_prompt_tokens q],
          token_ids_cpu := (token_ids_cpu B)[i := cr_prompt_token_ids q @ cr_output_token_ids q
                              @ drop (cr_num_tokens q) (token_ids_cpu B ! i)],
          ib_num_tokens := (ib_num_tokens B)[i := cr_num_tokens q],
          num_tokens_no_spec := (num_tokens_no_spec B)[i := cr_num_tokens q],
          num_computed_tokens_cpu := (num_computed_tokens_cpu B)[i := cr_num_computed_tokens q],
          block_table := bt_add_row (be_table env) (block_table B) (cr_block_ids q) i\<rparr>"
  have B3: "copy_tokens env ?B2 q i = Inr B3"
    unfolding B3_def by (subst copy_tokens_ok [OF 2]) (simp_all add: i(2) sp(3))
  have arr3: "arrays_ok B3" by (rule copy_tokens_arrays [OF B3 2]) (simp add: sp(3))
  let ?B4 = "set_sampling env B3 q i sp"
  obtain B5 where B5: "add_allowed ?B4 (cr_req_id q) i (sp_allowed_token_ids sp) = Inr B5"
    using add_allowed_total [of ?B4 sp] sp(4) by (auto simp: set_sampling_frame B3_def)
  then obtain d m where a: "B5 = ?B4\<lparr>has_allowed_token_ids := insert_if (sp_allowed_token_ids sp \<noteq> None \<and> sp_allowed_token_ids sp \<noteq> Some [])
      (cr_req_id q) (has_allowed_token_ids B), dev_allowed_token_ids_mask := d, allowed_token_ids_mask_cpu_tensor := m\<rparr>"
    "\<forall>mm. m = Some mm \<longrightarrow> length mm = max_num_reqs B" "masks_ok ?B4 \<longrightarrow> masks_ok B5"
    using add_allowed_frame [OF B5 set_sampling_frame(1) [OF arr3]] by (auto simp: set_sampling_frame B3_def)
  have "masks_ok ?B4" using inv(3) by (simp add: masks_ok_def set_sampling_def Let_def B3_def)
  then have masks: "masks_ok B5" using a(3) by blast
  let ?B6 = "add_bad_words B5 i (sp_bad_words_token_ids sp)"
  have "masks_ok (add_lora ?B6 q i)" using masks unfolding add_lora_frame add_bad_words_frame by (simp add: masks_ok_def)
  moreover have "add_lora ?B6 q i = added env B q sp i bb ids outs d m"
    unfolding add_lora_frame add_bad_words_frame a(1) added_def by (simp add: set_sampling_frame B3_def)
  moreover have "ib_add_request env B q = Inr (i, add_lora ?B6 q i)"
    using i(1) p(1) B3 B5 sp(1) inv(2) by (simp add: ib_add_request_def add_params_def index_ok_def)
  ultimately have "ib_add_request env B q = Inr (i, added env B q sp i bb ids outs d m)"
    "masks_ok (added env B q sp i bb ids outs d m)" by simp_all
  then show ?thesis using i(2-5) p(2-5) a(2)
    by (intro exI [of _ i] exI [of _ bb] exI [of _ ids] exI [of _ outs] exI [of _ d] exI [of _ m] conjI)
qed

lemma row_at_added_new:
  assumes "arrays_ok B" "i < max_num_reqs B" "generators B i = None" "bad_words_token_ids B i = None"
    "outs ! i = Some (cr_output_token_ids q)"
  shows "row_at env (added env B q sp i bb ids outs d m) i = request_row env (vocab_size B) q sp"
  using assms
  by (simp add: row_at_def request_row_def added_def set_sampling_def Let_def arrays_ok_def add_row
      cr_num_tokens_def cr_num_prompt_tokens_def lora_id_of_def words_after_def words_of_def split: option.split)

lemma row_at_added_old:
  assumes "j \<noteq> i" "outs ! j = req_output_token_ids B ! j"
  shows "row_at env (added env B q sp i bb ids outs d m) j = row_at env B j"
  using assms
  by (simp add: row_at_def added_def set_sampling_def Let_def add_row words_after_def split: option.split)

lemma added_view:
  assumes "batch_inv B" "i < max_num_reqs B" "i = length (req_ids B) \<or> i \<in> holes B"
    "map_of (req_id_to_index B) (cr_req_id q) = None"
    "length ids = max (length (req_ids B)) (Suc i)"
    "\<forall>j. j < length ids \<longrightarrow> outs ! j = (if j = i then Some (cr_output_token_ids q) else req_output_token_ids B ! j)"
  shows "view env (added env B q sp i bb ids outs d m) = (view env B)(cr_req_id q \<mapsto> request_row env (vocab_size B) q sp)"
proof
  fix r
  have inv: "arrays_ok B" "index_ok B" "rows_ok B" using assms(1) by (simp_all add: batch_inv_def)
  have idx: "req_id_to_index (added env B q sp i bb ids outs d m) = dict_set (cr_req_id q) i (req_id_to_index B)"
    by (simp add: added_def set_sampling_def Let_def)
  have "i \<notin> active B" using assms(3) by (auto simp: active_def holes_def)
  then have free: "generators B i = None" "bad_words_token_ids B i = None" using inv(3) by (auto simp: rows_ok_def)
  have new: "outs ! i = Some (cr_output_token_ids q)" using assms(5,6) by simp
  show "view env (added env B q sp i bb ids outs d m) r = ((view env B)(cr_req_id q \<mapsto> request_row env (vocab_size B) q sp)) r"
  proof (cases "r = cr_req_id q")
    case True
    then show ?thesis using row_at_added_new [OF inv(1) assms(2) free new] by (simp add: view_def idx update_conv')
  next
    case False
    have "row_at env (added env B q sp i bb ids outs d m) j = row_at env B j" if "map_of (req_id_to_index B) r = Some j" for j
    proof (rule row_at_added_old)
      have j: "j < length (req_ids B)" "req_ids B ! j = Some r" using that index_lookup [OF inv(2)] by simp_all
      then show "j \<noteq> i" using assms(3) by (auto simp: holes_def)
      then show "outs ! j = req_output_token_ids B ! j" using assms(5,6) j by simp
    qed
    then show ?thesis using False by (cases "map_of (req_id_to_index B) r") (simp_all add: view_def idx update_conv')
  qed
qed

lemma set_dict_set: "set (dict_set k v d) \<subseteq> insert (k, v) (set d)"
  by (induction d) auto

lemma added_fields:
  "req_ids (added env B q sp i bb ids outs d m) = ids"
  "req_output_token_ids (added env B q sp i bb ids outs d m) = outs"
  "req_id_to_index (added env B q sp i bb ids outs d m) = dict_set (cr_req_id q) i (req_id_to_index B)"
  "is_pooling_model (added env B q sp i bb ids outs d m) = is_pooling_model B"
  "max_num_reqs (added env B q sp i bb ids outs d m) = max_num_reqs B"
  "batch_update_builder (added env B q sp i bb ids outs d m) = bb"
  "generators (added env B q sp i bb ids outs d m) = (case cr_generator q of None \<Rightarrow> generators B | Some g \<Rightarrow> (generators B)(i \<mapsto> g))"
  "bad_words_token_ids (added env B q sp i bb ids outs d m) = words_after (sp_bad_words_token_ids sp) i (bad_words_token_ids B)"
  "request_lora_mapping (added env B q sp i bb ids outs d m) = (request_lora_mapping B)[i := lora_id_of q]"
  "lora_id_to_request_ids (added env B q sp i bb ids outs d m) = ids_after q (lora_id_to_request_ids B)"
  "lora_id_to_lora_request (added env B q sp i bb ids outs d m) = loras_after q (lora_id_to_lora_request B)"
  by (simp_all add: added_def set_sampling_def Let_def split: option.split)

lemma added_arrays:
  assumes "arrays_ok B" "i < max_num_reqs B" "cr_num_tokens q \<le> max_model_len B"
    "\<forall>mm. m = Some mm \<longrightarrow> length mm = max_num_reqs B"
  shows "arrays_ok (added env B q sp i bb ids outs d m)"
proof -
  let ?row = "cr_prompt_token_ids q @ cr_output_token_ids q @ drop (cr_num_tokens q) (token_ids_cpu B ! i)"
  have "\<forall>j < max_num_reqs B. length ((token_ids_cpu B)[i := ?row] ! j) = max_model_len B"
    using assms(1-3) by (intro rows_update) (simp_all add: arrays_ok_def cr_num_tokens_def cr_num_prompt_tokens_def)
  then show ?thesis using assms(1,4) by (simp add: arrays_ok_def added_def set_sampling_def Let_def)
qed

lemma added_index:
  assumes "index_ok B" "i < max_num_reqs B" "i = length (req_ids B) \<or> i \<in> holes B"
    "map_of (req_id_to_index B) (cr_req_id q) = None"
    "length ids = max (length (req_ids B)) (Suc i)" "length outs = length ids"
    "\<forall>j. j < length ids \<longrightarrow> ids ! j = (if j = i then Some (cr_req_id q) else req_ids B ! j)"
  shows "index_ok (added env B q sp i bb ids outs d m)"
proof -
  have old: "j < length (req_ids B)" if "j < length ids" "j \<noteq> i" for j using that assms(3,5) by (auto simp: holes_def)
  have "map_of (dict_set (cr_req_id q) i (req_id_to_index B)) r = Some j \<longleftrightarrow> j < length ids \<and> ids ! j = Some r" for r j
  proof (cases "j = i")
    case True
    have "map_of (req_id_to_index B) r \<noteq> Some i"
      using index_lookup [OF assms(1)] assms(3) by (auto simp: holes_def)
    then show ?thesis using True assms(5,7) by (auto simp: update_conv')
  next
    case False
    then have "j < length ids \<and> ids ! j = Some r \<longleftrightarrow> j < length (req_ids B) \<and> req_ids B ! j = Some r"
      using assms(5,7) old by auto
    also have "\<dots> \<longleftrightarrow> map_of (req_id_to_index B) r = Some j" by (rule index_lookup [OF assms(1), symmetric])
    finally show ?thesis using False assms(4) by (auto simp: update_conv')
  qed
  moreover have "length ids \<le> max_num_reqs B" using assms(1,2,5) by (simp add: index_ok_def)
  ultimately show ?thesis
    using assms(1,6) by (simp add: index_ok_def added_fields distinct_update)
qed

lemma added_rows:
  assumes "rows_ok B" "i = length (req_ids B) \<or> i \<in> holes B" "length ids = max (length (req_ids B)) (Suc i)"
    "\<forall>j. j < length ids \<longrightarrow> ids ! j = (if j = i then Some (cr_req_id q) else req_ids B ! j)"
  shows "rows_ok (added env B q sp i bb ids outs d m)"
    "holes (added env B q sp i bb ids outs d m) = holes B - {i}"
proof -
  let ?B' = "added env B q sp i bb ids outs d m"
  have lt: "j < length ids \<longleftrightarrow> j = i \<or> j < length (req_ids B)" for j using assms(2,3) by (auto simp: holes_def)
  have nth: "j < length ids \<Longrightarrow> ids ! j = (if j = i then Some (cr_req_id q) else req_ids B ! j)" for j
    using assms(4) by simp
  have "j \<in> active ?B' \<longleftrightarrow> j = i \<or> j \<in> active B" for j
    using nth [of j] unfolding active_def mem_Collect_eq added_fields lt by (cases "j = i"; cases "j < length (req_ids B)"; simp)
  moreover have "j \<in> holes ?B' \<longleftrightarrow> j \<noteq> i \<and> j \<in> holes B" for j
    using nth [of j] unfolding holes_def mem_Collect_eq added_fields lt by (cases "j = i"; cases "j < length (req_ids B)"; simp)
  ultimately have eq: "active ?B' = insert i (active B)" "holes ?B' = holes B - {i}" by blast+
  then show "rows_ok ?B'"
    using assms(1) by (auto simp: rows_ok_def added_fields words_after_def split: option.splits)
  show "holes ?B' = holes B - {i}" by (rule eq(2))
qed

lemma added_members:
  assumes "index_ok B" "length (request_lora_mapping B) = max_num_reqs B" "i < max_num_reqs B"
    "i = length (req_ids B) \<or> i \<in> holes B" "map_of (req_id_to_index B) (cr_req_id q) = None"
  shows "members (added env B q sp i bb ids outs d m) k = members B k \<union> (if lora_id_of q = k then {cr_req_id q} else {})"
proof -
  have "j \<noteq> i" if "map_of (req_id_to_index B) r = Some j" for r j
    using that index_lookup [OF assms(1)] assms(4) by (auto simp: holes_def)
  then have "(\<exists>j. map_of (req_id_to_index B) r = Some j \<and> (request_lora_mapping B)[i := lora_id_of q] ! j = k)
     \<longleftrightarrow> (\<exists>j. map_of (req_id_to_index B) r = Some j \<and> request_lora_mapping B ! j = k)" for r by fastforce
  then show ?thesis using assms(2,3,5) by (auto simp: members_def added_fields update_conv')
qed

lemma added_lora:
  assumes "lora_ok_batch B" "\<And>k. members B' k = members B k \<union> (if lora_id_of q = k then {cr_req_id q} else {})"
    "lora_id_to_request_ids B' = ids_after q (lora_id_to_request_ids B)"
    "lora_id_to_lora_request B' = loras_after q (lora_id_to_lora_request B)"
    "\<forall>l. cr_lora_request q = Some l \<longrightarrow> lora_int_id l \<noteq> 0"
  shows "lora_ok_batch B'"
proof (cases "cr_lora_request q")
  case None
  then show ?thesis using assms by (auto simp: lora_ok_batch_def ids_after_def loras_after_def lora_id_of_def)
next
  case (Some l)
  then have "lora_id_of q = lora_int_id l" "lora_int_id l \<noteq> 0" using assms(5) by (auto simp: lora_id_of_def)
  then show ?thesis
    using assms(1-4) Some set_dict_set [of "lora_int_id l" l "lora_id_to_lora_request B"]
    by (auto simp: lora_ok_batch_def ids_after_def loras_after_def update_conv' split: if_splits)
qed

lemma mem_insert_if: "x \<in> insert_if b y s \<longleftrightarrow> b \<and> x = y \<or> x \<in> s"
  by (simp add: insert_if_def)

definition logprobs_after :: "rid \<Rightarrow> int option \<Rightarrow> (rid \<times> int) list \<Rightarrow> (rid \<times> int) list" where
  "logprobs_after r k d = (case k of None \<Rightarrow> d | Some k \<Rightarrow> dict_set r k d)"

lemma map_of_logprobs_after: "map_of (logprobs_after r k d) = (if k = None then map_of d else (map_of d)(r := k))"
  by (cases k) (simp_all add: logprobs_after_def update_conv')

lemma added_sets:
  "greedy_reqs (added env B q sp i bb ids outs d m) = insert_if (sp_greedy sp) (cr_req_id q) (greedy_reqs B)"
  "random_reqs (added env B q sp i bb ids outs d m) = insert_if (\<not> sp_greedy sp) (cr_req_id q) (random_reqs B)"
  "top_p_reqs (added env B q sp i bb ids outs d m) = insert_if (sp_top_p sp < 1) (cr_req_id q) (top_p_reqs B)"
  "top_k_reqs (added env B q sp i bb ids outs d m) =
     insert_if (0 < sp_top_k sp \<and> sp_top_k sp < int (vocab_size B)) (cr_req_id q) (top_k_reqs B)"
  "spec_decode_unsupported_reqs (added env B q sp i bb ids outs d m) =
     insert_if (is_spec_decode B \<and> be_unsupported env sp) (cr_req_id q) (spec_decode_unsupported_reqs B)"
  "frequency_penalties_reqs (added env B q sp i bb ids outs d m) =
     insert_if (sp_frequency_penalty sp \<noteq> 0) (cr_req_id q) (frequency_penalties_reqs B)"
  "presence_penalties_reqs (added env B q sp i bb ids outs d m) =
     insert_if (sp_presence_penalty sp \<noteq> 0) (cr_req_id q) (presence_penalties_reqs B)"
  "repetition_penalties_reqs (added env B q sp i bb ids outs d m) =
     insert_if (sp_repetition_penalty sp \<noteq> 1) (cr_req_id q) (repetition_penalties_reqs B)"
  "has_allowed_token_ids (added env B q sp i bb ids outs d m) =
     insert_if (sp_allowed_token_ids sp \<noteq> None \<and> sp_allowed_token_ids sp \<noteq> Some []) (cr_req_id q) (has_allowed_token_ids B)"
  by (simp_all add: added_def set_sampling_def Let_def)

lemma added_logprobs:
  "num_logprobs (added env B q sp i bb ids outs d m) =
     logprobs_after (cr_req_id q) (map_option (\<lambda>k. if k = - 1 then int (vocab_size B) else k) (sp_logprobs sp)) (num_logprobs B)"
  "num_prompt_logprobs (added env B q sp i bb ids outs d m) =
     logprobs_after (cr_req_id q) (sp_prompt_logprobs sp) (num_prompt_logprobs B)"
  by (cases "sp_logprobs sp"; simp add: added_def set_sampling_def Let_def logprobs_after_def)
    (cases "sp_prompt_logprobs sp"; simp add: added_def set_sampling_def Let_def logprobs_after_def)

lemma added_flags:
  assumes "flags_ok B" "map_of (req_id_to_index B) (cr_req_id q) = None"
  shows "flags (added env B q sp i bb ids outs d m) = (flags B)(cr_req_id q := request_flags env B sp)"
    "flags_ok (added env B q sp i bb ids outs d m)"
proof -
  let ?B' = "added env B q sp i bb ids outs d m"
  have none: "flags B (cr_req_id q) = no_flags" using assms by (simp add: flags_ok_def)
  have "flags ?B' r = (if r = cr_req_id q then request_flags env B sp else flags B r)" for r
    using none unfolding flags_def added_sets added_logprobs map_of_logprobs_after mem_insert_if
    by (cases "r = cr_req_id q") (auto simp: no_flags_def request_flags_def)
  then show fl: "flags ?B' = (flags B)(cr_req_id q := request_flags env B sp)" by auto
  have "distinct (map fst (num_logprobs ?B'))"
    using assms(1) unfolding added_logprobs
    by (simp add: flags_ok_def logprobs_after_def distinct_update split: option.split)
  then show "flags_ok ?B'"
    using assms(1) by (auto simp: flags_ok_def fl added_fields update_conv' request_flags_def)
qed

lemma add_request_ok:
  assumes "updating env B" "can_add B q sp"
  shows "\<exists>i B'. ib_add_request env B q = Inr (i, B') \<and> updating env B' \<and>
    view env B' = (view env B)(cr_req_id q \<mapsto> request_row env (vocab_size B) q sp) \<and>
    map_of (req_id_to_index B') (cr_req_id q) = Some i \<and> flags B' = (flags B)(cr_req_id q := request_flags env B sp)"
proof -
  obtain i bb ids outs d m where
    r: "ib_add_request env B q = Inr (i, added env B q sp i bb ids outs d m)" "i < max_num_reqs B"
      "i = length (req_ids B) \<and> holes B = {} \<or> i \<in> holes B"
      "distinct (bb_removed (be_builder env) bb)" "set (bb_removed (be_builder env) bb) = holes B - {i}"
      "length ids = max (length (req_ids B)) (Suc i)" "length outs = length ids"
      "\<forall>j. j < length ids \<longrightarrow> ids ! j = (if j = i then Some (cr_req_id q) else req_ids B ! j)"
      "\<forall>j. j < length ids \<longrightarrow> outs ! j = (if j = i then Some (cr_output_token_ids q) else req_output_token_ids B ! j)"
      "\<forall>mm. m = Some mm \<longrightarrow> length mm = max_num_reqs B" "masks_ok (added env B q sp i bb ids outs d m)"
    using add_request_result [OF assms] by (elim exE conjE) (rule that, assumption+)
  let ?B' = "added env B q sp i bb ids outs d m"
  have inv: "arrays_ok B" "index_ok B" "rows_ok B" "lora_ok_batch B" "batch_inv B" "flags_ok B"
    using assms(1) by (simp_all add: updating_def batch_inv_def)
  have q: "cr_num_tokens q \<le> max_model_len B" "map_of (req_id_to_index B) (cr_req_id q) = None"
    "\<forall>l. cr_lora_request q = Some l \<longrightarrow> lora_int_id l \<noteq> 0" using assms(2) by (simp_all add: can_add_def)
  have i: "i = length (req_ids B) \<or> i \<in> holes B" using r(3) by blast
  have len: "length (request_lora_mapping B) = max_num_reqs B" using inv(1) by (simp add: arrays_ok_def)
  have "lora_ok_batch ?B'"
    by (rule added_lora [OF inv(4) added_members [OF inv(2) len r(2) i q(2)] added_fields(10,11) q(3)])
  then have "batch_inv ?B'"
    using added_arrays [OF inv(1) r(2) q(1) r(10)] added_index [OF inv(2) r(2) i q(2) r(6-8)] added_rows(1) [OF inv(3) i r(6,8)]
      added_flags(2) [OF inv(6) q(2)] r(11)
    by (simp add: batch_inv_def)
  then have "updating env ?B'"
    using r(4,5) added_rows(2) [OF inv(3) i r(6,8)] by (simp add: updating_def added_fields)
  then show ?thesis
    using r(1) added_view [OF inv(5) r(2) i q(2) r(6,9)] added_flags(1) [OF inv(6) q(2)] by (auto simp: added_fields update_conv')
qed

end

end
