(* ===== verification/Input_Batch_Moves.thy ===== *)
theory Input_Batch_Moves
  imports Input_Batch_Add
begin

section \<open>Removing, swapping and condensing rows\<close>

text \<open>
  A removal leaves a hole and takes the request's row out of the view; a swap and a condensation
  keep the view; after a condensation there is no hole and the rows are the first \<open>num_reqs\<close> ones.
\<close>

subsection \<open>Removing\<close>

definition lora_ids_without :: "(int \<rightharpoonup> rid set) \<Rightarrow> int \<Rightarrow> rid \<Rightarrow> (int \<rightharpoonup> rid set)" where
  "lora_ids_without m k r =
     (if k = 0 then m
      else case m k of None \<Rightarrow> m | Some rs \<Rightarrow> if rs - {r} = {} then m(k := None) else m(k \<mapsto> rs - {r}))"

definition loras_without :: "(int \<rightharpoonup> rid set) \<Rightarrow> int \<Rightarrow> rid \<Rightarrow> (int \<times> lora_request) list \<Rightarrow> (int \<times> lora_request) list" where
  "loras_without m k r d =
     (if k = 0 then d else case m k of None \<Rightarrow> d | Some rs \<Rightarrow> if rs - {r} = {} then dict_pop k d else d)"

lemma remove_lora_frame:
  assumes "request_lora_mapping B ! i = 0 \<or> lora_id_to_request_ids B (request_lora_mapping B ! i) \<noteq> None"
    "\<forall>k. map_of (lora_id_to_lora_request B) k = None \<longleftrightarrow> lora_id_to_request_ids B k = None"
  shows "remove_lora B r i = Inr (B\<lparr>
     lora_id_to_request_ids := lora_ids_without (lora_id_to_request_ids B) (request_lora_mapping B ! i) r,
     lora_id_to_lora_request := loras_without (lora_id_to_request_ids B) (request_lora_mapping B ! i) r (lora_id_to_lora_request B),
     request_lora_mapping := (request_lora_mapping B)[i := 0]\<rparr>)"
proof (cases "request_lora_mapping B ! i = 0")
  case True
  then have "(request_lora_mapping B)[i := 0] = request_lora_mapping B" by (metis list_update_id)
  then show ?thesis using True by (simp add: remove_lora_def lora_ids_without_def loras_without_def)
next
  case False
  then obtain rs where rs: "lora_id_to_request_ids B (request_lora_mapping B ! i) = Some rs" using assms(1) by auto
  then have "map_of (lora_id_to_lora_request B) (request_lora_mapping B ! i) \<noteq> None" using assms(2) by auto
  then show ?thesis using False rs
    by (auto simp: remove_lora_def lora_ids_without_def loras_without_def Let_def map_item_def)
qed

text \<open>The batch after a removal, as one update.\<close>

definition removed_row ::
  "('bb, 'bt, 'lp) input_batch \<Rightarrow> rid \<Rightarrow> nat \<Rightarrow> 'bb \<Rightarrow> ('bb, 'bt, 'lp) input_batch" where
  "removed_row B r i bb =
     (clear_request (B\<lparr>batch_update_builder := bb\<rparr>) r i)
     \<lparr>lora_id_to_request_ids := lora_ids_without (lora_id_to_request_ids B) (request_lora_mapping B ! i) r,
      lora_id_to_lora_request := loras_without (lora_id_to_request_ids B) (request_lora_mapping B ! i) r (lora_id_to_lora_request B),
      request_lora_mapping := (request_lora_mapping B)[i := 0],
      has_allowed_token_ids := has_allowed_token_ids B - {r},
      allowed_token_ids_mask_cpu_tensor :=
        map_option (\<lambda>m. m[i := replicate (vocab_size B) False]) (allowed_token_ids_mask_cpu_tensor B),
      bad_words_token_ids := (bad_words_token_ids B)(i := None),
      ib_pooling_params := dict_pop r (ib_pooling_params B)\<rparr>"

lemma removed_fields:
  "req_ids (removed_row B r i bb) = (req_ids B)[i := None]"
  "req_output_token_ids (removed_row B r i bb) = (req_output_token_ids B)[i := None]"
  "req_id_to_index (removed_row B r i bb) = dict_pop r (req_id_to_index B)"
  "batch_update_builder (removed_row B r i bb) = bb"
  "is_pooling_model (removed_row B r i bb) = is_pooling_model B"
  "max_num_reqs (removed_row B r i bb) = max_num_reqs B"
  "generators (removed_row B r i bb) = (generators B)(i := None)"
  "bad_words_token_ids (removed_row B r i bb) = (bad_words_token_ids B)(i := None)"
  "request_lora_mapping (removed_row B r i bb) = (request_lora_mapping B)[i := 0]"
  "lora_id_to_request_ids (removed_row B r i bb) = lora_ids_without (lora_id_to_request_ids B) (request_lora_mapping B ! i) r"
  "lora_id_to_lora_request (removed_row B r i bb) =
     loras_without (lora_id_to_request_ids B) (request_lora_mapping B ! i) r (lora_id_to_lora_request B)"
  "allowed_token_ids_mask_cpu_tensor (removed_row B r i bb) =
     map_option (\<lambda>m. m[i := replicate (vocab_size B) False]) (allowed_token_ids_mask_cpu_tensor B)"
  by (simp_all add: removed_row_def clear_request_def)

lemma removed_flags:
  "flags (removed_row B r i bb) = (flags B)(r := no_flags)"
  "flags_ok B \<Longrightarrow> flags_ok (removed_row B r i bb)"
proof -
  show fl: "flags (removed_row B r i bb) = (flags B)(r := no_flags)"
    by (rule ext) (simp add: flags_def no_flags_def removed_row_def clear_request_def map_of_dict_pop)
  have "num_logprobs (removed_row B r i bb) = dict_pop r (num_logprobs B)" by (simp add: removed_row_def clear_request_def)
  then show "flags_ok B \<Longrightarrow> flags_ok (removed_row B r i bb)"
    by (auto simp: flags_ok_def fl removed_fields map_of_dict_pop distinct_dict_pop)
qed

lemma lora_lookup:
  assumes "lora_ok_batch B" "map_of (req_id_to_index B) r = Some i"
  shows "request_lora_mapping B ! i = 0 \<or>
    lora_id_to_request_ids B (request_lora_mapping B ! i) = Some (members B (request_lora_mapping B ! i))"
    "r \<in> members B (request_lora_mapping B ! i)"
proof -
  show m: "r \<in> members B (request_lora_mapping B ! i)" using assms(2) by (auto simp: members_def)
  then have "members B (request_lora_mapping B ! i) \<noteq> {}" by blast
  then show "request_lora_mapping B ! i = 0 \<or>
    lora_id_to_request_ids B (request_lora_mapping B ! i) = Some (members B (request_lora_mapping B ! i))"
    using assms(1) by (auto simp: lora_ok_batch_def)
qed

lemma remove_request_eq:
  assumes "batch_inv B" "map_of (req_id_to_index B) r = Some i"
    "bb_removed_append (be_builder env) (batch_update_builder B) i = Inr bb"
  shows "ib_remove_request env B r = Inr (Some i, removed_row B r i bb)"
proof -
  let ?B2 = "clear_request (B\<lparr>batch_update_builder := bb\<rparr>) r i"
  have ix: "index_ok B" and lo: "lora_ok_batch B" using assms(1) by (simp_all add: batch_inv_def)
  have same: "request_lora_mapping ?B2 = request_lora_mapping B" "lora_id_to_request_ids ?B2 = lora_id_to_request_ids B"
    "lora_id_to_lora_request ?B2 = lora_id_to_lora_request B" by (simp_all add: clear_request_def)
  have "remove_lora ?B2 r i = Inr (?B2\<lparr>
     lora_id_to_request_ids := lora_ids_without (lora_id_to_request_ids B) (request_lora_mapping B ! i) r,
     lora_id_to_lora_request := loras_without (lora_id_to_request_ids B) (request_lora_mapping B ! i) r (lora_id_to_lora_request B),
     request_lora_mapping := (request_lora_mapping B)[i := 0]\<rparr>)"
    using remove_lora_frame [of ?B2 i r] lora_lookup(1) [OF lo assms(2)] lo unfolding same lora_ok_batch_def by auto
  moreover have "i < length (req_ids B)" "\<not> is_pooling_model B"
    using index_lookup [OF ix] assms(2) ix by (simp_all add: index_ok_def)
  ultimately show ?thesis
    using assms(2,3) by (simp add: ib_remove_request_def removed_row_def) (simp add: clear_request_def)
qed

lemma row_at_removed: "j \<noteq> i \<Longrightarrow> row_at env (removed_row B r i bb) j = row_at env B j"
  by (simp add: row_at_def removed_row_def clear_request_def)

lemma removed_index:
  assumes "index_ok B" "map_of (req_id_to_index B) r = Some i"
  shows "index_ok (removed_row B r i bb)" "holes (removed_row B r i bb) = insert i (holes B)"
    "active (removed_row B r i bb) = active B - {i}"
proof -
  have i: "i < length (req_ids B)" "req_ids B ! i = Some r" using index_lookup [OF assms(1)] assms(2) by auto
  have "map_of (dict_pop r (req_id_to_index B)) r' = Some j \<longleftrightarrow> j < length (req_ids B) \<and> (req_ids B)[i := None] ! j = Some r'" for r' j
    using index_lookup [OF assms(1), of r' j] i assms(2)
    by (cases "j = i"; cases "r' = r") (auto simp: map_of_dict_pop)
  then show "index_ok (removed_row B r i bb)"
    using assms(1) by (simp add: index_ok_def removed_fields distinct_dict_pop)
  show "holes (removed_row B r i bb) = insert i (holes B)" "active (removed_row B r i bb) = active B - {i}"
    using i by (auto simp: holes_def active_def removed_fields nth_list_update split: if_splits)
qed

lemma removed_lora:
  assumes "lora_ok_batch B" "index_ok B" "map_of (req_id_to_index B) r = Some i"
  shows "lora_ok_batch (removed_row B r i bb)"
proof -
  let ?k = "request_lora_mapping B ! i"
  have "members (removed_row B r i bb) k = members B k - {r}" for k
  proof -
    have "j \<noteq> i" if "map_of (req_id_to_index B) r' = Some j" "r' \<noteq> r" for r' j
      using that index_lookup [OF assms(2)] assms(3) by auto
    then show ?thesis by (fastforce simp: members_def removed_fields map_of_dict_pop split: if_splits)
  qed
  moreover have "r \<notin> members B k" if "k \<noteq> ?k" for k using that assms(3) by (auto simp: members_def)
  ultimately have m: "members (removed_row B r i bb) k = (if k = ?k then members B k - {r} else members B k)" for k by auto
  show ?thesis
    using assms(1) lora_lookup [OF assms(1,3)]
    by (auto simp: lora_ok_batch_def m removed_fields lora_ids_without_def loras_without_def map_of_dict_pop set_dict_pop
        split: if_splits)
qed

context batch_parts
begin

lemma remove_request_ok:
  assumes "updating env B" "map_of (req_id_to_index B) r = Some i"
    "bb_removed_append (be_builder env) (batch_update_builder B) i = Inr bb"
  shows "\<exists>B'. ib_remove_request env B r = Inr (Some i, B') \<and> updating env B' \<and> view env B' = (view env B)(r := None) \<and>
    flags B' = (flags B)(r := no_flags)"
proof -
  let ?B' = "removed_row B r i bb"
  have inv: "arrays_ok B" "index_ok B" "rows_ok B" "lora_ok_batch B" "batch_inv B" "flags_ok B"
    and b: "distinct (bb_removed (be_builder env) (batch_update_builder B))"
      "set (bb_removed (be_builder env) (batch_update_builder B)) = holes B"
    using assms(1) by (simp_all add: updating_def batch_inv_def)
  have i: "i \<notin> holes B" "i < max_num_reqs B"
    using index_lookup [OF inv(2)] assms(2) inv(2) by (auto simp: holes_def index_ok_def)
  note ix = removed_index [OF inv(2) assms(2), of bb]
  have "arrays_ok ?B'" using inv(1) by (auto simp: arrays_ok_def removed_row_def clear_request_def)
  moreover have "rows_ok ?B'" using inv(3) by (auto simp: rows_ok_def ix removed_fields)
  moreover have "masks_ok ?B'" using inv(5) by (auto simp: batch_inv_def masks_ok_def removed_row_def clear_request_def)
  ultimately have "updating env ?B'"
    using ix removed_lora [OF inv(4,2) assms(2), of bb] removed_flags(2) [OF inv(6)] set_removed_append [OF assms(3)] b
      distinct_removed_append [OF assms(3) b(1)] i(1)
    by (simp add: updating_def batch_inv_def removed_fields)
  moreover have "view env ?B' = (view env B)(r := None)"
  proof
    fix r'
    have "j \<noteq> i" if "map_of (req_id_to_index B) r' = Some j" "r' \<noteq> r" for j
      using that index_lookup [OF inv(2)] assms(2) by auto
    then show "view env ?B' r' = ((view env B)(r := None)) r'"
      by (cases "map_of (req_id_to_index B) r'") (auto simp: view_def removed_fields map_of_dict_pop row_at_removed)
  qed
  ultimately show ?thesis using remove_request_eq [OF inv(5) assms(2,3)] removed_flags(1) [of B r i bb] by blast
qed

end

subsection \<open>Swapping\<close>

definition tr :: "nat \<Rightarrow> nat \<Rightarrow> nat \<Rightarrow> nat" where
  "tr i j k = (if k = i then j else if k = j then i else k)"

lemma tr_tr [simp]: "tr i j (tr i j k) = k"
  by (simp add: tr_def)

lemma tr_eq_iff: "tr i j k = k' \<longleftrightarrow> k = tr i j k'"
  by (auto simp: tr_def)

lemma tr_less: "i < n \<Longrightarrow> j < n \<Longrightarrow> tr i j k < n \<longleftrightarrow> k < n"
  by (auto simp: tr_def)

lemma list_swap_nth: "i < length xs \<Longrightarrow> j < length xs \<Longrightarrow> list_swap xs i j ! k = xs ! tr i j k"
  by (auto simp: list_swap_def tr_def nth_list_update)

lemma length_list_swap [simp]: "length (list_swap xs i j) = length xs"
  by (simp add: list_swap_def)

text \<open>The batch after a swap, as one update.\<close>

definition swapped ::
  "('bb, 'up, 'bt, 'lp) batch_env \<Rightarrow> ('bb, 'bt, 'lp) input_batch \<Rightarrow> nat \<Rightarrow> nat \<Rightarrow> rid \<Rightarrow> rid \<Rightarrow> ('bb, 'bt, 'lp) input_batch" where
  "swapped env B i1 i2 r1 r2 =
     swap_arrays env
       (B\<lparr>batch_update_builder := bb_moved_append (be_builder env) (batch_update_builder B) (i1, i2, SWAP),
          req_ids := list_swap (req_ids B) i1 i2, req_output_token_ids := list_swap (req_output_token_ids B) i1 i2,
          req_id_to_index := dict_set r2 i1 (dict_set r1 i2 (req_id_to_index B))\<rparr>) i1 i2"

lemma swapped_fields:
  "req_ids (swapped env B i1 i2 r1 r2) = list_swap (req_ids B) i1 i2"
  "req_output_token_ids (swapped env B i1 i2 r1 r2) = list_swap (req_output_token_ids B) i1 i2"
  "req_id_to_index (swapped env B i1 i2 r1 r2) = dict_set r2 i1 (dict_set r1 i2 (req_id_to_index B))"
  "batch_update_builder (swapped env B i1 i2 r1 r2) = bb_moved_append (be_builder env) (batch_update_builder B) (i1, i2, SWAP)"
  "is_pooling_model (swapped env B i1 i2 r1 r2) = is_pooling_model B"
  "max_num_reqs (swapped env B i1 i2 r1 r2) = max_num_reqs B"
  "generators (swapped env B i1 i2 r1 r2) = be_swap_generators env (generators B) i1 i2"
  "bad_words_token_ids (swapped env B i1 i2 r1 r2) = be_swap_bad_words env (bad_words_token_ids B) i1 i2"
  "request_lora_mapping (swapped env B i1 i2 r1 r2) = list_swap (request_lora_mapping B) i1 i2"
  "lora_id_to_request_ids (swapped env B i1 i2 r1 r2) = lora_id_to_request_ids B"
  "lora_id_to_lora_request (swapped env B i1 i2 r1 r2) = lora_id_to_lora_request B"
  "allowed_token_ids_mask_cpu_tensor (swapped env B i1 i2 r1 r2) =
     map_option (\<lambda>m. swap_rows_by_view m i1 i2) (allowed_token_ids_mask_cpu_tensor B)"
  by (simp_all add: swapped_def swap_arrays_def)

definition swap_pre :: "('bb, 'bt, 'lp) input_batch \<Rightarrow> nat \<Rightarrow> nat \<Rightarrow> rid \<Rightarrow> rid \<Rightarrow> bool" where
  "swap_pre B i1 i2 r1 r2 \<longleftrightarrow>
     batch_inv B \<and> i1 < length (req_ids B) \<and> req_ids B ! i1 = Some r1 \<and> i2 < length (req_ids B) \<and> req_ids B ! i2 = Some r2"

lemma swap_preD:
  assumes "swap_pre B i1 i2 r1 r2"
  shows "arrays_ok B" "index_ok B" "rows_ok B" "lora_ok_batch B"
    "i1 < length (req_ids B)" "req_ids B ! i1 = Some r1" "i2 < length (req_ids B)" "req_ids B ! i2 = Some r2"
    "i1 < max_num_reqs B" "i2 < max_num_reqs B"
    "map_of (req_id_to_index B) r1 = Some i1" "map_of (req_id_to_index B) r2 = Some i2"
  using assms by (simp_all add: swap_pre_def batch_inv_def index_ok_def)

lemma swap_states_eq: "swap_pre B i1 i2 r1 r2 \<Longrightarrow> swap_states env B i1 i2 = Inr (swapped env B i1 i2 r1 r2)"
  using swap_preD [of B i1 i2 r1 r2] by (simp add: swap_states_def swapped_def)

lemma swapped_lookup:
  assumes "swap_pre B i1 i2 r1 r2"
  shows "map_of (req_id_to_index (swapped env B i1 i2 r1 r2)) r = map_option (tr i1 i2) (map_of (req_id_to_index B) r)"
proof -
  note pre = swap_preD [OF assms]
  have "tr i1 i2 k = k" if "map_of (req_id_to_index B) r = Some k" "r \<noteq> r1" "r \<noteq> r2" for k
    using that index_lookup [OF pre(2), of r k] pre(6,8) by (auto simp: tr_def)
  moreover have "i1 = i2" if "r1 = r2" using that pre(11,12) by simp
  ultimately show ?thesis using pre(11,12)
    by (cases "map_of (req_id_to_index B) r") (auto simp: swapped_fields update_conv' tr_def)
qed

lemma swapped_rows_iff:
  assumes "swap_pre B i1 i2 r1 r2"
  shows "k \<in> active (swapped env B i1 i2 r1 r2) \<longleftrightarrow> tr i1 i2 k \<in> active B"
    "k \<in> holes (swapped env B i1 i2 r1 r2) \<longleftrightarrow> tr i1 i2 k \<in> holes B"
  using swap_preD(5,7) [OF assms] by (simp_all add: active_def holes_def swapped_fields list_swap_nth tr_less)

lemma swapped_holes:
  assumes "swap_pre B i1 i2 r1 r2"
  shows "holes (swapped env B i1 i2 r1 r2) = holes B"
proof -
  have "i1 \<notin> holes B" "i2 \<notin> holes B" using swap_preD(6,8) [OF assms] by (simp_all add: holes_def)
  then have "tr i1 i2 k \<in> holes B \<longleftrightarrow> k \<in> holes B" for k by (auto simp: tr_def)
  then show ?thesis using swapped_rows_iff(2) [OF assms] by blast
qed

lemma swapped_index:
  assumes "swap_pre B i1 i2 r1 r2"
  shows "index_ok (swapped env B i1 i2 r1 r2)"
proof -
  let ?B' = "swapped env B i1 i2 r1 r2"
  note pre = swap_preD [OF assms]
  have "map_of (req_id_to_index ?B') r = Some k \<longleftrightarrow> k < length (req_ids ?B') \<and> req_ids ?B' ! k = Some r" for r k
  proof -
    have "map_of (req_id_to_index ?B') r = Some k \<longleftrightarrow> map_of (req_id_to_index B) r = Some (tr i1 i2 k)"
      by (auto simp: swapped_lookup [OF assms] tr_eq_iff)
    then show ?thesis
      using index_lookup [OF pre(2), of r "tr i1 i2 k"] pre(5,7) by (simp add: swapped_fields(1) list_swap_nth tr_less)
  qed
  then show ?thesis using pre(2)
    by (simp add: index_ok_def swapped_fields(1,2,5,6)) (simp add: swapped_fields(3) distinct_update)
qed

lemma swapped_arrays:
  assumes "swap_pre B i1 i2 r1 r2"
  shows "arrays_ok (swapped env B i1 i2 r1 r2)"
proof -
  note pre = swap_preD [OF assms]
  have "\<forall>k < max_num_reqs B. length (list_swap (token_ids_cpu B) i1 i2 ! k) = max_model_len B"
    using pre(1,9,10) by (simp add: list_swap_nth arrays_ok_def tr_less)
  then show ?thesis
    using pre(1) by (auto simp: arrays_ok_def swapped_def swap_arrays_def swap_rows_by_view_def Let_def)
qed

lemma swapped_flags:
  "flags (swapped env B i1 i2 r1 r2) = flags B"
  "swap_pre B i1 i2 r1 r2 \<Longrightarrow> flags_ok (swapped env B i1 i2 r1 r2)"
  "masks_ok (swapped env B i1 i2 r1 r2) = masks_ok B"
proof -
  show "masks_ok (swapped env B i1 i2 r1 r2) = masks_ok B" by (simp add: masks_ok_def swapped_def swap_arrays_def)
  show fl: "flags (swapped env B i1 i2 r1 r2) = flags B" by (rule ext) (simp add: flags_def swapped_def swap_arrays_def)
  show "flags_ok (swapped env B i1 i2 r1 r2)" if pre: "swap_pre B i1 i2 r1 r2"
  proof -
    have "flags_ok B" using pre by (simp add: swap_pre_def batch_inv_def)
    moreover have "num_logprobs (swapped env B i1 i2 r1 r2) = num_logprobs B" by (simp add: swapped_def swap_arrays_def)
    ultimately show ?thesis using flags_ok_cong [OF fl] by (simp add: swapped_lookup [OF pre])
  qed
qed

lemma swapped_lora:
  assumes "swap_pre B i1 i2 r1 r2"
  shows "lora_ok_batch (swapped env B i1 i2 r1 r2)"
proof -
  note pre = swap_preD [OF assms]
  have "length (request_lora_mapping B) = max_num_reqs B" using pre(1) by (simp add: arrays_ok_def)
  then have "members (swapped env B i1 i2 r1 r2) k = members B k" for k
    using pre(9,10) by (auto simp: members_def swapped_lookup [OF assms] swapped_fields(9) list_swap_nth)
  then show ?thesis using pre(4) by (simp add: lora_ok_batch_def swapped_fields(10,11))
qed

context batch_parts
begin

lemma swap_tr:
  "be_swap_generators env g i j k = g (tr i j k)" "be_swap_bad_words env w i j k = w (tr i j k)"
  "bt_row (be_table env) (bt_swap_row (be_table env) t i j) k = bt_row (be_table env) t (tr i j k)"
  by (simp_all add: swap_generators swap_bad_words swap_row tr_def)

lemma row_at_swapped:
  assumes "swap_pre B i1 i2 r1 r2"
  shows "row_at env (swapped env B i1 i2 r1 r2) k = row_at env B (tr i1 i2 k)"
proof -
  note pre = swap_preD [OF assms]
  have "length (req_output_token_ids B) = length (req_ids B)" using pre(2) by (simp add: index_ok_def)
  then show ?thesis
    using pre(1,5,7,9,10) by (simp add: row_at_def swapped_def swap_arrays_def list_swap_nth arrays_ok_def swap_tr)
qed

lemma swap_states_ok:
  assumes "swap_pre B i1 i2 r1 r2"
  shows "view env (swapped env B i1 i2 r1 r2) = view env B" "batch_inv (swapped env B i1 i2 r1 r2)"
proof -
  show "view env (swapped env B i1 i2 r1 r2) = view env B"
    by (rule ext) (simp add: view_def swapped_lookup [OF assms] row_at_swapped [OF assms] option.map_comp comp_def)
  have "rows_ok (swapped env B i1 i2 r1 r2)"
    using swap_preD(3) [OF assms] swapped_rows_iff(1) [OF assms, of _ env]
    by (auto simp: rows_ok_def swapped_fields swap_tr domIff subset_iff)
  then show "batch_inv (swapped env B i1 i2 r1 r2)"
    using swapped_arrays [OF assms, of env] swapped_index [OF assms, of env] swapped_lora [OF assms, of env]
      swapped_flags(2) [OF assms, of env] assms by (simp add: batch_inv_def swapped_flags(3) swap_pre_def)
qed

end

subsection \<open>Condensing\<close>

lemma skip_empty_spec:
  "skip_empty removed n \<le> n \<and> skip_empty removed n \<notin> int ` set removed \<and>
   (\<forall>x. skip_empty removed n < x \<longrightarrow> x \<le> n \<longrightarrow> x \<in> int ` set removed)"
proof (induction removed n rule: skip_empty.induct)
  case (1 removed n)
  show ?case
  proof (cases "n \<in> int ` set removed")
    case True
    then have "skip_empty removed n = skip_empty removed (n - 1)" by (simp add: skip_empty.simps [of removed n])
    moreover have "x \<in> int ` set removed" if "skip_empty removed (n - 1) < x" "x \<le> n" for x
      using 1 [OF True] that True by (cases "x = n") auto
    ultimately show ?thesis using 1 [OF True] by auto
  next
    case False
    then show ?thesis by (simp add: skip_empty.simps [of removed n])
  qed
qed

definition move_pre :: "('bb, 'bt, 'lp) input_batch \<Rightarrow> nat \<Rightarrow> nat \<Rightarrow> rid \<Rightarrow> bool" where
  "move_pre B l e r \<longleftrightarrow> batch_inv B \<and> l < length (req_ids B) \<and> req_ids B ! l = Some r \<and> e \<in> holes B"

lemma move_preD:
  assumes "move_pre B l e r"
  shows "arrays_ok B" "index_ok B" "rows_ok B" "lora_ok_batch B" "l < length (req_ids B)" "req_ids B ! l = Some r"
    "e < length (req_ids B)" "req_ids B ! e = None" "l \<noteq> e" "l < max_num_reqs B" "e < max_num_reqs B"
    "map_of (req_id_to_index B) r = Some l" "generators B e = None" "bad_words_token_ids B e = None"
  using assms by (auto simp: move_pre_def batch_inv_def index_ok_def holes_def rows_ok_def active_def)

lemma move_row_fields:
  "req_ids (move_row env B l e r) = (req_ids B)[e := Some r, l := None]"
  "req_output_token_ids (move_row env B l e r) = (req_output_token_ids B)[e := req_output_token_ids B ! l, l := None]"
  "req_id_to_index (move_row env B l e r) = dict_set r e (req_id_to_index B)"
  "batch_update_builder (move_row env B l e r) = batch_update_builder B"
  "is_pooling_model (move_row env B l e r) = is_pooling_model B"
  "max_num_reqs (move_row env B l e r) = max_num_reqs B"
  "request_lora_mapping (move_row env B l e r) = (request_lora_mapping B)[e := request_lora_mapping B ! l]"
  "lora_id_to_request_ids (move_row env B l e r) = lora_id_to_request_ids B"
  "lora_id_to_lora_request (move_row env B l e r) = lora_id_to_lora_request B"
  "allowed_token_ids_mask_cpu_tensor (move_row env B l e r) =
     map_option (\<lambda>m. m[e := m ! l]) (allowed_token_ids_mask_cpu_tensor B)"
  by (simp_all add: move_row_def Let_def)

lemma move_row_maps:
  assumes "generators B e = None" "bad_words_token_ids B e = None" "l \<noteq> e"
  shows "generators (move_row env B l e r) = (generators B)(e := generators B l, l := None)"
    "bad_words_token_ids (move_row env B l e r) = (bad_words_token_ids B)(e := bad_words_token_ids B l, l := None)"
  using assms by (auto simp: move_row_def Let_def fun_eq_iff split: option.split)

lemma moved_lookup:
  "map_of (req_id_to_index (move_row env B l e r)) r' = (if r' = r then Some e else map_of (req_id_to_index B) r')"
  by (simp add: move_row_fields update_conv')

lemma moved_index:
  assumes "move_pre B l e r"
  shows "index_ok (move_row env B l e r)" "active (move_row env B l e r) = insert e (active B - {l})"
    "num_reqs (move_row env B l e r) = num_reqs B"
proof -
  let ?B' = "move_row env B l e r"
  note pre = move_preD [OF assms]
  have nth: "req_ids ?B' ! j = (if j = l then None else if j = e then Some r else req_ids B ! j)" for j
    using pre(5,7,9) by (simp add: move_row_fields nth_list_update)
  have len: "length (req_ids ?B') = length (req_ids B)" by (simp add: move_row_fields)
  have "map_of (req_id_to_index ?B') r' = Some j \<longleftrightarrow> j < length (req_ids ?B') \<and> req_ids ?B' ! j = Some r'" for r' j
    using index_lookup [OF pre(2), of r' j] index_lookup [OF pre(2), of r j] pre(5-9,12)
    unfolding nth len moved_lookup by auto
  then show "index_ok ?B'" using pre(2)
    by (simp add: index_ok_def len move_row_fields(5,6)) (simp add: move_row_fields(2,3) distinct_update)
  have "j \<in> active ?B' \<longleftrightarrow> j = e \<or> j \<in> active B \<and> j \<noteq> l" for j
    unfolding active_def mem_Collect_eq nth len using pre(5-9) by auto
  then show "active ?B' = insert e (active B - {l})" by blast
  have "length (dict_set r e (req_id_to_index B)) = length (req_id_to_index B)"
    by (rule length_dict_set_old) (simp add: pre(12))
  then show "num_reqs ?B' = num_reqs B" by (simp add: num_reqs_def move_row_fields)
qed

lemma moved_arrays:
  assumes "move_pre B l e r"
  shows "arrays_ok (move_row env B l e r)"
proof -
  note pre = move_preD [OF assms]
  let ?n = "ib_num_tokens B ! l"
  have "length (token_ids_cpu B ! l) = max_model_len B" "length (token_ids_cpu B ! e) = max_model_len B"
    using pre(1,10,11) by (simp_all add: arrays_ok_def)
  then have "\<forall>j < max_num_reqs B. length ((token_ids_cpu B)[e := take ?n (token_ids_cpu B ! l) @ drop ?n (token_ids_cpu B ! e)] ! j)
     = max_model_len B"
    using pre(1) by (intro rows_update) (simp_all add: arrays_ok_def)
  then show ?thesis using pre(1) by (auto simp: arrays_ok_def move_row_def Let_def)
qed

lemma moved_lora:
  assumes "move_pre B l e r"
  shows "lora_ok_batch (move_row env B l e r)"
proof -
  note pre = move_preD [OF assms]
  have len: "e < length (request_lora_mapping B)" using pre(1,11) by (simp add: arrays_ok_def)
  have neq: "j \<noteq> e" if "map_of (req_id_to_index B) r' = Some j" for r' j
    using that index_lookup [OF pre(2), of r' j] pre(8) by auto
  have "r' \<in> members (move_row env B l e r) k \<longleftrightarrow> r' \<in> members B k" for r' k
  proof (cases "map_of (req_id_to_index B) r'")
    case (Some j)
    then show ?thesis using pre(12) len neq [OF Some] unfolding members_def moved_lookup move_row_fields(7) mem_Collect_eq
      by (cases "r' = r") auto
  qed (use pre(12) in \<open>auto simp: members_def moved_lookup\<close>)
  then have "members (move_row env B l e r) k = members B k" for k by blast
  then show ?thesis using pre(4) by (simp add: lora_ok_batch_def move_row_fields)
qed

lemma moved_rows_ok:
  assumes "move_pre B l e r"
  shows "rows_ok (move_row env B l e r)"
proof -
  note pre = move_preD [OF assms]
  have "l \<in> active B" using pre(5,6) by (simp add: active_def)
  then show ?thesis
    using pre(3,9) unfolding rows_ok_def moved_index(2) [OF assms] move_row_maps [OF pre(13,14,9)]
    by (auto simp: dom_def split: if_splits)
qed

lemma moved_flags:
  "flags (move_row env B l e r) = flags B"
  "move_pre B l e r \<Longrightarrow> flags_ok (move_row env B l e r)"
  "masks_ok (move_row env B l e r) = masks_ok B"
proof -
  show "masks_ok (move_row env B l e r) = masks_ok B" by (simp add: masks_ok_def move_row_def Let_def)
  show fl: "flags (move_row env B l e r) = flags B" by (rule ext) (simp add: flags_def move_row_def Let_def)
  show "flags_ok (move_row env B l e r)" if pre: "move_pre B l e r"
  proof -
    have "flags_ok B" using pre by (simp add: move_pre_def batch_inv_def)
    moreover have "num_logprobs (move_row env B l e r) = num_logprobs B" by (simp add: move_row_def Let_def)
    ultimately show ?thesis using flags_ok_cong [OF fl] move_preD(12) [OF pre] by (simp add: moved_lookup)
  qed
qed

lemma moved_inv: "move_pre B l e r \<Longrightarrow> batch_inv (move_row env B l e r)"
  using moved_flags(2) [of B l e r env] moved_arrays [of B l e r env] moved_index(1) [of B l e r env] moved_rows_ok [of B l e r env] moved_lora [of B l e r env]
  by (simp add: batch_inv_def moved_flags(3) move_pre_def)

text \<open>A move keeps the mask row of every request.\<close>

lemma moved_mask:
  assumes "move_pre B l e r"
  shows "mask_of (move_row env B l e r) r' = mask_of B r'"
proof -
  note pre = move_preD [OF assms]
  have "j \<noteq> e" if "map_of (req_id_to_index B) r' = Some j" for j
    using that index_lookup [OF pre(2), of r' j] pre(8) by auto
  then show ?thesis
    using pre(11,12) mask_length [OF pre(1)] unfolding mask_of_def moved_lookup move_row_fields(10)
    by (auto split: option.splits if_splits)
qed

context batch_parts
begin

lemma row_at_moved_to:
  assumes "move_pre B l e r"
  shows "row_at env (move_row env B l e r) e = row_at env B l"
proof -
  note pre = move_preD [OF assms]
  have "length (req_output_token_ids B) = length (req_ids B)" using pre(2) by (simp add: index_ok_def)
  moreover have "generators (move_row env B l e r) e = generators B l" "bad_words_token_ids (move_row env B l e r) e = bad_words_token_ids B l"
    using move_row_maps [OF pre(13,14,9), of env r] pre(9) by simp_all
  moreover have "min (ib_num_tokens B ! l) (length (token_ids_cpu B ! l)) = ib_num_tokens B ! l \<or>
      drop (ib_num_tokens B ! l) (token_ids_cpu B ! e) = []"
    using pre(1,10,11) by (auto simp: arrays_ok_def)
  ultimately show ?thesis
    using pre(1,5,7,9,10,11)
    by (auto simp: row_at_def move_row_fields(2) arrays_ok_def) (auto simp: move_row_def Let_def move_row_to)
qed

lemma row_at_moved_other:
  assumes "move_pre B l e r" "j \<noteq> l" "j \<noteq> e"
  shows "row_at env (move_row env B l e r) j = row_at env B j"
proof -
  note pre = move_preD [OF assms(1)]
  have "generators (move_row env B l e r) j = generators B j" "bad_words_token_ids (move_row env B l e r) j = bad_words_token_ids B j"
    using move_row_maps [OF pre(13,14,9), of env r] assms(2,3) by simp_all
  then show ?thesis
    using assms(2,3) by (simp add: row_at_def move_row_fields(2)) (simp add: move_row_def Let_def move_row_to)
qed

lemma moved_view:
  assumes "move_pre B l e r"
  shows "view env (move_row env B l e r) = view env B"
proof
  fix r'
  note pre = move_preD [OF assms]
  show "view env (move_row env B l e r) r' = view env B r'"
  proof (cases "r' = r")
    case True
    then show ?thesis using pre(12) row_at_moved_to [OF assms] by (simp add: view_def moved_lookup)
  next
    case False
    have "row_at env (move_row env B l e r) j = row_at env B j" if "map_of (req_id_to_index B) r' = Some j" for j
      using that index_lookup [OF pre(2), of r' j] pre(6,8) False by (intro row_at_moved_other [OF assms]) auto
    then show ?thesis using False by (cases "map_of (req_id_to_index B) r'") (simp_all add: view_def moved_lookup)
  qed
qed

end

text \<open>The invariant of the loop: every row above \<open>n\<close> is empty, and below it the builder knows the holes.\<close>

definition condense_inv ::
  "('bb, 'up, 'bt, 'lp) batch_env \<Rightarrow> ('bb, 'bt, 'lp) input_batch \<Rightarrow> int \<Rightarrow> bool" where
  "condense_inv env B n \<longleftrightarrow>
     (let rm = bb_removed (be_builder env) (batch_update_builder B) in
      batch_inv B \<and> n < int (length (req_ids B)) \<and> distinct rm \<and> set rm \<subseteq> holes B \<and>
      (\<forall>i. i < length (req_ids B) \<longrightarrow> req_ids B ! i = None \<longrightarrow> i \<in> set rm \<or> n < int i) \<and>
      (\<forall>i. i < length (req_ids B) \<longrightarrow> n < int i \<longrightarrow> req_ids B ! i = None))"

definition packed :: "('bb, 'bt, 'lp) input_batch \<Rightarrow> bool" where
  "packed B \<longleftrightarrow> active B = {..<num_reqs B}"

lemma packedI:
  assumes "index_ok B" "\<And>i. i < length (req_ids B) \<Longrightarrow> req_ids B ! i \<noteq> None \<longleftrightarrow> int i \<le> n" "n < int (length (req_ids B))"
  shows "packed B"
proof -
  have "i \<in> active B \<longleftrightarrow> i < nat (n + 1)" for i
    unfolding active_def mem_Collect_eq using assms(2) [of i] assms(3) by (cases "i < length (req_ids B)") auto
  then have "active B = {..<nat (n + 1)}" by blast
  then show ?thesis using num_reqs_active [OF assms(1)] by (simp add: packed_def)
qed

lemma packed_trim:
  assumes "batch_inv B" "packed B" "num_reqs B = n"
  shows "batch_inv (trim B n)" "holes (trim B n) = {}" "length (req_ids (trim B n)) = num_reqs (trim B n)"
proof -
  note inv = assms(1) [unfolded batch_inv_def]
  have n: "n \<le> length (req_ids B)" using inv length_req_ids [of B] assms(3) by simp
  have act: "i < n \<longleftrightarrow> i < length (req_ids B) \<and> req_ids B ! i \<noteq> None" for i
    using assms(2,3) by (auto simp: packed_def active_def)
  have "index_ok (trim B n)"
    using inv act n by (auto simp: index_ok_def trim_def)
  moreover have "active (trim B n) = active B"
  proof -
    have "i \<in> active (trim B n) \<longleftrightarrow> i \<in> active B" for i
      using act [of i] n unfolding active_def mem_Collect_eq trim_def by (cases "i < n") auto
    then show ?thesis by blast
  qed
  moreover have "members (trim B n) = members B" by (simp add: members_def trim_def fun_eq_iff)
  moreover have "arrays_ok (trim B n)" using inv by (simp add: arrays_ok_def trim_def)
  moreover have "flags_ok (trim B n)" "masks_ok (trim B n)"
    using inv by (simp_all add: flags_ok_def flags_def masks_ok_def trim_def)
  ultimately show "batch_inv (trim B n)"
    using inv by (simp add: batch_inv_def rows_ok_def lora_ok_batch_def) (simp add: trim_def)
  have "i \<notin> holes (trim B n)" for i
    using act [of i] n unfolding holes_def mem_Collect_eq trim_def by (cases "i < n") auto
  then show "holes (trim B n) = {}" by blast
  show "length (req_ids (trim B n)) = num_reqs (trim B n)" using n assms(3) by (simp add: trim_def num_reqs_def)
qed

lemma trim_view:
  assumes "batch_inv B" "packed B" "num_reqs B = n"
  shows "view env (trim B n) = view env B" "mask_of (trim B n) = mask_of B" "flags (trim B n) = flags B"
proof -
  have "j < n" if "map_of (req_id_to_index B) r = Some j" for r j
    using that assms index_lookup [of B r j] by (auto simp: packed_def active_def batch_inv_def set_eq_iff)
  then have "row_at env (trim B n) j = row_at env B j" if "map_of (req_id_to_index B) r = Some j" for r j
    using that by (simp add: row_at_def trim_def)
  then show "view env (trim B n) = view env B"
    unfolding view_def by (auto simp: fun_eq_iff trim_def [of B n] option.map_comp intro!: option.map_cong)
  show "mask_of (trim B n) = mask_of B" by (simp add: mask_of_def trim_def fun_eq_iff)
  show "flags (trim B n) = flags B" by (rule ext) (simp add: flags_def trim_def)
qed

context batch_parts
begin

text \<open>One turn of the loop.\<close>

lemma condense_turn:
  assumes "condense_inv env B n" "bb_removed (be_builder env) (batch_update_builder B) \<noteq> []"
    "l = skip_empty (bb_removed (be_builder env) (batch_update_builder B)) n"
    "e = last (bb_removed (be_builder env) (batch_update_builder B))" "int e < l"
  shows "\<exists>B'. condense_move env B (nat l) e = Inr B' \<and> condense_inv env B' (l - 1) \<and>
    view env B' = view env B \<and> mask_of B' = mask_of B \<and> flags B' = flags B \<and> num_reqs B' = num_reqs B \<and>
    length (bb_removed (be_builder env) (batch_update_builder B')) < length (bb_removed (be_builder env) (batch_update_builder B))"
proof -
  let ?ops = "be_builder env" and ?rm = "bb_removed (be_builder env) (batch_update_builder B)"
  let ?bb = "bb_moved_append ?ops (snd (bb_pop_removed ?ops (batch_update_builder B))) (nat l, e, UNIDIRECTIONAL)"
  let ?B0 = "B\<lparr>batch_update_builder := ?bb\<rparr>"
  have ci: "batch_inv B" "n < int (length (req_ids B))" "distinct ?rm" "set ?rm \<subseteq> holes B"
    "\<And>i. i < length (req_ids B) \<Longrightarrow> req_ids B ! i = None \<Longrightarrow> i \<in> set ?rm \<or> n < int i"
    "\<And>i. i < length (req_ids B) \<Longrightarrow> n < int i \<Longrightarrow> req_ids B ! i = None"
    using assms(1) by (auto simp: condense_inv_def Let_def)
  note sk = skip_empty_spec [of ?rm n, folded assms(3)]
  have e: "e \<in> set ?rm" unfolding assms(4) by (rule last_in_set) (rule assms(2))
  have l: "nat l < length (req_ids B)" "0 \<le> l" "l \<le> n" using sk assms(5) ci(2) by auto
  have l3: "nat l \<notin> set ?rm" using sk l(2) by (metis image_eqI int_nat_eq)
  have "req_ids B ! nat l \<noteq> None" using ci(5) [of "nat l"] l3 l by auto
  then obtain r where r: "req_ids B ! nat l = Some r" by blast
  have pre: "move_pre ?B0 (nat l) e r"
    unfolding move_pre_def builder_frame using ci(1,4) e l(1) r by auto
  let ?B' = "move_row env ?B0 (nat l) e r"
  have eq: "condense_move env B (nat l) e = Inr ?B'" using l(1) r by (simp add: condense_move_def Let_def)
  have rm: "bb_removed ?ops (batch_update_builder ?B') = butlast ?rm"
    using pop_nonempty [OF assms(2)] by (simp add: move_row_fields moved_keeps)
  have srm: "set (butlast ?rm) = set ?rm - {e}" using set_pop(1) [OF ci(3) assms(2)] pop_nonempty [OF assms(2)] assms(4) by simp
  have len: "length (req_ids ?B') = length (req_ids B)" by (simp add: move_row_fields)
  have nth: "req_ids ?B' ! i = (if i = nat l then None else if i = e then Some r else req_ids B ! i)" for i
    using move_preD(5,7,9) [OF pre] by (simp add: move_row_fields nth_list_update)
  have "condense_inv env ?B' (l - 1)"
    unfolding condense_inv_def Let_def rm srm
  proof (intro conjI allI impI)
    show "batch_inv ?B'" by (rule moved_inv [OF pre])
    show "l - 1 < int (length (req_ids ?B'))" using l(1,2) len by simp
    show "distinct (butlast ?rm)" using ci(3) by (rule distinct_butlast)
    show "set ?rm - {e} \<subseteq> holes ?B'" using ci(4) l3 by (auto simp: holes_def len nth)
    show "i \<in> set ?rm - {e} \<or> l - 1 < int i" if "i < length (req_ids ?B')" "req_ids ?B' ! i = None" for i
      using ci(5) [of i] that l(2,3) unfolding len nth by (auto split: if_splits)
    show "req_ids ?B' ! i = None" if "i < length (req_ids ?B')" "l - 1 < int i" for i
    proof (cases "i = nat l")
      case False
      then have "l < int i" using that(2) l(2) by auto
      then have "int i \<in> int ` set ?rm \<or> n < int i" using sk by force
      then have "req_ids B ! i = None" using ci(4,6) that(1) by (auto simp: holes_def len)
      then show ?thesis using \<open>l < int i\<close> assms(5) False by (simp add: nth)
    qed (simp add: nth)
  qed
  moreover have "view env ?B' = view env B" using moved_view [OF pre] by simp
  moreover have "mask_of ?B' = mask_of B" using moved_mask [OF pre, of env] by (simp add: fun_eq_iff)
  moreover have "num_reqs ?B' = num_reqs B" using moved_index(3) [OF pre, of env] by simp
  moreover have "flags ?B' = flags B" by (simp add: moved_flags)
  ultimately show ?thesis using eq rm assms(2) by auto
qed

lemma condense_stop:
  assumes "condense_inv env B n"
    "bb_removed (be_builder env) (batch_update_builder B) = [] \<or>
     skip_empty (bb_removed (be_builder env) (batch_update_builder B)) n \<le> int (last (bb_removed (be_builder env) (batch_update_builder B)))"
  shows "packed B"
proof -
  let ?rm = "bb_removed (be_builder env) (batch_update_builder B)"
  let ?l = "skip_empty ?rm n"
  note sk = skip_empty_spec [of ?rm n]
  have ci: "batch_inv B" "n < int (length (req_ids B))" "set ?rm \<subseteq> holes B"
    "\<And>i. i < length (req_ids B) \<Longrightarrow> req_ids B ! i = None \<Longrightarrow> i \<in> set ?rm \<or> n < int i"
    "\<And>i. i < length (req_ids B) \<Longrightarrow> n < int i \<Longrightarrow> req_ids B ! i = None"
    using assms(1) by (auto simp: condense_inv_def Let_def)
  have above: "?l < int i" if "i \<in> set ?rm" for i
  proof -
    have "?l \<le> int i" using assms(2) last_is_least [OF that] that by auto
    then show ?thesis using sk that by (metis imageI order_le_less)
  qed
  show ?thesis
  proof (rule packedI [where n = ?l])
    show "index_ok B" using ci(1) by (simp add: batch_inv_def)
    show "?l < int (length (req_ids B))" using sk ci(2) by simp
    fix i assume i: "i < length (req_ids B)"
    show "req_ids B ! i \<noteq> None \<longleftrightarrow> int i \<le> ?l"
    proof
      assume some: "req_ids B ! i \<noteq> None"
      show "int i \<le> ?l"
      proof (rule ccontr)
        assume "\<not> int i \<le> ?l"
        then have "i \<in> set ?rm \<or> n < int i" using sk by (metis inj_image_mem_iff inj_of_nat not_le)
        then show False using ci(3,5) i some by (auto simp: holes_def)
      qed
    next
      assume "int i \<le> ?l"
      then show "req_ids B ! i \<noteq> None" using ci(4) [OF i] above [of i] sk by auto
    qed
  qed
qed

lemma condense_loop_ok:
  "condense_inv env B n \<Longrightarrow>
   \<exists>B'. condense_loop env B n = Some (Inr B') \<and> batch_inv B' \<and> packed B' \<and> view env B' = view env B \<and>
     mask_of B' = mask_of B \<and> flags B' = flags B \<and> num_reqs B' = num_reqs B"
proof (induction "length (bb_removed (be_builder env) (batch_update_builder B))" arbitrary: B n rule: less_induct)
  case less
  let ?rm = "bb_removed (be_builder env) (batch_update_builder B)"
  have inv: "batch_inv B" using less.prems by (simp add: condense_inv_def Let_def)
  show ?case
  proof (cases "?rm = [] \<or> skip_empty ?rm n \<le> int (last ?rm)")
    case True
    then have "condense_loop env B n = Some (Inr B)"
      by (subst condense_loop.simps) (auto simp: Let_def peek)
    then show ?thesis using condense_stop [OF less.prems True] inv by simp
  next
    case False
    then obtain B' where t: "condense_move env B (nat (skip_empty ?rm n)) (last ?rm) = Inr B'"
      "condense_inv env B' (skip_empty ?rm n - 1)" "view env B' = view env B" "mask_of B' = mask_of B"
      "num_reqs B' = num_reqs B" "flags B' = flags B" "length (bb_removed (be_builder env) (batch_update_builder B')) < length ?rm"
      using condense_turn [OF less.prems _ refl refl] by auto
    have "condense_loop env B n = condense_loop env B' (skip_empty ?rm n - 1)"
      using False t(1) by (subst condense_loop.simps) (auto simp: Let_def peek)
    then show ?thesis using less.hyps [OF t(7) t(2)] t(3-6) by auto
  qed
qed

lemma condense_ok:
  assumes "updating env B"
  shows "\<exists>B'. condense env B = Some (Inr B') \<and> condensed B' \<and> view env B' = view env B \<and> mask_of B' = mask_of B \<and>
    flags B' = flags B \<and> num_reqs B' = num_reqs B \<and> length (req_ids B') = num_reqs B'"
proof -
  let ?rm = "bb_removed (be_builder env) (batch_update_builder B)"
  have u: "batch_inv B" "distinct ?rm" "set ?rm = holes B" using assms by (simp_all add: updating_def)
  then have ix: "index_ok B" by (simp add: batch_inv_def)
  have len: "length (req_ids B) = num_reqs B + length ?rm"
    using length_req_ids [OF ix] distinct_card [OF u(2)] u(3) by simp
  have np: "\<not> is_pooling_model B" using ix by (simp add: index_ok_def)
  consider "?rm = []" | "?rm \<noteq> []" "num_reqs B = 0" | "?rm \<noteq> []" "num_reqs B \<noteq> 0" by blast
  then show ?thesis
  proof cases
    case 1
    then show ?thesis using u(1,3) len np by (simp add: condense_def Let_def condensed_def)
  next
    case 2
    have "active B = {}" using num_reqs_active [OF ix] 2(2) rows_split(3) [of B] by simp
    then have "packed B" using 2(2) by (simp add: packed_def)
    then have "B\<lparr>req_ids := [], req_output_token_ids := []\<rparr> = trim B 0" "packed B" by (simp_all add: trim_def)
    then show ?thesis
      using packed_trim [OF u(1) _ 2(2)] trim_view(1) [OF u(1) _ 2(2), of env] trim_view(2,3) [OF u(1) _ 2(2)] 2 np
      by (auto simp: condense_def Let_def condensed_def num_reqs_def trim_def)
  next
    case 3
    have "condense_inv env B (int (num_reqs B) + int (length ?rm) - 1)"
      using u len by (auto simp: condense_inv_def Let_def holes_def)
    then obtain B' where B': "condense_loop env B (int (num_reqs B) + int (length ?rm) - 1) = Some (Inr B')" "batch_inv B'"
      "packed B'" "view env B' = view env B" "mask_of B' = mask_of B" "num_reqs B' = num_reqs B" "flags B' = flags B"
      using condense_loop_ok by blast
    have "num_reqs (trim B' (num_reqs B)) = num_reqs B" using B'(6) by (simp add: num_reqs_def trim_def)
    then show ?thesis
      using 3 np B' packed_trim [OF B'(2,3,6)] trim_view(1) [OF B'(2,3,6), of env] trim_view(2,3) [OF B'(2,3,6)]
      by (auto simp: condense_def Let_def condensed_def)
  qed
qed

end

end
