(* ===== verification/Input_Batch_Props.thy ===== *)
theory Input_Batch_Props
  imports Input_Batch_Moves
begin

section \<open>Properties of the persistent batch\<close>

text \<open>
  The operations of \<open>InputBatch\<close> refine operations on the map from request ids to rows: adding a request
  adds its row, removing one removes it, swapping and condensing change nothing. Two statements on
  the mask of allowed tokens show where the arrays do not follow the map, and the batch as a
  transition system keeps the invariant through every order of calls that the model runner makes.
\<close>

subsection \<open>A small batch\<close>

definition demo_params :: sampling_params where
  "demo_params = \<lparr>sp_greedy = True, sp_temperature = 0, sp_top_p = 1, sp_top_k = 0, sp_frequency_penalty = 0,
     sp_presence_penalty = 0, sp_repetition_penalty = 1, sp_logprobs = None, sp_prompt_logprobs = None,
     sp_allowed_token_ids = None, sp_bad_words_token_ids = None\<rparr>"

definition demo_cached :: "rid \<Rightarrow> sampling_params \<Rightarrow> cached_request" where
  "demo_cached r sp = \<lparr>cr_req_id = r, cr_prompt_token_ids = [1, 2], cr_sampling_params = Some sp, cr_pooling_params = None,
     cr_generator = None, cr_block_ids = [[7]], cr_num_computed_tokens = 0, cr_output_token_ids = [], cr_lora_request = None\<rparr>"

definition demo_batch :: "(list_builder, nat \<Rightarrow> int list list, unit) input_batch" where
  "demo_batch = input_batch_init (\<lambda>_ _. 0) (\<lambda>_ _. 0) 3 4 4 (\<lambda>_. []) ([], [], []) [] False False"

lemma init_inv: "batch_inv (input_batch_init j k n len v bt bb lps spec False)"
  by (auto simp: batch_inv_def input_batch_init_def arrays_ok_def index_ok_def rows_ok_def lora_ok_batch_def members_def
      flags_ok_def flags_def no_flags_def masks_ok_def)

lemma init_holes: "holes (input_batch_init j k n len v bt bb lps spec p) = {}"
  by (simp add: input_batch_init_def holes_def)

lemma init_updating:
  assumes "bb_removed (be_builder env) bb = []"
  shows "updating env (input_batch_init j k n len v bt bb lps spec False)"
  unfolding updating_def init_holes
  using init_inv [of j k n len v bt bb lps spec] assms by (simp add: input_batch_init_def)

lemma demo_updating: "updating list_batch_env demo_batch"
  unfolding demo_batch_def by (rule init_updating) (simp add: list_batch_env_def list_builder_ops_def removed_of_def)

lemma demo_can_add: "r \<notin> fst ` set (req_id_to_index B) \<Longrightarrow> num_reqs B < max_num_reqs B \<Longrightarrow> 2 \<le> max_model_len B \<Longrightarrow>
    allowed_in_range (vocab_size B) sp \<Longrightarrow> can_add B (demo_cached r sp) sp"
  by (simp add: can_add_def demo_cached_def cr_num_tokens_def cr_num_prompt_tokens_def map_of_eq_None_iff)

text \<open>A batch of two requests, the second of which allows token 0 only.\<close>

definition after_add :: "(list_builder, nat \<Rightarrow> int list list, unit) input_batch \<Rightarrow> cached_request \<Rightarrow>
    (list_builder, nat \<Rightarrow> int list list, unit) input_batch" where
  "after_add B q = (case ib_add_request list_batch_env B q of Inl _ \<Rightarrow> B | Inr (_, B') \<Rightarrow> B')"

definition only_zero :: sampling_params where
  "only_zero = demo_params\<lparr>sp_allowed_token_ids := Some [0]\<rparr>"

definition demo_one :: "(list_builder, nat \<Rightarrow> int list list, unit) input_batch" where
  "demo_one = after_add demo_batch (demo_cached ''a'' demo_params)"

definition demo_two :: "(list_builder, nat \<Rightarrow> int list list, unit) input_batch" where
  "demo_two = after_add demo_one (demo_cached ''b'' only_zero)"

lemma demo_batch_facts:
  "req_id_to_index demo_batch = []" "max_num_reqs demo_batch = 3" "max_model_len demo_batch = 4" "vocab_size demo_batch = 4"
  by (simp_all add: demo_batch_def input_batch_init_def)

lemma demo_one_facts:
  "req_id_to_index demo_one = [(''a'', 0)]" "max_num_reqs demo_one = 3" "max_model_len demo_one = 4" "vocab_size demo_one = 4"
  by code_simp+

lemma demo_two_facts:
  "req_id_to_index demo_two = [(''a'', 0), (''b'', 1)]" "req_ids demo_two = [Some ''a'', Some ''b'']"
  "allowed_token_ids_mask_cpu_tensor demo_two =
     Some [[False, False, False, False], [False, True, True, True], [False, False, False, False]]"
  by code_simp+

lemma after_add_updating:
  assumes "updating list_batch_env B" "can_add B q sp"
  shows "updating list_batch_env (after_add B q)"
  using list_batch.add_request_ok [OF assms] by (auto simp: after_add_def)

lemma demo_one_updating: "updating list_batch_env demo_one"
  unfolding demo_one_def by (rule after_add_updating [OF demo_updating demo_can_add])
    (simp_all add: demo_batch_facts num_reqs_def allowed_in_range_def demo_params_def)

lemma demo_two_updating: "updating list_batch_env demo_two"
  unfolding demo_two_def by (rule after_add_updating [OF demo_one_updating demo_can_add])
    (simp_all add: demo_one_facts num_reqs_def allowed_in_range_def only_zero_def demo_params_def)

lemma list_removed_append: "isl (bb_removed_append (be_builder list_batch_env) b i) = False"
  by (cases b) (simp add: list_batch_env_def list_builder_ops_def)

subsection \<open>The operations refine a map\<close>

text \<open>
  C21. Adding a request that has sampling parameters, a new id, room in the batch, tokens that fit and
  allowed token ids within the vocabulary succeeds, keeps the invariant, and changes the map of rows by
  exactly the row made from the request: its tokens, counters, blocks, sampling parameters, adapter,
  generator and bad words. It also enters the request into exactly the sets of the sampling features
  it asks for. No other request's row or feature changes, and nothing of a former occupant of the row
  is left (the mask of allowed tokens apart, see C26).
\<close>

theorem ib_add_request_refines:
  assumes "batch_parts env" "updating env B" "can_add B q sp"
  shows "\<exists>i B'. ib_add_request env B q = Inr (i, B') \<and> updating env B' \<and>
    view env B' = (view env B)(cr_req_id q \<mapsto> request_row env (vocab_size B) q sp) \<and>
    map_of (req_id_to_index B') (cr_req_id q) = Some i \<and> flags B' = (flags B)(cr_req_id q := request_flags env B sp)"
  by (rule batch_parts.add_request_ok [OF assms])

theorem ib_add_request_refines_witness:
  "\<exists>i B'. ib_add_request list_batch_env demo_batch (demo_cached ''a'' demo_params) = Inr (i, B') \<and>
     view list_batch_env B' ''a'' = Some (request_row list_batch_env 4 (demo_cached ''a'' demo_params) demo_params)"
proof -
  have "can_add demo_batch (demo_cached ''a'' demo_params) demo_params"
    by (rule demo_can_add) (simp_all add: demo_batch_def input_batch_init_def num_reqs_def allowed_in_range_def demo_params_def)
  moreover have "cr_req_id (demo_cached ''a'' demo_params) = ''a''" "vocab_size demo_batch = 4"
    by (simp_all add: demo_cached_def demo_batch_def input_batch_init_def)
  ultimately show ?thesis
    using ib_add_request_refines [OF list_batch.batch_parts_axioms demo_updating, of "demo_cached ''a'' demo_params" demo_params]
    by auto
qed

text \<open>
  C22. Removing a request of the batch (when the builder accepts its index) keeps the invariant, takes
  exactly its row out of the map and the request out of the set of every sampling feature; an id that is not in the batch changes nothing.
\<close>

theorem ib_remove_request_refines:
  assumes "batch_parts env" "updating env B"
    "\<And>i. map_of (req_id_to_index B) r = Some i \<Longrightarrow> isl (bb_removed_append (be_builder env) (batch_update_builder B) i) = False"
  shows "\<exists>x B'. ib_remove_request env B r = Inr (x, B') \<and> x = map_of (req_id_to_index B) r \<and> updating env B' \<and>
    view env B' = (view env B)(r := None) \<and> flags B' = (flags B)(r := no_flags)"
proof (cases "map_of (req_id_to_index B) r")
  case None
  moreover have "flags B r = no_flags" using None assms(2) by (simp add: updating_def batch_inv_def flags_ok_def)
  ultimately show ?thesis using assms(2) by (auto simp: ib_remove_request_def view_def fun_eq_iff)
next
  case (Some i)
  then obtain bb where "bb_removed_append (be_builder env) (batch_update_builder B) i = Inr bb"
    using assms(3) [OF Some] by (cases "bb_removed_append (be_builder env) (batch_update_builder B) i") auto
  then show ?thesis using batch_parts.remove_request_ok [OF assms(1,2) Some] Some by auto
qed

theorem ib_remove_request_refines_witness:
  "\<exists>B'. ib_remove_request list_batch_env demo_two ''a'' = Inr (Some 0, B') \<and> updating list_batch_env B' \<and>
     view list_batch_env B' = (view list_batch_env demo_two)(''a'' := None)"
  using ib_remove_request_refines [OF list_batch.batch_parts_axioms demo_two_updating list_removed_append, of "''a''"]
  by (auto simp: demo_two_facts)

text \<open>
  C23. \<^verbatim>\<open>condense\<close> returns (its two nested loops end), raises nothing, leaves the rows of the batch exactly
  the first \<open>num_reqs\<close> ones without a hole, and keeps the row, the mask row and the sampling features of
  every request.
\<close>

theorem condense_refines:
  assumes "batch_parts env" "updating env B"
  shows "\<exists>B'. condense env B = Some (Inr B') \<and> condensed B' \<and> view env B' = view env B \<and> mask_of B' = mask_of B \<and>
    flags B' = flags B \<and> num_reqs B' = num_reqs B \<and> length (req_ids B') = num_reqs B'"
  by (rule batch_parts.condense_ok [OF assms])

definition demo_hole :: "(list_builder, nat \<Rightarrow> int list list, unit) input_batch" where
  "demo_hole = (case ib_remove_request list_batch_env demo_two ''a'' of Inl _ \<Rightarrow> demo_two | Inr (_, B) \<Rightarrow> B)"

lemma demo_hole_facts: "updating list_batch_env demo_hole" "req_ids demo_hole = [None, Some ''b'']"
proof -
  obtain bb where "bb_removed_append (be_builder list_batch_env) (batch_update_builder demo_two) 0 = Inr bb"
    using list_removed_append [of "batch_update_builder demo_two" 0]
    by (cases "bb_removed_append (be_builder list_batch_env) (batch_update_builder demo_two) 0") auto
  moreover have "map_of (req_id_to_index demo_two) ''a'' = Some 0" by (simp add: demo_two_facts)
  ultimately show "updating list_batch_env demo_hole"
    using list_batch.remove_request_ok [OF demo_two_updating] by (fastforce simp: demo_hole_def)
  show "req_ids demo_hole = [None, Some ''b'']" by code_simp
qed

theorem condense_refines_witness:
  "req_ids demo_hole = [None, Some ''b''] \<and>
   (\<exists>B'. condense list_batch_env demo_hole = Some (Inr B') \<and> condensed B' \<and> view list_batch_env B' = view list_batch_env demo_hole)"
  using condense_refines [OF list_batch.batch_parts_axioms demo_hole_facts(1)] demo_hole_facts(2) by auto

text \<open>
  Swapping two rows that hold requests succeeds, keeps the invariant and keeps the row and the
  sampling features of every request (the mask of allowed tokens apart, see \<open>swap_states_mask\<close>).
\<close>

theorem swap_states_refines:
  assumes "batch_parts env" "batch_inv B" "i1 \<in> active B" "i2 \<in> active B"
  shows "\<exists>B'. swap_states env B i1 i2 = Inr B' \<and> batch_inv B' \<and> holes B' = holes B \<and> view env B' = view env B \<and> flags B' = flags B"
proof -
  obtain r1 r2 where "swap_pre B i1 i2 r1 r2" using assms(2-4) by (auto simp: swap_pre_def active_def)
  then show ?thesis
    using swap_states_eq batch_parts.swap_states_ok [OF assms(1)] swapped_holes swapped_flags(1) by metis
qed

theorem swap_states_refines_witness:
  "\<exists>B'. swap_states list_batch_env demo_two 0 1 = Inr B' \<and> batch_inv B' \<and> view list_batch_env B' = view list_batch_env demo_two"
proof -
  have "0 \<in> active demo_two" "1 \<in> active demo_two" by (simp_all add: active_def demo_two_facts)
  moreover have "batch_inv demo_two" using demo_two_updating by (simp add: updating_def)
  ultimately show ?thesis using swap_states_refines [OF list_batch.batch_parts_axioms, of demo_two 0 1] by auto
qed

text \<open>
  Swapping two rows of the mask of allowed tokens: after the swap both requests have the mask row
  of the second one, because the rows are swapped through views of the same tensor.
\<close>

theorem swap_states_mask:
  assumes "batch_inv B" "i1 < length (req_ids B)" "i2 < length (req_ids B)" "req_ids B ! i1 = Some r1" "req_ids B ! i2 = Some r2"
    "allowed_token_ids_mask_cpu_tensor B = Some m"
  shows "\<exists>B'. swap_states env B i1 i2 = Inr B' \<and> mask_of B' r1 = Some (m ! i2) \<and> mask_of B' r2 = Some (m ! i2)"
proof -
  have pre: "swap_pre B i1 i2 r1 r2" using assms by (simp add: swap_pre_def)
  note p = swap_preD [OF pre]
  have "i1 < length m" "i2 < length m" using mask_length [OF p(1) assms(6)] p(9,10) by simp_all
  then have "swap_rows_by_view m i1 i2 ! i1 = m ! i2" "swap_rows_by_view m i1 i2 ! i2 = m ! i2"
    by (auto simp: swap_rows_by_view_def Let_def nth_list_update)
  then show ?thesis
    using swap_states_eq [OF pre, of env] p(11,12) assms(6)
    by (auto simp: mask_of_def swapped_lookup [OF pre] swapped_fields(12) tr_def)
qed

theorem swap_states_mask_witness:
  "\<exists>B'. swap_states list_batch_env demo_two 0 1 = Inr B' \<and>
     mask_of demo_two ''a'' = Some [False, False, False, False] \<and> mask_of B' ''a'' = Some [False, True, True, True]"
proof -
  have "batch_inv demo_two" using demo_two_updating by (simp add: updating_def)
  then show ?thesis
    using swap_states_mask [of demo_two 0 1 "''a''" "''b''" _ list_batch_env]
    by (auto simp: demo_two_facts mask_of_def)
qed

lemma add_stages_mask:
  "register_add_request env B q = Inr (i, B1) \<Longrightarrow> allowed_token_ids_mask_cpu_tensor B1 = allowed_token_ids_mask_cpu_tensor B"
  "place_request B q i = Inr B1 \<Longrightarrow> allowed_token_ids_mask_cpu_tensor B1 = allowed_token_ids_mask_cpu_tensor B"
  "copy_tokens env B q i = Inr B1 \<Longrightarrow> allowed_token_ids_mask_cpu_tensor B1 = allowed_token_ids_mask_cpu_tensor B"
  by (auto simp: register_add_request_def place_request_def copy_tokens_def Let_def res_elims
      split: option.splits prod.splits if_splits)

lemma add_request_mask:
  assumes "ib_add_request env B q = Inr (i, B')" "cr_sampling_params q = Some sp"
    "sp_allowed_token_ids sp = None \<or> sp_allowed_token_ids sp = Some []" "\<not> is_pooling_model B"
  shows "allowed_token_ids_mask_cpu_tensor B' = allowed_token_ids_mask_cpu_tensor B"
proof -
  obtain B1 B2 B3 where s: "register_add_request env B q = Inr (i, B1)" "place_request B1 q i = Inr B2" "copy_tokens env B2 q i = Inr B3"
    "B' = add_lora (add_bad_words (set_sampling env B3 q i sp) i (sp_bad_words_token_ids sp)) q i"
    using assms by (auto simp: ib_add_request_def res_elims add_params_def add_allowed_def split: option.splits)
  show ?thesis
    unfolding s(4) add_lora_frame add_bad_words_frame
    using add_stages_mask(1) [OF s(1)] add_stages_mask(2) [OF s(2)] add_stages_mask(3) [OF s(3)]
    by (simp add: set_sampling_def Let_def)
qed

subsection \<open>Refreshing the metadata\<close>

text \<open>Two batches that differ at most in the builder, the logits processors, the device tensors and the metadata.\<close>

definition same_rows :: "('bb, 'bt, 'lp) input_batch \<Rightarrow> ('bb, 'bt, 'lp) input_batch \<Rightarrow> bool" where
  "same_rows B B' \<longleftrightarrow>
     B' = B\<lparr>batch_update_builder := batch_update_builder B', ib_logitsprocs := ib_logitsprocs B',
            dev_temperature := dev_temperature B', dev_top_p := dev_top_p B', dev_top_k := dev_top_k B',
            dev_frequency_penalties := dev_frequency_penalties B', dev_presence_penalties := dev_presence_penalties B',
            dev_repetition_penalties := dev_repetition_penalties B',
            dev_allowed_token_ids_mask := dev_allowed_token_ids_mask B', ib_sampling_metadata := ib_sampling_metadata B'\<rparr> \<and>
     (dev_allowed_token_ids_mask B' = None \<longleftrightarrow> dev_allowed_token_ids_mask B = None)"

lemma same_rows_frame:
  assumes "same_rows B B'"
  shows "batch_inv B' = batch_inv B" "holes B' = holes B" "req_id_to_index B' = req_id_to_index B" "row_at env B' = row_at env B"
    "flags B' = flags B"
proof -
  note eq = conjunct1 [OF assms [unfolded same_rows_def]] and dev = conjunct2 [OF assms [unfolded same_rows_def]]
  show fl: "flags B' = flags B" by (subst eq) (simp add: flags_def fun_eq_iff)
  have "masks_ok B' = masks_ok B" unfolding masks_ok_def dev by (subst (1 2 3) eq) simp
  moreover have "arrays_ok B' = arrays_ok B" "index_ok B' = index_ok B" "rows_ok B' = rows_ok B" "lora_ok_batch B' = lora_ok_batch B"
    by (subst eq, simp add: arrays_ok_def index_ok_def rows_ok_def active_def lora_ok_batch_def members_def)+
  moreover have "num_logprobs B' = num_logprobs B" "req_id_to_index B' = req_id_to_index B" by (subst eq, simp)+
  then have "flags_ok B' = flags_ok B" by (intro flags_ok_cong [OF fl]) simp_all
  ultimately show "batch_inv B' = batch_inv B" by (simp add: batch_inv_def)
  show "holes B' = holes B" by (subst eq) (simp add: holes_def)
  show "req_id_to_index B' = req_id_to_index B" by (subst eq) simp
  have "row_at env B' i = row_at env B i" for i by (subst eq) (simp add: row_at_def)
  then show "row_at env B' = row_at env B" by blast
qed

lemma make_metadata_same_rows:
  assumes "make_sampling_metadata env B = Inr (B', m)"
  shows "same_rows B B'" "batch_update_builder B' = batch_update_builder B"
proof -
  have dev: "dev_allowed_token_ids_mask (sync_device env B) = dev_allowed_token_ids_mask B" by (simp add: sync_device_def Let_def)
  have "B' = sync_device env B \<or>
      dev_allowed_token_ids_mask B \<noteq> None \<and> (\<exists>g. B' = (sync_device env B)\<lparr>dev_allowed_token_ids_mask := Some g\<rparr>)"
    using assms by (auto simp: make_sampling_metadata_def Let_def res_elims dev split: if_splits option.splits)
  then show "same_rows B B'" "batch_update_builder B' = batch_update_builder B"
    by (auto simp: same_rows_def sync_device_def Let_def)
qed

lemma refresh_same_rows:
  assumes "refresh_metadata env B = Inr B'" "\<not> is_pooling_model B"
  shows "same_rows B B' \<and> batch_update_builder B' = snd (bb_get_and_reset (be_builder env) (batch_update_builder B) (num_reqs B))"
proof -
  obtain u bb where g: "bb_get_and_reset (be_builder env) (batch_update_builder B) (num_reqs B) = (u, bb)" by fastforce
  let ?B1 = "B\<lparr>batch_update_builder := bb, ib_logitsprocs := map (\<lambda>p. be_update_state env p u) (ib_logitsprocs B)\<rparr>"
  consider "B' = ?B1" | B2 m where "make_sampling_metadata env ?B1 = Inr (B2, m)" "B' = B2\<lparr>ib_sampling_metadata := m\<rparr>"
    using assms g by (auto simp: refresh_metadata_def Let_def res_elims split: if_splits)
  then show ?thesis
  proof cases
    case 1
    then show ?thesis using g by (simp add: same_rows_def)
  next
    case 2
    note m = make_metadata_same_rows [OF 2(1)]
    have "same_rows B B'" unfolding same_rows_def 2(2)
      by (subst conjunct1 [OF m(1) [unfolded same_rows_def]]) (use conjunct2 [OF m(1) [unfolded same_rows_def]] in simp)
    then show ?thesis using m(2) 2(2) g by simp
  qed
qed

subsection \<open>The batch as a transition system\<close>

text \<open>
  The order of calls of the model runner: \<^verbatim>\<open>_update_states\<close> removes and adds requests, condenses the batch and
  refreshes the metadata (\<open>Ready\<close>); \<^verbatim>\<open>_prepare_inputs\<close> may then swap rows, before the next step removes, adds or
  condenses again. Swaps between \<open>condense\<close> and the refresh are allowed as well.
\<close>

datatype batch_phase = Updating | Condensed | Ready

datatype batch_call = Call_Remove rid | Call_Add cached_request | Call_Condense | Call_Swap nat nat | Call_Refresh

inductive batch_step ::
  "('bb, 'up, 'bt, 'lp) batch_env \<Rightarrow> batch_phase \<times> ('bb, 'bt, 'lp) input_batch \<Rightarrow> batch_call \<Rightarrow>
   batch_phase \<times> ('bb, 'bt, 'lp) input_batch \<Rightarrow> bool" for env where
  call_remove: "ph \<noteq> Condensed \<Longrightarrow> ib_remove_request env B r = Inr (x, B') \<Longrightarrow>
    batch_step env (ph, B) (Call_Remove r) (Updating, B')"
| call_add: "ph \<noteq> Condensed \<Longrightarrow> can_add B q sp \<Longrightarrow> ib_add_request env B q = Inr (i, B') \<Longrightarrow>
    batch_step env (ph, B) (Call_Add q) (Updating, B')"
| call_condense: "ph \<noteq> Condensed \<Longrightarrow> condense env B = Some (Inr B') \<Longrightarrow> batch_step env (ph, B) Call_Condense (Condensed, B')"
| call_swap: "ph \<noteq> Updating \<Longrightarrow> i1 \<in> active B \<Longrightarrow> i2 \<in> active B \<Longrightarrow> swap_states env B i1 i2 = Inr B' \<Longrightarrow>
    batch_step env (ph, B) (Call_Swap i1 i2) (ph, B')"
| call_refresh: "refresh_metadata env B = Inr B' \<Longrightarrow> batch_step env (Condensed, B) Call_Refresh (Ready, B')"

inductive_cases batch_stepE: "batch_step env s c t"

definition phase_inv ::
  "('bb, 'up, 'bt, 'lp) batch_env \<Rightarrow> batch_phase \<times> ('bb, 'bt, 'lp) input_batch \<Rightarrow> bool" where
  "phase_inv env s = (case s of (Updating, B) \<Rightarrow> updating env B | (Condensed, B) \<Rightarrow> condensed B | (Ready, B) \<Rightarrow> updating env B \<and> condensed B)"

lemma phase_inv_cases:
  "ph \<noteq> Condensed \<Longrightarrow> phase_inv env (ph, B) \<Longrightarrow> updating env B"
  "ph \<noteq> Updating \<Longrightarrow> phase_inv env (ph, B) \<Longrightarrow> condensed B"
  by (cases ph; simp add: phase_inv_def)+

lemma remove_unknown: "map_of (req_id_to_index B) r = None \<Longrightarrow> ib_remove_request env B r = Inr (x, B') \<Longrightarrow> B' = B"
  by (simp add: ib_remove_request_def)

context batch_parts
begin

lemma remove_keeps_updating:
  assumes "updating env B" "ib_remove_request env B r = Inr (x, B')"
  shows "updating env B'"
proof (cases "map_of (req_id_to_index B) r")
  case None
  then show ?thesis using assms remove_unknown by metis
next
  case (Some i)
  have "\<not> is_pooling_model B" using assms(1) by (simp add: updating_def batch_inv_def index_ok_def)
  then obtain bb where "bb_removed_append (be_builder env) (batch_update_builder B) i = Inr bb"
    using assms(2) Some by (auto simp: ib_remove_request_def res_elims)
  then show ?thesis using remove_request_ok [OF assms(1) Some] assms(2) by auto
qed

lemma refresh_keeps:
  assumes "condensed B" "refresh_metadata env B = Inr B'"
  shows "updating env B'" "view env B' = view env B" "condensed B'"
proof -
  have np: "\<not> is_pooling_model B" using assms(1) by (simp add: condensed_def batch_inv_def index_ok_def)
  note sr = conjunct1 [OF refresh_same_rows [OF assms(2) np]] conjunct2 [OF refresh_same_rows [OF assms(2) np]]
  show "updating env B'"
    using assms(1) unfolding updating_def condensed_def same_rows_frame(1,2) [OF sr(1)] sr(2) by (simp add: reset_clears)
  show "view env B' = view env B" by (rule ext) (simp add: view_def same_rows_frame(3,4) [OF sr(1)])
  show "condensed B'" using assms(1) unfolding condensed_def same_rows_frame(1,2) [OF sr(1)] .
qed

lemma batch_step_inv:
  assumes "phase_inv env s" "batch_step env s c t"
  shows "phase_inv env t"
  using assms(2)
proof (cases rule: batch_step.cases)
  case (call_remove ph B r x B')
  then show ?thesis using assms(1) phase_inv_cases(1) [of ph env B] remove_keeps_updating by (simp add: phase_inv_def)
next
  case (call_add ph B q sp i B')
  then show ?thesis using assms(1) phase_inv_cases(1) [of ph env B] add_request_ok [of B q sp] by (auto simp: phase_inv_def)
next
  case (call_condense ph B B')
  then show ?thesis using assms(1) phase_inv_cases(1) [of ph env B] condense_ok [of B] by (auto simp: phase_inv_def)
next
  case (call_swap ph i1 B i2 B')
  then have c: "condensed B" using assms(1) phase_inv_cases(2) [of ph env B] by simp
  then obtain r1 r2 where pre: "swap_pre B i1 i2 r1 r2"
    using call_swap by (auto simp: condensed_def swap_pre_def active_def)
  then have B': "B' = swapped env B i1 i2 r1 r2" using call_swap swap_states_eq [OF pre, of env] by simp
  then have "condensed B'" using c swap_states_ok(2) [OF pre] swapped_holes [OF pre, of env] by (simp add: condensed_def)
  moreover have "updating env B'" if "updating env B"
    using that swap_states_ok(2) [OF pre] swapped_holes [OF pre, of env] moved_keeps B'
    by (simp add: updating_def swapped_fields)
  ultimately show ?thesis using call_swap assms(1) by (cases ph) (simp_all add: phase_inv_def)
next
  case (call_refresh B B')
  then show ?thesis using assms(1) refresh_keeps(1,3) by (simp add: phase_inv_def)
qed

lemma phase_system:
  assumes "bb_removed (be_builder env) bb = []"
  shows "inv_system (\<lambda>s. s = (Updating, input_batch_init j k n len v bt bb lps spec False)) (batch_step env) (phase_inv env)"
proof unfold_locales
  fix s :: "batch_phase \<times> ('bb, 'bt, 'lp) input_batch"
  assume "s = (Updating, input_batch_init j k n len v bt bb lps spec False)"
  then show "phase_inv env s" by (simp add: phase_inv_def init_updating [OF assms])
qed (rule batch_step_inv)

end

interpretation list_batch_system:
  inv_system "\<lambda>s. s = (Updating, demo_batch)" "batch_step list_batch_env" "phase_inv list_batch_env"
  unfolding demo_batch_def
  by (rule list_batch.phase_system) (simp add: list_batch_env_def list_builder_ops_def removed_of_def)

text \<open>
  C26. A request without allowed token ids takes over whatever mask row its index has. \<^verbatim>\<open>condense\<close> does not
  clear the mask row it moves a request away from, so such a request can get the mask of another one: in
  a batch of two, when the first leaves and the second is moved down, the next request is
  restricted to the tokens of the second.
\<close>

theorem add_request_inherits_mask:
  assumes "batch_parts env" "updating env B" "can_add B q sp" "sp_allowed_token_ids sp = None"
    "allowed_token_ids_mask_cpu_tensor B = Some m"
  shows "\<exists>i B'. ib_add_request env B q = Inr (i, B') \<and> mask_of B' (cr_req_id q) = Some (m ! i)"
proof -
  obtain i B' where a: "ib_add_request env B q = Inr (i, B')" "map_of (req_id_to_index B') (cr_req_id q) = Some i"
    using batch_parts.add_request_ok [OF assms(1-3)] by blast
  have "\<not> is_pooling_model B" using assms(2) by (simp add: updating_def batch_inv_def index_ok_def)
  then have "allowed_token_ids_mask_cpu_tensor B' = Some m"
    using add_request_mask [OF a(1) _ _] assms(3-5) by (auto simp: can_add_def)
  then show ?thesis using a by (simp add: mask_of_def)
qed

definition demo_refreshed :: "(list_builder, nat \<Rightarrow> int list list, unit) input_batch" where
  "demo_refreshed = (case condense list_batch_env demo_hole of
     Some (Inr B) \<Rightarrow> (case refresh_metadata list_batch_env B of Inr B' \<Rightarrow> B' | Inl _ \<Rightarrow> B) | _ \<Rightarrow> demo_hole)"

lemma demo_refreshed_facts:
  "req_ids demo_refreshed = [Some ''b'']" "req_id_to_index demo_refreshed = [(''b'', 0)]"
  "max_num_reqs demo_refreshed = 3" "max_model_len demo_refreshed = 4" "vocab_size demo_refreshed = 4"
  "allowed_token_ids_mask_cpu_tensor demo_refreshed =
     Some [[False, True, True, True], [False, True, True, True], [False, False, False, False]]"
  by code_simp+

lemma demo_refreshed_updating: "updating list_batch_env demo_refreshed"
proof -
  obtain B where B: "condense list_batch_env demo_hole = Some (Inr B)" "condensed B"
    using list_batch.condense_ok [OF demo_hole_facts(1)] by blast
  have "\<not> isl (case condense list_batch_env demo_hole of Some (Inr B) \<Rightarrow> refresh_metadata list_batch_env B | _ \<Rightarrow> Inl RuntimeError)"
    by code_simp
  then obtain B' where "refresh_metadata list_batch_env B = Inr B'" using B(1) by (cases "refresh_metadata list_batch_env B") auto
  then show ?thesis using list_batch.refresh_keeps(1) [OF B(2)] B(1) by (simp add: demo_refreshed_def)
qed

theorem add_request_inherits_mask_witness:
  "\<exists>i B'. ib_add_request list_batch_env demo_refreshed (demo_cached ''c'' demo_params) = Inr (i, B') \<and>
     mask_of demo_refreshed ''b'' = Some [False, True, True, True] \<and> mask_of B' ''c'' = mask_of demo_refreshed ''b''"
proof -
  have can: "can_add demo_refreshed (demo_cached ''c'' demo_params) demo_params"
    by (rule demo_can_add) (simp_all add: demo_refreshed_facts num_reqs_def allowed_in_range_def demo_params_def)
  have "fst (projr (ib_add_request list_batch_env demo_refreshed (demo_cached ''c'' demo_params))) = 1" by code_simp
  then show ?thesis
    using add_request_inherits_mask [OF list_batch.batch_parts_axioms demo_refreshed_updating can _ demo_refreshed_facts(6)]
    by (auto simp: demo_params_def mask_of_def demo_refreshed_facts demo_cached_def)
qed

text \<open>
  C27. In every state that the batch reaches from an empty batch, in the order in which the model runner calls its
  operations (removals and additions, then a \<open>condense\<close>, a refresh, and swaps, over and over), the index dictionary is
  the inverse of the list of ids and the adapter tables hold exactly the adapters of the requests in the batch; and
  from a \<open>condense\<close> on until the next removal or addition, the swaps after the refresh included, the rows are exactly the
  first \<open>num_reqs\<close> ones.
\<close>

theorem batch_reachable_inv:
  assumes "batch_parts env" "bb_removed (be_builder env) bb = []"
    "reachable (\<lambda>s. s = (Updating, input_batch_init j k n len v bt bb lps spec False)) (batch_step env) (ph, B)"
  shows "length (req_ids B) \<le> max_num_reqs B \<and>
    (\<forall>r i. map_of (req_id_to_index B) r = Some i \<longleftrightarrow> i < length (req_ids B) \<and> req_ids B ! i = Some r) \<and>
    (\<forall>l. lora_id_to_request_ids B l = (if l = 0 \<or> members B l = {} then None else Some (members B l))) \<and>
    (ph \<noteq> Updating \<longrightarrow> length (req_ids B) = num_reqs B)"
proof -
  have inv: "phase_inv env (ph, B)"
    using inv_system.reachable_inv [OF batch_parts.phase_system [OF assms(1,2)] assms(3)] .
  then have "batch_inv B" by (cases ph) (simp_all add: phase_inv_def updating_def condensed_def)
  then have c: "index_ok B" "lora_ok_batch B" by (simp_all add: batch_inv_def)
  have "length (req_ids B) = num_reqs B" if "ph \<noteq> Updating"
    using phase_inv_cases(2) [OF that inv] length_req_ids [OF c(1)] by (simp add: condensed_def)
  then show ?thesis using c by (auto simp: index_ok_def lora_ok_batch_def)
qed

lemma demo_reach:
  "reachable (\<lambda>s. s = (Updating, demo_batch)) (batch_step list_batch_env) (Updating, demo_one)"
  "reachable (\<lambda>s. s = (Updating, demo_batch)) (batch_step list_batch_env) (Updating, demo_two)"
proof -
  have ok: "ib_add_request list_batch_env B q = Inr (fst (projr (ib_add_request list_batch_env B q)), after_add B q)"
    if "updating list_batch_env B" "can_add B q sp" for B q sp
    using list_batch.add_request_ok [OF that] by (auto simp: after_add_def)
  have a: "can_add demo_batch (demo_cached ''a'' demo_params) demo_params" "can_add demo_one (demo_cached ''b'' only_zero) only_zero"
    by (rule demo_can_add; simp add: demo_batch_facts demo_one_facts num_reqs_def allowed_in_range_def only_zero_def demo_params_def)+
  show one: "reachable (\<lambda>s. s = (Updating, demo_batch)) (batch_step list_batch_env) (Updating, demo_one)"
    unfolding demo_one_def
    by (rule reach_step, rule reach_init, rule refl, rule call_add [OF _ a(1) ok [OF demo_updating a(1)]], simp)
  show "reachable (\<lambda>s. s = (Updating, demo_batch)) (batch_step list_batch_env) (Updating, demo_two)"
    unfolding demo_two_def by (rule reach_step, rule one, rule call_add [OF _ a(2) ok [OF demo_one_updating a(2)]], simp)
qed

text \<open>Two requests, a condensation, a refresh and a swap of the two rows.\<close>

theorem batch_reachable_inv_witness:
  "\<exists>B. reachable (\<lambda>s. s = (Updating, demo_batch)) (batch_step list_batch_env) (Ready, B) \<and> req_ids B = [Some ''b'', Some ''a''] \<and>
     map_of (req_id_to_index B) ''a'' = Some 1"
proof -
  have e: "bb_removed (be_builder list_batch_env) ([], [], []) = []" by (simp add: list_batch_env_def list_builder_ops_def removed_of_def)
  let ?run = "case condense list_batch_env demo_two of Some (Inr B) \<Rightarrow>
      (case refresh_metadata list_batch_env B of Inr B' \<Rightarrow> swap_states list_batch_env B' 0 1 | Inl x \<Rightarrow> Inl x) | _ \<Rightarrow> Inl RuntimeError"
  have run: "case ?run of Inr B \<Rightarrow> req_ids B = [Some ''b'', Some ''a''] | Inl _ \<Rightarrow> False" by code_simp
  have rows: "case condense list_batch_env demo_two of Some (Inr B) \<Rightarrow>
      (case refresh_metadata list_batch_env B of Inr B' \<Rightarrow> req_ids B' = [Some ''a'', Some ''b''] | Inl x \<Rightarrow> False) | _ \<Rightarrow> False"
    by code_simp
  obtain B1 B2 B where B: "condense list_batch_env demo_two = Some (Inr B1)" "refresh_metadata list_batch_env B1 = Inr B2"
      "swap_states list_batch_env B2 0 1 = Inr B" "req_ids B = [Some ''b'', Some ''a'']" "req_ids B2 = [Some ''a'', Some ''b'']"
    using run rows by (auto split: option.splits sum.splits)
  have "reachable (\<lambda>s. s = (Updating, demo_batch)) (batch_step list_batch_env) (Condensed, B1)"
    by (rule reach_step, rule demo_reach(2), rule call_condense [OF _ B(1)]) simp
  then have "reachable (\<lambda>s. s = (Updating, demo_batch)) (batch_step list_batch_env) (Ready, B2)"
    by (rule reach_step) (rule call_refresh [OF B(2)])
  then have r: "reachable (\<lambda>s. s = (Updating, demo_batch)) (batch_step list_batch_env) (Ready, B)"
    by (rule reach_step) (rule call_swap [OF _ _ _ B(3)]; simp add: active_def B(5))
  moreover have "map_of (req_id_to_index B) ''a'' = Some 1"
    using batch_reachable_inv [OF list_batch.batch_parts_axioms e r [unfolded demo_batch_def]] B(4) by simp
  ultimately show ?thesis using B(4) by blast
qed

subsection \<open>The adapters of a step\<close>

lemma condensed_mapping:
  assumes "condensed B"
  shows "k \<in> set (take (num_reqs B) (request_lora_mapping B)) \<longleftrightarrow> members B k \<noteq> {}"
proof -
  have ix: "index_ok B" "holes B = {}" "length (request_lora_mapping B) = max_num_reqs B"
    using assms by (simp_all add: condensed_def batch_inv_def arrays_ok_def)
  then have n: "length (req_ids B) = num_reqs B" "num_reqs B \<le> max_num_reqs B"
    using length_req_ids [OF ix(1)] by (simp_all add: index_ok_def)
  have row: "\<exists>r. map_of (req_id_to_index B) r = Some i" if "i < num_reqs B" for i
    using that ix(2) n(1) index_lookup [OF ix(1)] by (auto simp: holes_def)
  have "k \<in> set (take (num_reqs B) (request_lora_mapping B)) \<longleftrightarrow> (\<exists>i < num_reqs B. request_lora_mapping B ! i = k)"
    using n(2) ix(3) by (auto simp: in_set_conv_nth)
  also have "\<dots> \<longleftrightarrow> members B k \<noteq> {}"
    using row index_lookup [OF ix(1)] n(1) by (fastforce simp: members_def)
  finally show ?thesis .
qed

lemma active_adapters:
  assumes "lora_ok_batch B"
  shows "lora_int_id ` snd ` set (lora_id_to_lora_request B) = {k. k \<noteq> 0 \<and> members B k \<noteq> {}}"
proof -
  have "lora_int_id (snd kl) = fst kl" if "kl \<in> set (lora_id_to_lora_request B)" for kl
    using that assms by (auto simp: lora_ok_batch_def)
  then have "lora_int_id ` snd ` set (lora_id_to_lora_request B) = fst ` set (lora_id_to_lora_request B)"
    by (auto simp: image_image intro!: image_cong)
  also have "\<dots> = {k. lora_id_to_request_ids B k \<noteq> None}"
  proof -
    have "\<forall>k. map_of (lora_id_to_lora_request B) k = None \<longleftrightarrow> lora_id_to_request_ids B k = None"
      using assms unfolding lora_ok_batch_def by blast
    then show ?thesis unfolding dom_map_of_conv_image_fst [symmetric] dom_def by (simp only: )
  qed
  also have "\<dots> = {k. k \<noteq> 0 \<and> members B k \<noteq> {}}"
  proof -
    have "lora_id_to_request_ids B k = (if k = 0 \<or> members B k = {} then None else Some (members B k))" for k
      using assms by (simp add: lora_ok_batch_def)
    then show ?thesis by auto
  qed
  finally show ?thesis .
qed

lemma length_repeat: "length xs = length ns \<Longrightarrow> length (concat (map2 (\<lambda>l n. replicate n l) xs ns)) = sum_list ns"
  by (induction xs ns rule: list_induct2) auto

text \<open>
  For a condensed batch and one count per request, \<^verbatim>\<open>make_lora_inputs\<close> returns the adapter id of every
  request, as many token entries as there are scheduled tokens, and exactly the adapters that some
  request of the batch uses.
\<close>

theorem make_lora_inputs_correct:
  assumes "condensed B" "length ns = num_reqs B"
  shows "\<exists>p t ls. make_lora_inputs B ns = Inr (p, t, ls) \<and> length p = num_reqs B \<and> length t = sum_list ns \<and>
    (\<forall>r i. map_of (req_id_to_index B) r = Some i \<longrightarrow> r \<in> members B (p ! i)) \<and> lora_int_id ` ls = set p - {0}"
proof -
  let ?p = "take (num_reqs B) (request_lora_mapping B)"
  have c: "index_ok B" "lora_ok_batch B" "holes B = {}" "length (request_lora_mapping B) = max_num_reqs B"
    using assms(1) by (simp_all add: condensed_def batch_inv_def arrays_ok_def)
  then have n: "length (req_ids B) = num_reqs B" "num_reqs B \<le> max_num_reqs B"
    using length_req_ids [OF c(1)] by (simp_all add: index_ok_def)
  then have len: "length ?p = num_reqs B" using c(4) by simp
  have "r \<in> members B (?p ! i)" if "map_of (req_id_to_index B) r = Some i" for r i
    using that index_lookup [OF c(1), of r i] n(1) by (auto simp: members_def)
  moreover have "lora_int_id ` snd ` set (lora_id_to_lora_request B) = set ?p - {0}"
    using active_adapters [OF c(2)] condensed_mapping [OF assms(1)] by auto
  ultimately show ?thesis
    using assms(2) len length_repeat [of ?p ns] by (simp add: make_lora_inputs_def Let_def)
qed

theorem make_lora_inputs_correct_witness:
  "\<exists>p t ls. make_lora_inputs demo_two [2, 3] = Inr (p, t, ls) \<and> length p = 2 \<and> length t = 5 \<and> lora_int_id ` ls = set p - {0}"
proof -
  have "condensed demo_two" "num_reqs demo_two = 2"
    using demo_two_updating by (auto simp: condensed_def updating_def holes_def demo_two_facts num_reqs_def nth_Cons' less_Suc_eq)
  then show ?thesis using make_lora_inputs_correct [of demo_two "[2, 3]"] by auto
qed

end
