(* ===== verification/Input_Batch_Metadata.thy ===== *)
theory Input_Batch_Metadata
  imports Input_Batch_Props
begin

section \<open>The sampling metadata\<close>

text \<open>
  What \<^verbatim>\<open>refresh_metadata\<close> hands to the sampler after the batch has changed: for every tensor the values of
  the requests in batch order, and only the tensors that some request of the batch needs. The
  specification \<open>describes\<close> is written over the abstract batch (ids in order, rows and features), the
  code goes over sets, host arrays and device tensors.
\<close>

definition batch_ids :: "('bb, 'bt, 'lp) input_batch \<Rightarrow> rid list" where
  "batch_ids B = map the (req_ids B)"

definition any_req :: "('bb, 'bt, 'lp) input_batch \<Rightarrow> (req_flags \<Rightarrow> bool) \<Rightarrow> bool" where
  "any_req B f \<longleftrightarrow> (\<exists>r \<in> set (batch_ids B). f (flags B r))"

definition column :: "('bb, 'up, 'bt, 'lp) batch_env \<Rightarrow> ('bb, 'bt, 'lp) input_batch \<Rightarrow> (batch_row \<Rightarrow> 'x) \<Rightarrow> 'x list" where
  "column env B f = map (\<lambda>r. f (the (view env B r))) (batch_ids B)"

definition penalised :: "req_flags \<Rightarrow> bool" where
  "penalised f \<longleftrightarrow> rf_frequency f \<or> rf_presence f \<or> rf_repetition f"

definition needed :: "bool \<Rightarrow> 'x \<Rightarrow> 'x option" where
  "needed b x = (if b then Some x else None)"

definition logprobs_asked :: "('bb, 'bt, 'lp) input_batch \<Rightarrow> int set" where
  "logprobs_asked B = {k. \<exists>r \<in> set (batch_ids B). rf_logprobs (flags B r) = Some k}"

definition prompts_ok :: "('bb, 'bt, 'lp) input_batch \<Rightarrow> int list list option \<Rightarrow> bool" where
  "prompts_ok B p \<longleftrightarrow>
     (\<exists>t. p = Some t \<and> length t = num_reqs B \<and>
       (\<forall>i < num_reqs B. take (ib_num_prompt_tokens B ! i) (t ! i) = take (ib_num_prompt_tokens B ! i) (token_ids_cpu B ! i)))"

text \<open>The device copies of the penalties are refreshed when some request has one; so are the prompts.\<close>

definition describes_penalties ::
  "('bb, 'up, 'bt, 'lp) batch_env \<Rightarrow> ('bb, 'bt, 'lp) input_batch \<Rightarrow> sampling_metadata \<Rightarrow> bool" where
  "describes_penalties env B m \<longleftrightarrow>
     sm_frequency_penalties m = column env B br_frequency_penalty \<and>
     sm_presence_penalties m = column env B br_presence_penalty \<and>
     sm_repetition_penalties m = column env B br_repetition_penalty \<and>
     prompts_ok B (sm_prompt_token_ids m)"

definition describes_values ::
  "('bb, 'up, 'bt, 'lp) batch_env \<Rightarrow> ('bb, 'bt, 'lp) input_batch \<Rightarrow> sampling_metadata \<Rightarrow> bool" where
  "describes_values env B m \<longleftrightarrow>
     sm_temperature m = needed (any_req B rf_random) (column env B br_temperature) \<and>
     sm_all_greedy m = (\<not> any_req B rf_random) \<and> sm_all_random m = (\<not> any_req B rf_greedy) \<and>
     sm_top_p m = needed (any_req B rf_top_p) (column env B br_top_p) \<and>
     sm_top_k m = needed (any_req B rf_top_k) (column env B br_top_k) \<and>
     sm_max_num_logprobs m = needed (logprobs_asked B \<noteq> {}) (Max (logprobs_asked B)) \<and>
     sm_no_penalties m = (\<not> any_req B penalised) \<and>
     (any_req B penalised \<longrightarrow> describes_penalties env B m) \<and>
     sm_allowed_token_ids_mask m = needed (any_req B rf_allowed) (map (\<lambda>r. the (mask_of B r)) (batch_ids B))"

text \<open>
  What is read through the references of the metadata of \<open>B'\<close> are the generators, bad words and output tokens of
  the requests of \<open>B\<close> in order.
\<close>

definition describes_shared ::
  "('bb, 'up, 'bt, 'lp) batch_env \<Rightarrow> ('bb, 'bt, 'lp) input_batch \<Rightarrow> ('bb, 'bt, 'lp) input_batch \<Rightarrow> bool" where
  "describes_shared env B B' \<longleftrightarrow>
     (\<forall>i < num_reqs B. sm_generators B' i = column env B br_generator ! i \<and>
                       sm_bad_words_token_ids B' i = column env B br_bad_words ! i) \<and>
     sm_output_token_ids B' = column env B br_output"

definition describes ::
  "('bb, 'up, 'bt, 'lp) batch_env \<Rightarrow> ('bb, 'bt, 'lp) input_batch \<Rightarrow> ('bb, 'bt, 'lp) input_batch \<Rightarrow> bool" where
  "describes env B B' \<longleftrightarrow> describes_values env B (ib_sampling_metadata B') \<and> describes_shared env B B'"

subsection \<open>Rows in batch order\<close>

lemma condensedD:
  assumes "condensed B"
  shows "arrays_ok B" "index_ok B" "flags_ok B" "masks_ok B" "length (req_ids B) = num_reqs B" "num_reqs B \<le> max_num_reqs B"
    "length (batch_ids B) = num_reqs B"
proof -
  show inv: "arrays_ok B" "index_ok B" "flags_ok B" "masks_ok B" using assms by (simp_all add: condensed_def batch_inv_def)
  show n: "length (req_ids B) = num_reqs B" using length_req_ids [OF inv(2)] assms by (simp add: condensed_def)
  then show "num_reqs B \<le> max_num_reqs B" "length (batch_ids B) = num_reqs B" using inv(2) by (simp_all add: index_ok_def batch_ids_def)
qed

lemma batch_ids_nth:
  assumes "condensed B" "i < num_reqs B"
  shows "map_of (req_id_to_index B) (batch_ids B ! i) = Some i"
proof -
  note c = condensedD [OF assms(1)]
  have "req_ids B ! i \<noteq> None" using assms c(5) by (auto simp: condensed_def holes_def)
  then show ?thesis using index_lookup [OF c(2)] assms(2) c(5) by (auto simp: batch_ids_def)
qed

lemma in_batch_ids:
  assumes "condensed B"
  shows "r \<in> set (batch_ids B) \<longleftrightarrow> map_of (req_id_to_index B) r \<noteq> None"
proof
  assume "r \<in> set (batch_ids B)"
  then obtain i where "i < num_reqs B" "batch_ids B ! i = r" using condensedD(7) [OF assms] by (auto simp: in_set_conv_nth)
  then show "map_of (req_id_to_index B) r \<noteq> None" using batch_ids_nth [OF assms] by fastforce
next
  assume "map_of (req_id_to_index B) r \<noteq> None"
  then obtain i where "i < length (req_ids B)" "req_ids B ! i = Some r"
    using index_lookup [OF condensedD(2) [OF assms]] by auto
  then show "r \<in> set (batch_ids B)" by (force simp: batch_ids_def in_set_conv_nth)
qed

lemma column_eq:
  assumes "condensed B"
  shows "column env B f = map (\<lambda>i. f (row_at env B i)) [0..<num_reqs B]"
  by (rule nth_equalityI)
    (simp_all add: column_def condensedD(7) [OF assms] view_def batch_ids_nth [OF assms])

lemma take_as_map: "n \<le> length xs \<Longrightarrow> take n xs = map ((!) xs) [0..<n]"
  by (rule nth_equalityI) simp_all

text \<open>A set of requests is empty exactly when no request of the batch is in it.\<close>

lemma no_flag_outside:
  assumes "condensed B" "r \<notin> set (batch_ids B)"
  shows "flags B r = no_flags"
  using assms(2) condensedD(3) [OF assms(1)] unfolding in_batch_ids [OF assms(1)] by (simp add: flags_ok_def)

lemma any_req_sets:
  assumes "condensed B"
  shows "random_reqs B = {} \<longleftrightarrow> \<not> any_req B rf_random" "greedy_reqs B = {} \<longleftrightarrow> \<not> any_req B rf_greedy"
    "top_p_reqs B = {} \<longleftrightarrow> \<not> any_req B rf_top_p" "top_k_reqs B = {} \<longleftrightarrow> \<not> any_req B rf_top_k"
    "has_allowed_token_ids B = {} \<longleftrightarrow> \<not> any_req B rf_allowed" "no_penalties B \<longleftrightarrow> \<not> any_req B penalised"
proof -
  have gen: "{r. f (flags B r)} = {} \<longleftrightarrow> \<not> any_req B f" if "\<not> f no_flags" for f
    unfolding any_req_def using no_flag_outside [OF assms] that by (metis (mono_tags, lifting) Collect_empty_eq)
  have mem: "{r. rf_random (flags B r)} = random_reqs B" "{r. rf_greedy (flags B r)} = greedy_reqs B"
    "{r. rf_top_p (flags B r)} = top_p_reqs B" "{r. rf_top_k (flags B r)} = top_k_reqs B"
    "{r. rf_allowed (flags B r)} = has_allowed_token_ids B"
    "{r. penalised (flags B r)} = frequency_penalties_reqs B \<union> presence_penalties_reqs B \<union> repetition_penalties_reqs B"
    by (auto simp: flags_def penalised_def)
  show "random_reqs B = {} \<longleftrightarrow> \<not> any_req B rf_random" using gen [of rf_random] by (simp add: mem no_flags_def)
  show "greedy_reqs B = {} \<longleftrightarrow> \<not> any_req B rf_greedy" using gen [of rf_greedy] by (simp add: mem no_flags_def)
  show "top_p_reqs B = {} \<longleftrightarrow> \<not> any_req B rf_top_p" using gen [of rf_top_p] by (simp add: mem no_flags_def)
  show "top_k_reqs B = {} \<longleftrightarrow> \<not> any_req B rf_top_k" using gen [of rf_top_k] by (simp add: mem no_flags_def)
  show "has_allowed_token_ids B = {} \<longleftrightarrow> \<not> any_req B rf_allowed" using gen [of rf_allowed] by (simp add: mem no_flags_def)
  show "no_penalties B \<longleftrightarrow> \<not> any_req B penalised"
    using gen [of penalised] unfolding mem by (auto simp: no_flags_def penalised_def no_penalties_def)
qed

lemma any_req_nonempty: "any_req B f \<Longrightarrow> condensed B \<Longrightarrow> 0 < num_reqs B"
  by (cases "batch_ids B") (auto simp: any_req_def dest: condensedD(7))

subsection \<open>Log probabilities\<close>

lemma foldl_max: "foldl max a xs = Max (set (a # xs))" for a :: int
proof (induction xs arbitrary: a)
  case (Cons x xs)
  then show ?case by (cases "xs = []") (simp_all add: max.assoc)
qed simp

lemma max_num_logprobs_eq:
  assumes "condensed B"
  shows "max_num_logprobs B = needed (logprobs_asked B \<noteq> {}) (Max (logprobs_asked B))"
proof -
  have "r \<in> set (batch_ids B)" if "map_of (num_logprobs B) r = Some k" for r k
  proof (rule ccontr)
    assume "r \<notin> set (batch_ids B)"
    then have "flags B r = no_flags" by (rule no_flag_outside [OF assms])
    then show False using that by (simp add: flags_def no_flags_def)
  qed
  then have "logprobs_asked B = ran (map_of (num_logprobs B))"
    by (auto simp: logprobs_asked_def ran_def flags_def)
  also have "\<dots> = snd ` set (num_logprobs B)"
    using condensedD(3) [OF assms] by (intro ran_distinct) (simp add: flags_ok_def)
  finally have eq: "logprobs_asked B = set (map snd (num_logprobs B))" by simp
  show ?thesis
    unfolding eq needed_def max_num_logprobs_def by (cases "num_logprobs B") (simp_all add: foldl_max)
qed

subsection \<open>Making the metadata\<close>

lemma prompt_tensor_ok:
  assumes "arrays_ok B" "0 < num_reqs B" "num_reqs B \<le> max_num_reqs B"
  shows "\<exists>t. make_prompt_token_ids_tensor B = Inr t \<and> length t = num_reqs B \<and>
    (\<forall>i < num_reqs B. take (ib_num_prompt_tokens B ! i) (t ! i) = take (ib_num_prompt_tokens B ! i) (token_ids_cpu B ! i))"
proof -
  let ?lens = "take (num_reqs B) (ib_num_prompt_tokens B)"
  let ?f = "\<lambda>(n, row). take n (take (Max (set ?lens)) row) @ replicate (length (take (Max (set ?lens)) row) - n) (int (vocab_size B))"
  let ?t = "map ?f (zip ?lens (take (num_reqs B) (token_ids_cpu B)))"
  have len: "length ?lens = num_reqs B" "length (take (num_reqs B) (token_ids_cpu B)) = num_reqs B"
    using assms(1,3) by (simp_all add: arrays_ok_def)
  then have "?lens \<noteq> []" using assms(2) by auto
  then have eq: "make_prompt_token_ids_tensor B = Inr ?t" by (simp add: make_prompt_token_ids_tensor_def Let_def)
  have "take (ib_num_prompt_tokens B ! i) (?t ! i) = take (ib_num_prompt_tokens B ! i) (token_ids_cpu B ! i)" if i: "i < num_reqs B" for i
  proof -
    have "ib_num_prompt_tokens B ! i \<in> set ?lens" using i len(1) by (metis nth_mem nth_take)
    then have "ib_num_prompt_tokens B ! i \<le> Max (set ?lens)" by simp
    moreover have "?t ! i = ?f (ib_num_prompt_tokens B ! i, token_ids_cpu B ! i)" using i len by simp
    ultimately show ?thesis by (simp add: take_take min_def)
  qed
  then show ?thesis using eq len by (intro exI [of _ ?t]) simp
qed

lemma sync_device_same:
  "ib_num_prompt_tokens (sync_device env B) = ib_num_prompt_tokens B" "token_ids_cpu (sync_device env B) = token_ids_cpu B"
  "num_reqs (sync_device env B) = num_reqs B" "arrays_ok (sync_device env B) = arrays_ok B"
  "max_num_reqs (sync_device env B) = max_num_reqs B"
  "allowed_token_ids_mask_cpu_tensor (sync_device env B) = allowed_token_ids_mask_cpu_tensor B"
  "dev_allowed_token_ids_mask (sync_device env B) = dev_allowed_token_ids_mask B"
  by (simp_all add: sync_device_def Let_def num_reqs_def arrays_ok_def)

lemma prompt_stage:
  assumes "condensed B" "any_req B penalised \<longrightarrow> need" "need \<longrightarrow> 0 < num_reqs B"
  shows "\<exists>p. (if need then res_bind (make_prompt_token_ids_tensor (sync_device env B)) (\<lambda>t. Inr (Some t)) else Inr None) = Inr p \<and>
    (any_req B penalised \<longrightarrow> prompts_ok B p)"
proof (cases need)
  case True
  note c = condensedD [OF assms(1)]
  obtain t where t: "make_prompt_token_ids_tensor (sync_device env B) = Inr t" "prompts_ok B (Some t)"
    using prompt_tensor_ok [of "sync_device env B"] c(1,6) assms(3) True unfolding sync_device_same prompts_ok_def by auto
  then show ?thesis using True by simp
next
  case False
  then show ?thesis using assms(2) by auto
qed

lemma describes_frame:
  "describes_values env (B\<lparr>batch_update_builder := bb, ib_logitsprocs := l\<rparr>) = describes_values env B"
proof -
  let ?B = "B\<lparr>batch_update_builder := bb, ib_logitsprocs := l\<rparr>"
  have row: "row_at env ?B = row_at env B" by (rule ext) (simp add: row_at_def)
  have "view env ?B = view env B" by (rule ext) (simp add: view_def row)
  moreover have "flags ?B = flags B" by (simp add: flags_def fun_eq_iff)
  moreover have "mask_of ?B = mask_of B" by (simp add: mask_of_def fun_eq_iff)
  moreover have "batch_ids ?B = batch_ids B" by (simp add: batch_ids_def)
  moreover have "num_reqs ?B = num_reqs B" "token_ids_cpu ?B = token_ids_cpu B" "ib_num_prompt_tokens ?B = ib_num_prompt_tokens B"
    by (simp_all add: num_reqs_def)
  ultimately show ?thesis
    by (intro ext) (simp only: describes_values_def describes_penalties_def prompts_ok_def column_def any_req_def logprobs_asked_def)
qed

context batch_parts
begin

text \<open>The mask goes to the device when a request restricts its tokens.\<close>

lemma mask_stage:
  fixes B :: "('bb, 'bt, 'lp) input_batch"
  assumes "condensed B"
  shows "\<exists>g mask. (if no_allowed_token_ids B then Inr (sync_device env B, None)
      else (case (allowed_token_ids_mask_cpu_tensor (sync_device env B), dev_allowed_token_ids_mask (sync_device env B)) of
              (Some m, Some d) \<Rightarrow>
                let d' = be_copy_rows env m d (num_reqs B)
                in Inr ((sync_device env B)\<lparr>dev_allowed_token_ids_mask := Some d'\<rparr>, Some (take (num_reqs B) d'))
            | _ \<Rightarrow> Inl AssertionError)) = Inr ((sync_device env B)\<lparr>dev_allowed_token_ids_mask := g\<rparr>, mask) \<and>
    mask = needed (any_req B rf_allowed) (map (\<lambda>r. the (mask_of B r)) (batch_ids B))"
proof (cases "any_req B rf_allowed")
  case False
  then show ?thesis
    by (intro exI [of _ "dev_allowed_token_ids_mask (sync_device env B)"] exI [of _ None])
      (simp add: no_allowed_token_ids_def any_req_sets(5) [OF assms] needed_def)
next
  case True
  let ?n = "num_reqs B"
  note c = condensedD [OF assms]
  obtain m d where md: "allowed_token_ids_mask_cpu_tensor B = Some m" "dev_allowed_token_ids_mask B = Some d"
    using c(4) True any_req_sets(5) [OF assms] by (auto simp: masks_ok_def)
  then have "length m = max_num_reqs B" using mask_length [OF c(1)] by simp
  then have "take ?n (take ?n m @ drop ?n d) = map (\<lambda>r. the (mask_of B r)) (batch_ids B)"
    using c(6,7) md(1) by (intro nth_equalityI) (simp_all add: mask_of_def batch_ids_nth [OF assms])
  then show ?thesis
    using True
    by (intro exI [of _ "Some (take ?n m @ drop ?n d)"] exI [of _ "Some (take ?n (take ?n m @ drop ?n d))"])
      (simp add: no_allowed_token_ids_def any_req_sets(5) [OF assms] needed_def sync_device_same md copy_rows)
qed

lemma copied_column:
  assumes "condensed B" "length xs = max_num_reqs B" "\<And>i. f (row_at env B i) = xs ! i"
  shows "take (num_reqs B) (take (num_reqs B) xs @ ys) = column env B f"
  using assms(2) condensedD(6) [OF assms(1)] by (simp add: column_eq [OF assms(1)] assms(3) take_as_map)

lemma synced_columns:
  assumes "condensed B"
  shows "any_req B rf_random \<Longrightarrow> take (num_reqs B) (dev_temperature (sync_device env B)) = column env B br_temperature"
    "any_req B rf_top_p \<Longrightarrow> take (num_reqs B) (dev_top_p (sync_device env B)) = column env B br_top_p"
    "any_req B rf_top_k \<Longrightarrow> take (num_reqs B) (dev_top_k (sync_device env B)) = column env B br_top_k"
    "any_req B penalised \<Longrightarrow> take (num_reqs B) (dev_frequency_penalties (sync_device env B)) = column env B br_frequency_penalty"
    "any_req B penalised \<Longrightarrow> take (num_reqs B) (dev_presence_penalties (sync_device env B)) = column env B br_presence_penalty"
    "any_req B penalised \<Longrightarrow> take (num_reqs B) (dev_repetition_penalties (sync_device env B)) = column env B br_repetition_penalty"
proof -
  note sets = any_req_sets [OF assms]
  have len: "length (temperature_cpu B) = max_num_reqs B" "length (top_p_cpu B) = max_num_reqs B" "length (top_k_cpu B) = max_num_reqs B"
    "length (frequency_penalties_cpu B) = max_num_reqs B" "length (presence_penalties_cpu B) = max_num_reqs B"
    "length (repetition_penalties_cpu B) = max_num_reqs B"
    using condensedD(1) [OF assms] by (simp_all add: arrays_ok_def)
  note col = copied_column [OF assms]
  show "any_req B rf_random \<Longrightarrow> take (num_reqs B) (dev_temperature (sync_device env B)) = column env B br_temperature"
    using col [OF len(1), of br_temperature] by (simp add: sync_device_def Let_def all_greedy_def sets copy_reals row_at_def)
  show "any_req B rf_top_p \<Longrightarrow> take (num_reqs B) (dev_top_p (sync_device env B)) = column env B br_top_p"
    using col [OF len(2), of br_top_p] by (simp add: sync_device_def Let_def no_top_p_def sets copy_reals row_at_def)
  show "any_req B rf_top_k \<Longrightarrow> take (num_reqs B) (dev_top_k (sync_device env B)) = column env B br_top_k"
    using col [OF len(3), of br_top_k] by (simp add: sync_device_def Let_def no_top_k_def sets copy_ints row_at_def)
  show "any_req B penalised \<Longrightarrow> take (num_reqs B) (dev_frequency_penalties (sync_device env B)) = column env B br_frequency_penalty"
    using col [OF len(4), of br_frequency_penalty] by (simp add: sync_device_def Let_def sets(6) copy_reals row_at_def)
  show "any_req B penalised \<Longrightarrow> take (num_reqs B) (dev_presence_penalties (sync_device env B)) = column env B br_presence_penalty"
    using col [OF len(5), of br_presence_penalty] by (simp add: sync_device_def Let_def sets(6) copy_reals row_at_def)
  show "any_req B penalised \<Longrightarrow> take (num_reqs B) (dev_repetition_penalties (sync_device env B)) = column env B br_repetition_penalty"
    using col [OF len(6), of br_repetition_penalty] by (simp add: sync_device_def Let_def sets(6) copy_reals row_at_def)
qed

lemma make_metadata_ok:
  assumes "condensed B"
  shows "\<exists>B' m. make_sampling_metadata env B = Inr (B', m) \<and> describes_values env B m"
proof -
  let ?B1 = "sync_device env B" and ?n = "num_reqs B"
  let ?need = "\<not> no_penalties B \<or> (\<exists>b \<in> set (take ?n (logits_processing_needs_token_ids B)). b)"
  note c = condensedD [OF assms] and sets = any_req_sets [OF assms] and cols = synced_columns [OF assms]
  have pen: "any_req B penalised \<longrightarrow> ?need" using sets(6) by blast
  have pos: "?need \<longrightarrow> 0 < ?n" using sets(6) any_req_nonempty [OF _ assms] by (cases ?n) auto
  obtain prompts where prompts:
    "(if ?need then res_bind (make_prompt_token_ids_tensor ?B1) (\<lambda>t. Inr (Some t)) else Inr None) = Inr prompts"
    "any_req B penalised \<longrightarrow> prompts_ok B prompts"
    using prompt_stage [OF assms pen pos, of env] by (elim exE conjE) (rule that)
  obtain g mask where masks:
    "(if no_allowed_token_ids B then Inr (?B1, None)
      else (case (allowed_token_ids_mask_cpu_tensor ?B1, dev_allowed_token_ids_mask ?B1) of
              (Some m, Some d) \<Rightarrow>
                let d' = be_copy_rows env m d ?n in Inr (?B1\<lparr>dev_allowed_token_ids_mask := Some d'\<rparr>, Some (take ?n d'))
            | _ \<Rightarrow> Inl AssertionError)) = Inr (?B1\<lparr>dev_allowed_token_ids_mask := g\<rparr>, mask)"
    "mask = needed (any_req B rf_allowed) (map (\<lambda>r. the (mask_of B r)) (batch_ids B))"
    using mask_stage [OF assms] by (elim exE conjE) (rule that)
  let ?m = "\<lparr>sm_temperature = (if all_greedy B then None else Some (take ?n (dev_temperature ?B1))),
                sm_all_greedy = all_greedy B, sm_all_random = all_random B,
                sm_top_p = (if no_top_p B then None else Some (take ?n (dev_top_p ?B1))),
                sm_top_k = (if no_top_k B then None else Some (take ?n (dev_top_k ?B1))),
                sm_max_num_logprobs = max_num_logprobs B,
                sm_prompt_token_ids = prompts,
                sm_frequency_penalties = take ?n (dev_frequency_penalties ?B1),
                sm_presence_penalties = take ?n (dev_presence_penalties ?B1),
                sm_repetition_penalties = take ?n (dev_repetition_penalties ?B1),
                sm_no_penalties = no_penalties B,
                sm_allowed_token_ids_mask = mask\<rparr>"
  have "make_sampling_metadata env B = Inr (?B1\<lparr>dev_allowed_token_ids_mask := g\<rparr>, ?m)"
    unfolding make_sampling_metadata_def Let_def prompts(1) masks(1) [unfolded Let_def] by simp
  moreover have "describes_values env B ?m"
  proof -
    have "describes_penalties env B ?m" if "any_req B penalised"
      using that cols(4-6) prompts(2) by (simp add: describes_penalties_def)
    then show ?thesis
      using cols(1-3) masks(2) max_num_logprobs_eq [OF assms]
      by (simp add: describes_values_def needed_def all_greedy_def all_random_def no_top_p_def no_top_k_def sets)
  qed
  ultimately show ?thesis by blast
qed

lemma shared_condensed:
  assumes "condensed B"
  shows "describes_shared env B B"
proof -
  have "length (req_output_token_ids B) = num_reqs B" using condensedD(2,5) [OF assms] by (simp add: index_ok_def)
  then have "req_output_token_ids B = column env B br_output"
    using take_as_map [of "num_reqs B" "req_output_token_ids B"] by (simp add: column_eq [OF assms] row_at_def)
  moreover have "generators B i = column env B br_generator ! i" "bad_words_token_ids B i = column env B br_bad_words ! i" if "i < num_reqs B" for i
    using that by (simp_all add: column_eq [OF assms] row_at_def)
  ultimately show ?thesis by (simp add: describes_shared_def sm_generators_def sm_output_token_ids_def sm_bad_words_token_ids_def)
qed

lemma shared_same_rows:
  assumes "same_rows B B'"
  shows "describes_shared env C B' = describes_shared env C B"
proof -
  have "generators B' = generators B" "req_output_token_ids B' = req_output_token_ids B" "bad_words_token_ids B' = bad_words_token_ids B"
    by (subst conjunct1 [OF assms [unfolded same_rows_def]], simp)+
  then show ?thesis by (simp add: describes_shared_def sm_generators_def sm_output_token_ids_def sm_bad_words_token_ids_def)
qed

lemma refresh_metadata_ok:
  assumes "condensed B" "fst (bb_get_and_reset (be_builder env) (batch_update_builder B) (num_reqs B)) \<noteq> None"
  shows "\<exists>B'. refresh_metadata env B = Inr B' \<and> updating env B' \<and> view env B' = view env B \<and> flags B' = flags B \<and>
    describes env B B'"
proof -
  let ?ops = "be_builder env" and ?b = "batch_update_builder B"
  let ?B1 = "B\<lparr>batch_update_builder := snd (bb_get_and_reset ?ops ?b (num_reqs B)),
      ib_logitsprocs := map (\<lambda>p. be_update_state env p (fst (bb_get_and_reset ?ops ?b (num_reqs B)))) (ib_logitsprocs B)\<rparr>"
  have same: "same_rows B ?B1" by (simp add: same_rows_def)
  have "condensed ?B1" using assms(1) unfolding condensed_def same_rows_frame(1,2) [OF same] .
  then obtain B2 m where m: "make_sampling_metadata env ?B1 = Inr (B2, m)" "describes_values env B m"
    using make_metadata_ok [of ?B1] unfolding describes_frame by blast
  have np: "\<not> is_pooling_model B" using condensedD(2) [OF assms(1)] by (simp add: index_ok_def)
  have eq: "refresh_metadata env B = Inr (B2\<lparr>ib_sampling_metadata := m\<rparr>)"
    using assms(2) np m(1) by (simp add: refresh_metadata_def case_prod_unfold Let_def)
  have "flags (B2\<lparr>ib_sampling_metadata := m\<rparr>) = flags B"
    using same_rows_frame(5) [OF conjunct1 [OF refresh_same_rows [OF eq np]]] .
  moreover have "describes_shared env B (B2\<lparr>ib_sampling_metadata := m\<rparr>)"
    using shared_condensed [OF assms(1)] shared_same_rows [OF conjunct1 [OF refresh_same_rows [OF eq np]]] by blast
  ultimately show ?thesis using eq m(2) refresh_keeps [OF assms(1) eq] by (auto simp: describes_def)
qed

end

text \<open>
  C15. After a batch has changed and been condensed, \<^verbatim>\<open>refresh_metadata\<close> succeeds, keeps the batch, and the
  metadata it makes describe exactly the requests of the batch in their order, in the values they hold and in what is
  read through their references to the batch: temperatures, top-p and
  top-k values, penalties with the prompts and the masks of allowed tokens appear for all rows when some
  request asks for the feature and are left out otherwise; the flags for all-greedy and all-random
  batches and the largest number of log probabilities are those of the requests.
\<close>

theorem refresh_metadata_correct:
  assumes "batch_parts env" "condensed B"
    "fst (bb_get_and_reset (be_builder env) (batch_update_builder B) (num_reqs B)) \<noteq> None"
  shows "\<exists>B'. refresh_metadata env B = Inr B' \<and> updating env B' \<and> view env B' = view env B \<and> flags B' = flags B \<and>
    describes env B B'"
  by (rule batch_parts.refresh_metadata_ok [OF assms])

theorem refresh_metadata_correct_witness:
  "\<exists>B'. refresh_metadata list_batch_env demo_two = Inr B' \<and> describes list_batch_env demo_two B' \<and>
     batch_ids demo_two = [''a'', ''b''] \<and> sm_allowed_token_ids_mask (ib_sampling_metadata B') \<noteq> None"
proof -
  have c: "condensed demo_two"
    using demo_two_updating by (auto simp: condensed_def updating_def holes_def demo_two_facts nth_Cons' less_Suc_eq)
  have u: "fst (bb_get_and_reset (be_builder list_batch_env) (batch_update_builder demo_two) (num_reqs demo_two)) \<noteq> None"
    by code_simp
  have "any_req demo_two rf_allowed" by code_simp
  then show ?thesis
    using refresh_metadata_correct [OF list_batch.batch_parts_axioms c u]
    by (auto simp: batch_ids_def demo_two_facts describes_def describes_values_def needed_def)
qed

end
