(* ===== verification/Datadist_Connector.thy ===== *)
theory Datadist_Connector
  imports Engine_Types
begin

section \<open>The LLMDataDist KV connector\<close>

text \<open>
  \<^verbatim>\<open>vllm_ascend/distributed/llmdatadist_c_mgr_connector.py\<close>: the scheduler side, the worker side with its
  listener thread, the links to remote clusters and the single executor thread that pulls blocks,
  and the connector that dispatches to one of the two. The library \<^verbatim>\<open>llm_datadist\<close>, the sockets and the
  message decoder are parameters (\<open>dd_env\<close>); the attempts to send a message to a remote listener are
  listed in \<open>dw_sent\<close>, whether they succeeded or not. An operation that changes state before it raises returns the state and the result.
\<close>

datatype dd_event = ReqForMetadata | ReqForFinished

definition dd_event_of :: "int \<Rightarrow> dd_event result" where
  "dd_event_of i = (if i = 0 then Inr ReqForMetadata else if i = 1 then Inr ReqForFinished else Inl ValueError)"

record dd_agent =
  ag_super_pod_id :: "string option"
  ag_server_id :: string
  ag_device_id :: string
  ag_device_ip :: string
  ag_super_device_id :: "string option"
  ag_cluster_id :: int

record dd_req_meta =
  dm_local_block_ids :: "int list"
  dm_remote_block_ids :: "int list"
  dm_remote_host :: string
  dm_remote_port :: py_value
  dm_engine_id :: string
  dm_remote_tp_size :: py_value

type_synonym dd_meta = "(rid \<times> dd_req_meta) list"

definition param_any :: "kv_params \<Rightarrow> string \<Rightarrow> py_value result" where
  "param_any ps k = map_item ps k"

definition dd_add_new_req :: "dd_meta \<Rightarrow> rid \<Rightarrow> int list \<Rightarrow> kv_params \<Rightarrow> dd_meta result" where
  "dd_add_new_req meta r local_ids ps =
     res_bind (param_ints ps ''remote_block_ids'') (\<lambda>remote_ids.
     res_bind (param_str ps ''remote_engine_id'') (\<lambda>engine.
     res_bind (param_str ps ''remote_host'') (\<lambda>host.
     res_bind (param_any ps ''remote_port'') (\<lambda>port.
     res_bind (param_any ps ''remote_tp_size'') (\<lambda>tp.
     Inr (dict_set r \<lparr>dm_local_block_ids = local_ids, dm_remote_block_ids = remote_ids, dm_remote_host = host,
                      dm_remote_port = port, dm_engine_id = engine, dm_remote_tp_size = tp\<rparr> meta))))))"

subsection \<open>LLMDataDistCMgrConnectorScheduler\<close>

record dd_sched =
  ds_block_size :: int
  ds_engine_id :: string
  ds_local_ip :: string
  ds_tensor_parallel_size :: int
  ds_port :: int
  ds_reqs_need_recv :: "(rid \<times> int list) list"

text \<open>\<open>rpc_port\<close> is \<^verbatim>\<open>envs_ascend.VLLM_ASCEND_LLMDD_RPC_PORT\<close>; \<open>None\<close> when there is no local data parallel rank.\<close>

definition dd_base_port :: "int \<Rightarrow> int option \<Rightarrow> int \<Rightarrow> int" where
  "dd_base_port rpc_port dp_rank_local tp_size =
     (case dp_rank_local of Some dp \<Rightarrow> dp * tp_size + rpc_port | None \<Rightarrow> tp_size + rpc_port)"

definition dd_sched_init :: "int \<Rightarrow> string \<Rightarrow> string \<Rightarrow> int \<Rightarrow> int option \<Rightarrow> int \<Rightarrow> dd_sched" where
  "dd_sched_init block_size engine_id ip rpc_port dp_rank_local tp_size =
     \<lparr>ds_block_size = block_size, ds_engine_id = engine_id, ds_local_ip = ip, ds_tensor_parallel_size = tp_size,
      ds_port = dd_base_port rpc_port dp_rank_local tp_size, ds_reqs_need_recv = []\<rparr>"

definition dd_get_num_new_matched_tokens :: "dd_sched \<Rightarrow> request \<Rightarrow> int \<Rightarrow> (int \<times> bool) result" where
  "dd_get_num_new_matched_tokens s q n =
     (case kv_transfer_params q of
        None \<Rightarrow> Inr (0, False)
      | Some ps \<Rightarrow>
          if get_truthy ps ''do_remote_prefill'' then
            if ds_block_size s = 0 then Inl ZeroDivisionError
            else
              res_bind (py_assert (n mod ds_block_size s = 0)) (\<lambda>_.
                let count = max (int (length (prompt_token_ids q)) - n) 0 in Inr (count, count > 0))
          else Inr (0, False))"

definition dd_update_state_after_alloc ::
  "('b \<Rightarrow> int list) \<Rightarrow> dd_sched \<Rightarrow> request \<Rightarrow> 'b \<Rightarrow> int \<Rightarrow> (dd_sched \<times> request) result" where
  "dd_update_state_after_alloc unhashed s q blocks num_external_tokens =
     (case kv_transfer_params q of
        None \<Rightarrow> Inr (s, q)
      | Some ps \<Rightarrow>
          if get_truthy ps ''do_remote_prefill'' then
            res_bind
              (if get_truthy ps ''remote_block_ids'' then
                 if list_all (\<lambda>k. ps k \<noteq> None) [''remote_engine_id'', ''remote_host'', ''remote_port'', ''remote_tp_size''] then
                   Inr (s\<lparr>ds_reqs_need_recv := dict_set (request_id q) (unhashed blocks) (ds_reqs_need_recv s)\<rparr>)
                 else Inr s
               else res_bind (py_assert (num_external_tokens = 0)) (\<lambda>_. Inr s))
              (\<lambda>s'. Inr (s', q\<lparr>kv_transfer_params := Some (ps(''do_remote_prefill'' \<mapsto> PBool False))\<rparr>))
          else Inr (s, q))"

definition dd_build_connector_meta :: "dd_sched \<Rightarrow> (rid \<Rightarrow> request) \<Rightarrow> (dd_sched \<times> dd_meta) result" where
  "dd_build_connector_meta s ob =
     res_bind
       (res_foldl (\<lambda>meta (r, ids).
            case kv_transfer_params (ob r) of
              None \<Rightarrow> Inl AssertionError
            | Some ps \<Rightarrow> dd_add_new_req meta r ids ps) [] (ds_reqs_need_recv s))
       (\<lambda>meta. Inr (s\<lparr>ds_reqs_need_recv := []\<rparr>, meta))"

definition dd_request_finished :: "dd_sched \<Rightarrow> request \<Rightarrow> int list \<Rightarrow> bool \<times> kv_params option" where
  "dd_request_finished s q block_ids =
     (case kv_transfer_params q of
        None \<Rightarrow> (False, None)
      | Some ps \<Rightarrow>
          if \<not> get_truthy ps ''do_remote_decode'' \<or> status q \<noteq> FINISHED_LENGTH_CAPPED then (False, None)
          else
            (length block_ids > 0,
             Some [''do_remote_prefill'' \<mapsto> PBool True, ''do_remote_decode'' \<mapsto> PBool False,
                   ''remote_block_ids'' \<mapsto> PInts block_ids, ''remote_engine_id'' \<mapsto> PStr (ds_engine_id s),
                   ''remote_host'' \<mapsto> PStr (ds_local_ip s), ''remote_port'' \<mapsto> PInt (ds_port s),
                   ''remote_tp_size'' \<mapsto> PStr (str_int (ds_tensor_parallel_size s))]))"

definition datadist_ops :: "('b \<Rightarrow> int list) \<Rightarrow> (dd_sched, 'b, dd_meta) connector_ops" where
  "datadist_ops unhashed =
     \<lparr>cn_get_num_new_matched_tokens = dd_get_num_new_matched_tokens,
      cn_update_state_after_alloc = dd_update_state_after_alloc unhashed,
      cn_build_connector_meta = dd_build_connector_meta,
      cn_request_finished = dd_request_finished\<rparr>"

subsection \<open>The rank table file\<close>

type_synonym device_info = "string \<rightharpoonup> py_value"
type_synonym rank_table = "string \<rightharpoonup> device_info list"

definition read_devices :: "rank_table \<Rightarrow> string \<Rightarrow> (py_value \<times> py_value) list result" where
  "read_devices tab k =
     res_bind (map_item tab k) (\<lambda>ds.
       res_map (\<lambda>d. res_bind (map_item d ''server_id'') (\<lambda>sid. res_bind (map_item d ''device_id'') (\<lambda>did. Inr (sid, did)))) ds)"

definition read_offline_rank_table ::
  "string option \<Rightarrow> (string \<Rightarrow> rank_table result) \<Rightarrow>
   (rank_table \<times> (py_value \<times> py_value) list \<times> (py_value \<times> py_value) list) result" where
  "read_offline_rank_table path load =
     (case path of
        None \<Rightarrow> Inl AssertionError
      | Some p \<Rightarrow>
          if p = [] then Inl AssertionError
          else
            res_bind (load p) (\<lambda>tab.
            res_bind (read_devices tab ''decode_device_list'') (\<lambda>decode.
            res_bind (read_devices tab ''prefill_device_list'') (\<lambda>prefill.
            Inr (tab, decode, prefill)))))"

text \<open>\<open>visible\<close> is the variable \<^verbatim>\<open>ASCEND_RT_VISIBLE_DEVICES\<close>, empty when it is not set.\<close>

definition device_visible :: "string \<Rightarrow> py_value \<Rightarrow> bool" where
  "device_visible visible d = (visible = [] \<or> (\<exists>s \<in> set (split_char (CHR '','') visible). d = PStr s))"

datatype dd_role = PROMPT | DECODER

definition dd_role_of :: "string \<Rightarrow> dd_role result" where
  "dd_role_of kv_role =
     (if kv_role = ''kv_producer'' then Inr PROMPT
      else if kv_role = ''kv_consumer'' then Inr DECODER else Inl RuntimeError)"

text \<open>The fields that the code passes on unread are strings here; another type of value is a \<open>TypeError\<close>.\<close>

fun str_of :: "py_value \<Rightarrow> string result" where
  "str_of (PStr s) = Inr s"
| "str_of _ = Inl TypeError"

fun int_of :: "py_value \<Rightarrow> int result" where
  "int_of (PInt i) = Inr i"
| "int_of _ = Inl TypeError"

fun opt_str_of :: "py_value option \<Rightarrow> string option result" where
  "opt_str_of None = Inr None"
| "opt_str_of (Some PNone) = Inr None"
| "opt_str_of (Some (PStr s)) = Inr (Some s)"
| "opt_str_of (Some _) = Inl TypeError"

text \<open>\<^verbatim>\<open>read_agent_metadata\<close>: the entry of this server's visible devices at the tensor parallel rank.\<close>

definition read_agent_metadata :: "rank_table \<Rightarrow> dd_role \<Rightarrow> string \<Rightarrow> string \<Rightarrow> nat \<Rightarrow> dd_agent result" where
  "read_agent_metadata tab role local_ip visible tp_rank =
     res_bind (map_item tab (case role of PROMPT \<Rightarrow> ''prefill_device_list'' | DECODER \<Rightarrow> ''decode_device_list'')) (\<lambda>ds.
       let mine = filter (\<lambda>d. d ''server_id'' = Some (PStr local_ip) \<and>
                              device_visible visible (case d ''device_id'' of None \<Rightarrow> PStr [] | Some v \<Rightarrow> v)) ds
       in if length mine \<le> tp_rank then Inl AssertionError
          else
            let d = mine ! tp_rank in
            res_bind (opt_str_of (d ''super_pod_id'')) (\<lambda>pod.
            res_bind (res_bind (map_item d ''server_id'') str_of) (\<lambda>server.
            res_bind (res_bind (map_item d ''device_id'') str_of) (\<lambda>dev.
            res_bind (res_bind (map_item d ''device_ip'') str_of) (\<lambda>ip.
            res_bind (opt_str_of (d ''super_device_id'')) (\<lambda>sdev.
            res_bind (res_bind (map_item d ''cluster_id'') py_int_of) (\<lambda>cluster.
            Inr \<lparr>ag_super_pod_id = pod, ag_server_id = server, ag_device_id = dev, ag_device_ip = ip,
                 ag_super_device_id = sdev, ag_cluster_id = cluster\<rparr>)))))))"

subsection \<open>LLMDataDistCMgrConnectorWorker\<close>

datatype json = JNull | JStr string | JArr "json list" | JObj "(string \<times> json) list"

text \<open>What \<^verbatim>\<open>query_register_mem_status\<close> answers, or the exception it raises.\<close>

datatype mem_status = MEM_OK | MEM_FAILED | MEM_PENDING | MEM_RAISES py_error

text \<open>A cache key: the cluster and, for MLA, the model id.\<close>

type_synonym cache_key = "int \<times> int option"

record dd_task =
  dt_local_block_ids :: "int list"
  dt_remote_block_ids :: "int list"
  dt_remote_ip :: string
  dt_remote_port :: int
  dt_remote_engine_id :: string
  dt_request_id :: rid
  dt_remote_tp_size :: py_value

record dd_worker =
  dw_role :: dd_role
  dw_tp_rank :: int
  dw_tp_size :: int
  dw_local_dp_rank :: "int option"
  dw_local_ip :: string
  dw_agent :: dd_agent
  dw_soc_is_a3 :: bool
  dw_linked_cluster :: "(int \<times> int) list"
  dw_finished_reqs :: "rid set"
  dw_done_receiving_counts :: "rid \<rightharpoonup> int set"
  dw_use_mla :: "bool option"
  dw_num_blocks :: int
  dw_block_len :: int
  dw_cache_addr :: "int list list"
  dw_cache :: "nat list option"
  dw_listening :: bool
  dw_executor :: "dd_task list"
  dw_sent :: "(string \<times> int \<times> rid \<times> int \<times> int) list"

text \<open>The element types; \<^verbatim>\<open>torch.half\<close> is \<^verbatim>\<open>torch.float16\<close> and \<^verbatim>\<open>torch.float\<close> is \<^verbatim>\<open>torch.float32\<close>.\<close>

datatype torch_dtype =
    Tfloat16 | Tbfloat16 | Tfloat32 | Tint8 | Tint64 | Tint32 | Tuint8 | Tint16 | Tfloat64 | Tbool

datatype npu_dtype = DT_FLOAT16 | DT_BF16 | DT_FLOAT | DT_INT8 | DT_INT64 | DT_INT32

fun TORCH_DTYPE_TO_NPU_DTYPE :: "torch_dtype \<rightharpoonup> npu_dtype" where
  "TORCH_DTYPE_TO_NPU_DTYPE Tfloat16 = Some DT_FLOAT16"
| "TORCH_DTYPE_TO_NPU_DTYPE Tbfloat16 = Some DT_BF16"
| "TORCH_DTYPE_TO_NPU_DTYPE Tfloat32 = Some DT_FLOAT"
| "TORCH_DTYPE_TO_NPU_DTYPE Tint8 = Some DT_INT8"
| "TORCH_DTYPE_TO_NPU_DTYPE Tint64 = Some DT_INT64"
| "TORCH_DTYPE_TO_NPU_DTYPE Tint32 = Some DT_INT32"
| "TORCH_DTYPE_TO_NPU_DTYPE _ = None"

text \<open>What the code reads of a tensor of the KV cache, and the arguments of \<^verbatim>\<open>CacheDesc\<close>.\<close>

record kv_tensor =
  kt_shape :: "int list"
  kt_dtype :: torch_dtype
  kt_data_ptr :: int

record cache_desc =
  cd_num_tensors :: nat
  cd_shape :: "int list"
  cd_dtype :: npu_dtype

record dd_env =
  de_link :: "string \<Rightarrow> (int \<times> int) list \<Rightarrow> json \<Rightarrow> int result"
  de_mem_status :: "int \<Rightarrow> nat \<Rightarrow> mem_status"
  de_unlink :: "int \<Rightarrow> unit result"
  de_register :: "cache_desc \<Rightarrow> int list \<Rightarrow> cache_key \<Rightarrow> nat result"
  de_pull_blocks :: "cache_key \<Rightarrow> nat list \<Rightarrow> int list \<Rightarrow> int list \<Rightarrow> unit result"
  de_fetch_agent :: "string \<Rightarrow> int \<Rightarrow> dd_agent result"

definition dd_worker_init ::
  "string \<Rightarrow> int \<Rightarrow> int \<Rightarrow> int option \<Rightarrow> string \<Rightarrow> string option \<Rightarrow> (string \<Rightarrow> rank_table result) \<Rightarrow> string \<Rightarrow> bool \<Rightarrow>
   dd_worker result" where
  "dd_worker_init kv_role tp_rank tp_size dp_rank ip path load visible soc_is_a3 =
     res_bind (dd_role_of kv_role) (\<lambda>role.
     res_bind (read_offline_rank_table path load) (\<lambda>(tab, decode, prefill).
     res_bind (read_agent_metadata tab role ip visible (nat tp_rank)) (\<lambda>agent.
     Inr \<lparr>dw_role = role, dw_tp_rank = tp_rank, dw_tp_size = tp_size, dw_local_dp_rank = dp_rank, dw_local_ip = ip,
          dw_agent = agent, dw_soc_is_a3 = soc_is_a3, dw_linked_cluster = [], dw_finished_reqs = {},
          dw_done_receiving_counts = Map.empty, dw_use_mla = None, dw_num_blocks = 0, dw_block_len = 0,
          dw_cache_addr = [], dw_cache = None, dw_listening = False, dw_executor = [], dw_sent = []\<rparr>)))"

subsubsection \<open>Registering the KV caches\<close>

text \<open>
  The caches of the layers are tuples of tensors in the order of the dictionary. What is stored in
  the worker before an exception stays stored. With MLA the two halves of every layer are registered
  under two model ids; otherwise all tensors are registered together, and their addresses have to be
  multiples of 2 MiB. At the end the listener thread is started.
\<close>

definition last_dim :: "kv_tensor \<Rightarrow> int result" where
  "last_dim t = list_item (kt_shape t) (- 1)"

definition npu_dtype_of :: "torch_dtype \<Rightarrow> npu_dtype result" where
  "npu_dtype_of d = map_item TORCH_DTYPE_TO_NPU_DTYPE d"

definition wrap_register :: "nat result \<Rightarrow> nat result" where
  "wrap_register r = (case r of Inr c \<Rightarrow> Inr c | Inl x \<Rightarrow> Inl (if x \<in> {TypeError, ValueError} then RuntimeError else x))"

definition alignment :: int where
  "alignment = 2 * 1024 * 1024"

text \<open>The addresses that the loop collected and what it raised.\<close>

fun aligned_addrs :: "int list \<Rightarrow> kv_tensor list \<Rightarrow> int list \<times> unit result" where
  "aligned_addrs acc [] = (acc, Inr ())"
| "aligned_addrs acc (t # ts) =
     (if kt_data_ptr t mod alignment = 0 then aligned_addrs (acc @ [kt_data_ptr t]) ts else (acc, Inl AssertionError))"

definition register_mla :: "dd_env \<Rightarrow> dd_worker \<Rightarrow> torch_dtype \<Rightarrow> kv_tensor list list \<Rightarrow> dd_worker \<times> unit result" where
  "register_mla env w dtype layers =
     (if \<exists>l \<in> set layers. length l \<le> 1 then (w\<lparr>dw_cache_addr := []\<rparr>, Inl AssertionError)
      else
        let normed = map (\<lambda>l. l ! 0) layers; pe = map (\<lambda>l. l ! 1) layers;
            addrs0 = map kt_data_ptr normed; addrs1 = map kt_data_ptr pe;
            cluster = ag_cluster_id (dw_agent w);
            w1 = w\<lparr>dw_cache_addr := [addrs0, addrs1]\<rparr>
        in case res_bind (npu_dtype_of dtype) (\<lambda>d.
                let desc0 = \<lparr>cd_num_tensors = length addrs0, cd_shape = kt_shape (last normed), cd_dtype = d\<rparr>;
                    desc1 = \<lparr>cd_num_tensors = length addrs1, cd_shape = kt_shape (last pe), cd_dtype = d\<rparr>
                in res_bind (wrap_register (de_register env desc0 addrs0 (cluster, Some 0))) (\<lambda>c0.
                   res_bind (wrap_register (de_register env desc1 addrs1 (cluster, Some 1))) (\<lambda>c1. Inr [c0, c1]))) of
             Inl x \<Rightarrow> (w1, Inl x)
           | Inr cache \<Rightarrow> (w1\<lparr>dw_cache := Some cache\<rparr>, Inr ()))"

definition register_paged :: "dd_env \<Rightarrow> dd_worker \<Rightarrow> torch_dtype \<Rightarrow> kv_tensor list list \<Rightarrow> dd_worker \<times> unit result" where
  "register_paged env w dtype layers =
     (let tensors = concat layers;
          (addrs, aligned) = aligned_addrs [] tensors;
          w1 = w\<lparr>dw_cache_addr := [addrs]\<rparr>
      in case res_bind aligned (\<lambda>_. res_bind (npu_dtype_of dtype) (\<lambda>d.
                wrap_register (de_register env
                  \<lparr>cd_num_tensors = length addrs, cd_shape = kt_shape (last tensors), cd_dtype = d\<rparr>
                  addrs (ag_cluster_id (dw_agent w), None)))) of
           Inl x \<Rightarrow> (w1, Inl x)
         | Inr c \<Rightarrow> (w1\<lparr>dw_cache := Some [c]\<rparr>, Inr ()))"

definition dd_register_kv_caches :: "dd_env \<Rightarrow> dd_worker \<Rightarrow> (string \<times> kv_tensor list) list \<Rightarrow> dd_worker \<times> unit result" where
  "dd_register_kv_caches env w kv_caches =
     (case kv_caches of
        [] \<Rightarrow> (w, Inl StopIteration)
      | (_, []) # _ \<Rightarrow> (w, Inl IndexError)
      | (_, [_]) # _ \<Rightarrow> (w, Inl AssertionError)
      | (_, k # v # _) # _ \<Rightarrow>
          (case res_bind (last_dim k) (\<lambda>dk. res_bind (last_dim v) (\<lambda>dv. Inr (dk \<noteq> dv))) of
             Inl x \<Rightarrow> (w, Inl x)
           | Inr use_mla \<Rightarrow>
               let shape = kt_shape k; layers = map snd kv_caches;
                   w1 = w\<lparr>dw_use_mla := Some use_mla, dw_num_blocks := hd shape,
                          dw_block_len := prod_list (drop (length shape - 3) shape)\<rparr>;
                   (w2, res) = (if use_mla then register_mla env w1 (kt_dtype k) layers
                                else register_paged env w1 (kt_dtype k) layers)
               in case res of Inl x \<Rightarrow> (w2, Inl x) | Inr _ \<Rightarrow> (w2\<lparr>dw_listening := True\<rparr>, Inr ())))"

subsubsection \<open>Completion and links\<close>

text \<open>The port on which the worker listens.\<close>

definition dd_listen_port :: "int \<Rightarrow> dd_worker \<Rightarrow> int" where
  "dd_listen_port rpc_port w =
     (case dw_local_dp_rank w of
        Some dp \<Rightarrow> rpc_port + dp * dw_tp_size w + dw_tp_rank w
      | None \<Rightarrow> rpc_port + dw_tp_size w + dw_tp_rank w)"

definition dd_increment_task_count :: "dd_worker \<Rightarrow> rid \<Rightarrow> int \<Rightarrow> int \<Rightarrow> bool \<times> dd_worker" where
  "dd_increment_task_count w r tp_rank decode_tp_size =
     (let ranks = (case dw_done_receiving_counts w r of None \<Rightarrow> {} | Some rs \<Rightarrow> rs) in
      if tp_rank \<in> ranks then (False, w)
      else
        let ranks' = insert tp_rank ranks in
        if int (card ranks') = decode_tp_size then
          (True, w\<lparr>dw_done_receiving_counts := (dw_done_receiving_counts w)(r := None)\<rparr>)
        else (False, w\<lparr>dw_done_receiving_counts := (dw_done_receiving_counts w)(r \<mapsto> ranks')\<rparr>))"

text \<open>A device of the rank table; entries whose value is \<^verbatim>\<open>None\<close> are left out.\<close>

definition rank_device :: "dd_agent \<Rightarrow> string \<Rightarrow> json" where
  "rank_device a rank_id =
     JObj ([(''device_id'', JStr (ag_device_id a)), (''device_ip'', JStr (ag_device_ip a))]
           @ (case ag_super_device_id a of None \<Rightarrow> [] | Some d \<Rightarrow> [(''super_device_id'', JStr d)])
           @ [(''rank_id'', JStr rank_id)])"

definition server_entry :: "json list \<Rightarrow> dd_agent \<Rightarrow> json" where
  "server_entry devices a = JObj [(''device'', JArr devices), (''server_id'', JStr (ag_server_id a))]"

definition json_opt :: "string option \<Rightarrow> json" where
  "json_opt x = (case x of None \<Rightarrow> JNull | Some s \<Rightarrow> JStr s)"

definition pod_entry :: "dd_agent \<Rightarrow> dd_agent list \<Rightarrow> json" where
  "pod_entry a servers =
     JObj [(''super_pod_id'', json_opt (ag_super_pod_id a)),
           (''server_list'', JArr (map (\<lambda>b. JObj [(''server_id'', JStr (ag_server_id b))]) servers))]"

definition link_rank_table :: "bool \<Rightarrow> dd_agent \<Rightarrow> dd_agent \<Rightarrow> json" where
  "link_rank_table soc_is_a3 prefill decode =
     (let same_server = ag_server_id prefill = ag_server_id decode;
          same_pod = ag_super_pod_id prefill = ag_super_pod_id decode;
          servers = (if same_server then [server_entry [rank_device prefill ''0'', rank_device decode ''1''] prefill]
                     else [server_entry [rank_device prefill ''0''] prefill, server_entry [rank_device decode ''1''] decode]);
          pods = (if same_pod \<and> \<not> same_server then [pod_entry prefill [prefill, decode]] else [pod_entry prefill [prefill]])
                 @ (if same_pod then [] else [pod_entry decode [decode]])
      in JObj ([(''version'', JStr ''1.2''), (''server_count'', JStr (if same_server then ''1'' else ''2'')),
                (''status'', JStr ''completed''), (''server_list'', JArr servers)]
               @ (if soc_is_a3 then [(''super_pod_list'', JArr pods)] else [])))"

definition comm_name :: "dd_agent \<Rightarrow> dd_agent \<Rightarrow> string" where
  "comm_name prefill decode = ''pd_comm_'' @ ag_device_ip prefill @ ''_'' @ ag_device_ip decode"

text \<open>Polling the state of a link, one query per second.\<close>

partial_function (option) wait_link :: "(nat \<Rightarrow> mem_status) \<Rightarrow> nat \<Rightarrow> unit result option" where
  "wait_link st i =
     (case st i of
        MEM_OK \<Rightarrow> Some (Inr ())
      | MEM_FAILED \<Rightarrow> Some (Inl RuntimeError)
      | MEM_RAISES x \<Rightarrow> Some (Inl x)
      | MEM_PENDING \<Rightarrow> wait_link st (Suc i))"

declare wait_link.simps [code]

text \<open>The arguments with which a link is requested: its name, the rank of each cluster and the rank table.\<close>

definition link_args :: "dd_worker \<Rightarrow> dd_agent \<Rightarrow> string \<times> (int \<times> int) list \<times> json" where
  "link_args w a =
     (let (prefill, decode) = (case dw_role w of PROMPT \<Rightarrow> (dw_agent w, a) | DECODER \<Rightarrow> (a, dw_agent w))
      in (comm_name prefill decode, dict_set (ag_cluster_id decode) 1 [(ag_cluster_id prefill, 0)],
          link_rank_table (dw_soc_is_a3 w) prefill decode))"

definition add_remote_agent :: "dd_env \<Rightarrow> dd_worker \<Rightarrow> dd_agent \<Rightarrow> (dd_worker \<times> int result) option" where
  "add_remote_agent env w a =
     (if map_of (dw_linked_cluster w) (ag_cluster_id a) \<noteq> None then Some (w, Inr (ag_cluster_id a))
      else
        let (name, ranks, table) = link_args w a in
        case de_link env name ranks table of
          Inl x \<Rightarrow> Some (w, Inl x)
        | Inr comm_id \<Rightarrow>
            map_option
              (\<lambda>res. case res of
                  Inl x \<Rightarrow> (w, Inl x)
                | Inr _ \<Rightarrow> (w\<lparr>dw_linked_cluster := dict_set (ag_cluster_id a) comm_id (dw_linked_cluster w)\<rparr>,
                            Inr (ag_cluster_id a)))
              (wait_link (de_mem_status env comm_id) 0))"

definition remove_remote_agent :: "dd_env \<Rightarrow> dd_worker \<Rightarrow> int \<Rightarrow> dd_worker \<times> unit result" where
  "remove_remote_agent env w cluster_id =
     (case map_of (dw_linked_cluster w) cluster_id of
        None \<Rightarrow> (w, Inl KeyError)
      | Some comm_id \<Rightarrow>
          (case de_unlink env comm_id of
             Inr _ \<Rightarrow> (w\<lparr>dw_linked_cluster := dict_pop cluster_id (dw_linked_cluster w)\<rparr>, Inr ())
           | Inl x \<Rightarrow> if x = LLMException then (w, Inr ()) else (w, Inl x)))"

definition connect_to_remote_agent :: "dd_env \<Rightarrow> dd_worker \<Rightarrow> string \<Rightarrow> int \<Rightarrow> (dd_worker \<times> int result) option" where
  "connect_to_remote_agent env w host port =
     (case de_fetch_agent env host port of
        Inl x \<Rightarrow> Some (w, Inl x)
      | Inr a \<Rightarrow> add_remote_agent env w a)"

text \<open>
  A failure to send or to get the answer is caught and logged, and the worker's state is the same
  either way: \<open>dw_sent\<close> lists the attempts, not the messages that arrived. It has no counterpart in
  the code's state and no operation reads it.
\<close>

definition send_finish_to_remote :: "dd_worker \<Rightarrow> string \<Rightarrow> int \<Rightarrow> rid \<Rightarrow> dd_worker" where
  "send_finish_to_remote w host port r = w\<lparr>dw_sent := dw_sent w @ [(host, port, r, dw_tp_rank w, dw_tp_size w)]\<rparr>"

definition wrap_pull :: "unit result \<Rightarrow> unit result" where
  "wrap_pull r = (case r of Inr u \<Rightarrow> Inr u
     | Inl x \<Rightarrow> Inl (if x \<in> {TypeError, ValueError, LLMException} then RuntimeError else x))"

text \<open>Before the caches are registered the attributes \<^verbatim>\<open>use_mla\<close> and \<^verbatim>\<open>cache\<close> do not exist.\<close>

definition attr :: "'a option \<Rightarrow> 'a result" where
  "attr x = (case x of None \<Rightarrow> Inl AttributeError | Some v \<Rightarrow> Inr v)"

definition pull_from :: "dd_env \<Rightarrow> dd_worker \<Rightarrow> int \<Rightarrow> int list \<Rightarrow> int list \<Rightarrow> unit result" where
  "pull_from env w cluster remote_ids local_ids =
     res_bind (attr (dw_use_mla w)) (\<lambda>use_mla.
     res_bind (attr (dw_cache w)) (\<lambda>cache.
       if use_mla then
         res_bind (list_item cache 0) (\<lambda>c0.
         res_bind (wrap_pull (de_pull_blocks env (cluster, Some 0) [c0] remote_ids local_ids)) (\<lambda>_.
         res_bind (list_item cache 1) (\<lambda>c1.
         wrap_pull (de_pull_blocks env (cluster, Some 1) [c1] remote_ids local_ids))))
       else wrap_pull (de_pull_blocks env (cluster, None) cache remote_ids local_ids)))"

definition read_blocks :: "dd_env \<Rightarrow> dd_worker \<Rightarrow> dd_task \<Rightarrow> (dd_worker \<times> unit result) option" where
  "read_blocks env w t =
     (case py_int_of (dt_remote_tp_size t) of
        Inl x \<Rightarrow> Some (w, Inl x)
      | Inr tp \<Rightarrow>
          if tp = 0 then Some (w, Inl ZeroDivisionError)
          else
            map_option
              (\<lambda>(w1, linked).
                 case linked of
                   Inl x \<Rightarrow> (w1, Inl x)
                 | Inr cluster \<Rightarrow>
                     let n_local = length (dt_local_block_ids t); n_remote = length (dt_remote_block_ids t) in
                     if n_local = 0 then (w1, Inr ())
                     else if n_remote < n_local then (w1, Inl AssertionError)
                     else
                       let remote_ids = drop (n_remote - n_local) (dt_remote_block_ids t) in
                       (case pull_from env w1 cluster remote_ids (dt_local_block_ids t) of
                          Inl x \<Rightarrow> (w1, Inl x)
                        | Inr _ \<Rightarrow>
                            let w2 = send_finish_to_remote w1 (dt_remote_ip t) (dt_remote_port t) (dt_request_id t)
                            in (w2\<lparr>dw_finished_reqs := insert (dt_request_id t) (dw_finished_reqs w2)\<rparr>, Inr ())))
              (connect_to_remote_agent env w (dt_remote_ip t) (dt_remote_port t + dw_tp_rank w mod tp)))"

text \<open>
  \<^verbatim>\<open>start_load_kv\<close> submits one task per request to the executor; a port that is not a number raises
  after the tasks before it were submitted. The executor has one thread, which runs the tasks in
  order and logs what they raise.
\<close>

fun dd_start_load_kv :: "dd_worker \<Rightarrow> dd_meta \<Rightarrow> dd_worker \<times> unit result" where
  "dd_start_load_kv w [] = (w, Inr ())"
| "dd_start_load_kv w ((r, m) # rest) =
     (case py_int_of (dm_remote_port m) of
        Inl x \<Rightarrow> (w, Inl x)
      | Inr port \<Rightarrow>
          dd_start_load_kv
            (w\<lparr>dw_executor := dw_executor w @
                 [\<lparr>dt_local_block_ids = dm_local_block_ids m, dt_remote_block_ids = dm_remote_block_ids m,
                   dt_remote_ip = dm_remote_host m, dt_remote_port = port, dt_remote_engine_id = dm_engine_id m,
                   dt_request_id = r, dt_remote_tp_size = dm_remote_tp_size m\<rparr>]\<rparr>) rest)"

definition executor_step :: "dd_env \<Rightarrow> dd_worker \<Rightarrow> dd_worker option" where
  "executor_step env w =
     (case dw_executor w of
        [] \<Rightarrow> None
      | t # ts \<Rightarrow> map_option fst (read_blocks env (w\<lparr>dw_executor := ts\<rparr>) t))"

definition dd_get_finished :: "dd_worker \<Rightarrow> (rid set option \<times> rid set option) \<times> dd_worker" where
  "dd_get_finished w =
     (let ids = dw_finished_reqs w; w' = w\<lparr>dw_finished_reqs := {}\<rparr> in
      case dw_role w of PROMPT \<Rightarrow> ((Some ids, None), w') | DECODER \<Rightarrow> ((None, Some ids), w'))"

subsection \<open>The listener thread\<close>

datatype dd_payload = PayDict "string \<rightharpoonup> py_value" | PayList "py_value list"

text \<open>\<^verbatim>\<open>LLMDataDistCMgrAgentMetadata(**d)\<close>: the six fields have to be there and no other.\<close>

definition agent_of_dict :: "(string \<rightharpoonup> py_value) \<Rightarrow> dd_agent result" where
  "agent_of_dict d =
     (if dom d = {''super_pod_id'', ''server_id'', ''device_id'', ''device_ip'', ''super_device_id'', ''cluster_id''} then
        res_bind (opt_str_of (d ''super_pod_id'')) (\<lambda>pod.
        res_bind (res_bind (map_item d ''server_id'') str_of) (\<lambda>server.
        res_bind (res_bind (map_item d ''device_id'') str_of) (\<lambda>dev.
        res_bind (res_bind (map_item d ''device_ip'') str_of) (\<lambda>ip.
        res_bind (opt_str_of (d ''super_device_id'')) (\<lambda>sdev.
        res_bind (res_bind (map_item d ''cluster_id'') int_of) (\<lambda>cluster.
        Inr \<lparr>ag_super_pod_id = pod, ag_server_id = server, ag_device_id = dev, ag_device_ip = ip,
             ag_super_device_id = sdev, ag_cluster_id = cluster\<rparr>))))))
      else Inl TypeError)"

text \<open>
  One message of the loop: the replies, the state and what is raised. Nothing is caught here: an
  exception ends the thread.
\<close>

type_synonym listen_result = "string list list \<times> dd_worker \<times> unit result"

definition on_metadata :: "dd_env \<Rightarrow> dd_worker \<Rightarrow> string \<Rightarrow> string \<Rightarrow> dd_payload \<Rightarrow> listen_result option" where
  "on_metadata env w ident own_metadata payload =
     (case payload of
        PayList xs \<Rightarrow> if PStr ''cluster_id'' \<in> set xs then Some ([], w, Inl TypeError) else Some ([], w, Inr ())
      | PayDict d \<Rightarrow>
          if d ''cluster_id'' = None then Some ([], w, Inr ())
          else
            (case agent_of_dict d of
               Inl x \<Rightarrow> Some ([], w, Inl x)
             | Inr a \<Rightarrow>
                 map_option (\<lambda>(w', res). ([[ident, [], own_metadata]], w', res_bind res (\<lambda>_. Inr ())))
                   (add_remote_agent env w a)))"

definition on_finished :: "dd_worker \<Rightarrow> string \<Rightarrow> dd_payload \<Rightarrow> listen_result" where
  "on_finished w ident payload =
     (case payload of
        PayDict d \<Rightarrow> ([], w, Inl KeyError)
      | PayList xs \<Rightarrow>
          (case (list_item xs 0, list_item xs 1, list_item xs 2) of
             (Inr (PStr r), Inr (PInt rank), Inr (PInt tp_size)) \<Rightarrow>
               let (fin, w') = dd_increment_task_count w r rank tp_size;
                   w'' = (if fin then w'\<lparr>dw_finished_reqs := insert r (dw_finished_reqs w')\<rparr> else w')
               in ([[ident, [], ''receiving decode finished'']], w'', Inr ())
           | (Inr _, Inr _, Inr _) \<Rightarrow> ([], w, Inl TypeError)
           | _ \<Rightarrow> ([], w, Inl IndexError)))"

definition listener_step ::
  "dd_env \<Rightarrow> (string \<Rightarrow> (int \<times> dd_payload) result) \<Rightarrow> string \<Rightarrow> dd_worker \<Rightarrow> string list \<Rightarrow> listen_result option" where
  "listener_step env dec own_metadata w frames =
     (case frames of
        [ident, _, msg] \<Rightarrow>
          (case res_bind (dec msg) (\<lambda>(e, payload). res_bind (dd_event_of e) (\<lambda>ev. Inr (ev, payload))) of
             Inl x \<Rightarrow> Some ([], w, Inl x)
           | Inr (ReqForMetadata, payload) \<Rightarrow> on_metadata env w ident own_metadata payload
           | Inr (ReqForFinished, payload) \<Rightarrow> Some (on_finished w ident payload))
      | _ \<Rightarrow> Some ([], w, Inl ValueError))"

subsection \<open>LLMDataDistCMgrConnector\<close>

text \<open>
  The connector holds one of the two sides. For the scheduler role the attribute \<^verbatim>\<open>connector_worker\<close>
  is never set, so the assertion that it is not \<^verbatim>\<open>None\<close> raises an \<open>AttributeError\<close>.
\<close>

datatype dd_connector = DD_SCHEDULER dd_sched | DD_WORKER dd_worker

definition dd_scheduler_side :: "dd_connector \<Rightarrow> dd_sched result" where
  "dd_scheduler_side c = (case c of DD_SCHEDULER s \<Rightarrow> Inr s | DD_WORKER _ \<Rightarrow> Inl AssertionError)"

definition dd_worker_side :: "dd_connector \<Rightarrow> dd_worker result" where
  "dd_worker_side c = (case c of DD_SCHEDULER _ \<Rightarrow> Inl AttributeError | DD_WORKER w \<Rightarrow> Inr w)"

definition ddc_get_num_new_matched_tokens :: "dd_connector \<Rightarrow> request \<Rightarrow> int \<Rightarrow> (int \<times> bool) result" where
  "ddc_get_num_new_matched_tokens c q n = res_bind (dd_scheduler_side c) (\<lambda>s. dd_get_num_new_matched_tokens s q n)"

definition ddc_update_state_after_alloc ::
  "('b \<Rightarrow> int list) \<Rightarrow> dd_connector \<Rightarrow> request \<Rightarrow> 'b \<Rightarrow> int \<Rightarrow> (dd_connector \<times> request) result" where
  "ddc_update_state_after_alloc unhashed c q blocks n =
     res_bind (dd_scheduler_side c) (\<lambda>s.
       res_bind (dd_update_state_after_alloc unhashed s q blocks n) (\<lambda>(s', q'). Inr (DD_SCHEDULER s', q')))"

definition ddc_build_connector_meta :: "dd_connector \<Rightarrow> (rid \<Rightarrow> request) \<Rightarrow> (dd_connector \<times> dd_meta) result" where
  "ddc_build_connector_meta c ob =
     res_bind (dd_scheduler_side c) (\<lambda>s. res_bind (dd_build_connector_meta s ob) (\<lambda>(s', m). Inr (DD_SCHEDULER s', m)))"

definition ddc_request_finished :: "dd_connector \<Rightarrow> request \<Rightarrow> int list \<Rightarrow> (bool \<times> kv_params option) result" where
  "ddc_request_finished c q ids = res_bind (dd_scheduler_side c) (\<lambda>s. Inr (dd_request_finished s q ids))"

definition on_worker :: "dd_connector \<Rightarrow> (dd_worker \<Rightarrow> dd_worker \<times> 'a result) \<Rightarrow> dd_connector \<times> 'a result" where
  "on_worker c f =
     (case dd_worker_side c of Inl x \<Rightarrow> (c, Inl x) | Inr w \<Rightarrow> (let (w', res) = f w in (DD_WORKER w', res)))"

definition ddc_register_kv_caches ::
  "dd_env \<Rightarrow> dd_connector \<Rightarrow> (string \<times> kv_tensor list) list \<Rightarrow> dd_connector \<times> unit result" where
  "ddc_register_kv_caches env c kv_caches = on_worker c (\<lambda>w. dd_register_kv_caches env w kv_caches)"

definition ddc_get_finished :: "dd_connector \<Rightarrow> dd_connector \<times> (rid set option \<times> rid set option) result" where
  "ddc_get_finished c = on_worker c (\<lambda>w. let (fin, w') = dd_get_finished w in (w', Inr fin))"

text \<open>\<open>meta\<close> is \<^verbatim>\<open>_connector_metadata\<close>; \<open>None\<close> when it is not one of this connector.\<close>

definition ddc_start_load_kv :: "dd_connector \<Rightarrow> dd_meta option \<Rightarrow> dd_connector \<times> unit result" where
  "ddc_start_load_kv c meta =
     on_worker c (\<lambda>w. case meta of None \<Rightarrow> (w, Inl AssertionError) | Some m \<Rightarrow> dd_start_load_kv w m)"

end
