(* ===== verification/Datadist_Props.thy ===== *)
theory Datadist_Props
  imports Datadist_Connector Scheduler_Proofs
begin

section \<open>Properties of the LLMDataDist connector\<close>

text \<open>
  The scheduler side keeps the contract \<open>kv_connector\<close> of the scheduler. The properties follow a
  request from the prefill node to the decode node and back: the parameters handed over, the
  listener that a decode worker contacts, the blocks it pulls, the message that tells the prefill
  node that it is done, and the count of these messages after which the prefill node frees the
  blocks; then the links between clusters: when a link attempt returns and the rank table it is
  made with.
\<close>

interpretation datadist: kv_connector "datadist_ops unhashed"
  by unfold_locales
    (auto simp: datadist_ops_def dd_get_num_new_matched_tokens_def dd_update_state_after_alloc_def Let_def res_elims
      split: option.splits if_splits intro: params_frame)

subsection \<open>The parameters\<close>

definition dd_handover :: "dd_sched \<Rightarrow> int list \<Rightarrow> kv_params" where
  "dd_handover s ids =
     [''do_remote_prefill'' \<mapsto> PBool True, ''do_remote_decode'' \<mapsto> PBool False,
      ''remote_block_ids'' \<mapsto> PInts ids, ''remote_engine_id'' \<mapsto> PStr (ds_engine_id s),
      ''remote_host'' \<mapsto> PStr (ds_local_ip s), ''remote_port'' \<mapsto> PInt (ds_port s),
      ''remote_tp_size'' \<mapsto> PStr (str_int (ds_tensor_parallel_size s))]"

definition dd_received :: "dd_sched \<Rightarrow> int list \<Rightarrow> int list \<Rightarrow> dd_req_meta" where
  "dd_received sp remote_ids local_ids =
     \<lparr>dm_local_block_ids = local_ids, dm_remote_block_ids = remote_ids, dm_remote_host = ds_local_ip sp,
      dm_remote_port = PInt (ds_port sp), dm_engine_id = ds_engine_id sp,
      dm_remote_tp_size = PStr (str_int (ds_tensor_parallel_size sp))\<rparr>"

lemma dd_request_finished_handover:
  assumes "dd_request_finished s q ids = (b, Some ps)"
  shows "ps = dd_handover s ids \<and> b = (ids \<noteq> [])"
  using assms by (auto simp: dd_request_finished_def dd_handover_def split: option.splits if_splits)

lemma dd_handover_flags:
  "get_truthy (dd_handover s ids) ''do_remote_prefill''"
  "get_truthy (dd_handover s ids) ''remote_block_ids'' = (ids \<noteq> [])"
  by (simp_all add: dd_handover_def get_truthy_def)

lemma dd_handover_keys:
  "list_all (\<lambda>k. dd_handover s ids k \<noteq> None) [''remote_engine_id'', ''remote_host'', ''remote_port'', ''remote_tp_size'']"
  by (simp add: dd_handover_def)

lemma dd_update_handover:
  assumes "kv_transfer_params q = Some (dd_handover sp ids)" "ids \<noteq> []"
  shows "dd_update_state_after_alloc unhashed s q blocks n =
    Inr (s\<lparr>ds_reqs_need_recv := dict_set (request_id q) (unhashed blocks) (ds_reqs_need_recv s)\<rparr>,
         q\<lparr>kv_transfer_params := Some ((dd_handover sp ids)(''do_remote_prefill'' \<mapsto> PBool False))\<rparr>)"
  using assms dd_handover_keys [of sp ids] by (simp add: dd_update_state_after_alloc_def dd_handover_flags)

lemma dd_add_handover:
  "dd_add_new_req meta r lids ((dd_handover sp ids)(''do_remote_prefill'' \<mapsto> PBool False)) =
   Inr (dict_set r (dd_received sp ids lids) meta)"
  by (simp add: dd_add_new_req_def dd_handover_def dd_received_def param_ints_def param_str_def param_any_def map_item_def)

text \<open>What a decode worker queues for such a request.\<close>

definition dd_transfer :: "dd_sched \<Rightarrow> rid \<Rightarrow> int list \<Rightarrow> int list \<Rightarrow> dd_task" where
  "dd_transfer sp r remote_ids local_ids =
     \<lparr>dt_local_block_ids = local_ids, dt_remote_block_ids = remote_ids, dt_remote_ip = ds_local_ip sp,
      dt_remote_port = ds_port sp, dt_remote_engine_id = ds_engine_id sp, dt_request_id = r,
      dt_remote_tp_size = PStr (str_int (ds_tensor_parallel_size sp))\<rparr>"

lemma dd_start_received:
  "dd_start_load_kv w [(r, dd_received sp ids lids)] = (w\<lparr>dw_executor := dw_executor w @ [dd_transfer sp r ids lids]\<rparr>, Inr ())"
  by (simp add: dd_received_def dd_transfer_def)

text \<open>
  C29. Handover: a request that the prefill node finished because of its length keeps its blocks there
  and returns parameters with which the decode node counts the whole prompt as remote, loads
  asynchronously and, once blocks are allocated, makes its workers queue exactly one transfer of
  those remote blocks, addressed to the host and the base port of the prefill node and carrying its
  tensor parallel size; the request then asks for nothing more.
\<close>

theorem datadist_handover:
  assumes "dd_request_finished sp qp ids = (delay, Some ps)" "ids \<noteq> []"
    and "kv_transfer_params q = Some ps" "prompt_token_ids q \<noteq> []" "ds_reqs_need_recv sd = []" "ds_block_size sd \<noteq> 0"
  shows "delay \<and>
    dd_get_num_new_matched_tokens sd q 0 = Inr (int (length (prompt_token_ids q)), True) \<and>
    (\<exists>sd1 q1 meta. dd_update_state_after_alloc unhashed sd q blocks n = Inr (sd1, q1) \<and>
       dd_build_connector_meta sd1 (ob(request_id q := q1)) = Inr (sd, meta) \<and>
       dd_start_load_kv w meta =
         (w\<lparr>dw_executor := dw_executor w @ [\<lparr>dt_local_block_ids = unhashed blocks, dt_remote_block_ids = ids,
              dt_remote_ip = ds_local_ip sp, dt_remote_port = ds_port sp, dt_remote_engine_id = ds_engine_id sp,
              dt_request_id = request_id q, dt_remote_tp_size = PStr (str_int (ds_tensor_parallel_size sp))\<rparr>]\<rparr>, Inr ()) \<and>
       dd_get_num_new_matched_tokens sd q1 0 = Inr (0, False))"
proof -
  have ps: "ps = dd_handover sp ids" "delay" using dd_request_finished_handover [OF assms(1)] assms(2) by auto
  let ?q1 = "q\<lparr>kv_transfer_params := Some ((dd_handover sp ids)(''do_remote_prefill'' \<mapsto> PBool False))\<rparr>"
  let ?sd1 = "sd\<lparr>ds_reqs_need_recv := [(request_id q, unhashed blocks)]\<rparr>"
  have "dd_get_num_new_matched_tokens sd q 0 = Inr (int (length (prompt_token_ids q)), True)"
    using assms(3,4,6) ps by (simp add: dd_get_num_new_matched_tokens_def dd_handover_flags)
  moreover have "dd_update_state_after_alloc unhashed sd q blocks n = Inr (?sd1, ?q1)"
    using dd_update_handover [of q sp ids unhashed sd blocks n] assms(2,3,5) ps by simp
  moreover have "dd_build_connector_meta ?sd1 (ob(request_id q := ?q1)) =
      Inr (sd, [(request_id q, dd_received sp ids (unhashed blocks))])"
    using assms(5) by (simp add: dd_build_connector_meta_def dd_add_handover)
  moreover have "dd_get_num_new_matched_tokens sd ?q1 0 = Inr (0, False)"
    by (simp add: dd_get_num_new_matched_tokens_def get_truthy_def)
  ultimately show ?thesis
    using ps(2) dd_start_received [of w "request_id q" sp ids "unhashed blocks"] unfolding dd_transfer_def by blast
qed

definition dd_demo_prefill :: dd_sched where "dd_demo_prefill = dd_sched_init 128 ''p'' ''10.0.0.1'' 5557 (Some 1) 4"
definition dd_demo_decode :: dd_sched where "dd_demo_decode = dd_sched_init 128 ''d'' ''10.0.0.2'' 5557 (Some 0) 2"

definition dd_demo_request :: request where
  "dd_demo_request = \<lparr>request_id = ''a'', status = FINISHED_LENGTH_CAPPED, num_tokens = 3, num_computed_tokens = 3,
     num_cached_tokens = 0, prompt_token_ids = [7, 8, 9], spec_token_ids = [], lora_req = None,
     kv_transfer_params = Some [''do_remote_decode'' \<mapsto> PBool True], events = []\<rparr>"

definition dd_demo_agent :: dd_agent where
  "dd_demo_agent = \<lparr>ag_super_pod_id = None, ag_server_id = ''10.0.0.2'', ag_device_id = ''0'', ag_device_ip = ''29.0.0.2'',
     ag_super_device_id = None, ag_cluster_id = 2\<rparr>"

definition dd_demo_worker :: dd_worker where
  "dd_demo_worker = \<lparr>dw_role = DECODER, dw_tp_rank = 1, dw_tp_size = 2, dw_local_dp_rank = Some 0, dw_local_ip = ''10.0.0.2'',
     dw_agent = dd_demo_agent, dw_soc_is_a3 = False, dw_linked_cluster = [], dw_finished_reqs = {},
     dw_done_receiving_counts = Map.empty, dw_use_mla = Some False, dw_num_blocks = 8, dw_block_len = 64,
     dw_cache_addr = [[0, 2097152]], dw_cache = Some [0], dw_listening = True, dw_executor = [], dw_sent = []\<rparr>"

lemma dd_demo_str: "str_int 4 = ''4''"
  by code_simp

theorem datadist_handover_witness:
  "\<exists>sd1 q1 meta. dd_update_state_after_alloc id dd_demo_decode
       (dd_demo_request\<lparr>kv_transfer_params := Some (dd_handover dd_demo_prefill [4, 5])\<rparr>) [1, 2] 3 = Inr (sd1, q1) \<and>
     dd_build_connector_meta sd1 ((\<lambda>_. dd_demo_request)(''a'' := q1)) = Inr (dd_demo_decode, meta) \<and>
     dw_executor (fst (dd_start_load_kv dd_demo_worker meta)) =
       [\<lparr>dt_local_block_ids = [1, 2], dt_remote_block_ids = [4, 5], dt_remote_ip = ''10.0.0.1'', dt_remote_port = 5561,
         dt_remote_engine_id = ''p'', dt_request_id = ''a'', dt_remote_tp_size = PStr ''4''\<rparr>]"
proof -
  let ?q = "dd_demo_request\<lparr>kv_transfer_params := Some (dd_handover dd_demo_prefill [4, 5])\<rparr>"
  have fin: "dd_request_finished dd_demo_prefill dd_demo_request [4, 5] = (True, Some (dd_handover dd_demo_prefill [4, 5]))"
    by (simp add: dd_request_finished_def dd_demo_request_def dd_handover_def get_truthy_def)
  have q: "kv_transfer_params ?q = Some (dd_handover dd_demo_prefill [4, 5])" "prompt_token_ids ?q \<noteq> []" "request_id ?q = ''a''"
    by (simp_all add: dd_demo_request_def)
  have s: "ds_reqs_need_recv dd_demo_decode = []" "ds_block_size dd_demo_decode \<noteq> 0" "ds_local_ip dd_demo_prefill = ''10.0.0.1''"
    "ds_port dd_demo_prefill = 5561" "ds_engine_id dd_demo_prefill = ''p''"
    "str_int (ds_tensor_parallel_size dd_demo_prefill) = ''4''" "dw_executor dd_demo_worker = []"
    by (simp_all add: dd_demo_decode_def dd_demo_prefill_def dd_sched_init_def dd_base_port_def dd_demo_worker_def
        dd_demo_str)
  have "[4, 5] \<noteq> ([] :: int list)" by simp
  from datadist_handover [OF fin this q(1,2) s(1,2), where unhashed = id and blocks = "[1, 2]" and n = 3
      and ob = "\<lambda>_. dd_demo_request" and w = dd_demo_worker]
  show ?thesis unfolding q(3) s(3-6) by - (elim conjE exE, intro exI conjI, assumption, assumption, simp add: s(7))
qed

subsection \<open>Pulling the blocks\<close>

lemma dd_listen_port_base:
  "dw_local_dp_rank w = dp \<Longrightarrow> dw_tp_size w = P \<Longrightarrow> dd_listen_port rpc w = dd_base_port rpc dp P + dw_tp_rank w"
  by (simp add: dd_listen_port_def dd_base_port_def split: option.splits)

text \<open>
  C30. A transfer: a decode worker of rank \<open>k\<close> contacts the listener of the prefill worker of rank
  \<open>k\<close> modulo the prefill tensor parallel size, which exists, and pulls the last remote blocks, as
  many as it has local ones, from the cluster that worker names. When the pull succeeds, it sends the
  completion message to the listener of prefill rank 0 (an attempt, whose failure is only logged) and reports the
  request; when the pull raises, it does neither.
\<close>

theorem read_blocks_correct:
  assumes "0 < P" "dt_remote_tp_size t = PStr (str_int P)"
    and "dt_remote_port t = ds_port (dd_sched_init bs engine ip rpc dp P)"
    and "dt_local_block_ids t \<noteq> []" "length (dt_local_block_ids t) \<le> length (dt_remote_block_ids t)"
    and "dw_local_dp_rank wp = dp" "dw_tp_size wp = P" "dw_tp_rank wp = dw_tp_rank w mod P"
    and "de_fetch_agent env (dt_remote_ip t) (dd_listen_port rpc wp) = Inr a"
    and "add_remote_agent env w a = Some (w1, Inr c)"
  shows "0 \<le> dw_tp_rank wp \<and> dw_tp_rank wp < P \<and>
    read_blocks env w t =
      Some (case pull_from env w1 c (drop (length (dt_remote_block_ids t) - length (dt_local_block_ids t)) (dt_remote_block_ids t))
                   (dt_local_block_ids t) of
              Inl x \<Rightarrow> (w1, Inl x)
            | Inr _ \<Rightarrow>
                (w1\<lparr>dw_sent := dw_sent w1 @ [(dt_remote_ip t, dd_listen_port rpc (wp\<lparr>dw_tp_rank := 0\<rparr>), dt_request_id t,
                                                dw_tp_rank w1, dw_tp_size w1)],
                    dw_finished_reqs := insert (dt_request_id t) (dw_finished_reqs w1)\<rparr>, Inr ()))"
proof -
  have ports: "dt_remote_port t = dd_base_port rpc dp P" "dd_listen_port rpc (wp\<lparr>dw_tp_rank := 0\<rparr>) = dt_remote_port t"
    "dd_listen_port rpc wp = dt_remote_port t + dw_tp_rank w mod P"
    using assms(3,6-8) by (simp_all add: dd_sched_init_def dd_listen_port_base)
  have "connect_to_remote_agent env w (dt_remote_ip t) (dt_remote_port t + dw_tp_rank w mod P) = Some (w1, Inr c)"
    using assms(9,10) ports(3) by (simp add: connect_to_remote_agent_def)
  then show ?thesis
    using assms(1,2,4,5,8) ports(2) by (simp add: read_blocks_def send_finish_to_remote_def Let_def not_less split: sum.splits)
qed

definition dd_demo_task :: dd_task where
  "dd_demo_task = \<lparr>dt_local_block_ids = [1, 2], dt_remote_block_ids = [4, 5, 6], dt_remote_ip = ''10.0.0.1'',
     dt_remote_port = 5561, dt_remote_engine_id = ''p'', dt_request_id = ''a'', dt_remote_tp_size = PStr ''4''\<rparr>"

definition dd_demo_env :: dd_env where
  "dd_demo_env = \<lparr>de_link = \<lambda>_ _ _. Inr 3, de_mem_status = \<lambda>_ i. if i < 2 then MEM_PENDING else MEM_OK, de_unlink = \<lambda>_. Inr (),
     de_register = \<lambda>_ _ _. Inr 0,
     de_pull_blocks = \<lambda>k c rs ls. if rs = [5, 6] \<and> ls = [1, 2] then Inr () else Inl ValueError,
     de_fetch_agent = \<lambda>host port. if port = 5562 then Inr (dd_demo_agent\<lparr>ag_cluster_id := 7\<rparr>) else Inl ZMQError\<rparr>"

theorem read_blocks_correct_witness:
  "read_blocks dd_demo_env dd_demo_worker dd_demo_task =
     Some (dd_demo_worker\<lparr>dw_linked_cluster := [(7, 3)], dw_sent := [(''10.0.0.1'', 5561, ''a'', 1, 2)], dw_finished_reqs := {''a''}\<rparr>, Inr ())"
proof -
  let ?wp = "dd_demo_worker\<lparr>dw_local_dp_rank := Some 1, dw_tp_size := 4\<rparr>"
  let ?w1 = "dd_demo_worker\<lparr>dw_linked_cluster := [(7, 3)]\<rparr>"
  have link: "add_remote_agent dd_demo_env dd_demo_worker (dd_demo_agent\<lparr>ag_cluster_id := 7\<rparr>) = Some (?w1, Inr 7)"
    by (simp add: add_remote_agent_def link_args_def dd_demo_env_def dd_demo_worker_def dd_demo_agent_def Let_def wait_link.simps)
  have pull: "pull_from dd_demo_env ?w1 7 [5, 6] [1, 2] = Inr ()"
    by (simp add: pull_from_def attr_def wrap_pull_def dd_demo_worker_def dd_demo_env_def)
  have fetch: "de_fetch_agent dd_demo_env (dt_remote_ip dd_demo_task) (dd_listen_port 5557 ?wp) = Inr (dd_demo_agent\<lparr>ag_cluster_id := 7\<rparr>)"
    by (simp add: dd_demo_env_def dd_listen_port_def dd_demo_worker_def)
  have "read_blocks dd_demo_env dd_demo_worker dd_demo_task = Some (?w1\<lparr>dw_sent := dw_sent ?w1 @
      [(''10.0.0.1'', dd_listen_port 5557 (?wp\<lparr>dw_tp_rank := 0\<rparr>), ''a'', dw_tp_rank ?w1, dw_tp_size ?w1)],
      dw_finished_reqs := insert ''a'' (dw_finished_reqs ?w1)\<rparr>, Inr ())"
    using read_blocks_correct [of 4 dd_demo_task 128 "''p''" "''10.0.0.1''" 5557 "Some 1" ?wp dd_demo_worker dd_demo_env
        "dd_demo_agent\<lparr>ag_cluster_id := 7\<rparr>" ?w1 7] dd_demo_str link pull fetch
    by (simp add: dd_demo_task_def dd_demo_worker_def dd_sched_init_def dd_base_port_def)
  then show ?thesis by (simp add: dd_demo_worker_def dd_listen_port_def)
qed

subsection \<open>Counting the messages of the decode ranks\<close>

text \<open>The listener of a prefill worker after a list of messages: request, rank and number of ranks of the sender.\<close>

definition finish_message :: "dd_worker \<Rightarrow> rid \<times> int \<times> int \<Rightarrow> dd_worker" where
  "finish_message w m = (case m of (r, k, n) \<Rightarrow> fst (snd (on_finished w [] (PayList [PStr r, PInt k, PInt n]))))"

definition deliver :: "dd_worker \<Rightarrow> (rid \<times> int \<times> int) list \<Rightarrow> dd_worker" where
  "deliver w ms = foldl finish_message w ms"

abbreviation seen_ranks :: "dd_worker \<Rightarrow> rid \<Rightarrow> int set" where
  "seen_ranks w r \<equiv> (case dw_done_receiving_counts w r of None \<Rightarrow> {} | Some rs \<Rightarrow> rs)"

lemma finish_message_unfold:
  "finish_message w (r, k, n) =
     (if k \<in> seen_ranks w r then w
      else if int (card (insert k (seen_ranks w r))) = n then
        w\<lparr>dw_done_receiving_counts := (dw_done_receiving_counts w)(r := None), dw_finished_reqs := insert r (dw_finished_reqs w)\<rparr>
      else w\<lparr>dw_done_receiving_counts := (dw_done_receiving_counts w)(r \<mapsto> insert k (seen_ranks w r))\<rparr>)"
  by (simp add: finish_message_def on_finished_def dd_increment_task_count_def list_item_def Let_def)

lemma finish_message_other:
  "r' \<noteq> r \<Longrightarrow> dw_done_receiving_counts (finish_message w (r', k, n)) r = dw_done_receiving_counts w r"
  "r' \<noteq> r \<Longrightarrow> r \<in> dw_finished_reqs (finish_message w (r', k, n)) \<longleftrightarrow> r \<in> dw_finished_reqs w"
  by (simp_all add: finish_message_unfold)

lemma deliver_other:
  assumes "filter (\<lambda>m. fst m = r) ms = []"
  shows "dw_done_receiving_counts (deliver v ms) r = dw_done_receiving_counts v r"
    and "r \<in> dw_finished_reqs (deliver v ms) \<longleftrightarrow> r \<in> dw_finished_reqs v"
  using assms
proof (induction ms arbitrary: v)
  case (Cons m ms)
  { case 1 then show ?case using Cons(1) finish_message_other(1) [of "fst m" r v "fst (snd m)" "snd (snd m)"]
      by (simp add: deliver_def split: if_splits) }
  { case 2 then show ?case using Cons(2) finish_message_other(2) [of "fst m" r v "fst (snd m)" "snd (snd m)"]
      by (simp add: deliver_def split: if_splits) }
qed (simp_all add: deliver_def)

text \<open>Before the last rank the worker has exactly the ranks of the messages so far.\<close>

lemma deliver_progress:
  assumes "finite (seen_ranks w r)" "r \<notin> dw_finished_reqs w"
    and "map snd (filter (\<lambda>m. fst m = r) ms) = map (\<lambda>k. (k, D)) ks" "distinct ks" "set ks \<inter> seen_ranks w r = {}"
    and "int (card (seen_ranks w r)) + int (length ks) \<le> D" "int (card (seen_ranks w r)) < D"
  shows "if int (card (seen_ranks w r)) + int (length ks) = D
    then r \<in> dw_finished_reqs (deliver w ms) \<and> dw_done_receiving_counts (deliver w ms) r = None
    else r \<notin> dw_finished_reqs (deliver w ms) \<and> seen_ranks (deliver w ms) r = seen_ranks w r \<union> set ks"
  using assms
proof (induction ms arbitrary: w ks)
  case Nil
  then show ?case by (simp add: deliver_def)
next
  case (Cons m ms)
  obtain r' k n where m: "m = (r', k, n)" by (cases m) auto
  have step: "deliver w (m # ms) = deliver (finish_message w m) ms" by (simp add: deliver_def)
  show ?case
  proof (cases "r' = r")
    case False
    note same = finish_message_other [OF False, of w k n, folded m]
    show ?thesis
      unfolding step using Cons.IH [of "finish_message w m" ks, unfolded same] Cons.prems False by (simp add: m)
  next
    case True
    then obtain ks' where ks: "ks = k # ks'" "n = D" "map snd (filter (\<lambda>m. fst m = r) ms) = map (\<lambda>k. (k, D)) ks'"
      using Cons.prems(3) m by (cases ks) auto
    have fresh: "k \<notin> seen_ranks w r" using Cons.prems(5) ks(1) by auto
    then have card: "int (card (insert k (seen_ranks w r))) = int (card (seen_ranks w r)) + 1"
      using Cons.prems(1) by simp
    show ?thesis
    proof (cases "int (card (insert k (seen_ranks w r))) = D")
      case last: True
      moreover have "int (length ks) = 1 + int (length ks')" by (simp add: ks(1))
      ultimately have "length ks' = 0" using Cons.prems(6) card by linarith
      then have "ks' = []" by simp
      then have rest: "filter (\<lambda>m. fst m = r) ms = []" using ks(3) by simp
      from deliver_other [OF this] show ?thesis
        unfolding step using last True ks fresh card \<open>ks' = []\<close> by (simp add: m finish_message_unfold)
    next
      case more: False
      let ?w = "finish_message w m"
      have w': "seen_ranks ?w r = insert k (seen_ranks w r)" "r \<notin> dw_finished_reqs ?w"
        using more True ks(2) fresh Cons.prems(2) by (simp_all add: m finish_message_unfold)
      show ?thesis
        unfolding step using Cons.IH [OF _ w'(2) ks(3)] w'(1) Cons.prems(1,4-7) ks(1) card more by simp
    qed
  qed
qed

text \<open>
  Completion: when the messages about a request that reach the listener of a prefill worker come
  from different ranks of a decode group of \<open>D\<close> ranks, in any order and between messages about
  other requests, the worker reports the request as sent exactly when all \<open>D\<close> ranks have told it, not
  before, and then keeps no count for it.
\<close>

theorem datadist_completion:
  assumes "dw_role w = PROMPT" "dw_done_receiving_counts w r = None" "r \<notin> dw_finished_reqs w" "0 < D"
    and "map snd (filter (\<lambda>m. fst m = r) ms) = map (\<lambda>k. (k, D)) ks" "distinct ks" "set ks \<subseteq> {0..<D}"
  shows "(r \<in> dw_finished_reqs (deliver w ms) \<longleftrightarrow> set ks = {0..<D}) \<and>
    (set ks = {0..<D} \<longrightarrow> dw_done_receiving_counts (deliver w ms) r = None) \<and>
    (set ks \<noteq> {0..<D} \<longrightarrow> seen_ranks (deliver w ms) r = set ks)"
proof -
  have "int (length ks) \<le> D \<and> (int (length ks) = D \<longleftrightarrow> set ks = {0..<D})"
  proof -
    have c: "card (set ks) = length ks" using assms(6) by (simp add: distinct_card)
    then have le: "length ks \<le> nat D" using card_mono [OF _ assms(7)] by simp
    moreover have "set ks = {0..<D}" if "length ks = nat D"
      using card_subset_eq [OF _ assms(7)] that c by simp
    ultimately show ?thesis using c assms(4) by auto
  qed
  then show ?thesis using deliver_progress [of w r ms D ks] assms(2-6) by (auto split: if_splits)
qed

theorem datadist_completion_witness:
  "''a'' \<in> dw_finished_reqs (deliver (dd_demo_worker\<lparr>dw_role := PROMPT\<rparr>) [(''a'', 1, 2), (''b'', 0, 2), (''a'', 0, 2)]) \<and>
   ''a'' \<notin> dw_finished_reqs (deliver (dd_demo_worker\<lparr>dw_role := PROMPT\<rparr>) [(''a'', 1, 2), (''b'', 0, 2)])"
proof -
  have "(0 :: int) \<in> {0..<2}" "(0 :: int) \<notin> {1}" by simp_all
  then have s: "{1} \<noteq> {0..<2 :: int}" "{1, 0} = {0..<2 :: int}" by (blast, auto)
  show ?thesis
    using datadist_completion [of "dd_demo_worker\<lparr>dw_role := PROMPT\<rparr>" "''a''" 2 "[(''a'', 1, 2), (''b'', 0, 2), (''a'', 0, 2)]" "[1, 0]"]
      datadist_completion [of "dd_demo_worker\<lparr>dw_role := PROMPT\<rparr>" "''a''" 2 "[(''a'', 1, 2), (''b'', 0, 2)]" "[1]"] s
    by (simp add: dd_demo_worker_def)
qed

subsection \<open>Links\<close>

lemma wait_link_steps:
  assumes "\<And>j. i \<le> j \<Longrightarrow> j < i + d \<Longrightarrow> st j = MEM_PENDING"
  shows "wait_link st i = wait_link st (i + d)"
  using assms
proof (induction d)
  case (Suc d)
  have "st (i + d) = MEM_PENDING" using Suc.prems by simp
  then show ?case using Suc wait_link.simps [of st "i + d"] by simp
qed simp

text \<open>What an answer that is not \<open>MEM_PENDING\<close> makes of the wait.\<close>

fun wait_result :: "mem_status \<Rightarrow> unit result" where
  "wait_result MEM_FAILED = Inl RuntimeError"
| "wait_result (MEM_RAISES x) = Inl x"
| "wait_result _ = Inr ()"

lemma wait_link_end:
  assumes "st (i + d) \<noteq> MEM_PENDING" "\<And>j. i \<le> j \<Longrightarrow> j < i + d \<Longrightarrow> st j = MEM_PENDING"
  shows "wait_link st i = Some (wait_result (st (i + d)))"
  using wait_link_steps [of i d st, OF assms(2)] assms(1) wait_link.simps [of st "i + d"]
  by (cases "st (i + d)") simp_all

lemma wait_link_first:
  assumes "st n \<noteq> MEM_PENDING"
  obtains d where "st d \<noteq> MEM_PENDING" "wait_link st 0 = Some (wait_result (st d))"
    "\<And>j. j < d \<Longrightarrow> st j = MEM_PENDING"
proof -
  let ?d = "LEAST d. st d \<noteq> MEM_PENDING"
  have "st ?d \<noteq> MEM_PENDING" using assms by (rule LeastI)
  moreover have "st j = MEM_PENDING" if "j < ?d" for j using not_less_Least [OF that] by simp
  moreover from calculation have "wait_link st 0 = Some (wait_result (st ?d))"
    by (metis wait_link_end add_0)
  ultimately show ?thesis using that [of ?d] by blast
qed

lemma wait_link_Some: "wait_link st i = Some res \<Longrightarrow> \<exists>d \<ge> i. st d \<noteq> MEM_PENDING"
proof (rule wait_link.raw_induct [of "\<lambda>st i res. \<exists>d \<ge> i. st d \<noteq> MEM_PENDING"])
  fix wait st i res
  assume "\<And>st i y. wait st i = Some y \<Longrightarrow> \<exists>d \<ge> i. st d \<noteq> MEM_PENDING"
    "(case st i of MEM_OK \<Rightarrow> Some (Inr ()) | MEM_FAILED \<Rightarrow> Some (Inl RuntimeError) | MEM_RAISES x \<Rightarrow> Some (Inl x)
       | MEM_PENDING \<Rightarrow> wait st (Suc i)) = Some res"
  then show "\<exists>d \<ge> i. st d \<noteq> MEM_PENDING" by (cases "st i") (auto, metis Suc_leD)
qed

lemma wait_link_returns: "(\<exists>res. wait_link st 0 = Some res) \<longleftrightarrow> (\<exists>i. st i \<noteq> MEM_PENDING)"
  using wait_link_Some [of st 0] wait_link_first [of st] by (metis zero_le)

text \<open>The communicator of a link, or what the library raises when the link is requested.\<close>

definition link_comm :: "dd_env \<Rightarrow> dd_worker \<Rightarrow> dd_agent \<Rightarrow> int result" where
  "link_comm env w a = (case link_args w a of (name, ranks, table) \<Rightarrow> de_link env name ranks table)"

lemma add_remote_agent_unlinked:
  "map_of (dw_linked_cluster w) (ag_cluster_id a) = None \<Longrightarrow>
   add_remote_agent env w a =
     (case link_comm env w a of
        Inl x \<Rightarrow> Some (w, Inl x)
      | Inr comm \<Rightarrow> map_option
          (\<lambda>res. case res of Inl x \<Rightarrow> (w, Inl x)
             | Inr _ \<Rightarrow> (w\<lparr>dw_linked_cluster := dict_set (ag_cluster_id a) comm (dw_linked_cluster w)\<rparr>, Inr (ag_cluster_id a)))
          (wait_link (de_mem_status env comm) 0))"
  by (simp add: add_remote_agent_def link_comm_def Let_def split: prod.splits)

text \<open>The first answer that is not \<open>MEM_PENDING\<close>.\<close>

definition first_answer :: "(nat \<Rightarrow> mem_status) \<Rightarrow> mem_status \<Rightarrow> bool" where
  "first_answer st a \<longleftrightarrow> a \<noteq> MEM_PENDING \<and> (\<exists>d. st d = a \<and> (\<forall>j < d. st j = MEM_PENDING))"

lemma wait_link_first_answer:
  assumes "wait_link st 0 = Some res"
  obtains a where "first_answer st a" "res = wait_result a"
proof -
  obtain n where "st n \<noteq> MEM_PENDING" using wait_link_Some [OF assms] by blast
  then obtain d where "st d \<noteq> MEM_PENDING" "wait_link st 0 = Some (wait_result (st d))" "\<forall>j < d. st j = MEM_PENDING"
    by (rule wait_link_first) blast
  then show ?thesis using that [of "st d"] assms by (auto simp: first_answer_def)
qed

text \<open>
  C32. A link attempt: linking with a cluster returns exactly when the cluster is linked already, the
  library raises when the link is requested, or at some query it no longer answers that the link is
  pending. It returns the cluster's id only when the cluster was linked already, and then nothing
  changes, or when the first answer that is not pending is success, and then exactly the communicator
  of this link is recorded for the cluster. It raises only what the request of the link raised, a
  \<open>RuntimeError\<close> when that first answer is failure, or what the query raised; then nothing is
  recorded, so that the next attempt tries again.
\<close>

theorem add_remote_agent_returns:
  "((\<exists>out. add_remote_agent env w a = Some out) \<longleftrightarrow>
     map_of (dw_linked_cluster w) (ag_cluster_id a) \<noteq> None \<or>
     (case link_comm env w a of Inl x \<Rightarrow> True | Inr comm \<Rightarrow> \<exists>i. de_mem_status env comm i \<noteq> MEM_PENDING)) \<and>
   (case add_remote_agent env w a of
      None \<Rightarrow> True
    | Some (w', Inr c) \<Rightarrow>
        c = ag_cluster_id a \<and>
        (if map_of (dw_linked_cluster w) c \<noteq> None then w' = w
         else \<exists>comm. link_comm env w a = Inr comm \<and> first_answer (de_mem_status env comm) MEM_OK \<and>
                w' = w\<lparr>dw_linked_cluster := dict_set c comm (dw_linked_cluster w)\<rparr>)
    | Some (w', Inl x) \<Rightarrow>
        w' = w \<and> map_of (dw_linked_cluster w) (ag_cluster_id a) = None \<and>
        (link_comm env w a = Inl x \<or>
         (\<exists>comm. link_comm env w a = Inr comm \<and>
            (first_answer (de_mem_status env comm) MEM_FAILED \<and> x = RuntimeError \<or>
             first_answer (de_mem_status env comm) (MEM_RAISES x)))))"
proof (cases "map_of (dw_linked_cluster w) (ag_cluster_id a)")
  case None
  note add = add_remote_agent_unlinked [OF None, of env]
  show ?thesis
  proof (cases "link_comm env w a")
    case (Inr comm)
    let ?st = "de_mem_status env comm"
    show ?thesis
    proof (cases "wait_link ?st 0")
      case None
      then show ?thesis using Inr wait_link_returns [of ?st] \<open>map_of _ _ = None\<close> by (simp add: add)
    next
      case (Some res)
      obtain b where "first_answer ?st b" "res = wait_result b" using wait_link_first_answer [OF Some] .
      then show ?thesis
        using Inr Some None wait_link_returns [of ?st] by (cases b) (auto simp: add first_answer_def)
    qed
  qed (simp add: add None)
qed (simp add: add_remote_agent_def)

theorem add_remote_agent_returns_witness:
  "\<exists>out. add_remote_agent dd_demo_env dd_demo_worker (dd_demo_agent\<lparr>ag_cluster_id := 7\<rparr>) = Some out"
proof -
  have "de_mem_status dd_demo_env c 2 \<noteq> MEM_PENDING" for c by (simp add: dd_demo_env_def)
  then show ?thesis
    using add_remote_agent_returns [of dd_demo_env dd_demo_worker "dd_demo_agent\<lparr>ag_cluster_id := 7\<rparr>"]
    by (auto split: sum.splits)
qed

subsection \<open>The rank table of a link\<close>

fun json_get :: "json \<Rightarrow> string \<Rightarrow> json option" where
  "json_get (JObj kvs) k = map_of kvs k"
| "json_get _ k = None"

fun json_items :: "json option \<Rightarrow> json list" where
  "json_items (Some (JArr xs)) = xs"
| "json_items _ = []"

definition table_ranks :: "json \<Rightarrow> json option list" where
  "table_ranks t = concat (map (\<lambda>s. map (\<lambda>d. json_get d ''rank_id'') (json_items (json_get s ''device'')))
                               (json_items (json_get t ''server_list'')))"

text \<open>
  C33. The rank table: the two ends of a link, the prefill worker that the decode worker's message
  reaches and the decode worker that got the answer, ask for the same link, with the same name, the
  same ranks and the same table. The table is well formed: it counts its servers, no server is
  listed twice, its devices have the ranks 0 and 1 in this order, and it lists the super pods only on A3.
\<close>

theorem link_args_agree:
  assumes "dw_role p = PROMPT" "dw_role d = DECODER" "dw_soc_is_a3 p = dw_soc_is_a3 d"
    and "link_args d (dw_agent p) = (name, ranks, table)"
  shows "link_args p (dw_agent d) = (name, ranks, table) \<and>
    (let servers = json_items (json_get table ''server_list'') in
       json_get table ''server_count'' = Some (JStr (str_nat (length servers))) \<and>
       distinct (map (\<lambda>s. json_get s ''server_id'') servers)) \<and>
    table_ranks table = [Some (JStr ''0''), Some (JStr ''1'')] \<and>
    (json_get table ''super_pod_list'' \<noteq> None \<longleftrightarrow> dw_soc_is_a3 p)"
proof -
  have str: "str_nat (Suc 0) = ''1''" "str_nat 2 = ''2''" by code_simp+
  have "link_args p (dw_agent d) = link_args d (dw_agent p)" using assms(1-3) by (simp add: link_args_def)
  moreover have "table = link_rank_table (dw_soc_is_a3 p) (dw_agent p) (dw_agent d)"
    using assms by (simp add: link_args_def)
  ultimately show ?thesis using assms(4)
    by (simp add: link_rank_table_def Let_def table_ranks_def server_entry_def rank_device_def str numeral_2_eq_2 [symmetric]
        split: option.splits)
qed

theorem link_args_agree_witness:
  "link_args (dd_demo_worker\<lparr>dw_role := PROMPT, dw_agent := dd_demo_agent\<lparr>ag_server_id := ''10.0.0.1''\<rparr>\<rparr>) dd_demo_agent =
   link_args dd_demo_worker (dd_demo_agent\<lparr>ag_server_id := ''10.0.0.1''\<rparr>)"
proof -
  let ?p = "dd_demo_worker\<lparr>dw_role := PROMPT, dw_agent := dd_demo_agent\<lparr>ag_server_id := ''10.0.0.1''\<rparr>\<rparr>"
  obtain n r t where l: "link_args dd_demo_worker (dw_agent ?p) = (n, r, t)" by (metis prod_cases3)
  show ?thesis using link_args_agree [OF _ _ _ l] l by (simp add: dd_demo_worker_def)
qed

subsection \<open>Registered caches\<close>

lemma aligned_addrs_Inr:
  "aligned_addrs acc ts = (addrs, Inr u) \<Longrightarrow>
   addrs = acc @ map kt_data_ptr ts \<and> (\<forall>t \<in> set ts. kt_data_ptr t mod alignment = 0)"
proof (induction ts arbitrary: acc)
  case (Cons t ts)
  then show ?case using Cons.IH [of "acc @ [kt_data_ptr t]"] by (auto split: if_splits)
qed simp

lemma register_mla_Inr:
  assumes "register_mla env w dtype layers = (w', Inr u)"
  shows "\<exists>c0 c1. w' = w\<lparr>dw_cache_addr := [map (\<lambda>l. kt_data_ptr (l ! 0)) layers, map (\<lambda>l. kt_data_ptr (l ! 1)) layers],
                       dw_cache := Some [c0, c1]\<rparr>"
  using assms
  by (auto simp: register_mla_def Let_def res_elims comp_def split: if_splits sum.splits)

lemma register_paged_Inr:
  assumes "register_paged env w dtype layers = (w', Inr u)"
  shows "\<exists>c. w' = w\<lparr>dw_cache_addr := [map kt_data_ptr (concat layers)], dw_cache := Some [c]\<rparr> \<and>
    (\<forall>t \<in> set (concat layers). kt_data_ptr t mod alignment = 0)"
proof -
  obtain addrs al where a: "aligned_addrs [] (concat layers) = (addrs, al)" by fastforce
  then show ?thesis using assms aligned_addrs_Inr [of "[]" "concat layers" addrs]
    by (auto simp: register_paged_def Let_def res_elims split: sum.splits)
qed

lemma register_Inl:
  "register_mla env w dtype layers = (w', Inl x) \<Longrightarrow> dw_cache w' = dw_cache w \<and> dw_listening w' = dw_listening w"
  "register_paged env w dtype layers = (w', Inl x) \<Longrightarrow> dw_cache w' = dw_cache w \<and> dw_listening w' = dw_listening w"
  by (auto simp: register_mla_def register_paged_def Let_def split: if_splits sum.splits prod.splits)

lemma dd_register_cases:
  assumes "dd_register_kv_caches env w kvs = (w', res)"
  shows "(w' = w \<and> (\<exists>x. res = Inl x)) \<or>
    (\<exists>m nb bl dt w2 res2. (if m then register_mla else register_paged) env
         (w\<lparr>dw_use_mla := Some m, dw_num_blocks := nb, dw_block_len := bl\<rparr>) dt (map snd kvs) = (w2, res2) \<and> res = res2 \<and>
       w' = (case res2 of Inl _ \<Rightarrow> w2 | Inr _ \<Rightarrow> w2\<lparr>dw_listening := True\<rparr>))"
proof -
  consider "w' = w \<and> (\<exists>x. res = Inl x)"
    | n k v ts rest m where "kvs = (n, k # v # ts) # rest" "res_bind (last_dim k) (\<lambda>dk. res_bind (last_dim v) (\<lambda>dv. Inr (dk \<noteq> dv))) = Inr m"
    using assms by (auto simp: dd_register_kv_caches_def split: list.splits prod.splits sum.splits)
  then show ?thesis
  proof cases
    case 2
    let ?w1 = "w\<lparr>dw_use_mla := Some m, dw_num_blocks := hd (kt_shape k),
                  dw_block_len := prod_list (drop (length (kt_shape k) - 3) (kt_shape k))\<rparr>"
    obtain w2 res2 where r: "(if m then register_mla else register_paged) env ?w1 (kt_dtype k) (map snd kvs) = (w2, res2)" by fastforce
    then have "dd_register_kv_caches env w kvs = (case res2 of Inl x \<Rightarrow> (w2, Inl x) | Inr _ \<Rightarrow> (w2\<lparr>dw_listening := True\<rparr>, Inr ()))"
      using 2 by (cases m) (simp_all add: dd_register_kv_caches_def Let_def)
    then have "res = res2 \<and> w' = (case res2 of Inl _ \<Rightarrow> w2 | Inr _ \<Rightarrow> w2\<lparr>dw_listening := True\<rparr>)"
      using assms by (cases res2) simp_all
    then show ?thesis using r by (intro disjI2 exI conjI) (assumption, simp_all)
  qed blast
qed

text \<open>
  Registering the caches: when it succeeds, the worker listens and holds the addresses of every
  layer in order: one list for each half with MLA, else one list of all tensors, whose addresses are
  multiples of 2 MiB. From then on a pull raises only what the library raises. When it fails, no
  listener is started and no cache is stored.
\<close>

theorem register_kv_caches_correct:
  assumes "dd_register_kv_caches env w kvs = (w', res)"
  shows "case res of
      Inl _ \<Rightarrow> dw_cache w' = dw_cache w \<and> dw_listening w' = dw_listening w
    | Inr _ \<Rightarrow> dw_listening w' \<and>
        (dw_use_mla w' = Some True \<and>
           dw_cache_addr w' = [map (\<lambda>(_, l). kt_data_ptr (l ! 0)) kvs, map (\<lambda>(_, l). kt_data_ptr (l ! 1)) kvs] \<or>
         dw_use_mla w' = Some False \<and> dw_cache_addr w' = [map kt_data_ptr (concat (map snd kvs))] \<and>
           (\<forall>a \<in> set (concat (dw_cache_addr w')). a mod 2097152 = 0)) \<and>
        (\<forall>c rs ls x. pull_from env w' c rs ls = Inl x \<longrightarrow>
           (\<exists>key cache. wrap_pull (de_pull_blocks env key cache rs ls) = Inl x))"
proof (cases res)
  case (Inl x)
  then show ?thesis using dd_register_cases [OF assms] register_Inl by (fastforce split: if_splits)
next
  case (Inr u)
  then obtain m nb bl dt w2 where
    r: "(if m then register_mla else register_paged) env
         (w\<lparr>dw_use_mla := Some m, dw_num_blocks := nb, dw_block_len := bl\<rparr>) dt (map snd kvs) = (w2, Inr u)"
    and w': "w' = w2\<lparr>dw_listening := True\<rparr>"
    using dd_register_cases [OF assms] by auto
  show ?thesis
  proof (cases m)
    case True
    then obtain c0 c1 where "w' = w\<lparr>dw_use_mla := Some True, dw_num_blocks := nb, dw_block_len := bl,
        dw_cache_addr := [map (\<lambda>l. kt_data_ptr (l ! 0)) (map snd kvs), map (\<lambda>l. kt_data_ptr (l ! 1)) (map snd kvs)],
        dw_cache := Some [c0, c1], dw_listening := True\<rparr>"
      using register_mla_Inr [of env _ dt "map snd kvs" w2 u] r w' by fastforce
    then show ?thesis using Inr
      by (auto simp: pull_from_def attr_def list_item_def res_elims comp_def case_prod_unfold)
  next
    case False
    then obtain c where "w' = w\<lparr>dw_use_mla := Some False, dw_num_blocks := nb, dw_block_len := bl,
        dw_cache_addr := [map kt_data_ptr (concat (map snd kvs))], dw_cache := Some [c], dw_listening := True\<rparr>"
      "\<forall>t \<in> set (concat (map snd kvs)). kt_data_ptr t mod alignment = 0"
      using register_paged_Inr [of env _ dt "map snd kvs" w2 u] r w' by fastforce
    then show ?thesis using Inr
      by (auto simp: pull_from_def attr_def res_elims alignment_def)
  qed
qed

definition dd_demo_caches :: "(string \<times> kv_tensor list) list" where
  "dd_demo_caches = [(''l0'', [\<lparr>kt_shape = [8, 4, 2, 8], kt_dtype = Tbfloat16, kt_data_ptr = 0\<rparr>,
                             \<lparr>kt_shape = [8, 4, 2, 8], kt_dtype = Tbfloat16, kt_data_ptr = 2097152\<rparr>])]"

theorem register_kv_caches_correct_witness:
  "dw_listening (fst (dd_register_kv_caches dd_demo_env (dd_demo_worker\<lparr>dw_listening := False\<rparr>) dd_demo_caches)) \<and>
   dw_cache_addr (fst (dd_register_kv_caches dd_demo_env (dd_demo_worker\<lparr>dw_listening := False\<rparr>) dd_demo_caches)) = [[0, 2097152]]"
proof -
  obtain w' res where r: "dd_register_kv_caches dd_demo_env (dd_demo_worker\<lparr>dw_listening := False\<rparr>) dd_demo_caches = (w', res)"
    by fastforce
  then have m: "res = Inr ()" "dw_use_mla w' = Some False"
    by (auto simp: dd_register_kv_caches_def dd_demo_caches_def last_dim_def list_item_def register_paged_def alignment_def
        npu_dtype_of_def map_item_def wrap_register_def dd_demo_env_def Let_def)
  show ?thesis using register_kv_caches_correct [OF r] m r by (simp add: dd_demo_caches_def)
qed

end
