(* ===== verification/Rejection_Sampler.thy ===== *)
theory Rejection_Sampler
  imports Prelude
begin

section \<open>The rejection sampler of speculative decoding\<close>

text \<open>
  \<^verbatim>\<open>vllm_ascend/sample/rejection_sampler.py\<close>. A tensor of one dimension is a list, one of two dimensions
  a list of rows; an index may be negative and raises out of range, element-wise operations
  broadcast a tensor of one element. Probabilities are rationals; \<open>rnd\<close> is the rounding of the
  floating-point operations: of Python's double precision where the code has taken the numbers out of the tensors with
  \<^verbatim>\<open>item()\<close> (the acceptance of a draft token), of the tensors' precision in the recovery of tokens. A rounding may underflow
  to 0; infinities and quotients by 0 are not represented (the exponential numbers are positive). The probabilities of the target, the uniform numbers and the
  exponential ones come from other code or from the random generators and are parameters. The
  functions that fill a tensor in place take it as an argument and return it. The lists with one
  entry per request have the length of the batch; the vectorised function raises for any other.
\<close>

definition PLACEHOLDER_TOKEN_ID :: int where "PLACEHOLDER_TOKEN_ID = - 1"
definition GREEDY_TEMPERATURE :: rat where "GREEDY_TEMPERATURE = - 1"
definition MAX_SPEC_LEN :: int where "MAX_SPEC_LEN = 32"

subsection \<open>Tensor operations\<close>

definition norm_index :: "nat \<Rightarrow> int \<Rightarrow> nat result" where
  "norm_index n i =
     (if 0 \<le> i \<and> i < int n then Inr (nat i)
      else if i < 0 \<and> - int n \<le> i then Inr (nat (int n + i))
      else Inl IndexError)"

definition list_set :: "'a list \<Rightarrow> int \<Rightarrow> 'a \<Rightarrow> 'a list result" where
  "list_set xs i v = res_bind (norm_index (length xs) i) (\<lambda>k. Inr (xs[k := v]))"

definition mat_item :: "'a list list \<Rightarrow> int \<Rightarrow> int \<Rightarrow> 'a result" where
  "mat_item m i j = res_bind (list_item m i) (\<lambda>row. list_item row j)"

definition mat_set :: "'a list list \<Rightarrow> int \<Rightarrow> int \<Rightarrow> 'a \<Rightarrow> 'a list list result" where
  "mat_set m i j v =
     res_bind (list_item m i) (\<lambda>row. res_bind (list_set row j v) (\<lambda>row'. list_set m i row'))"

definition bcast :: "py_error \<Rightarrow> ('a \<Rightarrow> 'b \<Rightarrow> 'c) \<Rightarrow> 'a list \<Rightarrow> 'b list \<Rightarrow> 'c list result" where
  "bcast e f xs ys =
     (if length xs = length ys then Inr (map2 f xs ys)
      else if length xs = 1 then Inr (map (f (hd xs)) ys)
      else if length ys = 1 then Inr (map (\<lambda>x. f x (hd ys)) xs)
      else Inl e)"

definition expand_to :: "nat \<Rightarrow> 'a list \<Rightarrow> 'a list result" where
  "expand_to n vs = (if length vs = n then Inr vs else if length vs = 1 then Inr (replicate n (hd vs)) else Inl RuntimeError)"

text \<open>\<^verbatim>\<open>m[rows, cols] = vals\<close>\<close>

definition index_put :: "'a list list \<Rightarrow> int list \<Rightarrow> int list \<Rightarrow> 'a list \<Rightarrow> 'a list list result" where
  "index_put m rows cols vals =
     res_bind (bcast IndexError Pair rows cols) (\<lambda>ijs.
     res_bind (expand_to (length ijs) vals) (\<lambda>vs.
     res_foldl (\<lambda>m ((i, j), v). mat_set m i j v) m (zip ijs vs)))"

definition repeat_interleave :: "'a list \<Rightarrow> nat list \<Rightarrow> 'a list" where
  "repeat_interleave xs ns = concat (map2 (\<lambda>x n. replicate n x) xs ns)"

definition argmax :: "rat list \<Rightarrow> int result" where
  "argmax xs = (if xs = [] then Inl IndexError else Inr (int (length (takeWhile (\<lambda>x. x \<noteq> Max (set xs)) xs))))"

subsection \<open>Greedy requests\<close>

definition rejection_greedy_sample_spec_len_1_pytorch ::
  "int list list \<Rightarrow> int list \<Rightarrow> int list \<Rightarrow> int list \<Rightarrow> int list list result" where
  "rejection_greedy_sample_spec_len_1_pytorch output draft target_argmax bonus =
     res_bind (py_assert (length output = length draft)) (\<lambda>_.
     res_bind (bcast RuntimeError (=) draft target_argmax) (\<lambda>accept_req_mask.
     res_bind (expand_to (length output) target_argmax) (\<lambda>firsts.
     res_bind (res_map (\<lambda>(row, t). list_set row 0 t) (zip output firsts)) (\<lambda>output1.
     if length accept_req_mask \<noteq> length output \<or> length bonus \<noteq> length output then Inl IndexError
     else res_map (\<lambda>(row, acc, b). if acc then list_set row 1 b else Inr row) (zip output1 (zip accept_req_mask bonus))))))"

text \<open>The position of the first mismatch of each request, the number of its draft tokens when there is none.\<close>

definition first_mismatch_pos_per_req ::
  "int list \<Rightarrow> int list \<Rightarrow> nat list \<Rightarrow> int list \<Rightarrow> nat \<Rightarrow> nat \<Rightarrow> int list result" where
  "first_mismatch_pos_per_req draft target_argmax per_req start_indices batch_size max_spec_len =
     (let req_ids = map int [0..<batch_size];
          token_req_ids = repeat_interleave req_ids per_req
      in res_bind (res_map (list_item start_indices) token_req_ids) (\<lambda>starts.
         res_bind (bcast RuntimeError (-) (map int [0..<length draft]) starts) (\<lambda>token_positions.
         res_bind (bcast RuntimeError (\<noteq>) draft target_argmax) (\<lambda>mismatch_global.
         if max_spec_len = 0 then Inr (replicate batch_size 0)
         else
           res_bind (index_put (replicate batch_size (replicate max_spec_len (- 1))) token_req_ids token_positions token_positions)
             (\<lambda>pos_matrix.
           res_bind (index_put (replicate batch_size (replicate max_spec_len False)) token_req_ids token_positions mismatch_global)
             (\<lambda>mismatch_matrix.
           let mismatch_positions = map2 (map2 (\<lambda>b p. if b then p else int max_spec_len * 2)) mismatch_matrix pos_matrix;
               first = map (\<lambda>row. Min (set row)) mismatch_positions
           in Inr (map2 (\<lambda>f n. if f = int max_spec_len * 2 then int n else f) first per_req)))))))"

definition rejection_greedy_sample_pytorch ::
  "int list list \<Rightarrow> nat list \<Rightarrow> int list \<Rightarrow> int list \<Rightarrow> int list \<Rightarrow> nat list \<Rightarrow> nat \<Rightarrow> bool list option \<Rightarrow> int list list result" where
  "rejection_greedy_sample_pytorch output cu_num_draft_tokens draft target_argmax bonus draft_tokens_per_req max_spec_len is_greedy =
     (let batch_size = length output;
          greedy = (case is_greedy of None \<Rightarrow> replicate batch_size True | Some g \<Rightarrow> g)
      in if length draft_tokens_per_req \<noteq> batch_size \<or> length cu_num_draft_tokens \<noteq> batch_size \<or> length greedy \<noteq> batch_size
         then Inl RuntimeError
         else
         res_bind (bcast RuntimeError (\<lambda>c n. int c - int n) cu_num_draft_tokens draft_tokens_per_req) (\<lambda>start_indices.
         res_bind (first_mismatch_pos_per_req draft target_argmax draft_tokens_per_req start_indices batch_size max_spec_len) (\<lambda>first.
         let copy_len = map2 (\<lambda>f n. min (f + 1) (int n)) first draft_tokens_per_req in
         res_bind
           (res_map (\<lambda>(row, g, len, start).
                res_map (\<lambda>(x, j). if int j < len \<and> g then list_item target_argmax (start + int j) else Inr x)
                  (zip row [0..<Suc max_spec_len]))
              (zip output (zip greedy (zip copy_len start_indices)))) (\<lambda>output1.
         let needs_bonus = map2 (\<lambda>g (f, n). g \<and> int n \<le> f) greedy (zip first draft_tokens_per_req) in
         res_foldl
           (\<lambda>out i. if needs_bonus ! i then
                res_bind (list_item bonus (int i)) (\<lambda>b. mat_set out (int i) (int (draft_tokens_per_req ! i)) b) else Inr out)
           output1 [0..<batch_size]))))"

subsection \<open>Random requests\<close>

definition start_of :: "int list \<Rightarrow> nat \<Rightarrow> int result" where
  "start_of cu i = (if i = 0 then Inr 0 else list_item cu (int i - 1))"

text \<open>Whether the draft token at a flat position is accepted.\<close>

definition accepts ::
  "(rat \<Rightarrow> rat) \<Rightarrow> rat list list option \<Rightarrow> rat list list \<Rightarrow> rat list \<Rightarrow> int \<Rightarrow> int \<Rightarrow> bool result" where
  "accepts rnd draft_probs target_probs uniform_probs idx draft_token_id =
     res_bind (case draft_probs of None \<Rightarrow> Inr 1 | Some dp \<Rightarrow> mat_item dp idx draft_token_id) (\<lambda>draft_prob.
     res_bind (mat_item target_probs idx draft_token_id) (\<lambda>target_prob.
     res_bind (list_item uniform_probs idx) (\<lambda>uniform_prob.
     Inr (draft_prob > 0 \<and> rnd (target_prob / draft_prob) \<ge> uniform_prob))))"

text \<open>The tensors that the loop over the positions of one request reads.\<close>

record random_args =
  ra_draft_token_ids :: "int list"
  ra_draft_probs :: "rat list list option"
  ra_target_probs :: "rat list list"
  ra_recovered_token_ids :: "int list"
  ra_uniform_probs :: "rat list"

definition random_position ::
  "(rat \<Rightarrow> rat) \<Rightarrow> random_args \<Rightarrow> nat \<Rightarrow> int \<Rightarrow> bool \<times> int list list \<Rightarrow> nat \<Rightarrow> (bool \<times> int list list) result" where
  "random_position rnd a req start st pos =
     (case st of (rejected, out) \<Rightarrow>
        if rejected then Inr st
        else
          let idx = start + int pos in
          res_bind (list_item (ra_draft_token_ids a) idx) (\<lambda>draft_token_id.
          res_bind (accepts rnd (ra_draft_probs a) (ra_target_probs a) (ra_uniform_probs a) idx draft_token_id) (\<lambda>acc.
          res_bind (if acc then Inr draft_token_id else list_item (ra_recovered_token_ids a) idx) (\<lambda>token_id.
          res_bind (mat_set out (int req) (int pos) token_id) (\<lambda>out'. Inr (\<not> acc, out'))))))"

definition random_request ::
  "(rat \<Rightarrow> rat) \<Rightarrow> random_args \<Rightarrow> int list \<Rightarrow> int list \<Rightarrow> bool list \<Rightarrow> int list list \<Rightarrow> nat \<Rightarrow> int list list result" where
  "random_request rnd a cu bonus is_greedy out req =
     res_bind (list_item is_greedy (int req)) (\<lambda>greedy.
       if greedy then Inr out
       else
         res_bind (start_of cu req) (\<lambda>start_idx.
         res_bind (list_item cu (int req)) (\<lambda>end_idx.
         let num_draft_tokens = end_idx - start_idx in
         res_bind (res_foldl (random_position rnd a req start_idx) (False, out) [0..<nat num_draft_tokens]) (\<lambda>(rejected, out1).
         if rejected then Inr out1
         else res_bind (list_item bonus (int req)) (\<lambda>b. mat_set out1 (int req) num_draft_tokens b)))))"

definition rejection_random_sample_pytorch ::
  "(rat \<Rightarrow> rat) \<Rightarrow> int list list \<Rightarrow> int list \<Rightarrow> random_args \<Rightarrow> int list \<Rightarrow> bool list \<Rightarrow> int list list result" where
  "rejection_random_sample_pytorch rnd output cu a bonus is_greedy =
     res_foldl (random_request rnd a cu bonus is_greedy) output [0..<length output]"

subsection \<open>Recovered tokens\<close>

text \<open>
  The distribution from which the token is recovered that replaces a rejected draft token. Without
  draft probabilities the probability of the draft token is set to 0 and restored afterwards, in
  place.
\<close>

definition recover_position ::
  "(rat \<Rightarrow> rat) \<Rightarrow> int list \<Rightarrow> rat list list option \<Rightarrow> rat list list \<Rightarrow> nat \<Rightarrow> int \<Rightarrow> int list \<times> rat list list \<Rightarrow> nat \<Rightarrow>
   (int list \<times> rat list list) result" where
  "recover_position rnd draft draft_probs q req start st pos =
     (case st of (out, target_probs) \<Rightarrow>
        let token_idx = start + int pos in
        res_bind
          (case draft_probs of
             None \<Rightarrow>
               res_bind (list_item draft token_idx) (\<lambda>d.
               res_bind (mat_item target_probs token_idx d) (\<lambda>orig.
               res_bind (mat_set target_probs token_idx d 0) (\<lambda>tp.
               res_bind (list_item tp token_idx) (\<lambda>prob. Inr (prob, tp, Some (d, orig))))))
           | Some dp \<Rightarrow>
               res_bind (list_item dp token_idx) (\<lambda>draft_p.
               res_bind (list_item target_probs token_idx) (\<lambda>target_p.
               res_bind (bcast RuntimeError (\<lambda>t d. max (rnd (t - d)) 0) target_p draft_p) (\<lambda>prob.
               Inr (prob, target_probs, None)))))
          (\<lambda>(prob, tp, saved).
             res_bind (list_item q (int req)) (\<lambda>q_values.
             res_bind (bcast RuntimeError (\<lambda>p x. rnd (p / x)) prob q_values) (\<lambda>scores.
             res_bind (argmax scores) (\<lambda>recovered_id.
             res_bind (list_set out token_idx recovered_id) (\<lambda>out'.
             res_bind (case saved of None \<Rightarrow> Inr tp | Some (d, orig) \<Rightarrow> mat_set tp token_idx d orig) (\<lambda>tp'.
             Inr (out', tp'))))))))"

definition recover_request ::
  "(rat \<Rightarrow> rat) \<Rightarrow> int list \<Rightarrow> int list \<Rightarrow> rat list list option \<Rightarrow> rat list list \<Rightarrow> int list \<times> rat list list \<Rightarrow> nat \<Rightarrow>
   (int list \<times> rat list list) result" where
  "recover_request rnd cu draft draft_probs q st req =
     res_bind (start_of cu req) (\<lambda>start_idx.
     res_bind (list_item cu (int req)) (\<lambda>end_idx.
     res_foldl (recover_position rnd draft draft_probs q req start_idx) st [0..<nat (end_idx - start_idx)]))"

definition sample_recovered_tokens_pytorch ::
  "(rat \<Rightarrow> rat) \<Rightarrow> int list \<Rightarrow> int list \<Rightarrow> int list \<Rightarrow> rat list list option \<Rightarrow> rat list list \<Rightarrow> rat list list \<Rightarrow>
   (int list \<times> rat list list) result" where
  "sample_recovered_tokens_pytorch rnd output cu draft draft_probs target_probs q =
     res_foldl (recover_request rnd cu draft draft_probs q) (output, target_probs) [0..<length cu]"

text \<open>
  \<open>fresh i j\<close> is what \<^verbatim>\<open>exponential_\<close> fills the matrix with, \<open>gen i j\<close> what it fills row \<open>i\<close> with from
  the generator of that request, \<open>junk\<close> the content of a tensor that was not initialised.
\<close>

definition exponential_rows ::
  "(nat \<Rightarrow> nat \<Rightarrow> rat) \<Rightarrow> (nat \<Rightarrow> nat \<Rightarrow> rat) \<Rightarrow> nat list \<Rightarrow> nat list \<Rightarrow> nat \<Rightarrow> rat list list result" where
  "exponential_rows fresh gen generators num_draft_tokens vocab_size =
     res_foldl
       (\<lambda>q i. res_bind (list_item num_draft_tokens (int i)) (\<lambda>n.
          if n > 0 then list_set q (int i) (map (gen i) [0..<vocab_size]) else Inr q))
       (map (\<lambda>i. map (fresh i) [0..<vocab_size]) [0..<length num_draft_tokens]) generators"

definition vocab_size_of :: "rat list list \<Rightarrow> nat" where
  "vocab_size_of target_probs = (case target_probs of [] \<Rightarrow> 0 | row # _ \<Rightarrow> length row)"

definition sample_recovered_tokens ::
  "(rat \<Rightarrow> rat) \<Rightarrow> (nat \<Rightarrow> nat \<Rightarrow> rat) \<Rightarrow> (nat \<Rightarrow> nat \<Rightarrow> rat) \<Rightarrow> (nat \<Rightarrow> int) \<Rightarrow> nat list \<Rightarrow> nat list \<Rightarrow> int list \<Rightarrow> int list \<Rightarrow>
   rat list list option \<Rightarrow> rat list list \<Rightarrow> (int list \<times> rat list list) result" where
  "sample_recovered_tokens rnd fresh gen junk generators num_draft_tokens cu draft draft_probs target_probs =
     res_bind (exponential_rows fresh gen generators num_draft_tokens (vocab_size_of target_probs)) (\<lambda>q.
     sample_recovered_tokens_pytorch rnd (map junk [0..<length draft]) cu draft draft_probs target_probs q)"

subsection \<open>rejection_sample\<close>

text \<open>The temperatures are there whenever some request is not greedy.\<close>

record sampling_info =
  si_all_greedy :: bool
  si_all_random :: bool
  si_temperature :: "rat list"
  si_generators :: "nat list"

text \<open>The rounding of Python floats and of the elements of the tensors.\<close>

record roundings =
  round_double :: "rat \<Rightarrow> rat"
  round_tensor :: "rat \<Rightarrow> rat"

text \<open>What the random generators give.\<close>

record random_source =
  rs_uniform :: "rat list"
  rs_exponential :: "nat \<Rightarrow> nat \<Rightarrow> rat"
  rs_seeded :: "nat \<Rightarrow> nat \<Rightarrow> rat"
  rs_junk :: "nat \<Rightarrow> int"

definition greedy_phase ::
  "int list list \<Rightarrow> int list \<Rightarrow> nat list \<Rightarrow> nat \<Rightarrow> nat list \<Rightarrow> rat list list \<Rightarrow> int list \<Rightarrow> bool \<Rightarrow> bool list option \<Rightarrow>
   int list list result" where
  "greedy_phase output draft num_draft_tokens max_spec_len cu target_probs bonus all_greedy is_greedy =
     res_bind (res_map argmax target_probs) (\<lambda>target_argmax.
       if num_draft_tokens = [] then Inl ValueError
       else if Min (set num_draft_tokens) = 1 \<and> Max (set num_draft_tokens) = 1 \<and> all_greedy then
         rejection_greedy_sample_spec_len_1_pytorch output draft target_argmax bonus
       else rejection_greedy_sample_pytorch output cu draft target_argmax bonus num_draft_tokens max_spec_len is_greedy)"

definition rejection_sample ::
  "roundings \<Rightarrow> random_source \<Rightarrow> int list \<Rightarrow> nat list \<Rightarrow> nat \<Rightarrow> nat list \<Rightarrow> rat list list option \<Rightarrow> rat list list \<Rightarrow> int list \<Rightarrow>
   sampling_info \<Rightarrow> int list list result" where
  "rejection_sample rnd src draft num_draft_tokens max_spec_len cu draft_probs target_probs bonus si =
     res_bind (py_assert (length target_probs = length draft \<and>
                          list_all (\<lambda>row. length row = vocab_size_of target_probs) target_probs)) (\<lambda>_.
       let output = replicate (length num_draft_tokens) (replicate (Suc max_spec_len) PLACEHOLDER_TOKEN_ID);
           is_greedy = (if si_all_greedy si then None else Some (map (\<lambda>t. t = GREEDY_TEMPERATURE) (si_temperature si)))
       in res_bind (if si_all_random si then Inr output
                    else greedy_phase output draft num_draft_tokens max_spec_len cu target_probs bonus (si_all_greedy si) is_greedy)
            (\<lambda>output1.
          if si_all_greedy si \<and> \<not> si_all_random si then Inr output1
          else
            res_bind (sample_recovered_tokens (round_tensor rnd) (rs_exponential src) (rs_seeded src) (rs_junk src) (si_generators si)
                        num_draft_tokens (map int cu) draft draft_probs target_probs) (\<lambda>(recovered, target_probs').
            case is_greedy of
              None \<Rightarrow> (if num_draft_tokens = [] then Inr output1 else Inl TypeError)
            | Some g \<Rightarrow>
                rejection_random_sample_pytorch (round_double rnd) output1 (map int cu)
                  \<lparr>ra_draft_token_ids = draft, ra_draft_probs = draft_probs, ra_target_probs = target_probs',
                   ra_recovered_token_ids = recovered, ra_uniform_probs = rs_uniform src\<rparr> bonus g)))"

text \<open>\<open>compute_probs\<close> is the function of vLLM.\<close>

definition forward ::
  "roundings \<Rightarrow> random_source \<Rightarrow> ('l \<Rightarrow> nat list \<Rightarrow> sampling_info \<Rightarrow> rat list list) \<Rightarrow> int list \<Rightarrow> nat list \<Rightarrow> nat \<Rightarrow> nat list \<Rightarrow>
   rat list list option \<Rightarrow> 'l \<Rightarrow> int list \<Rightarrow> sampling_info \<Rightarrow> int list list result" where
  "forward rnd src compute_probs draft num_draft_tokens max_spec_len cu draft_probs target_logits bonus si =
     res_bind (py_assert (int max_spec_len \<le> MAX_SPEC_LEN)) (\<lambda>_.
       rejection_sample rnd src draft num_draft_tokens max_spec_len cu draft_probs (compute_probs target_logits cu si) bonus si)"

subsection \<open>expand_batch_to_tokens\<close>

definition expand_pytorch :: "'a list \<Rightarrow> 'a list \<Rightarrow> int list \<Rightarrow> 'a \<Rightarrow> 'a \<Rightarrow> int \<Rightarrow> 'a list result" where
  "expand_pytorch output xs cu replace_from replace_to max_num_tokens =
     res_foldl
       (\<lambda>out i.
          res_bind (start_of cu i) (\<lambda>start_idx.
          res_bind (list_item cu (int i)) (\<lambda>end_idx.
          let num_tokens = end_idx - start_idx;
              src_val = (if xs ! i = replace_from then replace_to else xs ! i)
          in res_foldl (\<lambda>out k. list_set out (start_idx + k) src_val) out
               (filter (\<lambda>k. k < num_tokens) [0..max_num_tokens - 1]))))
       output [0..<length xs]"

definition expand_batch_to_tokens :: "(nat \<Rightarrow> 'a) \<Rightarrow> 'a list \<Rightarrow> int list \<Rightarrow> nat \<Rightarrow> 'a \<Rightarrow> 'a \<Rightarrow> 'a list result" where
  "expand_batch_to_tokens junk xs cu num_tokens replace_from replace_to =
     res_bind (py_assert (length cu = length xs)) (\<lambda>_.
       expand_pytorch (map junk [0..<num_tokens]) xs cu replace_from replace_to MAX_SPEC_LEN)"

end
