(* ===== verification/Rejection_Greedy.thy ===== *)
theory Rejection_Greedy
  imports Rejection_Sampler
begin

section \<open>The vectorised greedy sampler computes the sequential algorithm\<close>

text \<open>
  The algorithm of speculative decoding for one request (\<open>verify\<close>), the matrix view of the tensors
  (\<open>mat\<close>), the flat layout of the tokens of a batch (\<open>flat\<close>, \<open>seg\<close>), and the lemmas that lead from the
  vectorised code for greedy requests to one call of \<open>verify\<close> per request.
\<close>

subsection \<open>The algorithm for one request\<close>

text \<open>
  The tokens of one step: accepted draft tokens up to the first rejection, whose token is replaced;
  the bonus token when nothing was rejected.
\<close>

fun verify :: "('x \<Rightarrow> bool) \<Rightarrow> ('x \<Rightarrow> 't) \<Rightarrow> ('x \<Rightarrow> 't) \<Rightarrow> 'x list \<Rightarrow> 't \<Rightarrow> 't list" where
  "verify acc tok rej [] bonus = [bonus]"
| "verify acc tok rej (x # xs) bonus = (if acc x then tok x # verify acc tok rej xs bonus else [rej x])"

abbreviation num_accepted :: "('x \<Rightarrow> bool) \<Rightarrow> 'x list \<Rightarrow> nat" where
  "num_accepted acc xs \<equiv> length (takeWhile acc xs)"

lemma length_verify: "length (verify acc tok rej xs b) = Suc (num_accepted acc xs)"
  by (induction xs) auto

lemma nth_verify:
  "j \<le> num_accepted acc xs \<Longrightarrow> verify acc tok rej xs b ! j =
     (if j < num_accepted acc xs then tok (xs ! j) else if j < length xs then rej (xs ! j) else b)"
proof (induction xs arbitrary: j)
  case (Cons x xs)
  then show ?case by (cases j) (auto split: if_splits)
qed simp

lemma num_accepted_le: "num_accepted acc xs \<le> length xs"
  by (rule length_takeWhile_le)

definition pad :: "nat \<Rightarrow> int list \<Rightarrow> int list" where
  "pad n xs = xs @ replicate (n - length xs) PLACEHOLDER_TOKEN_ID"

lemma nth_pad: "j < n \<Longrightarrow> length xs \<le> n \<Longrightarrow> pad n xs ! j = (if j < length xs then xs ! j else PLACEHOLDER_TOKEN_ID)"
  by (simp add: pad_def nth_append)

lemma length_pad [simp]: "length xs \<le> n \<Longrightarrow> length (pad n xs) = n"
  by (simp add: pad_def)

subsection \<open>Matrices\<close>

definition mat :: "nat \<Rightarrow> nat \<Rightarrow> (nat \<Rightarrow> nat \<Rightarrow> 'a) \<Rightarrow> 'a list list" where
  "mat m n f = map (\<lambda>i. map (f i) [0..<n]) [0..<m]"

lemma length_mat [simp]: "length (mat m n f) = m"
  by (simp add: mat_def)

lemma nth_mat [simp]: "i < m \<Longrightarrow> mat m n f ! i = map (f i) [0..<n]"
  by (simp add: mat_def)

lemma mat_cong: "(\<And>i j. i < m \<Longrightarrow> j < n \<Longrightarrow> f i j = g i j) \<Longrightarrow> mat m n f = mat m n g"
  by (simp add: mat_def)

lemma mat_replicate: "replicate m (replicate n x) = mat m n (\<lambda>_ _. x)"
  by (rule nth_equalityI) (auto intro: nth_equalityI)

lemma mat_eqI: "length xs = m \<Longrightarrow> (\<And>i. i < m \<Longrightarrow> xs ! i = map (f i) [0..<n]) \<Longrightarrow> xs = mat m n f"
  by (rule nth_equalityI) simp_all

lemma list_set_nat [simp]: "k < length xs \<Longrightarrow> list_set xs (int k) v = Inr (xs[k := v])"
  by (simp add: list_set_def norm_index_def)

lemma mat_item_mat [simp]: "i < m \<Longrightarrow> j < n \<Longrightarrow> mat_item (mat m n f) (int i) (int j) = Inr (f i j)"
  by (simp add: mat_item_def)

lemma mat_set_mat:
  assumes "i < m" "j < n"
  shows "mat_set (mat m n f) (int i) (int j) v = Inr (mat m n (f(i := (f i)(j := v))))"
proof -
  have "(mat m n f)[i := (map (f i) [0..<n])[j := v]] = mat m n (f(i := (f i)(j := v)))"
    using assms by (intro mat_eqI) (auto simp: nth_list_update intro!: nth_equalityI)
  then show ?thesis using assms by (simp add: mat_set_def)
qed

lemma fold_mat_set:
  assumes "\<And>i j. (i, j) \<in> set ks \<Longrightarrow> i < m \<and> j < n"
  shows "res_foldl (\<lambda>m ((i, j), v). mat_set m i j v) (mat m n f) (map (\<lambda>(i, j). ((int i, int j), g i j)) ks) =
    Inr (mat m n (\<lambda>i j. if (i, j) \<in> set ks then g i j else f i j))"
  using assms
proof (induction ks arbitrary: f)
  case (Cons k ks)
  obtain i j where k: "k = (i, j)" by fastforce
  have "mat_set (mat m n f) (int i) (int j) (g i j) = Inr (mat m n (f(i := (f i)(j := g i j))))"
    using Cons.prems k by (intro mat_set_mat) auto
  moreover have eq: "(\<lambda>a b. if (a, b) \<in> set ks then g a b else (f(i := (f i)(j := g i j))) a b) =
      (\<lambda>a b. if (a, b) \<in> set (k # ks) then g a b else f a b)"
    by (auto simp: k fun_eq_iff)
  moreover have "res_foldl (\<lambda>m ((i, j), v). mat_set m i j v) (mat m n (f(i := (f i)(j := g i j))))
      (map (\<lambda>(i, j). ((int i, int j), g i j)) ks) = Inr (mat m n (\<lambda>a b. if (a, b) \<in> set (k # ks) then g a b else f a b))"
    unfolding eq [symmetric] by (rule Cons.IH) (rule Cons.prems, simp)
  ultimately show ?case by (simp add: k del: fun_upd_apply)
qed simp

lemma zip_map_same: "zip (map f xs) (map g xs) = map (\<lambda>x. (f x, g x)) xs"
  by (induction xs) simp_all

lemma bcast_map [simp]: "bcast e f (map a xs) (map b xs) = Inr (map (\<lambda>x. f (a x) (b x)) xs)"
  by (simp add: bcast_def zip_map_same)

lemma index_put_map:
  assumes "\<And>i j. (i, j) \<in> set ks \<Longrightarrow> i < m \<and> j < n"
  shows "index_put (mat m n f) (map (\<lambda>(i, j). int i) ks) (map (\<lambda>(i, j). int j) ks) (map (\<lambda>(i, j). g i j) ks) =
    Inr (mat m n (\<lambda>i j. if (i, j) \<in> set ks then g i j else f i j))"
proof -
  have "zip (map (\<lambda>k. (case k of (i, j) \<Rightarrow> int i, case k of (i, j) \<Rightarrow> int j)) ks) (map (\<lambda>(i, j). g i j) ks) =
      map (\<lambda>(i, j). ((int i, int j), g i j)) ks"
    by (simp add: zip_map_same case_prod_unfold)
  then show ?thesis using fold_mat_set [OF assms, where f = f and g = g] by (simp add: index_put_def expand_to_def)
qed

lemma map2_mat: "map2 (map2 h) (mat m n f) (mat m n g) = mat m n (\<lambda>i j. h (f i j) (g i j))"
  by (rule mat_eqI) (simp_all add: zip_map_same)

subsection \<open>The flat layout of a batch\<close>

definition flat :: "nat list \<Rightarrow> (nat \<times> nat) list" where
  "flat ns = concat (map (\<lambda>i. map (Pair i) [0..<ns ! i]) [0..<length ns])"

abbreviation offset :: "nat list \<Rightarrow> nat \<Rightarrow> nat" where
  "offset ns i \<equiv> sum_list (take i ns)"

definition seg :: "nat list \<Rightarrow> nat \<Rightarrow> 'a list \<Rightarrow> 'a list" where
  "seg ns i xs = take (ns ! i) (drop (offset ns i) xs)"

lemma flat_snoc: "flat (ns @ [n]) = flat ns @ map (Pair (length ns)) [0..<n]"
proof -
  have "concat (map (\<lambda>i. map (Pair i) [0..<(ns @ [n]) ! i]) [0..<length ns]) = flat ns"
    unfolding flat_def by (rule arg_cong [where f = concat], rule map_cong) (simp_all add: nth_append)
  then show ?thesis by (simp add: flat_def [of "ns @ [n]"])
qed

lemma set_flat: "set (flat ns) = {(i, j). i < length ns \<and> j < ns ! i}"
  by (auto simp: flat_def)

lemma flat_index: "map (\<lambda>(i, j). offset ns i + j) (flat ns) = [0..<sum_list ns]"
proof (induction ns rule: rev_induct)
  case (snoc n ns)
  have "map (\<lambda>(i, j). offset (ns @ [n]) i + j) (flat ns) = map (\<lambda>(i, j). offset ns i + j) (flat ns)"
    by (rule map_cong) (auto simp: set_flat)
  moreover have "map (\<lambda>j. sum_list ns + j) [0..<n] = [sum_list ns..<sum_list ns + n]"
    using map_add_upt [of "sum_list ns" n] by (simp add: add.commute)
  ultimately show ?case using snoc by (simp add: flat_snoc comp_def upt_add_eq_append [symmetric])
qed (simp add: flat_def)

lemma repeat_interleave_flat: "repeat_interleave (map int [0..<length ns]) ns = map (\<lambda>(i, j). int i) (flat ns)"
proof -
  have "zip (map int [0..<length ns]) ns = map (\<lambda>i. (int i, ns ! i)) [0..<length ns]"
    by (rule nth_equalityI) simp_all
  then show ?thesis
    by (simp add: repeat_interleave_def flat_def map_concat comp_def map_replicate_const)
qed

lemma offset_bound: "i < length ns \<Longrightarrow> j < ns ! i \<Longrightarrow> offset ns i + j < sum_list ns"
proof -
  assume a: "i < length ns" "j < ns ! i"
  then have "(i, j) \<in> set (flat ns)" by (simp add: set_flat)
  then have "offset ns i + j \<in> set (map (\<lambda>(i, j). offset ns i + j) (flat ns))" by force
  then show ?thesis unfolding flat_index by simp
qed

lemma offset_Suc: "i < length ns \<Longrightarrow> offset ns (Suc i) = offset ns i + ns ! i"
  by (simp add: take_Suc_conv_app_nth)

lemma offset_le: "i < length ns \<Longrightarrow> offset ns i + ns ! i \<le> sum_list ns"
proof -
  assume "i < length ns"
  then have "offset ns i + ns ! i = offset ns (Suc i)" by (simp add: offset_Suc)
  also have "\<dots> \<le> sum_list (take (Suc i) ns) + sum_list (drop (Suc i) ns)" by simp
  also have "\<dots> = sum_list ns" by (metis append_take_drop_id sum_list_append)
  finally show ?thesis .
qed

lemma length_seg: "i < length ns \<Longrightarrow> length xs = sum_list ns \<Longrightarrow> length (seg ns i xs) = ns ! i"
  using offset_le [of i ns] by (simp add: seg_def)

lemma nth_seg: "i < length ns \<Longrightarrow> length xs = sum_list ns \<Longrightarrow> j < ns ! i \<Longrightarrow> seg ns i xs ! j = xs ! (offset ns i + j)"
  using offset_le [of i ns] by (simp add: seg_def)

lemma map_flat: "length xs = sum_list ns \<Longrightarrow> xs = map (\<lambda>(i, j). xs ! (offset ns i + j)) (flat ns)"
proof -
  assume "length xs = sum_list ns"
  then have "xs = map ((!) xs) (map (\<lambda>(i, j). offset ns i + j) (flat ns))" unfolding flat_index by (metis map_nth)
  then show ?thesis by (simp add: comp_def case_prod_unfold)
qed

text \<open>\<^verbatim>\<open>cu_num_draft_tokens\<close>: the cumulative numbers of draft tokens.\<close>

definition cumulative :: "nat list \<Rightarrow> nat list" where
  "cumulative ns = map (\<lambda>i. offset ns (Suc i)) [0..<length ns]"

lemma cumulative_start: "map2 (\<lambda>c n. int c - int n) (cumulative ns) ns = map (\<lambda>i. int (offset ns i)) [0..<length ns]"
  by (rule nth_equalityI) (simp_all add: cumulative_def offset_Suc)

lemma length_cumulative [simp]: "length (cumulative ns) = length ns"
  by (simp add: cumulative_def)

subsection \<open>The first mismatch\<close>

definition matches :: "nat list \<Rightarrow> int list \<Rightarrow> int list \<Rightarrow> nat \<Rightarrow> nat" where
  "matches ns draft target i = num_accepted (\<lambda>(d, t). d = t) (zip (seg ns i draft) (seg ns i target))"

lemma Min_first:
  fixes P :: "nat \<Rightarrow> bool"
  assumes "0 < M" "n \<le> M" "k \<le> n" "\<And>j. j < k \<Longrightarrow> \<not> P j" "k < n \<Longrightarrow> P k"
  shows "(if Min (set (map (\<lambda>j. if j < n \<and> P j then int j else int M * 2) [0..<M])) = int M * 2 then int n
          else Min (set (map (\<lambda>j. if j < n \<and> P j then int j else int M * 2) [0..<M]))) = int k"
proof (cases "k < n")
  case True
  have "Min (set (map (\<lambda>j. if j < n \<and> P j then int j else int M * 2) [0..<M])) = int k"
  proof (rule Min_eqI)
    show "int k \<in> set (map (\<lambda>j. if j < n \<and> P j then int j else int M * 2) [0..<M])"
      using True assms(2,5) by (force intro!: image_eqI [of _ _ k])
    fix y assume "y \<in> set (map (\<lambda>j. if j < n \<and> P j then int j else int M * 2) [0..<M])"
    then obtain j where "j < M" "y = (if j < n \<and> P j then int j else int M * 2)" by auto
    then show "int k \<le> y" using assms(2) assms(4) [of j] True by (auto simp: not_less [symmetric])
  qed simp
  then show ?thesis using True assms(2) by simp
next
  case False
  then have "set (map (\<lambda>j. if j < n \<and> P j then int j else int M * 2) [0..<M]) = {int M * 2}"
    using assms(1,3,4) by auto
  then show ?thesis using False assms(3) by simp
qed

lemma matches_spec:
  assumes "i < length ns" "length draft = sum_list ns" "length target = sum_list ns"
  shows "matches ns draft target i \<le> ns ! i"
    and "j < matches ns draft target i \<Longrightarrow> draft ! (offset ns i + j) = target ! (offset ns i + j)"
    and "matches ns draft target i < ns ! i \<Longrightarrow>
      draft ! (offset ns i + matches ns draft target i) \<noteq> target ! (offset ns i + matches ns draft target i)"
proof -
  let ?zs = "zip (seg ns i draft) (seg ns i target)"
  have len: "length ?zs = ns ! i" using assms by (simp add: length_seg)
  show le: "matches ns draft target i \<le> ns ! i" unfolding matches_def using num_accepted_le [of "\<lambda>(d, t). d = t" ?zs] len by metis
  have nth: "?zs ! j = (draft ! (offset ns i + j), target ! (offset ns i + j))" if "j < ns ! i" for j
    using assms that by (simp add: length_seg nth_seg)
  show "draft ! (offset ns i + j) = target ! (offset ns i + j)" if "j < matches ns draft target i"
    using nth_mem [of j "takeWhile (\<lambda>(d, t). d = t) ?zs"] that le nth [of j] takeWhile_nth [of j _ ?zs] set_takeWhileD
    unfolding matches_def by (metis (mono_tags, lifting) case_prod_conv le matches_def order.strict_trans2)
  show "draft ! (offset ns i + matches ns draft target i) \<noteq> target ! (offset ns i + matches ns draft target i)"
    if "matches ns draft target i < ns ! i"
  proof -
    have "\<not> (\<lambda>(d, t). d = t) (?zs ! matches ns draft target i)"
      unfolding matches_def by (rule nth_length_takeWhile) (metis that len matches_def)
    then show ?thesis using nth [OF that] by simp
  qed
qed

lemma first_mismatch_correct:
  assumes "length draft = sum_list ns" "length target = sum_list ns" "\<And>i. i < length ns \<Longrightarrow> ns ! i \<le> M"
  shows "first_mismatch_pos_per_req draft target ns (map (\<lambda>i. int (offset ns i)) [0..<length ns]) (length ns) M =
    Inr (map (\<lambda>i. int (matches ns draft target i)) [0..<length ns])"
proof -
  let ?F = "flat ns" and ?st = "map (\<lambda>i. int (offset ns i)) [0..<length ns]"
  let ?P = "\<lambda>i j. draft ! (offset ns i + j) \<noteq> target ! (offset ns i + j)"
  have starts: "res_map (list_item ?st) (map (\<lambda>(i, j). int i) ?F) = Inr (map (\<lambda>(i, j). int (offset ns i)) ?F)"
    by (simp add: res_map_eq_Inr list_all2_map1 list_all2_map2 list_all2_same set_flat case_prod_unfold)
  have idx: "map int [0..<length draft] = map (\<lambda>(i, j). int (offset ns i + j)) ?F"
    using arg_cong [OF flat_index [of ns], of "map int"] assms(1) by (simp add: comp_def case_prod_unfold)
  have pos: "bcast RuntimeError (-) (map int [0..<length draft]) (map (\<lambda>(i, j). int (offset ns i)) ?F) = Inr (map (\<lambda>(i, j). int j) ?F)"
    unfolding idx by (simp add: case_prod_unfold)
  have mis: "bcast RuntimeError (\<noteq>) draft target = Inr (map (\<lambda>(i, j). ?P i j) ?F)"
    by (subst (1) map_flat [OF assms(1)], subst (1) map_flat [OF assms(2)]) (simp add: case_prod_unfold)
  have range: "i < length ns \<and> j < M" if "(i, j) \<in> set ?F" for i j
    using that assms(3) by (auto simp: set_flat intro: order.strict_trans2)
  note put1 = index_put_map [OF range, where f = "\<lambda>i j. (- 1 :: int)" and g = "\<lambda>i j. int j"]
  note put2 = index_put_map [OF range, where f = "\<lambda>i j. False" and g = ?P]
  show ?thesis
  proof (cases "M = 0")
    case True
    then have "matches ns draft target i = 0" if "i < length ns" for i
      using matches_spec(1) [OF that assms(1,2)] assms(3) [OF that] by simp
    then have "replicate (length ns) 0 = map (\<lambda>i. int (matches ns draft target i)) [0..<length ns]"
      by (intro nth_equalityI) simp_all
    then show ?thesis
      using True by (simp add: first_mismatch_pos_per_req_def repeat_interleave_flat starts pos mis Let_def)
  next
    case False
    define MM where "MM = mat (length ns) M (\<lambda>i j. if (i, j) \<in> set ?F then ?P i j else False)"
    define PM where "PM = mat (length ns) M (\<lambda>i j. if (i, j) \<in> set ?F then int j else - 1)"
    have rows: "map2 (map2 (\<lambda>b p. if b then p else int M * 2)) MM PM =
        mat (length ns) M (\<lambda>i j. if j < ns ! i \<and> ?P i j then int j else int M * 2)"
      unfolding MM_def PM_def map2_mat by (rule mat_cong) (simp add: set_flat)
    have "first_mismatch_pos_per_req draft target ns ?st (length ns) M =
        Inr (map2 (\<lambda>f n. if f = int M * 2 then int n else f)
          (map (\<lambda>row. Min (set row)) (mat (length ns) M (\<lambda>i j. if j < ns ! i \<and> ?P i j then int j else int M * 2))) ns)"
      using False put1 put2
      by (simp add: first_mismatch_pos_per_req_def repeat_interleave_flat starts pos mis mat_replicate
          MM_def [symmetric] PM_def [symmetric] rows Let_def del: map_map)
    also have "\<dots> = Inr (map (\<lambda>i. int (matches ns draft target i)) [0..<length ns])"
    proof -
      have "(if Min (set (map (\<lambda>j. if j < ns ! i \<and> ?P i j then int j else int M * 2) [0..<M])) = int M * 2 then int (ns ! i)
          else Min (set (map (\<lambda>j. if j < ns ! i \<and> ?P i j then int j else int M * 2) [0..<M]))) = int (matches ns draft target i)"
        if "i < length ns" for i
        using False assms(3) [OF that] matches_spec [OF that assms(1,2)] by (intro Min_first) auto
      then show ?thesis by (simp only: sum.inject) (rule nth_equalityI, simp_all only: length_map length_zip length_mat min.idem length_upt nth_map nth_zip nth_mat nth_upt minus_nat.diff_0 diff_zero add_0 case_prod_conv)
    qed
    finally show ?thesis .
  qed
qed

subsection \<open>The output of greedy requests\<close>

lemma map2_upt: "map2 h (map a [0..<length ns]) ns = map (\<lambda>i. h (a i) (ns ! i)) [0..<length ns]"
  by (rule nth_equalityI) simp_all

lemma zip_upt: "length ys = n \<Longrightarrow> zip ys (map a [0..<n]) = map (\<lambda>i. (ys ! i, a i)) [0..<n]"
  by (rule nth_equalityI) simp_all

lemma res_map_map: "(\<And>x. x \<in> set xs \<Longrightarrow> f (g x) = Inr (h x)) \<Longrightarrow> res_map f (map g xs) = Inr (map h xs)"
  by (induction xs) auto

text \<open>A loop that writes one entry of each row.\<close>

lemma fold_rows:
  assumes "\<And>i. i < m \<Longrightarrow> P i \<Longrightarrow> c i < n" "m \<le> r"
  shows "res_foldl (\<lambda>out i. if P i then mat_set out (int i) (int (c i)) (v i) else Inr out) (mat r n f) [0..<m] =
    Inr (mat r n (\<lambda>i j. if i < m \<and> P i \<and> j = c i then v i else f i j))"
  using assms
proof (induction m)
  case (Suc m)
  let ?f = "\<lambda>i j. if i < m \<and> P i \<and> j = c i then v i else f i j"
  have ih: "res_foldl (\<lambda>out i. if P i then mat_set out (int i) (int (c i)) (v i) else Inr out) (mat r n f) [0..<m] = Inr (mat r n ?f)"
    using Suc by simp
  have "(if P m then mat_set (mat r n ?f) (int m) (int (c m)) (v m) else Inr (mat r n ?f)) =
      Inr (mat r n (\<lambda>i j. if i < Suc m \<and> P i \<and> j = c i then v i else f i j))"
  proof (cases "P m")
    case True
    then have "mat_set (mat r n ?f) (int m) (int (c m)) (v m) = Inr (mat r n (?f(m := (?f m)(c m := v m))))"
      using Suc.prems by (intro mat_set_mat) auto
    also have "mat r n (?f(m := (?f m)(c m := v m))) = mat r n (\<lambda>i j. if i < Suc m \<and> P i \<and> j = c i then v i else f i j)"
      using True by (intro mat_cong) (auto simp: less_Suc_eq)
    finally show ?thesis using True by simp
  next
    case False
    then show ?thesis by (simp, intro mat_cong) (auto simp: less_Suc_eq)
  qed
  then show ?case using ih by (simp add: res_foldl_append)
qed simp

lemma res_foldl_cong: "(\<And>s x. x \<in> set xs \<Longrightarrow> f s x = g s x) \<Longrightarrow> res_foldl f s xs = res_foldl g s xs"
  by (induction xs arbitrary: s) (auto intro!: res_bind_cong)

lemma rejection_greedy_mat:
  assumes "length draft = sum_list ns" "length target = sum_list ns" "\<And>i. i < length ns \<Longrightarrow> ns ! i \<le> M"
    and "length bonus = length ns" "g = (case is_greedy of None \<Rightarrow> replicate (length ns) True | Some g \<Rightarrow> g)" "length g = length ns"
  shows "rejection_greedy_sample_pytorch (mat (length ns) (Suc M) f) (cumulative ns) draft target bonus ns M is_greedy =
    Inr (mat (length ns) (Suc M) (\<lambda>i j.
      if g ! i then
        if j = ns ! i \<and> matches ns draft target i = ns ! i then bonus ! i
        else if j \<le> matches ns draft target i \<and> j < ns ! i then target ! (offset ns i + j) else f i j
      else f i j))"
proof -
  let ?n = "length ns" and ?k = "matches ns draft target"
  have start: "bcast RuntimeError (\<lambda>c n. int c - int n) (cumulative ns) ns = Inr (map (\<lambda>i. int (offset ns i)) [0..<?n])"
    by (simp add: bcast_def cumulative_start)
  let ?copy = "\<lambda>i. min (int (?k i) + 1) (int (ns ! i))"
  let ?f1 = "\<lambda>i j. if int j < ?copy i \<and> g ! i then target ! (offset ns i + j) else f i j"
  have rows: "zip (mat ?n (Suc M) f) (zip g (zip (map ?copy [0..<?n]) (map (\<lambda>i. int (offset ns i)) [0..<?n]))) =
      map (\<lambda>i. (map (f i) [0..<Suc M], g ! i, ?copy i, int (offset ns i))) [0..<?n]"
    using assms(6) by (simp add: zip_map_same zip_upt mat_def del: upt_Suc)
  have elem: "(if int j < ?copy i \<and> g ! i then list_item target (int (offset ns i) + int j) else Inr (f i j)) = Inr (?f1 i j)"
    if "i < ?n" for i j
    using offset_bound [OF that, of j] assms(2) by (auto simp: list_item_def nat_add_distrib)
  have copied: "res_map (\<lambda>(row, g, len, start).
        res_map (\<lambda>(x, j). if int j < len \<and> g then list_item target (start + int j) else Inr x) (zip row [0..<Suc M]))
      (zip (mat ?n (Suc M) f) (zip g (zip (map ?copy [0..<?n]) (map (\<lambda>i. int (offset ns i)) [0..<?n])))) = Inr (mat ?n (Suc M) ?f1)"
    unfolding rows unfolding mat_def
  proof (rule res_map_map)
    fix i assume "i \<in> set [0..<?n]"
    then have i: "i < ?n" by simp
    have z: "zip (map (f i) [0..<Suc M]) [0..<Suc M] = map (\<lambda>j. (f i j, j)) [0..<Suc M]"
      using zip_map_same [of "f i" "[0..<Suc M]" "\<lambda>j. j"] by (simp del: upt_Suc)
    show "(case (map (f i) [0..<Suc M], g ! i, ?copy i, int (offset ns i)) of (row, g, len, start) \<Rightarrow>
        res_map (\<lambda>(x, j). if int j < len \<and> g then list_item target (start + int j) else Inr x) (zip row [0..<Suc M])) =
        Inr (map (?f1 i) [0..<Suc M])"
      unfolding case_prod_conv z by (rule res_map_map) (simp only: case_prod_conv elem [OF i])
  qed
  let ?P = "\<lambda>i. g ! i \<and> ns ! i \<le> ?k i"
  have needs: "map2 (\<lambda>g (f, n). g \<and> int n \<le> f) g (zip (map (\<lambda>i. int (?k i)) [0..<?n]) ns) = map ?P [0..<?n]"
    using assms(6) by (intro nth_equalityI) simp_all
  have "res_foldl (\<lambda>out i. if map ?P [0..<?n] ! i then res_bind (list_item bonus (int i)) (\<lambda>b. mat_set out (int i) (int (ns ! i)) b) else Inr out)
      (mat ?n (Suc M) ?f1) [0..<?n] =
      res_foldl (\<lambda>out i. if ?P i then mat_set out (int i) (int (ns ! i)) (bonus ! i) else Inr out) (mat ?n (Suc M) ?f1) [0..<?n]"
    using assms(4) by (intro res_foldl_cong) simp
  also have "\<dots> = Inr (mat ?n (Suc M) (\<lambda>i j. if i < ?n \<and> ?P i \<and> j = ns ! i then bonus ! i else ?f1 i j))"
    using assms(3) by (intro fold_rows) (auto simp: less_Suc_eq_le)
  finally have bonus: "res_foldl (\<lambda>out i. if map ?P [0..<?n] ! i then res_bind (list_item bonus (int i)) (\<lambda>b. mat_set out (int i) (int (ns ! i)) b) else Inr out)
      (mat ?n (Suc M) ?f1) [0..<?n] = Inr (mat ?n (Suc M) (\<lambda>i j. if i < ?n \<and> ?P i \<and> j = ns ! i then bonus ! i else ?f1 i j))" .
  have "rejection_greedy_sample_pytorch (mat ?n (Suc M) f) (cumulative ns) draft target bonus ns M is_greedy =
      Inr (mat ?n (Suc M) (\<lambda>i j. if i < ?n \<and> ?P i \<and> j = ns ! i then bonus ! i else ?f1 i j))"
    unfolding rejection_greedy_sample_pytorch_def Let_def length_mat assms(5) [symmetric] start res_bind_Inr
      first_mismatch_correct [OF assms(1-3), simplified] map2_upt copied needs bonus
    using assms(6) by simp
  also have "mat ?n (Suc M) (\<lambda>i j. if i < ?n \<and> ?P i \<and> j = ns ! i then bonus ! i else ?f1 i j) =
      mat ?n (Suc M) (\<lambda>i j. if g ! i then
        if j = ns ! i \<and> ?k i = ns ! i then bonus ! i else if j \<le> ?k i \<and> j < ns ! i then target ! (offset ns i + j) else f i j
      else f i j)"
    using matches_spec(1) [OF _ assms(1,2)] by (intro mat_cong) (auto simp: le_antisym)
  finally show ?thesis .
qed

text \<open>The tokens of request \<open>i\<close>: its part of the flat positions, verified in order.\<close>

definition step_tokens ::
  "nat list \<Rightarrow> (nat \<Rightarrow> bool) \<Rightarrow> (nat \<Rightarrow> int) \<Rightarrow> (nat \<Rightarrow> int) \<Rightarrow> int list \<Rightarrow> nat \<Rightarrow> int list" where
  "step_tokens ns acc tok rej bonus i = verify acc tok rej [offset ns i..<offset ns i + ns ! i] (bonus ! i)"

abbreviation num_acc :: "nat list \<Rightarrow> (nat \<Rightarrow> bool) \<Rightarrow> nat \<Rightarrow> nat" where
  "num_acc ns acc i \<equiv> num_accepted acc [offset ns i..<offset ns i + ns ! i]"

lemma num_acc_le: "num_acc ns acc i \<le> ns ! i"
  using num_accepted_le [of acc "[offset ns i..<offset ns i + ns ! i]"] by simp

lemma pad_step_tokens:
  assumes "ns ! i \<le> M"
  shows "pad (Suc M) (step_tokens ns acc tok rej bonus i) =
    map (\<lambda>j. if j < num_acc ns acc i then tok (offset ns i + j)
             else if j = num_acc ns acc i then (if j < ns ! i then rej (offset ns i + j) else bonus ! i)
             else PLACEHOLDER_TOKEN_ID) [0..<Suc M]"
proof (rule nth_equalityI)
  have le: "length (step_tokens ns acc tok rej bonus i) \<le> Suc M"
    using num_acc_le [where ns = ns and acc = acc and i = i] assms by (simp add: step_tokens_def length_verify)
  then show "length (pad (Suc M) (step_tokens ns acc tok rej bonus i)) = length (map (\<lambda>j. if j < num_acc ns acc i then tok (offset ns i + j)
             else if j = num_acc ns acc i then (if j < ns ! i then rej (offset ns i + j) else bonus ! i)
             else PLACEHOLDER_TOKEN_ID) [0..<Suc M])" by simp
  fix j assume "j < length (pad (Suc M) (step_tokens ns acc tok rej bonus i))"
  then have "j < Suc M" using le by simp
  then show "pad (Suc M) (step_tokens ns acc tok rej bonus i) ! j = map (\<lambda>j. if j < num_acc ns acc i then tok (offset ns i + j)
             else if j = num_acc ns acc i then (if j < ns ! i then rej (offset ns i + j) else bonus ! i)
             else PLACEHOLDER_TOKEN_ID) [0..<Suc M] ! j"
    using le num_acc_le [where ns = ns and acc = acc and i = i] by (auto simp: nth_pad step_tokens_def length_verify nth_verify simp del: upt_Suc)
qed

lemma seg_upt: "i < length ns \<Longrightarrow> length xs = sum_list ns \<Longrightarrow> seg ns i xs = map ((!) xs) [offset ns i..<offset ns i + ns ! i]"
  by (rule nth_equalityI) (simp_all add: length_seg nth_seg)

lemma matches_num_acc:
  assumes "i < length ns" "length draft = sum_list ns" "length target = sum_list ns"
  shows "matches ns draft target i = num_acc ns (\<lambda>k. draft ! k = target ! k) i"
  using assms by (simp add: matches_def seg_upt zip_map_same takeWhile_map comp_def)

definition greedy_row :: "nat list \<Rightarrow> int list \<Rightarrow> int list \<Rightarrow> int list \<Rightarrow> nat \<Rightarrow> int list" where
  "greedy_row ns draft target bonus i = step_tokens ns (\<lambda>k. draft ! k = target ! k) ((!) target) ((!) target) bonus i"

lemma rejection_greedy_rows:
  assumes "length draft = sum_list ns" "length target = sum_list ns" "\<And>i. i < length ns \<Longrightarrow> ns ! i \<le> M"
    and "length bonus = length ns" "g = (case is_greedy of None \<Rightarrow> replicate (length ns) True | Some g \<Rightarrow> g)" "length g = length ns"
  shows "rejection_greedy_sample_pytorch (replicate (length ns) (replicate (Suc M) PLACEHOLDER_TOKEN_ID)) (cumulative ns)
      draft target bonus ns M is_greedy =
    Inr (map (\<lambda>i. if g ! i then pad (Suc M) (greedy_row ns draft target bonus i) else replicate (Suc M) PLACEHOLDER_TOKEN_ID)
      [0..<length ns])"
proof -
  let ?k = "matches ns draft target"
  have "map (\<lambda>j. if g ! i then
        if j = ns ! i \<and> ?k i = ns ! i then bonus ! i
        else if j \<le> ?k i \<and> j < ns ! i then target ! (offset ns i + j) else PLACEHOLDER_TOKEN_ID
      else PLACEHOLDER_TOKEN_ID) [0..<Suc M] =
    (if g ! i then pad (Suc M) (greedy_row ns draft target bonus i) else replicate (Suc M) PLACEHOLDER_TOKEN_ID)"
    if i: "i < length ns" for i
  proof -
    have "?k i \<le> ns ! i" using matches_spec(1) [OF i assms(1,2)] .
    then show ?thesis
      unfolding greedy_row_def pad_step_tokens [OF assms(3) [OF i]] matches_num_acc [OF i assms(1,2), symmetric]
      by (auto simp: map_replicate_const simp del: upt_Suc replicate_Suc)
  qed
  then show ?thesis
    using rejection_greedy_mat [OF assms, where f = "\<lambda>_ _. PLACEHOLDER_TOKEN_ID"]
    unfolding mat_replicate by (simp add: mat_def del: upt_Suc replicate_Suc)
qed

subsection \<open>One draft token per request\<close>

lemma greedy_len1_rows:
  assumes "ns = replicate n 1" "length draft = n" "length target = n" "length bonus = n" "1 \<le> M"
  shows "rejection_greedy_sample_spec_len_1_pytorch (replicate n (replicate (Suc M) PLACEHOLDER_TOKEN_ID)) draft target bonus =
    Inr (map (\<lambda>i. pad (Suc M) (greedy_row ns draft target bonus i)) [0..<n])"
proof -
  let ?row = "replicate (Suc M) PLACEHOLDER_TOKEN_ID"
  have one: "res_map (\<lambda>(row, t). list_set row 0 t) (zip (replicate n ?row) target) = Inr (map (\<lambda>i. ?row[0 := target ! i]) [0..<n])"
  proof -
    have z: "zip (replicate n ?row) target = map (\<lambda>i. (?row, target ! i)) [0..<n]"
      using assms(3) by (intro nth_equalityI) simp_all
    show ?thesis unfolding z by (rule res_map_map) (use list_set_nat [of 0 ?row] in simp)
  qed
  have two: "res_map (\<lambda>(row, acc, b). if acc then list_set row 1 b else Inr row)
      (zip (map (\<lambda>i. ?row[0 := target ! i]) [0..<n]) (zip (map2 (=) draft target) bonus)) =
      Inr (map (\<lambda>i. if draft ! i = target ! i then (?row[0 := target ! i])[1 := bonus ! i] else ?row[0 := target ! i]) [0..<n])"
  proof -
    have z: "zip (map (\<lambda>i. ?row[0 := target ! i]) [0..<n]) (zip (map2 (=) draft target) bonus) =
        map (\<lambda>i. (?row[0 := target ! i], draft ! i = target ! i, bonus ! i)) [0..<n]"
      using assms(2-4) by (intro nth_equalityI) simp_all
    show ?thesis unfolding z by (rule res_map_map) (use list_set_nat [of 1 "?row[0 := target ! _]"] assms(5) in simp)
  qed
  have row: "(if draft ! i = target ! i then (?row[0 := target ! i])[1 := bonus ! i] else ?row[0 := target ! i]) =
      pad (Suc M) (greedy_row ns draft target bonus i)" if "i < n" for i
  proof -
    have "offset ns i = i" "ns ! i = 1" using that assms(1) by (simp_all add: take_replicate sum_list_replicate)
    moreover obtain m where "M = Suc m" using assms(5) by (cases M) auto
    ultimately show ?thesis by (simp add: greedy_row_def step_tokens_def pad_def)
  qed
  show ?thesis
    unfolding rejection_greedy_sample_spec_len_1_pytorch_def
    using assms(2-4) one two row by (simp add: bcast_def expand_to_def del: replicate_Suc)
qed

end
