(* ===== verification/Rejection_Random.thy ===== *)
theory Rejection_Random
  imports Rejection_Greedy
begin

section \<open>Random requests and recovered tokens\<close>

text \<open>
  The loops over requests and positions as functions of the flat positions: the request that owns a
  position (\<open>owner\<close>), the recovered token of a position (\<open>recovered_at\<close>), whether the draft token at a
  position is accepted (\<open>accepted_at\<close>), and the lemmas that lead from the loops to them.
\<close>

subsection \<open>The owner of a flat position\<close>

definition owner :: "nat list \<Rightarrow> nat \<Rightarrow> nat" where
  "owner ns k = length (takeWhile (\<lambda>c. c \<le> k) (cumulative ns))"

lemma offset_mono: "i \<le> i' \<Longrightarrow> offset ns i \<le> offset ns i'"
proof (induction i' rule: dec_induct)
  case (step n)
  then show ?case by (cases "n < length ns") (simp_all add: offset_Suc)
qed simp

lemma owner_offset:
  assumes "i < length ns" "offset ns i \<le> k" "k < offset ns i + ns ! i"
  shows "owner ns k = i"
proof -
  have "takeWhile (\<lambda>c. c \<le> k) (cumulative ns) = take i (cumulative ns)"
  proof (rule takeWhile_eq_take_P_nth)
    fix l assume l: "l < i" "l < length (cumulative ns)"
    then have "offset ns (Suc l) \<le> offset ns i" using offset_mono [of "Suc l" i ns] by simp
    then show "cumulative ns ! l \<le> k" using l assms(2) by (simp add: cumulative_def)
  qed (use assms in \<open>simp add: cumulative_def offset_Suc\<close>)
  then show ?thesis using assms(1) by (simp add: owner_def)
qed

lemma owner_bounds:
  assumes "k < sum_list ns"
  shows "owner ns k < length ns" "offset ns (owner ns k) \<le> k" "k < offset ns (owner ns k) + ns ! owner ns k"
proof -
  have "k \<in> set (map (\<lambda>(i, j). offset ns i + j) (flat ns))" using assms by (simp add: flat_index)
  then obtain i j where "i < length ns" "j < ns ! i" "k = offset ns i + j" by (auto simp: set_flat)
  then show "owner ns k < length ns" "offset ns (owner ns k) \<le> k" "k < offset ns (owner ns k) + ns ! owner ns k"
    using owner_offset [of i ns k] by simp_all
qed

lemma start_of_cumulative: "i < length ns \<Longrightarrow> start_of (map int (cumulative ns)) i = Inr (int (offset ns i))"
  by (cases i) (simp_all add: start_of_def cumulative_def)

lemma end_of_cumulative: "i < length ns \<Longrightarrow> list_item (map int (cumulative ns)) (int i) = Inr (int (offset ns i + ns ! i))"
  by (simp add: cumulative_def offset_Suc)

subsection \<open>Loops that fill a flat tensor\<close>

lemma update_map_upt: "(map h [0..<N])[k := v] = map (h(k := v)) [0..<N]"
  by (rule nth_equalityI) (auto simp: nth_list_update)

lemma list_set_map: "k < N \<Longrightarrow> list_set (map h [0..<N]) (int k) v = Inr (map (h(k := v)) [0..<N])"
  by (simp add: update_map_upt)

text \<open>
  A loop over the positions of one request, and one over all requests; \<open>w\<close> adds to the tensor what
  the steps carry along.
\<close>

lemma fold_positions:
  assumes "\<And>h j. j < n \<Longrightarrow> step (w (map h [0..<N])) j = Inr (w (map (h(s + j := v (s + j))) [0..<N]))"
  shows "res_foldl step (w (map h [0..<N])) [0..<n] = Inr (w (map (\<lambda>k. if s \<le> k \<and> k < s + n then v k else h k) [0..<N]))"
  using assms
proof (induction n)
  case 0
  have "(\<lambda>k. if s \<le> k \<and> k < s + 0 then v k else h k) = h" by (auto simp: fun_eq_iff)
  then show ?case by simp
next
  case (Suc n)
  have "(\<lambda>k. if s \<le> k \<and> k < s + n then v k else h k)(s + n := v (s + n)) = (\<lambda>k. if s \<le> k \<and> k < s + Suc n then v k else h k)"
    by auto
  moreover have "step (w (map (\<lambda>k. if s \<le> k \<and> k < s + n then v k else h k) [0..<N])) n =
      Inr (w (map ((\<lambda>k. if s \<le> k \<and> k < s + n then v k else h k)(s + n := v (s + n))) [0..<N]))"
    by (rule Suc.prems) simp
  moreover have "res_foldl step (w (map h [0..<N])) [0..<n] = Inr (w (map (\<lambda>k. if s \<le> k \<and> k < s + n then v k else h k) [0..<N]))"
    by (rule Suc.IH, rule Suc.prems) simp
  ultimately show ?case by (simp add: res_foldl_append del: fun_upd_apply)
qed

lemma fold_requests:
  assumes "\<And>h i. i < length ns \<Longrightarrow> step (w (map h [0..<N])) i =
      Inr (w (map (\<lambda>k. if offset ns i \<le> k \<and> k < offset ns i + ns ! i then v i k else h k) [0..<N]))"
    and "m \<le> length ns"
  shows "res_foldl step (w (map h [0..<N])) [0..<m] = Inr (w (map (\<lambda>k. if k < offset ns m then v (owner ns k) k else h k) [0..<N]))"
  using assms(2)
proof (induction m)
  case (Suc m)
  have "(\<lambda>k. if offset ns m \<le> k \<and> k < offset ns m + ns ! m then v m k else if k < offset ns m then v (owner ns k) k else h k) =
      (\<lambda>k. if k < offset ns (Suc m) then v (owner ns k) k else h k)"
    using Suc.prems owner_offset [of m ns] by (auto simp: fun_eq_iff offset_Suc)
  then show ?case using Suc assms(1) [of m] by (simp add: res_foldl_append)
qed simp

lemma fold_all_requests:
  assumes "\<And>h i. i < length ns \<Longrightarrow> step (w (map h [0..<sum_list ns])) i =
      Inr (w (map (\<lambda>k. if offset ns i \<le> k \<and> k < offset ns i + ns ! i then v i k else h k) [0..<sum_list ns]))"
  shows "res_foldl step (w (map h [0..<sum_list ns])) [0..<length ns] = Inr (w (map (\<lambda>k. v (owner ns k) k) [0..<sum_list ns]))"
proof -
  have "map (\<lambda>k. if k < offset ns (length ns) then v (owner ns k) k else h k) [0..<sum_list ns] = map (\<lambda>k. v (owner ns k) k) [0..<sum_list ns]"
    by (rule map_cong) simp_all
  moreover have "res_foldl step (w (map h [0..<sum_list ns])) [0..<length ns] =
      Inr (w (map (\<lambda>k. if k < offset ns (length ns) then v (owner ns k) k else h k) [0..<sum_list ns]))"
    by (rule fold_requests [where v = v]) (simp_all add: assms)
  ultimately show ?thesis by (simp only:)
qed

subsection \<open>Recovered tokens\<close>

definition first_max :: "rat list \<Rightarrow> nat" where
  "first_max xs = length (takeWhile (\<lambda>x. x \<noteq> Max (set xs)) xs)"

lemma argmax_first_max: "xs \<noteq> [] \<Longrightarrow> argmax xs = Inr (int (first_max xs))"
  by (simp add: argmax_def first_max_def)

lemma first_max_props:
  assumes "xs \<noteq> []"
  shows "first_max xs < length xs" "xs ! first_max xs = Max (set xs)" "\<And>j. j < length xs \<Longrightarrow> xs ! j \<le> xs ! first_max xs"
proof -
  have "\<exists>x \<in> set xs. \<not> x \<noteq> Max (set xs)" using assms by auto
  then have "takeWhile (\<lambda>x. x \<noteq> Max (set xs)) xs \<noteq> xs" by (simp add: takeWhile_eq_all_conv)
  then show lt: "first_max xs < length xs"
    unfolding first_max_def by (metis length_takeWhile_le nat_less_le takeWhile_eq_take take_all_iff)
  then show eq: "xs ! first_max xs = Max (set xs)" unfolding first_max_def using nth_length_takeWhile by fastforce
  show "xs ! j \<le> xs ! first_max xs" if "j < length xs" for j unfolding eq using that by simp
qed

text \<open>The distribution from which a position recovers, and the token it recovers.\<close>

definition recovery_probs :: "(rat \<Rightarrow> rat) \<Rightarrow> int list \<Rightarrow> rat list list option \<Rightarrow> rat list list \<Rightarrow> nat \<Rightarrow> rat list" where
  "recovery_probs rnd draft draft_probs target_probs k =
     (case draft_probs of
        None \<Rightarrow> (target_probs ! k)[nat (draft ! k) := 0]
      | Some dp \<Rightarrow> map2 (\<lambda>t d. max (rnd (t - d)) 0) (target_probs ! k) (dp ! k))"

definition recovered_at ::
  "(rat \<Rightarrow> rat) \<Rightarrow> int list \<Rightarrow> rat list list option \<Rightarrow> rat list list \<Rightarrow> rat list \<Rightarrow> nat \<Rightarrow> nat" where
  "recovered_at rnd draft draft_probs target_probs q_row k =
     first_max (map2 (\<lambda>p x. rnd (p / x)) (recovery_probs rnd draft draft_probs target_probs k) q_row)"

text \<open>The shapes of the tensors of a batch with \<open>V\<close> tokens in the vocabulary.\<close>

definition probs_shape :: "nat \<Rightarrow> nat \<Rightarrow> rat list list \<Rightarrow> bool" where
  "probs_shape N V m \<longleftrightarrow> length m = N \<and> (\<forall>row \<in> set m. length row = V)"

lemma probs_shape_nth: "probs_shape N V m \<Longrightarrow> k < N \<Longrightarrow> length (m ! k) = V"
  by (simp add: probs_shape_def)

definition batch_shape :: "nat list \<Rightarrow> nat \<Rightarrow> int list \<Rightarrow> rat list list option \<Rightarrow> rat list list \<Rightarrow> bool" where
  "batch_shape ns V draft draft_probs target_probs \<longleftrightarrow>
     length draft = sum_list ns \<and> (\<forall>d \<in> set draft. 0 \<le> d \<and> d < int V) \<and> probs_shape (sum_list ns) V target_probs \<and>
     (case draft_probs of None \<Rightarrow> True | Some dp \<Rightarrow> probs_shape (sum_list ns) V dp)"

lemma batch_shape_draft:
  assumes "batch_shape ns V draft draft_probs target_probs" "k < sum_list ns"
  shows "0 \<le> draft ! k" "draft ! k = int (nat (draft ! k))" "nat (draft ! k) < V" "0 < V"
  using assms nth_mem [of k draft] unfolding batch_shape_def by fastforce+

lemma length_recovery_probs:
  assumes "batch_shape ns V draft draft_probs target_probs" "k < sum_list ns"
  shows "length (recovery_probs rnd draft draft_probs target_probs k) = V"
  using assms by (auto simp: batch_shape_def recovery_probs_def probs_shape_nth split: option.splits)

lemma recover_position_correct:
  assumes "batch_shape ns V draft draft_probs target_probs" "probs_shape (length ns) V q"
    and "i < length ns" "j < ns ! i" "k = offset ns i + j"
  shows "recover_position rnd draft draft_probs q i (int (offset ns i)) (map h [0..<sum_list ns], target_probs) j =
    Inr (map (h(k := int (recovered_at rnd draft draft_probs target_probs (q ! i) k))) [0..<sum_list ns], target_probs)"
proof -
  have k: "k < sum_list ns" "int (offset ns i) + int j = int k" using offset_bound [OF assms(3,4)] assms(5) by simp_all
  note d = batch_shape_draft [OF assms(1) k(1)]
  have tp: "length target_probs = sum_list ns" "length (target_probs ! k) = V" "length draft = sum_list ns"
    using assms(1) k by (simp_all add: batch_shape_def probs_shape_def)
  have q: "list_item q (int i) = Inr (q ! i)" "length (q ! i) = V" using assms(2,3) by (simp_all add: probs_shape_def)
  let ?p = "recovery_probs rnd draft draft_probs target_probs k"
  let ?s = "map2 (\<lambda>p x. rnd (p / x)) ?p (q ! i)"
  have lp: "length ?p = V" by (rule length_recovery_probs [OF assms(1) k(1)])
  have sc: "bcast RuntimeError (\<lambda>p x. rnd (p / x)) ?p (q ! i) = Inr ?s" using lp q by (simp add: bcast_def)
  have am: "argmax ?s = Inr (int (recovered_at rnd draft draft_probs target_probs (q ! i) k))"
    using lp q d(4) by (subst argmax_first_max) (auto simp: recovered_at_def simp flip: length_0_conv)
  show ?thesis
  proof (cases draft_probs)
    case None
    obtain dn where dn: "draft ! k = int dn" "dn < V" using d(2,3) by blast
    have p: "?p = (target_probs ! k)[dn := 0]" using None dn(1) by (simp add: recovery_probs_def)
    have ld: "list_item draft (int k) = Inr (int dn)" using tp(3) k(1) dn(1) by simp
    moreover have "mat_item target_probs (int k) (int dn) = Inr (target_probs ! k ! dn)"
      using tp k(1) dn(2) by (simp add: mat_item_def)
    moreover have "mat_set target_probs (int k) (int dn) 0 = Inr (target_probs[k := ?p])"
      using tp k(1) dn(2) by (simp add: mat_set_def p)
    moreover have "mat_set (target_probs[k := ?p]) (int k) (int dn) (target_probs ! k ! dn) = Inr target_probs"
      using tp k(1) dn(2) by (simp add: mat_set_def p)
    ultimately show ?thesis
      using None k tp(1) sc am q(1) by (simp add: recover_position_def update_map_upt)
  next
    case (Some dp)
    then have "length dp = sum_list ns" "length (dp ! k) = V" using assms(1) k(1) by (simp_all add: batch_shape_def probs_shape_def)
    then show ?thesis
      using Some k tp sc am q(1) by (simp add: recover_position_def update_map_upt bcast_def recovery_probs_def)
  qed
qed

lemma sample_recovered_correct:
  assumes "batch_shape ns V draft draft_probs target_probs" "probs_shape (length ns) V q"
  shows "sample_recovered_tokens_pytorch rnd (map h [0..<sum_list ns]) (map int (cumulative ns)) draft draft_probs target_probs q =
    Inr (map (\<lambda>k. int (recovered_at rnd draft draft_probs target_probs (q ! owner ns k) k)) [0..<sum_list ns], target_probs)"
proof -
  have "recover_request rnd (map int (cumulative ns)) draft draft_probs q (map h [0..<sum_list ns], target_probs) i =
      Inr (map (\<lambda>k. if offset ns i \<le> k \<and> k < offset ns i + ns ! i then int (recovered_at rnd draft draft_probs target_probs (q ! i) k) else h k)
        [0..<sum_list ns], target_probs)" if i: "i < length ns" for h i
    unfolding recover_request_def start_of_cumulative [OF i] end_of_cumulative [OF i] res_bind_Inr
    using recover_position_correct [OF assms i]
    by (simp, intro fold_positions [where w = "\<lambda>l. (l, target_probs)"]) simp
  then show ?thesis unfolding sample_recovered_tokens_pytorch_def length_map length_cumulative
    by (rule fold_all_requests [where w = "\<lambda>l. (l, target_probs)" and v = "\<lambda>i k. int (recovered_at rnd draft draft_probs target_probs (q ! i) k)"])
qed

lemma exponential_rows_shape:
  assumes "set generators \<subseteq> {..<length ns}"
  shows "\<exists>q. exponential_rows fresh gen generators ns V = Inr q \<and> probs_shape (length ns) V q \<and>
    (\<forall>i < length ns. q ! i = map (if i \<in> set generators \<and> 0 < ns ! i then gen i else fresh i) [0..<V])"
proof -
  let ?step = "\<lambda>q i. res_bind (list_item ns (int i)) (\<lambda>n. if n > 0 then list_set q (int i) (map (gen i) [0..<V]) else Inr q)"
  have "res_foldl ?step (mat (length ns) V f) gs = Inr (mat (length ns) V (\<lambda>i. if i \<in> set gs \<and> 0 < ns ! i then gen i else f i))"
    if "set gs \<subseteq> {..<length ns}" for gs f
    using that
  proof (induction gs arbitrary: f)
    case (Cons g gs)
    let ?f = "if 0 < ns ! g then f(g := gen g) else f"
    have "?step (mat (length ns) V f) g = Inr (mat (length ns) V ?f)"
      using Cons.prems by (auto simp: intro!: mat_eqI simp: nth_list_update)
    moreover have "(\<lambda>i. if i \<in> set gs \<and> 0 < ns ! i then gen i else ?f i) = (\<lambda>i. if i \<in> set (g # gs) \<and> 0 < ns ! i then gen i else f i)"
      by (auto simp: fun_eq_iff)
    ultimately show ?case using Cons.IH [of ?f] Cons.prems by simp
  qed simp
  from this [OF assms, of fresh] show ?thesis
    unfolding exponential_rows_def mat_def [symmetric] by (auto simp: probs_shape_def mat_def)
qed

subsection \<open>Random requests\<close>

definition accepted_at :: "(rat \<Rightarrow> rat) \<Rightarrow> random_args \<Rightarrow> nat \<Rightarrow> bool" where
  "accepted_at rnd a k =
     (let d = nat (ra_draft_token_ids a ! k);
          p = (case ra_draft_probs a of None \<Rightarrow> 1 | Some dp \<Rightarrow> dp ! k ! d)
      in p > 0 \<and> rnd (ra_target_probs a ! k ! d / p) \<ge> ra_uniform_probs a ! k)"

definition args_shape :: "nat list \<Rightarrow> nat \<Rightarrow> random_args \<Rightarrow> bool" where
  "args_shape ns V a \<longleftrightarrow> batch_shape ns V (ra_draft_token_ids a) (ra_draft_probs a) (ra_target_probs a) \<and>
     length (ra_recovered_token_ids a) = sum_list ns \<and> length (ra_uniform_probs a) = sum_list ns"

lemma accepts_correct:
  assumes "args_shape ns V a" "k < sum_list ns"
  shows "accepts rnd (ra_draft_probs a) (ra_target_probs a) (ra_uniform_probs a) (int k) (ra_draft_token_ids a ! k) = Inr (accepted_at rnd a k)"
proof -
  have b: "batch_shape ns V (ra_draft_token_ids a) (ra_draft_probs a) (ra_target_probs a)" using assms(1) by (simp add: args_shape_def)
  note d = batch_shape_draft [OF b assms(2)]
  obtain dn where dn: "ra_draft_token_ids a ! k = int dn" "dn < V" using d(2,3) by blast
  have "mat_item (ra_target_probs a) (int k) (int dn) = Inr (ra_target_probs a ! k ! dn)"
    using b assms(2) dn(2) by (simp add: mat_item_def batch_shape_def probs_shape_def)
  moreover have "mat_item dp (int k) (int dn) = Inr (dp ! k ! dn)" if "ra_draft_probs a = Some dp" for dp
    using b assms(2) dn(2) that by (simp add: mat_item_def batch_shape_def probs_shape_def)
  moreover have "list_item (ra_uniform_probs a) (int k) = Inr (ra_uniform_probs a ! k)" using assms by (simp add: args_shape_def)
  ultimately show ?thesis by (simp add: accepts_def accepted_at_def dn(1) Let_def split: option.splits)
qed

lemma num_accepted_snoc:
  "num_accepted P (xs @ [x]) = (if num_accepted P xs = length xs then length xs + (if P x then 1 else 0) else num_accepted P xs)"
proof (cases "\<forall>x \<in> set xs. P x")
  case True
  then have "num_accepted P xs = length xs" by (metis takeWhile_eq_all_conv)
  then show ?thesis using True by (simp add: takeWhile_append)
next
  case False
  then have "takeWhile P xs \<noteq> xs" by (simp add: takeWhile_eq_all_conv)
  then have "num_accepted P xs \<noteq> length xs" by (metis takeWhile_eq_take take_all_iff order_refl)
  then show ?thesis using False by (auto simp: takeWhile_append)
qed

text \<open>The row of a request after its first \<open>n\<close> positions.\<close>

definition partial_row :: "(rat \<Rightarrow> rat) \<Rightarrow> random_args \<Rightarrow> nat \<Rightarrow> nat \<Rightarrow> (nat \<Rightarrow> int) \<Rightarrow> nat \<Rightarrow> int" where
  "partial_row rnd a s n f j =
     (let A = num_accepted (accepted_at rnd a) [s..<s + n] in
      if j < A then ra_draft_token_ids a ! (s + j) else if j = A \<and> j < n then ra_recovered_token_ids a ! (s + j) else f j)"

lemma random_positions:
  assumes "args_shape ns V a" "i < length ns" "i < m" "n \<le> ns ! i" "ns ! i < N"
  shows "res_foldl (random_position rnd a i (int (offset ns i))) (False, mat m N f) [0..<n] =
    Inr (num_accepted (accepted_at rnd a) [offset ns i..<offset ns i + n] < n,
         mat m N (f(i := partial_row rnd a (offset ns i) n (f i))))"
  using assms(4)
proof (induction n)
  case 0
  have "f(i := partial_row rnd a (offset ns i) 0 (f i)) = f" by (simp add: partial_row_def fun_eq_iff)
  then show ?case by simp
next
  case (Suc n)
  let ?s = "offset ns i" and ?acc = "accepted_at rnd a"
  let ?A = "num_accepted ?acc [?s..<?s + n]" and ?f = "f(i := partial_row rnd a ?s n (f i))"
  have len: "?A \<le> n" using num_accepted_le [of ?acc "[?s..<?s + n]"] by simp
  have A': "num_accepted ?acc [?s..<?s + Suc n] = (if ?A = n then n + (if ?acc (?s + n) then 1 else 0) else ?A)"
    using num_accepted_snoc [of ?acc "[?s..<?s + n]" "?s + n"] by simp
  have k: "?s + n < sum_list ns" using offset_bound [of i ns n] assms(2) Suc.prems by simp
  let ?tok = "if ?acc (?s + n) then ra_draft_token_ids a ! (?s + n) else ra_recovered_token_ids a ! (?s + n)"
  have items: "list_item (ra_draft_token_ids a) (int ?s + int n) = Inr (ra_draft_token_ids a ! (?s + n))"
    "list_item (ra_recovered_token_ids a) (int ?s + int n) = Inr (ra_recovered_token_ids a ! (?s + n))"
    using assms(1) k by (simp_all add: args_shape_def batch_shape_def flip: of_nat_add)
  have "random_position rnd a i (int ?s) (?A < n, mat m N ?f) n =
      Inr (num_accepted ?acc [?s..<?s + Suc n] < Suc n, mat m N (f(i := partial_row rnd a ?s (Suc n) (f i))))"
  proof (cases "?A < n")
    case True
    then have "partial_row rnd a ?s (Suc n) (f i) = partial_row rnd a ?s n (f i)"
      using A' by (auto simp: partial_row_def Let_def fun_eq_iff simp del: upt_Suc)
    then show ?thesis using True A' by (simp add: random_position_def del: upt_Suc)
  next
    case False
    then have A: "?A = n" using len by simp
    have "mat_set (mat m N ?f) (int i) (int n) ?tok = Inr (mat m N (?f(i := (?f i)(n := ?tok))))"
      using assms(3,5) Suc.prems by (intro mat_set_mat) auto
    moreover have "?f(i := (?f i)(n := ?tok)) = f(i := partial_row rnd a ?s (Suc n) (f i))"
      using A A' by (auto simp: partial_row_def Let_def fun_eq_iff simp del: upt_Suc)
    moreover have "accepts rnd (ra_draft_probs a) (ra_target_probs a) (ra_uniform_probs a) (int ?s + int n) (ra_draft_token_ids a ! (?s + n)) =
        Inr (?acc (?s + n))"
      using accepts_correct [OF assms(1) k, of rnd] by simp
    ultimately show ?thesis using A A' items by (simp add: random_position_def Let_def del: upt_Suc fun_upd_apply split: if_splits)
  qed
  then show ?case using Suc by (simp add: res_foldl_append del: fun_upd_apply)
qed

definition random_row :: "(rat \<Rightarrow> rat) \<Rightarrow> random_args \<Rightarrow> nat list \<Rightarrow> int list \<Rightarrow> nat \<Rightarrow> int list" where
  "random_row rnd a ns bonus i =
     step_tokens ns (accepted_at rnd a) ((!) (ra_draft_token_ids a)) ((!) (ra_recovered_token_ids a)) bonus i"

text \<open>The row that the loop leaves in a matrix of placeholders.\<close>

lemma random_request_row:
  assumes "args_shape ns V a" "i < length ns" "ns ! i \<le> M" "length bonus = length ns" "length g = length ns"
    and "\<And>j. j < Suc M \<Longrightarrow> f i j = PLACEHOLDER_TOKEN_ID"
  shows "random_request rnd a (map int (cumulative ns)) bonus g (mat (length ns) (Suc M) f) i =
    Inr (mat (length ns) (Suc M) (f(i := if g ! i then f i else (!) (pad (Suc M) (random_row rnd a ns bonus i)))))"
proof (cases "g ! i")
  case True
  then show ?thesis using assms(2,5) by (simp add: random_request_def)
next
  case False
  let ?s = "offset ns i" and ?A = "num_acc ns (accepted_at rnd a) i" and ?N = "length ns"
  let ?p = "partial_row rnd a ?s (ns ! i) (f i)" and ?r = "pad (Suc M) (random_row rnd a ns bonus i)"
  have fold: "res_foldl (random_position rnd a i (int ?s)) (False, mat ?N (Suc M) f) [0..<ns ! i] =
      Inr (?A < ns ! i, mat ?N (Suc M) (f(i := ?p)))"
    using assms(2,3) by (intro random_positions [OF assms(1)]) auto
  have r: "?r ! j = (if j < ?A then ra_draft_token_ids a ! (?s + j)
      else if j = ?A then (if j < ns ! i then ra_recovered_token_ids a ! (?s + j) else bonus ! i) else PLACEHOLDER_TOKEN_ID)"
    if "j < Suc M" for j
    using that unfolding random_row_def pad_step_tokens [OF assms(3)] by (simp del: upt_Suc)
  have le: "?A \<le> ns ! i" by (rule num_acc_le)
  have b: "list_item bonus (int i) = Inr (bonus ! i)" using assms(2,4) by simp
  have "(if ?A < ns ! i then Inr (mat ?N (Suc M) (f(i := ?p)))
      else mat_set (mat ?N (Suc M) (f(i := ?p))) (int i) (int (ns ! i)) (bonus ! i)) = Inr (mat ?N (Suc M) (f(i := (!) ?r)))"
  proof (cases "?A < ns ! i")
    case True
    then show ?thesis using r assms(6) by (simp, intro mat_cong) (auto simp: partial_row_def Let_def)
  next
    case nb: False
    have "mat_set (mat ?N (Suc M) (f(i := ?p))) (int i) (int (ns ! i)) (bonus ! i) =
        Inr (mat ?N (Suc M) ((f(i := ?p))(i := ((f(i := ?p)) i)(ns ! i := bonus ! i))))"
      using assms(2,3) by (intro mat_set_mat) auto
    also have "\<dots> = Inr (mat ?N (Suc M) (f(i := (!) ?r)))"
      using nb le r assms(6) by (simp, intro mat_cong) (auto simp: partial_row_def Let_def)
    finally show ?thesis using nb by simp
  qed
  moreover have "list_item g (int i) = Inr False" using False assms(2,5) by simp
  ultimately show ?thesis
    using False fold b start_of_cumulative [OF assms(2)] end_of_cumulative [OF assms(2)]
    by (simp add: random_request_def Let_def del: fun_upd_apply split: if_splits)
qed

lemma rejection_random_rows:
  assumes "args_shape ns V a" "\<And>i. i < length ns \<Longrightarrow> ns ! i \<le> M" "length bonus = length ns" "length g = length ns"
    and "length out = length ns" "\<And>i. i < length ns \<Longrightarrow> length (out ! i) = Suc M"
    and "\<And>i. i < length ns \<Longrightarrow> \<not> g ! i \<Longrightarrow> out ! i = replicate (Suc M) PLACEHOLDER_TOKEN_ID"
  shows "rejection_random_sample_pytorch rnd out (map int (cumulative ns)) a bonus g =
    Inr (map (\<lambda>i. if g ! i then out ! i else pad (Suc M) (random_row rnd a ns bonus i)) [0..<length ns])"
proof -
  let ?N = "length ns"
  let ?row = "\<lambda>i. if g ! i then out ! i else pad (Suc M) (random_row rnd a ns bonus i)"
  have out: "out = mat ?N (Suc M) (\<lambda>i. (!) (out ! i))"
    by (rule mat_eqI) (simp_all add: assms(5,6) map_nth flip: assms(6) del: upt_Suc)
  have rlen: "length (?row i) = Suc M" if "i < ?N" for i
    using that assms(2,6) num_acc_le [where ns = ns and acc = "accepted_at rnd a" and i = i]
    by (simp add: random_row_def step_tokens_def length_verify le_trans)
  have "res_foldl (random_request rnd a (map int (cumulative ns)) bonus g) (mat ?N (Suc M) (\<lambda>i. (!) (out ! i))) [0..<m] =
      Inr (mat ?N (Suc M) (\<lambda>i. (!) (if i < m then ?row i else out ! i)))" if "m \<le> ?N" for m
    using that
  proof (induction m)
    case (Suc m)
    let ?f = "\<lambda>i. (!) (if i < m then ?row i else out ! i)"
    have step: "random_request rnd a (map int (cumulative ns)) bonus g (mat ?N (Suc M) ?f) m =
        Inr (mat ?N (Suc M) (\<lambda>i. (!) (if i < Suc m then ?row i else out ! i)))"
    proof (cases "g ! m")
      case True
      then show ?thesis using Suc.prems assms(4) by (simp add: random_request_def) (rule mat_cong, auto simp: less_Suc_eq)
    next
      case False
      then have "random_request rnd a (map int (cumulative ns)) bonus g (mat ?N (Suc M) ?f) m =
          Inr (mat ?N (Suc M) (?f(m := if g ! m then ?f m else (!) (pad (Suc M) (random_row rnd a ns bonus m)))))"
        using Suc.prems assms(2,7) [of m] by (intro random_request_row [OF assms(1) _ _ assms(3,4)]) (auto simp del: replicate_Suc)
      also have "\<dots> = Inr (mat ?N (Suc M) (\<lambda>i. (!) (if i < Suc m then ?row i else out ! i)))"
        using False by (simp, intro mat_cong) (auto simp: less_Suc_eq)
      finally show ?thesis .
    qed
    then show ?case using Suc by (simp add: res_foldl_append)
  qed simp
  from this [of ?N, folded out] have "rejection_random_sample_pytorch rnd out (map int (cumulative ns)) a bonus g =
      Inr (mat ?N (Suc M) (\<lambda>i. (!) (if i < ?N then ?row i else out ! i)))"
    unfolding rejection_random_sample_pytorch_def assms(5) by blast
  also have "mat ?N (Suc M) (\<lambda>i. (!) (if i < ?N then ?row i else out ! i)) = map ?row [0..<?N]"
  proof (rule mat_eqI [symmetric])
    fix i assume i: "i < ?N"
    have "map ((!) (?row i)) [0..<Suc M] = ?row i" using map_nth [of "?row i"] rlen [OF i] by metis
    then show "map ?row [0..<?N] ! i = map ((!) (if i < ?N then ?row i else out ! i)) [0..<Suc M]" using i by (simp del: upt_Suc)
  qed simp
  finally show ?thesis .
qed

subsection \<open>Expanding values of requests to tokens\<close>

lemma filter_upto: "0 \<le> n \<Longrightarrow> n \<le> m \<Longrightarrow> filter (\<lambda>k. k < n) [0..m - 1] = map int [0..<nat n]" for n m :: int
proof -
  assume a: "0 \<le> n" "n \<le> m"
  have "[0..m - 1] = map int [0..<nat n] @ [n..m - 1]"
    using a by (intro nth_equalityI) (auto simp: nth_append)
  then show ?thesis using a by (auto simp: filter_id_conv)
qed

lemma repeat_interleave_owner:
  assumes "length xs = length ns"
  shows "repeat_interleave xs ns = map (\<lambda>k. xs ! owner ns k) [0..<sum_list ns]"
proof -
  have "zip xs ns = map (\<lambda>i. (xs ! i, ns ! i)) [0..<length ns]" using assms by (intro nth_equalityI) simp_all
  then have "repeat_interleave xs ns = map (\<lambda>(i, j). xs ! i) (flat ns)"
    by (simp add: repeat_interleave_def flat_def map_concat comp_def map_replicate_const)
  also have "\<dots> = map (\<lambda>k. xs ! owner ns k) (map (\<lambda>(i, j). offset ns i + j) (flat ns))"
    using owner_offset by (auto simp: set_flat)
  finally show ?thesis unfolding flat_index .
qed

text \<open>\<^verbatim>\<open>expand_batch_to_tokens\<close> repeats the value of each request once per token, provided no request has more than 32.\<close>

lemma expand_batch_to_tokens_correct:
  assumes "length xs = length ns" "\<And>i. i < length ns \<Longrightarrow> int (ns ! i) \<le> MAX_SPEC_LEN"
  shows "expand_batch_to_tokens junk xs (map int (cumulative ns)) (sum_list ns) from to =
    Inr (repeat_interleave (map (\<lambda>x. if x = from then to else x) xs) ns)"
proof -
  let ?v = "\<lambda>i k. if xs ! i = from then to else xs ! i"
  have step: "res_bind (start_of (map int (cumulative ns)) i) (\<lambda>start_idx. res_bind (list_item (map int (cumulative ns)) (int i)) (\<lambda>end_idx.
        res_foldl (\<lambda>out k. list_set out (start_idx + k) (?v i 0)) (id (map h [0..<sum_list ns]))
          (filter (\<lambda>k. k < end_idx - start_idx) [0..MAX_SPEC_LEN - 1]))) =
      Inr (id (map (\<lambda>k. if offset ns i \<le> k \<and> k < offset ns i + ns ! i then ?v i k else h k) [0..<sum_list ns]))"
    if i: "i < length ns" for h i
  proof -
    have f: "filter (\<lambda>k. k < int (offset ns i + ns ! i) - int (offset ns i)) [0..MAX_SPEC_LEN - 1] = map int [0..<ns ! i]"
      using filter_upto [of "int (ns ! i)" MAX_SPEC_LEN] assms(2) [OF i] by simp
    have m: "res_foldl g s (map int js) = res_foldl (\<lambda>s j. g s (int j)) s js" for g :: "'a list \<Rightarrow> int \<Rightarrow> 'a list result" and s js
      by (induction js arbitrary: s) (auto intro!: res_bind_cong)
    show ?thesis
      unfolding start_of_cumulative [OF i] end_of_cumulative [OF i] res_bind_Inr f m
      by (rule fold_positions) (simp add: offset_bound [OF i] update_map_upt flip: of_nat_add)
  qed
  have "expand_batch_to_tokens junk xs (map int (cumulative ns)) (sum_list ns) from to =
      Inr (id (map (\<lambda>k. ?v (owner ns k) k) [0..<sum_list ns]))"
    unfolding expand_batch_to_tokens_def expand_pytorch_def Let_def
    using fold_all_requests [where w = id and v = ?v and h = junk and ns = ns, OF step] assms(1) by simp
  also have "\<dots> = Inr (repeat_interleave (map (\<lambda>x. if x = from then to else x) xs) ns)"
    using assms(1) owner_bounds(1) by (simp add: repeat_interleave_owner)
  finally show ?thesis .
qed

end
