(* ===== verification/Rejection_Props.thy ===== *)
theory Rejection_Props
  imports Rejection_Random
begin

section \<open>Properties of the rejection sampler\<close>

text \<open>
  The batched sampler computes, for every request, the sequential algorithm; what the sequential
  algorithm returns; the recovered tokens; and the expansion of per-request values to tokens.
\<close>

subsection \<open>The whole sampler\<close>

text \<open>The row of exponential numbers of a request, its target tokens, and the tokens it recovers.\<close>

definition q_row :: "random_source \<Rightarrow> sampling_info \<Rightarrow> nat list \<Rightarrow> nat \<Rightarrow> nat \<Rightarrow> rat list" where
  "q_row src si ns V i = map (if i \<in> set (si_generators si) \<and> 0 < ns ! i then rs_seeded src i else rs_exponential src i) [0..<V]"

definition target_tokens :: "rat list list \<Rightarrow> int list" where
  "target_tokens target_probs = map (\<lambda>row. int (first_max row)) target_probs"

definition recovered_args ::
  "(rat \<Rightarrow> rat) \<Rightarrow> random_source \<Rightarrow> sampling_info \<Rightarrow> nat list \<Rightarrow> int list \<Rightarrow> rat list list option \<Rightarrow> rat list list \<Rightarrow> random_args" where
  "recovered_args rnd src si ns draft draft_probs target_probs =
     \<lparr>ra_draft_token_ids = draft, ra_draft_probs = draft_probs, ra_target_probs = target_probs,
      ra_recovered_token_ids =
        map (\<lambda>k. int (recovered_at rnd draft draft_probs target_probs
                   (q_row src si ns (vocab_size_of target_probs) (owner ns k)) k)) [0..<sum_list ns],
      ra_uniform_probs = rs_uniform src\<rparr>"

definition sampled_tokens ::
  "roundings \<Rightarrow> random_source \<Rightarrow> sampling_info \<Rightarrow> nat list \<Rightarrow> int list \<Rightarrow> rat list list option \<Rightarrow> rat list list \<Rightarrow> int list \<Rightarrow> nat \<Rightarrow>
   int list" where
  "sampled_tokens rnd src si ns draft draft_probs target_probs bonus i =
     (if si_all_greedy si \<or> si_temperature si ! i = GREEDY_TEMPERATURE
      then greedy_row ns draft (target_tokens target_probs) bonus i
      else random_row (round_double rnd) (recovered_args (round_tensor rnd) src si ns draft draft_probs target_probs) ns bonus i)"

lemma batch_shape_target:
  assumes "batch_shape ns V draft draft_probs target_probs"
  shows "res_map argmax target_probs = Inr (target_tokens target_probs)" "length (target_tokens target_probs) = sum_list ns"
proof -
  have "row \<noteq> []" if row: "row \<in> set target_probs" for row
  proof -
    have "length target_probs = sum_list ns" "length row = V" using assms row by (auto simp: batch_shape_def probs_shape_def)
    moreover from this have "0 < V" using batch_shape_draft(4) [OF assms, of 0] row by (cases target_probs) auto
    ultimately show ?thesis by auto
  qed
  then show "res_map argmax target_probs = Inr (target_tokens target_probs)"
    unfolding target_tokens_def by (intro res_map_Inr) (simp add: argmax_first_max)
  show "length (target_tokens target_probs) = sum_list ns"
    using assms by (simp add: target_tokens_def batch_shape_def probs_shape_def)
qed

lemma all_ones:
  assumes "ns \<noteq> []" "Min (set ns) = (1 :: nat)" "Max (set ns) = 1"
  shows "ns = replicate (length ns) 1"
proof (rule replicate_eqI)
  fix x assume "x \<in> set ns"
  then have "Min (set ns) \<le> x" "x \<le> Max (set ns)" by simp_all
  then show "x = 1" using assms by simp
qed simp

lemma greedy_phase_rows:
  assumes shape: "batch_shape ns V draft draft_probs target_probs" and M: "\<And>i. i < length ns \<Longrightarrow> ns ! i \<le> M"
    and len: "length bonus = length ns" "ns \<noteq> []" "length g = length ns"
    and g: "g = (case is_greedy of None \<Rightarrow> replicate (length ns) True | Some g \<Rightarrow> g)" "all_greedy \<longleftrightarrow> is_greedy = None"
  shows "greedy_phase (replicate (length ns) (replicate (Suc M) PLACEHOLDER_TOKEN_ID)) draft ns M (cumulative ns) target_probs bonus all_greedy is_greedy =
    Inr (map (\<lambda>i. if g ! i then pad (Suc M) (greedy_row ns draft (target_tokens target_probs) bonus i)
                  else replicate (Suc M) PLACEHOLDER_TOKEN_ID) [0..<length ns])"
proof -
  note t = batch_shape_target [OF shape]
  have d: "length draft = sum_list ns" using shape by (simp add: batch_shape_def)
  show ?thesis
  proof (cases "Min (set ns) = 1 \<and> Max (set ns) = 1 \<and> all_greedy")
    case True
    then have ones: "ns = replicate (length ns) 1" using all_ones len(2) by blast
    have sum: "sum_list ns = length ns" by (subst ones) (simp add: sum_list_replicate)
    have "ns ! 0 = 1" by (subst ones) (simp add: len(2))
    then have "1 \<le> M" using M [of 0] len(2) by simp
    then have "rejection_greedy_sample_spec_len_1_pytorch (replicate (length ns) (replicate (Suc M) PLACEHOLDER_TOKEN_ID)) draft
        (target_tokens target_probs) bonus =
        Inr (map (\<lambda>i. pad (Suc M) (greedy_row ns draft (target_tokens target_probs) bonus i)) [0..<length ns])"
      using d t(2) len(1) sum by (intro greedy_len1_rows [OF ones]) simp_all
    then show ?thesis using True len(2) t(1) g by (simp add: greedy_phase_def)
  next
    case False
    then show ?thesis
      using len(2) t(1) rejection_greedy_rows [OF d t(2) M len(1) g(1) len(3)] by (auto simp: greedy_phase_def)
  qed
qed

lemma recovered_correct:
  assumes shape: "batch_shape ns (vocab_size_of target_probs) draft draft_probs target_probs"
    and gens: "set (si_generators si) \<subseteq> {..<length ns}" and u: "length (rs_uniform src) = sum_list ns"
  shows "sample_recovered_tokens rnd (rs_exponential src) (rs_seeded src) (rs_junk src) (si_generators si) ns (map int (cumulative ns))
      draft draft_probs target_probs =
      Inr (ra_recovered_token_ids (recovered_args rnd src si ns draft draft_probs target_probs), target_probs)"
    and "args_shape ns (vocab_size_of target_probs) (recovered_args rnd src si ns draft draft_probs target_probs)"
proof -
  let ?V = "vocab_size_of target_probs"
  obtain q where q: "exponential_rows (rs_exponential src) (rs_seeded src) (si_generators si) ns ?V = Inr q"
    "probs_shape (length ns) ?V q"
    "\<And>i. i < length ns \<Longrightarrow> q ! i = map (if i \<in> set (si_generators si) \<and> 0 < ns ! i then rs_seeded src i else rs_exponential src i) [0..<?V]"
    using exponential_rows_shape [OF gens] by blast
  have "map (\<lambda>k. int (recovered_at rnd draft draft_probs target_probs (q ! owner ns k) k)) [0..<sum_list ns] =
      map (\<lambda>k. int (recovered_at rnd draft draft_probs target_probs (q_row src si ns ?V (owner ns k)) k)) [0..<sum_list ns]"
    using q(3) owner_bounds(1) by (intro map_cong) (simp_all add: q_row_def)
  moreover have "length draft = sum_list ns" using shape by (simp add: batch_shape_def)
  ultimately show "sample_recovered_tokens rnd (rs_exponential src) (rs_seeded src) (rs_junk src) (si_generators si) ns (map int (cumulative ns))
      draft draft_probs target_probs =
      Inr (ra_recovered_token_ids (recovered_args rnd src si ns draft draft_probs target_probs), target_probs)"
    unfolding sample_recovered_tokens_def q(1) by (simp add: sample_recovered_correct [OF shape q(2)] recovered_args_def)
  show "args_shape ns ?V (recovered_args rnd src si ns draft draft_probs target_probs)"
    using shape u by (simp add: args_shape_def recovered_args_def)
qed

text \<open>
  C35. The sampler computes the algorithm of speculative decoding: for tensors of matching shapes the
  batched code, vectorised over the flat tokens for greedy requests and specialised when every
  request has one draft token, returns without raising, and the row of each request holds the
  tokens of the sequential algorithm on its own part of the tensors, filled up with placeholders:
  draft tokens as long as they are accepted, then the replacement of the first rejected one, or the
  bonus token when none is rejected. A draft token is accepted when it is the target's most likely
  token (greedy), or when the quotient of the probabilities reaches the uniform number (random).
\<close>

theorem rejection_sample_correct:
  assumes "batch_shape ns (vocab_size_of target_probs) draft draft_probs target_probs"
    and "ns \<noteq> []" "\<forall>i < length ns. ns ! i \<le> M" "length bonus = length ns"
    and "\<not> si_all_greedy si \<longrightarrow> length (si_temperature si) = length ns"
    and "si_all_random si \<longrightarrow> \<not> si_all_greedy si \<and> GREEDY_TEMPERATURE \<notin> set (si_temperature si)"
    and "set (si_generators si) \<subseteq> {..<length ns}" "length (rs_uniform src) = sum_list ns"
  shows "rejection_sample rnd src draft ns M (cumulative ns) draft_probs target_probs bonus si =
    Inr (map (\<lambda>i. pad (Suc M) (sampled_tokens rnd src si ns draft draft_probs target_probs bonus i)) [0..<length ns])"
proof -
  let ?V = "vocab_size_of target_probs" and ?n = "length ns" and ?row = "replicate (Suc M) PLACEHOLDER_TOKEN_ID"
  let ?a = "recovered_args (round_tensor rnd) src si ns draft draft_probs target_probs"
  have M: "\<And>i. i < ?n \<Longrightarrow> ns ! i \<le> M" using assms(3) by blast
  have asserts: "length target_probs = length draft \<and> list_all (\<lambda>row. length row = ?V) target_probs"
    using assms(1) by (auto simp: batch_shape_def probs_shape_def list_all_iff)
  note rec = recovered_correct [OF assms(1,7,8), where rnd = "round_tensor rnd"]
  show ?thesis
  proof (cases "si_all_greedy si")
    case True
    have "greedy_phase (replicate ?n ?row) draft ns M (cumulative ns) target_probs bonus True None =
        Inr (map (\<lambda>i. pad (Suc M) (greedy_row ns draft (target_tokens target_probs) bonus i)) [0..<?n])"
      using greedy_phase_rows [OF assms(1) M assms(4,2), of "replicate ?n True" None True] by (simp del: replicate_Suc)
    then show ?thesis
      using True assms(6) asserts by (simp add: rejection_sample_def sampled_tokens_def Let_def del: replicate_Suc)
  next
    case False
    define g where "g = map (\<lambda>t. t = GREEDY_TEMPERATURE) (si_temperature si)"
    have gl: "length g = ?n" using False assms(5) by (simp add: g_def)
    let ?out = "map (\<lambda>i. if g ! i then pad (Suc M) (greedy_row ns draft (target_tokens target_probs) bonus i) else ?row) [0..<?n]"
    have first: "(if si_all_random si then Inr (replicate ?n ?row)
        else greedy_phase (replicate ?n ?row) draft ns M (cumulative ns) target_probs bonus False (Some g)) = Inr ?out"
    proof (cases "si_all_random si")
      case True
      have "\<not> g ! i" if "i < ?n" for i
      proof -
        have "si_temperature si ! i \<in> set (si_temperature si)" "g ! i \<longleftrightarrow> si_temperature si ! i = GREEDY_TEMPERATURE"
          using that gl by (simp_all add: g_def)
        then show ?thesis using True assms(6) by metis
      qed
      then have "replicate ?n ?row = ?out" by (intro nth_equalityI) (simp_all del: replicate_Suc)
      then show ?thesis using True by simp
    next
      case nr: False
      then show ?thesis using greedy_phase_rows [OF assms(1) M assms(4,2) gl, of "Some g" False] by (simp del: replicate_Suc)
    qed
    then have first': "(if si_all_random si then Inr (replicate ?n ?row)
        else greedy_phase (replicate ?n ?row) draft ns M (cumulative ns) target_probs bonus (si_all_greedy si)
          (if si_all_greedy si then None else Some (map (\<lambda>t. t = GREEDY_TEMPERATURE) (si_temperature si)))) = Inr ?out"
      using False unfolding g_def [symmetric] by (simp only: if_False)
    have olen: "length (?out ! i) = Suc M" if "i < ?n" for i
      using that M [OF that] num_acc_le [where ns = ns and acc = "\<lambda>k. draft ! k = target_tokens target_probs ! k" and i = i]
      by (simp add: greedy_row_def step_tokens_def length_verify le_trans del: replicate_Suc)
    have "rejection_random_sample_pytorch (round_double rnd) ?out (map int (cumulative ns)) ?a bonus g =
        Inr (map (\<lambda>i. if g ! i then ?out ! i else pad (Suc M) (random_row (round_double rnd) ?a ns bonus i)) [0..<?n])"
      using olen by (intro rejection_random_rows [OF rec(2) M assms(4) gl]) (simp_all del: replicate_Suc)
    also have "map (\<lambda>i. if g ! i then ?out ! i else pad (Suc M) (random_row (round_double rnd) ?a ns bonus i)) [0..<?n] =
        map (\<lambda>i. pad (Suc M) (sampled_tokens rnd src si ns draft draft_probs target_probs bonus i)) [0..<?n]"
      using False gl assms(5) by (intro map_cong) (simp_all add: sampled_tokens_def g_def del: replicate_Suc)
    finally have last: "rejection_random_sample_pytorch (round_double rnd) ?out (map int (cumulative ns)) ?a bonus g =
        Inr (map (\<lambda>i. pad (Suc M) (sampled_tokens rnd src si ns draft draft_probs target_probs bonus i)) [0..<?n])" .
    have a: "\<lparr>ra_draft_token_ids = draft, ra_draft_probs = draft_probs, ra_target_probs = target_probs,
        ra_recovered_token_ids = ra_recovered_token_ids ?a, ra_uniform_probs = rs_uniform src\<rparr> = ?a"
      by (simp add: recovered_args_def)
    show ?thesis
      unfolding rejection_sample_def Let_def first' res_bind_Inr rec(1) using False asserts
      by (simp add: g_def [symmetric] a last del: replicate_Suc)
  qed
qed

text \<open>Two requests with two draft tokens and one, a greedy one and a random one.\<close>

definition demo_target :: "rat list list" where
  "demo_target = [[1 / 4, 3 / 4, 0], [1 / 2, 1 / 4, 1 / 4], [1 / 8, 1 / 8, 3 / 4]]"

definition demo_info :: sampling_info where
  "demo_info = \<lparr>si_all_greedy = False, si_all_random = False, si_temperature = [- 1, 1], si_generators = [1]\<rparr>"

definition demo_source :: random_source where
  "demo_source = \<lparr>rs_uniform = [1 / 2, 1 / 2, 1 / 2], rs_exponential = \<lambda>i j. 1, rs_seeded = \<lambda>i j. 2, rs_junk = \<lambda>_. 7\<rparr>"

definition exact :: roundings where
  "exact = \<lparr>round_double = id, round_tensor = id\<rparr>"

lemma demo_shape: "batch_shape [2, 1] (vocab_size_of demo_target) [1, 2, 0] None demo_target"
  by (simp add: batch_shape_def probs_shape_def demo_target_def vocab_size_of_def)

lemma demo_rows:
  "map (\<lambda>i. pad (Suc 3) (sampled_tokens exact demo_source demo_info [2, 1] [1, 2, 0] None demo_target [5, 6] i))
     [0..<length [2, 1 :: nat]] =
   [[1, 0, - 1, - 1], [2, - 1, - 1, - 1]]"
  by code_simp

theorem rejection_sample_correct_witness:
  "rejection_sample exact demo_source [1, 2, 0] [2, 1] 3 (cumulative [2, 1]) None demo_target [5, 6] demo_info =
   Inr [[1, 0, - 1, - 1], [2, - 1, - 1, - 1]]"
proof -
  have "\<forall>i < length [2, 1 :: nat]. [2, 1] ! i \<le> (3 :: nat)" by (auto simp: less_Suc_eq)
  then have "rejection_sample exact demo_source [1, 2, 0] [2, 1] 3 (cumulative [2, 1]) None demo_target [5, 6] demo_info =
      Inr (map (\<lambda>i. pad (Suc 3) (sampled_tokens exact demo_source demo_info [2, 1] [1, 2, 0] None demo_target [5, 6] i)) [0..<length [2, 1 :: nat]])"
    by (intro rejection_sample_correct [OF demo_shape]) (simp_all add: demo_info_def demo_source_def GREEDY_TEMPERATURE_def)
  then show ?thesis unfolding demo_rows .
qed

subsection \<open>What the algorithm returns\<close>

lemma verify_prefix: "j < num_accepted acc xs \<Longrightarrow> acc (xs ! j)"
  by (metis nth_mem set_takeWhileD takeWhile_nth)

lemma verify_stops: "num_accepted acc xs < length xs \<Longrightarrow> \<not> acc (xs ! num_accepted acc xs)"
  by (rule nth_length_takeWhile)

text \<open>What the row of one greedy request is.\<close>

lemma greedy_row_prefix:
  assumes "i < length ns" "length draft = sum_list ns" "length target = sum_list ns"
  shows "let out = greedy_row ns draft target bonus i; n = length out in
    1 \<le> n \<and> n \<le> Suc (ns ! i) \<and> out = take n (seg ns i target @ [bonus ! i]) \<and>
    (\<forall>j < n - 1. seg ns i draft ! j = out ! j) \<and>
    (n \<le> ns ! i \<longrightarrow> seg ns i draft ! (n - 1) \<noteq> out ! (n - 1))"
proof -
  let ?s = "offset ns i" and ?acc = "\<lambda>k. draft ! k = target ! k"
  let ?A = "num_acc ns ?acc i" and ?out = "greedy_row ns draft target bonus i"
  have n: "length ?out = Suc ?A" by (simp add: greedy_row_def step_tokens_def length_verify)
  have le: "?A \<le> ns ! i" by (rule num_acc_le)
  have out: "?out ! j = (if j < ns ! i then target ! (?s + j) else bonus ! i)" if "j \<le> ?A" for j
    using that le by (simp add: greedy_row_def step_tokens_def nth_verify)
  have seg: "length (seg ns i target) = ns ! i" "\<And>j. j < ns ! i \<Longrightarrow> seg ns i target ! j = target ! (?s + j)"
    "\<And>j. j < ns ! i \<Longrightarrow> seg ns i draft ! j = draft ! (?s + j)"
    using assms by (simp_all add: length_seg nth_seg)
  have "?out = take (Suc ?A) (seg ns i target @ [bonus ! i])"
    using n le out seg by (intro nth_equalityI) (auto simp: nth_append less_Suc_eq_le)
  moreover have "seg ns i draft ! j = ?out ! j" if "j < ?A" for j
    using verify_prefix [OF that] that le out [of j] seg(3) [of j] by simp
  moreover have "seg ns i draft ! ?A \<noteq> ?out ! ?A" if "?A < ns ! i"
    using verify_stops [of ?acc "[?s..<?s + ns ! i]"] that out [of ?A] seg(3) by simp
  ultimately show ?thesis using le unfolding Let_def n diff_Suc_1 by (intro conjI allI impI) (simp_all add: Suc_le_eq del: take_append)
qed

text \<open>
  C36. Greedy speculative decoding changes nothing but the speed. For tensors of matching shapes the
  greedy part of the sampler, with its specialisation for one draft token per request, returns a row for
  every request. The row of a request that is not greedy is left as it was. The row of a greedy request
  holds at least one and at most one more token than it has draft tokens, then placeholders, and these tokens
  are the first ones of the sequence of the target's most likely tokens followed by the bonus token,
  exactly the tokens that decoding without drafts would give at these positions. The sequence is as long as
  possible: the draft tokens before its last token agree with it, and it ends at a position where the draft
  token differs from the target's, or with the bonus token.
\<close>

theorem greedy_phase_lossless:
  assumes "batch_shape ns V draft draft_probs target_probs" "\<forall>i < length ns. ns ! i \<le> M"
    and "length bonus = length ns" "ns \<noteq> []" "\<forall>g. is_greedy = Some g \<longrightarrow> length g = length ns"
  shows "\<exists>target out. res_map argmax target_probs = Inr target \<and>
    greedy_phase (replicate (length ns) (replicate (Suc M) PLACEHOLDER_TOKEN_ID)) draft ns M (cumulative ns) target_probs bonus
      (is_greedy = None) is_greedy = Inr out \<and> length out = length ns \<and>
    (\<forall>i < length ns.
       if \<exists>g. is_greedy = Some g \<and> \<not> g ! i then out ! i = replicate (Suc M) PLACEHOLDER_TOKEN_ID
       else \<exists>n. 1 \<le> n \<and> n \<le> Suc (ns ! i) \<and>
         out ! i = take n (seg ns i target @ [bonus ! i]) @ replicate (Suc M - n) PLACEHOLDER_TOKEN_ID \<and>
         (\<forall>j < n - 1. seg ns i draft ! j = out ! i ! j) \<and>
         (n \<le> ns ! i \<longrightarrow> seg ns i draft ! (n - 1) \<noteq> out ! i ! (n - 1)))"
proof -
  let ?t = "target_tokens target_probs"
  define g where "g = (case is_greedy of None \<Rightarrow> replicate (length ns) True | Some g \<Rightarrow> g)"
  define out where "out = map (\<lambda>i. if g ! i then pad (Suc M) (greedy_row ns draft ?t bonus i)
      else replicate (Suc M) PLACEHOLDER_TOKEN_ID) [0..<length ns]"
  note t = batch_shape_target [OF assms(1)]
  have g: "length g = length ns" using assms(5) by (simp add: g_def split: option.splits)
  have run: "greedy_phase (replicate (length ns) (replicate (Suc M) PLACEHOLDER_TOKEN_ID)) draft ns M (cumulative ns) target_probs bonus
      (is_greedy = None) is_greedy = Inr out"
    unfolding out_def using assms(2) by (intro greedy_phase_rows [OF assms(1) _ assms(3,4) g g_def]) simp_all
  have row: "if \<exists>g. is_greedy = Some g \<and> \<not> g ! i then out ! i = replicate (Suc M) PLACEHOLDER_TOKEN_ID
       else \<exists>n. 1 \<le> n \<and> n \<le> Suc (ns ! i) \<and>
         out ! i = take n (seg ns i ?t @ [bonus ! i]) @ replicate (Suc M - n) PLACEHOLDER_TOKEN_ID \<and>
         (\<forall>j < n - 1. seg ns i draft ! j = out ! i ! j) \<and>
         (n \<le> ns ! i \<longrightarrow> seg ns i draft ! (n - 1) \<noteq> out ! i ! (n - 1))" if i: "i < length ns" for i
  proof (cases "g ! i")
    case False
    then show ?thesis using i by (auto simp: out_def g_def simp del: replicate_Suc split: option.splits)
  next
    case True
    let ?row = "greedy_row ns draft ?t bonus i"
    have "length draft = sum_list ns" using assms(1) by (simp add: batch_shape_def)
    note p = greedy_row_prefix [OF i this t(2), of bonus, unfolded Let_def]
    have o: "out ! i = ?row @ replicate (Suc M - length ?row) PLACEHOLDER_TOKEN_ID"
      using True i by (simp add: out_def pad_def del: replicate_Suc)
    have "out ! i ! j = ?row ! j" if "j < length ?row" for j using that by (simp add: o nth_append)
    then have "\<exists>n. 1 \<le> n \<and> n \<le> Suc (ns ! i) \<and>
         out ! i = take n (seg ns i ?t @ [bonus ! i]) @ replicate (Suc M - n) PLACEHOLDER_TOKEN_ID \<and>
         (\<forall>j < n - 1. seg ns i draft ! j = out ! i ! j) \<and>
         (n \<le> ns ! i \<longrightarrow> seg ns i draft ! (n - 1) \<noteq> out ! i ! (n - 1))"
      using p o by (intro exI [of _ "length ?row"]) auto
    moreover have "\<not> (\<exists>g. is_greedy = Some g \<and> \<not> g ! i)" using True by (auto simp: g_def)
    ultimately show ?thesis by (simp only: if_False)
  qed
  have "length out = length ns" by (simp add: out_def)
  then show ?thesis using t(1) run row by blast
qed

theorem greedy_phase_lossless_witness:
  "\<exists>out n. greedy_phase [[- 1, - 1, - 1], [- 1, - 1, - 1]] [1, 2, 0] [2, 1] 2 (cumulative [2, 1]) demo_target [5, 6] False
      (Some [True, False]) = Inr out \<and> 1 \<le> n \<and> n \<le> 3 \<and> out ! 0 = take n ([1, 0] @ [5]) @ replicate (3 - n) (- 1) \<and> out ! 1 = [- 1, - 1, - 1]"
proof -
  have target: "res_map argmax demo_target = Inr [1, 0, 2]" and seg: "seg [2, 1] 0 [1, 0, 2 :: int] = [1, 0]" by code_simp+
  have "\<forall>i < length [2, 1 :: nat]. [2, 1] ! i \<le> (2 :: nat)" by (auto simp: less_Suc_eq)
  then obtain t out where o: "res_map argmax demo_target = Inr t"
      "greedy_phase (replicate (length [2, 1 :: nat]) (replicate (Suc 2) PLACEHOLDER_TOKEN_ID)) [1, 2, 0] [2, 1] 2 (cumulative [2, 1]) demo_target [5, 6]
         (Some [True, False] = None) (Some [True, False]) = Inr out"
      "\<forall>i < length [2, 1 :: nat].
       if \<exists>g. Some [True, False] = Some g \<and> \<not> g ! i then out ! i = replicate (Suc 2) PLACEHOLDER_TOKEN_ID
       else \<exists>n. 1 \<le> n \<and> n \<le> Suc ([2, 1] ! i) \<and>
         out ! i = take n (seg [2, 1] i t @ [[5, 6] ! i]) @ replicate (Suc 2 - n) PLACEHOLDER_TOKEN_ID \<and>
         (\<forall>j < n - 1. seg [2, 1] i [1, 2, 0] ! j = out ! i ! j) \<and>
         (n \<le> [2, 1] ! i \<longrightarrow> seg [2, 1] i [1, 2, 0] ! (n - 1) \<noteq> out ! i ! (n - 1))"
    using greedy_phase_lossless [OF demo_shape, of 2 "[5, 6]" "Some [True, False]"] by auto
  have "out ! 1 = [- 1, - 1, - 1]" using spec [OF o(3), of 1] by (simp add: PLACEHOLDER_TOKEN_ID_def numeral_3_eq_3)
  moreover have t: "t = [1, 0, 2]" using o(1) target by simp
  obtain n where n: "1 \<le> n" "n \<le> Suc ([2, 1] ! 0)"
      "out ! 0 = take n (seg [2, 1] 0 t @ [[5, 6] ! 0]) @ replicate (Suc 2 - n) PLACEHOLDER_TOKEN_ID"
    using spec [OF o(3), of 0] by (auto simp del: take_append replicate_Suc)
  then have "n \<le> 3 \<and> out ! 0 = take n ([1, 0] @ [5]) @ replicate (3 - n) (- 1)"
    unfolding t seg by (simp add: PLACEHOLDER_TOKEN_ID_def del: take_append)
  ultimately show ?thesis using o(2) n(1)
    by (intro exI [of _ out] exI [of _ n]) (simp add: PLACEHOLDER_TOKEN_ID_def numeral_3_eq_3 del: take_append)
qed

subsection \<open>Recovered tokens\<close>

text \<open>
  The score of a token at a flat position: its recovery probability divided by the exponential number of
  its request's row, rounded.
\<close>

definition recovery_score ::
  "(rat \<Rightarrow> rat) \<Rightarrow> nat list \<Rightarrow> int list \<Rightarrow> rat list list option \<Rightarrow> rat list list \<Rightarrow> rat list list \<Rightarrow> nat \<Rightarrow> nat \<Rightarrow> rat" where
  "recovery_score rnd ns draft draft_probs target_probs q k t =
     rnd ((case draft_probs of None \<Rightarrow> (if int t = draft ! k then 0 else target_probs ! k ! t)
           | Some dp \<Rightarrow> max (rnd (target_probs ! k ! t - dp ! k ! t)) 0) / q ! owner ns k ! t)"

lemma first_max_zeros:
  assumes "\<forall>j < length xs. xs ! j = 0" "xs \<noteq> []" shows "first_max xs = 0"
proof -
  have "\<forall>x \<in> set xs. x = 0" using assms(1) by (metis in_set_conv_nth)
  then have "set xs = {0}" using assms(2) by (cases xs) auto
  moreover have "hd xs = 0" using assms by (simp add: hd_conv_nth)
  then have "takeWhile (\<lambda>x. x \<noteq> Max {0}) xs = []" using assms(2) by (cases xs) simp_all
  ultimately show ?thesis by (simp add: first_max_def)
qed

text \<open>
  C37. Recovered tokens: the loop fills every position and leaves the target probabilities as they were,
  although it changes them while it runs when there are no draft probabilities. The rounding is any
  monotone one that keeps 0, so that small numbers may underflow to 0, and the exponential numbers are
  positive. Every position recovers a token with the largest rounded score. When some rounded score of the position is
  positive, the recovered token has a positive probability: without draft probabilities it is not the rejected
  draft token and the target gives it a positive probability; with them, the target gives it a higher probability
  than the draft does. When all scores of the position are 0, because there is no token to recover or because every score
  underflows, it recovers token 0, whatever its probability.
\<close>

theorem recovered_tokens_correct:
  assumes "batch_shape ns V draft draft_probs target_probs" "probs_shape (length ns) V q"
    and "\<forall>row \<in> set q. \<forall>x \<in> set row. 0 < x" "mono rnd" "rnd 0 = 0"
  shows "\<exists>rec. sample_recovered_tokens_pytorch rnd (map junk [0..<sum_list ns]) (map int (cumulative ns)) draft draft_probs target_probs q =
      Inr (rec, target_probs) \<and> length rec = sum_list ns \<and>
    (\<forall>k < sum_list ns. \<exists>r < V. rec ! k = int r \<and>
      (\<forall>t < V. recovery_score rnd ns draft draft_probs target_probs q k t \<le> recovery_score rnd ns draft draft_probs target_probs q k r) \<and>
      ((\<exists>t < V. 0 < recovery_score rnd ns draft draft_probs target_probs q k t) \<longrightarrow>
         (case draft_probs of None \<Rightarrow> int r \<noteq> draft ! k \<and> 0 < target_probs ! k ! r
          | Some dp \<Rightarrow> dp ! k ! r < target_probs ! k ! r)) \<and>
      ((\<forall>t < V. recovery_score rnd ns draft draft_probs target_probs q k t = 0) \<longrightarrow> r = 0))"
proof -
  let ?rec = "map (\<lambda>k. int (recovered_at rnd draft draft_probs target_probs (q ! owner ns k) k)) [0..<sum_list ns]"
  let ?score = "recovery_score rnd ns draft draft_probs target_probs q"
  have sign: "0 < x" if "0 < rnd x" for x
    using monoD [OF assms(4), of x 0] assms(5) that by (metis leD linorder_not_le)
  have main: "\<exists>r < V. ?rec ! k = int r \<and> (\<forall>t < V. ?score k t \<le> ?score k r) \<and>
      ((\<exists>t < V. 0 < ?score k t) \<longrightarrow> (case draft_probs of None \<Rightarrow> int r \<noteq> draft ! k \<and> 0 < target_probs ! k ! r
          | Some dp \<Rightarrow> dp ! k ! r < target_probs ! k ! r)) \<and> ((\<forall>t < V. ?score k t = 0) \<longrightarrow> r = 0)" if k: "k < sum_list ns" for k
  proof -
    let ?p = "recovery_probs rnd draft draft_probs target_probs k" and ?q = "q ! owner ns k"
    let ?s = "map2 (\<lambda>p x. rnd (p / x)) ?p ?q" and ?r = "recovered_at rnd draft draft_probs target_probs (q ! owner ns k) k"
    note d = batch_shape_draft [OF assms(1) k]
    have lens: "length ?p = V" "length ?q = V" "length (target_probs ! k) = V"
      using length_recovery_probs [OF assms(1) k] owner_bounds(1) [OF k] assms(1,2) k by (simp_all add: batch_shape_def probs_shape_def)
    have dp: "length (dp ! k) = V" if "draft_probs = Some dp" for dp
      using assms(1) k that by (simp add: batch_shape_def probs_shape_def)
    have p: "?p ! t = (case draft_probs of None \<Rightarrow> (if int t = draft ! k then 0 else target_probs ! k ! t)
        | Some dp \<Rightarrow> max (rnd (target_probs ! k ! t - dp ! k ! t)) 0)" if "t < V" for t
    proof (cases draft_probs)
      case None
      have "int t = draft ! k \<longleftrightarrow> nat (draft ! k) = t" using d(1) by auto
      then show ?thesis using None that lens(3) by (simp add: recovery_probs_def nth_list_update)
    next
      case (Some m)
      then show ?thesis using that lens(3) dp [OF Some] by (simp add: recovery_probs_def)
    qed
    have s: "length ?s = V" "?s ! t = ?score k t" if "t < V" for t
      using that lens p [OF that] by (simp_all add: recovery_score_def)
    have ls: "length ?s = V" using lens by simp
    then have ne: "?s \<noteq> []" using d(4) by (auto simp flip: length_0_conv)
    note fm = first_max_props [OF ne, folded recovered_at_def]
    have r: "?r < V" using fm(1) unfolding ls .
    have most: "?score k t \<le> ?score k ?r" if "t < V" for t
      using fm(3) [of t, unfolded ls, OF that] unfolding s(2) [OF that] s(2) [OF r] .
    have "case draft_probs of None \<Rightarrow> int ?r \<noteq> draft ! k \<and> 0 < target_probs ! k ! ?r
          | Some dp \<Rightarrow> dp ! k ! ?r < target_probs ! k ! ?r" if t: "t < V" "0 < ?score k t" for t
    proof -
      have "?q \<in> set q" "?q ! ?r \<in> set ?q" using assms(2) owner_bounds(1) [OF k] lens(2) r by (simp_all add: probs_shape_def)
      then have q: "0 < ?q ! ?r" using assms(3) by blast
      have "0 < ?score k ?r" using most [OF t(1)] t(2) by linarith
      then have "0 < ?p ! ?r / ?q ! ?r" using sign p [OF r] by (simp add: recovery_score_def)
      then have pos: "0 < ?p ! ?r" using q by (simp add: zero_less_divide_iff)
      then show ?thesis using p [OF r] sign [of "target_probs ! k ! ?r - the draft_probs ! k ! ?r"]
        by (auto simp: less_max_iff_disj split: option.splits if_splits)
    qed
    moreover have "?r = 0" if "\<forall>t < V. ?score k t = 0"
      using first_max_zeros [of ?s] that s ls ne unfolding recovered_at_def by auto
    ultimately show ?thesis using k r most by (intro exI [of _ ?r]) auto
  qed
  have "length ?rec = sum_list ns" by simp
  then show ?thesis using sample_recovered_correct [OF assms(1,2), of rnd junk] main by blast
qed

text \<open>A rounding that flushes small numbers to 0, and a position whose only other token has a small probability.\<close>

definition flush :: "rat \<Rightarrow> rat" where
  "flush x = (if - (1 / 100) < x \<and> x < 1 / 100 then 0 else x)"

definition tiny_target :: "rat list list" where
  "tiny_target = [[0, 999 / 1000, 1 / 1000], [1 / 2, 1 / 4, 1 / 4], [1 / 8, 1 / 8, 3 / 4]]"

theorem recovered_tokens_correct_witness:
  "\<exists>rec. sample_recovered_tokens_pytorch flush (map (\<lambda>_. 7) [0..<3]) (map int (cumulative [2, 1])) [1, 2, 0] None tiny_target
      [[1, 1, 1], [2, 2, 2]] = Inr (rec, tiny_target) \<and> rec ! 0 = 0 \<and> rec ! 2 \<noteq> 0"
proof -
  let ?score = "recovery_score flush [2, 1] [1, 2, 0] None tiny_target [[1, 1, 1], [2, 2, 2]]"
  have shape: "batch_shape [2, 1] 3 [1, 2, 0] None tiny_target" "probs_shape (length [2, 1 :: nat]) 3 [[1, 1, 1 :: rat], [2, 2, 2]]"
    by (simp_all add: batch_shape_def probs_shape_def tiny_target_def)
  have round: "mono flush" "flush 0 = 0" by (auto simp: flush_def intro: monoI)
  have "\<forall>row \<in> set [[1, 1, 1], [2, 2, 2]]. \<forall>x \<in> set row. 0 < (x :: rat)" by simp
  then obtain rec where rec: "sample_recovered_tokens_pytorch flush (map (\<lambda>_. 7) [0..<sum_list [2, 1]]) (map int (cumulative [2, 1])) [1, 2, 0] None
      tiny_target [[1, 1, 1], [2, 2, 2]] = Inr (rec, tiny_target)"
    and all: "\<forall>k < sum_list [2, 1]. \<exists>r < 3. rec ! k = int r \<and> (\<forall>t < 3. ?score k t \<le> ?score k r) \<and>
        ((\<exists>t < 3. 0 < ?score k t) \<longrightarrow> (case None of None \<Rightarrow> int r \<noteq> [1, 2, 0] ! k \<and> 0 < tiny_target ! k ! r
          | Some dp \<Rightarrow> dp ! k ! r < tiny_target ! k ! r)) \<and> ((\<forall>t < 3. ?score k t = 0) \<longrightarrow> r = 0)"
    using recovered_tokens_correct [OF shape _ round, of "\<lambda>_. 7"] by (elim meta_impE exE conjE) assumption+
  have own: "owner [2, 1] 0 = 0" "owner [2, 1] 2 = 1" by code_simp+
  have "?score 0 t = 0" if "t < 3" for t
    unfolding recovery_score_def own using that by (auto simp: less_Suc_eq numeral_3_eq_3 flush_def tiny_target_def)
  then have "rec ! 0 = 0" using spec [OF all, of 0] by auto
  moreover have "\<exists>t < 3. 0 < ?score 2 t"
    unfolding recovery_score_def own by (rule exI [of _ 2]) (simp add: flush_def tiny_target_def)
  then have "rec ! 2 \<noteq> 0" using spec [OF all, of 2] by auto
  ultimately show ?thesis using rec by auto
qed

end
