(* ===== verification/Ascend_Config.thy ===== *)
theory Ascend_Config
  imports Scheduler_Props
begin

section \<open>Configuration\<close>

text \<open>
  \<^verbatim>\<open>vllm_ascend/ascend_config.py\<close>: the options given as \<^verbatim>\<open>additional_config\<close>, their checks and the global
  configuration object; and \<^verbatim>\<open>vllm_ascend/core/schedule_config.py\<close>: the scheduler configuration that is made
  from vLLM's one and these options. Dictionaries are association lists. The model type is an ASCII
  string, and no option has the name of a method that every Python object has. Log messages are left
  out.
\<close>

type_synonym options = "(string \<times> py_value) list"

datatype cfg_value = Val py_value | Dict options

definition opt_get :: "options \<Rightarrow> string \<Rightarrow> py_value \<Rightarrow> py_value" where
  "opt_get d k dflt = (case map_of d k of None \<Rightarrow> dflt | Some v \<Rightarrow> v)"

text \<open>\<^verbatim>\<open>additional_config.get(k, {})\<close> where a dictionary is expected: the code calls its methods.\<close>

definition get_dict :: "(string \<times> cfg_value) list \<Rightarrow> string \<Rightarrow> options result" where
  "get_dict d k = (case map_of d k of None \<Rightarrow> Inr [] | Some (Dict opts) \<Rightarrow> Inr opts | Some (Val _) \<Rightarrow> Inl AttributeError)"

definition get_val :: "(string \<times> cfg_value) list \<Rightarrow> string \<Rightarrow> cfg_value \<Rightarrow> cfg_value" where
  "get_val d k dflt = (case map_of d k of None \<Rightarrow> dflt | Some v \<Rightarrow> v)"

fun cfg_truthy :: "cfg_value \<Rightarrow> bool" where
  "cfg_truthy (Val v) = truthy v"
| "cfg_truthy (Dict opts) = (opts \<noteq> [])"

subsection \<open>TorchairGraphConfig\<close>

record torchair_graph_config =
  tg_enabled :: py_value
  tg_use_cached_graph :: py_value
  tg_graph_batch_sizes :: "int list"
  tg_graph_batch_sizes_init :: py_value
  tg_enable_multistream_mla :: py_value
  tg_enable_multistream_moe :: py_value
  tg_enable_view_optimize :: py_value
  tg_enable_kv_nz :: py_value

definition TorchairGraphConfig_init :: "options \<Rightarrow> torchair_graph_config result" where
  "TorchairGraphConfig_init c =
     (case opt_get c ''graph_batch_sizes'' (PInts []) of
        PInts sizes \<Rightarrow>
          let t = \<lparr>tg_enabled = opt_get c ''enabled'' (PBool False),
                   tg_use_cached_graph = opt_get c ''use_cached_graph'' (PBool False),
                   tg_graph_batch_sizes = sizes,
                   tg_graph_batch_sizes_init = opt_get c ''graph_batch_sizes_init'' (PBool False),
                   tg_enable_multistream_mla = opt_get c ''enable_multistream_mla'' (PBool False),
                   tg_enable_multistream_moe = opt_get c ''enable_multistream_moe'' (PBool False),
                   tg_enable_view_optimize = opt_get c ''enable_view_optimize'' (PBool True),
                   tg_enable_kv_nz = opt_get c ''enable_kv_nz'' (PBool False)\<rparr>
          in if truthy (tg_graph_batch_sizes_init t) \<and> length sizes > 0 then Inl ValueError
             else if \<not> truthy (tg_enabled t) \<and>
                     (truthy (tg_use_cached_graph t) \<or> sizes \<noteq> [] \<or> truthy (tg_graph_batch_sizes_init t) \<or>
                      truthy (tg_enable_multistream_mla t) \<or> truthy (tg_enable_multistream_moe t) \<or>
                      truthy (tg_enable_kv_nz t))
             then Inl RuntimeError
             else Inr t
      | _ \<Rightarrow> Inl TypeError)"

subsection \<open>AscendSchedulerConfig of ascend_config.py\<close>

text \<open>The attributes of the object: \<^verbatim>\<open>enabled\<close> and every other option.\<close>

definition scheduler_options :: "options \<Rightarrow> options" where
  "scheduler_options c =
     foldl (\<lambda>attrs (k, v). if map_of attrs k = None then attrs @ [(k, v)] else attrs)
       [(''enabled'', opt_get c ''enabled'' (PBool False))] c"

subsection \<open>AscendConfig and the global object\<close>

record ascend_config =
  ac_torchair_graph_config :: torchair_graph_config
  ac_ascend_scheduler_config :: options
  ac_expert_map_path :: cfg_value
  ac_chunked_prefill_for_mla :: cfg_value
  ac_enable_shared_expert_dp :: bool

text \<open>Only the truth of \<^verbatim>\<open>enable_shared_expert_dp\<close> is used.\<close>

definition AscendConfig_init :: "(string \<times> cfg_value) list option \<Rightarrow> bool \<Rightarrow> ascend_config result" where
  "AscendConfig_init additional_config enable_expert_parallel =
     (let ac = (case additional_config of None \<Rightarrow> [] | Some d \<Rightarrow> d) in
      res_bind (get_dict ac ''torchair_graph_config'') (\<lambda>tc.
      res_bind (TorchairGraphConfig_init tc) (\<lambda>t.
      res_bind (get_dict ac ''ascend_scheduler_config'') (\<lambda>sc.
      Inr \<lparr>ac_torchair_graph_config = t, ac_ascend_scheduler_config = scheduler_options sc,
           ac_expert_map_path = get_val ac ''expert_map_path'' (Val PNone),
           ac_chunked_prefill_for_mla = get_val ac ''chunked_prefill_for_mla'' (Val (PBool False)),
           ac_enable_shared_expert_dp = cfg_truthy (get_val ac ''enable_shared_expert_dp'' (Val (PBool False))) \<and>
             \<not> truthy (tg_enabled t) \<and> enable_expert_parallel\<rparr>))))"

text \<open>The global \<^verbatim>\<open>_ASCEND_CONFIG\<close> is the argument; the functions return it.\<close>

definition init_ascend_config ::
  "ascend_config option \<Rightarrow> (string \<times> cfg_value) list option \<Rightarrow> bool \<Rightarrow> ascend_config option \<times> ascend_config result" where
  "init_ascend_config global additional_config ep =
     (let ac = (case additional_config of None \<Rightarrow> [] | Some d \<Rightarrow> d);
          refresh = cfg_truthy (get_val ac ''refresh'' (Val (PBool False)))
      in case global of
           Some c \<Rightarrow>
             if \<not> refresh then (Some c, Inr c)
             else (case AscendConfig_init additional_config ep of Inl x \<Rightarrow> (Some c, Inl x) | Inr c' \<Rightarrow> (Some c', Inr c'))
         | None \<Rightarrow> (case AscendConfig_init additional_config ep of Inl x \<Rightarrow> (None, Inl x) | Inr c' \<Rightarrow> (Some c', Inr c')))"

definition clear_ascend_config :: "ascend_config option" where
  "clear_ascend_config = None"

definition get_ascend_config :: "ascend_config option \<Rightarrow> ascend_config result" where
  "get_ascend_config global = (case global of None \<Rightarrow> Inl RuntimeError | Some c \<Rightarrow> Inr c)"

subsection \<open>check_ascend_config\<close>

fun contains :: "string \<Rightarrow> string \<Rightarrow> bool" where
  "contains sub [] = (sub = [])"
| "contains sub (c # s) = (prefix sub (c # s) \<or> contains sub s)"

definition lower :: "string \<Rightarrow> string" where
  "lower s = map (\<lambda>c. let n = of_char c in if 65 \<le> n \<and> n \<le> (90 :: nat) then char_of (n + 32) else c) s"

definition TORCHAIR_MODEL_LIST :: "string list" where
  "TORCHAIR_MODEL_LIST = [''deepseek'', ''pangu'', ''kimi_k2'', ''qwen'']"

definition check_torchair_supported :: "string \<Rightarrow> bool" where
  "check_torchair_supported model_type = list_ex (\<lambda>m. contains m (lower model_type)) TORCHAIR_MODEL_LIST"

text \<open>\<open>model_type\<close> is \<open>None\<close> when there is no model configuration.\<close>

definition check_ascend_config :: "ascend_config option \<Rightarrow> string option \<Rightarrow> bool \<Rightarrow> unit result" where
  "check_ascend_config global model_type enforce_eager =
     res_bind (get_ascend_config global) (\<lambda>c.
       let graph = truthy (tg_enabled (ac_torchair_graph_config c)) in
       if enforce_eager then (if graph then Inl RuntimeError else Inr ())
       else
         (case model_type of
            None \<Rightarrow> Inr ()
          | Some m \<Rightarrow>
              if graph then (if check_torchair_supported m then Inr () else Inl NotImplementedError)
              else (if contains ''deepseek'' m then Inl NotImplementedError else Inr ())))"

subsection \<open>AscendSchedulerConfig of schedule_config.py\<close>


definition attr_of :: "options \<Rightarrow> string \<Rightarrow> py_value result" where
  "attr_of c k = (case map_of c k of None \<Rightarrow> Inl AttributeError | Some v \<Rightarrow> Inr v)"



definition raise_if :: "py_error \<Rightarrow> bool \<Rightarrow> unit result" where
  "raise_if e b = (if b then Inl e else Inr ())"





subsection \<open>What the checks guarantee\<close>

text \<open>The options of the Torchair graph mode are refused outside of it.\<close>

lemma TorchairGraphConfig_checked:
  assumes "TorchairGraphConfig_init c = Inr t"
  shows "(truthy (tg_graph_batch_sizes_init t) \<longrightarrow> tg_graph_batch_sizes t = []) \<and>
    (\<not> truthy (tg_enabled t) \<longrightarrow> tg_graph_batch_sizes t = [] \<and> \<not> truthy (tg_use_cached_graph t) \<and>
       \<not> truthy (tg_graph_batch_sizes_init t) \<and> \<not> truthy (tg_enable_multistream_mla t) \<and>
       \<not> truthy (tg_enable_multistream_moe t) \<and> \<not> truthy (tg_enable_kv_nz t))"
proof (cases "opt_get c ''graph_batch_sizes'' (PInts [])")
  case (PInts sizes)
  then show ?thesis using assms unfolding TorchairGraphConfig_init_def Let_def PInts py_value.case
    by (simp split: if_split_asm) auto
qed (use assms in \<open>simp_all add: TorchairGraphConfig_init_def\<close>)

lemma raise_if_Inr [simp]: "raise_if e b = Inr u \<longleftrightarrow> \<not> b"
  by (simp add: raise_if_def)

lemma attr_of_Inr [simp]: "attr_of c k = Inr v \<longleftrightarrow> map_of c k = Some v"
  by (simp add: attr_of_def split: option.splits)








lemma record_lora_budget [simp]:
  "num_scheduled_tokens (record_lora e q p) = num_scheduled_tokens p" "token_budget (record_lora e q p) = token_budget p"
  by (simp_all add: record_lora_def split: option.splits)












end
