(* ===== verification/Camem_Allocator.thy ===== *)
theory Camem_Allocator
  imports Prelude
begin

section \<open>The sleep mode allocator\<close>

text \<open>
  \<^verbatim>\<open>vllm_ascend/device_allocator/camem.py\<close> and the two calls of the worker that use it. The device memory maps
  the address of each allocation to its content while physical memory is mapped there. The C++ part
  (\<^verbatim>\<open>csrc/camem_allocator.cpp\<close>) prints the errors of the driver and returns, and the Python part ignores the return codes
  of \<^verbatim>\<open>memcpy\<close>: which calls of the driver succeed is the parameter \<open>dv\<close>, and nothing else tells the caller. Mapping memory
  that is mapped, or unmapping memory that is not, fails in any case, and so does a copy to or from memory that is not
  mapped. What new memory holds is a parameter: \<open>fresh\<close> for the device, \<open>junk\<close> for the host.
\<close>

type_synonym bytes = "nat list"

record handle =
  h_device :: int
  h_size :: nat
  h_mem :: int
  h_handle :: int

record allocation_data =
  ad_handle :: handle
  ad_tag :: string
  ad_backup :: "bytes option"

record camem =
  cm_pointer_to_data :: "(int \<times> allocation_data) list"
  cm_current_tag :: string
  cm_pools :: "(string \<times> nat) list"
  cm_device :: "int \<rightharpoonup> bytes"

definition default_tag :: string where "default_tag = ''default''"

text \<open>\<open>conf\<close> is the variable \<^verbatim>\<open>PYTORCH_NPU_ALLOC_CONF\<close>; \<open>expandable\<close> tells whether it turns on expandable segments.\<close>

definition camem_init :: "bool \<Rightarrow> camem result" where
  "camem_init expandable =
     res_bind (py_assert (\<not> expandable)) (\<lambda>_.
       Inr \<lparr>cm_pointer_to_data = [], cm_current_tag = default_tag, cm_pools = [], cm_device = Map.empty\<rparr>)"

definition get_instance :: "camem option \<Rightarrow> bool \<Rightarrow> camem option \<times> camem result" where
  "get_instance inst expandable =
     (case inst of
        Some c \<Rightarrow> (Some c, Inr c)
      | None \<Rightarrow> (case camem_init expandable of Inl x \<Rightarrow> (None, Inl x) | Inr c \<Rightarrow> (Some c, Inr c)))"

subsection \<open>Physical memory\<close>

text \<open>Which calls succeed for an address during one call of the allocator; each is made at most once.\<close>

record driver =
  dv_map :: "int \<Rightarrow> bool"
  dv_unmap :: "int \<Rightarrow> bool"
  dv_to_host :: "int \<Rightarrow> bool"
  dv_to_device :: "int \<Rightarrow> bool"

definition create_and_map :: "driver \<Rightarrow> (int \<Rightarrow> nat \<Rightarrow> bytes) \<Rightarrow> (int \<rightharpoonup> bytes) \<Rightarrow> handle \<Rightarrow> (int \<rightharpoonup> bytes)" where
  "create_and_map dv fresh dev h =
     (if dv_map dv (h_mem h) \<and> dev (h_mem h) = None then dev(h_mem h \<mapsto> fresh (h_mem h) (h_size h)) else dev)"

definition unmap_and_release :: "driver \<Rightarrow> (int \<rightharpoonup> bytes) \<Rightarrow> handle \<Rightarrow> (int \<rightharpoonup> bytes)" where
  "unmap_and_release dv dev h = (if dv_unmap dv (h_mem h) then dev(h_mem h := None) else dev)"

text \<open>\<^verbatim>\<open>memcpy\<close> of the first \<open>n\<close> bytes to the host and to the device.\<close>

definition copy_to_host :: "driver \<Rightarrow> (int \<rightharpoonup> bytes) \<Rightarrow> int \<Rightarrow> nat \<Rightarrow> bytes \<Rightarrow> bytes" where
  "copy_to_host dv dev ptr n host =
     (case dev ptr of None \<Rightarrow> host | Some c \<Rightarrow> if dv_to_host dv ptr then take n c @ drop n host else host)"

definition copy_to_device :: "driver \<Rightarrow> (int \<rightharpoonup> bytes) \<Rightarrow> int \<Rightarrow> bytes \<Rightarrow> (int \<rightharpoonup> bytes)" where
  "copy_to_device dv dev ptr host =
     (case dev ptr of None \<Rightarrow> dev | Some c \<Rightarrow> if dv_to_device dv ptr then dev(ptr \<mapsto> host @ drop (length host) c) else dev)"

subsection \<open>Allocations\<close>

definition python_malloc_callback :: "camem \<Rightarrow> handle \<Rightarrow> camem" where
  "python_malloc_callback c h =
     c\<lparr>cm_pointer_to_data := dict_set (h_mem h) \<lparr>ad_handle = h, ad_tag = cm_current_tag c, ad_backup = None\<rparr> (cm_pointer_to_data c)\<rparr>"

definition python_free_callback :: "camem \<Rightarrow> int \<Rightarrow> (camem \<times> handle) result" where
  "python_free_callback c ptr =
     res_bind (dict_item (cm_pointer_to_data c) ptr) (\<lambda>d.
       Inr (c\<lparr>cm_pointer_to_data := dict_pop ptr (cm_pointer_to_data c)\<rparr>, ad_handle d))"

text \<open>
  \<^verbatim>\<open>my_malloc\<close> and \<^verbatim>\<open>my_free\<close> of the C++ part, which make the callbacks. \<open>reserved\<close> is the address range that the driver
  reserved, if it did; the result is the address, or none.
\<close>

definition my_malloc :: "driver \<Rightarrow> (int \<Rightarrow> nat \<Rightarrow> bytes) \<Rightarrow> camem \<Rightarrow> handle option \<Rightarrow> camem \<times> int option" where
  "my_malloc dv fresh c reserved =
     (case reserved of
        None \<Rightarrow> (c, None)
      | Some h \<Rightarrow>
          let c1 = python_malloc_callback c h in (c1\<lparr>cm_device := create_and_map dv fresh (cm_device c1) h\<rparr>, Some (h_mem h)))"

definition my_free :: "driver \<Rightarrow> camem \<Rightarrow> int \<Rightarrow> camem result" where
  "my_free dv c ptr =
     res_bind (python_free_callback c ptr) (\<lambda>(c1, h). Inr (c1\<lparr>cm_device := unmap_and_release dv (cm_device c1) h\<rparr>))"

subsection \<open>Sleep and wake up\<close>

fun sleep_items ::
  "driver \<Rightarrow> (int \<Rightarrow> nat \<Rightarrow> bytes) \<Rightarrow> string list \<Rightarrow> (int \<rightharpoonup> bytes) \<Rightarrow> (int \<times> allocation_data) list \<Rightarrow>
   (int \<rightharpoonup> bytes) \<times> (int \<times> allocation_data) list" where
  "sleep_items dv junk tags dev [] = (dev, [])"
| "sleep_items dv junk tags dev ((ptr, d) # rest) =
     (let h = ad_handle d;
          d' = (if ad_tag d \<in> set tags
                then d\<lparr>ad_backup := Some (copy_to_host dv dev ptr (h_size h) (junk ptr (h_size h)))\<rparr> else d);
          (dev', rest') = sleep_items dv junk tags (unmap_and_release dv dev h) rest
      in (dev', (ptr, d') # rest'))"

text \<open>\<^verbatim>\<open>offload_tags\<close>: not given, one tag, a tuple of tags, or something else.\<close>

datatype offload_tags = NoTags | OneTag string | TagTuple "string list" | OtherTags

definition camem_sleep :: "driver \<Rightarrow> (int \<Rightarrow> nat \<Rightarrow> bytes) \<Rightarrow> camem \<Rightarrow> offload_tags \<Rightarrow> camem result" where
  "camem_sleep dv junk c offload_tags =
     res_bind
       (case offload_tags of
          NoTags \<Rightarrow> Inr [default_tag] | OneTag t \<Rightarrow> Inr [t] | TagTuple ts \<Rightarrow> Inr ts | OtherTags \<Rightarrow> Inl AssertionError)
       (\<lambda>tags.
          let (dev, items) = sleep_items dv junk tags (cm_device c) (cm_pointer_to_data c)
          in Inr (c\<lparr>cm_device := dev, cm_pointer_to_data := items\<rparr>))"

fun wake_items ::
  "driver \<Rightarrow> (int \<Rightarrow> nat \<Rightarrow> bytes) \<Rightarrow> string list option \<Rightarrow> (int \<rightharpoonup> bytes) \<Rightarrow> (int \<times> allocation_data) list \<Rightarrow>
   (int \<rightharpoonup> bytes) \<times> (int \<times> allocation_data) list" where
  "wake_items dv fresh tags dev [] = (dev, [])"
| "wake_items dv fresh tags dev ((ptr, d) # rest) =
     (let (dev1, d') =
            (if (case tags of None \<Rightarrow> True | Some ts \<Rightarrow> ad_tag d \<in> set ts) then
               let dev0 = create_and_map dv fresh dev (ad_handle d) in
               (case ad_backup d of
                  None \<Rightarrow> (dev0, d)
                | Some b \<Rightarrow> (copy_to_device dv dev0 ptr b, d\<lparr>ad_backup := None\<rparr>))
             else (dev, d));
          (dev2, rest') = wake_items dv fresh tags dev1 rest
      in (dev2, (ptr, d') # rest'))"

definition camem_wake_up :: "driver \<Rightarrow> (int \<Rightarrow> nat \<Rightarrow> bytes) \<Rightarrow> camem \<Rightarrow> string list option \<Rightarrow> camem" where
  "camem_wake_up dv fresh c tags =
     (let (dev, items) = wake_items dv fresh tags (cm_device c) (cm_pointer_to_data c)
      in c\<lparr>cm_device := dev, cm_pointer_to_data := items\<rparr>)"

subsection \<open>Memory pools and usage\<close>

text \<open>
  The body runs with the tag of the pool; the tag is restored when the body returns. \<open>pool\<close> is the
  pool object of PyTorch.
\<close>

definition use_memory_pool :: "camem \<Rightarrow> string option \<Rightarrow> nat \<Rightarrow> (camem \<Rightarrow> camem \<times> unit result) \<Rightarrow> camem \<times> unit result" where
  "use_memory_pool c tag pool body =
     (let t = (case tag of None \<Rightarrow> default_tag | Some t \<Rightarrow> t);
          old_tag = cm_current_tag c;
          (c1, res) = body (c\<lparr>cm_current_tag := t, cm_pools := dict_set t pool (cm_pools c)\<rparr>)
      in case res of Inl x \<Rightarrow> (c1, Inl x) | Inr _ \<Rightarrow> (c1\<lparr>cm_current_tag := old_tag\<rparr>, Inr ()))"

definition get_current_usage :: "camem \<Rightarrow> nat" where
  "get_current_usage c = sum_list (map (\<lambda>(_, d). h_size (ad_handle d)) (cm_pointer_to_data c))"

subsection \<open>The worker's calls\<close>

text \<open>\<open>enabled\<close> is \<^verbatim>\<open>sleep_mode_enabled()\<close>; \<open>mem_free\<close> the free memory that the platform reports of a state.\<close>

definition worker_sleep :: "driver \<Rightarrow> (int \<Rightarrow> nat \<Rightarrow> bytes) \<Rightarrow> bool \<Rightarrow> (camem \<Rightarrow> int) \<Rightarrow> camem \<Rightarrow> int \<Rightarrow> camem \<times> unit result" where
  "worker_sleep dv junk enabled mem_free c level =
     (if \<not> enabled then (c, Inl ValueError)
      else
        (case camem_sleep dv junk c (TagTuple (if level = 1 then [''weights''] else [])) of
           Inl x \<Rightarrow> (c, Inl x)
         | Inr c' \<Rightarrow> (c', py_assert (0 \<le> mem_free c' - mem_free c))))"

definition worker_wake_up :: "driver \<Rightarrow> (int \<Rightarrow> nat \<Rightarrow> bytes) \<Rightarrow> bool \<Rightarrow> camem \<Rightarrow> string list option \<Rightarrow> camem result" where
  "worker_wake_up dv fresh enabled c tags = (if \<not> enabled then Inl ValueError else Inr (camem_wake_up dv fresh c tags))"

subsection \<open>What sleeping and waking do to each allocation\<close>

definition camem_wf :: "camem \<Rightarrow> bool" where
  "camem_wf c \<longleftrightarrow> distinct (map fst (cm_pointer_to_data c)) \<and>
     (\<forall>(p, d) \<in> set (cm_pointer_to_data c). h_mem (ad_handle d) = p)"

text \<open>All memory is mapped, with content of the right size, and there are no backups.\<close>

definition awake :: "camem \<Rightarrow> bool" where
  "awake c \<longleftrightarrow> camem_wf c \<and> (\<forall>(p, d) \<in> set (cm_pointer_to_data c). ad_backup d = None \<and>
     (\<exists>b. cm_device c p = Some b \<and> length b = h_size (ad_handle d)))"

abbreviation offload :: "driver \<Rightarrow> (int \<Rightarrow> nat \<Rightarrow> bytes) \<Rightarrow> string list \<Rightarrow> (int \<rightharpoonup> bytes) \<Rightarrow> int \<times> allocation_data \<Rightarrow> int \<times> allocation_data" where
  "offload dv junk tags dev pd \<equiv> (case pd of (p, d) \<Rightarrow> (p, if ad_tag d \<in> set tags
     then d\<lparr>ad_backup := Some (copy_to_host dv dev p (h_size (ad_handle d)) (junk p (h_size (ad_handle d))))\<rparr> else d))"

definition unmapped :: "driver \<Rightarrow> int set \<Rightarrow> (int \<rightharpoonup> bytes) \<Rightarrow> (int \<rightharpoonup> bytes)" where
  "unmapped dv ps dev = (\<lambda>p. if p \<in> ps \<and> dv_unmap dv p then None else dev p)"

lemma sleep_items_eq:
  assumes "distinct (map fst xs)" "\<forall>(p, d) \<in> set xs. h_mem (ad_handle d) = p"
  shows "sleep_items dv junk tags dev xs = (unmapped dv (fst ` set xs) dev, map (offload dv junk tags dev) xs)"
  using assms
proof (induction xs arbitrary: dev)
  case (Cons x xs)
  obtain p d where x: "x = (p, d)" by fastforce
  let ?dev = "unmap_and_release dv dev (ad_handle d)"
  have p: "h_mem (ad_handle d) = p" using Cons.prems x by simp
  have items: "map (offload dv junk tags ?dev) xs = map (offload dv junk tags dev) xs"
    using Cons.prems x p by (intro map_cong) (auto simp: unmap_and_release_def copy_to_host_def image_iff)
  have dev: "unmapped dv (fst ` set xs) ?dev = unmapped dv (fst ` set (x # xs)) dev"
    by (auto simp: unmapped_def unmap_and_release_def fun_eq_iff x p)
  have "sleep_items dv junk tags ?dev xs = (unmapped dv (fst ` set (x # xs)) dev, map (offload dv junk tags dev) xs)"
    using Cons.IH [of ?dev] Cons.prems unfolding items dev by simp
  then show ?case by (simp add: x Let_def)
qed (simp add: unmapped_def)

definition wanted :: "string list option \<Rightarrow> allocation_data \<Rightarrow> bool" where
  "wanted tags d = (case tags of None \<Rightarrow> True | Some ts \<Rightarrow> ad_tag d \<in> set ts)"

text \<open>What is at the address of an allocation after it was woken up.\<close>

definition woken :: "driver \<Rightarrow> (int \<Rightarrow> nat \<Rightarrow> bytes) \<Rightarrow> (int \<rightharpoonup> bytes) \<Rightarrow> allocation_data \<Rightarrow> bytes option" where
  "woken dv fresh dev d =
     (let h = ad_handle d;
          old = (if dv_map dv (h_mem h) \<and> dev (h_mem h) = None then Some (fresh (h_mem h) (h_size h)) else dev (h_mem h))
      in case ad_backup d of
           None \<Rightarrow> old
         | Some b \<Rightarrow> if dv_to_device dv (h_mem h) then map_option (\<lambda>c. b @ drop (length b) c) old else old)"

lemma woken_cong: "dev (h_mem (ad_handle d)) = dev' (h_mem (ad_handle d)) \<Longrightarrow> woken dv fresh dev d = woken dv fresh dev' d"
  unfolding woken_def Let_def by (simp only:)

lemma wake_step:
  assumes "h_mem (ad_handle d) = p"
  shows "(let dev0 = create_and_map dv fresh dev (ad_handle d) in
      case ad_backup d of None \<Rightarrow> (dev0, d) | Some b \<Rightarrow> (copy_to_device dv dev0 p b, d\<lparr>ad_backup := None\<rparr>)) =
    (dev(p := woken dv fresh dev d), d\<lparr>ad_backup := None\<rparr>)"
  using assms
  by (cases d) (auto simp: create_and_map_def copy_to_device_def woken_def Let_def fun_eq_iff split: option.splits)

lemma wake_items_eq:
  assumes "distinct (map fst xs)" "\<forall>(p, d) \<in> set xs. h_mem (ad_handle d) = p"
  shows "wake_items dv fresh tags dev xs =
    ((\<lambda>p. case map_of xs p of None \<Rightarrow> dev p | Some d \<Rightarrow> if wanted tags d then woken dv fresh dev d else dev p),
     map (\<lambda>(p, d). (p, if wanted tags d then d\<lparr>ad_backup := None\<rparr> else d)) xs)"
  using assms
proof (induction xs arbitrary: dev)
  case (Cons x xs)
  obtain p d where x: "x = (p, d)" by fastforce
  have p: "h_mem (ad_handle d) = p" using Cons.prems x by simp
  let ?dev = "if wanted tags d then dev(p := woken dv fresh dev d) else dev"
  let ?d = "if wanted tags d then d\<lparr>ad_backup := None\<rparr> else d"
  have one: "wake_items dv fresh tags dev (x # xs) = (let (dev2, rest) = wake_items dv fresh tags ?dev xs in (dev2, (p, ?d) # rest))"
    using wake_step [OF p, of dv fresh dev] by (simp add: x wanted_def Let_def)
  have other: "woken dv fresh ?dev d' = woken dv fresh dev d' \<and> ?dev q = dev q" if "map_of xs q = Some d'" for q d'
  proof -
    have "(q, d') \<in> set xs" using that by (rule map_of_SomeD)
    then have "h_mem (ad_handle d') = q" "q \<noteq> p" using Cons.prems x by force+
    then show ?thesis by (intro conjI woken_cong) simp_all
  qed
  have fresh_p: "map_of xs p = None" using Cons.prems(1) x by (simp add: map_of_eq_None_iff)
  have "(\<lambda>q. case map_of xs q of None \<Rightarrow> ?dev q | Some d' \<Rightarrow> if wanted tags d' then woken dv fresh ?dev d' else ?dev q) =
      (\<lambda>q. case map_of (x # xs) q of None \<Rightarrow> dev q | Some d' \<Rightarrow> if wanted tags d' then woken dv fresh dev d' else dev q)"
  proof
    fix q
    show "(case map_of xs q of None \<Rightarrow> ?dev q | Some d' \<Rightarrow> if wanted tags d' then woken dv fresh ?dev d' else ?dev q) =
        (case map_of (x # xs) q of None \<Rightarrow> dev q | Some d' \<Rightarrow> if wanted tags d' then woken dv fresh dev d' else dev q)"
      using other [of q] fresh_p by (cases "q = p"; cases "map_of xs q") (simp_all add: x)
  qed
  then show ?case using one Cons.IH [of ?dev] Cons.prems by (simp add: x)
qed simp

lemma camem_sleep_eq:
  assumes "camem_wf c" "camem_sleep dv junk c (TagTuple tags) = Inr c1"
  shows "cm_pointer_to_data c1 = map (offload dv junk tags (cm_device c)) (cm_pointer_to_data c)"
    and "cm_device c1 = unmapped dv (fst ` set (cm_pointer_to_data c)) (cm_device c)"
    and "camem_wf c1" "cm_current_tag c1 = cm_current_tag c" "cm_pools c1 = cm_pools c"
proof -
  have c1: "c1 = c\<lparr>cm_device := unmapped dv (fst ` set (cm_pointer_to_data c)) (cm_device c),
      cm_pointer_to_data := map (offload dv junk tags (cm_device c)) (cm_pointer_to_data c)\<rparr>"
    using assms by (simp add: camem_sleep_def camem_wf_def sleep_items_eq)
  have "map fst (map (offload dv junk tags (cm_device c)) (cm_pointer_to_data c)) = map fst (cm_pointer_to_data c)"
    by (simp add: case_prod_unfold)
  then show "camem_wf c1" using assms(1) by (auto simp: c1 camem_wf_def simp del: map_map)
  show "cm_pointer_to_data c1 = map (offload dv junk tags (cm_device c)) (cm_pointer_to_data c)"
    "cm_device c1 = unmapped dv (fst ` set (cm_pointer_to_data c)) (cm_device c)"
    "cm_current_tag c1 = cm_current_tag c" "cm_pools c1 = cm_pools c"
    by (simp_all add: c1)
qed

lemma camem_wake_eq:
  assumes "camem_wf c"
  shows "camem_wake_up dv fresh c tags = c\<lparr>cm_device := \<lambda>p. case map_of (cm_pointer_to_data c) p of
        None \<Rightarrow> cm_device c p | Some d \<Rightarrow> if wanted tags d then woken dv fresh (cm_device c) d else cm_device c p,
      cm_pointer_to_data := map (\<lambda>(p, d). (p, if wanted tags d then d\<lparr>ad_backup := None\<rparr> else d)) (cm_pointer_to_data c)\<rparr>"
  using assms by (simp add: camem_wake_up_def camem_wf_def wake_items_eq)

lemma camem_wake_wf: "camem_wf c \<Longrightarrow> camem_wf (camem_wake_up dv fresh c tags)"
  by (auto simp: camem_wake_eq camem_wf_def case_prod_unfold comp_def)

text \<open>
  What is at the address of an allocation after sleep and wake up, given what the driver did in both: \<open>old\<close> is what was
  there before.
\<close>

definition slept_and_woken :: "driver \<Rightarrow> driver \<Rightarrow> (int \<Rightarrow> nat \<Rightarrow> bytes) \<Rightarrow> (int \<Rightarrow> nat \<Rightarrow> bytes) \<Rightarrow> string list \<Rightarrow> int \<Rightarrow>
    allocation_data \<Rightarrow> bytes \<Rightarrow> bytes option" where
  "slept_and_woken dv dv' junk fresh tags p d old =
     (let n = h_size (ad_handle d);
          mapped = (if \<not> dv_unmap dv p then Some old else if dv_map dv' p then Some (fresh p n) else None);
          saved = (if dv_to_host dv p then old else junk p n)
      in if ad_tag d \<in> set tags \<and> dv_to_device dv' p then map_option (\<lambda>_. saved) mapped else mapped)"

lemma woken_after_sleep:
  assumes "awake c" "(p, d) \<in> set (cm_pointer_to_data c)" "camem_sleep dv junk c (TagTuple tags) = Inr c1"
    and "\<And>p n. length (fresh p n) = n" "\<And>p n. length (junk p n) = n" "cm_device c p = Some old"
  shows "woken dv' fresh (cm_device c1) (snd (offload dv junk tags (cm_device c) (p, d))) =
    slept_and_woken dv dv' junk fresh tags p d old"
proof -
  have wf: "camem_wf c" using assms(1) by (simp add: awake_def)
  have b: "length old = h_size (ad_handle d)" "ad_backup d = None" "h_mem (ad_handle d) = p"
    using assms(1,2,6) by (fastforce simp: awake_def camem_wf_def)+
  have "cm_device c1 p = (if dv_unmap dv p then None else Some old)"
    using camem_sleep_eq(2) [OF wf assms(3)] assms(2,6) by (force simp: unmapped_def)
  then show ?thesis using b assms(4-6) by (auto simp: woken_def copy_to_host_def slept_and_woken_def Let_def)
qed

lemma map_of_offload:
  "map_of (map (offload dv junk tags dev) xs) p = map_option (\<lambda>d. snd (offload dv junk tags dev (p, d))) (map_of xs p)"
  by (induction xs) auto

lemma map_of_wake:
  "map_of (map (\<lambda>(p, d). (p, if wanted tags d then d\<lparr>ad_backup := None\<rparr> else d)) xs) p =
   map_option (\<lambda>d. if wanted tags d then d\<lparr>ad_backup := None\<rparr> else d) (map_of xs p)"
  by (induction xs) auto

text \<open>Waking up the tags in two groups is waking up all.\<close>

lemma wake_in_two:
  assumes "camem_wf c" "\<And>p d. (p, d) \<in> set (cm_pointer_to_data c) \<Longrightarrow> wanted (Some us) d \<longleftrightarrow> \<not> wanted (Some ts) d"
  shows "camem_wake_up dv fresh (camem_wake_up dv fresh c (Some ts)) (Some us) = camem_wake_up dv fresh c None"
proof -
  let ?xs = "cm_pointer_to_data c" and ?c1 = "camem_wake_up dv fresh c (Some ts)"
  have tag: "wanted tags (d\<lparr>ad_backup := None\<rparr>) = wanted tags d" for tags d by (cases tags) (simp_all add: wanted_def)
  have items: "map (\<lambda>(p, d). (p, if wanted (Some us) d then d\<lparr>ad_backup := None\<rparr> else d))
      (map (\<lambda>(p, d). (p, if wanted (Some ts) d then d\<lparr>ad_backup := None\<rparr> else d)) ?xs) =
      map (\<lambda>(p, d). (p, if wanted None d then d\<lparr>ad_backup := None\<rparr> else d)) ?xs"
    using assms(2) by (auto simp: tag wanted_def [of None])
  have dev: "(case map_of (cm_pointer_to_data ?c1) p of None \<Rightarrow> cm_device ?c1 p
        | Some d \<Rightarrow> if wanted (Some us) d then woken dv fresh (cm_device ?c1) d else cm_device ?c1 p) =
      (case map_of ?xs p of None \<Rightarrow> cm_device c p | Some d \<Rightarrow> if wanted None d then woken dv fresh (cm_device c) d else cm_device c p)"
    for p
  proof (cases "map_of ?xs p")
    case None
    then show ?thesis by (simp add: camem_wake_eq [OF assms(1)] map_of_wake)
  next
    case (Some d)
    then have d: "(p, d) \<in> set ?xs" by (rule map_of_SomeD)
    then have h: "h_mem (ad_handle d) = p" using assms(1) by (auto simp: camem_wf_def)
    have other: "wanted (Some us) d \<longleftrightarrow> \<not> wanted (Some ts) d" using assms(2) d by blast
    have "woken dv fresh (cm_device ?c1) d = woken dv fresh (cm_device c) d" if "\<not> wanted (Some ts) d"
      using that Some h by (intro woken_cong) (simp add: camem_wake_eq [OF assms(1)])
    then show ?thesis using Some other
      by (simp add: camem_wake_eq [OF assms(1)] map_of_wake tag wanted_def [of None])
  qed
  have "camem_wake_up dv fresh ?c1 (Some us) = ?c1\<lparr>cm_device := \<lambda>p. case map_of (cm_pointer_to_data ?c1) p of
        None \<Rightarrow> cm_device ?c1 p | Some d \<Rightarrow> if wanted (Some us) d then woken dv fresh (cm_device ?c1) d else cm_device ?c1 p,
      cm_pointer_to_data := map (\<lambda>(p, d). (p, if wanted (Some us) d then d\<lparr>ad_backup := None\<rparr> else d)) (cm_pointer_to_data ?c1)\<rparr>"
    by (rule camem_wake_eq) (rule camem_wake_wf [OF assms(1)])
  also have "\<dots> = camem_wake_up dv fresh c None"
    unfolding dev using items by (simp add: camem_wake_eq [OF assms(1)])
  finally show ?thesis .
qed

text \<open>
  C39. Sleep and wake up, whatever calls of the driver fail, which no caller is told: starting awake, sleeping with a tuple of
  tags unmaps every allocation whose unmapping succeeds and touches no other memory. Waking up drops every backup. Afterwards an
  allocation of an offloaded tag has its content if the copy to the host, the mapping and the copy back succeeded; it has
  undefined content when the first copy failed, is not mapped at all when the mapping failed, and has new memory when only the copy back
  failed (\<open>slept_and_woken\<close>). When no call fails, every offloaded allocation has the content it had before, every other
  one new memory, and the allocator is awake again. Waking up some tags first and the rest later gives the same.
\<close>

theorem sleep_wake_roundtrip:
  assumes "awake c" "camem_sleep dv junk c (TagTuple tags) = Inr c1"
    and "\<forall>p n. length (fresh p n) = n" "\<forall>p n. length (junk p n) = n"
  shows "(\<forall>p. cm_device c1 p = (if p \<in> fst ` set (cm_pointer_to_data c) \<and> dv_unmap dv p then None else cm_device c p)) \<and>
    (\<forall>(p, d) \<in> set (cm_pointer_to_data c).
       cm_device (camem_wake_up dv' fresh c1 None) p = slept_and_woken dv dv' junk fresh tags p d (the (cm_device c p)) \<and>
       (ad_tag d \<in> set tags \<and> dv_to_host dv p \<and> dv_map dv' p \<and> dv_to_device dv' p \<longrightarrow>
          cm_device (camem_wake_up dv' fresh c1 None) p = cm_device c p)) \<and>
    (\<forall>p. p \<notin> fst ` set (cm_pointer_to_data c) \<longrightarrow> cm_device (camem_wake_up dv' fresh c1 None) p = cm_device c p) \<and>
    cm_pointer_to_data (camem_wake_up dv' fresh c1 None) = cm_pointer_to_data c \<and>
    ((\<forall>p. dv_unmap dv p \<and> dv_to_host dv p \<and> dv_map dv' p \<and> dv_to_device dv' p) \<longrightarrow>
       awake (camem_wake_up dv' fresh c1 None) \<and>
       (\<forall>(p, d) \<in> set (cm_pointer_to_data c). cm_device (camem_wake_up dv' fresh c1 None) p =
          (if ad_tag d \<in> set tags then cm_device c p else Some (fresh p (h_size (ad_handle d)))))) \<and>
    (\<forall>ts us. (\<forall>(p, d) \<in> set (cm_pointer_to_data c). ad_tag d \<in> set us \<longleftrightarrow> ad_tag d \<notin> set ts) \<longrightarrow>
       camem_wake_up dv' fresh (camem_wake_up dv' fresh c1 (Some ts)) (Some us) = camem_wake_up dv' fresh c1 None)"
proof -
  let ?xs = "cm_pointer_to_data c" and ?c2 = "camem_wake_up dv' fresh c1 None"
  have wf: "camem_wf c" using assms(1) by (simp add: awake_def)
  note s = camem_sleep_eq [OF wf assms(2)]
  have fresh: "length (fresh p n) = n" and junk: "length (junk p n) = n" for p n using assms(3,4) by auto
  have mo: "map_of ?xs p = Some d" if "(p, d) \<in> set ?xs" for p d using wf that by (simp add: camem_wf_def)
  have old: "cm_device c p = Some (the (cm_device c p)) \<and> length (the (cm_device c p)) = h_size (ad_handle d)" if "(p, d) \<in> set ?xs" for p d
    using assms(1) that by (fastforce simp: awake_def)
  have on_dev: "cm_device ?c2 p = slept_and_woken dv dv' junk fresh tags p d (the (cm_device c p))" if pd: "(p, d) \<in> set ?xs" for p d
  proof -
    have "map_of (cm_pointer_to_data c1) p = Some (snd (offload dv junk tags (cm_device c) (p, d)))"
      unfolding s(1) map_of_offload mo [OF pd] by simp
    then have "cm_device ?c2 p = woken dv' fresh (cm_device c1) (snd (offload dv junk tags (cm_device c) (p, d)))"
      by (simp add: camem_wake_eq [OF s(3)] wanted_def)
    then show ?thesis using woken_after_sleep [OF assms(1) pd assms(2) fresh junk conjunct1 [OF old [OF pd]]] by simp
  qed
  have kept: "cm_device ?c2 p = cm_device c p"
    if "(p, d) \<in> set ?xs" "ad_tag d \<in> set tags" "dv_to_host dv p" "dv_map dv' p" "dv_to_device dv' p" for p d
    using on_dev [OF that(1)] that conjunct1 [OF old [OF that(1)]] 
    by (cases "cm_device c p"; cases "dv_unmap dv p") (simp_all add: slept_and_woken_def Let_def)
  have all: "cm_device ?c2 p = (if ad_tag d \<in> set tags then cm_device c p else Some (fresh p (h_size (ad_handle d))))"
    if "(p, d) \<in> set ?xs" "\<forall>p. dv_unmap dv p \<and> dv_to_host dv p \<and> dv_map dv' p \<and> dv_to_device dv' p" for p d
    using on_dev [OF that(1)] that conjunct1 [OF old [OF that(1)]] by (simp add: slept_and_woken_def Let_def)
  have off_dev: "cm_device ?c2 p = cm_device c p" if "p \<notin> fst ` set ?xs" for p
    using that by (simp add: camem_wake_eq [OF s(3)] s(1,2) unmapped_def map_of_offload map_of_eq_None_iff [THEN iffD2])
  have nobak: "ad_backup d = None" if "(p, d) \<in> set ?xs" for p d using assms(1) that by (auto simp: awake_def)
  have items: "cm_pointer_to_data ?c2 = ?xs"
    unfolding camem_wake_eq [OF s(3)] s(1) by (auto simp: wanted_def nobak intro!: map_idI)
  have aw: "awake ?c2" if "\<forall>p. dv_unmap dv p \<and> dv_to_host dv p \<and> dv_map dv' p \<and> dv_to_device dv' p"
    unfolding awake_def items
  proof (intro conjI camem_wake_wf [OF s(3)] ballI)
    fix x assume x: "x \<in> set ?xs"
    obtain p d where pd: "x = (p, d)" by fastforce
    show "case x of (p, d) \<Rightarrow> ad_backup d = None \<and> (\<exists>b. cm_device ?c2 p = Some b \<and> length b = h_size (ad_handle d))"
      using x pd nobak [of p d] all [OF _ that, of p d] old [of p d] fresh
      by (cases "ad_tag d \<in> set tags"; cases "cm_device c p") auto
  qed
  have two: "camem_wake_up dv' fresh (camem_wake_up dv' fresh c1 (Some ts)) (Some us) = ?c2"
    if "\<forall>(p, d) \<in> set ?xs. ad_tag d \<in> set us \<longleftrightarrow> ad_tag d \<notin> set ts" for ts us
    using that by (intro wake_in_two [OF s(3)]) (auto simp: s(1) wanted_def split: if_splits)
  show ?thesis using s(2) on_dev kept all off_dev items aw two by (auto simp: unmapped_def)
qed

definition demo_camem :: camem where
  "demo_camem = \<lparr>cm_pointer_to_data =
       [(16, \<lparr>ad_handle = \<lparr>h_device = 0, h_size = 2, h_mem = 16, h_handle = 1\<rparr>, ad_tag = ''weights'', ad_backup = None\<rparr>),
        (32, \<lparr>ad_handle = \<lparr>h_device = 0, h_size = 1, h_mem = 32, h_handle = 2\<rparr>, ad_tag = ''kv_cache'', ad_backup = None\<rparr>),
        (48, \<lparr>ad_handle = \<lparr>h_device = 0, h_size = 1, h_mem = 48, h_handle = 3\<rparr>, ad_tag = ''weights'', ad_backup = None\<rparr>)],
     cm_current_tag = default_tag, cm_pools = [], cm_device = [16 \<mapsto> [7, 8], 32 \<mapsto> [9], 48 \<mapsto> [4]]\<rparr>"

text \<open>A driver that fails to map the memory at 48.\<close>

definition demo_driver :: driver where
  "demo_driver = \<lparr>dv_map = (\<lambda>p. p \<noteq> 48), dv_unmap = (\<lambda>_. True), dv_to_host = (\<lambda>_. True), dv_to_device = (\<lambda>_. True)\<rparr>"

theorem sleep_wake_roundtrip_witness:
  "\<exists>c1. camem_sleep demo_driver (\<lambda>_ n. replicate n 5) demo_camem (TagTuple [''weights'']) = Inr c1 \<and>
     (let c2 = camem_wake_up demo_driver (\<lambda>_ n. replicate n 0) c1 None in
      cm_device c2 16 = Some [7, 8] \<and> cm_device c2 32 = Some [0] \<and> cm_device c2 48 = None \<and>
      cm_pointer_to_data c2 = cm_pointer_to_data demo_camem)"
proof -
  have "awake demo_camem" by (simp add: awake_def camem_wf_def demo_camem_def)
  moreover obtain c1 where c1: "camem_sleep demo_driver (\<lambda>_ n. replicate n 5) demo_camem (TagTuple [''weights'']) = Inr c1"
    by (auto simp: camem_sleep_def case_prod_unfold Let_def)
  ultimately have "(\<forall>(p, d) \<in> set (cm_pointer_to_data demo_camem). cm_device (camem_wake_up demo_driver (\<lambda>_ n. replicate n 0) c1 None) p =
      slept_and_woken demo_driver demo_driver (\<lambda>_ n. replicate n 5) (\<lambda>_ n. replicate n 0) [''weights''] p d (the (cm_device demo_camem p))) \<and>
    cm_pointer_to_data (camem_wake_up demo_driver (\<lambda>_ n. replicate n 0) c1 None) = cm_pointer_to_data demo_camem"
    using sleep_wake_roundtrip [of demo_camem demo_driver "\<lambda>_ n. replicate n 5" "[''weights'']" c1 "\<lambda>_ n. replicate n 0" demo_driver] by auto
  then show ?thesis unfolding c1
    by (intro exI [of _ c1]) (simp add: demo_camem_def demo_driver_def slept_and_woken_def Let_def)
qed

text \<open>An exception in the body of a pool leaves its tag as the current one.\<close>

lemma use_memory_pool_raises:
  assumes "use_memory_pool c (Some t) pool body = (c', Inl x)"
    and "cm_current_tag (fst (body (c\<lparr>cm_current_tag := t, cm_pools := dict_set t pool (cm_pools c)\<rparr>))) = t"
  shows "cm_current_tag c' = t"
  using assms by (auto simp: use_memory_pool_def Let_def split: prod.splits sum.splits)

end
