(* ===== verification/Acl_Graph.thy ===== *)
theory Acl_Graph
  imports Prelude
begin

section \<open>Capture and replay of ACL graphs\<close>

text \<open>
  \<^verbatim>\<open>ACLGraphWrapper\<close> of \<^verbatim>\<open>vllm_ascend/compilation/acl_graph.py\<close>. The runnable, the capture of a graph around it,
  the replay of a graph and the weak references are parameters that act on a state \<open>'s\<close> of the
  device; the batch descriptor and the mode come from the forward context. The counter
  \<^verbatim>\<open>compilation_counter.num_cudagraph_captured\<close> belongs to the process: a call takes it as an argument and
  returns it. An operation that changes the wrapper before it raises returns the wrapper and the result.
  A process holds the counter and any number of wrappers, each with its own runnable. Where the runnable of one wrapper
  calls another wrapper, in a mode that is not the outer one's, the call of the inner one is an event that follows.
\<close>

datatype graph_mode = MODE_NONE | PIECEWISE | FULL

record ('d, 'g, 'o) acl_entry =
  ae_batch_descriptor :: 'd
  ae_aclgraph :: "'g option"
  ae_output :: "'o option"
  ae_input_addresses :: "int list option"

record ('d, 'g, 'o) acl_wrapper =
  aw_runtime_mode :: graph_mode
  aw_is_debugging_mode :: bool
  aw_weak_ref_output :: bool
  aw_entries :: "('d \<times> ('d, 'g, 'o) acl_entry) list"

record ('s, 'a, 'g, 'o) acl_env =
  ac_runnable :: "'s \<Rightarrow> 'a \<Rightarrow> 's \<times> 'o result"
  ac_capture :: "'s \<Rightarrow> 'a \<Rightarrow> 's \<times> ('g \<times> 'o) result"
  ac_replay :: "'s \<Rightarrow> 'g \<Rightarrow> 's"
  ac_weak_ref :: "'o \<Rightarrow> 'o"
  ac_capturing_enabled :: bool
  ac_addresses :: "'a \<Rightarrow> int list"

definition acl_wrapper_init :: "graph_mode \<Rightarrow> bool \<Rightarrow> bool \<Rightarrow> ('d, 'g, 'o) acl_wrapper result" where
  "acl_wrapper_init mode debugging weak_ref_output =
     res_bind (py_assert (mode \<noteq> MODE_NONE)) (\<lambda>_.
       Inr \<lparr>aw_runtime_mode = mode, aw_is_debugging_mode = debugging, aw_weak_ref_output = weak_ref_output, aw_entries = []\<rparr>)"

text \<open>The entry of a batch descriptor, created when it is not there.\<close>

definition ensure_entry :: "'d \<Rightarrow> ('d \<times> ('d, 'g, 'o) acl_entry) list \<Rightarrow> ('d \<times> ('d, 'g, 'o) acl_entry) list" where
  "ensure_entry d es =
     (if map_of es d = None
      then dict_set d \<lparr>ae_batch_descriptor = d, ae_aclgraph = None, ae_output = None, ae_input_addresses = None\<rparr> es else es)"

definition acl_capture ::
  "('s, 'a, 'g, 'o) acl_env \<Rightarrow> ('d, 'g, 'o) acl_wrapper \<Rightarrow> nat \<Rightarrow> 'd \<Rightarrow> ('d, 'g, 'o) acl_entry \<Rightarrow> 'a \<Rightarrow> 's \<Rightarrow>
   ('d, 'g, 'o) acl_wrapper \<times> nat \<times> 's \<times> 'o result" where
  "acl_capture env w num_captured d entry args s =
     (if \<not> ac_capturing_enabled env then (w, num_captured, s, Inl RuntimeError)
      else
        let e1 = entry\<lparr>ae_input_addresses := Some (ac_addresses env args)\<rparr>;
            w1 = w\<lparr>aw_entries := dict_set d e1 (aw_entries w)\<rparr>
        in case ac_capture env s args of
             (s', Inl x) \<Rightarrow> (w1, num_captured, s', Inl x)
           | (s', Inr (g, out)) \<Rightarrow>
               let output = (if aw_weak_ref_output w then ac_weak_ref env out else out);
                   e2 = e1\<lparr>ae_output := Some (ac_weak_ref env output), ae_aclgraph := Some g\<rparr>
               in (w1\<lparr>aw_entries := dict_set d e2 (aw_entries w1)\<rparr>, num_captured + 1, s', Inr output))"

definition acl_call ::
  "('s, 'a, 'g, 'o) acl_env \<Rightarrow> ('d, 'g, 'o) acl_wrapper \<Rightarrow> nat \<Rightarrow> graph_mode \<Rightarrow> 'd \<Rightarrow> 'a \<Rightarrow> 's \<Rightarrow>
   ('d, 'g, 'o) acl_wrapper \<times> nat \<times> 's \<times> 'o option result" where
  "acl_call env w num_captured mode d args s =
     (if mode = MODE_NONE \<or> mode \<noteq> aw_runtime_mode w then
        (let (s', res) = ac_runnable env s args in (w, num_captured, s', res_bind res (\<lambda>out. Inr (Some out))))
      else
        let w1 = w\<lparr>aw_entries := ensure_entry d (aw_entries w)\<rparr>; entry = the (map_of (aw_entries w1) d) in
        case ae_aclgraph entry of
          None \<Rightarrow>
            (let (w2, n, s', res) = acl_capture env w1 num_captured d entry args s in (w2, n, s', res_bind res (\<lambda>out. Inr (Some out))))
        | Some g \<Rightarrow>
            if aw_is_debugging_mode w1 \<and> Some (ac_addresses env args) \<noteq> ae_input_addresses entry
            then (w1, num_captured, s, Inl AssertionError)
            else (w1, num_captured, ac_replay env s g, Inr (ae_output entry)))"

text \<open>\<^verbatim>\<open>__getattr__\<close> and \<^verbatim>\<open>unwrap\<close>.\<close>

definition acl_getattr :: "(string \<rightharpoonup> 'v) \<Rightarrow> string \<Rightarrow> 'v result" where
  "acl_getattr runnable_attrs key = (case runnable_attrs key of Some v \<Rightarrow> Inr v | None \<Rightarrow> Inl AttributeError)"

definition acl_unwrap :: "('s, 'a, 'g, 'o) acl_env \<Rightarrow> 's \<Rightarrow> 'a \<Rightarrow> 's \<times> 'o result" where
  "acl_unwrap env = ac_runnable env"

subsection \<open>The process\<close>

record ('d, 'g, 'o) acl_process =
  ap_wrappers :: "('d, 'g, 'o) acl_wrapper list"
  ap_num_captured :: nat

datatype ('d, 'a, 's) acl_event = NewWrapper graph_mode bool bool | Call nat graph_mode 'd 'a 's

text \<open>\<open>env i\<close> are the runnable and the device of the wrapper with index \<open>i\<close>.\<close>

inductive acl_step ::
  "(nat \<Rightarrow> ('s, 'a, 'g, 'o) acl_env) \<Rightarrow> ('d, 'g, 'o) acl_process \<Rightarrow> ('d, 'a, 's) acl_event \<Rightarrow> ('d, 'g, 'o) acl_process \<Rightarrow> bool"
  for env where
  new_wrapper: "acl_wrapper_init mode dbg weak = Inr w \<Longrightarrow>
     acl_step env p (NewWrapper mode dbg weak) (p\<lparr>ap_wrappers := ap_wrappers p @ [w]\<rparr>)"
| call_wrapper: "i < length (ap_wrappers p) \<Longrightarrow>
     acl_call (env i) (ap_wrappers p ! i) (ap_num_captured p) mode d args s = (w, n, s', res) \<Longrightarrow>
     acl_step env p (Call i mode d args s) \<lparr>ap_wrappers = (ap_wrappers p)[i := w], ap_num_captured = n\<rparr>"

definition acl_start :: "nat \<Rightarrow> ('d, 'g, 'o) acl_process" where
  "acl_start n = \<lparr>ap_wrappers = [], ap_num_captured = n\<rparr>"

subsection \<open>The invariant\<close>

text \<open>
  One entry per descriptor; an entry with a graph has the output and the addresses of its capture;
  the counter grew by the number of graphs of all wrappers since \<open>n0\<close>.
\<close>

definition entry_ok :: "('d \<times> ('d, 'g, 'o) acl_entry) \<Rightarrow> bool" where
  "entry_ok de \<longleftrightarrow> ae_batch_descriptor (snd de) = fst de \<and>
     (ae_aclgraph (snd de) \<noteq> None \<longrightarrow> ae_output (snd de) \<noteq> None \<and> ae_input_addresses (snd de) \<noteq> None)"

definition graphs_of :: "('d, 'g, 'o) acl_wrapper \<Rightarrow> 'd set" where
  "graphs_of w = {d. \<exists>e. map_of (aw_entries w) d = Some e \<and> ae_aclgraph e \<noteq> None}"

definition wrapper_ok :: "('d, 'g, 'o) acl_wrapper \<Rightarrow> bool" where
  "wrapper_ok w \<longleftrightarrow> distinct (map fst (aw_entries w)) \<and> (\<forall>de \<in> set (aw_entries w). entry_ok de) \<and> aw_runtime_mode w \<noteq> MODE_NONE"

definition acl_inv :: "nat \<Rightarrow> ('d, 'g, 'o) acl_process \<Rightarrow> bool" where
  "acl_inv n0 p \<longleftrightarrow> (\<forall>w \<in> set (ap_wrappers p). wrapper_ok w) \<and>
     ap_num_captured p = n0 + sum_list (map (\<lambda>w. card (graphs_of w)) (ap_wrappers p))"

lemma finite_graphs [simp]: "finite (graphs_of w)"
proof -
  have "graphs_of w \<subseteq> fst ` set (aw_entries w)" by (force simp: graphs_of_def dest: map_of_SomeD)
  then show ?thesis by (rule finite_subset) simp
qed

lemma wrapper_ok_set:
  "wrapper_ok w \<Longrightarrow> entry_ok (d, e) \<Longrightarrow> wrapper_ok (w\<lparr>aw_entries := dict_set d e (aw_entries w)\<rparr>)"
proof -
  have "\<forall>de \<in> set es. entry_ok de \<Longrightarrow> entry_ok (d, e) \<Longrightarrow> distinct (map fst es) \<Longrightarrow> \<forall>de \<in> set (dict_set d e es). entry_ok de" for es
    by (induction es) auto
  then show "wrapper_ok w \<Longrightarrow> entry_ok (d, e) \<Longrightarrow> wrapper_ok (w\<lparr>aw_entries := dict_set d e (aw_entries w)\<rparr>)"
    unfolding wrapper_ok_def using distinct_update [of "aw_entries w" d e] by auto
qed

lemma graphs_of_set:
  "graphs_of (w\<lparr>aw_entries := dict_set d e (aw_entries w)\<rparr>) = (if ae_aclgraph e \<noteq> None then insert d (graphs_of w) else graphs_of w - {d})"
  by (auto simp: graphs_of_def update_conv')

definition new_entry :: "'d \<Rightarrow> ('d, 'g, 'o) acl_entry" where
  "new_entry d = \<lparr>ae_batch_descriptor = d, ae_aclgraph = None, ae_output = None, ae_input_addresses = None\<rparr>"

text \<open>A call in the wrapper's mode for a descriptor without a graph, respectively with one.\<close>

lemma no_graph_entry:
  assumes "wrapper_ok w" "d \<notin> graphs_of w"
  obtains entry where "map_of (ensure_entry d (aw_entries w)) d = Some entry" "ae_aclgraph entry = None" "ae_batch_descriptor entry = d"
    "wrapper_ok (w\<lparr>aw_entries := ensure_entry d (aw_entries w)\<rparr>)" "graphs_of (w\<lparr>aw_entries := ensure_entry d (aw_entries w)\<rparr>) = graphs_of w"
    "\<forall>d'. d' \<noteq> d \<longrightarrow> map_of (ensure_entry d (aw_entries w)) d' = map_of (aw_entries w) d'"
proof (cases "map_of (aw_entries w) d")
  case None
  have "wrapper_ok (w\<lparr>aw_entries := dict_set d (new_entry d) (aw_entries w)\<rparr>)"
    using assms(1) by (intro wrapper_ok_set) (simp_all add: new_entry_def entry_ok_def)
  moreover have "graphs_of (w\<lparr>aw_entries := dict_set d (new_entry d) (aw_entries w)\<rparr>) = graphs_of w"
    using assms(2) by (simp add: graphs_of_set new_entry_def)
  ultimately show ?thesis using None
    by (intro that [of "new_entry d"]) (simp_all add: ensure_entry_def update_conv' flip: new_entry_def, simp_all add: new_entry_def)
next
  case (Some e)
  then have "(d, e) \<in> set (aw_entries w)" by (rule map_of_SomeD)
  then have "ae_batch_descriptor e = d" using assms(1) by (auto simp: wrapper_ok_def entry_ok_def)
  then show ?thesis using Some assms by (intro that [of e]) (auto simp: ensure_entry_def graphs_of_def)
qed

lemma acl_call_captures:
  assumes "wrapper_ok w" "d \<notin> graphs_of w" "acl_call env w n (aw_runtime_mode w) d args s = (w', n', s', res)"
  shows "wrapper_ok w' \<and> (\<forall>d'. d' \<noteq> d \<longrightarrow> map_of (aw_entries w') d' = map_of (aw_entries w) d') \<and>
    aw_runtime_mode w' = aw_runtime_mode w \<and> aw_is_debugging_mode w' = aw_is_debugging_mode w \<and>
    (if ac_capturing_enabled env then
       (case ac_capture env s args of
          (t, Inl x) \<Rightarrow> res = Inl x \<and> s' = t \<and> n' = n \<and> graphs_of w' = graphs_of w
        | (t, Inr (g, out)) \<Rightarrow>
            let output = (if aw_weak_ref_output w then ac_weak_ref env out else out) in
            res = Inr (Some output) \<and> s' = t \<and> n' = n + 1 \<and> graphs_of w' = insert d (graphs_of w) \<and>
            map_of (aw_entries w') d = Some \<lparr>ae_batch_descriptor = d, ae_aclgraph = Some g,
              ae_output = Some (ac_weak_ref env output), ae_input_addresses = Some (ac_addresses env args)\<rparr>)
     else res = Inl RuntimeError \<and> s' = s \<and> n' = n \<and> graphs_of w' = graphs_of w)"
proof -
  let ?w0 = "w\<lparr>aw_entries := ensure_entry d (aw_entries w)\<rparr>"
  obtain entry where e: "map_of (ensure_entry d (aw_entries w)) d = Some entry" "ae_aclgraph entry = None" "ae_batch_descriptor entry = d"
      "wrapper_ok ?w0" "graphs_of ?w0 = graphs_of w" "\<forall>d'. d' \<noteq> d \<longrightarrow> map_of (ensure_entry d (aw_entries w)) d' = map_of (aw_entries w) d'"
    using no_graph_entry [OF assms(1,2)] .
  have mode: "aw_runtime_mode w \<noteq> MODE_NONE" using assms(1) by (simp add: wrapper_ok_def)
  obtain w2 n2 s2 r2 where c: "acl_capture env ?w0 n d entry args s = (w2, n2, s2, r2)" by (metis prod_cases4)
  have r: "w' = w2" "n' = n2" "s' = s2" "res = res_bind r2 (\<lambda>out. Inr (Some out))"
    using assms(3) mode e(1,2) c by (simp_all add: acl_call_def Let_def)
  let ?e1 = "entry\<lparr>ae_input_addresses := Some (ac_addresses env args)\<rparr>"
  have put: "wrapper_ok (w\<lparr>aw_entries := dict_set d e' (ensure_entry d (aw_entries w))\<rparr>)"
    "graphs_of (w\<lparr>aw_entries := dict_set d e' (ensure_entry d (aw_entries w))\<rparr>) = (if ae_aclgraph e' \<noteq> None then insert d (graphs_of w) else graphs_of w)"
    if "entry_ok (d, e')" for e'
    using wrapper_ok_set [OF e(4) that] graphs_of_set [where w = ?w0 and d = d and e = e'] e(5) assms(2) by simp_all
  show ?thesis
  proof (cases "ac_capturing_enabled env")
    case False
    then show ?thesis using c r e by (auto simp: acl_capture_def)
  next
    case True
    show ?thesis
    proof (cases "ac_capture env s args")
      case (Pair t q)
      show ?thesis
      proof (cases q)
        case (Inl x)
        have "entry_ok (d, ?e1)" using e(2,3) by (simp add: entry_ok_def)
        from put [OF this] show ?thesis using True Pair Inl c r e by (auto simp: acl_capture_def update_conv')
      next
        case (Inr go)
        obtain g out where go: "go = (g, out)" by fastforce
        let ?output = "if aw_weak_ref_output w then ac_weak_ref env out else out"
        let ?e2 = "?e1\<lparr>ae_output := Some (ac_weak_ref env ?output), ae_aclgraph := Some g\<rparr>"
        have "entry_ok (d, ?e2)" using e(3) by (simp add: entry_ok_def)
        note put = put [OF this]
        have w': "w' = w\<lparr>aw_entries := dict_set d ?e2 (ensure_entry d (aw_entries w))\<rparr>"
          "n' = n + 1" "s' = t" "res = Inr (Some ?output)"
          using True Pair Inr go c r by (auto simp: acl_capture_def Let_def)
        have "?e2 = \<lparr>ae_batch_descriptor = d, ae_aclgraph = Some g, ae_output = Some (ac_weak_ref env ?output),
            ae_input_addresses = Some (ac_addresses env args)\<rparr>" using e(3) by simp
        then show ?thesis using True Pair Inr go put e(6) by (simp add: w' update_conv' Let_def)
      qed
    qed
  qed
qed

lemma acl_call_replays:
  assumes "wrapper_ok w" "map_of (aw_entries w) d = Some e" "ae_aclgraph e = Some g"
  shows "acl_call env w n (aw_runtime_mode w) d args s =
    (if aw_is_debugging_mode w \<and> Some (ac_addresses env args) \<noteq> ae_input_addresses e then (w, n, s, Inl AssertionError)
     else (w, n, ac_replay env s g, Inr (ae_output e)))"
  using assms by (simp add: acl_call_def Let_def ensure_entry_def wrapper_ok_def)

lemma acl_call_direct:
  "mode = MODE_NONE \<or> mode \<noteq> aw_runtime_mode w \<Longrightarrow> acl_call env w n mode d args s =
     (w, n, fst (ac_runnable env s args), res_bind (snd (ac_runnable env s args)) (\<lambda>out. Inr (Some out)))"
  by (simp add: acl_call_def case_prod_unfold Let_def)

lemma acl_call_inv:
  assumes "wrapper_ok w" "acl_call env w n mode d args s = (w', n', s', res)"
  shows "wrapper_ok w' \<and> n' + card (graphs_of w) = n + card (graphs_of w')"
proof (cases "mode = MODE_NONE \<or> mode \<noteq> aw_runtime_mode w")
  case True
  then show ?thesis using assms by (simp add: acl_call_direct)
next
  case False
  then have mode: "mode = aw_runtime_mode w" by simp
  show ?thesis
  proof (cases "d \<in> graphs_of w")
    case True
    then obtain e g where "map_of (aw_entries w) d = Some e" "ae_aclgraph e = Some g" by (auto simp: graphs_of_def)
    from acl_call_replays [OF assms(1) this, of env n args s] show ?thesis using assms mode by (simp split: if_splits)
  next
    case no: False
    from acl_call_captures [OF assms(1) no assms(2) [unfolded mode]] no show ?thesis
      by (cases "ac_capture env s args"; cases "snd (ac_capture env s args)") (auto simp: Let_def split: if_splits)
  qed
qed

lemma sum_list_update_nat:
  "i < length xs \<Longrightarrow> f x + m = f (xs ! i) + n \<Longrightarrow> sum_list (map f (xs[i := x])) + m = sum_list (map f xs) + (n::nat)"
proof (induction xs arbitrary: i)
  case (Cons y ys)
  then show ?case by (cases i) auto
qed simp

interpretation acl: inv_system "\<lambda>p. p = acl_start n0" "acl_step env" "acl_inv n0"
  for env :: "nat \<Rightarrow> ('s, 'a, 'g, 'o) acl_env" and n0
proof
  show "acl_inv n0 p" if "p = acl_start n0" for p :: "('d, 'g, 'o) acl_process"
    using that by (simp add: acl_start_def acl_inv_def)
  show "acl_inv n0 q" if "acl_inv n0 p" "acl_step env p ev q" for p q :: "('d, 'g, 'o) acl_process" and ev
    using that(2,1)
  proof cases
    case (new_wrapper mode dbg weak w)
    then show ?thesis using that(1) by (auto simp: acl_wrapper_init_def res_elims acl_inv_def wrapper_ok_def graphs_of_def)
  next
    case (call_wrapper i mode d args s w n s' res)
    let ?w = "ap_wrappers p ! i"
    have w: "wrapper_ok ?w" using that(1) call_wrapper(3) by (simp add: acl_inv_def)
    note ok = acl_call_inv [OF w call_wrapper(4)]
    then have "sum_list (map (\<lambda>w. card (graphs_of w)) ((ap_wrappers p)[i := w])) + ap_num_captured p =
        sum_list (map (\<lambda>w. card (graphs_of w)) (ap_wrappers p)) + n"
      using call_wrapper(3) by (intro sum_list_update_nat) simp_all
    moreover have "\<forall>w' \<in> set ((ap_wrappers p)[i := w]). wrapper_ok w'"
      using that(1) ok set_update_subset_insert [of "ap_wrappers p" i w] by (auto simp: acl_inv_def)
    ultimately show ?thesis using that(1) by (simp add: acl_inv_def call_wrapper(2))
  qed
qed

text \<open>
  C40. Capture once, replay afterwards: in every state that a process with any number of wrappers can reach, a call of a
  wrapper in another mode (or with no graph mode) only runs the wrapped function. A call in the wrapper's
  mode for a descriptor without a graph captures: it returns what the capture returned (weakly referenced, if the options
  say so), adds one to the counter, leaves the entries of other descriptors alone, and from then on every call of this
  wrapper with this descriptor replays the captured graph and returns the weak reference to its output, unless debugging is on and the
  addresses of the inputs are not those of the capture, which raises. A capture that is not allowed or raises adds no graph and
  does not count. The number of captures that the process counts is the number of descriptors with a graph, over all wrappers.
\<close>

theorem acl_graph_capture_once:
  assumes "reachable (\<lambda>p. p = acl_start n0) (acl_step env) p" "i < length (ap_wrappers p)" "w = ap_wrappers p ! i" "n = ap_num_captured p"
  shows "(\<forall>mode d args s. mode = MODE_NONE \<or> mode \<noteq> aw_runtime_mode w \<longrightarrow>
      acl_call (env i) w n mode d args s =
        (w, n, fst (ac_runnable (env i) s args), res_bind (snd (ac_runnable (env i) s args)) (\<lambda>out. Inr (Some out)))) \<and>
    (\<forall>d args s t g out output. d \<notin> graphs_of w \<and> ac_capturing_enabled (env i) \<and> ac_capture (env i) s args = (t, Inr (g, out)) \<and>
        ret = (if aw_weak_ref_output w then ac_weak_ref (env i) out else out) \<longrightarrow>
      (\<exists>w'. acl_call (env i) w n (aw_runtime_mode w) d args s = (w', n + 1, t, Inr (Some ret)) \<and>
         (\<forall>d'. d' \<noteq> d \<longrightarrow> map_of (aw_entries w') d' = map_of (aw_entries w) d') \<and>
         (\<forall>m args' s'. acl_call (env i) w' m (aw_runtime_mode w) d args' s' =
            (if aw_is_debugging_mode w \<and> ac_addresses (env i) args' \<noteq> ac_addresses (env i) args then (w', m, s', Inl AssertionError)
             else (w', m, ac_replay (env i) s' g, Inr (Some (ac_weak_ref (env i) ret))))))) \<and>
    (\<forall>d args s. d \<notin> graphs_of w \<and> (ac_capturing_enabled (env i) \<longrightarrow> (\<exists>t x. ac_capture (env i) s args = (t, Inl x))) \<longrightarrow>
      (\<exists>w' t x. acl_call (env i) w n (aw_runtime_mode w) d args s = (w', n, t, Inl x) \<and> graphs_of w' = graphs_of w)) \<and>
    n = n0 + sum_list (map (\<lambda>w. card (graphs_of w)) (ap_wrappers p))"
proof (intro conjI allI impI)
  have inv: "acl_inv n0 p" using assms(1) by (rule acl.reachable_inv)
  then have w: "wrapper_ok w" using assms(2,3) by (simp add: acl_inv_def)
  show "acl_call (env i) w n mode d args s =
      (w, n, fst (ac_runnable (env i) s args), res_bind (snd (ac_runnable (env i) s args)) (\<lambda>out. Inr (Some out)))"
    if "mode = MODE_NONE \<or> mode \<noteq> aw_runtime_mode w" for mode d args s
    using that by (rule acl_call_direct)
  show "n = n0 + sum_list (map (\<lambda>w. card (graphs_of w)) (ap_wrappers p))" using inv assms(4) by (simp add: acl_inv_def)
  show "\<exists>w' t x. acl_call (env i) w n (aw_runtime_mode w) d args s = (w', n, t, Inl x) \<and> graphs_of w' = graphs_of w"
    if "d \<notin> graphs_of w \<and> (ac_capturing_enabled (env i) \<longrightarrow> (\<exists>t x. ac_capture (env i) s args = (t, Inl x)))" for d args s
  proof -
    obtain w' n' t res where c: "acl_call (env i) w n (aw_runtime_mode w) d args s = (w', n', t, res)" by (metis prod_cases4)
    from acl_call_captures [OF w _ this] that show ?thesis by (auto simp: c split: if_splits)
  qed
  show "\<exists>w'. acl_call (env i) w n (aw_runtime_mode w) d args s = (w', n + 1, t, Inr (Some ret)) \<and>
         (\<forall>d'. d' \<noteq> d \<longrightarrow> map_of (aw_entries w') d' = map_of (aw_entries w) d') \<and>
         (\<forall>m args' s'. acl_call (env i) w' m (aw_runtime_mode w) d args' s' =
            (if aw_is_debugging_mode w \<and> ac_addresses (env i) args' \<noteq> ac_addresses (env i) args then (w', m, s', Inl AssertionError)
             else (w', m, ac_replay (env i) s' g, Inr (Some (ac_weak_ref (env i) ret)))))"
    if h: "d \<notin> graphs_of w \<and> ac_capturing_enabled (env i) \<and> ac_capture (env i) s args = (t, Inr (g, out)) \<and>
        ret = (if aw_weak_ref_output w then ac_weak_ref (env i) out else out)" for d args s t g out ret
  proof -
    obtain w' n' s1 res where c: "acl_call (env i) w n (aw_runtime_mode w) d args s = (w', n', s1, res)" by (metis prod_cases4)
    have k: "wrapper_ok w'" "\<forall>d'. d' \<noteq> d \<longrightarrow> map_of (aw_entries w') d' = map_of (aw_entries w) d'"
      "aw_runtime_mode w' = aw_runtime_mode w" "aw_is_debugging_mode w' = aw_is_debugging_mode w"
      "res = Inr (Some ret)" "s1 = t" "n' = n + 1"
      "map_of (aw_entries w') d = Some \<lparr>ae_batch_descriptor = d, ae_aclgraph = Some g,
         ae_output = Some (ac_weak_ref (env i) ret), ae_input_addresses = Some (ac_addresses (env i) args)\<rparr>"
      using acl_call_captures [OF w _ c] h by (auto simp: Let_def)
    note again = acl_call_replays [OF k(1,8), of g "env i", unfolded k(3,4)]
    show ?thesis using c k(2,5,6,7) again by (intro exI [of _ w']) simp
  qed
qed

text \<open>Two wrappers, each with a graph for the same descriptor, share the counter.\<close>

definition demo_acl :: "nat \<Rightarrow> (nat, nat, nat, nat) acl_env" where
  "demo_acl i = \<lparr>ac_runnable = \<lambda>s a. (s, Inr a), ac_capture = \<lambda>s a. (s, Inr (a + 10, a)), ac_replay = \<lambda>s g. s + g, ac_weak_ref = (\<lambda>x. x + 100),
     ac_capturing_enabled = True, ac_addresses = \<lambda>a. [int a]\<rparr>"

definition demo_wrapper :: "(string, nat, nat) acl_wrapper" where
  "demo_wrapper = \<lparr>aw_runtime_mode = PIECEWISE, aw_is_debugging_mode = False, aw_weak_ref_output = False, aw_entries = []\<rparr>"

definition demo_captured :: "nat \<Rightarrow> (string, nat, nat) acl_wrapper" where
  "demo_captured a = demo_wrapper\<lparr>aw_entries := [(''b4'', \<lparr>ae_batch_descriptor = ''b4'', ae_aclgraph = Some (a + 10),
     ae_output = Some (a + 100), ae_input_addresses = Some [int a]\<rparr>)]\<rparr>"

lemma demo_call: "acl_call (demo_acl i) demo_wrapper n PIECEWISE ''b4'' a s = (demo_captured a, n + 1, s, Inr (Some a))"
  by (simp add: acl_call_def acl_capture_def ensure_entry_def demo_wrapper_def demo_acl_def demo_captured_def)

lemma demo_reachable:
  "reachable (\<lambda>p. p = acl_start 0) (acl_step demo_acl) \<lparr>ap_wrappers = [demo_captured 3, demo_captured 5], ap_num_captured = 2\<rparr>"
proof -
  let ?r = "reachable (\<lambda>p. p = acl_start 0) (acl_step demo_acl)"
  have init: "acl_wrapper_init PIECEWISE False False = Inr demo_wrapper" by (simp add: acl_wrapper_init_def demo_wrapper_def)
  have "?r (acl_start 0)" by (rule reach_init) simp
  then have "?r ((acl_start 0)\<lparr>ap_wrappers := ap_wrappers (acl_start 0) @ [demo_wrapper]\<rparr>)"
    by (rule reach_step) (rule new_wrapper [OF init])
  then have "?r \<lparr>ap_wrappers = [demo_wrapper], ap_num_captured = 0\<rparr>" by (simp add: acl_start_def)
  then have "?r (\<lparr>ap_wrappers = [demo_wrapper], ap_num_captured = 0\<rparr>\<lparr>ap_wrappers := ap_wrappers \<lparr>ap_wrappers = [demo_wrapper], ap_num_captured = 0\<rparr> @ [demo_wrapper]\<rparr>)"
    by (rule reach_step) (rule new_wrapper [OF init])
  then have two: "?r \<lparr>ap_wrappers = [demo_wrapper, demo_wrapper], ap_num_captured = 0\<rparr>" by simp
  have "acl_step demo_acl \<lparr>ap_wrappers = [demo_wrapper, demo_wrapper], ap_num_captured = 0\<rparr> (Call 0 PIECEWISE ''b4'' 3 0)
      \<lparr>ap_wrappers = [demo_wrapper, demo_wrapper][0 := demo_captured 3], ap_num_captured = 1\<rparr>"
    using call_wrapper [of 0 "\<lparr>ap_wrappers = [demo_wrapper, demo_wrapper], ap_num_captured = 0\<rparr>" demo_acl] demo_call by fastforce
  then have one: "?r \<lparr>ap_wrappers = [demo_captured 3, demo_wrapper], ap_num_captured = 1\<rparr>" using reach_step [OF two] by simp
  have "acl_step demo_acl \<lparr>ap_wrappers = [demo_captured 3, demo_wrapper], ap_num_captured = 1\<rparr> (Call 1 PIECEWISE ''b4'' 5 0)
      \<lparr>ap_wrappers = [demo_captured 3, demo_wrapper][1 := demo_captured 5], ap_num_captured = 2\<rparr>"
    using call_wrapper [of 1 "\<lparr>ap_wrappers = [demo_captured 3, demo_wrapper], ap_num_captured = 1\<rparr>" demo_acl] demo_call [of 1 1 5 0] by fastforce
  then show ?thesis using reach_step [OF one] by simp
qed

theorem acl_graph_capture_once_witness:
  "\<exists>w'. acl_call (demo_acl 0) (demo_captured 3) 2 PIECEWISE ''b8'' 7 0 = (w', 3, 0, Inr (Some 7)) \<and>
     acl_call (demo_acl 0) w' 3 PIECEWISE ''b8'' 8 0 = (w', 3, 17, Inr (Some 107))"
proof -
  have g: "''b8'' \<notin> graphs_of (demo_captured 3)" by (simp add: graphs_of_def demo_captured_def)
  have m: "aw_runtime_mode (demo_captured 3) = PIECEWISE" "\<not> aw_is_debugging_mode (demo_captured 3)" "\<not> aw_weak_ref_output (demo_captured 3)"
    by (simp_all add: demo_captured_def demo_wrapper_def)
  have "ac_capture (demo_acl 0) 0 7 = (0, Inr (17, 7))" "ac_capturing_enabled (demo_acl 0)" by (simp_all add: demo_acl_def)
  with acl_graph_capture_once [OF demo_reachable, of 0 "demo_captured 3" 2, THEN conjunct2, THEN conjunct1, rule_format, of "''b8''" 0 7 0 17 7 7] g m
  obtain w' where "acl_call (demo_acl 0) (demo_captured 3) 2 PIECEWISE ''b8'' 7 0 = (w', 3, 0, Inr (Some 7))"
      "\<forall>m args' s'. acl_call (demo_acl 0) w' m PIECEWISE ''b8'' args' s' = (w', m, ac_replay (demo_acl 0) s' 17, Inr (Some (ac_weak_ref (demo_acl 0) 7)))"
    by auto
  then show ?thesis by (intro exI [of _ w']) (simp add: demo_acl_def)
qed

end
