(* ===== verification/Model_Runner.thy ===== *)
theory Model_Runner
  imports Input_Batch
begin

section \<open>The model runner's bookkeeping of requests\<close>

text \<open>
  \<^verbatim>\<open>NPUModelRunner\<close> of \<^verbatim>\<open>vllm_ascend/worker/model_runner_v1.py\<close>: the cached states of the requests, the
  persistent batch and the encoder cache, and what a step does to them: \<^verbatim>\<open>_update_states\<close> at its start, the
  multi-modal inputs, and the caching of sampled and drafted tokens at its end. Running the model, the
  sampler and the draft model is not part of it; what they return is an argument.

  The Python lists of output tokens are shared: the row of a request in the batch holds the list of its
  cached state. Whoever extends the list writes both places here (\<open>set_outputs\<close>). Random generators
  are numbered in the order in which they are made; their seeds and offsets are kept by number.
  Functions of vLLM are fields of \<open>runner_env\<close>; the order in which Python iterates over a set is \<open>re_iter\<close>.
\<close>

subsection \<open>Data\<close>

text \<open>One multi-modal item: the entries of \<^verbatim>\<open>mm_item.get_data()\<close> that the runner looks up.\<close>

record mm_item =
  mi_image_grid_thw :: "int list option"
  mi_video_grid_thw :: "int list option"
  mi_second_per_grid_ts :: "rat option"
  mi_audio_feature_lengths :: "int option"
  mi_use_audio_in_video :: bool

record mm_position =
  mp_offset :: int
  mp_length :: int
  mp_is_embed :: "bool list option"

text \<open>\<open>CachedRequestState\<close> with the fields that only multi-modal models use.\<close>

record runner_request = cached_request +
  rr_mm_kwargs :: "mm_item list"
  rr_mm_positions :: "mm_position list"
  rr_mm_hashes :: "string list option"
  rr_mrope_positions :: "int list list option"
  rr_mrope_position_delta :: "int option"

text \<open>\<open>nr_random_seed\<close> is the seed when the sampling type is \<^verbatim>\<open>RANDOM_SEED\<close>.\<close>

record new_request_data =
  nr_req_id :: rid
  nr_prompt_token_ids :: "int list"
  nr_mm_kwargs :: "mm_item list"
  nr_mm_positions :: "mm_position list"
  nr_mm_hashes :: "string list"
  nr_sampling_params :: "sampling_params option"
  nr_random_seed :: "int option"
  nr_pooling_params :: "pooling_params option"
  nr_pooling_task :: "string option"
  nr_block_ids :: "int list list"
  nr_num_computed_tokens :: nat
  nr_lora_request :: "lora_request option"

record cached_request_data =
  cd_req_ids :: "rid list"
  cd_resumed_from_preemption :: "bool list"
  cd_new_token_ids :: "int list list"
  cd_new_block_ids :: "int list list option list"
  cd_num_computed_tokens :: "nat list"

text \<open>The fields of \<^verbatim>\<open>SchedulerOutput\<close> that the runner reads; the set of finished ids in iteration order.\<close>

record step_input =
  si_finished_req_ids :: "rid list"
  si_freed_encoder :: freed_encoder
  si_num_scheduled_tokens :: "(rid \<times> nat) list"
  si_scheduled_new_reqs :: "new_request_data list"
  si_scheduled_cached_reqs :: cached_request_data
  si_scheduled_spec_decode_tokens :: "(rid \<times> int list) list"
  si_scheduled_encoder_inputs :: "(rid \<times> nat list) list"
  si_structured_output_request_ids :: "(rid \<times> nat) list"

text \<open>The attention backends differ in how they order the rows; the flag is \<^verbatim>\<open>torchair_graph_enabled\<close>.\<close>

datatype attn_builder = Attention_builder | Mla_builder | Torchair_mla_builder bool

record ('bb, 'up, 'bt, 'lp) runner_env =
  re_batch :: "('bb, 'up, 'bt, 'lp) batch_env"
  re_append_row :: "'bt \<Rightarrow> int list list \<Rightarrow> nat \<Rightarrow> 'bt"
  re_attn_builder :: attn_builder
  re_is_0_10_1_1 :: bool
  re_uses_mrope :: bool
  re_is_last_rank :: bool
  re_iter :: "rid list \<Rightarrow> rid list"
  re_pooling_update :: "string \<Rightarrow> pooling_params \<Rightarrow> pooling_params"
  re_input_positions ::
    "int list \<Rightarrow> int list list \<Rightarrow> int list list \<Rightarrow> rat list \<Rightarrow> int list \<Rightarrow> bool \<Rightarrow> int list list \<times> int"

record ('bb, 'bt, 'lp, 'e) runner =
  rn_requests :: "rid \<rightharpoonup> runner_request"
  rn_batch :: "('bb, 'bt, 'lp) input_batch"
  rn_encoder_by_req :: "(rid \<times> (int \<times> 'e list) list) list"
  rn_encoder_by_hash :: "(string \<times> 'e list) list"
  rn_seeds :: "int list"
  rn_offsets :: "object_ref \<Rightarrow> int"
  rn_draft_token_ids :: "int list list option"

text \<open>What the persistent batch reads of a request.\<close>

abbreviation core :: "runner_request \<Rightarrow> cached_request" where
  "core q \<equiv> cached_request.truncate q"

subsection \<open>Requests that leave\<close>

definition forget_request ::
  "('bb, 'up, 'bt, 'lp) runner_env \<Rightarrow> ('bb, 'bt, 'lp, 'e) runner \<Rightarrow> rid \<Rightarrow> ('bb, 'bt, 'lp, 'e) runner" where
  "forget_request env rn r =
     rn\<lparr>rn_requests := (rn_requests rn)(r := None),
        rn_encoder_by_req := (if re_is_0_10_1_1 env then dict_pop r (rn_encoder_by_req rn) else rn_encoder_by_req rn)\<rparr>"

definition remove_row ::
  "('bb, 'up, 'bt, 'lp) runner_env \<Rightarrow> ('bb, 'bt, 'lp, 'e) runner \<Rightarrow> rid \<Rightarrow> ('bb, 'bt, 'lp, 'e) runner result" where
  "remove_row env rn r =
     res_bind (ib_remove_request (re_batch env) (rn_batch rn) r) (\<lambda>(_, B). Inr (rn\<lparr>rn_batch := B\<rparr>))"

text \<open>The encoder outputs that are no longer needed, by request and input or by hash.\<close>

definition pop_encoder_input ::
  "(rid \<times> (int \<times> 'e list) list) list \<Rightarrow> rid \<times> int \<Rightarrow> (rid \<times> (int \<times> 'e list) list) list" where
  "pop_encoder_input cache ri =
     (case map_of cache (fst ri) of
        None \<Rightarrow> cache
      | Some outs \<Rightarrow>
          let outs' = dict_pop (snd ri) outs in
          if outs' = [] then dict_pop (fst ri) cache else dict_set (fst ri) outs' cache)"

definition free_encoder_outputs ::
  "('bb, 'up, 'bt, 'lp) runner_env \<Rightarrow> ('bb, 'bt, 'lp, 'e) runner \<Rightarrow> freed_encoder \<Rightarrow> ('bb, 'bt, 'lp, 'e) runner result" where
  "free_encoder_outputs env rn freed =
     (case (re_is_0_10_1_1 env, freed) of
        (True, FreedIds ids) \<Rightarrow> Inr (rn\<lparr>rn_encoder_by_req := foldl pop_encoder_input (rn_encoder_by_req rn) ids\<rparr>)
      | (False, FreedHashes hs) \<Rightarrow>
          Inr (rn\<lparr>rn_encoder_by_hash := foldl (\<lambda>c h. dict_pop h c) (rn_encoder_by_hash rn) hs\<rparr>)
      | _ \<Rightarrow> Inl AttributeError)"

definition unscheduled_req_ids :: "('bb, 'bt, 'lp, 'e) runner \<Rightarrow> step_input \<Rightarrow> rid list" where
  "unscheduled_req_ids rn si =
     filter (\<lambda>r. r \<notin> fst ` set (si_num_scheduled_tokens si)) (map fst (req_id_to_index (rn_batch rn)))"

definition remove_requests ::
  "('bb, 'up, 'bt, 'lp) runner_env \<Rightarrow> ('bb, 'bt, 'lp, 'e) runner \<Rightarrow> step_input \<Rightarrow> ('bb, 'bt, 'lp, 'e) runner result" where
  "remove_requests env rn si =
     res_bind (res_foldl (remove_row env) (foldl (forget_request env) rn (si_finished_req_ids si)) (si_finished_req_ids si)) (\<lambda>rn1.
     res_bind (free_encoder_outputs env rn1 (si_freed_encoder si)) (\<lambda>rn2.
     res_foldl (remove_row env) rn2 (re_iter env (unscheduled_req_ids rn2 si))))"

subsection \<open>New requests\<close>

definition mrope_of ::
  "('bb, 'up, 'bt, 'lp) runner_env \<Rightarrow> new_request_data \<Rightarrow> int list list \<times> int" where
  "mrope_of env d =
     (let items = nr_mm_kwargs d in
      re_input_positions env (nr_prompt_token_ids d)
        (concat (map (\<lambda>m. case mi_image_grid_thw m of None \<Rightarrow> [] | Some x \<Rightarrow> [x]) items))
        (concat (map (\<lambda>m. case mi_video_grid_thw m of None \<Rightarrow> [] | Some x \<Rightarrow> [x]) items))
        (concat (map (\<lambda>m. case mi_second_per_grid_ts m of None \<Rightarrow> [] | Some x \<Rightarrow> [x]) items))
        (concat (map (\<lambda>m. case mi_audio_feature_lengths m of None \<Rightarrow> [] | Some x \<Rightarrow> [x]) items))
        (\<exists>m \<in> set items. mi_use_audio_in_video m))"

text \<open>The cached state of a new request; \<open>g\<close> is its generator.\<close>

definition new_request ::
  "('bb, 'up, 'bt, 'lp) runner_env \<Rightarrow> new_request_data \<Rightarrow> object_ref option \<Rightarrow> pooling_params option \<Rightarrow> runner_request" where
  "new_request env d g pp =
     \<lparr>cr_req_id = nr_req_id d, cr_prompt_token_ids = nr_prompt_token_ids d, cr_sampling_params = nr_sampling_params d,
      cr_pooling_params = pp, cr_generator = g, cr_block_ids = nr_block_ids d,
      cr_num_computed_tokens = int (nr_num_computed_tokens d), cr_output_token_ids = [],
      cr_lora_request = nr_lora_request d,
      rr_mm_kwargs = nr_mm_kwargs d, rr_mm_positions = nr_mm_positions d,
      rr_mm_hashes = (if re_is_0_10_1_1 env then None else Some (nr_mm_hashes d)),
      rr_mrope_positions = (if re_uses_mrope env then Some (fst (mrope_of env d)) else None),
      rr_mrope_position_delta = (if re_uses_mrope env then Some (snd (mrope_of env d)) else None)\<rparr>"

definition needs_generator :: "new_request_data \<Rightarrow> int option" where
  "needs_generator d = (if nr_sampling_params d = None then None else nr_random_seed d)"

definition add_new_request ::
  "('bb, 'up, 'bt, 'lp) runner_env \<Rightarrow> ('bb, 'bt, 'lp, 'e) runner \<times> rid list \<Rightarrow> new_request_data \<Rightarrow>
   (('bb, 'bt, 'lp, 'e) runner \<times> rid list) result" where
  "add_new_request env acc d =
     (case acc of (rn, to_add) \<Rightarrow>
        let g = (case needs_generator d of None \<Rightarrow> None | Some _ \<Rightarrow> Some (length (rn_seeds rn)));
            rn1 = (case needs_generator d of None \<Rightarrow> rn | Some seed \<Rightarrow> rn\<lparr>rn_seeds := rn_seeds rn @ [seed]\<rparr>)
        in res_bind
             (case nr_pooling_params d of
                None \<Rightarrow> Inr None
              | Some pp \<Rightarrow>
                  (case nr_pooling_task d of
                     None \<Rightarrow> Inl AssertionError
                   | Some task \<Rightarrow> Inr (Some (re_pooling_update env task pp))))
             (\<lambda>pp. Inr (rn1\<lparr>rn_requests := (rn_requests rn1)(nr_req_id d \<mapsto> new_request env d g pp)\<rparr>,
                       to_add @ [nr_req_id d])))"

subsection \<open>Running and resumed requests\<close>

text \<open>Both views of the list of output tokens of a request.\<close>

definition set_outputs ::
  "('bb, 'bt, 'lp, 'e) runner \<Rightarrow> rid \<Rightarrow> runner_request \<Rightarrow> int list \<Rightarrow> ('bb, 'bt, 'lp, 'e) runner" where
  "set_outputs rn r q outs =
     rn\<lparr>rn_requests := (rn_requests rn)(r \<mapsto> q\<lparr>cr_output_token_ids := outs\<rparr>),
        rn_batch := (case map_of (req_id_to_index (rn_batch rn)) r of
                       None \<Rightarrow> rn_batch rn
                     | Some i \<Rightarrow> (rn_batch rn)\<lparr>req_output_token_ids := (req_output_token_ids (rn_batch rn))[i := Some outs]\<rparr>)\<rparr>"

text \<open>The tokens that the last stage sampled in the step before, as the scheduler sends them to the other stages.\<close>

definition extend_outputs :: "runner_request \<Rightarrow> nat \<Rightarrow> int list \<Rightarrow> int list result" where
  "extend_outputs q num_computed new_token_ids =
     (let num_new = int (num_computed + length new_token_ids) - int (cr_num_tokens (core q)) in
      if num_new = 1 then
        (if new_token_ids = [] then Inl IndexError else Inr (cr_output_token_ids q @ [last new_token_ids]))
      else if num_new > 0 then
        Inr (cr_output_token_ids q @ drop (length new_token_ids - nat num_new) new_token_ids)
      else Inr (cr_output_token_ids q))"

text \<open>\<^verbatim>\<open>for a, b in zip(block_ids, new_block_ids): a.extend(b)\<close>\<close>

fun extend_blocks :: "int list list \<Rightarrow> int list list \<Rightarrow> int list list" where
  "extend_blocks (b # bs) (n # ns) = (b @ n) # extend_blocks bs ns"
| "extend_blocks bs _ = bs"

definition update_blocks :: "bool \<Rightarrow> int list list option \<Rightarrow> int list list \<Rightarrow> int list list result" where
  "update_blocks resumed new_block_ids block_ids =
     (if \<not> resumed then Inr (case new_block_ids of None \<Rightarrow> block_ids | Some ns \<Rightarrow> extend_blocks block_ids ns)
      else (case new_block_ids of None \<Rightarrow> Inl AssertionError | Some ns \<Rightarrow> Inr ns))"

text \<open>\<^verbatim>\<open>arr[req_index, a:b] = vals\<close> on a two-dimensional array.\<close>

definition assign_tokens :: "('bb, 'bt, 'lp) input_batch \<Rightarrow> nat \<Rightarrow> nat \<Rightarrow> nat \<Rightarrow> int list \<Rightarrow> ('bb, 'bt, 'lp) input_batch result" where
  "assign_tokens B i a b vals =
     (if length (token_ids_cpu B) \<le> i then Inl IndexError
      else res_bind (np_assign (token_ids_cpu B ! i) a b vals) (\<lambda>row. Inr (B\<lparr>token_ids_cpu := (token_ids_cpu B)[i := row]\<rparr>)))"

text \<open>The part that the row of a running request in the batch gets.\<close>

definition update_row ::
  "('bb, 'up, 'bt, 'lp) runner_env \<Rightarrow> ('bb, 'bt, 'lp) input_batch \<Rightarrow> nat \<Rightarrow> nat \<Rightarrow> int list list option \<Rightarrow> int list \<Rightarrow>
   int list \<Rightarrow> ('bb, 'bt, 'lp) input_batch result" where
  "update_row env B i num_computed new_block_ids new_token_ids spec_ids =
     (let B1 = B\<lparr>num_computed_tokens_cpu := (num_computed_tokens_cpu B)[i := int num_computed],
                 block_table := (case new_block_ids of
                                   None \<Rightarrow> block_table B | Some ns \<Rightarrow> re_append_row env (block_table B) ns i)\<rparr>
      in res_bind
           (if re_is_last_rank env then Inr B1
            else
              let e = num_computed + length new_token_ids in
              res_bind (assign_tokens B1 i num_computed e new_token_ids) (\<lambda>B2.
              Inr (B2\<lparr>num_tokens_no_spec := (num_tokens_no_spec B2)[i := e], ib_num_tokens := (ib_num_tokens B2)[i := e]\<rparr>)))
           (\<lambda>B3.
              if spec_ids = [] then Inr B3
              else
                let s = num_tokens_no_spec B3 ! i in
                res_bind (assign_tokens B3 i s (s + length spec_ids) spec_ids) (\<lambda>B4.
                Inr (B4\<lparr>ib_num_tokens := (ib_num_tokens B4)[i := ib_num_tokens B4 ! i + length spec_ids]\<rparr>))))"

definition spec_tokens_of :: "step_input \<Rightarrow> rid \<Rightarrow> int list" where
  "spec_tokens_of si r = (case map_of (si_scheduled_spec_decode_tokens si) r of None \<Rightarrow> [] | Some ts \<Rightarrow> ts)"

definition nth_item :: "'x list \<Rightarrow> nat \<Rightarrow> 'x result" where
  "nth_item xs i = (if i < length xs then Inr (xs ! i) else Inl IndexError)"

definition update_cached_request ::
  "('bb, 'up, 'bt, 'lp) runner_env \<Rightarrow> step_input \<Rightarrow> ('bb, 'bt, 'lp, 'e) runner \<times> rid list \<Rightarrow> nat \<times> rid \<Rightarrow>
   (('bb, 'bt, 'lp, 'e) runner \<times> rid list) result" where
  "update_cached_request env si acc ir =
     (case acc of (rn, to_add) \<Rightarrow> case ir of (i, r) \<Rightarrow>
        let d = si_scheduled_cached_reqs si in
        res_bind (map_item (rn_requests rn) r) (\<lambda>q.
        res_bind (nth_item (cd_num_computed_tokens d) i) (\<lambda>num_computed.
        res_bind (nth_item (cd_new_block_ids d) i) (\<lambda>new_block_ids.
        res_bind (nth_item (cd_resumed_from_preemption d) i) (\<lambda>resumed.
        res_bind (if re_is_last_rank env then Inr [] else nth_item (cd_new_token_ids d) i) (\<lambda>new_token_ids.
        res_bind (if re_is_last_rank env then Inr (cr_output_token_ids q) else extend_outputs q num_computed new_token_ids) (\<lambda>outs.
        res_bind (update_blocks resumed new_block_ids (cr_block_ids q)) (\<lambda>blocks.
        let rn1 = set_outputs rn r (q\<lparr>cr_num_computed_tokens := int num_computed, cr_block_ids := blocks\<rparr>) outs in
        case map_of (req_id_to_index (rn_batch rn1)) r of
          None \<Rightarrow> Inr (rn1, to_add @ [r])
        | Some req_index \<Rightarrow>
            res_bind (update_row env (rn_batch rn1) req_index num_computed new_block_ids new_token_ids (spec_tokens_of si r)) (\<lambda>B.
            Inr (rn1\<lparr>rn_batch := B\<rparr>, to_add))))))))))"

subsection \<open>The start of a step\<close>

definition add_row ::
  "('bb, 'up, 'bt, 'lp) runner_env \<Rightarrow> ('bb, 'bt, 'lp, 'e) runner \<Rightarrow> rid \<Rightarrow> ('bb, 'bt, 'lp, 'e) runner result" where
  "add_row env rn r =
     res_bind (map_item (rn_requests rn) r) (\<lambda>q.
     res_bind (ib_add_request (re_batch env) (rn_batch rn) (core q)) (\<lambda>(_, B). Inr (rn\<lparr>rn_batch := B\<rparr>)))"

definition update_requests ::
  "('bb, 'up, 'bt, 'lp) runner_env \<Rightarrow> ('bb, 'bt, 'lp, 'e) runner \<Rightarrow> step_input \<Rightarrow> ('bb, 'bt, 'lp, 'e) runner result" where
  "update_requests env rn si =
     res_bind (remove_requests env rn si) (\<lambda>rn1.
     res_bind (res_foldl (add_new_request env) (rn1, []) (si_scheduled_new_reqs si)) (\<lambda>acc2.
     res_bind (res_foldl (update_cached_request env si) acc2
                 (enumerate 0 (cd_req_ids (si_scheduled_cached_reqs si)))) (\<lambda>(rn3, to_add).
     res_foldl (add_row env) rn3 to_add)))"

definition update_states ::
  "('bb, 'up, 'bt, 'lp) runner_env \<Rightarrow> ('bb, 'bt, 'lp, 'e) runner \<Rightarrow> step_input \<Rightarrow> ('bb, 'bt, 'lp, 'e) runner result option" where
  "update_states env rn si =
     (case update_requests env rn si of
        Inl x \<Rightarrow> Some (Inl x)
      | Inr rn1 \<Rightarrow>
          map_option (\<lambda>res. res_bind res (\<lambda>B. res_bind (refresh_metadata (re_batch env) B) (\<lambda>B'. Inr (rn1\<lparr>rn_batch := B'\<rparr>))))
            (condense (re_batch env) (rn_batch rn1)))"

end
