(* ===== verification/Runner_Batch.thy ===== *)
theory Runner_Batch
  imports Model_Runner Input_Batch_Metadata
begin

section \<open>The runner keeps its batch in step with its requests\<close>

text \<open>
  The invariant of the runner between steps: every row of the persistent batch stands for the cached
  state of its request (\<open>stands_for\<close>), and every cached request would fit into the batch. Each operation of
  \<^verbatim>\<open>_update_states\<close> keeps it, up to the requests that are just leaving; the theorem on the whole step
  is in \<open>Runner_Props\<close>.
\<close>

subsection \<open>The contract of the parameters\<close>

locale runner_parts = batch_parts "re_batch env" for env :: "('bb, 'up, 'bt, 'lp) runner_env" +
  fixes accepting :: "'bb \<Rightarrow> bool"
  assumes append_row: "length ns = length (bt_row (be_table (re_batch env)) t i) \<Longrightarrow>
      bt_row (be_table (re_batch env)) (re_append_row env t ns i) =
      (bt_row (be_table (re_batch env)) t)(i := extend_blocks (bt_row (be_table (re_batch env)) t i) ns)"
    and iter_set: "mset (re_iter env xs) = mset xs"
    and accepts: "accepting b \<Longrightarrow> \<exists>b'. bb_removed_append (be_builder (re_batch env)) b i = Inr b' \<and> accepting b'"
    and moved_accepts: "accepting b \<Longrightarrow> accepting (bb_moved_append (be_builder (re_batch env)) b y)"
    and reset_accepts: "accepting (snd (bb_get_and_reset (be_builder (re_batch env)) b n))"

definition list_runner_env :: "(list_builder, list_builder, nat \<Rightarrow> int list list, unit) runner_env" where
  "list_runner_env =
     \<lparr>re_batch = list_batch_env, re_append_row = (\<lambda>t ns i. t(i := extend_blocks (t i) ns)), re_attn_builder = Attention_builder, re_is_0_10_1_1 = False,
      re_uses_mrope = False, re_is_last_rank = True, re_iter = (\<lambda>xs. xs), re_pooling_update = (\<lambda>_ p. p),
      re_input_positions = (\<lambda>_ _ _ _ _ _. ([], 0))\<rparr>"

interpretation list_runner: runner_parts list_runner_env "\<lambda>_. True"
proof (intro runner_parts.intro runner_parts_axioms.intro)
  show "batch_parts (re_batch list_runner_env)" by (simp add: list_runner_env_def list_batch.batch_parts_axioms)
  fix b :: list_builder and i
  show "\<exists>b'. bb_removed_append (be_builder (re_batch list_runner_env)) b i = Inr b' \<and> True"
    by (cases b) (simp add: list_runner_env_def list_batch_env_def list_builder_ops_def)
qed (simp_all add: list_runner_env_def list_batch_env_def list_table_ops_def)

subsection \<open>The invariant\<close>

definition shape :: "('bb, 'bt, 'lp) input_batch \<Rightarrow> nat \<times> nat \<times> nat \<times> bool" where
  "shape B = (max_num_reqs B, max_model_len B, vocab_size B, is_spec_decode B)"

lemma shape_eq:
  "shape B' = shape B \<longleftrightarrow> max_num_reqs B' = max_num_reqs B \<and> max_model_len B' = max_model_len B \<and>
     vocab_size B' = vocab_size B \<and> is_spec_decode B' = is_spec_decode B"
  by (auto simp: shape_def)

definition batch_dom :: "('bb, 'bt, 'lp) input_batch \<Rightarrow> rid set" where
  "batch_dom B = dom (map_of (req_id_to_index B))"

text \<open>The row of a request, followed by the draft tokens \<open>spec\<close> that it has in the step.\<close>

definition row_spec ::
  "('bb, 'up, 'bt, 'lp) batch_env \<Rightarrow> nat \<Rightarrow> runner_request \<Rightarrow> sampling_params \<Rightarrow> int list \<Rightarrow> batch_row" where
  "row_spec be vocab q sp spec =
     (request_row be vocab (core q) sp)\<lparr>br_tokens := cr_prompt_token_ids q @ cr_output_token_ids q @ spec\<rparr>"

definition stands_for ::
  "('bb, 'up, 'bt, 'lp) runner_env \<Rightarrow> ('bb, 'bt, 'lp, 'e) runner \<Rightarrow> rid \<Rightarrow> int list \<Rightarrow> bool" where
  "stands_for env rn r spec \<longleftrightarrow>
     (\<exists>q sp. rn_requests rn r = Some q \<and> cr_sampling_params q = Some sp \<and>
        view (re_batch env) (rn_batch rn) r = Some (row_spec (re_batch env) (vocab_size (rn_batch rn)) q sp spec) \<and>
        flags (rn_batch rn) r = request_flags (re_batch env) (rn_batch rn) sp)"

definition req_ok :: "('bb, 'bt, 'lp) input_batch \<Rightarrow> rid \<Rightarrow> runner_request \<Rightarrow> bool" where
  "req_ok B r q \<longleftrightarrow>
     cr_req_id q = r \<and> (\<exists>sp. cr_sampling_params q = Some sp \<and> allowed_in_range (vocab_size B) sp) \<and>
     length (cr_prompt_token_ids q) + length (cr_output_token_ids q) \<le> max_model_len B \<and>
     (\<forall>l. cr_lora_request q = Some l \<longrightarrow> lora_int_id l \<noteq> 0)"

definition synced ::
  "('bb, 'up, 'bt, 'lp) runner_env \<Rightarrow> rid set \<Rightarrow> (rid \<Rightarrow> int list) \<Rightarrow> ('bb, 'bt, 'lp, 'e) runner \<Rightarrow> bool" where
  "synced env leaving spec rn \<longleftrightarrow>
     updating (re_batch env) (rn_batch rn) \<and> (\<forall>r q. rn_requests rn r = Some q \<longrightarrow> req_ok (rn_batch rn) r q) \<and>
     (\<forall>r \<in> batch_dom (rn_batch rn) - leaving. stands_for env rn r (spec r))"

lemma view_dom: "view be B r \<noteq> None \<longleftrightarrow> r \<in> batch_dom B" "r \<notin> batch_dom B \<longleftrightarrow> map_of (req_id_to_index B) r = None"
  by (auto simp: view_def batch_dom_def)

lemma req_ok_shape: "shape B' = shape B \<Longrightarrow> req_ok B' r q = req_ok B r q"
  by (simp add: req_ok_def shape_eq)

lemma request_flags_shape: "shape B' = shape B \<Longrightarrow> request_flags be B' sp = request_flags be B sp"
  by (cases "sp_logprobs sp") (simp_all add: request_flags_def shape_eq)

lemma stands_for_cong:
  assumes "shape (rn_batch rn') = shape (rn_batch rn)" "rn_requests rn' r = rn_requests rn r"
    "view (re_batch env) (rn_batch rn') r = view (re_batch env) (rn_batch rn) r" "flags (rn_batch rn') r = flags (rn_batch rn) r"
  shows "stands_for env rn' r s = stands_for env rn r s"
  unfolding stands_for_def assms(2-4) request_flags_shape [OF assms(1)] using assms(1) by (simp add: shape_eq)

text \<open>The way every operation keeps the invariant: all rows but one are left alone.\<close>

lemma synced_step:
  assumes "synced env X spec rn" "updating (re_batch env) (rn_batch rn')" "shape (rn_batch rn') = shape (rn_batch rn)"
    "\<And>r q. rn_requests rn' r = Some q \<Longrightarrow> rn_requests rn r \<noteq> Some q \<Longrightarrow> req_ok (rn_batch rn) r q"
    "\<And>r. r \<in> batch_dom (rn_batch rn') \<Longrightarrow> r \<notin> X' \<Longrightarrow>
       (r \<in> batch_dom (rn_batch rn) \<and> r \<notin> X \<and> rn_requests rn' r = rn_requests rn r \<and>
        view (re_batch env) (rn_batch rn') r = view (re_batch env) (rn_batch rn) r \<and>
        flags (rn_batch rn') r = flags (rn_batch rn) r \<and> spec' r = spec r) \<or> stands_for env rn' r (spec' r)"
  shows "synced env X' spec' rn'"
  unfolding synced_def
proof (intro conjI allI impI ballI)
  show "updating (re_batch env) (rn_batch rn')" by (rule assms(2))
  show "req_ok (rn_batch rn') r q" if "rn_requests rn' r = Some q" for r q
    using that assms(1,4) req_ok_shape [OF assms(3)] by (cases "rn_requests rn r = Some q") (auto simp: synced_def)
  show "stands_for env rn' r (spec' r)" if "r \<in> batch_dom (rn_batch rn') - X'" for r
    using that assms(5) [of r] assms(1) stands_for_cong [OF assms(3), of r env] by (auto simp: synced_def)
qed

text \<open>The encoder caches, generators and draft tokens are not part of it.\<close>

lemma synced_frame:
  "rn_requests rn' = rn_requests rn \<Longrightarrow> rn_batch rn' = rn_batch rn \<Longrightarrow> synced env X spec rn' = synced env X spec rn"
  by (simp add: synced_def stands_for_def)

text \<open>A request that has no row may change.\<close>

lemma synced_request:
  assumes "synced env {} spec rn" "rn_batch rn' = rn_batch rn" "rn_requests rn' = (rn_requests rn)(r \<mapsto> q)"
    "r \<notin> batch_dom (rn_batch rn)" "req_ok (rn_batch rn) r q"
  shows "synced env {} spec rn'"
proof (rule synced_step [OF assms(1)])
  show "updating (re_batch env) (rn_batch rn')" using assms(1,2) by (simp add: synced_def)
  show "req_ok (rn_batch rn) r' q'" if "rn_requests rn' r' = Some q'" "rn_requests rn r' \<noteq> Some q'" for r' q'
    using that assms(3,5) by (auto split: if_splits)
  show "(r' \<in> batch_dom (rn_batch rn) \<and> r' \<notin> {} \<and> rn_requests rn' r' = rn_requests rn r' \<and>
        view (re_batch env) (rn_batch rn') r' = view (re_batch env) (rn_batch rn) r' \<and>
        flags (rn_batch rn') r' = flags (rn_batch rn) r' \<and> spec r' = spec r') \<or> stands_for env rn' r' (spec r')"
    if "r' \<in> batch_dom (rn_batch rn')" for r'
    using that assms(2-4) by auto
qed (simp add: assms(2))

lemma synced_leaving: "synced env X spec rn \<Longrightarrow> batch_dom (rn_batch rn) \<inter> X = {} \<Longrightarrow> synced env {} spec rn"
  by (auto simp: synced_def)

subsection \<open>Removing rows\<close>

lemma shape_removed: "shape (removed_row B r i bb) = shape B"
  by (simp add: shape_def removed_row_def clear_request_def)

context runner_parts
begin

lemma remove_row_ok:
  assumes "synced env X spec rn" "accepting (batch_update_builder (rn_batch rn))"
  shows "\<exists>B. remove_row env rn r = Inr (rn\<lparr>rn_batch := B\<rparr>) \<and> synced env X spec (rn\<lparr>rn_batch := B\<rparr>) \<and>
    accepting (batch_update_builder B) \<and> shape B = shape (rn_batch rn) \<and> batch_dom B = batch_dom (rn_batch rn) - {r}"
proof (cases "map_of (req_id_to_index (rn_batch rn)) r")
  case None
  then have "remove_row env rn r = Inr (rn\<lparr>rn_batch := rn_batch rn\<rparr>)" by (simp add: remove_row_def ib_remove_request_def)
  then show ?thesis using None assms by (intro exI [of _ "rn_batch rn"]) (auto simp: batch_dom_def)
next
  case (Some i)
  let ?B = "rn_batch rn"
  obtain bb where bb: "bb_removed_append (be_builder (re_batch env)) (batch_update_builder ?B) i = Inr bb" "accepting bb"
    using accepts [OF assms(2)] by blast
  have u: "updating (re_batch env) ?B" using assms(1) by (simp add: synced_def)
  let ?B' = "removed_row ?B r i bb"
  have eq: "ib_remove_request (re_batch env) ?B r = Inr (Some i, ?B')"
    using remove_request_eq [OF _ Some bb(1)] u by (simp add: updating_def)
  then have ok: "updating (re_batch env) ?B'" "view (re_batch env) ?B' = (view (re_batch env) ?B)(r := None)"
    "flags ?B' = (flags ?B)(r := no_flags)"
    using remove_request_ok [OF u Some bb(1)] by auto
  have dom: "batch_dom ?B' = batch_dom ?B - {r}" by (auto simp: batch_dom_def removed_fields map_of_dict_pop)
  have "synced env X spec (rn\<lparr>rn_batch := ?B'\<rparr>)"
    by (rule synced_step [OF assms(1)]) (auto simp: ok shape_removed dom)
  then show ?thesis using eq dom bb(2) by (intro exI [of _ ?B']) (simp add: remove_row_def shape_removed removed_fields)
qed

lemma remove_rows_ok:
  "synced env X spec rn \<Longrightarrow> accepting (batch_update_builder (rn_batch rn)) \<Longrightarrow>
   \<exists>B. res_foldl (remove_row env) rn rs = Inr (rn\<lparr>rn_batch := B\<rparr>) \<and> synced env X spec (rn\<lparr>rn_batch := B\<rparr>) \<and>
    accepting (batch_update_builder B) \<and> shape B = shape (rn_batch rn) \<and> batch_dom B = batch_dom (rn_batch rn) - set rs"
proof (induction rs arbitrary: rn)
  case Nil
  then show ?case by (intro exI [of _ "rn_batch rn"]) simp
next
  case (Cons r rs)
  obtain B where B: "remove_row env rn r = Inr (rn\<lparr>rn_batch := B\<rparr>)" "synced env X spec (rn\<lparr>rn_batch := B\<rparr>)"
    "accepting (batch_update_builder B)" "shape B = shape (rn_batch rn)" "batch_dom B = batch_dom (rn_batch rn) - {r}"
    using remove_row_ok [OF Cons.prems] by blast
  obtain B' where "res_foldl (remove_row env) (rn\<lparr>rn_batch := B\<rparr>) rs = Inr (rn\<lparr>rn_batch := B'\<rparr>)"
    "synced env X spec (rn\<lparr>rn_batch := B'\<rparr>)" "accepting (batch_update_builder B')" "shape B' = shape B"
    "batch_dom B' = batch_dom B - set rs"
    using Cons.IH [OF B(2)] B(3) by auto
  then show ?case using B by (intro exI [of _ B']) auto
qed

end

subsection \<open>Updating the row of a running request\<close>

text \<open>The batch after such an update: four arrays change.\<close>

definition touched ::
  "('bb, 'bt, 'lp) input_batch \<Rightarrow> int list \<Rightarrow> 'bt \<Rightarrow> int list list \<Rightarrow> nat list \<Rightarrow> ('bb, 'bt, 'lp) input_batch" where
  "touched B computed table tokens counts =
     B\<lparr>num_computed_tokens_cpu := computed, block_table := table, token_ids_cpu := tokens, ib_num_tokens := counts\<rparr>"

lemma touched_frame:
  "shape (touched B c t ts ns) = shape B" "req_id_to_index (touched B c t ts ns) = req_id_to_index B"
  "flags (touched B c t ts ns) = flags B" "holes (touched B c t ts ns) = holes B"
  "batch_update_builder (touched B c t ts ns) = batch_update_builder B"
  by (simp_all add: touched_def shape_def flags_def fun_eq_iff holes_def)

lemma touched_inv:
  assumes "batch_inv B" "length c = max_num_reqs B" "length ts = max_num_reqs B" "length ns = max_num_reqs B"
    "\<forall>i < max_num_reqs B. length (ts ! i) = max_model_len B"
  shows "batch_inv (touched B c t ts ns)"
proof -
  have "flags_ok (touched B c t ts ns) = flags_ok B"
    by (rule flags_ok_cong [OF touched_frame(3)]) (simp_all add: touched_def)
  then show ?thesis
    using assms by (simp add: batch_inv_def arrays_ok_def touched_def index_ok_def rows_ok_def active_def lora_ok_batch_def
        members_def masks_ok_def)
qed

lemma row_at_touched_other:
  assumes "j \<noteq> i" "c ! j = num_computed_tokens_cpu B ! j" "ts ! j = token_ids_cpu B ! j" "ns ! j = ib_num_tokens B ! j"
    "bt_row (be_table be) t j = bt_row (be_table be) (block_table B) j"
  shows "row_at be (touched B c t ts ns) j = row_at be B j"
  using assms by (simp add: row_at_def touched_def)

lemma row_at_touched:
  "row_at be (touched B c t ts ns) i =
     (row_at be B i)\<lparr>br_num_computed_tokens := c ! i, br_blocks := bt_row (be_table be) t i, br_tokens := take (ns ! i) (ts ! i)\<rparr>"
  by (simp add: row_at_def touched_def)

text \<open>Draft tokens behind the tokens of a request.\<close>

lemma assign_spec:
  assumes "take k row = ts" "length ts + length spec \<le> length row"
  shows "\<exists>row'. np_assign row (length ts) (length ts + length spec) spec = Inr row' \<and> length row' = length row \<and>
    (spec \<noteq> [] \<longrightarrow> take (k + length spec) row' = ts @ spec)"
proof -
  let ?n = "length ts" and ?m = "length spec"
  have eq: "np_assign row ?n (?n + ?m) spec = Inr (take ?n row @ spec @ drop (?n + ?m) row)"
    by (rule np_assign_middle) (use assms(2) in simp_all)
  have n: "?n = min k (length row)" using assms(1) by auto
  have ts: "take ?n row = ts" using assms(1) n by (cases "k \<le> length row") auto
  have k: "k = ?n" if "spec \<noteq> []" using that n assms(2) by (cases spec) auto
  show ?thesis
  proof (intro exI conjI impI)
    show "np_assign row ?n (?n + ?m) spec = Inr (ts @ spec @ drop (?n + ?m) row)" using eq ts by simp
    show "length (ts @ spec @ drop (?n + ?m) row) = length row" using assms(2) by simp
    show "take (k + ?m) (ts @ spec @ drop (?n + ?m) row) = ts @ spec" if "spec \<noteq> []" using k [OF that] by simp
  qed
qed

context runner_parts
begin

lemma update_row_ok:
  assumes "updating (re_batch env) B" "map_of (req_id_to_index B) r = Some i" "re_is_last_rank env"
    "view (re_batch env) B r = Some (row_spec (re_batch env) (vocab_size B) q sp [])"
    "length (cr_prompt_token_ids q) + length (cr_output_token_ids q) + length spec \<le> max_model_len B"
    "\<forall>ns. nb = Some ns \<longrightarrow> length ns = length (cr_block_ids q)"
  shows "\<exists>B'. update_row env B i nc nb [] spec = Inr B' \<and> updating (re_batch env) B' \<and> shape B' = shape B \<and>
    req_id_to_index B' = req_id_to_index B \<and> flags B' = flags B \<and>
    view (re_batch env) B' = (view (re_batch env) B)(r \<mapsto> row_spec (re_batch env) (vocab_size B)
      (q\<lparr>cr_num_computed_tokens := int nc,
         cr_block_ids := (case nb of None \<Rightarrow> cr_block_ids q | Some ns \<Rightarrow> extend_blocks (cr_block_ids q) ns)\<rparr>) sp spec)"
proof -
  let ?be = "re_batch env" and ?L = "max_model_len B" and ?N = "max_num_reqs B"
  let ?ts = "cr_prompt_token_ids q @ cr_output_token_ids q"
  have inv: "batch_inv B" "arrays_ok B" "index_ok B" using assms(1) by (simp_all add: updating_def batch_inv_def)
  have len: "length (token_ids_cpu B) = ?N" "length (ib_num_tokens B) = ?N" "length (num_computed_tokens_cpu B) = ?N"
    "\<forall>j < ?N. length (token_ids_cpu B ! j) = ?L"
    using inv(2) by (simp_all add: arrays_ok_def)
  have i: "i < length (req_ids B)" "req_ids B ! i = Some r" using index_lookup [OF inv(3)] assms(2) by simp_all
  then have iN: "i < ?N" using inv(3) by (simp add: index_ok_def)
  have row: "row_at ?be B i = row_spec ?be (vocab_size B) q sp []" using assms(2,4) by (simp add: view_def)
  then have toks: "take (ib_num_tokens B ! i) (token_ids_cpu B ! i) = ?ts"
    and nospec: "num_tokens_no_spec B ! i = length ?ts" and blocks: "bt_row (be_table ?be) (block_table B) i = cr_block_ids q"
    by (auto simp: row_at_def row_spec_def request_row_def cr_num_tokens_def cr_num_prompt_tokens_def cached_request.defs)
  let ?c = "(num_computed_tokens_cpu B)[i := int nc]"
  let ?t = "case nb of None \<Rightarrow> block_table B | Some ns \<Rightarrow> re_append_row env (block_table B) ns i"
  let ?bl = "case nb of None \<Rightarrow> cr_block_ids q | Some ns \<Rightarrow> extend_blocks (cr_block_ids q) ns"
  have table: "bt_row (be_table ?be) ?t = (bt_row (be_table ?be) (block_table B))(i := ?bl)"
    using append_row [of _ "block_table B" i] assms(6) blocks by (cases nb) (auto simp: fun_eq_iff)
  obtain tokens counts where upd: "update_row env B i nc nb [] spec = Inr (touched B ?c ?t tokens counts)"
    "length tokens = ?N" "length counts = ?N" "\<forall>j < ?N. length (tokens ! j) = ?L"
    "\<forall>j. j \<noteq> i \<longrightarrow> tokens ! j = token_ids_cpu B ! j \<and> counts ! j = ib_num_tokens B ! j"
    "take (counts ! i) (tokens ! i) = ?ts @ spec"
  proof (cases "spec = []")
    case True
    then have "update_row env B i nc nb [] spec = Inr (touched B ?c ?t (token_ids_cpu B) (ib_num_tokens B))"
      using assms(3) by (simp add: update_row_def touched_def Let_def)
    then show ?thesis using that len toks True by simp
  next
    case False
    have "length ?ts + length spec \<le> length (token_ids_cpu B ! i)" using assms(5) len(4) iN by simp
    from assign_spec [OF toks this] obtain row' where
      r': "np_assign (token_ids_cpu B ! i) (length ?ts) (length ?ts + length spec) spec = Inr row'" "length row' = ?L"
      "take (ib_num_tokens B ! i + length spec) row' = ?ts @ spec"
      using False len(4) iN by auto
    let ?tk = "(token_ids_cpu B)[i := row']" and ?ct = "(ib_num_tokens B)[i := ib_num_tokens B ! i + length spec]"
    have "update_row env B i nc nb [] spec = Inr (touched B ?c ?t ?tk ?ct)"
      using assms(3) False r'(1) iN len(1) nospec by (simp add: update_row_def touched_def Let_def assign_tokens_def)
    then show ?thesis
      by (rule that) (use len r' iN in \<open>auto simp: nth_list_update\<close>)
  qed
  let ?B' = "touched B ?c ?t tokens counts"
  have "batch_inv ?B'" by (rule touched_inv [OF inv(1)]) (use len upd(2-4) in simp_all)
  then have up: "updating ?be ?B'" using assms(1) by (simp add: updating_def touched_frame)
  have other: "row_at ?be ?B' j = row_at ?be B j" if "j \<noteq> i" for j
    by (rule row_at_touched_other [OF that]) (use that upd(5) table in simp_all)
  have new: "row_at ?be ?B' i = row_spec ?be (vocab_size B) (q\<lparr>cr_num_computed_tokens := int nc, cr_block_ids := ?bl\<rparr>) sp spec"
    unfolding row_at_touched row upd(6) table using iN len(3)
    by (simp add: row_spec_def request_row_def cr_num_tokens_def cr_num_prompt_tokens_def cached_request.defs)
  have "view ?be ?B' r' = ((view ?be B)(r \<mapsto> row_spec ?be (vocab_size B) (q\<lparr>cr_num_computed_tokens := int nc, cr_block_ids := ?bl\<rparr>) sp spec)) r'"
    for r'
  proof (cases "r' = r")
    case False
    then have "j \<noteq> i" if "map_of (req_id_to_index B) r' = Some j" for j
      using that index_lookup [OF inv(3), of r' j] i by auto
    then show ?thesis using False other by (cases "map_of (req_id_to_index B) r'") (simp_all add: view_def touched_frame)
  qed (use assms(2) new in \<open>simp add: view_def touched_frame\<close>)
  then show ?thesis using upd(1) up touched_frame [of B ?c ?t tokens counts] by (intro exI [of _ ?B']) auto
qed

end

subsection \<open>The requests of a step\<close>

lemma forget_all:
  "rn_batch (foldl (forget_request env) rn rs) = rn_batch rn"
  "rn_requests (foldl (forget_request env) rn rs) = (\<lambda>r. if r \<in> set rs then None else rn_requests rn r)"
  by (induction rs arbitrary: rn) (auto simp: forget_request_def fun_eq_iff)

lemma synced_forget:
  assumes "synced env {} spec rn"
  shows "synced env (set rs) spec (foldl (forget_request env) rn rs)"
  by (rule synced_step [OF assms]) (use assms in \<open>auto simp: forget_all synced_def split: if_splits\<close>)

lemma free_encoder_frame:
  "free_encoder_outputs env rn freed = Inr rn' \<Longrightarrow> rn_batch rn' = rn_batch rn \<and> rn_requests rn' = rn_requests rn"
  by (auto simp: free_encoder_outputs_def split: freed_encoder.splits bool.splits)

definition freed_matches :: "('bb, 'up, 'bt, 'lp) runner_env \<Rightarrow> step_input \<Rightarrow> bool" where
  "freed_matches env si \<longleftrightarrow> (case si_freed_encoder si of FreedIds _ \<Rightarrow> re_is_0_10_1_1 env | FreedHashes _ \<Rightarrow> \<not> re_is_0_10_1_1 env)"

lemma free_encoder_ok:
  "freed_matches env si \<Longrightarrow> \<exists>rn'. free_encoder_outputs env rn (si_freed_encoder si) = Inr rn'"
  by (auto simp: free_encoder_outputs_def freed_matches_def split: freed_encoder.splits bool.splits)

abbreviation scheduled :: "step_input \<Rightarrow> rid set" where
  "scheduled si \<equiv> fst ` set (si_num_scheduled_tokens si)"

context runner_parts
begin

lemma remove_requests_ok:
  assumes "synced env {} spec rn" "accepting (batch_update_builder (rn_batch rn))" "freed_matches env si"
  shows "\<exists>rn'. remove_requests env rn si = Inr rn' \<and> synced env {} spec rn' \<and> shape (rn_batch rn') = shape (rn_batch rn) \<and>
    batch_dom (rn_batch rn') = (batch_dom (rn_batch rn) - set (si_finished_req_ids si)) \<inter> scheduled si \<and>
    rn_requests rn' = (\<lambda>r. if r \<in> set (si_finished_req_ids si) then None else rn_requests rn r)"
proof -
  let ?fin = "si_finished_req_ids si" and ?rn0 = "foldl (forget_request env) rn (si_finished_req_ids si)"
  have "synced env (set ?fin) spec ?rn0" "accepting (batch_update_builder (rn_batch ?rn0))"
    using synced_forget [OF assms(1), of ?fin] assms(2) by (simp_all add: forget_all)
  from remove_rows_ok [OF this] obtain B1 where B1:
    "res_foldl (remove_row env) ?rn0 ?fin = Inr (?rn0\<lparr>rn_batch := B1\<rparr>)" "synced env (set ?fin) spec (?rn0\<lparr>rn_batch := B1\<rparr>)"
    "accepting (batch_update_builder B1)" "shape B1 = shape (rn_batch rn)" "batch_dom B1 = batch_dom (rn_batch rn) - set ?fin"
    by (auto simp: forget_all)
  obtain rn2 where free: "free_encoder_outputs env (?rn0\<lparr>rn_batch := B1\<rparr>) (si_freed_encoder si) = Inr rn2"
    using free_encoder_ok [OF assms(3)] by blast
  have rn2: "rn_batch rn2 = B1" "rn_requests rn2 = rn_requests ?rn0" using free_encoder_frame [OF free] by simp_all
  have s2: "synced env {} spec rn2"
    by (rule synced_leaving [of env "set ?fin"]) (use B1(2,5) synced_frame [of rn2 "?rn0\<lparr>rn_batch := B1\<rparr>" env] rn2 in auto)
  let ?un = "re_iter env (unscheduled_req_ids rn2 si)"
  have un: "set ?un = batch_dom B1 - scheduled si"
    using arg_cong [OF iter_set, of set_mset "unscheduled_req_ids rn2 si"]
    by (auto simp: unscheduled_req_ids_def rn2 batch_dom_def dom_map_of_conv_image_fst)
  from remove_rows_ok [OF s2, of ?un] B1(3) rn2(1) obtain B3 where B3:
    "res_foldl (remove_row env) rn2 ?un = Inr (rn2\<lparr>rn_batch := B3\<rparr>)" "synced env {} spec (rn2\<lparr>rn_batch := B3\<rparr>)"
    "shape B3 = shape B1" "batch_dom B3 = batch_dom B1 - set ?un"
    by auto
  then show ?thesis using B1 free rn2 un
    by (intro exI [of _ "rn2\<lparr>rn_batch := B3\<rparr>"]) (auto simp: remove_requests_def forget_all)
qed

lemma add_new_request_ok:
  assumes "synced env {} spec rn" "nr_req_id d \<notin> batch_dom (rn_batch rn)" "nr_pooling_params d = None"
    "\<And>g. req_ok (rn_batch rn) (nr_req_id d) (new_request env d g None)"
  shows "\<exists>rn' g. add_new_request env (rn, to_add) d = Inr (rn', to_add @ [nr_req_id d]) \<and> synced env {} spec rn' \<and>
    rn_batch rn' = rn_batch rn \<and> rn_requests rn' = (rn_requests rn)(nr_req_id d \<mapsto> new_request env d g None)"
proof -
  let ?g = "case needs_generator d of None \<Rightarrow> None | Some _ \<Rightarrow> Some (length (rn_seeds rn))"
  let ?rn1 = "case needs_generator d of None \<Rightarrow> rn | Some seed \<Rightarrow> rn\<lparr>rn_seeds := rn_seeds rn @ [seed]\<rparr>"
  let ?rn' = "?rn1\<lparr>rn_requests := (rn_requests ?rn1)(nr_req_id d \<mapsto> new_request env d ?g None)\<rparr>"
  have eq: "add_new_request env (rn, to_add) d = Inr (?rn', to_add @ [nr_req_id d])"
    using assms(3) by (simp add: add_new_request_def Let_def)
  have same: "rn_batch ?rn' = rn_batch rn" "rn_requests ?rn' = (rn_requests rn)(nr_req_id d \<mapsto> new_request env d ?g None)"
    by (simp_all split: option.split)
  have "synced env {} spec ?rn'" by (rule synced_request [OF assms(1) same assms(2,4)])
  then show ?thesis using eq same by blast
qed

lemma add_new_requests_ok:
  "synced env {} spec rn \<Longrightarrow> distinct (map nr_req_id ds) \<Longrightarrow> \<forall>d \<in> set ds. nr_req_id d \<notin> batch_dom (rn_batch rn) \<and>
     nr_pooling_params d = None \<and> (\<forall>g. req_ok (rn_batch rn) (nr_req_id d) (new_request env d g None)) \<Longrightarrow>
   \<exists>rn'. res_foldl (add_new_request env) (rn, to_add) ds = Inr (rn', to_add @ map nr_req_id ds) \<and> synced env {} spec rn' \<and>
     rn_batch rn' = rn_batch rn \<and> (\<forall>d \<in> set ds. \<exists>g. rn_requests rn' (nr_req_id d) = Some (new_request env d g None)) \<and>
     (\<forall>r. r \<notin> nr_req_id ` set ds \<longrightarrow> rn_requests rn' r = rn_requests rn r)"
proof (induction ds arbitrary: rn to_add)
  case (Cons d ds)
  have d: "nr_req_id d \<notin> batch_dom (rn_batch rn)" "nr_pooling_params d = None"
    "\<And>g. req_ok (rn_batch rn) (nr_req_id d) (new_request env d g None)" using Cons.prems(3) by auto
  obtain rn1 g where 1: "add_new_request env (rn, to_add) d = Inr (rn1, to_add @ [nr_req_id d])" "synced env {} spec rn1"
    "rn_batch rn1 = rn_batch rn" "rn_requests rn1 = (rn_requests rn)(nr_req_id d \<mapsto> new_request env d g None)"
    using add_new_request_ok [OF Cons.prems(1) d] by blast
  have rest: "distinct (map nr_req_id ds)" "\<forall>d \<in> set ds. nr_req_id d \<notin> batch_dom (rn_batch rn1) \<and>
     nr_pooling_params d = None \<and> (\<forall>g. req_ok (rn_batch rn1) (nr_req_id d) (new_request env d g None))"
    using Cons.prems(2,3) 1(3) by simp_all
  obtain rn' where 2: "res_foldl (add_new_request env) (rn1, to_add @ [nr_req_id d]) ds = Inr (rn', (to_add @ [nr_req_id d]) @ map nr_req_id ds)"
    "synced env {} spec rn'" "rn_batch rn' = rn_batch rn1"
    "\<forall>d \<in> set ds. \<exists>g. rn_requests rn' (nr_req_id d) = Some (new_request env d g None)"
    "\<forall>r. r \<notin> nr_req_id ` set ds \<longrightarrow> rn_requests rn' r = rn_requests rn1 r"
    using Cons.IH [OF 1(2) rest, of "to_add @ [nr_req_id d]"] by (elim exE conjE) (rule that)
  have "\<exists>g. rn_requests rn' (nr_req_id d) = Some (new_request env d g None)"
    using 2(5) 1(4) Cons.prems(2) by auto
  then show ?case using 1 2 by (intro exI [of _ rn']) auto
qed auto

end

text \<open>One running or resumed request; \<open>next_request\<close> is its cached state afterwards.\<close>

definition next_request :: "step_input \<Rightarrow> nat \<Rightarrow> runner_request \<Rightarrow> runner_request" where
  "next_request si i q =
     (let d = si_scheduled_cached_reqs si; nb = cd_new_block_ids d ! i in
      q\<lparr>cr_num_computed_tokens := int (cd_num_computed_tokens d ! i),
        cr_block_ids := (case nb of
                           None \<Rightarrow> cr_block_ids q
                         | Some ns \<Rightarrow> if cd_resumed_from_preemption d ! i then ns else extend_blocks (cr_block_ids q) ns)\<rparr>)"

definition cached_ok :: "('bb, 'bt, 'lp, 'e) runner \<Rightarrow> step_input \<Rightarrow> nat \<Rightarrow> rid \<Rightarrow> bool" where
  "cached_ok rn si i r \<longleftrightarrow>
     (let d = si_scheduled_cached_reqs si; nb = cd_new_block_ids d ! i in
      i < length (cd_num_computed_tokens d) \<and> i < length (cd_new_block_ids d) \<and> i < length (cd_resumed_from_preemption d) \<and>
      (\<exists>q. rn_requests rn r = Some q \<and>
         (cd_resumed_from_preemption d ! i \<longrightarrow> nb \<noteq> None \<and> r \<notin> batch_dom (rn_batch rn)) \<and>
         (\<forall>ns. nb = Some ns \<and> \<not> cd_resumed_from_preemption d ! i \<longrightarrow> length ns = length (cr_block_ids q)) \<and>
         (r \<in> batch_dom (rn_batch rn) \<longrightarrow>
            length (cr_prompt_token_ids q) + length (cr_output_token_ids q) + length (spec_tokens_of si r) \<le> max_model_len (rn_batch rn))))"

lemma req_ok_next: "req_ok B r q \<Longrightarrow> req_ok B r (next_request si i q)"
  by (simp add: req_ok_def next_request_def Let_def)

context runner_parts
begin

lemma update_cached_request_ok:
  assumes "synced env {} spec rn" "re_is_last_rank env" "cached_ok rn si i r" "r \<in> batch_dom (rn_batch rn) \<longrightarrow> spec r = []"
  shows "\<exists>rn'. update_cached_request env si (rn, to_add) (i, r) =
      Inr (rn', if r \<in> batch_dom (rn_batch rn) then to_add else to_add @ [r]) \<and>
    synced env {} (if r \<in> batch_dom (rn_batch rn) then spec(r := spec_tokens_of si r) else spec) rn' \<and>
    shape (rn_batch rn') = shape (rn_batch rn) \<and> batch_dom (rn_batch rn') = batch_dom (rn_batch rn) \<and>
    rn_requests rn' = (rn_requests rn)(r := map_option (next_request si i) (rn_requests rn r))"
proof -
  let ?d = "si_scheduled_cached_reqs si" and ?B = "rn_batch rn" and ?be = "re_batch env"
  let ?nb = "cd_new_block_ids ?d ! i" and ?nc = "cd_num_computed_tokens ?d ! i" and ?res = "cd_resumed_from_preemption ?d ! i"
  obtain q where q: "rn_requests rn r = Some q" "?res \<longrightarrow> ?nb \<noteq> None \<and> r \<notin> batch_dom ?B"
    "\<And>ns. ?nb = Some ns \<Longrightarrow> \<not> ?res \<Longrightarrow> length ns = length (cr_block_ids q)"
    "r \<in> batch_dom ?B \<longrightarrow> length (cr_prompt_token_ids q) + length (cr_output_token_ids q) + length (spec_tokens_of si r) \<le> max_model_len ?B"
    and items: "nth_item (cd_num_computed_tokens ?d) i = Inr ?nc" "nth_item (cd_new_block_ids ?d) i = Inr ?nb"
      "nth_item (cd_resumed_from_preemption ?d) i = Inr ?res"
    using assms(3) by (auto simp: cached_ok_def Let_def nth_item_def)
  let ?q = "next_request si i q"
  have blocks: "update_blocks ?res ?nb (cr_block_ids q) = Inr (cr_block_ids ?q)"
    using q(2) by (auto simp: update_blocks_def next_request_def Let_def split: option.split)
  have nq: "q\<lparr>cr_num_computed_tokens := int ?nc, cr_block_ids := cr_block_ids ?q, cr_output_token_ids := cr_output_token_ids q\<rparr> = ?q"
    by (simp add: next_request_def Let_def)
  have ok: "req_ok ?B r ?q" by (rule req_ok_next) (use assms(1) q(1) in \<open>simp add: synced_def\<close>)
  show ?thesis
  proof (cases "map_of (req_id_to_index ?B) r")
    case None
    then have out: "r \<notin> batch_dom ?B" by (simp add: view_dom)
    let ?rn' = "rn\<lparr>rn_requests := (rn_requests rn)(r \<mapsto> ?q)\<rparr>"
    have "update_cached_request env si (rn, to_add) (i, r) = Inr (?rn', to_add @ [r])"
      using q(1) items blocks nq None assms(2) by (simp add: update_cached_request_def Let_def set_outputs_def map_item_def)
    moreover have "synced env {} spec ?rn'" by (rule synced_request [OF assms(1) _ _ out ok]) simp_all
    ultimately show ?thesis using out q(1) by (intro exI [of _ ?rn']) simp
  next
    case (Some k)
    then have in_dom: "r \<in> batch_dom ?B" by (auto simp: batch_dom_def)
    then have nres: "\<not> ?res" using q(2) by blast
    have st: "stands_for env rn r []" using assms(1,4) in_dom by (auto simp: synced_def)
    obtain sp where sp: "cr_sampling_params q = Some sp" "view ?be ?B r = Some (row_spec ?be (vocab_size ?B) q sp [])"
      "flags ?B r = request_flags ?be ?B sp"
      using st q(1) by (auto simp: stands_for_def)
    have "row_at ?be ?B k = row_spec ?be (vocab_size ?B) q sp []" using sp(2) Some by (simp add: view_def)
    then have "req_output_token_ids ?B ! k = Some (cr_output_token_ids q)"
      by (auto simp: row_at_def row_spec_def request_row_def cached_request.defs)
    then have outs: "(req_output_token_ids ?B)[k := Some (cr_output_token_ids q)] = req_output_token_ids ?B"
      by (metis list_update_id)
    have u: "updating ?be ?B" using assms(1) by (simp add: synced_def)
    have fits: "length (cr_prompt_token_ids q) + length (cr_output_token_ids q) + length (spec_tokens_of si r) \<le> max_model_len ?B"
      using q(4) in_dom by simp
    have bl: "cr_block_ids ?q = (case ?nb of None \<Rightarrow> cr_block_ids q | Some ns \<Rightarrow> extend_blocks (cr_block_ids q) ns)"
      using nres by (simp add: next_request_def Let_def split: option.split)
    have lens: "\<forall>ns. ?nb = Some ns \<longrightarrow> length ns = length (cr_block_ids q)" using q(3) nres by blast
    obtain B' where B': "update_row env ?B k ?nc ?nb [] (spec_tokens_of si r) = Inr B'" "updating ?be B'" "shape B' = shape ?B"
      "req_id_to_index B' = req_id_to_index ?B" "flags B' = flags ?B"
      "view ?be B' = (view ?be ?B)(r \<mapsto> row_spec ?be (vocab_size ?B)
         (q\<lparr>cr_num_computed_tokens := int ?nc, cr_block_ids := cr_block_ids ?q\<rparr>) sp (spec_tokens_of si r))"
      using update_row_ok [OF u Some assms(2) sp(2) fits lens, where nc = ?nc, folded bl] by (elim exE conjE) (rule that)
    let ?rn' = "rn\<lparr>rn_requests := (rn_requests rn)(r \<mapsto> ?q), rn_batch := B'\<rparr>"
    have "update_cached_request env si (rn, to_add) (i, r) = Inr (?rn', to_add)"
      using q(1) items blocks nq Some assms(2) outs B'(1) by (simp add: update_cached_request_def Let_def set_outputs_def map_item_def)
    moreover have "synced env {} (spec(r := spec_tokens_of si r)) ?rn'"
    proof (rule synced_step [OF assms(1)])
      show "req_ok ?B r' q'" if "rn_requests ?rn' r' = Some q'" "rn_requests rn r' \<noteq> Some q'" for r' q'
        using that ok by (auto split: if_splits)
      show "(r' \<in> batch_dom ?B \<and> r' \<notin> {} \<and> rn_requests ?rn' r' = rn_requests rn r' \<and>
          view ?be (rn_batch ?rn') r' = view ?be ?B r' \<and> flags (rn_batch ?rn') r' = flags ?B r' \<and>
          (spec(r := spec_tokens_of si r)) r' = spec r') \<or> stands_for env ?rn' r' ((spec(r := spec_tokens_of si r)) r')"
        if "r' \<in> batch_dom (rn_batch ?rn')" for r'
      proof (cases "r' = r")
        case True
        have "q\<lparr>cr_num_computed_tokens := int ?nc, cr_block_ids := cr_block_ids ?q\<rparr> = ?q"
          by (simp add: next_request_def Let_def)
        then have "view ?be B' r = Some (row_spec ?be (vocab_size B') ?q sp (spec_tokens_of si r))"
          using B'(3,6) by (simp add: shape_eq)
        moreover have "flags B' r = request_flags ?be B' sp" using sp(3) B'(5) request_flags_shape [OF B'(3), of ?be sp] by simp
        moreover have "cr_sampling_params ?q = Some sp" using sp(1) by (simp add: next_request_def Let_def)
        ultimately have "stands_for env ?rn' r (spec_tokens_of si r)"
          unfolding stands_for_def by (intro exI [of _ ?q] exI [of _ sp]) simp
        then show ?thesis using True by simp
      qed (use that B'(4-6) in \<open>simp add: batch_dom_def\<close>)
    qed (use B' in simp_all)
    ultimately show ?thesis using in_dom q(1) B'(3,4) by (intro exI [of _ ?rn']) (simp add: batch_dom_def)
  qed
qed

end

end
