(* ===== verification/Runner_Step.thy ===== *)
theory Runner_Step
  imports Runner_Batch
begin

section \<open>The start of a step as a whole\<close>

text \<open>
  \<^verbatim>\<open>_update_states\<close> from the scheduler's output to the condensed batch, over the lemmas of
  \<open>Runner_Batch\<close> and the refinement lemmas of the batch (\<open>add_request_ok\<close>, \<open>condense_ok\<close>,
  \<open>refresh_metadata_ok\<close>).
\<close>

subsection \<open>The shape of the batch\<close>

lemma shape_added: "shape (added env B q sp i bb ids outs d m) = shape B"
  by (simp add: shape_def added_def set_sampling_def Let_def)

lemma shape_move: "shape (move_row env B l e r) = shape B" "shape (trim B n) = shape B"
  "shape (B\<lparr>batch_update_builder := bb\<rparr>) = shape B" "shape (B\<lparr>req_ids := [], req_output_token_ids := []\<rparr>) = shape B"
  by (simp_all add: shape_def move_row_def trim_def Let_def)

lemma condense_loop_shape: "condense_loop env B l = Some res \<Longrightarrow> \<forall>B'. res = Inr B' \<longrightarrow> shape B' = shape B"
proof (induction rule: condense_loop.raw_induct [rotated, consumes 1, case_names step])
  case (step f env B l res)
  show ?case
  proof (intro allI impI)
    fix B' assume B': "res = Inr B'"
    consider "B' = B" | i e B1 where "condense_move env B i e = Inr B1" "f env B1 (skip_empty (bb_removed (be_builder env) (batch_update_builder B)) l - 1) = Some (Inr B')"
      using step(2) B' by (auto simp: Let_def split: if_splits option.splits sum.splits)
    then show "shape B' = shape B"
    proof cases
      case (2 i e B1)
      then have "shape B' = shape B1" using step(1) by blast
      moreover have "shape B1 = shape B"
        using 2(1) by (auto simp: condense_move_def Let_def shape_move split: if_splits option.splits)
      ultimately show ?thesis by simp
    qed simp
  qed
qed

lemma condense_shape: "condense env B = Some (Inr B') \<Longrightarrow> shape B' = shape B"
  by (auto simp: condense_def Let_def res_elims shape_move split: if_splits dest: condense_loop_shape)

lemma refresh_shape:
  assumes "refresh_metadata env B = Inr B'" "\<not> is_pooling_model B"
  shows "shape B' = shape B"
proof -
  have sr: "same_rows B B'" using refresh_same_rows [OF assms] by blast
  show ?thesis by (subst conjunct1 [OF sr [unfolded same_rows_def]]) (simp add: shape_def)
qed

text \<open>The rows are counted by the requests.\<close>

lemma num_reqs_dom: "index_ok B \<Longrightarrow> num_reqs B = card (batch_dom B)"
  using distinct_card [of "map fst (req_id_to_index B)"]
  by (simp add: num_reqs_def index_ok_def batch_dom_def dom_map_of_conv_image_fst)

lemma finite_batch_dom [simp]: "finite (batch_dom B)"
  by (simp add: batch_dom_def finite_dom_map_of)

subsection \<open>The running requests together\<close>

lemma cached_ok_cong:
  "rn_requests rn' r = rn_requests rn r \<Longrightarrow> batch_dom (rn_batch rn') = batch_dom (rn_batch rn) \<Longrightarrow>
   shape (rn_batch rn') = shape (rn_batch rn) \<Longrightarrow> cached_ok rn' si i r = cached_ok rn si i r"
  by (simp add: cached_ok_def shape_eq)

context runner_parts
begin

lemma update_cached_requests_ok:
  "synced env {} spec rn \<Longrightarrow> re_is_last_rank env \<Longrightarrow> distinct rs \<Longrightarrow> \<forall>(i, r) \<in> set (enumerate n rs). cached_ok rn si i r \<Longrightarrow>
   \<forall>r \<in> set rs. r \<in> batch_dom (rn_batch rn) \<longrightarrow> spec r = [] \<Longrightarrow>
   \<exists>rn'. res_foldl (update_cached_request env si) (rn, to_add) (enumerate n rs) =
      Inr (rn', to_add @ filter (\<lambda>r. r \<notin> batch_dom (rn_batch rn)) rs) \<and>
     synced env {} (\<lambda>r. if r \<in> set rs \<and> r \<in> batch_dom (rn_batch rn) then spec_tokens_of si r else spec r) rn' \<and>
     shape (rn_batch rn') = shape (rn_batch rn) \<and> batch_dom (rn_batch rn') = batch_dom (rn_batch rn) \<and>
     (\<forall>(i, r) \<in> set (enumerate n rs). rn_requests rn' r = map_option (next_request si i) (rn_requests rn r)) \<and>
     (\<forall>r. r \<notin> set rs \<longrightarrow> rn_requests rn' r = rn_requests rn r)"
proof (induction rs arbitrary: rn n to_add spec)
  case Nil
  then show ?case by simp
next
  case (Cons r rs)
  let ?D = "batch_dom (rn_batch rn)"
  have 0: "cached_ok rn si n r" "r \<in> ?D \<longrightarrow> spec r = []" using Cons.prems(4,5) by simp_all
  obtain rn1 where 1: "update_cached_request env si (rn, to_add) (n, r) = Inr (rn1, if r \<in> ?D then to_add else to_add @ [r])"
    "synced env {} (if r \<in> ?D then spec(r := spec_tokens_of si r) else spec) rn1"
    "shape (rn_batch rn1) = shape (rn_batch rn)" "batch_dom (rn_batch rn1) = ?D"
    "rn_requests rn1 = (rn_requests rn)(r := map_option (next_request si n) (rn_requests rn r))"
    using update_cached_request_ok [OF Cons.prems(1,2) 0, of to_add] by (elim exE conjE) (rule that)
  let ?spec1 = "if r \<in> ?D then spec(r := spec_tokens_of si r) else spec" and ?to1 = "if r \<in> ?D then to_add else to_add @ [r]"
  have other: "rn_requests rn1 r' = rn_requests rn r'" if "r' \<in> set rs" for r'
    using that Cons.prems(3) 1(5) by auto
  have mem: "r' \<in> set rs" if "(i, r') \<in> set (enumerate (Suc n) rs)" for i r'
    using that by (auto simp: enumerate_eq_zip dest: set_zip_rightD)
  have oks: "\<forall>(i, r) \<in> set (enumerate (Suc n) rs). cached_ok rn1 si i r"
  proof (clarify)
    fix i r' assume in': "(i, r') \<in> set (enumerate (Suc n) rs)"
    then have "cached_ok rn si i r'" using Cons.prems(4) by auto
    then show "cached_ok rn1 si i r'" using cached_ok_cong [OF other [OF mem [OF in']] 1(4,3)] by simp
  qed
  have rest: "distinct rs" "\<forall>r \<in> set rs. r \<in> batch_dom (rn_batch rn1) \<longrightarrow> ?spec1 r = []"
    using Cons.prems(3,5) 1(4) by auto
  obtain rn' where 2: "res_foldl (update_cached_request env si) (rn1, ?to1) (enumerate (Suc n) rs) =
      Inr (rn', ?to1 @ filter (\<lambda>r. r \<notin> batch_dom (rn_batch rn1)) rs)"
    "synced env {} (\<lambda>r. if r \<in> set rs \<and> r \<in> batch_dom (rn_batch rn1) then spec_tokens_of si r else ?spec1 r) rn'"
    "shape (rn_batch rn') = shape (rn_batch rn1)" "batch_dom (rn_batch rn') = batch_dom (rn_batch rn1)"
    "\<forall>(i, r) \<in> set (enumerate (Suc n) rs). rn_requests rn' r = map_option (next_request si i) (rn_requests rn1 r)"
    "\<forall>r. r \<notin> set rs \<longrightarrow> rn_requests rn' r = rn_requests rn1 r"
    using Cons.IH [OF 1(2) Cons.prems(2) rest(1) oks rest(2), of ?to1] by (elim exE conjE) (rule that)
  have spec: "(\<lambda>r. if r \<in> set rs \<and> r \<in> batch_dom (rn_batch rn1) then spec_tokens_of si r else ?spec1 r) =
     (\<lambda>r'. if r' \<in> set (r # rs) \<and> r' \<in> ?D then spec_tokens_of si r' else spec r')"
    using 1(4) by (auto simp: fun_eq_iff)
  have "rn_requests rn' r = map_option (next_request si n) (rn_requests rn r)" using 2(6) 1(5) Cons.prems(3) by simp
  moreover have "\<forall>(i, r) \<in> set (enumerate (Suc n) rs). rn_requests rn' r = map_option (next_request si i) (rn_requests rn r)"
    using 2(5) other mem by fastforce
  moreover have "\<forall>r'. r' \<notin> set (r # rs) \<longrightarrow> rn_requests rn' r' = rn_requests rn r'" using 2(6) 1(5) by simp
  moreover have "res_foldl (update_cached_request env si) (rn, to_add) (enumerate n (r # rs)) =
      Inr (rn', to_add @ filter (\<lambda>r. r \<notin> ?D) (r # rs))"
    using 1(1,4) 2(1) by simp
  ultimately show ?case using 2(2-4) 1(3,4) unfolding spec by (intro exI [of _ rn']) simp
qed

subsection \<open>The requests that join the batch\<close>

lemma add_row_ok:
  assumes "synced env {} spec rn" "rn_requests rn r \<noteq> None" "r \<notin> batch_dom (rn_batch rn)"
    "card (batch_dom (rn_batch rn)) < max_num_reqs (rn_batch rn)"
  shows "\<exists>B. add_row env rn r = Inr (rn\<lparr>rn_batch := B\<rparr>) \<and> synced env {} (spec(r := [])) (rn\<lparr>rn_batch := B\<rparr>) \<and>
    shape B = shape (rn_batch rn) \<and> batch_dom B = insert r (batch_dom (rn_batch rn))"
proof -
  let ?B = "rn_batch rn" and ?be = "re_batch env"
  obtain q where q: "rn_requests rn r = Some q" using assms(2) by blast
  have u: "updating ?be ?B" and ok: "req_ok ?B r q" using assms(1) q by (simp_all add: synced_def)
  obtain sp where sp: "cr_sampling_params q = Some sp" "allowed_in_range (vocab_size ?B) sp" using ok by (auto simp: req_ok_def)
  have id: "cr_req_id (core q) = r" using ok by (simp add: req_ok_def cached_request.defs)
  have ix: "index_ok ?B" using u by (simp add: updating_def batch_inv_def)
  have can: "can_add ?B (core q) sp"
    using ok sp assms(3,4) num_reqs_dom [OF ix] view_dom(2) [of r ?B] id
    by (simp add: can_add_def req_ok_def cached_request.defs cr_num_tokens_def cr_num_prompt_tokens_def)
  obtain i B where B: "ib_add_request ?be ?B (core q) = Inr (i, B)" "updating ?be B"
    "view ?be B = (view ?be ?B)(r \<mapsto> request_row ?be (vocab_size ?B) (core q) sp)"
    "flags B = (flags ?B)(r := request_flags ?be ?B sp)"
    using add_request_ok [OF u can] id by auto
  have sh: "shape B = shape ?B" using add_request_result [OF u can] B(1) by (auto simp: shape_added)
  have dom: "batch_dom B = insert r (batch_dom ?B)"
    unfolding set_eq_iff insert_iff view_dom(1) [of ?be, symmetric] B(3) by simp
  have row: "request_row ?be (vocab_size ?B) (core q) sp = row_spec ?be (vocab_size B) q sp []"
    using sh by (simp add: row_spec_def shape_eq request_row_def cached_request.defs)
  have "synced env {} (spec(r := [])) (rn\<lparr>rn_batch := B\<rparr>)"
  proof (rule synced_step [OF assms(1)])
    have "stands_for env (rn\<lparr>rn_batch := B\<rparr>) r []"
      unfolding stands_for_def
      by (rule exI [of _ q], rule exI [of _ sp])
        (use q sp B(3,4) row request_flags_shape [OF sh, of ?be sp] in simp)
    then show "(r' \<in> batch_dom ?B \<and> r' \<notin> {} \<and> rn_requests (rn\<lparr>rn_batch := B\<rparr>) r' = rn_requests rn r' \<and>
        view ?be (rn_batch (rn\<lparr>rn_batch := B\<rparr>)) r' = view ?be ?B r' \<and> flags (rn_batch (rn\<lparr>rn_batch := B\<rparr>)) r' = flags ?B r' \<and>
        (spec(r := [])) r' = spec r') \<or> stands_for env (rn\<lparr>rn_batch := B\<rparr>) r' ((spec(r := [])) r')"
      if "r' \<in> batch_dom (rn_batch (rn\<lparr>rn_batch := B\<rparr>))" for r'
      using that dom B(3,4) by (cases "r' = r") simp_all
  qed (use B(2) sh in simp_all)
  then show ?thesis using B(1) q sh dom by (intro exI [of _ B]) (simp add: add_row_def map_item_def)
qed

lemma add_rows_ok:
  "synced env {} spec rn \<Longrightarrow> distinct rs \<Longrightarrow> \<forall>r \<in> set rs. rn_requests rn r \<noteq> None \<and> r \<notin> batch_dom (rn_batch rn) \<Longrightarrow>
   card (batch_dom (rn_batch rn)) + length rs \<le> max_num_reqs (rn_batch rn) \<Longrightarrow>
   \<exists>B. res_foldl (add_row env) rn rs = Inr (rn\<lparr>rn_batch := B\<rparr>) \<and>
     synced env {} (\<lambda>r. if r \<in> set rs then [] else spec r) (rn\<lparr>rn_batch := B\<rparr>) \<and>
     shape B = shape (rn_batch rn) \<and> batch_dom B = set rs \<union> batch_dom (rn_batch rn)"
proof (induction rs arbitrary: rn spec)
  case Nil
  then show ?case by (intro exI [of _ "rn_batch rn"]) simp
next
  case (Cons r rs)
  have r: "rn_requests rn r \<noteq> None" "r \<notin> batch_dom (rn_batch rn)" "card (batch_dom (rn_batch rn)) < max_num_reqs (rn_batch rn)"
    using Cons.prems(3,4) by simp_all
  obtain B where B: "add_row env rn r = Inr (rn\<lparr>rn_batch := B\<rparr>)" "synced env {} (spec(r := [])) (rn\<lparr>rn_batch := B\<rparr>)"
    "shape B = shape (rn_batch rn)" "batch_dom B = insert r (batch_dom (rn_batch rn))"
    using add_row_ok [OF Cons.prems(1) r] by (elim exE conjE) (rule that)
  have rest: "distinct rs" "\<forall>r \<in> set rs. rn_requests (rn\<lparr>rn_batch := B\<rparr>) r \<noteq> None \<and> r \<notin> batch_dom (rn_batch (rn\<lparr>rn_batch := B\<rparr>))"
    "card (batch_dom (rn_batch (rn\<lparr>rn_batch := B\<rparr>))) + length rs \<le> max_num_reqs (rn_batch (rn\<lparr>rn_batch := B\<rparr>))"
    using Cons.prems(2-4) B(3,4) r(2) by (auto simp: shape_eq)
  obtain B' where B': "res_foldl (add_row env) (rn\<lparr>rn_batch := B\<rparr>) rs = Inr (rn\<lparr>rn_batch := B'\<rparr>)"
    "synced env {} (\<lambda>r'. if r' \<in> set rs then [] else (spec(r := [])) r') (rn\<lparr>rn_batch := B'\<rparr>)"
    "shape B' = shape B" "batch_dom B' = set rs \<union> batch_dom B"
    using Cons.IH [OF B(2) rest] by auto
  have "(\<lambda>r'. if r' \<in> set rs then [] else (spec(r := [])) r') = (\<lambda>r'. if r' \<in> set (r # rs) then [] else spec r')" by auto
  then show ?case using B(1,3,4) B' by (intro exI [of _ B']) auto
qed

subsection \<open>Condensing and refreshing\<close>

lemma settle_ok:
  assumes "updating (re_batch env) B"
  shows "\<exists>B1 B'. condense (re_batch env) B = Some (Inr B1) \<and> refresh_metadata (re_batch env) B1 = Inr B' \<and>
    updating (re_batch env) B' \<and> holes B' = {} \<and> view (re_batch env) B' = view (re_batch env) B \<and> flags B' = flags B \<and>
    shape B' = shape B \<and> accepting (batch_update_builder B')"
proof -
  let ?be = "re_batch env"
  obtain B1 where 1: "condense ?be B = Some (Inr B1)" "condensed B1" "view ?be B1 = view ?be B" "flags B1 = flags B"
    using condense_ok [OF assms] by (elim exE conjE) (rule that)
  have np: "\<not> is_pooling_model B1" using 1(2) by (simp add: condensed_def batch_inv_def index_ok_def)
  obtain B' where r: "refresh_metadata ?be B1 = Inr B'"
  proof (cases "fst (bb_get_and_reset (be_builder ?be) (batch_update_builder B1) (num_reqs B1)) = None")
    case True
    then show ?thesis using np that by (simp add: refresh_metadata_def case_prod_unfold Let_def)
  next
    case False
    then show ?thesis using refresh_metadata_ok [OF 1(2)] that by blast
  qed
  note sr = refresh_same_rows [OF r np]
  have "shape B' = shape B" using refresh_shape [OF r np] condense_shape [OF 1(1)] by simp
  moreover have "holes B' = {}" using same_rows_frame(2) [OF conjunct1 [OF sr]] 1(2) by (simp add: condensed_def)
  moreover have "flags B' = flags B" using same_rows_frame(5) [OF conjunct1 [OF sr]] 1(4) by simp
  moreover have "accepting (batch_update_builder B')" using conjunct2 [OF sr] reset_accepts by simp
  ultimately show ?thesis using 1(1,3) r refresh_keeps [OF 1(2) r] by auto
qed

end

subsection \<open>What the scheduler promises\<close>

text \<open>
  The new and the running requests are exactly the scheduled ones, without repetition, and there is room for them;
  a new request is not in the batch, unless it leaves in this step, and fits; a running request is known (\<open>cached_ok\<close>).
\<close>

definition step_ok ::
  "('bb, 'up, 'bt, 'lp) runner_env \<Rightarrow> ('bb, 'bt, 'lp, 'e) runner \<Rightarrow> step_input \<Rightarrow> bool" where
  "step_ok env rn si \<longleftrightarrow>
     freed_matches env si \<and>
     distinct (map nr_req_id (si_scheduled_new_reqs si) @ cd_req_ids (si_scheduled_cached_reqs si)) \<and>
     scheduled si = nr_req_id ` set (si_scheduled_new_reqs si) \<union> set (cd_req_ids (si_scheduled_cached_reqs si)) \<and>
     card (scheduled si) \<le> max_num_reqs (rn_batch rn) \<and>
     (\<forall>d \<in> set (si_scheduled_new_reqs si). nr_pooling_params d = None \<and>
        (nr_req_id d \<in> batch_dom (rn_batch rn) \<longrightarrow> nr_req_id d \<in> set (si_finished_req_ids si)) \<and>
        (\<forall>g. req_ok (rn_batch rn) (nr_req_id d) (new_request env d g None))) \<and>
     (\<forall>(i, r) \<in> set (enumerate 0 (cd_req_ids (si_scheduled_cached_reqs si))).
        r \<notin> set (si_finished_req_ids si) \<and> cached_ok rn si i r)"

text \<open>The draft tokens in the rows after the start of a step: those of the requests that were in the batch before.\<close>

definition step_spec :: "('bb, 'bt, 'lp, 'e) runner \<Rightarrow> step_input \<Rightarrow> rid \<Rightarrow> int list" where
  "step_spec rn si r =
     (if r \<in> set (cd_req_ids (si_scheduled_cached_reqs si)) \<and> r \<in> batch_dom (rn_batch rn) then spec_tokens_of si r else [])"

text \<open>The cached states after the start of a step.\<close>

definition next_states ::
  "('bb, 'up, 'bt, 'lp) runner_env \<Rightarrow> ('bb, 'bt, 'lp, 'e) runner \<Rightarrow> step_input \<Rightarrow> (rid \<rightharpoonup> runner_request) \<Rightarrow> bool" where
  "next_states env rn si qs \<longleftrightarrow>
     (\<forall>d \<in> set (si_scheduled_new_reqs si). \<exists>g. qs (nr_req_id d) = Some (new_request env d g None)) \<and>
     (\<forall>(i, r) \<in> set (enumerate 0 (cd_req_ids (si_scheduled_cached_reqs si))).
        qs r = map_option (next_request si i) (rn_requests rn r)) \<and>
     (\<forall>r. r \<notin> scheduled si \<longrightarrow> qs r = (if r \<in> set (si_finished_req_ids si) then None else rn_requests rn r))"

lemma cached_ok_known: "cached_ok rn si i r \<Longrightarrow> rn_requests rn r \<noteq> None"
  by (auto simp: cached_ok_def Let_def)

lemma in_enumerate: "(i, r) \<in> set (enumerate n xs) \<Longrightarrow> r \<in> set xs"
  by (auto simp: enumerate_eq_zip dest: set_zip_rightD)

lemma enumerated: "r \<in> set xs \<Longrightarrow> \<exists>i. (i, r) \<in> set (enumerate n xs)"
  by (metis in_set_impl_in_set_zip2 enumerate_eq_zip length_upt add_diff_cancel_left')

context runner_parts
begin

lemma update_requests_ok:
  assumes "synced env {} (\<lambda>_. []) rn" "accepting (batch_update_builder (rn_batch rn))" "re_is_last_rank env" "step_ok env rn si"
  shows "\<exists>rn'. update_requests env rn si = Inr rn' \<and> synced env {} (step_spec rn si) rn' \<and>
    shape (rn_batch rn') = shape (rn_batch rn) \<and> batch_dom (rn_batch rn') = scheduled si \<and> next_states env rn si (rn_requests rn')"
proof -
  let ?news = "si_scheduled_new_reqs si" and ?cached = "cd_req_ids (si_scheduled_cached_reqs si)"
  let ?fin = "set (si_finished_req_ids si)" and ?D = "batch_dom (rn_batch rn)"
  have ok: "freed_matches env si" "distinct (map nr_req_id ?news)" "distinct ?cached" "nr_req_id ` set ?news \<inter> set ?cached = {}"
    "scheduled si = nr_req_id ` set ?news \<union> set ?cached" "card (scheduled si) \<le> max_num_reqs (rn_batch rn)"
    using assms(4) by (auto simp: step_ok_def)
  have new_ok: "nr_pooling_params d = None" "nr_req_id d \<in> ?D \<Longrightarrow> nr_req_id d \<in> ?fin"
    "req_ok (rn_batch rn) (nr_req_id d) (new_request env d g None)" if "d \<in> set ?news" for d g
    using assms(4) that by (auto simp: step_ok_def)
  have run_ok: "r \<notin> ?fin" "cached_ok rn si i r" if "(i, r) \<in> set (enumerate 0 ?cached)" for i r
    using assms(4) that by (auto simp: step_ok_def)
  have run: "r \<notin> ?fin" "rn_requests rn r \<noteq> None" if "r \<in> set ?cached" for r
    using enumerated [OF that, of 0] run_ok cached_ok_known by blast+
  obtain rn1 where 1: "remove_requests env rn si = Inr rn1" "synced env {} (\<lambda>_. []) rn1" "shape (rn_batch rn1) = shape (rn_batch rn)"
    "batch_dom (rn_batch rn1) = (?D - ?fin) \<inter> scheduled si" "rn_requests rn1 = (\<lambda>r. if r \<in> ?fin then None else rn_requests rn r)"
    using remove_requests_ok [OF assms(1,2) ok(1)] by (elim exE conjE) (rule that)
  have D1: "batch_dom (rn_batch rn1) = ?D \<inter> set ?cached"
    unfolding 1(4) ok(5) using new_ok(2) run(1) by auto
  have news: "\<forall>d \<in> set ?news. nr_req_id d \<notin> batch_dom (rn_batch rn1) \<and> nr_pooling_params d = None \<and>
      (\<forall>g. req_ok (rn_batch rn1) (nr_req_id d) (new_request env d g None))"
    using new_ok ok(4) D1 by (auto simp: req_ok_shape [OF 1(3)])
  obtain rn2 where 2: "res_foldl (add_new_request env) (rn1, []) ?news = Inr (rn2, [] @ map nr_req_id ?news)"
    "synced env {} (\<lambda>_. []) rn2" "rn_batch rn2 = rn_batch rn1"
    "\<forall>d \<in> set ?news. \<exists>g. rn_requests rn2 (nr_req_id d) = Some (new_request env d g None)"
    "\<forall>r. r \<notin> nr_req_id ` set ?news \<longrightarrow> rn_requests rn2 r = rn_requests rn1 r"
    using add_new_requests_ok [OF 1(2) ok(2) news, of "[]"] by (elim exE conjE) (rule that)
  have kept: "rn_requests rn2 r = rn_requests rn r" if "r \<in> set ?cached" for r
  proof -
    have "r \<notin> nr_req_id ` set ?news" using that ok(4) by blast
    then show ?thesis using 2(5) 1(5) run(1) [OF that] by simp
  qed
  have oks: "\<forall>(i, r) \<in> set (enumerate 0 ?cached). cached_ok rn2 si i r"
  proof (clarify)
    fix i r assume in': "(i, r) \<in> set (enumerate 0 ?cached)"
    have r: "r \<in> set ?cached" by (rule in_enumerate [OF in'])
    have "cached_ok rn2 si i r = cached_ok rn si i r"
      unfolding cached_ok_def kept [OF r] 2(3) D1 using r 1(3) by (simp add: shape_eq)
    then show "cached_ok rn2 si i r" using run_ok(2) [OF in'] by simp
  qed
  obtain rn3 where 3: "res_foldl (update_cached_request env si) (rn2, map nr_req_id ?news) (enumerate 0 ?cached) =
      Inr (rn3, map nr_req_id ?news @ filter (\<lambda>r. r \<notin> batch_dom (rn_batch rn2)) ?cached)"
    "synced env {} (\<lambda>r. if r \<in> set ?cached \<and> r \<in> batch_dom (rn_batch rn2) then spec_tokens_of si r else []) rn3"
    "shape (rn_batch rn3) = shape (rn_batch rn2)" "batch_dom (rn_batch rn3) = batch_dom (rn_batch rn2)"
    "\<forall>(i, r) \<in> set (enumerate 0 ?cached). rn_requests rn3 r = map_option (next_request si i) (rn_requests rn2 r)"
    "\<forall>r. r \<notin> set ?cached \<longrightarrow> rn_requests rn3 r = rn_requests rn2 r"
    using update_cached_requests_ok [OF 2(2) assms(3) ok(3) oks, of "map nr_req_id ?news"] by auto
  let ?add = "map nr_req_id ?news @ filter (\<lambda>r. r \<notin> batch_dom (rn_batch rn2)) ?cached"
  have D3: "batch_dom (rn_batch rn3) = ?D \<inter> set ?cached" using 3(4) 2(3) D1 by simp
  have add: "set ?add = nr_req_id ` set ?news \<union> (set ?cached - ?D)" unfolding 2(3) D1 by auto
  have dist: "distinct ?add" using ok(2-4) by auto
  have next': "next_states env rn si (rn_requests rn3)"
    unfolding next_states_def
  proof (intro conjI ballI allI impI; (clarify)?)
    show "\<exists>g. rn_requests rn3 (nr_req_id d) = Some (new_request env d g None)" if "d \<in> set ?news" for d
      using that 3(6) 2(4) ok(4) by (metis disjoint_iff image_eqI)
    show "rn_requests rn3 r = map_option (next_request si i) (rn_requests rn r)" if "(i, r) \<in> set (enumerate 0 ?cached)" for i r
      using that 3(5) kept [OF in_enumerate [OF that]] by auto
    show "rn_requests rn3 r = (if r \<in> ?fin then None else rn_requests rn r)" if "r \<notin> scheduled si" for r
      using that 3(6) 2(5) 1(5) by (simp add: ok(5))
  qed
  have known: "\<forall>r \<in> set ?add. rn_requests rn3 r \<noteq> None \<and> r \<notin> batch_dom (rn_batch rn3)"
  proof
    fix r assume "r \<in> set ?add"
    then consider d where "d \<in> set ?news" "r = nr_req_id d" | "r \<in> set ?cached" "r \<notin> ?D" unfolding add by blast
    then show "rn_requests rn3 r \<noteq> None \<and> r \<notin> batch_dom (rn_batch rn3)"
    proof cases
      case (1 d)
      then show ?thesis using next' ok(4) unfolding next_states_def D3 by fastforce
    next
      case 2
      then show ?thesis using next' enumerated [OF 2(1), of 0] run(2) [OF 2(1)] unfolding next_states_def D3 by fastforce
    qed
  qed
  have all: "set ?add \<union> batch_dom (rn_batch rn3) = scheduled si" unfolding add D3 ok(5) by blast
  have "card (batch_dom (rn_batch rn3)) + length ?add = card (scheduled si)"
  proof -
    have "set ?add \<inter> batch_dom (rn_batch rn3) = {}" using known by blast
    then show ?thesis
      using card_Un_disjoint [of "set ?add" "batch_dom (rn_batch rn3)"] distinct_card [OF dist] unfolding all by simp
  qed
  then have room: "card (batch_dom (rn_batch rn3)) + length ?add \<le> max_num_reqs (rn_batch rn3)"
    using ok(6) 3(3) 2(3) 1(3) by (simp add: shape_eq)
  obtain B where B: "res_foldl (add_row env) rn3 ?add = Inr (rn3\<lparr>rn_batch := B\<rparr>)"
    "synced env {} (\<lambda>r. if r \<in> set ?add then [] else (if r \<in> set ?cached \<and> r \<in> batch_dom (rn_batch rn2) then spec_tokens_of si r else [])) (rn3\<lparr>rn_batch := B\<rparr>)"
    "shape B = shape (rn_batch rn3)" "batch_dom B = set ?add \<union> batch_dom (rn_batch rn3)"
    using add_rows_ok [OF 3(2) dist known room] by (elim exE conjE) (rule that)
  have "(\<lambda>r. if r \<in> set ?add then [] else (if r \<in> set ?cached \<and> r \<in> batch_dom (rn_batch rn2) then spec_tokens_of si r else [])) = step_spec rn si"
    unfolding fun_eq_iff step_spec_def add 2(3) D1 using ok(4) by auto
  then have "synced env {} (step_spec rn si) (rn3\<lparr>rn_batch := B\<rparr>)" using B(2) by simp
  moreover have "update_requests env rn si = Inr (rn3\<lparr>rn_batch := B\<rparr>)"
    using 1(1) 2(1) 3(1) B(1) by (simp add: update_requests_def)
  ultimately show ?thesis using next' B(3,4) all 1(3) 2(3) 3(3) by (intro exI [of _ "rn3\<lparr>rn_batch := B\<rparr>"]) simp
qed

lemma update_states_ok:
  assumes "synced env {} (\<lambda>_. []) rn" "accepting (batch_update_builder (rn_batch rn))" "re_is_last_rank env" "step_ok env rn si"
  shows "\<exists>rn'. update_states env rn si = Some (Inr rn') \<and> synced env {} (step_spec rn si) rn' \<and>
    accepting (batch_update_builder (rn_batch rn')) \<and> shape (rn_batch rn') = shape (rn_batch rn) \<and> holes (rn_batch rn') = {} \<and>
    batch_dom (rn_batch rn') = scheduled si \<and> next_states env rn si (rn_requests rn')"
proof -
  let ?be = "re_batch env"
  obtain rn1 where 1: "update_requests env rn si = Inr rn1" "synced env {} (step_spec rn si) rn1"
    "shape (rn_batch rn1) = shape (rn_batch rn)" "batch_dom (rn_batch rn1) = scheduled si" "next_states env rn si (rn_requests rn1)"
    using update_requests_ok [OF assms] by (elim exE conjE) (rule that)
  have u: "updating ?be (rn_batch rn1)" using 1(2) by (simp add: synced_def)
  obtain B B' where B: "condense ?be (rn_batch rn1) = Some (Inr B)" "refresh_metadata ?be B = Inr B'" "updating ?be B'" "holes B' = {}"
    "view ?be B' = view ?be (rn_batch rn1)" "flags B' = flags (rn_batch rn1)" "shape B' = shape (rn_batch rn1)"
    "accepting (batch_update_builder B')"
    using settle_ok [OF u] by (elim exE conjE) (rule that)
  have dom: "batch_dom B' = batch_dom (rn_batch rn1)"
    unfolding set_eq_iff view_dom(1) [of ?be, symmetric] B(5) by simp
  have "synced env {} (step_spec rn si) (rn1\<lparr>rn_batch := B'\<rparr>)"
    by (rule synced_step [OF 1(2)]) (use B dom in simp_all)
  then show ?thesis
    using 1 B dom by (intro exI [of _ "rn1\<lparr>rn_batch := B'\<rparr>"]) (simp add: update_states_def)
qed

end

end
