(* ===== verification/Batch_Reorder.thy ===== *)
theory Batch_Reorder
  imports Runner_Step
begin

section \<open>The order of the rows\<close>

text \<open>
  \<^verbatim>\<open>reorder_batch\<close> of the attention metadata builders (\<^verbatim>\<open>vllm_ascend/attention/attention_v1.py\<close>,
  \<^verbatim>\<open>vllm_ascend/attention/mla_v1.py\<close>, \<^verbatim>\<open>vllm_ascend/torchair/torchair_mla.py\<close>): the first leaves the batch alone,
  the other two swap rows until the decode requests come first. They differ in what a decode request is.
\<close>

subsection \<open>Definitions\<close>

text \<open>The loop over \<^verbatim>\<open>enumerate(input_batch.req_ids)\<close>: the rows of decode and of prefill requests.\<close>

definition classify_row ::
  "(nat \<Rightarrow> nat \<Rightarrow> bool) \<Rightarrow> step_input \<Rightarrow> nat list \<times> nat list \<Rightarrow> nat \<times> rid option \<Rightarrow> (nat list \<times> nat list) result" where
  "classify_row is_decode si acc ix =
     (case acc of (decodes, prefills) \<Rightarrow> case ix of (i, x) \<Rightarrow> case x of
        None \<Rightarrow> Inl KeyError
      | Some r \<Rightarrow>
          res_bind (dict_item (si_num_scheduled_tokens si) r) (\<lambda>n.
          if is_decode n (length (spec_tokens_of si r)) then Inr (decodes @ [i], prefills) else Inr (decodes, prefills @ [i])))"

text \<open>The swaps: the last decode against the first prefill, as long as that decode lies behind the decode part.\<close>

fun reorder_loop ::
  "('bb, 'up, 'bt, 'lp) batch_env \<Rightarrow> nat \<Rightarrow> ('bb, 'bt, 'lp) input_batch \<Rightarrow> bool \<Rightarrow> nat list \<Rightarrow> nat list \<Rightarrow>
   (('bb, 'bt, 'lp) input_batch \<times> bool) result" where
  "reorder_loop env num_decodes B modified (d # ds) (p # ps) =
     (if num_decodes \<le> d then res_bind (swap_states env B p d) (\<lambda>B'. reorder_loop env num_decodes B' True ds ps)
      else Inr (B, modified))"
| "reorder_loop env num_decodes B modified _ _ = Inr (B, modified)"

definition reorder_by ::
  "('bb, 'up, 'bt, 'lp) batch_env \<Rightarrow> (nat \<Rightarrow> nat \<Rightarrow> bool) \<Rightarrow> ('bb, 'bt, 'lp) input_batch \<Rightarrow> step_input \<Rightarrow>
   (('bb, 'bt, 'lp) input_batch \<times> bool) result" where
  "reorder_by env is_decode B si =
     res_bind (res_foldl (classify_row is_decode si) ([], []) (enumerate 0 (req_ids B))) (\<lambda>(decodes, prefills).
     reorder_loop env (length decodes) B False (rev decodes) prefills)"

definition attn_reorder_batch :: "('bb, 'bt, 'lp) input_batch \<Rightarrow> step_input \<Rightarrow> (('bb, 'bt, 'lp) input_batch \<times> bool) result" where
  "attn_reorder_batch B si = Inr (B, False)"

definition mla_reorder_batch ::
  "('bb, 'up, 'bt, 'lp) batch_env \<Rightarrow> ('bb, 'bt, 'lp) input_batch \<Rightarrow> step_input \<Rightarrow> (('bb, 'bt, 'lp) input_batch \<times> bool) result" where
  "mla_reorder_batch env B si = reorder_by env (\<lambda>n s. n = 1) B si"

definition torchair_mla_reorder_batch ::
  "bool \<Rightarrow> ('bb, 'up, 'bt, 'lp) batch_env \<Rightarrow> ('bb, 'bt, 'lp) input_batch \<Rightarrow> step_input \<Rightarrow>
   (('bb, 'bt, 'lp) input_batch \<times> bool) result" where
  "torchair_mla_reorder_batch torchair_graph_enabled env B si =
     reorder_by env (\<lambda>n s. if torchair_graph_enabled then int n - int s = 1 else n = 1) B si"

subsection \<open>Classification\<close>

definition is_decode_row :: "(nat \<Rightarrow> nat \<Rightarrow> bool) \<Rightarrow> step_input \<Rightarrow> rid \<Rightarrow> bool" where
  "is_decode_row is_decode si r \<longleftrightarrow> is_decode (the (map_of (si_num_scheduled_tokens si) r)) (length (spec_tokens_of si r))"

lemma scheduled_known: "r \<in> scheduled si \<Longrightarrow> \<exists>n. map_of (si_num_scheduled_tokens si) r = Some n"
  by (metis dom_map_of_conv_image_fst domD)

lemma classify_rows_ok:
  "set ids \<subseteq> scheduled si \<Longrightarrow>
   res_foldl (classify_row is_decode si) ([], []) (enumerate 0 (map Some ids)) =
     Inr (filter (\<lambda>i. is_decode_row is_decode si (ids ! i)) [0..<length ids],
          filter (\<lambda>i. \<not> is_decode_row is_decode si (ids ! i)) [0..<length ids])"
proof (induction ids rule: rev_induct)
  case (snoc r ids)
  obtain n where n: "map_of (si_num_scheduled_tokens si) r = Some n"
    using scheduled_known [of r si] snoc.prems by auto
  have same: "filter (\<lambda>i. P ((ids @ [r]) ! i)) [0..<length ids] = filter (\<lambda>i. P (ids ! i)) [0..<length ids]" for P
    by (rule filter_cong) (simp_all add: nth_append)
  have "classify_row is_decode si (A, C) (length ids, Some r) =
      Inr (if is_decode_row is_decode si r then (A @ [length ids], C) else (A, C @ [length ids]))" for A C
    using n by (simp add: classify_row_def is_decode_row_def)
  then show ?case
    using snoc by (simp add: enumerate_append_eq res_foldl_append same same [of "\<lambda>r. \<not> is_decode_row is_decode si r"])
qed simp

subsection \<open>The swaps\<close>

lemma decodes_all_front:
  assumes "card {x. x < n \<and> D x} = nd" "\<And>x. x < n \<Longrightarrow> D x \<Longrightarrow> x < nd"
  shows "\<forall>x < n. D x \<longleftrightarrow> x < nd"
proof -
  have sub: "{x. x < n \<and> D x} \<subseteq> {..<nd}" using assms(2) by auto
  have "card {x. x < n \<and> D x} = card {..<nd}" using assms(1) by simp
  from card_subset_eq [OF _ sub this] have "{x. x < n \<and> D x} = {..<nd}" by simp
  then show ?thesis by (auto simp: set_eq_iff)
qed

lemma prefills_all_back:
  assumes "card {x. x < n \<and> D x} = nd" "\<And>x. x < n \<Longrightarrow> x < nd \<Longrightarrow> D x"
  shows "\<forall>x < n. D x \<longleftrightarrow> x < nd"
proof -
  have le: "nd \<le> n" using assms(1) card_mono [of "{..<n}" "{x. x < n \<and> D x}"] by auto
  have sub: "{..<nd} \<subseteq> {x. x < n \<and> D x}" using assms(2) le by auto
  have "card {..<nd} = card {x. x < n \<and> D x}" using assms(1) by simp
  from card_subset_eq [OF _ sub this] have "{..<nd} = {x. x < n \<and> D x}" by simp
  then show ?thesis by (auto simp: set_eq_iff)
qed

text \<open>One swap in a batch without holes.\<close>

lemma swap_rows:
  assumes "batch_parts env" "batch_inv B" "holes B = {}" "i < num_reqs B" "j < num_reqs B"
  shows "\<exists>B'. swap_states env B i j = Inr B' \<and> batch_inv B' \<and> holes B' = {} \<and> view env B' = view env B \<and> flags B' = flags B \<and>
    num_reqs B' = num_reqs B \<and> shape B' = shape B \<and> ib_sampling_metadata B' = ib_sampling_metadata B \<and>
    batch_update_builder B' = bb_moved_append (be_builder env) (batch_update_builder B) (i, j, SWAP) \<and>
    (\<forall>k < num_reqs B. batch_ids B' ! k = batch_ids B ! tr i j k)"
proof -
  have c: "condensed B" using assms(2,3) by (simp add: condensed_def)
  note len = condensedD(5) [OF c]
  have full: "\<exists>r. req_ids B ! x = Some r" if "x < num_reqs B" for x
    using that assms(3) len by (cases "req_ids B ! x") (auto simp: holes_def)
  obtain r1 where r1: "req_ids B ! i = Some r1" using full [OF assms(4)] by (rule exE)
  obtain r2 where r2: "req_ids B ! j = Some r2" using full [OF assms(5)] by (rule exE)
  note r = r1 r2
  then have pre: "swap_pre B i j r1 r2" using assms(2,4,5) len by (simp add: swap_pre_def)
  let ?B' = "swapped env B i j r1 r2"
  have inv: "batch_inv ?B'" "holes ?B' = {}"
    using batch_parts.swap_states_ok(2) [OF assms(1) pre] swapped_holes [OF pre, of env] assms(3) by simp_all
  then have c': "condensed ?B'" by (simp add: condensed_def)
  have num: "num_reqs ?B' = num_reqs B" using condensedD(5) [OF c'] len by (simp add: swapped_fields)
  have ids: "batch_ids ?B' ! k = batch_ids B ! tr i j k" if "k < num_reqs B" for k
    using that assms(4,5) len by (simp add: batch_ids_def swapped_fields list_swap_nth tr_less)
  show ?thesis
    using swap_states_eq [OF pre, of env] inv num ids batch_parts.swap_states_ok(1) [OF assms(1) pre] swapped_flags(1) [of env B i j r1 r2]
    by (intro exI [of _ ?B']) (auto simp: swapped_fields shape_def swapped_def swap_arrays_def)
qed

text \<open>\<open>D r\<close>: the request \<open>r\<close> is a decode. The lists hold the decodes behind and the prefills before the border \<open>nd\<close>.\<close>

lemma reorder_loop_ok:
  assumes "batch_parts env"
  shows "batch_inv B \<Longrightarrow> holes B = {} \<Longrightarrow> card {x. x < num_reqs B \<and> D (batch_ids B ! x)} = nd \<Longrightarrow>
    sorted_wrt (>) ds \<Longrightarrow> sorted_wrt (<) ps \<Longrightarrow> \<forall>d \<in> set ds. d < num_reqs B \<and> D (batch_ids B ! d) \<Longrightarrow>
    \<forall>p \<in> set ps. p < num_reqs B \<and> \<not> D (batch_ids B ! p) \<Longrightarrow>
    \<forall>x < num_reqs B. nd \<le> x \<longrightarrow> D (batch_ids B ! x) \<longrightarrow> x \<in> set ds \<Longrightarrow>
    \<forall>x < num_reqs B. x < nd \<longrightarrow> \<not> D (batch_ids B ! x) \<longrightarrow> x \<in> set ps \<Longrightarrow>
    \<exists>B' m ys. reorder_loop env nd B m0 ds ps = Inr (B', m) \<and> batch_inv B' \<and> holes B' = {} \<and> view env B' = view env B \<and>
      flags B' = flags B \<and> num_reqs B' = num_reqs B \<and> shape B' = shape B \<and> ib_sampling_metadata B' = ib_sampling_metadata B \<and>
      batch_update_builder B' = foldl (bb_moved_append (be_builder env)) (batch_update_builder B) ys \<and>
      (\<forall>x < num_reqs B. D (batch_ids B' ! x) \<longleftrightarrow> x < nd)"
proof (induction ds arbitrary: B ps m0)
  case Nil
  have "\<forall>x < num_reqs B. D (batch_ids B ! x) \<longleftrightarrow> x < nd"
    by (rule decodes_all_front [OF Nil.prems(3)]) (use Nil.prems(8) in auto)
  then show ?case using Nil.prems(1,2) by (intro exI [of _ B] exI [of _ m0] exI [of _ "[]"]) simp
next
  case (Cons d ds)
  show ?case
  proof (cases ps)
    case Nil
    have "\<forall>x < num_reqs B. D (batch_ids B ! x) \<longleftrightarrow> x < nd"
      by (rule prefills_all_back [OF Cons.prems(3)]) (use Cons.prems(9) Nil in auto)
    then show ?thesis using Cons.prems(1,2) Nil by (intro exI [of _ B] exI [of _ m0] exI [of _ "[]"]) simp
  next
    case (Cons p ps')
    note ps = Cons and prems = Cons.prems
    show ?thesis
    proof (cases "nd \<le> d")
      case False
      have "\<forall>x < num_reqs B. D (batch_ids B ! x) \<longleftrightarrow> x < nd"
        by (rule decodes_all_front [OF prems(3)]) (use prems(4,8) False in fastforce)
      then show ?thesis using prems(1,2) ps False by (intro exI [of _ B] exI [of _ m0] exI [of _ "[]"]) simp
    next
      case True
      have d: "d < num_reqs B" "D (batch_ids B ! d)" and p: "p < num_reqs B" "\<not> D (batch_ids B ! p)"
        using prems(6,7) ps by auto
      obtain B1 where B1: "swap_states env B p d = Inr B1" "batch_inv B1" "holes B1 = {}" "view env B1 = view env B" "flags B1 = flags B"
        "num_reqs B1 = num_reqs B" "shape B1 = shape B" "ib_sampling_metadata B1 = ib_sampling_metadata B"
        "batch_update_builder B1 = bb_moved_append (be_builder env) (batch_update_builder B) (p, d, SWAP)"
        "\<forall>k < num_reqs B. batch_ids B1 ! k = batch_ids B ! tr p d k"
        using swap_rows [OF assms prems(1,2) p(1) d(1)] by (elim exE conjE) (rule that)
      have D1: "D (batch_ids B1 ! x) \<longleftrightarrow> (if x = p then True else if x = d then False else D (batch_ids B ! x))" if "x < num_reqs B" for x
        using B1(10) that d p by (simp add: tr_def)
      have "p < nd"
      proof (rule ccontr)
        assume "\<not> p < nd"
        have "D (batch_ids B ! x)" if "x < num_reqs B" "x < nd" for x
        proof (rule ccontr)
          assume "\<not> D (batch_ids B ! x)"
          then have "x \<in> set ps" using prems(9) that by blast
          then show False using prems(5) ps that(2) \<open>\<not> p < nd\<close> by auto
        qed
        then have "\<forall>x < num_reqs B. D (batch_ids B ! x) \<longleftrightarrow> x < nd" using prefills_all_back [OF prems(3)] by blast
        then show False using d True by auto
      qed
      then have pd: "p \<noteq> d" using True by simp
      have "{x. x < num_reqs B1 \<and> D (batch_ids B1 ! x)} = insert p ({x. x < num_reqs B \<and> D (batch_ids B ! x)} - {d})"
      proof (rule set_eqI)
        fix x show "x \<in> {x. x < num_reqs B1 \<and> D (batch_ids B1 ! x)} \<longleftrightarrow> x \<in> insert p ({x. x < num_reqs B \<and> D (batch_ids B ! x)} - {d})"
          using D1 [of x] p(1) pd unfolding B1(6) by (cases "x = p"; cases "x = d"; cases "x < num_reqs B") simp_all
      qed
      then have card: "card {x. x < num_reqs B1 \<and> D (batch_ids B1 ! x)} = nd"
        using prems(3) d p card_Suc_Diff1 [of "{x. x < num_reqs B \<and> D (batch_ids B ! x)}" d] by simp
      have lists: "sorted_wrt (>) ds" "sorted_wrt (<) ps'" "\<forall>y \<in> set ds. y < d" "\<forall>y \<in> set ps'. p < y"
        using prems(4,5) ps by auto
      have 1: "\<forall>y \<in> set ds. y < num_reqs B1 \<and> D (batch_ids B1 ! y)"
        using prems(6) D1 lists(3) unfolding B1(6) by auto
      have 2: "\<forall>y \<in> set ps'. y < num_reqs B1 \<and> \<not> D (batch_ids B1 ! y)"
        using prems(7) ps D1 lists(4) unfolding B1(6) by auto
      have 3: "\<forall>x < num_reqs B1. nd \<le> x \<longrightarrow> D (batch_ids B1 ! x) \<longrightarrow> x \<in> set ds"
        using prems(8) D1 \<open>p < nd\<close> unfolding B1(6) by (auto split: if_splits)
      have 4: "\<forall>x < num_reqs B1. x < nd \<longrightarrow> \<not> D (batch_ids B1 ! x) \<longrightarrow> x \<in> set ps'"
        using prems(9) ps D1 True unfolding B1(6) by (auto split: if_splits)
      obtain B' m ys where B': "reorder_loop env nd B1 True ds ps' = Inr (B', m)" "batch_inv B'" "holes B' = {}" "view env B' = view env B1"
        "flags B' = flags B1" "num_reqs B' = num_reqs B1" "shape B' = shape B1" "ib_sampling_metadata B' = ib_sampling_metadata B1"
        "batch_update_builder B' = foldl (bb_moved_append (be_builder env)) (batch_update_builder B1) ys"
        "\<forall>x < num_reqs B1. D (batch_ids B' ! x) \<longleftrightarrow> x < nd"
        using Cons.IH [OF B1(2,3) card lists(1,2) 1 2 3 4, of True] by (elim exE conjE) (rule that)
      then show ?thesis using B1 True ps
        by (intro exI [of _ B'] exI [of _ m] exI [of _ "(p, d, SWAP) # ys"]) simp
    qed
  qed
qed

lemma foldl_moved:
  assumes "update_builder ops" shows "bb_removed ops (foldl (bb_moved_append ops) b ys) = bb_removed ops b"
  by (induction ys arbitrary: b) (simp_all add: update_builder.moved_keeps [OF assms])

lemma decodes_in_batch:
  assumes "condensed B"
  shows "card {x. x < num_reqs B \<and> P (batch_ids B ! x)} = card {r \<in> batch_dom B. P r}"
proof (rule bij_betw_same_card)
  note at = batch_ids_nth [OF assms]
  show "bij_betw ((!) (batch_ids B)) {x. x < num_reqs B \<and> P (batch_ids B ! x)} {r \<in> batch_dom B. P r}"
    unfolding bij_betw_def
  proof (intro conjI inj_onI set_eqI iffI)
    show "x = y" if "x \<in> {x. x < num_reqs B \<and> P (batch_ids B ! x)}" "y \<in> {x. x < num_reqs B \<and> P (batch_ids B ! x)}"
      "batch_ids B ! x = batch_ids B ! y" for x y
    proof -
      have "x < num_reqs B" "y < num_reqs B" using that by blast+
      from at [OF this(1)] at [OF this(2)] that(3) have "Some x = Some y" by (simp only:)
      then show ?thesis by simp
    qed
    show "r \<in> {r \<in> batch_dom B. P r}" if "r \<in> (!) (batch_ids B) ` {x. x < num_reqs B \<and> P (batch_ids B ! x)}" for r
    proof -
      from that obtain x where "x < num_reqs B" "P (batch_ids B ! x)" "r = batch_ids B ! x" by blast
      then show ?thesis using at [of x] by (simp add: batch_dom_def domI)
    qed
    fix r assume r: "r \<in> {r \<in> batch_dom B. P r}"
    then have "r \<in> set (batch_ids B)" using in_batch_ids [OF assms] by (auto simp: batch_dom_def)
    then obtain x where "x < num_reqs B" "batch_ids B ! x = r" using condensedD(7) [OF assms] by (auto simp: in_set_conv_nth)
    then show "r \<in> (!) (batch_ids B) ` {x. x < num_reqs B \<and> P (batch_ids B ! x)}" using r by blast
  qed
qed

lemma sorted_rev_filter: "sorted_wrt (>) (rev (filter P [0..<n]))"
  by (simp add: sorted_wrt_rev sorted_wrt_filter)

lemma reorder_by_ok:
  assumes "batch_parts env" "updating env B" "holes B = {}" "batch_dom B \<subseteq> scheduled si"
  shows "\<exists>B' m ys. reorder_by env is_decode B si = Inr (B', m) \<and> updating env B' \<and> holes B' = {} \<and> view env B' = view env B \<and>
    flags B' = flags B \<and> num_reqs B' = num_reqs B \<and> shape B' = shape B \<and> ib_sampling_metadata B' = ib_sampling_metadata B \<and>
    batch_update_builder B' = foldl (bb_moved_append (be_builder env)) (batch_update_builder B) ys \<and>
    (\<forall>x < num_reqs B. is_decode_row is_decode si (batch_ids B' ! x) \<longleftrightarrow> x < card {r \<in> batch_dom B. is_decode_row is_decode si r})"
proof -
  have inv: "batch_inv B" using assms(2) by (simp add: updating_def)
  then have c: "condensed B" using assms(3) by (simp add: condensed_def)
  let ?D = "is_decode_row is_decode si" and ?n = "num_reqs B"
  let ?ds = "filter (\<lambda>i. ?D (batch_ids B ! i)) [0..<?n]" and ?ps = "filter (\<lambda>i. \<not> ?D (batch_ids B ! i)) [0..<?n]"
  have ids: "req_ids B = map Some (batch_ids B)"
    using condensedD(5) [OF c] assms(3) by (intro nth_equalityI) (auto simp: batch_ids_def holes_def)
  have known: "set (batch_ids B) \<subseteq> scheduled si"
    using assms(4) in_batch_ids [OF c] by (auto simp: batch_dom_def)
  have rows: "res_foldl (classify_row is_decode si) ([], []) (enumerate 0 (req_ids B)) = Inr (?ds, ?ps)"
    using classify_rows_ok [OF known, of is_decode] ids condensedD(7) [OF c] by simp
  have len: "length ?ds = card {x. x < ?n \<and> ?D (batch_ids B ! x)}"
    unfolding length_filter_conv_card by (rule arg_cong [where f = card]) auto
  have 1: "\<forall>d \<in> set (rev ?ds). d < ?n \<and> ?D (batch_ids B ! d)" "\<forall>p \<in> set ?ps. p < ?n \<and> \<not> ?D (batch_ids B ! p)"
    "\<forall>x < ?n. length ?ds \<le> x \<longrightarrow> ?D (batch_ids B ! x) \<longrightarrow> x \<in> set (rev ?ds)"
    "\<forall>x < ?n. x < length ?ds \<longrightarrow> \<not> ?D (batch_ids B ! x) \<longrightarrow> x \<in> set ?ps"
    by simp_all
  have lists: "sorted_wrt (>) (rev ?ds)" "sorted_wrt (<) ?ps" by (rule sorted_rev_filter) (simp add: sorted_wrt_filter)
  obtain B' m ys where B': "reorder_loop env (length ?ds) B False (rev ?ds) ?ps = Inr (B', m)" "batch_inv B'" "holes B' = {}"
    "view env B' = view env B" "flags B' = flags B" "num_reqs B' = ?n" "shape B' = shape B"
    "ib_sampling_metadata B' = ib_sampling_metadata B"
    "batch_update_builder B' = foldl (bb_moved_append (be_builder env)) (batch_update_builder B) ys"
    "\<forall>x < ?n. ?D (batch_ids B' ! x) \<longleftrightarrow> x < length ?ds"
    using reorder_loop_ok [where D = ?D, OF assms(1) inv assms(3) len [symmetric] lists 1, of False]
    by (elim exE conjE) (rule that)
  have "updating env B'"
    using assms(1-3) B'(2,3,9) by (simp add: updating_def batch_parts_def foldl_moved)
  then show ?thesis
    using B' rows len decodes_in_batch [OF c, of ?D] by (intro exI [of _ B'] exI [of _ m] exI [of _ ys]) (simp add: reorder_by_def)
qed

subsection \<open>The reordered batch of a step\<close>

definition reorder_batch ::
  "('bb, 'up, 'bt, 'lp) runner_env \<Rightarrow> ('bb, 'bt, 'lp) input_batch \<Rightarrow> step_input \<Rightarrow> (('bb, 'bt, 'lp) input_batch \<times> bool) result" where
  "reorder_batch env B si =
     (case re_attn_builder env of
        Attention_builder \<Rightarrow> attn_reorder_batch B si
      | Mla_builder \<Rightarrow> mla_reorder_batch (re_batch env) B si
      | Torchair_mla_builder graph \<Rightarrow> torchair_mla_reorder_batch graph (re_batch env) B si)"

definition reorder_runner ::
  "('bb, 'up, 'bt, 'lp) runner_env \<Rightarrow> ('bb, 'bt, 'lp, 'e) runner \<Rightarrow> step_input \<Rightarrow> ('bb, 'bt, 'lp, 'e) runner result" where
  "reorder_runner env rn si = res_bind (reorder_batch env (rn_batch rn) si) (\<lambda>(B, _). Inr (rn\<lparr>rn_batch := B\<rparr>))"

text \<open>The decode requests of the two builders that reorder.\<close>

definition mla_decode :: "attn_builder \<Rightarrow> step_input \<Rightarrow> rid \<Rightarrow> bool" where
  "mla_decode builder si r \<longleftrightarrow>
     (let n = the (map_of (si_num_scheduled_tokens si) r) in
      if builder = Torchair_mla_builder True then int n - int (length (spec_tokens_of si r)) = 1 else n = 1)"

lemma reorder_batch_by:
  assumes "re_attn_builder env \<noteq> Attention_builder"
  shows "\<exists>is_decode. reorder_batch env B si = reorder_by (re_batch env) is_decode B si \<and>
    is_decode_row is_decode si = mla_decode (re_attn_builder env) si"
  using assms
  by (cases "re_attn_builder env")
    (auto simp: reorder_batch_def mla_reorder_batch_def torchair_mla_reorder_batch_def is_decode_row_def mla_decode_def fun_eq_iff Let_def)

lemma view_eq_dom: "view be B' = view be B \<Longrightarrow> batch_dom B' = batch_dom B"
  by (intro set_eqI) (simp flip: view_dom(1) [of be])

context runner_parts
begin

lemma moved_accepts_all:
  "accepting b \<Longrightarrow> accepting (foldl (bb_moved_append (be_builder (re_batch env))) b ys)"
  by (induction ys arbitrary: b) (simp_all add: moved_accepts)

lemma reorder_runner_ok:
  assumes "synced env {} spec rn" "accepting (batch_update_builder (rn_batch rn))" "holes (rn_batch rn) = {}"
    "batch_dom (rn_batch rn) \<subseteq> scheduled si"
  shows "\<exists>B m. reorder_batch env (rn_batch rn) si = Inr (B, m) \<and> reorder_runner env rn si = Inr (rn\<lparr>rn_batch := B\<rparr>) \<and>
    synced env {} spec (rn\<lparr>rn_batch := B\<rparr>) \<and> accepting (batch_update_builder B) \<and> holes B = {} \<and>
    batch_dom B = batch_dom (rn_batch rn) \<and> num_reqs B = num_reqs (rn_batch rn) \<and> shape B = shape (rn_batch rn) \<and>
    ib_sampling_metadata B = ib_sampling_metadata (rn_batch rn) \<and>
    (re_attn_builder env \<noteq> Attention_builder \<longrightarrow> (\<forall>x < num_reqs B.
       mla_decode (re_attn_builder env) si (batch_ids B ! x) \<longleftrightarrow>
       x < card {r \<in> batch_dom B. mla_decode (re_attn_builder env) si r}))"
proof (cases "re_attn_builder env = Attention_builder")
  case True
  have "rn\<lparr>rn_batch := rn_batch rn\<rparr> = rn" by simp
  then show ?thesis using assms True
    by (intro exI [of _ "rn_batch rn"] exI [of _ False]) (simp add: reorder_runner_def reorder_batch_def attn_reorder_batch_def)
next
  case False
  let ?B = "rn_batch rn"
  obtain is_decode where d: "reorder_batch env ?B si = reorder_by (re_batch env) is_decode ?B si"
    "is_decode_row is_decode si = mla_decode (re_attn_builder env) si"
    using reorder_batch_by [OF False, of ?B si] by blast
  have u: "updating (re_batch env) ?B" using assms(1) by (simp add: synced_def)
  obtain B m ys where B: "reorder_by (re_batch env) is_decode ?B si = Inr (B, m)" "updating (re_batch env) B" "holes B = {}"
    "view (re_batch env) B = view (re_batch env) ?B" "flags B = flags ?B" "num_reqs B = num_reqs ?B" "shape B = shape ?B"
    "ib_sampling_metadata B = ib_sampling_metadata ?B"
    "batch_update_builder B = foldl (bb_moved_append (be_builder (re_batch env))) (batch_update_builder ?B) ys"
    "\<forall>x < num_reqs ?B. mla_decode (re_attn_builder env) si (batch_ids B ! x) \<longleftrightarrow>
       x < card {r \<in> batch_dom ?B. mla_decode (re_attn_builder env) si r}"
    using reorder_by_ok [OF batch_parts_axioms u assms(3,4), of is_decode] unfolding d(2) by (elim exE conjE) (rule that)
  note dom = view_eq_dom [OF B(4)]
  have "synced env {} spec (rn\<lparr>rn_batch := B\<rparr>)"
    by (rule synced_step [OF assms(1)]) (use B dom in simp_all)
  then show ?thesis
    using B d(1) dom moved_accepts_all [OF assms(2)]
    by (intro exI [of _ B] exI [of _ m]) (simp add: reorder_runner_def)
qed

end

end
