(* ===== verification/Runner_Output.thy ===== *)
theory Runner_Output
  imports Batch_Reorder
begin

section \<open>The end of a step\<close>

text \<open>
  What \<^verbatim>\<open>execute_model\<close> of \<^verbatim>\<open>vllm_ascend/worker/model_runner_v1.py\<close> does with the sampled tokens: the
  requests whose prompt is not finished lose them and rewind their generators, the other tokens are
  written into the batch and into the cached states; then the draft tokens of the next step
  (\<^verbatim>\<open>propose_draft_token_ids\<close>, \<^verbatim>\<open>_generate_ngram_token_ids\<close>, \<^verbatim>\<open>take_draft_token_ids\<close>). The sampler's matrix, the parsing
  of it when it has several columns, and the proposers' draft tokens are arguments.
\<close>

subsection \<open>Sampled tokens\<close>

definition discard_row ::
  "step_input \<Rightarrow> ('bb, 'bt, 'lp, 'e) runner \<times> nat list \<Rightarrow> nat \<times> rid option \<Rightarrow> (('bb, 'bt, 'lp, 'e) runner \<times> nat list) result" where
  "discard_row si acc ir =
     (case acc of (rn, ds) \<Rightarrow> case ir of (i, idx) \<Rightarrow> case idx of
        None \<Rightarrow> Inl KeyError
      | Some r \<Rightarrow>
          res_bind (map_item (rn_requests rn) r) (\<lambda>q.
          res_bind (dict_item (si_num_scheduled_tokens si) r) (\<lambda>n.
          let seq_len = cr_num_computed_tokens q + int n in
          if seq_len < int (cr_num_tokens (core q)) then
            Inr (case generators (rn_batch rn) i of
                   None \<Rightarrow> rn
                 | Some g \<Rightarrow> rn\<lparr>rn_offsets := (rn_offsets rn)(g := rn_offsets rn g - 4)\<rparr>,
                 ds @ [i])
          else Inr (rn, ds))))"

definition discard_requests ::
  "('bb, 'bt, 'lp, 'e) runner \<Rightarrow> step_input \<Rightarrow> (('bb, 'bt, 'lp, 'e) runner \<times> nat list) result" where
  "discard_requests rn si = res_foldl (discard_row si) (rn, []) (enumerate 0 (req_ids (rn_batch rn)))"

text \<open>\<open>sampled\<close> is the sampler's matrix with \<open>max_gen_len\<close> columns.\<close>

definition valid_sampled ::
  "(int list list \<Rightarrow> nat \<Rightarrow> int list list) \<Rightarrow> nat \<Rightarrow> int list list \<Rightarrow> nat \<Rightarrow> nat list \<Rightarrow> int list list result" where
  "valid_sampled parse_output vocab sampled max_gen_len discards =
     res_foldl (\<lambda>vs i. if i < length vs then Inr (vs[i := []]) else Inl IndexError)
       (if max_gen_len = 1 then sampled else parse_output sampled vocab) discards"

text \<open>The batch is made with the model's \<^verbatim>\<open>max_model_len\<close>.\<close>

definition cache_row ::
  "('bb, 'bt, 'lp, 'e) runner \<Rightarrow> nat \<times> int list \<Rightarrow> ('bb, 'bt, 'lp, 'e) runner result" where
  "cache_row rn is =
     (case is of (i, sampled) \<Rightarrow>
        if sampled = [] then Inr rn
        else
          let B = rn_batch rn in
          res_bind (nth_item (num_tokens_no_spec B) i) (\<lambda>start.
          let e = start + length sampled in
          res_bind (py_assert (e \<le> max_model_len B)) (\<lambda>_.
          res_bind (assign_tokens B i start e sampled) (\<lambda>B1.
          let B2 = B1\<lparr>num_tokens_no_spec := (num_tokens_no_spec B1)[i := e], ib_num_tokens := (ib_num_tokens B1)[i := e]\<rparr> in
          res_bind (nth_item (req_ids B2) i) (\<lambda>idx.
          case idx of
            None \<Rightarrow> Inl KeyError
          | Some r \<Rightarrow>
              res_bind (map_item (rn_requests rn) r) (\<lambda>q.
              Inr (set_outputs (rn\<lparr>rn_batch := B2\<rparr>) r q (cr_output_token_ids q @ sampled))))))))"

definition finish_step ::
  "('bb, 'bt, 'lp, 'e) runner \<Rightarrow> step_input \<Rightarrow> (int list list \<Rightarrow> nat \<Rightarrow> int list list) \<Rightarrow> int list list \<Rightarrow> nat \<Rightarrow>
   (('bb, 'bt, 'lp, 'e) runner \<times> int list list) result" where
  "finish_step rn si parse_output sampled max_gen_len =
     res_bind (discard_requests rn si) (\<lambda>(rn1, discards).
     res_bind (valid_sampled parse_output (vocab_size (rn_batch rn1)) sampled max_gen_len discards) (\<lambda>vs.
     res_bind (res_foldl cache_row rn1 (enumerate 0 vs)) (\<lambda>rn2. Inr (rn2, vs))))"

subsection \<open>Draft tokens\<close>

text \<open>The methods that the runner's constructor accepts.\<close>

datatype spec_method = Ngram | Eagle | Eagle3 | Deepseek_mtp

definition ngram_row ::
  "(int list \<Rightarrow> int list option) \<Rightarrow> ('bb, 'bt, 'lp) input_batch \<times> int list list \<Rightarrow> nat \<times> int list \<Rightarrow>
   (('bb, 'bt, 'lp) input_batch \<times> int list list) result" where
  "ngram_row propose acc is =
     (case acc of (B, drafts) \<Rightarrow> case is of (i, sampled) \<Rightarrow>
        if sampled = [] then Inr (B, drafts @ [[]])
        else
          res_bind (nth_item (req_ids B) i) (\<lambda>idx.
          if (case idx of None \<Rightarrow> False | Some r \<Rightarrow> r \<in> spec_decode_unsupported_reqs B) then Inr (B, drafts @ [[]])
          else
            res_bind (nth_item (num_tokens_no_spec B) i) (\<lambda>start.
            let e = start + length sampled in
            res_bind (assign_tokens B i start e sampled) (\<lambda>B1.
            Inr (B1, drafts @ [case propose (take e (token_ids_cpu B1 ! i)) of None \<Rightarrow> [] | Some ts \<Rightarrow> ts])))))"

definition generate_ngram_token_ids ::
  "(int list \<Rightarrow> int list option) \<Rightarrow> ('bb, 'bt, 'lp) input_batch \<Rightarrow> int list list \<Rightarrow>
   (('bb, 'bt, 'lp) input_batch \<times> int list list) result" where
  "generate_ngram_token_ids propose B vs = res_foldl (ngram_row propose) (B, []) (enumerate 0 vs)"

text \<open>\<open>eagle3\<close> and \<open>mtp\<close> are the draft tokens of the two proposers that run a draft model.\<close>

definition propose_draft_token_ids ::
  "spec_method option \<Rightarrow> (int list \<Rightarrow> int list option) \<Rightarrow> int list list result \<Rightarrow> int list list result \<Rightarrow>
   ('bb, 'bt, 'lp, 'e) runner \<Rightarrow> int list list \<Rightarrow> ('bb, 'bt, 'lp, 'e) runner result" where
  "propose_draft_token_ids method propose eagle3 mtp rn vs =
     (case method of
        None \<Rightarrow> Inr rn
      | Some Ngram \<Rightarrow>
          res_bind (generate_ngram_token_ids propose (rn_batch rn) vs) (\<lambda>(B, ds). Inr (rn\<lparr>rn_batch := B, rn_draft_token_ids := Some ds\<rparr>))
      | Some Eagle \<Rightarrow> Inl NotImplementedError
      | Some Eagle3 \<Rightarrow> res_bind eagle3 (\<lambda>ds. Inr (rn\<lparr>rn_draft_token_ids := Some ds\<rparr>))
      | Some Deepseek_mtp \<Rightarrow> res_bind mtp (\<lambda>ds. Inr (rn\<lparr>rn_draft_token_ids := Some ds\<rparr>)))"

definition take_draft_token_ids ::
  "('bb, 'bt, 'lp, 'e) runner \<Rightarrow> (rid option list \<times> int list list) option \<times> ('bb, 'bt, 'lp, 'e) runner" where
  "take_draft_token_ids rn =
     (case rn_draft_token_ids rn of
        None \<Rightarrow> (None, rn)
      | Some ds \<Rightarrow> (Some (req_ids (rn_batch rn), ds), rn\<lparr>rn_draft_token_ids := None\<rparr>))"

text \<open>The token that a draft model starts from: the last sampled one, or the next of the prompt.\<close>

definition next_token_id ::
  "('bb, 'bt, 'lp, 'e) runner \<Rightarrow> step_input \<Rightarrow> nat \<times> int list \<Rightarrow> int result" where
  "next_token_id rn si is =
     (case is of (i, sampled) \<Rightarrow>
        if sampled \<noteq> [] then Inr (last sampled)
        else
          res_bind (nth_item (req_ids (rn_batch rn)) i) (\<lambda>idx. case idx of
            None \<Rightarrow> Inl KeyError
          | Some r \<Rightarrow>
              res_bind (map_item (rn_requests rn) r) (\<lambda>q.
              res_bind (dict_item (si_num_scheduled_tokens si) r) (\<lambda>n.
              get_token_id (core q) (cr_num_computed_tokens q + int n)))))"

subsection \<open>Caching keeps the batch in step\<close>

text \<open>The batch with new tokens in row \<open>i\<close>.\<close>

definition extended :: "('bb, 'bt, 'lp) input_batch \<Rightarrow> nat \<Rightarrow> int list \<Rightarrow> nat \<Rightarrow> int list \<Rightarrow> ('bb, 'bt, 'lp) input_batch" where
  "extended B i row n outs =
     B\<lparr>token_ids_cpu := (token_ids_cpu B)[i := row], num_tokens_no_spec := (num_tokens_no_spec B)[i := n],
       ib_num_tokens := (ib_num_tokens B)[i := n], req_output_token_ids := (req_output_token_ids B)[i := Some outs]\<rparr>"

lemma extended_frame:
  "shape (extended B i row n outs) = shape B" "req_id_to_index (extended B i row n outs) = req_id_to_index B"
  "flags (extended B i row n outs) = flags B" "holes (extended B i row n outs) = holes B"
  "batch_update_builder (extended B i row n outs) = batch_update_builder B" "req_ids (extended B i row n outs) = req_ids B"
  by (simp_all add: extended_def shape_def flags_def fun_eq_iff holes_def)

lemma extended_inv:
  assumes "batch_inv B" "length row = max_model_len B"
  shows "batch_inv (extended B i row n outs)"
proof -
  have "flags_ok (extended B i row n outs) = flags_ok B"
    by (rule flags_ok_cong [OF extended_frame(3)]) (simp_all add: extended_def)
  moreover have "arrays_ok (extended B i row n outs)"
    using assms rows_update [of "max_num_reqs B" "token_ids_cpu B" "max_model_len B" row i]
    by (simp add: batch_inv_def arrays_ok_def extended_def)
  ultimately show ?thesis
    using assms by (simp add: batch_inv_def extended_def index_ok_def rows_ok_def active_def lora_ok_batch_def members_def masks_ok_def)
qed

lemma row_at_extended:
  assumes "arrays_ok B" "i < max_num_reqs B" "i < length (req_output_token_ids B)"
  shows "row_at be (extended B i row n outs) i =
     (row_at be B i)\<lparr>br_tokens := take n row, br_num_tokens_no_spec := n, br_output := Some outs\<rparr>"
    "j \<noteq> i \<Longrightarrow> row_at be (extended B i row n outs) j = row_at be B j"
  using assms by (simp_all add: row_at_def extended_def arrays_ok_def)

lemma np_append:
  assumes "take n row = ts @ spec" "length ts + length new \<le> length row"
  shows "\<exists>row'. np_assign row (length ts) (length ts + length new) new = Inr row' \<and> length row' = length row \<and>
    take (length ts + length new) row' = ts @ new"
proof -
  have "ts = take (length ts) (take n row)" using assms(1) by simp
  also have "\<dots> = take (length ts) row"
  proof -
    have "length ts \<le> n" using arg_cong [OF assms(1), of length] by auto
    then show ?thesis by simp
  qed
  finally have ts: "take (length ts) row = ts" ..
  have "np_assign row (length ts) (length ts + length new) new = Inr (ts @ new @ drop (length ts + length new) row)"
    using np_assign_middle [of new "length ts + length new" "length ts" row] assms(2) ts by simp
  then show ?thesis using assms(2) by (intro exI [of _ "ts @ new @ drop (length ts + length new) row"]) simp
qed

text \<open>What the arrays hold at the row of a request.\<close>

lemma row_facts:
  assumes "synced env {} spec rn" "map_of (req_id_to_index (rn_batch rn)) r = Some i" "rn_requests rn r = Some q"
  shows "take (ib_num_tokens (rn_batch rn) ! i) (token_ids_cpu (rn_batch rn) ! i) =
      (cr_prompt_token_ids q @ cr_output_token_ids q) @ spec r"
    "num_tokens_no_spec (rn_batch rn) ! i = length (cr_prompt_token_ids q @ cr_output_token_ids q)"
    "length (token_ids_cpu (rn_batch rn) ! i) = max_model_len (rn_batch rn)" "i < length (token_ids_cpu (rn_batch rn))"
    "i < length (num_tokens_no_spec (rn_batch rn))" "i < max_num_reqs (rn_batch rn)" "i < length (req_output_token_ids (rn_batch rn))"
    "i < length (req_ids (rn_batch rn))" "req_ids (rn_batch rn) ! i = Some r"
    "num_computed_tokens_cpu (rn_batch rn) ! i = cr_num_computed_tokens q"
    "bt_row (be_table (re_batch env)) (block_table (rn_batch rn)) i = cr_block_ids q"
proof -
  let ?B = "rn_batch rn" and ?be = "re_batch env"
  have inv: "arrays_ok ?B" "index_ok ?B" using assms(1) by (simp_all add: synced_def updating_def batch_inv_def)
  have "stands_for env rn r (spec r)" using assms(1,2) by (auto simp: synced_def batch_dom_def)
  then obtain sp where "view ?be ?B r = Some (row_spec ?be (vocab_size ?B) q sp (spec r))" using assms(3) by (auto simp: stands_for_def)
  then have "row_at ?be ?B i = row_spec ?be (vocab_size ?B) q sp (spec r)" using assms(2) by (simp add: view_def)
  then show "take (ib_num_tokens ?B ! i) (token_ids_cpu ?B ! i) = (cr_prompt_token_ids q @ cr_output_token_ids q) @ spec r"
    "num_tokens_no_spec ?B ! i = length (cr_prompt_token_ids q @ cr_output_token_ids q)"
    "num_computed_tokens_cpu ?B ! i = cr_num_computed_tokens q" "bt_row (be_table ?be) (block_table ?B) i = cr_block_ids q"
    by (auto simp: row_at_def row_spec_def request_row_def cr_num_tokens_def cr_num_prompt_tokens_def cached_request.defs)
  show i: "i < length (req_ids ?B)" "req_ids ?B ! i = Some r" using index_lookup [OF inv(2)] assms(2) by simp_all
  then show iN: "i < max_num_reqs ?B" "i < length (req_output_token_ids ?B)" using inv(2) by (simp_all add: index_ok_def)
  then show "length (token_ids_cpu ?B ! i) = max_model_len ?B" "i < length (token_ids_cpu ?B)" "i < length (num_tokens_no_spec ?B)"
    using inv(1) by (simp_all add: arrays_ok_def)
qed

lemma cache_row_ok:
  assumes "synced env {} spec rn" "map_of (req_id_to_index (rn_batch rn)) r = Some i" "rn_requests rn r = Some q" "new \<noteq> []"
    "length (cr_prompt_token_ids q) + length (cr_output_token_ids q) + length new \<le> max_model_len (rn_batch rn)"
  shows "\<exists>row n. cache_row rn (i, new) =
      Inr (rn\<lparr>rn_requests := (rn_requests rn)(r \<mapsto> q\<lparr>cr_output_token_ids := cr_output_token_ids q @ new\<rparr>),
              rn_batch := extended (rn_batch rn) i row n (cr_output_token_ids q @ new)\<rparr>) \<and>
    synced env {} (spec(r := []))
      (rn\<lparr>rn_requests := (rn_requests rn)(r \<mapsto> q\<lparr>cr_output_token_ids := cr_output_token_ids q @ new\<rparr>),
          rn_batch := extended (rn_batch rn) i row n (cr_output_token_ids q @ new)\<rparr>)"
proof -
  let ?B = "rn_batch rn" and ?be = "re_batch env" and ?ts = "cr_prompt_token_ids q @ cr_output_token_ids q"
  let ?outs = "cr_output_token_ids q @ new"
  let ?q = "q\<lparr>cr_output_token_ids := ?outs\<rparr>"
  have u: "updating ?be ?B" and ok: "req_ok ?B r q" and st: "stands_for env rn r (spec r)"
    using assms(1-3) by (auto simp: synced_def batch_dom_def)
  have inv: "batch_inv ?B" "arrays_ok ?B" "index_ok ?B" using u by (simp_all add: updating_def batch_inv_def)
  obtain sp where sp: "cr_sampling_params q = Some sp" "view ?be ?B r = Some (row_spec ?be (vocab_size ?B) q sp (spec r))"
    "flags ?B r = request_flags ?be ?B sp" using st assms(3) by (auto simp: stands_for_def)
  note at = row_facts [OF assms(1-3)]
  have i: "i < length (req_ids ?B)" "req_ids ?B ! i = Some r" by (rule at)+
  have iN: "i < max_num_reqs ?B" "i < length (req_output_token_ids ?B)" by (rule at)+
  have row: "row_at ?be ?B i = row_spec ?be (vocab_size ?B) q sp (spec r)" using assms(2) sp(2) by (simp add: view_def)
  have toks: "take (ib_num_tokens ?B ! i) (token_ids_cpu ?B ! i) = ?ts @ spec r"
    and nospec: "num_tokens_no_spec ?B ! i = length ?ts" by (rule at)+
  have len: "length (token_ids_cpu ?B ! i) = max_model_len ?B" "i < length (token_ids_cpu ?B)" "i < length (num_tokens_no_spec ?B)"
    by (rule at)+
  have fits: "length ?ts + length new \<le> length (token_ids_cpu ?B ! i)" using assms(5) len(1) by simp
  obtain row' where row': "np_assign (token_ids_cpu ?B ! i) (length ?ts) (length ?ts + length new) new = Inr row'"
    "length row' = max_model_len ?B" "take (length ?ts + length new) row' = ?ts @ new"
    using np_append [OF toks fits] len(1) by auto
  let ?n = "length ?ts + length new"
  let ?B' = "extended ?B i row' ?n ?outs"
  let ?rn' = "rn\<lparr>rn_requests := (rn_requests rn)(r \<mapsto> ?q), rn_batch := ?B'\<rparr>"
  have "cache_row rn (i, new) = Inr ?rn'"
    using assms(2-5) nospec len(2,3) row'(1) i
    by (simp add: cache_row_def Let_def nth_item_def assign_tokens_def map_item_def set_outputs_def extended_def py_assert_def)
  moreover have "synced env {} (spec(r := [])) ?rn'"
  proof (rule synced_step [OF assms(1)])
    show "updating ?be (rn_batch ?rn')"
      using u extended_inv [OF inv(1) row'(2), of i ?n ?outs] by (simp add: updating_def extended_frame)
    show "shape (rn_batch ?rn') = shape ?B" by (simp add: extended_frame)
    show "req_ok ?B r' q'" if "rn_requests ?rn' r' = Some q'" "rn_requests rn r' \<noteq> Some q'" for r' q'
      using that ok assms(5) by (auto simp: req_ok_def split: if_splits)
    have "row_at ?be ?B' i = row_spec ?be (vocab_size ?B) ?q sp []"
      unfolding row_at_extended(1) [OF inv(2) iN] row row'(3)
      by (simp add: row_spec_def request_row_def cr_num_tokens_def cr_num_prompt_tokens_def cached_request.defs)
    then have "view ?be ?B' r = Some (row_spec ?be (vocab_size ?B') ?q sp [])"
      using assms(2) extended_frame(1) [of ?B i row' ?n ?outs, unfolded shape_eq] by (simp add: view_def extended_frame)
    moreover have "flags ?B' r = request_flags ?be ?B' sp"
      using sp(3) request_flags_shape [OF extended_frame(1) [of ?B i row' ?n ?outs], of ?be sp] by (simp add: extended_frame)
    ultimately have new: "stands_for env ?rn' r []"
      unfolding stands_for_def using sp(1) by (intro exI [of _ ?q] exI [of _ sp]) simp
    show "(r' \<in> batch_dom ?B \<and> r' \<notin> {} \<and> rn_requests ?rn' r' = rn_requests rn r' \<and> view ?be (rn_batch ?rn') r' = view ?be ?B r' \<and>
        flags (rn_batch ?rn') r' = flags ?B r' \<and> (spec(r := [])) r' = spec r') \<or> stands_for env ?rn' r' ((spec(r := [])) r')"
      if "r' \<in> batch_dom (rn_batch ?rn')" for r'
    proof (cases "r' = r")
      case False
      then have "j \<noteq> i" if "map_of (req_id_to_index ?B) r' = Some j" for j
        using that index_lookup [OF inv(3), of r' j] i by auto
      then have "view ?be ?B' r' = view ?be ?B r'"
        by (cases "map_of (req_id_to_index ?B) r'") (simp_all add: view_def extended_frame row_at_extended(2) [OF inv(2) iN])
      then show ?thesis using that False by (simp add: batch_dom_def extended_frame)
    qed (use new in simp)
  qed
  ultimately show ?thesis by blast
qed

subsection \<open>All rows\<close>

text \<open>The tokens of a list with one entry per row that belong to a request, and the cached states with them.\<close>

definition tokens_for :: "('bb, 'bt, 'lp) input_batch \<Rightarrow> int list list \<Rightarrow> rid \<Rightarrow> int list" where
  "tokens_for B vs r =
     (case map_of (req_id_to_index B) r of None \<Rightarrow> [] | Some i \<Rightarrow> if i < length vs then vs ! i else [])"

definition with_outputs :: "(rid \<rightharpoonup> runner_request) \<Rightarrow> (rid \<Rightarrow> int list) \<Rightarrow> rid \<rightharpoonup> runner_request" where
  "with_outputs qs new r = map_option (\<lambda>q. q\<lparr>cr_output_token_ids := cr_output_token_ids q @ new r\<rparr>) (qs r)"

lemma tokens_for_snoc:
  assumes "index_ok B" "map_of (req_id_to_index B) r = Some (length vs)"
  shows "tokens_for B (vs @ [v]) = (tokens_for B vs)(r := v)" "tokens_for B vs r = []"
proof -
  show "tokens_for B vs r = []" using assms(2) by (simp add: tokens_for_def)
  have "tokens_for B (vs @ [v]) r' = tokens_for B vs r'" if "r' \<noteq> r" for r'
  proof -
    have "map_of (req_id_to_index B) r' \<noteq> Some (length vs)"
      using that assms index_lookup [OF assms(1), of r' "length vs"] index_lookup [OF assms(1), of r "length vs"] by auto
    then show ?thesis by (auto simp: tokens_for_def nth_append split: option.split)
  qed
  then show "tokens_for B (vs @ [v]) = (tokens_for B vs)(r := v)"
    using assms(2) by (auto simp: fun_eq_iff tokens_for_def)
qed

text \<open>The parts of the batch that caching leaves alone.\<close>

definition same_places :: "('bb, 'bt, 'lp) input_batch \<Rightarrow> ('bb, 'bt, 'lp) input_batch \<Rightarrow> bool" where
  "same_places B B' \<longleftrightarrow>
     shape B' = shape B \<and> req_id_to_index B' = req_id_to_index B \<and> req_ids B' = req_ids B \<and> flags B' = flags B \<and>
     batch_update_builder B' = batch_update_builder B \<and> spec_decode_unsupported_reqs B' = spec_decode_unsupported_reqs B"

lemma same_places_extended: "same_places B B' \<Longrightarrow> same_places B (extended B' i row n outs)"
  by (simp add: same_places_def extended_frame) (simp add: extended_def)

lemma same_places_dom: "same_places B B' \<Longrightarrow> batch_dom B' = batch_dom B \<and> holes B' = holes B \<and> tokens_for B' = tokens_for B"
  by (simp add: same_places_def batch_dom_def holes_def tokens_for_def fun_eq_iff)

lemma with_outputs_snoc:
  "rn_requests rn r = Some q \<Longrightarrow> new r = [] \<Longrightarrow>
   (with_outputs (rn_requests rn) new)(r \<mapsto> q\<lparr>cr_output_token_ids := cr_output_token_ids q @ v\<rparr>) =
   with_outputs (rn_requests rn) (new(r := v))"
  by (simp add: with_outputs_def fun_eq_iff)

lemma cache_rows_ok:
  "synced env {} spec rn \<Longrightarrow>
   \<forall>i < length vs. \<exists>r q. map_of (req_id_to_index (rn_batch rn)) r = Some i \<and> rn_requests rn r = Some q \<and>
     length (cr_prompt_token_ids q) + length (cr_output_token_ids q) + length (vs ! i) \<le> max_model_len (rn_batch rn) \<Longrightarrow>
   \<exists>rn'. res_foldl cache_row rn (enumerate 0 vs) = Inr rn' \<and> same_places (rn_batch rn) (rn_batch rn') \<and>
     rn_requests rn' = with_outputs (rn_requests rn) (tokens_for (rn_batch rn) vs) \<and>
     synced env {} (\<lambda>r. if tokens_for (rn_batch rn) vs r \<noteq> [] then [] else spec r) rn'"
proof (induction vs rule: rev_induct)
  case Nil
  have "tokens_for (rn_batch rn) [] = (\<lambda>_. [])" by (simp add: tokens_for_def fun_eq_iff split: option.split)
  moreover have "with_outputs (rn_requests rn) (\<lambda>_. []) = rn_requests rn"
    by (simp add: with_outputs_def fun_eq_iff option.map_ident_strong)
  ultimately show ?case using Nil(1) by (simp add: same_places_def)
next
  case (snoc v vs)
  let ?B = "rn_batch rn" and ?new = "tokens_for (rn_batch rn) vs"
  have pre: "\<forall>i < length vs. \<exists>r q. map_of (req_id_to_index ?B) r = Some i \<and> rn_requests rn r = Some q \<and>
     length (cr_prompt_token_ids q) + length (cr_output_token_ids q) + length (vs ! i) \<le> max_model_len ?B"
  proof (intro allI impI)
    fix i assume "i < length vs"
    then show "\<exists>r q. map_of (req_id_to_index ?B) r = Some i \<and> rn_requests rn r = Some q \<and>
       length (cr_prompt_token_ids q) + length (cr_output_token_ids q) + length (vs ! i) \<le> max_model_len ?B"
      using snoc.prems(2) [rule_format, of i] by (simp add: nth_append)
  qed
  obtain rn1 where 1: "res_foldl cache_row rn (enumerate 0 vs) = Inr rn1" "same_places ?B (rn_batch rn1)"
    "rn_requests rn1 = with_outputs (rn_requests rn) ?new" "synced env {} (\<lambda>r. if ?new r \<noteq> [] then [] else spec r) rn1"
    using snoc.IH [OF snoc.prems(1) pre] by (elim exE conjE) (rule that)
  obtain r q where r: "map_of (req_id_to_index ?B) r = Some (length vs)" "rn_requests rn r = Some q"
    "length (cr_prompt_token_ids q) + length (cr_output_token_ids q) + length v \<le> max_model_len ?B"
    using snoc.prems(2) [rule_format, of "length vs"] by auto
  have ix: "index_ok ?B" using snoc.prems(1) by (simp add: synced_def updating_def batch_inv_def)
  note new = tokens_for_snoc(1) [OF ix r(1), of v] tokens_for_snoc(2) [OF ix r(1)]
  have eq: "res_foldl cache_row rn (enumerate 0 (vs @ [v])) = cache_row rn1 (length vs, v)"
    using 1(1) by (simp add: enumerate_append_eq res_foldl_append res_bind_def split: sum.split)
  have r1: "map_of (req_id_to_index (rn_batch rn1)) r = Some (length vs)" using r(1) 1(2) by (simp add: same_places_def)
  have q1: "rn_requests rn1 r = Some q" using r(2) new(2) 1(3) by (simp add: with_outputs_def)
  show ?case
  proof (cases "v = []")
    case True
    then have "tokens_for ?B (vs @ [v]) = ?new" using new by auto
    moreover have "cache_row rn1 (length vs, v) = Inr rn1" using True by (simp add: cache_row_def)
    ultimately show ?thesis using eq 1(2-4) by simp
  next
    case False
    have fits: "length (cr_prompt_token_ids q) + length (cr_output_token_ids q) + length v \<le> max_model_len (rn_batch rn1)"
      using r(3) 1(2) by (simp add: same_places_def shape_eq)
    obtain rn2 row n where 2: "cache_row rn1 (length vs, v) = Inr rn2"
      "synced env {} ((\<lambda>r. if ?new r \<noteq> [] then [] else spec r)(r := [])) rn2"
      "rn_batch rn2 = extended (rn_batch rn1) (length vs) row n (cr_output_token_ids q @ v)"
      "rn_requests rn2 = (rn_requests rn1)(r \<mapsto> q\<lparr>cr_output_token_ids := cr_output_token_ids q @ v\<rparr>)"
      using cache_row_ok [OF 1(4) r1 q1 False fits] by auto
    have "same_places ?B (rn_batch rn2)" unfolding 2(3) by (rule same_places_extended [OF 1(2)])
    moreover have "rn_requests rn2 = with_outputs (rn_requests rn) (tokens_for ?B (vs @ [v]))"
      unfolding 2(4) 1(3) new(1) by (rule with_outputs_snoc [where new = ?new, OF r(2) new(2)])
    moreover have "(\<lambda>r. if ?new r \<noteq> [] then [] else spec r)(r := []) = (\<lambda>r. if tokens_for ?B (vs @ [v]) r \<noteq> [] then [] else spec r)"
      unfolding new(1) using False by (auto simp: fun_eq_iff)
    ultimately show ?thesis using eq 2(1,2) by auto
  qed
qed

subsection \<open>Discarded tokens\<close>

text \<open>A request whose prompt is not finished after this step.\<close>

definition partial_prefill :: "('bb, 'bt, 'lp, 'e) runner \<Rightarrow> step_input \<Rightarrow> rid \<Rightarrow> bool" where
  "partial_prefill rn si r =
     (case (rn_requests rn r, map_of (si_num_scheduled_tokens si) r) of
        (Some q, Some n) \<Rightarrow> cr_num_computed_tokens q + int n < int (cr_num_tokens (core q))
      | _ \<Rightarrow> False)"

definition partial_rows :: "('bb, 'bt, 'lp, 'e) runner \<Rightarrow> step_input \<Rightarrow> rid option list \<Rightarrow> nat list" where
  "partial_rows rn si ids = filter (\<lambda>i. case ids ! i of None \<Rightarrow> False | Some r \<Rightarrow> partial_prefill rn si r) [0..<length ids]"

lemma discard_rows_ok:
  "\<forall>idx \<in> set ids. \<exists>r. idx = Some r \<and> rn_requests rn r \<noteq> None \<and> r \<in> scheduled si \<Longrightarrow>
   \<exists>offs. res_foldl (discard_row si) (rn, []) (enumerate 0 ids) = Inr (rn\<lparr>rn_offsets := offs\<rparr>, partial_rows rn si ids)"
proof (induction ids rule: rev_induct)
  case Nil
  show ?case by (rule exI [of _ "rn_offsets rn"]) (simp add: partial_rows_def)
next
  case (snoc idx ids)
  obtain offs where 1: "res_foldl (discard_row si) (rn, []) (enumerate 0 ids) = Inr (rn\<lparr>rn_offsets := offs\<rparr>, partial_rows rn si ids)"
    using snoc by auto
  obtain r q where r: "idx = Some r" "rn_requests rn r = Some q" "r \<in> scheduled si" using snoc.prems by auto
  then obtain n where n: "map_of (si_num_scheduled_tokens si) r = Some n"
    by (metis dom_map_of_conv_image_fst domD)
  have rows: "partial_rows rn si (ids @ [idx]) = partial_rows rn si ids @ (if partial_prefill rn si r then [length ids] else [])"
    using r(1) by (auto simp: partial_rows_def nth_append intro!: filter_cong)
  have eq: "res_foldl (discard_row si) (rn, []) (enumerate 0 (ids @ [idx])) =
      discard_row si (rn\<lparr>rn_offsets := offs\<rparr>, partial_rows rn si ids) (length ids, idx)"
    using 1 by (simp add: enumerate_append_eq res_foldl_append res_bind_def split: sum.split)
  have "\<exists>offs'. discard_row si (rn\<lparr>rn_offsets := offs\<rparr>, partial_rows rn si ids) (length ids, idx) =
      Inr (rn\<lparr>rn_offsets := offs'\<rparr>, partial_rows rn si (ids @ [idx]))"
    unfolding rows using r n
    by (cases "generators (rn_batch rn) (length ids)")
      (auto simp: discard_row_def map_item_def Let_def partial_prefill_def)
  then show ?case unfolding eq .
qed

lemma valid_sampled_ok:
  assumes "\<forall>i \<in> set ds. i < length vs"
  shows "res_foldl (\<lambda>vs i. if i < length vs then Inr (vs[i := []]) else Inl IndexError) vs ds =
    Inr (map (\<lambda>i. if i \<in> set ds then [] else vs ! i) [0..<length vs])"
  using assms
proof (induction ds arbitrary: vs)
  case Nil
  then show ?case by (simp add: map_nth)
next
  case (Cons d ds)
  have "map (\<lambda>i. if i \<in> set ds then [] else vs[d := []] ! i) [0..<length vs] = map (\<lambda>i. if i \<in> set (d # ds) then [] else vs ! i) [0..<length vs]"
    using Cons.prems by (auto simp: nth_list_update)
  then show ?case using Cons by simp
qed

subsection \<open>The end of a step\<close>

text \<open>The tokens that a request keeps of what was sampled for it.\<close>

definition kept_tokens ::
  "('bb, 'bt, 'lp, 'e) runner \<Rightarrow> step_input \<Rightarrow> int list list \<Rightarrow> rid \<Rightarrow> int list" where
  "kept_tokens rn si base r = (if partial_prefill rn si r then [] else tokens_for (rn_batch rn) base r)"

text \<open>One entry per row; a request whose prompt is finished gets tokens that fit, the others have no draft tokens.\<close>

definition sampled_ok ::
  "(rid \<Rightarrow> int list) \<Rightarrow> ('bb, 'bt, 'lp, 'e) runner \<Rightarrow> step_input \<Rightarrow> int list list \<Rightarrow> bool" where
  "sampled_ok spec rn si base \<longleftrightarrow>
     length base = num_reqs (rn_batch rn) \<and>
     (\<forall>r \<in> batch_dom (rn_batch rn). \<forall>q. rn_requests rn r = Some q \<longrightarrow>
        (if partial_prefill rn si r then spec r = []
         else tokens_for (rn_batch rn) base r \<noteq> [] \<and>
           length (cr_prompt_token_ids q) + length (cr_output_token_ids q) + length (tokens_for (rn_batch rn) base r)
             \<le> max_model_len (rn_batch rn)))"

lemma batch_row_known:
  assumes "synced env {} spec rn" "holes (rn_batch rn) = {}" "i < num_reqs (rn_batch rn)"
  shows "\<exists>r q. req_ids (rn_batch rn) ! i = Some r \<and> map_of (req_id_to_index (rn_batch rn)) r = Some i \<and>
    r \<in> batch_dom (rn_batch rn) \<and> rn_requests rn r = Some q \<and> req_ok (rn_batch rn) r q"
proof -
  let ?B = "rn_batch rn"
  have inv: "batch_inv ?B" "index_ok ?B" using assms(1) by (simp_all add: synced_def updating_def batch_inv_def)
  have c: "condensed ?B" using inv(1) assms(2) by (simp add: condensed_def)
  have "i < length (req_ids ?B)" using assms(3) condensedD(5) [OF c] by simp
  moreover from this obtain r where r: "req_ids ?B ! i = Some r" using assms(2) by (auto simp: holes_def)
  ultimately have m: "map_of (req_id_to_index ?B) r = Some i" using index_lookup [OF inv(2)] by simp
  then have d: "r \<in> batch_dom ?B" by (auto simp: batch_dom_def)
  then obtain q where "rn_requests rn r = Some q" using assms(1) by (auto simp: synced_def stands_for_def)
  moreover from this have "req_ok ?B r q" using assms(1) by (auto simp: synced_def)
  ultimately show ?thesis using r m d by blast
qed

lemma finish_step_ok:
  assumes "synced env {} spec rn" "holes (rn_batch rn) = {}" "batch_dom (rn_batch rn) = scheduled si"
    "base = (if w = 1 then sampled else parse sampled (vocab_size (rn_batch rn)))" "sampled_ok spec rn si base"
  shows "\<exists>rn' vs. finish_step rn si parse sampled w = Inr (rn', vs) \<and> synced env {} (\<lambda>_. []) rn' \<and>
    same_places (rn_batch rn) (rn_batch rn') \<and> rn_requests rn' = with_outputs (rn_requests rn) (kept_tokens rn si base) \<and>
    length vs = num_reqs (rn_batch rn) \<and> tokens_for (rn_batch rn) vs = kept_tokens rn si base"
proof -
  let ?B = "rn_batch rn" and ?ds = "partial_rows rn si (req_ids (rn_batch rn))"
  have inv: "batch_inv ?B" "index_ok ?B" using assms(1) by (simp_all add: synced_def updating_def batch_inv_def)
  have c: "condensed ?B" using inv(1) assms(2) by (simp add: condensed_def)
  have len: "length (req_ids ?B) = num_reqs ?B" "length base = num_reqs ?B"
    using condensedD(5) [OF c] assms(5) by (simp_all add: sampled_ok_def)
  note known = batch_row_known [OF assms(1,2)]
  have "\<forall>x \<in> set (req_ids ?B). \<exists>r. x = Some r \<and> rn_requests rn r \<noteq> None \<and> r \<in> scheduled si"
  proof
    fix x assume "x \<in> set (req_ids ?B)"
    then obtain i where "i < num_reqs ?B" "req_ids ?B ! i = x" using len(1) by (auto simp: in_set_conv_nth)
    then show "\<exists>r. x = Some r \<and> rn_requests rn r \<noteq> None \<and> r \<in> scheduled si"
      using known [of i] unfolding assms(3) by auto
  qed
  then obtain offs where 1: "discard_requests rn si = Inr (rn\<lparr>rn_offsets := offs\<rparr>, ?ds)"
    unfolding discard_requests_def using discard_rows_ok by blast
  let ?rn1 = "rn\<lparr>rn_offsets := offs\<rparr>" and ?vs = "map (\<lambda>i. if i \<in> set ?ds then [] else base ! i) [0..<length base]"
  have ds: "\<forall>i \<in> set ?ds. i < length base" using len by (auto simp: partial_rows_def)
  have 2: "valid_sampled parse (vocab_size ?B) sampled w ?ds = Inr ?vs"
    unfolding valid_sampled_def assms(4) [symmetric] by (rule valid_sampled_ok [OF ds])
  have vs: "tokens_for ?B ?vs r = kept_tokens rn si base r" for r
  proof (cases "map_of (req_id_to_index ?B) r")
    case (Some i)
    then have i: "i < length (req_ids ?B)" "req_ids ?B ! i = Some r" using index_lookup [OF inv(2)] by simp_all
    then have "i \<in> set ?ds \<longleftrightarrow> partial_prefill rn si r" by (simp add: partial_rows_def)
    then show ?thesis using Some i(1) len by (simp add: kept_tokens_def tokens_for_def)
  qed (simp add: kept_tokens_def tokens_for_def)
  have s1: "synced env {} spec ?rn1" using assms(1) synced_frame [of ?rn1 rn env "{}" spec] by simp
  have rows: "\<forall>i < length ?vs. \<exists>r q. map_of (req_id_to_index (rn_batch ?rn1)) r = Some i \<and> rn_requests ?rn1 r = Some q \<and>
     length (cr_prompt_token_ids q) + length (cr_output_token_ids q) + length (?vs ! i) \<le> max_model_len (rn_batch ?rn1)"
  proof (intro allI impI)
    fix i assume i: "i < length ?vs"
    then obtain r q where r: "map_of (req_id_to_index ?B) r = Some i" "r \<in> batch_dom ?B" "rn_requests rn r = Some q" "req_ok ?B r q"
      using known [of i] len(2) by auto
    have v: "?vs ! i = kept_tokens rn si base r" using vs [of r] r(1) i by (simp add: tokens_for_def)
    have "length (cr_prompt_token_ids q) + length (cr_output_token_ids q) + length (?vs ! i) \<le> max_model_len ?B"
      unfolding v using assms(5) r(2-4) by (auto simp: sampled_ok_def kept_tokens_def req_ok_def)
    then show "\<exists>r q. map_of (req_id_to_index (rn_batch ?rn1)) r = Some i \<and> rn_requests ?rn1 r = Some q \<and>
     length (cr_prompt_token_ids q) + length (cr_output_token_ids q) + length (?vs ! i) \<le> max_model_len (rn_batch ?rn1)"
      using r(1,3) by (intro exI [of _ r] exI [of _ q]) simp
  qed
  obtain rn2 where 3: "res_foldl cache_row ?rn1 (enumerate 0 ?vs) = Inr rn2" "same_places ?B (rn_batch rn2)"
    "rn_requests rn2 = with_outputs (rn_requests rn) (tokens_for ?B ?vs)"
    "synced env {} (\<lambda>r. if tokens_for ?B ?vs r \<noteq> [] then [] else spec r) rn2"
    using cache_rows_ok [OF s1 rows] by auto
  have "synced env {} (\<lambda>_. []) rn2"
  proof (rule synced_step [OF 3(4)])
    show "updating (re_batch env) (rn_batch rn2)" using 3(4) by (simp add: synced_def)
    fix r assume r: "r \<in> batch_dom (rn_batch rn2)"
    then have d: "r \<in> batch_dom ?B" using same_places_dom [OF 3(2)] by simp
    then obtain q where "rn_requests rn r = Some q" using assms(1) by (auto simp: synced_def stands_for_def)
    then have "(if tokens_for ?B ?vs r \<noteq> [] then [] else spec r) = []"
      unfolding vs using assms(5) d by (auto simp: sampled_ok_def kept_tokens_def)
    then show "(r \<in> batch_dom (rn_batch rn2) \<and> r \<notin> {} \<and> rn_requests rn2 r = rn_requests rn2 r \<and>
        view (re_batch env) (rn_batch rn2) r = view (re_batch env) (rn_batch rn2) r \<and> flags (rn_batch rn2) r = flags (rn_batch rn2) r \<and>
        [] = (if tokens_for ?B ?vs r \<noteq> [] then [] else spec r)) \<or> stands_for env rn2 r []"
      using r by simp
  qed simp_all
  moreover have "finish_step rn si parse sampled w = Inr (rn2, ?vs)"
    using 1 2 3(1) by (simp add: finish_step_def)
  moreover have "tokens_for ?B ?vs = kept_tokens rn si base" using vs by blast
  ultimately show ?thesis using 3(2,3) len(2) by (intro exI [of _ rn2] exI [of _ ?vs]) simp
qed

subsection \<open>A step and a run\<close>

text \<open>Between steps: the rows stand for the cached states, without draft tokens, and the builder takes removals.\<close>

definition ready ::
  "('bb, 'up, 'bt, 'lp) runner_env \<Rightarrow> ('bb \<Rightarrow> bool) \<Rightarrow> ('bb, 'bt, 'lp, 'e) runner \<Rightarrow> bool" where
  "ready env accepting rn \<longleftrightarrow> synced env {} (\<lambda>_. []) rn \<and> accepting (batch_update_builder (rn_batch rn))"

text \<open>The input of a step: what the scheduler sent and what the sampler returned.\<close>

record step_event =
  ev_input :: step_input
  ev_sampled :: "int list list"
  ev_max_gen_len :: nat

text \<open>The state in which the model runs: \<^verbatim>\<open>_update_states\<close>, then the rows are reordered.\<close>

definition start_step ::
  "('bb, 'up, 'bt, 'lp) runner_env \<Rightarrow> ('bb, 'bt, 'lp, 'e) runner \<Rightarrow> step_input \<Rightarrow> ('bb, 'bt, 'lp, 'e) runner result option" where
  "start_step env rn si = map_option (\<lambda>res. res_bind res (\<lambda>rn1. reorder_runner env rn1 si)) (update_states env rn si)"

definition runner_step ::
  "('bb, 'up, 'bt, 'lp) runner_env \<Rightarrow> (int list list \<Rightarrow> nat \<Rightarrow> int list list) \<Rightarrow> ('bb, 'bt, 'lp, 'e) runner \<Rightarrow> step_event \<Rightarrow>
   (('bb, 'bt, 'lp, 'e) runner \<times> int list list) result option" where
  "runner_step env parse_output rn ev =
     map_option (\<lambda>res. res_bind res (\<lambda>rn1. finish_step rn1 (ev_input ev) parse_output (ev_sampled ev) (ev_max_gen_len ev)))
       (start_step env rn (ev_input ev))"

text \<open>The matrix fits the batch of the step.\<close>

definition samples_ok ::
  "('bb, 'up, 'bt, 'lp) runner_env \<Rightarrow> (int list list \<Rightarrow> nat \<Rightarrow> int list list) \<Rightarrow> ('bb, 'bt, 'lp, 'e) runner \<Rightarrow> step_event \<Rightarrow> bool" where
  "samples_ok env parse_output rn ev \<longleftrightarrow>
     (case start_step env rn (ev_input ev) of
        Some (Inr rn1) \<Rightarrow>
          sampled_ok (step_spec rn (ev_input ev)) rn1 (ev_input ev)
            (if ev_max_gen_len ev = 1 then ev_sampled ev else parse_output (ev_sampled ev) (vocab_size (rn_batch rn1)))
      | _ \<Rightarrow> True)"

inductive runner_trans ::
  "('bb, 'up, 'bt, 'lp) runner_env \<Rightarrow> (int list list \<Rightarrow> nat \<Rightarrow> int list list) \<Rightarrow>
   ('bb, 'bt, 'lp, 'e) runner \<Rightarrow> step_event \<Rightarrow> ('bb, 'bt, 'lp, 'e) runner \<Rightarrow> bool"
  for env :: "('bb, 'up, 'bt, 'lp) runner_env" and parse_output :: "int list list \<Rightarrow> nat \<Rightarrow> int list list" where
  trans_step: "step_ok env rn (ev_input ev) \<Longrightarrow> samples_ok env parse_output rn ev \<Longrightarrow>
    runner_step env parse_output rn ev = Some (Inr (rn', vs)) \<Longrightarrow> runner_trans env parse_output rn ev rn'"

inductive_cases runner_transE: "runner_trans env parse_output rn ev rn'"

context runner_parts
begin

lemma start_step_ok:
  assumes "ready env accepting rn" "re_is_last_rank env" "step_ok env rn si"
  shows "\<exists>rn1. start_step env rn si = Some (Inr rn1) \<and> synced env {} (step_spec rn si) rn1 \<and>
    accepting (batch_update_builder (rn_batch rn1)) \<and> holes (rn_batch rn1) = {} \<and> batch_dom (rn_batch rn1) = scheduled si \<and>
    next_states env rn si (rn_requests rn1)"
proof -
  have r: "synced env {} (\<lambda>_. []) rn" "accepting (batch_update_builder (rn_batch rn))" using assms(1) by (simp_all add: ready_def)
  obtain rn1 where 1: "update_states env rn si = Some (Inr rn1)" "synced env {} (step_spec rn si) rn1"
    "accepting (batch_update_builder (rn_batch rn1))" "holes (rn_batch rn1) = {}" "batch_dom (rn_batch rn1) = scheduled si"
    "next_states env rn si (rn_requests rn1)"
    using update_states_ok [OF r assms(2,3)] by (elim exE conjE) (rule that)
  obtain B where 2: "reorder_runner env rn1 si = Inr (rn1\<lparr>rn_batch := B\<rparr>)" "synced env {} (step_spec rn si) (rn1\<lparr>rn_batch := B\<rparr>)"
    "accepting (batch_update_builder B)" "holes B = {}" "batch_dom B = batch_dom (rn_batch rn1)"
    using reorder_runner_ok [OF 1(2-4) eq_refl [OF 1(5)]] by (elim exE conjE) (rule that)
  have "start_step env rn si = Some (Inr (rn1\<lparr>rn_batch := B\<rparr>))" using 1(1) 2(1) by (simp add: start_step_def)
  then show ?thesis using 1(5,6) 2 by (intro exI [of _ "rn1\<lparr>rn_batch := B\<rparr>"]) simp
qed

lemma runner_step_ok:
  assumes "ready env accepting rn" "re_is_last_rank env" "step_ok env rn (ev_input ev)" "samples_ok env parse rn ev"
  shows "\<exists>rn1 rn' vs. start_step env rn (ev_input ev) = Some (Inr rn1) \<and>
    runner_step env parse rn ev = Some (Inr (rn', vs)) \<and> ready env accepting rn' \<and>
    batch_dom (rn_batch rn') = scheduled (ev_input ev) \<and> holes (rn_batch rn') = {} \<and>
    next_states env rn (ev_input ev) (rn_requests rn1) \<and>
    rn_requests rn' = with_outputs (rn_requests rn1) (tokens_for (rn_batch rn') vs) \<and> length vs = num_reqs (rn_batch rn')"
proof -
  let ?si = "ev_input ev"
  obtain rn1 where 1: "start_step env rn ?si = Some (Inr rn1)" "synced env {} (step_spec rn ?si) rn1"
    "accepting (batch_update_builder (rn_batch rn1))" "holes (rn_batch rn1) = {}" "batch_dom (rn_batch rn1) = scheduled ?si"
    "next_states env rn ?si (rn_requests rn1)"
    using start_step_ok [OF assms(1-3)] by (elim exE conjE) (rule that)
  let ?base = "if ev_max_gen_len ev = 1 then ev_sampled ev else parse (ev_sampled ev) (vocab_size (rn_batch rn1))"
  have ok: "sampled_ok (step_spec rn ?si) rn1 ?si ?base" using assms(4) 1(1) by (simp add: samples_ok_def)
  obtain rn' vs where 2: "finish_step rn1 ?si parse (ev_sampled ev) (ev_max_gen_len ev) = Inr (rn', vs)" "synced env {} (\<lambda>_. []) rn'"
    "same_places (rn_batch rn1) (rn_batch rn')" "rn_requests rn' = with_outputs (rn_requests rn1) (kept_tokens rn1 ?si ?base)"
    "length vs = num_reqs (rn_batch rn1)" "tokens_for (rn_batch rn1) vs = kept_tokens rn1 ?si ?base"
    using finish_step_ok [OF 1(2,4,5) _ ok, of "ev_max_gen_len ev" "ev_sampled ev" parse, OF refl] by (elim exE conjE) (rule that)
  note same = same_places_dom [OF 2(3)]
  have "accepting (batch_update_builder (rn_batch rn'))" "num_reqs (rn_batch rn') = num_reqs (rn_batch rn1)"
    using 1(3) 2(3) by (simp_all add: same_places_def num_reqs_def)
  moreover have "runner_step env parse rn ev = Some (Inr (rn', vs))" using 1(1) 2(1) by (simp add: runner_step_def)
  ultimately show ?thesis using 1 2 same by (intro exI [of _ rn1] exI [of _ rn'] exI [of _ vs]) (simp add: ready_def)
qed

lemma runner_system:
  assumes "re_is_last_rank env" "ready env accepting rn0"
  shows "inv_system (\<lambda>rn. rn = rn0) (runner_trans env parse) (ready env accepting)"
proof unfold_locales
  fix rn rn' :: "('bb, 'bt, 'lp, 'e) runner" and ev
  assume inv: "ready env accepting rn" and t: "runner_trans env parse rn ev rn'"
  from t show "ready env accepting rn'"
    by (rule runner_transE) (use runner_step_ok [OF inv assms(1)] in fastforce)
qed (use assms(2) in simp)

end

end
