(* ===== verification/Runner_Props.thy ===== *)
theory Runner_Props
  imports Runner_Output
begin

section \<open>Properties of the model runner's bookkeeping\<close>

text \<open>
  A step brings the persistent batch in line with the scheduler's decision (\<open>update_states_refines\<close>) and
  writes the sampled tokens to both copies (\<open>runner_step_correct\<close>), so that in every state between steps the rows
  of the batch are the cached states (\<open>runner_reachable_ready\<close>). \<open>ngram_context_repeats\<close> shows what the n-gram
  proposer is given.
\<close>

subsection \<open>Two small steps\<close>

definition demo_runner :: "(list_builder, nat \<Rightarrow> int list list, unit, unit) runner" where
  "demo_runner =
     \<lparr>rn_requests = (\<lambda>_. None), rn_batch = demo_batch, rn_encoder_by_req = [], rn_encoder_by_hash = [], rn_seeds = [],
      rn_offsets = (\<lambda>_. 0), rn_draft_token_ids = None\<rparr>"

definition no_cached :: cached_request_data where
  "no_cached = \<lparr>cd_req_ids = [], cd_resumed_from_preemption = [], cd_new_token_ids = [], cd_new_block_ids = [], cd_num_computed_tokens = []\<rparr>"

definition demo_new :: "rid \<Rightarrow> new_request_data" where
  "demo_new r =
     \<lparr>nr_req_id = r, nr_prompt_token_ids = [1, 2], nr_mm_kwargs = [], nr_mm_positions = [], nr_mm_hashes = [],
      nr_sampling_params = Some demo_params, nr_random_seed = None, nr_pooling_params = None, nr_pooling_task = None,
      nr_block_ids = [[7]], nr_num_computed_tokens = 0, nr_lora_request = None\<rparr>"

text \<open>The first step schedules two new requests.\<close>

definition first_input :: step_input where
  "first_input =
     \<lparr>si_finished_req_ids = [], si_freed_encoder = FreedHashes [], si_num_scheduled_tokens = [(''a'', 2), (''b'', 1)],
      si_scheduled_new_reqs = [demo_new ''a'', demo_new ''b''], si_scheduled_cached_reqs = no_cached,
      si_scheduled_spec_decode_tokens = [], si_scheduled_encoder_inputs = [], si_structured_output_request_ids = []\<rparr>"

definition first_event :: step_event where
  "first_event = \<lparr>ev_input = first_input, ev_sampled = [[3], [0]], ev_max_gen_len = 1\<rparr>"

definition drop_placeholders :: "int list list \<Rightarrow> nat \<Rightarrow> int list list" where
  "drop_placeholders m vocab = map (filter (\<lambda>t. 0 \<le> t)) m"

definition after_first :: "(list_builder, nat \<Rightarrow> int list list, unit, unit) runner" where
  "after_first = (case runner_step list_runner_env drop_placeholders demo_runner first_event of Some (Inr (rn, _)) \<Rightarrow> rn | _ \<Rightarrow> demo_runner)"

lemma demo_ready: "ready list_runner_env (\<lambda>_. True) demo_runner"
proof -
  have "map_of (req_id_to_index demo_batch) = Map.empty" by (simp add: demo_batch_def input_batch_init_def)
  then show ?thesis
    using demo_updating by (simp add: ready_def synced_def demo_runner_def batch_dom_def list_runner_env_def)
qed

lemma demo_fields: "max_num_reqs demo_batch = 3" "max_model_len demo_batch = 4" "vocab_size demo_batch = 4"
  by (simp_all add: demo_batch_def input_batch_init_def)

lemma demo_no_rows: "batch_dom demo_batch = {}"
  by (simp add: batch_dom_def demo_batch_def input_batch_init_def)

lemma no_reorder: "start_step list_runner_env rn si = update_states list_runner_env rn si"
proof -
  have 1: "reorder_runner list_runner_env rn1 si = Inr rn1" for rn1 :: "(list_builder, nat \<Rightarrow> int list list, unit, 'e) runner"
    by (simp add: reorder_runner_def reorder_batch_def list_runner_env_def attn_reorder_batch_def)
  have "res_bind res (\<lambda>rn1. reorder_runner list_runner_env rn1 si) = res"
    for res :: "(list_builder, nat \<Rightarrow> int list list, unit, 'e) runner result"
    by (cases res) (simp_all add: 1)
  then show ?thesis by (cases "update_states list_runner_env rn si") (simp_all add: start_step_def)
qed

lemma first_ok: "step_ok list_runner_env demo_runner first_input"
  by (simp add: step_ok_def first_input_def freed_matches_def list_runner_env_def no_cached_def demo_new_def demo_runner_def
      demo_no_rows demo_fields req_ok_def new_request_def allowed_in_range_def demo_params_def)

text \<open>The second step: the first request has a draft token, the second one finishes its prompt.\<close>

definition second_input :: step_input where
  "second_input =
     \<lparr>si_finished_req_ids = [], si_freed_encoder = FreedHashes [], si_num_scheduled_tokens = [(''a'', 2), (''b'', 1)],
      si_scheduled_new_reqs = [],
      si_scheduled_cached_reqs =
        \<lparr>cd_req_ids = [''a'', ''b''], cd_resumed_from_preemption = [False, False], cd_new_token_ids = [],
         cd_new_block_ids = [Some [[8]], None], cd_num_computed_tokens = [2, 1]\<rparr>,
      si_scheduled_spec_decode_tokens = [(''a'', [2])], si_scheduled_encoder_inputs = [], si_structured_output_request_ids = []\<rparr>"

definition second_event :: step_event where
  "second_event = \<lparr>ev_input = second_input, ev_sampled = [[0, - 1], [1, - 1]], ev_max_gen_len = 2\<rparr>"

lemma after_first_facts:
  "rn_requests after_first ''a'' = Some (new_request list_runner_env (demo_new ''a'') None None\<lparr>cr_output_token_ids := [3]\<rparr>)"
  "rn_requests after_first ''b'' = Some (new_request list_runner_env (demo_new ''b'') None None)"
  "map fst (req_id_to_index (rn_batch after_first)) = [''a'', ''b'']" "max_num_reqs (rn_batch after_first) = 3"
  "max_model_len (rn_batch after_first) = 4"
  by code_simp+

lemma first_samples: "samples_ok list_runner_env drop_placeholders demo_runner first_event"
proof -
  have "case update_states list_runner_env demo_runner first_input of
      Some (Inr rn1) \<Rightarrow> map fst (req_id_to_index (rn_batch rn1)) = [''a'', ''b''] \<and> num_reqs (rn_batch rn1) = 2 \<and>
        max_model_len (rn_batch rn1) = 4 \<and> map (partial_prefill rn1 first_input) [''a'', ''b''] = [False, True] \<and>
        map (tokens_for (rn_batch rn1) [[3], [0]]) [''a'', ''b''] = [[3], [0]] \<and>
        map (rn_requests rn1) [''a'', ''b''] = map (\<lambda>r. Some (new_request list_runner_env (demo_new r) None None)) [''a'', ''b'']
    | _ \<Rightarrow> False"
    by code_simp
  then show ?thesis
    by (auto simp: samples_ok_def no_reorder sampled_ok_def first_event_def step_spec_def first_input_def no_cached_def batch_dom_def
        dom_map_of_conv_image_fst new_request_def demo_new_def split: option.splits sum.splits simp flip: set_map)
qed

lemma first_step:
  "\<exists>vs. runner_step list_runner_env drop_placeholders demo_runner first_event = Some (Inr (after_first, vs))"
  "ready list_runner_env (\<lambda>_. True) after_first" "batch_dom (rn_batch after_first) = {''a'', ''b''}"
proof -
  have ok: "re_is_last_rank list_runner_env" "step_ok list_runner_env demo_runner (ev_input first_event)"
    using first_ok by (simp_all add: list_runner_env_def first_event_def)
  obtain rn' vs where s: "runner_step list_runner_env drop_placeholders demo_runner first_event = Some (Inr (rn', vs))"
    "ready list_runner_env (\<lambda>_. True) rn'" "batch_dom (rn_batch rn') = scheduled (ev_input first_event)"
    using list_runner.runner_step_ok [OF demo_ready ok first_samples] by blast
  then have "after_first = rn'" by (simp add: after_first_def)
  then show "\<exists>vs. runner_step list_runner_env drop_placeholders demo_runner first_event = Some (Inr (after_first, vs))"
    "ready list_runner_env (\<lambda>_. True) after_first" "batch_dom (rn_batch after_first) = {''a'', ''b''}"
    using s by (auto simp: first_event_def first_input_def)
qed

lemma second_ok: "step_ok list_runner_env after_first second_input"
  using first_step(3)
  by (simp add: step_ok_def second_input_def freed_matches_def list_runner_env_def after_first_facts cached_ok_def Let_def
      new_request_def demo_new_def spec_tokens_of_def)

subsection \<open>The start of a step\<close>

text \<open>
  C12. \<^verbatim>\<open>_update_states\<close> brings the batch in line with the scheduler: when the rows stand for the cached states
  (on the last pipeline stage) and the scheduler's output is well-formed, it succeeds, the batch holds
  exactly the scheduled requests without holes, every row stands for the new cached state of its request,
  followed by the draft tokens when the request was in the batch before, and the cached states are those of the
  new, the running and the untouched requests.
\<close>

theorem update_states_refines:
  assumes "runner_parts env accepting" "ready env accepting rn" "re_is_last_rank env" "step_ok env rn si"
  shows "\<exists>rn'. update_states env rn si = Some (Inr rn') \<and> synced env {} (step_spec rn si) rn' \<and>
    batch_dom (rn_batch rn') = scheduled si \<and> holes (rn_batch rn') = {} \<and> next_states env rn si (rn_requests rn')"
proof -
  have "synced env {} (\<lambda>_. []) rn" "accepting (batch_update_builder (rn_batch rn))" using assms(2) by (simp_all add: ready_def)
  from runner_parts.update_states_ok [OF assms(1) this assms(3,4)] show ?thesis by blast
qed

theorem update_states_refines_witness:
  "\<exists>rn'. update_states list_runner_env after_first second_input = Some (Inr rn') \<and>
     batch_dom (rn_batch rn') = {''a'', ''b''} \<and> stands_for list_runner_env rn' ''a'' [2] \<and> stands_for list_runner_env rn' ''b'' []"
proof -
  obtain rn' where rn': "update_states list_runner_env after_first second_input = Some (Inr rn')"
    "synced list_runner_env {} (step_spec after_first second_input) rn'" "batch_dom (rn_batch rn') = scheduled second_input"
    using update_states_refines [OF list_runner.runner_parts_axioms first_step(2) _ second_ok] by (auto simp: list_runner_env_def)
  have "step_spec after_first second_input ''a'' = [2]" "step_spec after_first second_input ''b'' = []"
    using first_step(3) by (simp_all add: step_spec_def second_input_def spec_tokens_of_def)
  then show ?thesis using rn' by (intro exI [of _ rn']) (auto simp: synced_def second_input_def)
qed

subsection \<open>Runs\<close>

text \<open>
  C13. Bookkeeping over a run: in every state that the runner reaches from one in which the rows are the cached
  states, through any sequence of well-formed steps, they still are; and the next such step succeeds, leaves
  exactly the scheduled requests in the batch, and appends to the output of every request the tokens
  that are returned for its row, none when its prompt is not finished.
\<close>

theorem runner_run_correct:
  assumes "runner_parts env accepting" "re_is_last_rank env" "ready env accepting rn0"
    "reachable (\<lambda>rn. rn = rn0) (runner_trans env parse) rn"
    "step_ok env rn (ev_input ev)" "samples_ok env parse rn ev"
  shows "ready env accepting rn \<and>
    (\<exists>rn1 rn' vs. start_step env rn (ev_input ev) = Some (Inr rn1) \<and>
       next_states env rn (ev_input ev) (rn_requests rn1) \<and> runner_step env parse rn ev = Some (Inr (rn', vs)) \<and>
       ready env accepting rn' \<and> batch_dom (rn_batch rn') = scheduled (ev_input ev) \<and>
       rn_requests rn' = with_outputs (rn_requests rn1) (tokens_for (rn_batch rn') vs))"
proof -
  have r: "ready env accepting rn"
    using inv_system.reachable_inv [OF runner_parts.runner_system [OF assms(1-3)] assms(4)] .
  then show ?thesis using runner_parts.runner_step_ok [OF assms(1) r assms(2,5,6)] by blast
qed

lemma second_samples: "samples_ok list_runner_env drop_placeholders after_first second_event"
proof -
  have "case update_states list_runner_env after_first second_input of
      Some (Inr rn1) \<Rightarrow> map fst (req_id_to_index (rn_batch rn1)) = [''a'', ''b''] \<and> num_reqs (rn_batch rn1) = 2 \<and>
        max_model_len (rn_batch rn1) = 4 \<and> map (partial_prefill rn1 second_input) [''a'', ''b''] = [False, False] \<and>
        map (tokens_for (rn_batch rn1) [[0], [1]]) [''a'', ''b''] = [[0], [1]] \<and>
        map (\<lambda>r. map_option (\<lambda>q. length (cr_prompt_token_ids q) + length (cr_output_token_ids q)) (rn_requests rn1 r))
          [''a'', ''b''] = [Some 3, Some 2]
    | _ \<Rightarrow> False"
    by code_simp
  then show ?thesis
    by (auto simp: samples_ok_def no_reorder sampled_ok_def second_event_def drop_placeholders_def batch_dom_def
        dom_map_of_conv_image_fst split: option.splits sum.splits simp flip: set_map)
qed

theorem runner_run_correct_witness:
  "reachable (\<lambda>rn. rn = demo_runner) (runner_trans list_runner_env drop_placeholders) after_first \<and>
   (\<exists>rn' vs. runner_step list_runner_env drop_placeholders after_first second_event = Some (Inr (rn', vs)) \<and>
      batch_dom (rn_batch rn') = {''a'', ''b''})"
proof -
  obtain vs where s: "runner_step list_runner_env drop_placeholders demo_runner first_event = Some (Inr (after_first, vs))"
    using first_step(1) by blast
  have "step_ok list_runner_env demo_runner (ev_input first_event)" using first_ok by (simp add: first_event_def)
  then have "runner_trans list_runner_env drop_placeholders demo_runner first_event after_first"
    by (rule trans_step [OF _ first_samples s])
  then have r: "reachable (\<lambda>rn. rn = demo_runner) (runner_trans list_runner_env drop_placeholders) after_first"
    by (rule reach_step [rotated]) (rule reach_init, rule refl)
  have ok: "re_is_last_rank list_runner_env" "step_ok list_runner_env after_first (ev_input second_event)"
    using second_ok by (simp_all add: list_runner_env_def second_event_def)
  show ?thesis
    using runner_run_correct [OF list_runner.runner_parts_axioms ok(1) demo_ready r ok(2) second_samples] r
    by (auto simp: second_event_def second_input_def)
qed

subsection \<open>The order of the rows\<close>

text \<open>
  C24. \<^verbatim>\<open>reorder_batch\<close> of the MLA builders: on the batch that \<^verbatim>\<open>_update_states\<close> leaves it succeeds, the
  rows still stand for the requests, and exactly the first rows, as many as there are decode requests, are those of
  decode requests. The sampling metadata, made by \<^verbatim>\<open>refresh_metadata\<close> before, is not made again: the values it
  holds (temperatures, top-p, top-k, penalties, masks, prompts) are the ones of the order before the swaps. What the
  sampler reads through its references to the batch (generators, bad words, output tokens) follows the swaps:
  it is that of the requests in the new order.
\<close>

theorem reorder_batch_correct:
  assumes "runner_parts env accepting" "re_attn_builder env \<noteq> Attention_builder"
    "synced env {} spec rn" "accepting (batch_update_builder (rn_batch rn))" "holes (rn_batch rn) = {}"
    "batch_dom (rn_batch rn) \<subseteq> scheduled si"
  shows "\<exists>B m. reorder_batch env (rn_batch rn) si = Inr (B, m) \<and> synced env {} spec (rn\<lparr>rn_batch := B\<rparr>) \<and> holes B = {} \<and>
    batch_dom B = batch_dom (rn_batch rn) \<and>
    (\<forall>x < num_reqs B. mla_decode (re_attn_builder env) si (batch_ids B ! x) \<longleftrightarrow>
       x < card {r \<in> batch_dom B. mla_decode (re_attn_builder env) si r}) \<and>
    ib_sampling_metadata B = ib_sampling_metadata (rn_batch rn) \<and> describes_shared (re_batch env) B B"
proof -
  have "describes_shared (re_batch env) B B" if "synced env {} spec (rn\<lparr>rn_batch := B\<rparr>)" "holes B = {}" for B
    using batch_parts.shared_condensed [OF runner_parts.axioms(1) [OF assms(1)], of B] that
    by (simp add: synced_def updating_def condensed_def)
  then show ?thesis using runner_parts.reorder_runner_ok [OF assms(1,3-6)] assms(2) by blast
qed

definition mla_runner_env :: "(list_builder, list_builder, nat \<Rightarrow> int list list, unit) runner_env" where
  "mla_runner_env = list_runner_env\<lparr>re_attn_builder := Mla_builder\<rparr>"

interpretation mla_runner: runner_parts mla_runner_env "\<lambda>_. True"
proof (intro runner_parts.intro runner_parts_axioms.intro)
  show "batch_parts (re_batch mla_runner_env)" using list_runner.batch_parts_axioms by (simp add: mla_runner_env_def)
  fix b :: list_builder and i
  show "\<exists>b'. bb_removed_append (be_builder (re_batch mla_runner_env)) b i = Inr b' \<and> True"
    using list_runner.accepts [of b i] by (simp add: mla_runner_env_def)
qed (use list_runner.append_row list_runner.iter_set in \<open>simp_all add: mla_runner_env_def\<close>)

subsection \<open>The n-gram proposer\<close>

text \<open>
  C25. The context of the n-gram proposer: the tokens sampled in a step are already in the batch when
  \<^verbatim>\<open>_generate_ngram_token_ids\<close> writes them again behind the tokens of the request, so that the proposer sees
  them twice; when there is no room for the second copy of more than one token, the assignment raises.
\<close>

theorem ngram_context_repeats:
  assumes "synced env {} spec rn" "holes (rn_batch rn) = {}" "batch_dom (rn_batch rn) = scheduled si"
    "sampled_ok spec rn si (if w = 1 then sampled else parse sampled (vocab_size (rn_batch rn)))"
    "map_of (req_id_to_index (rn_batch rn)) r = Some i" "rn_requests rn r = Some q" "\<not> partial_prefill rn si r"
    "r \<notin> spec_decode_unsupported_reqs (rn_batch rn)"
  shows "\<exists>rn' vs. finish_step rn si parse sampled w = Inr (rn', vs) \<and> vs ! i \<noteq> [] \<and>
    (let ts = cr_prompt_token_ids q @ cr_output_token_ids q @ vs ! i in
     rn_requests rn' r = Some (q\<lparr>cr_output_token_ids := cr_output_token_ids q @ vs ! i\<rparr>) \<and>
     (if length ts + length (vs ! i) \<le> max_model_len (rn_batch rn)
      then \<exists>B. ngram_row propose (rn_batch rn', ds) (i, vs ! i) =
             Inr (B, ds @ [case propose (ts @ vs ! i) of None \<Rightarrow> [] | Some new \<Rightarrow> new])
      else length (vs ! i) \<noteq> 1 \<longrightarrow> ngram_row propose (rn_batch rn', ds) (i, vs ! i) = Inl ValueError))"
proof -
  let ?base = "if w = 1 then sampled else parse sampled (vocab_size (rn_batch rn))"
  obtain rn' vs where f: "finish_step rn si parse sampled w = Inr (rn', vs)" "synced env {} (\<lambda>_. []) rn'"
    "same_places (rn_batch rn) (rn_batch rn')" "rn_requests rn' = with_outputs (rn_requests rn) (kept_tokens rn si ?base)"
    "length vs = num_reqs (rn_batch rn)" "tokens_for (rn_batch rn) vs = kept_tokens rn si ?base"
    using finish_step_ok [OF assms(1-3) _ assms(4), of w sampled parse, OF refl] by (elim exE conjE) (rule that)
  let ?B = "rn_batch rn'" and ?new = "vs ! i"
  let ?q = "q\<lparr>cr_output_token_ids := cr_output_token_ids q @ ?new\<rparr>"
  let ?ts = "cr_prompt_token_ids q @ cr_output_token_ids q @ ?new"
  have r: "r \<in> batch_dom (rn_batch rn)" using assms(5) by (auto simp: batch_dom_def)
  have c: "condensed (rn_batch rn)" using assms(1,2) by (simp add: synced_def updating_def condensed_def)
  have "i < length vs" using row_facts(8) [OF assms(1,5,6)] condensedD(5) [OF c] f(5) by simp
  then have new: "?new = kept_tokens rn si ?base r" using fun_cong [OF f(6), of r] assms(5) by (simp add: tokens_for_def)
  have ne: "?new \<noteq> []" unfolding new using assms(4,6,7) r by (auto simp: sampled_ok_def kept_tokens_def)
  have q': "rn_requests rn' r = Some ?q" using assms(6) f(4) new by (simp add: with_outputs_def)
  have i': "map_of (req_id_to_index ?B) r = Some i" using assms(5) f(3) by (simp add: same_places_def)
  note at = row_facts [OF f(2) i' q']
  have L: "max_model_len ?B = max_model_len (rn_batch rn)" "r \<notin> spec_decode_unsupported_reqs ?B"
    using f(3) assms(8) by (simp_all add: same_places_def shape_eq)
  have row: "take (ib_num_tokens ?B ! i) (token_ids_cpu ?B ! i) = ?ts @ []" using at(1) by simp
  have pre: "nth_item (req_ids ?B) i = Inr (Some r)" "nth_item (num_tokens_no_spec ?B) i = Inr (length ?ts)"
    using at by (simp_all add: nth_item_def)
  have "\<exists>B. ngram_row propose (?B, ds) (i, ?new) = Inr (B, ds @ [case propose (?ts @ ?new) of None \<Rightarrow> [] | Some new \<Rightarrow> new])"
    if fits: "length ?ts + length ?new \<le> max_model_len (rn_batch rn)"
  proof -
    obtain row' where "np_assign (token_ids_cpu ?B ! i) (length ?ts) (length ?ts + length ?new) ?new = Inr row'"
      "take (length ?ts + length ?new) row' = ?ts @ ?new"
      using np_append [OF row, of ?new] fits at(3) L(1) by auto
    then show ?thesis
      using ne pre at(4) L(2) by (simp add: ngram_row_def Let_def assign_tokens_def)
  qed
  moreover have "ngram_row propose (?B, ds) (i, ?new) = Inl ValueError"
    if "\<not> length ?ts + length ?new \<le> max_model_len (rn_batch rn)" "length ?new \<noteq> 1"
  proof -
    have "0 < length ?new" using ne by simp
    then have "length ?new \<noteq> min (length ?new) (max_model_len (rn_batch rn) - length ?ts)" using that(1) by linarith
    then have "np_assign (token_ids_cpu ?B ! i) (length ?ts) (length ?ts + length ?new) ?new = Inl ValueError"
      using that(2) at(3) L(1) unfolding np_assign_def Let_def by simp
    then show ?thesis using ne pre at(4) L(2) by (simp add: ngram_row_def Let_def assign_tokens_def)
  qed
  ultimately show ?thesis using f(1) ne q' by (intro exI [of _ rn'] exI [of _ vs]) (simp add: Let_def)
qed

definition first_updated :: "(list_builder, nat \<Rightarrow> int list list, unit, unit) runner" where
  "first_updated = (case update_states list_runner_env demo_runner first_input of Some (Inr rn) \<Rightarrow> rn | _ \<Rightarrow> demo_runner)"

lemma first_updated_facts:
  "rn_requests first_updated ''a'' = Some (new_request list_runner_env (demo_new ''a'') None None)"
  "map_of (req_id_to_index (rn_batch first_updated)) ''a'' = Some 0" "\<not> partial_prefill first_updated first_input ''a''"
  "''a'' \<notin> spec_decode_unsupported_reqs (rn_batch first_updated)" "max_model_len (rn_batch first_updated) = 4"
  "map_sum (\<lambda>x. x) snd (finish_step first_updated first_input drop_placeholders [[3], [0]] 1) = Inr [[3], []]"
  by code_simp+

lemma first_updated_synced:
  "synced list_runner_env {} (\<lambda>_. []) first_updated" "holes (rn_batch first_updated) = {}"
  "batch_dom (rn_batch first_updated) = scheduled first_input" "sampled_ok (\<lambda>_. []) first_updated first_input [[3], [0]]"
proof -
  have r: "synced list_runner_env {} (\<lambda>_. []) demo_runner" "True" "re_is_last_rank list_runner_env"
    using demo_ready by (simp_all add: ready_def list_runner_env_def)
  have spec: "step_spec demo_runner first_input = (\<lambda>_. [])" by (simp add: fun_eq_iff step_spec_def first_input_def no_cached_def)
  obtain rn' where u: "update_states list_runner_env demo_runner first_input = Some (Inr rn')"
    "synced list_runner_env {} (step_spec demo_runner first_input) rn'" "holes (rn_batch rn') = {}"
    "batch_dom (rn_batch rn') = scheduled first_input"
    using list_runner.update_states_ok [OF r first_ok] by blast
  then have "first_updated = rn'" by (simp add: first_updated_def)
  then show "synced list_runner_env {} (\<lambda>_. []) first_updated" "holes (rn_batch first_updated) = {}"
    "batch_dom (rn_batch first_updated) = scheduled first_input" "sampled_ok (\<lambda>_. []) first_updated first_input [[3], [0]]"
    using u first_samples unfolding spec by (simp_all add: samples_ok_def no_reorder first_event_def spec)
qed

theorem ngram_context_repeats_witness:
  "\<exists>rn' B. finish_step first_updated first_input drop_placeholders [[3], [0]] 1 = Inr (rn', [[3], []]) \<and>
     ngram_row Some (rn_batch rn', []) (0, [3]) = Inr (B, [[1, 2, 3, 3]])"
proof -
  have ok: "sampled_ok (\<lambda>_. []) first_updated first_input
      (if 1 = (1::nat) then [[3], [0]] else drop_placeholders [[3], [0]] (vocab_size (rn_batch first_updated)))"
    using first_updated_synced(4) by simp
  obtain rn' vs where f: "finish_step first_updated first_input drop_placeholders [[3], [0]] 1 = Inr (rn', vs)"
    and n: "let ts = cr_prompt_token_ids (new_request list_runner_env (demo_new ''a'') None None) @
           cr_output_token_ids (new_request list_runner_env (demo_new ''a'') None None) @ vs ! 0 in
         length ts + length (vs ! 0) \<le> max_model_len (rn_batch first_updated) \<longrightarrow>
         (\<exists>B. ngram_row Some (rn_batch rn', []) (0, vs ! 0) = Inr (B, [] @ [ts @ vs ! 0]))"
    using ngram_context_repeats [where w = 1 and sampled = "[[3], [0]]" and parse = drop_placeholders and propose = Some and ds = "[]",
        OF first_updated_synced(1-3) ok first_updated_facts(2,1,3,4)]
    by (auto simp: Let_def split: if_splits)
  have "vs = [[3], []]" using first_updated_facts(6) f by simp
  then show ?thesis using f n first_updated_facts(5) by (auto simp: new_request_def demo_new_def)
qed

text \<open>In the first step the first request has two tokens, the second one has one.\<close>

theorem reorder_batch_correct_witness:
  "\<exists>B m. reorder_batch mla_runner_env (rn_batch first_updated) first_input = Inr (B, m) \<and>
     num_reqs B = 2 \<and> batch_ids B ! 0 = ''b'' \<and> ib_sampling_metadata B = ib_sampling_metadata (rn_batch first_updated) \<and>
     sm_output_token_ids B = column (re_batch mla_runner_env) B br_output"
proof -
  have frame: "synced mla_runner_env {} (\<lambda>_. []) rn = synced list_runner_env {} (\<lambda>_. []) rn"
    for rn :: "(list_builder, nat \<Rightarrow> int list list, unit, 'e) runner"
    by (simp add: synced_def stands_for_def mla_runner_env_def)
  have pre: "re_attn_builder mla_runner_env \<noteq> Attention_builder" "synced mla_runner_env {} (\<lambda>_. []) first_updated"
    using first_updated_synced(1) by (simp_all add: frame) (simp add: mla_runner_env_def)
  obtain B m where B: "reorder_batch mla_runner_env (rn_batch first_updated) first_input = Inr (B, m)"
    "synced mla_runner_env {} (\<lambda>_. []) (first_updated\<lparr>rn_batch := B\<rparr>)" "holes B = {}"
    "batch_dom B = batch_dom (rn_batch first_updated)"
    "\<forall>x < num_reqs B. mla_decode (re_attn_builder mla_runner_env) first_input (batch_ids B ! x) \<longleftrightarrow>
       x < card {r \<in> batch_dom B. mla_decode (re_attn_builder mla_runner_env) first_input r}"
    "ib_sampling_metadata B = ib_sampling_metadata (rn_batch first_updated)" "describes_shared (re_batch mla_runner_env) B B"
    using reorder_batch_correct [OF mla_runner.runner_parts_axioms pre TrueI first_updated_synced(2) eq_refl [OF first_updated_synced(3)]]
    by (elim exE conjE) (rule that)
  have c: "condensed B" using B(2,3) by (simp add: synced_def updating_def condensed_def)
  have dom: "batch_dom B = {''a'', ''b''}" using B(4) first_updated_synced(3) by (simp add: first_input_def)
  have d: "mla_decode (re_attn_builder mla_runner_env) first_input r \<longleftrightarrow> r = ''b''" if "r \<in> batch_dom B" for r
    using that unfolding dom by (auto simp: mla_decode_def mla_runner_env_def first_input_def)
  have n: "num_reqs B = 2" using num_reqs_dom [OF condensedD(2) [OF c]] dom by simp
  have "{r \<in> batch_dom B. mla_decode (re_attn_builder mla_runner_env) first_input r} = {''b''}" using d dom by auto
  then have "mla_decode (re_attn_builder mla_runner_env) first_input (batch_ids B ! 0)" using B(5) n by simp
  moreover have "batch_ids B ! 0 \<in> batch_dom B" using batch_ids_nth [OF c, of 0] n by (auto simp: batch_dom_def)
  ultimately have "batch_ids B ! 0 = ''b''" using d by blast
  then show ?thesis using B(1,6,7) n unfolding describes_shared_def by blast
qed

end
