(* ===== verification/Runner_Inputs.thy ===== *)
theory Runner_Inputs
  imports Runner_Output Rejection_Greedy
begin

section \<open>The model's input\<close>

text \<open>
  The index arithmetic of \<^verbatim>\<open>_prepare_inputs\<close>, \<^verbatim>\<open>_get_cumsum_and_arange\<close>, \<^verbatim>\<open>_calc_spec_decode_metadata\<close>,
  \<^verbatim>\<open>_build_attn_state\<close> and \<^verbatim>\<open>apply_grammar_bitmask\<close> of \<^verbatim>\<open>vllm_ascend/worker/model_runner_v1.py\<close>. A vector with
  one entry per scheduled token is the concatenation of one piece per row, in the order \<open>flat\<close>. \<^verbatim>\<open>np.repeat\<close> is
  \<open>repeat_interleave\<close>, \<^verbatim>\<open>np.cumsum\<close> is \<open>cumulative\<close>, element-wise operations are \<open>bcast\<close>. The buffers of the
  runner are \<open>input_buffers\<close>; the block table is vLLM's and is given by its CPU tensor.
\<close>

subsection \<open>Definitions\<close>

record input_buffers =
  ri_max_num_tokens :: nat
  ri_arange_len :: nat
  ri_max_num_blocks_per_req :: nat
  ri_block_size :: nat
  ri_block_table :: "int list list"

definition arange_np :: "input_buffers \<Rightarrow> nat \<Rightarrow> int list" where
  "arange_np bufs n = map int [0..<min n (ri_arange_len bufs)]"

text \<open>\<^verbatim>\<open>buffer[:n] = xs\<close> and \<^verbatim>\<open>out=buffer[:n]\<close>: the lengths have to agree.\<close>

definition to_buffer :: "input_buffers \<Rightarrow> nat \<Rightarrow> 'a list \<Rightarrow> 'a list result" where
  "to_buffer bufs n xs = (if length xs = min n (ri_max_num_tokens bufs) then Inr xs else Inl ValueError)"

definition get_cumsum_and_arange :: "input_buffers \<Rightarrow> nat list \<Rightarrow> (nat list \<times> int list) result" where
  "get_cumsum_and_arange bufs ns =
     (let cu = cumulative ns in
      if cu = [] then Inl IndexError
      else
        let offsets = repeat_interleave (map2 (\<lambda>c n. int c - int n) cu ns) ns in
        res_bind (bcast ValueError (-) (arange_np bufs (last cu)) offsets) (\<lambda>arange. Inr (cu, arange)))"

text \<open>The numbers of scheduled tokens and of those that are no draft tokens, row by row.\<close>

definition row_counts :: "('bb, 'bt, 'lp) input_batch \<Rightarrow> step_input \<Rightarrow> (nat list \<times> int list) result" where
  "row_counts B si =
     res_bind
       (res_map (\<lambda>x. case x of
            None \<Rightarrow> Inl KeyError
          | Some r \<Rightarrow> res_bind (dict_item (si_num_scheduled_tokens si) r) (\<lambda>n. Inr (n, int n - int (length (spec_tokens_of si r)))))
         (req_ids B))
       (\<lambda>rows. Inr (map fst rows, map snd rows))"

text \<open>The vectors with one entry per token and those with one per request.\<close>

record prepared =
  pi_counts :: "nat list"
  pi_valid :: "int list"
  pi_positions :: "int list"
  pi_slot_mapping :: "int list"
  pi_input_ids :: "int list"
  pi_seq_lens :: "int list"
  pi_query_start_loc :: "nat list"
  pi_max_num_scheduled_tokens :: nat

definition prepare_rows ::
  "input_buffers \<Rightarrow> ('bb, 'bt, 'lp) input_batch \<Rightarrow> nat \<Rightarrow> nat list \<times> int list \<Rightarrow> prepared result" where
  "prepare_rows bufs B n_tokens cs =
     (case cs of (counts, valid) \<Rightarrow>
        let n = num_reqs B;
            req_indices = repeat_interleave (take n (arange_np bufs n)) counts;
            cu_num_tokens = cumulative counts;
            offsets = repeat_interleave (map2 (\<lambda>c k. int c - int k) cu_num_tokens counts) counts
        in
        res_bind (bcast ValueError (-) (arange_np bufs n_tokens) offsets) (\<lambda>arange.
        res_bind (res_map (list_item (num_computed_tokens_cpu B)) req_indices) (\<lambda>computed.
        res_bind (bcast ValueError (+) computed arange) (\<lambda>summed.
        res_bind (to_buffer bufs n_tokens summed) (\<lambda>positions.
        res_bind (bcast ValueError (+) (take n (num_computed_tokens_cpu B)) (map int counts)) (\<lambda>seq_lens.
        res_bind (bcast ValueError (\<lambda>r p. r * int (ri_max_num_blocks_per_req bufs) + p div int (ri_block_size bufs)) req_indices positions)
          (\<lambda>block_table_indices.
        res_bind (res_map (list_item (concat (ri_block_table bufs))) block_table_indices) (\<lambda>block_numbers.
        res_bind (bcast ValueError (\<lambda>b p. b * int (ri_block_size bufs) + p mod int (ri_block_size bufs)) block_numbers positions) (\<lambda>slots.
        res_bind (to_buffer bufs n_tokens slots) (\<lambda>slot_mapping.
        res_bind (bcast ValueError (\<lambda>p r. p + r * int (max_model_len B)) positions req_indices) (\<lambda>token_indices.
        res_bind (res_map (\<lambda>i. if 0 \<le> i then list_item (concat (token_ids_cpu B)) i else Inl IndexError) token_indices) (\<lambda>ids.
        Inr \<lparr>pi_counts = counts, pi_valid = valid, pi_positions = positions, pi_slot_mapping = slot_mapping, pi_input_ids = ids,
             pi_seq_lens = seq_lens, pi_query_start_loc = 0 # cu_num_tokens, pi_max_num_scheduled_tokens = foldl max 0 counts\<rparr>))))))))))))"

text \<open>\<^verbatim>\<open>_prepare_inputs\<close> after the batch has been reordered; \<open>n_tokens\<close> is \<^verbatim>\<open>total_num_scheduled_tokens\<close>.\<close>

definition prepare_inputs ::
  "input_buffers \<Rightarrow> ('bb, 'bt, 'lp) input_batch \<Rightarrow> step_input \<Rightarrow> nat \<Rightarrow> prepared result" where
  "prepare_inputs bufs B si n_tokens =
     res_bind (py_assert (0 < n_tokens)) (\<lambda>_.
     res_bind (py_assert (0 < num_reqs B)) (\<lambda>_.
     res_bind (row_counts B si) (prepare_rows bufs B n_tokens)))"

text \<open>The positions of the logits that are sampled.\<close>

record spec_decode_metadata =
  sd_draft_token_ids :: "int list"
  sd_num_draft_tokens :: "nat list"
  sd_cu_num_draft_tokens :: "nat list"
  sd_target_logits_indices :: "int list"
  sd_bonus_logits_indices :: "int list"
  sd_logits_indices :: "int list"

definition num_draft_tokens_of :: "('bb, 'bt, 'lp) input_batch \<Rightarrow> step_input \<Rightarrow> nat list result" where
  "num_draft_tokens_of B si =
     res_foldl (\<lambda>ds (r, ts). res_bind (dict_item (req_id_to_index B) r) (\<lambda>i.
         if i < length ds then Inr (ds[i := length ts]) else Inl IndexError))
       (replicate (num_reqs B) 0) (si_scheduled_spec_decode_tokens si)"

definition calc_spec_decode_metadata ::
  "input_buffers \<Rightarrow> nat list \<Rightarrow> nat list \<Rightarrow> int list \<Rightarrow> spec_decode_metadata result" where
  "calc_spec_decode_metadata bufs num_draft_tokens cu_num_scheduled_tokens input_ids =
     (let num_sampled = map Suc num_draft_tokens in
      res_bind (get_cumsum_and_arange bufs num_sampled) (\<lambda>(cu_sampled, arange).
      res_bind (bcast ValueError (\<lambda>c n. int c - int n) cu_num_scheduled_tokens num_sampled) (\<lambda>starts.
      res_bind (bcast ValueError (+) (repeat_interleave starts num_sampled) arange) (\<lambda>logits_indices.
      let bonus = map (\<lambda>c. int c - 1) cu_sampled in
      res_bind (get_cumsum_and_arange bufs num_draft_tokens) (\<lambda>(cu_draft, arange').
      res_bind (bcast ValueError (+)
          (repeat_interleave (map2 (\<lambda>c n. int c - int n) cu_sampled num_sampled) num_draft_tokens) arange') (\<lambda>target.
      res_bind (res_map (list_item input_ids) logits_indices) (\<lambda>sampled_ids.
      res_bind (res_map (\<lambda>t. list_item sampled_ids (t + 1)) target) (\<lambda>drafts.
      Inr \<lparr>sd_draft_token_ids = drafts, sd_num_draft_tokens = num_draft_tokens, sd_cu_num_draft_tokens = cu_draft,
           sd_target_logits_indices = target, sd_bonus_logits_indices = bonus, sd_logits_indices = logits_indices\<rparr>))))))))"

text \<open>The end of \<^verbatim>\<open>_prepare_inputs\<close>: without draft tokens the last token of every request is sampled.\<close>

definition logits_indices_of ::
  "input_buffers \<Rightarrow> ('bb, 'bt, 'lp) input_batch \<Rightarrow> step_input \<Rightarrow> prepared \<Rightarrow> (int list \<times> spec_decode_metadata option) result" where
  "logits_indices_of bufs B si p =
     (let cu = tl (pi_query_start_loc p) in
      if si_scheduled_spec_decode_tokens si = [] then Inr (map (\<lambda>c. int c - 1) cu, None)
      else
        res_bind (num_draft_tokens_of B si) (\<lambda>ds.
        res_bind (calc_spec_decode_metadata bufs ds cu (pi_input_ids p)) (\<lambda>m. Inr (sd_logits_indices m, Some m))))"

text \<open>The state that chooses the attention kernels.\<close>

datatype attn_state = PrefillNoCache | PrefillCacheHit | DecodeOnly | ChunkedPrefill | SpecDecoding

definition build_attn_state ::
  "spec_method option \<Rightarrow> bool \<Rightarrow> bool \<Rightarrow> bool \<Rightarrow> int list \<Rightarrow> nat list \<Rightarrow> int list \<Rightarrow> attn_state" where
  "build_attn_state method use_eagle ascend_scheduler chunked_prefill seq_lens num_scheduled num_valid =
     (if seq_lens = map int num_scheduled then PrefillNoCache
      else if \<forall>n \<in> set num_scheduled. n = 1 then
        (if method = Some Deepseek_mtp then SpecDecoding else DecodeOnly)
      else if \<forall>n \<in> set num_valid. n = 1 then
        (if use_eagle then ChunkedPrefill else SpecDecoding)
      else if \<not> ascend_scheduler \<or> chunked_prefill then ChunkedPrefill
      else PrefillCacheHit)"

text \<open>
  The bit masks of structured output arrive in the order of the scheduler; the row of a request comes
  \<open>1 +\<close> its draft tokens times.
\<close>

definition struct_out_indices ::
  "('bb, 'bt, 'lp) input_batch \<Rightarrow> step_input \<Rightarrow> (rid \<times> nat) list" where
  "struct_out_indices B si =
     fst (foldl (\<lambda>(acc, off) (r, i).
           (if r \<in> fst ` set (si_structured_output_request_ids si) then dict_set r (i + off) acc else acc,
            off + length (spec_tokens_of si r)))
         ([], 0) (sort_key snd (req_id_to_index B)))"

definition place_mask_rows ::
  "'m list \<Rightarrow> nat \<Rightarrow> nat \<Rightarrow> 'm list \<times> nat list \<Rightarrow> nat \<Rightarrow> ('m list \<times> nat list) result" where
  "place_mask_rows bitmask logit_index cumulative_index acc i =
     (case acc of (rows, out) \<Rightarrow>
        if length rows \<le> logit_index + i \<or> length bitmask \<le> cumulative_index + i then Inl IndexError
        else Inr (rows[logit_index + i := bitmask ! (cumulative_index + i)], out @ [logit_index + i]))"

definition grammar_rows ::
  "('bb, 'bt, 'lp) input_batch \<Rightarrow> step_input \<Rightarrow> 'm \<Rightarrow> nat \<Rightarrow> 'm list \<Rightarrow> ('m list \<times> nat list) result" where
  "grammar_rows B si zero n_logits bitmask =
     res_bind
       (res_foldl (\<lambda>((rows, out), cum) (r, _).
           res_bind (dict_item (struct_out_indices B si) r) (\<lambda>logit_index.
           res_bind (res_foldl (place_mask_rows bitmask logit_index cum) (rows, out)
               [0..<1 + length (spec_tokens_of si r)]) (\<lambda>acc.
           Inr (acc, cum + (1 + length (spec_tokens_of si r))))))
         ((replicate n_logits zero, []), 0) (sort_key snd (si_structured_output_request_ids si)))
       (\<lambda>(acc, _). Inr acc)"

end
