(* ===== verification/Runner_Input_Props.thy ===== *)
theory Runner_Input_Props
  imports Runner_Inputs Runner_Props
begin

section \<open>Properties of the model's input\<close>

text \<open>
  Request by request, the vectors of a step hold what a loop over the rows would compute: the scheduled
  slice of the tokens with their positions and cache slots (\<open>prepare_inputs_correct\<close>), the positions of the logits
  with draft tokens (\<open>spec_decode_metadata_correct\<close>), and the rows of the grammar's bit mask
  (\<open>grammar_rows_correct\<close>).
\<close>

subsection \<open>Vectors in flat order\<close>

lemma map2_flat: "map2 g (map f (flat ns)) (map h (flat ns)) = map (\<lambda>p. g (f p) (h p)) (flat ns)"
  by (simp add: zip_map_same comp_def)

lemma length_flat [simp]: "length (flat ns) = sum_list ns"
  using arg_cong [OF flat_index, of length ns] by simp

lemma repeat_flat:
  assumes "length xs = length ns"
  shows "repeat_interleave xs ns = map (\<lambda>(i, j). xs ! i) (flat ns)"
proof -
  have "zip xs ns = map (\<lambda>i. (xs ! i, ns ! i)) [0..<length ns]" using assms by (intro nth_equalityI) simp_all
  then show ?thesis by (simp add: repeat_interleave_def flat_def map_concat comp_def map_replicate_const)
qed

lemma last_cumulative: "ns \<noteq> [] \<Longrightarrow> last (cumulative ns) = sum_list ns"
  by (simp add: cumulative_def last_map)

lemma flat_concat: "map (\<lambda>(i, j). f i j) (flat ns) = concat (map (\<lambda>i. map (f i) [0..<ns ! i]) [0..<length ns])"
  by (simp add: flat_def map_concat comp_def)

lemma nth_flat: "i < length ns \<Longrightarrow> j < ns ! i \<Longrightarrow> map f (flat ns) ! (offset ns i + j) = f (i, j)"
proof -
  assume a: "i < length ns" "j < ns ! i"
  have "(map (\<lambda>(i, j). f (i, j)) (flat ns)) = map (\<lambda>k. map f (flat ns) ! k) (map (\<lambda>(i, j). offset ns i + j) (flat ns))"
    unfolding flat_index by (rule nth_equalityI) simp_all
  then have "f (i, j) = map f (flat ns) ! (offset ns i + j)"
    using a by (simp add: comp_def case_prod_unfold) (metis (no_types, lifting) case_prodI mem_Collect_eq prod.sel set_flat)
  then show ?thesis by simp
qed

lemma concat_uniform:
  assumes "\<forall>row \<in> set m. length row = w" "i < length m" "j < w"
  shows "i * w + j < length (concat m)" "concat m ! (i * w + j) = m ! i ! j"
  using assms
proof (induction m arbitrary: i)
  case (Cons row m)
  { case 1
    then show ?case using Cons.IH(1) [of "i - 1"] by (cases i) auto }
  { case 2
    then show ?case using Cons.IH(2) [of "i - 1"] by (cases i) (auto simp: nth_append add.assoc) }
qed simp_all

text \<open>\<^verbatim>\<open>_get_cumsum_and_arange\<close>: the comment's \<^verbatim>\<open>np.concatenate([np.arange(n) for n in num_tokens])\<close>.\<close>

lemma arange_flat:
  assumes "sum_list ns \<le> ri_arange_len bufs"
  shows "bcast ValueError (-) (arange_np bufs (sum_list ns)) (repeat_interleave (map2 (\<lambda>c n. int c - int n) (cumulative ns) ns) ns) =
    Inr (map (\<lambda>(i, j). int j) (flat ns))"
proof -
  have a: "arange_np bufs (sum_list ns) = map (\<lambda>(i, j). int (offset ns i + j)) (flat ns)"
    using assms unfolding arange_np_def by (simp add: min_absorb1 flip: flat_index) (simp add: comp_def case_prod_unfold)
  have o: "repeat_interleave (map2 (\<lambda>c n. int c - int n) (cumulative ns) ns) ns = map (\<lambda>(i, j). int (offset ns i)) (flat ns)"
    by (subst repeat_flat) (auto simp: cumulative_start set_flat)
  show ?thesis unfolding a o by (simp add: bcast_def map2_flat) (simp add: case_prod_unfold)
qed

lemma get_cumsum_and_arange_ok:
  "ns \<noteq> [] \<Longrightarrow> sum_list ns \<le> ri_arange_len bufs \<Longrightarrow>
   get_cumsum_and_arange bufs ns = Inr (cumulative ns, concat (map (\<lambda>n. map int [0..<n]) ns))"
proof -
  assume a: "ns \<noteq> []" "sum_list ns \<le> ri_arange_len bufs"
  have "map (\<lambda>(i, j). int j) (flat ns) = concat (map (\<lambda>n. map int [0..<n]) ns)"
    unfolding flat_concat by (rule arg_cong [where f = concat]) (rule nth_equalityI; simp)
  moreover have "cumulative ns \<noteq> []" using a(1) by (simp add: cumulative_def)
  ultimately show ?thesis
    using a arange_flat [OF a(2)] by (simp add: get_cumsum_and_arange_def Let_def last_cumulative)
qed

subsection \<open>One step's input\<close>

text \<open>The cache slot of a position, in the blocks of its request.\<close>

definition slot_of :: "nat \<Rightarrow> int list \<Rightarrow> nat \<Rightarrow> int" where
  "slot_of bs blocks pos = blocks ! (pos div bs) * int bs + int (pos mod bs)"

text \<open>The buffers are large enough, and the table has a row for every request.\<close>

definition buffers_ok :: "input_buffers \<Rightarrow> nat \<Rightarrow> nat list \<Rightarrow> bool" where
  "buffers_ok bufs n counts \<longleftrightarrow>
     sum_list counts \<le> ri_max_num_tokens bufs \<and> ri_max_num_tokens bufs \<le> ri_arange_len bufs \<and> n \<le> ri_arange_len bufs \<and>
     0 < ri_block_size bufs \<and> n \<le> length (ri_block_table bufs) \<and>
     (\<forall>row \<in> set (ri_block_table bufs). length row = ri_max_num_blocks_per_req bufs)"

lemma prepare_rows_ok:
  assumes "condensed B" "length counts = num_reqs B" "buffers_ok bufs (num_reqs B) counts"
    "\<forall>i < num_reqs B. num_computed_tokens_cpu B ! i = int (c i) \<and> c i + counts ! i \<le> max_model_len B \<and>
       c i + counts ! i \<le> ri_max_num_blocks_per_req bufs * ri_block_size bufs"
  shows "prepare_rows bufs B (sum_list counts) (counts, valid) = Inr
    \<lparr>pi_counts = counts, pi_valid = valid, pi_positions = map (\<lambda>(i, k). int (c i + k)) (flat counts),
     pi_slot_mapping = map (\<lambda>(i, k). slot_of (ri_block_size bufs) (ri_block_table bufs ! i) (c i + k)) (flat counts),
     pi_input_ids = map (\<lambda>(i, k). token_ids_cpu B ! i ! (c i + k)) (flat counts),
     pi_seq_lens = map (\<lambda>i. int (c i + counts ! i)) [0..<num_reqs B],
     pi_query_start_loc = 0 # cumulative counts, pi_max_num_scheduled_tokens = foldl max 0 counts\<rparr>"
proof -
  let ?n = "num_reqs B" and ?W = "ri_max_num_blocks_per_req bufs" and ?bs = "ri_block_size bufs" and ?M = "max_model_len B"
  have b: "sum_list counts \<le> ri_max_num_tokens bufs" "sum_list counts \<le> ri_arange_len bufs" "?n \<le> ri_arange_len bufs" "0 < ?bs"
    "?n \<le> length (ri_block_table bufs)" "\<forall>row \<in> set (ri_block_table bufs). length row = ?W"
    using assms(3) by (auto simp: buffers_ok_def)
  note arr = condensedD(1,6) [OF assms(1)]
  have tok: "length (token_ids_cpu B) = max_num_reqs B" "\<forall>row \<in> set (token_ids_cpu B). length row = ?M"
    "length (num_computed_tokens_cpu B) = max_num_reqs B"
    using arr(1) by (auto simp: arrays_ok_def in_set_conv_nth)
  have inside: "i < ?n \<and> k < counts ! i" if "(i, k) \<in> set (flat counts)" for i k using that assms(2) by (simp add: set_flat)
  have r: "repeat_interleave (take ?n (arange_np bufs ?n)) counts = map (\<lambda>(i, k). int i) (flat counts)"
    using b(3) assms(2) by (subst repeat_flat) (auto simp: arange_np_def set_flat)
  have computed: "res_map (list_item (num_computed_tokens_cpu B)) (map (\<lambda>(i, k). int i) (flat counts)) =
      Inr (map (\<lambda>(i, k). int (c i)) (flat counts))"
  proof -
    have "list_item (num_computed_tokens_cpu B) (int i) = Inr (int (c i))" if "(i, k) \<in> set (flat counts)" for i k
      using inside [OF that] assms(4) tok(3) arr(2) by simp
    then have "res_map (list_item (num_computed_tokens_cpu B)) (map (\<lambda>(i, k). int i) (flat counts)) =
        Inr (map (\<lambda>x. int (c (nat x))) (map (\<lambda>(i, k). int i) (flat counts)))"
      by (intro res_map_Inr) auto
    then show ?thesis by (simp add: comp_def case_prod_unfold)
  qed
  have seq: "bcast ValueError (+) (take ?n (num_computed_tokens_cpu B)) (map int counts) = Inr (map (\<lambda>i. int (c i + counts ! i)) [0..<?n])"
  proof -
    have "map2 (+) (take ?n (num_computed_tokens_cpu B)) (map int counts) = map (\<lambda>i. int (c i + counts ! i)) [0..<?n]"
      using assms(2,4) tok(3) arr(2) by (intro nth_equalityI) simp_all
    then show ?thesis using assms(2) tok(3) arr(2) by (simp add: bcast_def)
  qed
  have blocks: "res_map (list_item (concat (ri_block_table bufs)))
        (map (\<lambda>(i, k). int i * int ?W + int (c i + k) div int ?bs) (flat counts)) =
      Inr (map (\<lambda>(i, k). ri_block_table bufs ! i ! ((c i + k) div ?bs)) (flat counts))"
  proof -
    have "list_item (concat (ri_block_table bufs)) (int i * int ?W + int (c i + k) div int ?bs) =
        Inr (ri_block_table bufs ! i ! ((c i + k) div ?bs))" if "(i, k) \<in> set (flat counts)" for i k
    proof -
      have i: "i < length (ri_block_table bufs)" using inside [OF that] b(5) by simp
      have "c i + k < ?W * ?bs" using inside [OF that] assms(4) by fastforce
      then have j: "(c i + k) div ?bs < ?W" by (simp add: less_mult_imp_div_less)
      have e: "int i * int ?W + int (c i + k) div int ?bs = int (i * ?W + (c i + k) div ?bs)" by (simp add: zdiv_int)
      show ?thesis unfolding e list_item_nat [OF concat_uniform(1) [OF b(6) i j]] concat_uniform(2) [OF b(6) i j] ..
    qed
    then show ?thesis by (simp add: res_map_eq_Inr list_all2_map1 list_all2_map2 list_all2_same split_beta)
  qed
  have ids: "res_map (\<lambda>i. if 0 \<le> i then list_item (concat (token_ids_cpu B)) i else Inl IndexError)
        (map (\<lambda>(i, k). int (c i + k) + int i * int ?M) (flat counts)) =
      Inr (map (\<lambda>(i, k). token_ids_cpu B ! i ! (c i + k)) (flat counts))"
  proof -
    have "list_item (concat (token_ids_cpu B)) (int (c i + k) + int i * int ?M) = Inr (token_ids_cpu B ! i ! (c i + k))"
      if "(i, k) \<in> set (flat counts)" for i k
    proof -
      have i: "i < length (token_ids_cpu B)" using inside [OF that] tok(1) arr(2) by simp
      have j: "c i + k < ?M" using inside [OF that] assms(4) by fastforce
      have e: "int (c i + k) + int i * int ?M = int (i * ?M + (c i + k))" by simp
      show ?thesis unfolding e list_item_nat [OF concat_uniform(1) [OF tok(2) i j]] concat_uniform(2) [OF tok(2) i j] ..
    qed
    then show ?thesis by (simp add: res_map_eq_Inr list_all2_map1 list_all2_map2 list_all2_same split_beta)
  qed
  have same: "bcast e g (map f (flat counts)) (map h (flat counts)) = Inr (map (\<lambda>p. g (f p) (h p)) (flat counts))" for e g f h
    by (simp add: bcast_def map2_flat)
  have buf: "to_buffer bufs (sum_list counts) (map f (flat counts)) = Inr (map f (flat counts))" for f :: "nat \<times> nat \<Rightarrow> int"
    using b(1) by (simp add: to_buffer_def)
  have pos: "(\<lambda>p. (case p of (i, k) \<Rightarrow> int (c i)) + (case p of (i, k) \<Rightarrow> int k)) = (\<lambda>(i, k). int (c i + k))"
    "(\<lambda>p. (case p of (i, k) \<Rightarrow> int i) * int ?W + (case p of (i, k) \<Rightarrow> int (c i + k)) div int ?bs) = (\<lambda>(i, k). int i * int ?W + int (c i + k) div int ?bs)"
    "(\<lambda>p. (case p of (i, k) \<Rightarrow> int (c i + k)) + (case p of (i, k) \<Rightarrow> int i) * int ?M) = (\<lambda>(i, k). int (c i + k) + int i * int ?M)"
    "(\<lambda>p. (case p of (i, k) \<Rightarrow> ri_block_table bufs ! i ! ((c i + k) div ?bs)) * int ?bs + (case p of (i, k) \<Rightarrow> int (c i + k)) mod int ?bs) =
      (\<lambda>(i, k). slot_of ?bs (ri_block_table bufs ! i) (c i + k))"
    by (auto simp: fun_eq_iff slot_of_def zmod_int)
  show ?thesis
    unfolding prepare_rows_def prod.case Let_def r arange_flat [OF b(2)] res_bind_Inr computed same pos buf seq blocks ids ..
qed

subsection \<open>Request by request\<close>

definition request_of :: "('bb, 'bt, 'lp, 'e) runner \<Rightarrow> rid \<Rightarrow> runner_request" where
  "request_of rn r = the (rn_requests rn r)"

definition tokens_of :: "(rid \<Rightarrow> int list) \<Rightarrow> ('bb, 'bt, 'lp, 'e) runner \<Rightarrow> rid \<Rightarrow> int list" where
  "tokens_of spec rn r =
     cr_prompt_token_ids (request_of rn r) @ cr_output_token_ids (request_of rn r) @ spec r"

definition computed_of :: "('bb, 'bt, 'lp, 'e) runner \<Rightarrow> rid \<Rightarrow> nat" where
  "computed_of rn r = nat (cr_num_computed_tokens (request_of rn r))"

definition count_of :: "step_input \<Rightarrow> rid \<Rightarrow> nat" where
  "count_of si r = the (map_of (si_num_scheduled_tokens si) r)"

text \<open>
  What the scheduler promises: at least one token per request, all of them known, and blocks for them, which are
  the first ones of the request's row in the block table.
\<close>

definition inputs_ok ::
  "input_buffers \<Rightarrow> (rid \<Rightarrow> int list) \<Rightarrow> ('bb, 'bt, 'lp, 'e) runner \<Rightarrow> step_input \<Rightarrow> bool" where
  "inputs_ok bufs spec rn si \<longleftrightarrow>
     0 < num_reqs (rn_batch rn) \<and> batch_dom (rn_batch rn) \<subseteq> scheduled si \<and>
     buffers_ok bufs (num_reqs (rn_batch rn)) (map (count_of si) (batch_ids (rn_batch rn))) \<and>
     (\<forall>r \<in> batch_dom (rn_batch rn). 0 < count_of si r \<and> 0 \<le> cr_num_computed_tokens (request_of rn r) \<and>
        computed_of rn r + count_of si r \<le> length (tokens_of spec rn r) \<and>
        computed_of rn r + count_of si r \<le> length (hd (cr_block_ids (request_of rn r))) * ri_block_size bufs \<and>
        (\<forall>i. map_of (req_id_to_index (rn_batch rn)) r = Some i \<longrightarrow>
           take (length (hd (cr_block_ids (request_of rn r)))) (ri_block_table bufs ! i) = hd (cr_block_ids (request_of rn r))))"

lemma concat_rows:
  assumes "length ids = length ns" "\<And>i. i < length ns \<Longrightarrow> map (f i) [0..<ns ! i] = g (ids ! i)"
  shows "map (\<lambda>(i, k). f i k) (flat ns) = concat (map g ids)"
proof -
  have "map (\<lambda>i. map (f i) [0..<ns ! i]) [0..<length ns] = map g ids"
    using assms by (intro nth_equalityI) simp_all
  then show ?thesis by (simp add: flat_concat)
qed

lemma row_counts_ok:
  assumes "req_ids B = map Some ids" "\<And>r. r \<in> set ids \<Longrightarrow> map_of (si_num_scheduled_tokens si) r = Some (count_of si r)"
  shows "row_counts B si = Inr (map (count_of si) ids, map (\<lambda>r. int (count_of si r) - int (length (spec_tokens_of si r))) ids)"
proof -
  have "res_map (\<lambda>x. case x of None \<Rightarrow> Inl KeyError
      | Some r \<Rightarrow> res_bind (dict_item (si_num_scheduled_tokens si) r) (\<lambda>n. Inr (n, int n - int (length (spec_tokens_of si r)))))
     (map Some ids) = Inr (map (\<lambda>r. (count_of si r, int (count_of si r) - int (length (spec_tokens_of si r)))) ids)"
    using assms(2) by (auto simp: res_map_eq_Inr list_all2_map1 list_all2_map2 list_all2_same)
  then show ?thesis by (simp add: row_counts_def assms(1) comp_def)
qed

lemma slice_as_map: "a + n \<le> length xs \<Longrightarrow> map (\<lambda>k. xs ! (a + k)) [0..<n] = slice a (a + n) xs"
  by (intro nth_equalityI) (simp_all add: slice_def)

text \<open>The row of a request in a batch that is in step with its requests.\<close>

lemma batch_row:
  assumes "synced env {} spec rn" "holes (rn_batch rn) = {}" "i < num_reqs (rn_batch rn)" "r = batch_ids (rn_batch rn) ! i"
  shows "map_of (req_id_to_index (rn_batch rn)) r = Some i" "r \<in> batch_dom (rn_batch rn)" "req_ids (rn_batch rn) ! i = Some r"
    "take (ib_num_tokens (rn_batch rn) ! i) (token_ids_cpu (rn_batch rn) ! i) = tokens_of spec rn r"
    "length (token_ids_cpu (rn_batch rn) ! i) = max_model_len (rn_batch rn)"
    "num_computed_tokens_cpu (rn_batch rn) ! i = cr_num_computed_tokens (request_of rn r)"
proof -
  have c: "condensed (rn_batch rn)" using assms(1,2) by (simp add: synced_def updating_def condensed_def)
  show m: "map_of (req_id_to_index (rn_batch rn)) r = Some i" unfolding assms(4) by (rule batch_ids_nth [OF c assms(3)])
  then show d: "r \<in> batch_dom (rn_batch rn)" by (auto simp: batch_dom_def)
  then have q: "rn_requests rn r = Some (request_of rn r)" using assms(1) by (auto simp: synced_def stands_for_def request_of_def)
  show "req_ids (rn_batch rn) ! i = Some r"
    "take (ib_num_tokens (rn_batch rn) ! i) (token_ids_cpu (rn_batch rn) ! i) = tokens_of spec rn r"
    "length (token_ids_cpu (rn_batch rn) ! i) = max_model_len (rn_batch rn)"
    "num_computed_tokens_cpu (rn_batch rn) ! i = cr_num_computed_tokens (request_of rn r)"
    using row_facts [OF assms(1) m q] by (simp_all add: tokens_of_def)
qed

lemma input_row:
  assumes "synced env {} spec rn" "holes (rn_batch rn) = {}" "inputs_ok bufs spec rn si" "i < num_reqs (rn_batch rn)"
    "r = batch_ids (rn_batch rn) ! i"
  shows "0 < count_of si r" "num_computed_tokens_cpu (rn_batch rn) ! i = int (computed_of rn r)"
    "computed_of rn r + count_of si r \<le> length (tokens_of spec rn r)"
    "computed_of rn r + count_of si r \<le> max_model_len (rn_batch rn)"
    "computed_of rn r + count_of si r \<le> length (hd (cr_block_ids (request_of rn r))) * ri_block_size bufs"
    "computed_of rn r + count_of si r \<le> ri_max_num_blocks_per_req bufs * ri_block_size bufs"
    "take (length (hd (cr_block_ids (request_of rn r)))) (ri_block_table bufs ! i) = hd (cr_block_ids (request_of rn r))"
proof -
  note row = batch_row [OF assms(1,2,4,5)]
  have req: "0 < count_of si r" "0 \<le> cr_num_computed_tokens (request_of rn r)"
    "computed_of rn r + count_of si r \<le> length (tokens_of spec rn r)"
    "computed_of rn r + count_of si r \<le> length (hd (cr_block_ids (request_of rn r))) * ri_block_size bufs"
    using assms(3) row(2) by (simp_all add: inputs_ok_def)
  show "0 < count_of si r" "computed_of rn r + count_of si r \<le> length (tokens_of spec rn r)"
    "computed_of rn r + count_of si r \<le> length (hd (cr_block_ids (request_of rn r))) * ri_block_size bufs" by (fact req)+
  show "num_computed_tokens_cpu (rn_batch rn) ! i = int (computed_of rn r)" using row(6) req(2) by (simp add: computed_of_def)
  have "length (tokens_of spec rn r) \<le> max_model_len (rn_batch rn)" using row(4,5) by (metis length_take min.cobounded1)
  then show "computed_of rn r + count_of si r \<le> max_model_len (rn_batch rn)" using req(3) by linarith
  show table: "take (length (hd (cr_block_ids (request_of rn r)))) (ri_block_table bufs ! i) = hd (cr_block_ids (request_of rn r))"
    using assms(3) row(1,2) by (auto simp: inputs_ok_def)
  have "length (ri_block_table bufs ! i) = ri_max_num_blocks_per_req bufs" using assms(3,4) by (simp add: inputs_ok_def buffers_ok_def)
  then have "length (hd (cr_block_ids (request_of rn r))) \<le> ri_max_num_blocks_per_req bufs"
    using arg_cong [OF table, of length] by simp
  then have "length (hd (cr_block_ids (request_of rn r))) * ri_block_size bufs \<le> ri_max_num_blocks_per_req bufs * ri_block_size bufs"
    by (rule mult_le_mono1)
  then show "computed_of rn r + count_of si r \<le> ri_max_num_blocks_per_req bufs * ri_block_size bufs" using req(4) by linarith
qed

text \<open>The assertions hold, and every row has its number of tokens.\<close>

lemma prepare_inputs_rows:
  assumes "synced env {} spec rn" "holes (rn_batch rn) = {}" "inputs_ok bufs spec rn si"
    "counts = map (count_of si) (batch_ids (rn_batch rn))"
  shows "\<exists>valid. prepare_inputs bufs (rn_batch rn) si (sum_list counts) = prepare_rows bufs (rn_batch rn) (sum_list counts) (counts, valid)"
proof -
  let ?B = "rn_batch rn" and ?ids = "batch_ids (rn_batch rn)"
  have c: "condensed ?B" using assms(1,2) by (simp add: synced_def updating_def condensed_def)
  note len = condensedD(5-7) [OF c]
  have ok: "0 < num_reqs ?B" "batch_dom ?B \<subseteq> scheduled si" using assms(3) by (simp_all add: inputs_ok_def)
  have ids: "req_ids ?B = map Some ?ids"
    using batch_row(3) [OF assms(1,2) _ refl] len by (intro nth_equalityI) simp_all
  have "map_of (si_num_scheduled_tokens si) r = Some (count_of si r)" if "r \<in> set ?ids" for r
  proof -
    have "r \<in> batch_dom ?B" using that in_batch_ids [OF c] by (auto simp: batch_dom_def)
    then have "map_of (si_num_scheduled_tokens si) r \<noteq> None" using ok(2) by (auto simp: map_of_eq_None_iff)
    then show ?thesis by (auto simp: count_of_def)
  qed
  from row_counts_ok [OF ids this]
  obtain valid where rows: "row_counts ?B si = Inr (counts, valid)" using assms(4) by blast
  have "count_of si (?ids ! 0) \<in> set counts" using ok(1) len(3) assms(4) by simp
  then have "count_of si (?ids ! 0) \<le> sum_list counts" by (rule member_le_sum_list) simp
  then have "0 < sum_list counts" using input_row(1) [OF assms(1-3) ok(1) refl] by linarith
  then show ?thesis using ok(1) rows by (intro exI [of _ valid]) (simp add: prepare_inputs_def)
qed

text \<open>The pieces of a row.\<close>

lemma token_piece:
  assumes "synced env {} spec rn" "holes (rn_batch rn) = {}" "inputs_ok bufs spec rn si" "i < num_reqs (rn_batch rn)"
    "r = batch_ids (rn_batch rn) ! i"
  shows "map (\<lambda>k. token_ids_cpu (rn_batch rn) ! i ! (computed_of rn r + k)) [0..<count_of si r] =
    slice (computed_of rn r) (computed_of rn r + count_of si r) (tokens_of spec rn r)"
proof -
  note row = batch_row [OF assms(1,2,4,5)] and fits = input_row [OF assms(1-5)]
  have "map (\<lambda>k. token_ids_cpu (rn_batch rn) ! i ! (computed_of rn r + k)) [0..<count_of si r] =
      map (\<lambda>k. tokens_of spec rn r ! (computed_of rn r + k)) [0..<count_of si r]"
  proof (rule map_cong)
    fix k assume "k \<in> set [0..<count_of si r]"
    then have "computed_of rn r + k < length (tokens_of spec rn r)" using fits(3) by simp
    then show "token_ids_cpu (rn_batch rn) ! i ! (computed_of rn r + k) = tokens_of spec rn r ! (computed_of rn r + k)"
      unfolding row(4) [symmetric] by simp
  qed simp
  then show ?thesis using slice_as_map [OF fits(3)] by simp
qed

lemma slot_piece:
  assumes "synced env {} spec rn" "holes (rn_batch rn) = {}" "inputs_ok bufs spec rn si" "i < num_reqs (rn_batch rn)"
    "r = batch_ids (rn_batch rn) ! i" "bs = ri_block_size bufs"
  shows "map (\<lambda>k. slot_of bs (ri_block_table bufs ! i) (computed_of rn r + k)) [0..<count_of si r] =
    map (\<lambda>k. slot_of bs (hd (cr_block_ids (request_of rn r))) (computed_of rn r + k)) [0..<count_of si r]"
proof (rule map_cong)
  note fits = input_row [OF assms(1-5)]
  fix k assume "k \<in> set [0..<count_of si r]"
  then have "(computed_of rn r + k) div bs < length (hd (cr_block_ids (request_of rn r)))"
    using fits(5) unfolding assms(6) by (intro less_mult_imp_div_less) simp
  then show "slot_of bs (ri_block_table bufs ! i) (computed_of rn r + k) =
      slot_of bs (hd (cr_block_ids (request_of rn r))) (computed_of rn r + k)"
    unfolding slot_of_def by (metis fits(7) nth_take)
qed simp

lemma prepare_inputs_ok:
  assumes "synced env {} spec rn" "holes (rn_batch rn) = {}" "inputs_ok bufs spec rn si"
    "n_tokens = sum_list (map (count_of si) (batch_ids (rn_batch rn)))"
  shows "\<exists>p. prepare_inputs bufs (rn_batch rn) si n_tokens = Inr p \<and>
    (let ids = batch_ids (rn_batch rn); n = count_of si; c = computed_of rn; bs = ri_block_size bufs in
     pi_counts p = map n ids \<and>
     pi_input_ids p = concat (map (\<lambda>r. slice (c r) (c r + n r) (tokens_of spec rn r)) ids) \<and>
     pi_positions p = concat (map (\<lambda>r. map (\<lambda>k. int (c r + k)) [0..<n r]) ids) \<and>
     pi_slot_mapping p = concat (map (\<lambda>r. map (\<lambda>k. slot_of bs (hd (cr_block_ids (request_of rn r))) (c r + k)) [0..<n r]) ids) \<and>
     pi_seq_lens p = map (\<lambda>r. int (c r + n r)) ids \<and>
     pi_query_start_loc p = 0 # cumulative (map n ids) \<and> pi_max_num_scheduled_tokens p = foldl max 0 (map n ids))"
proof -
  let ?B = "rn_batch rn" and ?ids = "batch_ids (rn_batch rn)" and ?n = "count_of si" and ?c = "computed_of rn"
  let ?counts = "map ?n ?ids" and ?bs = "ri_block_size bufs" and ?N = "num_reqs (rn_batch rn)"
  have c: "condensed ?B" using assms(1,2) by (simp add: synced_def updating_def condensed_def)
  have lc: "length ?counts = ?N" using condensedD(7) [OF c] by simp
  obtain valid where eq: "prepare_inputs bufs ?B si n_tokens = prepare_rows bufs ?B (sum_list ?counts) (?counts, valid)"
    using prepare_inputs_rows [OF assms(1-3) refl] assms(4) by auto
  have bufs: "buffers_ok bufs ?N ?counts" using assms(3) by (simp add: inputs_ok_def)
  have pre: "\<forall>i < ?N. num_computed_tokens_cpu ?B ! i = int (?c (?ids ! i)) \<and> ?c (?ids ! i) + ?counts ! i \<le> max_model_len ?B \<and>
      ?c (?ids ! i) + ?counts ! i \<le> ri_max_num_blocks_per_req bufs * ?bs"
    using input_row(2,4,6) [OF assms(1-3) _ refl] lc by simp
  have pieces: "map (\<lambda>(i, k). token_ids_cpu ?B ! i ! (?c (?ids ! i) + k)) (flat ?counts) =
      concat (map (\<lambda>r. slice (?c r) (?c r + ?n r) (tokens_of spec rn r)) ?ids)"
    "map (\<lambda>(i, k). int (?c (?ids ! i) + k)) (flat ?counts) = concat (map (\<lambda>r. map (\<lambda>k. int (?c r + k)) [0..<?n r]) ?ids)"
    "map (\<lambda>(i, k). slot_of ?bs (ri_block_table bufs ! i) (?c (?ids ! i) + k)) (flat ?counts) =
      concat (map (\<lambda>r. map (\<lambda>k. slot_of ?bs (hd (cr_block_ids (request_of rn r))) (?c r + k)) [0..<?n r]) ?ids)"
    "map (\<lambda>i. int (?c (?ids ! i) + ?counts ! i)) [0..<?N] = map (\<lambda>r. int (?c r + ?n r)) ?ids"
    using lc token_piece [OF assms(1-3) _ refl] slot_piece [OF assms(1-3) _ refl refl]
    by (intro concat_rows nth_equalityI; simp)+
  show ?thesis
    unfolding eq prepare_rows_ok [OF c lc bufs pre] pieces Let_def by simp
qed

text \<open>
  C6. The model's input: for a batch in step with its requests, \<^verbatim>\<open>_prepare_inputs\<close> succeeds, and its
  vectorised arithmetic yields, request by request in batch order, the scheduled slice of the request's
  tokens (prompt, output and draft tokens), their positions, and the slots of these positions in the request's
  own cache blocks, with the sequence lengths and the start of each request's part.
\<close>

theorem prepare_inputs_correct:
  assumes "synced env {} spec rn" "holes (rn_batch rn) = {}" "inputs_ok bufs spec rn si"
    "n_tokens = sum_list (map (count_of si) (batch_ids (rn_batch rn)))"
  shows "\<exists>p. prepare_inputs bufs (rn_batch rn) si n_tokens = Inr p \<and>
    (let ids = batch_ids (rn_batch rn); n = count_of si; c = computed_of rn; bs = ri_block_size bufs in
     pi_counts p = map n ids \<and>
     pi_input_ids p = concat (map (\<lambda>r. slice (c r) (c r + n r) (tokens_of spec rn r)) ids) \<and>
     pi_positions p = concat (map (\<lambda>r. map (\<lambda>k. int (c r + k)) [0..<n r]) ids) \<and>
     pi_slot_mapping p = concat (map (\<lambda>r. map (\<lambda>k. slot_of bs (hd (cr_block_ids (request_of rn r))) (c r + k)) [0..<n r]) ids) \<and>
     pi_seq_lens p = map (\<lambda>r. int (c r + n r)) ids \<and>
     pi_query_start_loc p = 0 # cumulative (map n ids))"
  using prepare_inputs_ok [OF assms] by (auto simp: Let_def)

subsection \<open>The logits of a step with draft tokens\<close>

lemma flat_Suc_bound: "i < length ds \<Longrightarrow> k < ds ! i \<Longrightarrow> offset (map Suc ds) i + Suc k < sum_list (map Suc ds)"
  using offset_bound [of i "map Suc ds" "Suc k"] by simp

lemma cumulative_starts:
  assumes "length ns = length counts" "\<And>i. i < length counts \<Longrightarrow> ns ! i \<le> counts ! i"
  shows "bcast ValueError (\<lambda>c n. int c - int n) (cumulative counts) ns = Inr (map (\<lambda>i. int (offset counts (Suc i) - ns ! i)) [0..<length counts])"
proof -
  have "ns ! i \<le> offset counts (Suc i)" if "i < length counts" for i
    using assms(2) [OF that] offset_Suc [OF that] by simp
  then have "map2 (\<lambda>c n. int c - int n) (cumulative counts) ns = map (\<lambda>i. int (offset counts (Suc i) - ns ! i)) [0..<length counts]"
    using assms(1) by (intro nth_equalityI) (simp_all add: cumulative_def of_nat_diff)
  then show ?thesis using assms(1) by (simp add: bcast_def)
qed

lemma calc_spec_decode_metadata_ok:
  assumes "ds \<noteq> []" "length ds = length counts" "\<And>i. i < length counts \<Longrightarrow> ds ! i < counts ! i"
    "sum_list counts \<le> ri_arange_len bufs" "length input_ids = sum_list counts"
  shows "calc_spec_decode_metadata bufs ds (cumulative counts) input_ids = Inr
    \<lparr>sd_draft_token_ids = map (\<lambda>(i, k). input_ids ! (offset counts (Suc i) - ds ! i + k)) (flat ds),
     sd_num_draft_tokens = ds, sd_cu_num_draft_tokens = cumulative ds,
     sd_target_logits_indices = map (\<lambda>(i, k). int (offset (map Suc ds) i + k)) (flat ds),
     sd_bonus_logits_indices = map (\<lambda>c. int c - 1) (cumulative (map Suc ds)),
     sd_logits_indices = map (\<lambda>(i, k). int (offset counts (Suc i) - Suc (ds ! i) + k)) (flat (map Suc ds))\<rparr>"
proof -
  let ?ss = "map Suc ds"
  have le: "sum_list (map Suc ds) \<le> sum_list counts"
  proof -
    have "sum_list (map Suc ds) = (\<Sum>i < length counts. Suc (ds ! i))" using assms(2) by (simp add: sum_list_sum_nth lessThan_atLeast0)
    also have "\<dots> \<le> (\<Sum>i < length counts. counts ! i)" by (rule sum_mono) (use assms(3) in \<open>simp add: Suc_leI\<close>)
    also have "\<dots> = sum_list counts" by (simp add: sum_list_sum_nth lessThan_atLeast0)
    finally show ?thesis .
  qed
  have le': "sum_list ds \<le> sum_list ?ss" by (induction ds) auto
  have ar: "bcast ValueError (-) (arange_np bufs (last (cumulative ?ss))) (repeat_interleave (map2 (\<lambda>c n. int c - int n) (cumulative ?ss) ?ss) ?ss) =
      Inr (map (\<lambda>(i, k). int k) (flat ?ss))"
    using arange_flat [of ?ss bufs] last_cumulative [of ?ss] assms(1,4) le by simp
  have ar': "bcast ValueError (-) (arange_np bufs (last (cumulative ds))) (repeat_interleave (map2 (\<lambda>c n. int c - int n) (cumulative ds) ds) ds) =
      Inr (map (\<lambda>(i, k). int k) (flat ds))"
    using arange_flat [of ds bufs] last_cumulative [of ds] assms(1,4) le le' by simp
  have ne: "cumulative ?ss \<noteq> []" "cumulative ds \<noteq> []" using assms(1) by (simp_all add: cumulative_def)
  have st: "bcast ValueError (\<lambda>c n. int c - int n) (cumulative counts) ?ss =
      Inr (map (\<lambda>i. int (offset counts (Suc i) - Suc (ds ! i))) [0..<length ds])"
    using cumulative_starts [of ?ss counts] assms(2,3) by (simp add: Suc_leI)
  have st': "map2 (\<lambda>c n. int c - int n) (cumulative ?ss) ?ss = map (\<lambda>i. int (offset ?ss i)) [0..<length ds]"
    using cumulative_start [of ?ss] by simp
  have rep: "repeat_interleave (map (\<lambda>i. int (offset counts (Suc i) - Suc (ds ! i))) [0..<length ds]) ?ss =
      map (\<lambda>(i, k). int (offset counts (Suc i) - Suc (ds ! i))) (flat ?ss)"
    by (subst repeat_flat) (auto simp: set_flat)
  have rep': "repeat_interleave (map (\<lambda>i. int (offset ?ss i)) [0..<length ds]) ds = map (\<lambda>(i, k). int (offset ?ss i)) (flat ds)"
    by (subst repeat_flat) (auto simp: set_flat)
  have add: "bcast ValueError (+) (map f (flat ns)) (map h (flat ns)) = Inr (map (\<lambda>p. f p + h p) (flat ns))" for f h :: "nat \<times> nat \<Rightarrow> int" and ns
    by (simp add: bcast_def map2_flat)
  have logits: "(\<lambda>p. (case p of (i, k) \<Rightarrow> int (offset counts (Suc i) - Suc (ds ! i))) + (case p of (i, k) \<Rightarrow> int k)) =
      (\<lambda>(i, k). int (offset counts (Suc i) - Suc (ds ! i) + k))"
    "(\<lambda>p. (case p of (i, k) \<Rightarrow> int (offset ?ss i)) + (case p of (i, k) \<Rightarrow> int k)) = (\<lambda>(i, k). int (offset ?ss i + k))"
    by auto
  have bound: "offset counts (Suc i) - Suc (ds ! i) + k < length input_ids" if "i < length ds" "k < Suc (ds ! i)" for i k
  proof -
    have "offset counts (Suc i) \<le> sum_list counts" "Suc (ds ! i) \<le> offset counts (Suc i)"
      using offset_le [of i counts] offset_Suc [of i counts] assms(2) assms(3) [of i] that by auto
    then show ?thesis using that(2) assms(5) by simp
  qed
  have ids: "res_map (list_item input_ids) (map (\<lambda>(i, k). int (offset counts (Suc i) - Suc (ds ! i) + k)) (flat ?ss)) =
      Inr (map (\<lambda>(i, k). input_ids ! (offset counts (Suc i) - Suc (ds ! i) + k)) (flat ?ss))"
    using bound by (auto simp: res_map_eq_Inr list_all2_map1 list_all2_map2 list_all2_same set_flat simp flip: of_nat_add)
  have drafts: "res_map (\<lambda>t. list_item (map (\<lambda>(i, k). input_ids ! (offset counts (Suc i) - Suc (ds ! i) + k)) (flat ?ss)) (t + 1))
        (map (\<lambda>(i, k). int (offset ?ss i + k)) (flat ds)) =
      Inr (map (\<lambda>(i, k). input_ids ! (offset counts (Suc i) - ds ! i + k)) (flat ds))"
  proof -
    have "list_item (map (\<lambda>(i, k). input_ids ! (offset counts (Suc i) - Suc (ds ! i) + k)) (flat ?ss)) (int (offset ?ss i + k) + 1) =
        Inr (input_ids ! (offset counts (Suc i) - ds ! i + k))" if "(i, k) \<in> set (flat ds)" for i k
    proof -
      have i: "i < length ds" "k < ds ! i" using that by (simp_all add: set_flat)
      have e: "int (offset ?ss i + k) + 1 = int (offset ?ss i + Suc k)" by simp
      have lt: "offset ?ss i + Suc k < length (map (\<lambda>(i, k). input_ids ! (offset counts (Suc i) - Suc (ds ! i) + k)) (flat ?ss))"
        using flat_Suc_bound [OF i] by simp
      have "Suc (ds ! i) \<le> offset counts (Suc i)" using offset_Suc [of i counts] assms(2) assms(3) [of i] i(1) by simp
      then have "offset counts (Suc i) - Suc (ds ! i) + Suc k = offset counts (Suc i) - ds ! i + k" by simp
      moreover have "map (\<lambda>(i, k). input_ids ! (offset counts (Suc i) - Suc (ds ! i) + k)) (flat ?ss) ! (offset ?ss i + Suc k) =
          input_ids ! (offset counts (Suc i) - Suc (ds ! i) + Suc k)"
        using nth_flat [of i ?ss "Suc k" "\<lambda>(i, k). input_ids ! (offset counts (Suc i) - Suc (ds ! i) + k)"] i by simp
      ultimately show ?thesis unfolding e list_item_nat [OF lt] by (simp only:)
    qed
    then show ?thesis by (auto simp: res_map_eq_Inr list_all2_map1 list_all2_map2 list_all2_same)
  qed
  have g: "get_cumsum_and_arange bufs ?ss = Inr (cumulative ?ss, map (\<lambda>(i, k). int k) (flat ?ss))"
    "get_cumsum_and_arange bufs ds = Inr (cumulative ds, map (\<lambda>(i, k). int k) (flat ds))"
    using ne by (simp_all only: get_cumsum_and_arange_def Let_def if_False ar ar' res_bind_Inr)
  show ?thesis
    by (simp only: calc_spec_decode_metadata_def Let_def g st st' rep rep' add logits ids drafts res_bind_Inr prod.case)
qed

text \<open>The numbers of draft tokens, row by row.\<close>

lemma num_draft_tokens_ok:
  assumes "condensed B" "distinct (map fst D)" "fst ` set D \<subseteq> set (batch_ids B)"
  shows "res_foldl (\<lambda>ds (r, ts). res_bind (dict_item (req_id_to_index B) r) (\<lambda>i.
         if i < length ds then Inr (ds[i := length ts]) else Inl IndexError)) (replicate (num_reqs B) 0) D =
    Inr (map (\<lambda>r. case map_of D r of None \<Rightarrow> 0 | Some ts \<Rightarrow> length ts) (batch_ids B))"
  using assms(2,3)
proof (induction D rule: rev_induct)
  case Nil
  then show ?case using condensedD(7) [OF assms(1)] by (simp add: map_replicate_const)
next
  case (snoc x D)
  obtain r ts where x: "x = (r, ts)" by (cases x)
  have r: "r \<in> set (batch_ids B)" "r \<notin> fst ` set D" using snoc.prems x by auto
  obtain i where i: "i < num_reqs B" "batch_ids B ! i = r" using r(1) condensedD(7) [OF assms(1)] by (auto simp: in_set_conv_nth)
  have m: "map_of (req_id_to_index B) r = Some i" using batch_ids_nth [OF assms(1) i(1)] i(2) by simp
  have inj: "batch_ids B ! j = r \<longleftrightarrow> j = i" if "j < num_reqs B" for j
    using batch_ids_nth [OF assms(1) that] m i(2) by (metis option.inject)
  let ?f = "\<lambda>D r. case map_of D r of None \<Rightarrow> 0 | Some ts \<Rightarrow> length ts"
  have "(map (?f D) (batch_ids B))[i := length ts] = map (?f (D @ [(r, ts)])) (batch_ids B)"
  proof (rule nth_equalityI)
    fix j assume "j < length ((map (?f D) (batch_ids B))[i := length ts])"
    then have j: "j < num_reqs B" using condensedD(7) [OF assms(1)] by simp
    then show "(map (?f D) (batch_ids B))[i := length ts] ! j = map (?f (D @ [(r, ts)])) (batch_ids B) ! j"
    proof (cases "j = i")
      case True
      have "map_of D r = None" using r(2) by (simp add: map_of_eq_None_iff)
      then show ?thesis using True j i(2) condensedD(7) [OF assms(1)] by (simp add: map_add_def)
    next
      case False
      then have "batch_ids B ! j \<noteq> r" using inj [OF j] by simp
      then show ?thesis using False j condensedD(7) [OF assms(1)] by (cases "map_of D (batch_ids B ! j)") (simp_all add: map_add_def)
    qed
  qed simp
  moreover have "res_foldl (\<lambda>ds (r, ts). res_bind (dict_item (req_id_to_index B) r) (\<lambda>i.
         if i < length ds then Inr (ds[i := length ts]) else Inl IndexError)) (replicate (num_reqs B) 0) D = Inr (map (?f D) (batch_ids B))"
    by (rule snoc.IH) (use snoc.prems in auto)
  moreover have "i < length (batch_ids B)" using i(1) condensedD(7) [OF assms(1)] by simp
  ultimately show ?case using m unfolding x by (simp add: res_foldl_append)
qed

lemma sum_list_Suc: "sum_list (map Suc ds) = sum_list ds + length ds"
  by (induction ds) auto

lemma concat_slices:
  assumes "\<And>i. i < length ds \<Longrightarrow> xs ! i = map (f i) [0..<ds ! i]" "length xs = length ds"
  shows "map (\<lambda>(i, k). f i k) (flat ds) = concat xs"
  using concat_rows [of xs ds f "\<lambda>x. x"] assms by simp

text \<open>The three index vectors, request by request.\<close>

lemma logits_selected:
  assumes "length ds = length counts" "\<And>i. i < length counts \<Longrightarrow> ds ! i < counts ! i"
    "logits = map (\<lambda>(i, k). int (offset counts (Suc i) - Suc (ds ! i) + k)) (flat (map Suc ds))"
  shows "logits = concat (map (\<lambda>i. map int [offset counts (Suc i) - Suc (ds ! i)..<offset counts (Suc i)]) [0..<length ds])"
    "map (\<lambda>t. logits ! nat t) (map (\<lambda>(i, k). int (offset (map Suc ds) i + k)) (flat ds)) =
      concat (map (\<lambda>i. map int [offset counts (Suc i) - Suc (ds ! i)..<offset counts (Suc i) - 1]) [0..<length ds])"
    "map (\<lambda>t. logits ! nat t) (map (\<lambda>c. int c - 1) (cumulative (map Suc ds))) = map (\<lambda>i. int (offset counts (Suc i) - 1)) [0..<length ds]"
proof -
  let ?ss = "map Suc ds" and ?stop = "\<lambda>i. offset counts (Suc i)"
  have room: "Suc (ds ! i) \<le> ?stop i" if "i < length ds" for i
    using assms(2) [of i] offset_Suc [of i counts] that assms(1) by simp
  have logits: "logits ! (offset ?ss i + k) = int (?stop i - Suc (ds ! i) + k)" if "i < length ds" "k \<le> ds ! i" for i k
    unfolding assms(3) using nth_flat [of i ?ss k "\<lambda>(i, k). int (?stop i - Suc (ds ! i) + k)"] that by simp
  show "logits = concat (map (\<lambda>i. map int [?stop i - Suc (ds ! i)..<?stop i]) [0..<length ds])"
    unfolding assms(3)
  proof (rule concat_slices)
    fix i assume i: "i < length ?ss"
    show "map (\<lambda>i. map int [?stop i - Suc (ds ! i)..<?stop i]) [0..<length ds] ! i = map (\<lambda>k. int (?stop i - Suc (ds ! i) + k)) [0..<?ss ! i]"
      using i room [of i] by (intro nth_equalityI) (simp_all del: upt_Suc)
  qed simp
  have "map (\<lambda>t. logits ! nat t) (map (\<lambda>(i, k). int (offset ?ss i + k)) (flat ds)) = map (\<lambda>(i, k). int (?stop i - Suc (ds ! i) + k)) (flat ds)"
    by (auto simp: set_flat simp flip: of_nat_add intro: logits)
  also have "\<dots> = concat (map (\<lambda>i. map int [?stop i - Suc (ds ! i)..<?stop i - 1]) [0..<length ds])"
  proof (rule concat_slices)
    fix i assume i: "i < length ds"
    show "map (\<lambda>i. map int [?stop i - Suc (ds ! i)..<?stop i - 1]) [0..<length ds] ! i = map (\<lambda>k. int (?stop i - Suc (ds ! i) + k)) [0..<ds ! i]"
      using i room [of i] by (intro nth_equalityI) simp_all
  qed simp
  finally show "map (\<lambda>t. logits ! nat t) (map (\<lambda>(i, k). int (offset ?ss i + k)) (flat ds)) =
      concat (map (\<lambda>i. map int [?stop i - Suc (ds ! i)..<?stop i - 1]) [0..<length ds])" .
  show "map (\<lambda>t. logits ! nat t) (map (\<lambda>c. int c - 1) (cumulative ?ss)) = map (\<lambda>i. int (?stop i - 1)) [0..<length ds]"
  proof (rule nth_equalityI)
    fix i assume "i < length (map (\<lambda>t. logits ! nat t) (map (\<lambda>c. int c - 1) (cumulative ?ss)))"
    then have i: "i < length ds" by simp
    have "logits ! (offset ?ss i + ds ! i) = int (?stop i - 1)" using logits [OF i order_refl] room [OF i] by simp
    moreover have "nat (int (cumulative ?ss ! i) - 1) = offset ?ss i + ds ! i"
      using i offset_Suc [of i ?ss] by (simp add: cumulative_def)
    ultimately show "map (\<lambda>t. logits ! nat t) (map (\<lambda>c. int c - 1) (cumulative ?ss)) ! i = map (\<lambda>i. int (?stop i - 1)) [0..<length ds] ! i"
      using i by simp
  qed simp
qed

text \<open>
  The input is made of slices of rows; \<open>toks i\<close> is a row, \<open>first i\<close> the start of its slice. When the slice reaches the end of
  the row, the last tokens of the slice are the last ones of the row.
\<close>

lemma drafts_read_back:
  assumes "length ds = length counts" "\<And>i. i < length counts \<Longrightarrow> ds ! i < counts ! i"
    "input_ids = map (\<lambda>(i, k). toks i ! (first i + k)) (flat counts)"
    "\<And>i. i < length counts \<Longrightarrow> \<exists>known. toks i = known @ drafts i \<and> length (drafts i) = ds ! i \<and>
       (drafts i \<noteq> [] \<longrightarrow> first i + counts ! i = length (toks i))"
  shows "map (\<lambda>(i, k). input_ids ! (offset counts (Suc i) - ds ! i + k)) (flat ds) = concat (map drafts [0..<length ds])"
proof (rule concat_slices)
  fix i assume i: "i < length ds"
  then have i': "i < length counts" using assms(1) by simp
  obtain known where k: "toks i = known @ drafts i" "length (drafts i) = ds ! i"
    "drafts i \<noteq> [] \<longrightarrow> first i + counts ! i = length (toks i)" using assms(4) [OF i'] by blast
  show "map drafts [0..<length ds] ! i = map (\<lambda>k. input_ids ! (offset counts (Suc i) - ds ! i + k)) [0..<ds ! i]"
  proof (rule nth_equalityI)
    show "length (map drafts [0..<length ds] ! i) = length (map (\<lambda>k. input_ids ! (offset counts (Suc i) - ds ! i + k)) [0..<ds ! i])"
      using i k(2) by simp
    fix j assume "j < length (map drafts [0..<length ds] ! i)"
    then have j: "j < ds ! i" using i k(2) by simp
    then have all: "first i + counts ! i = length known + ds ! i" using k by fastforce
    have pos: "offset counts (Suc i) - ds ! i + j = offset counts i + (counts ! i - ds ! i + j)"
      using offset_Suc [OF i'] assms(2) [OF i'] by simp
    have lt: "counts ! i - ds ! i + j < counts ! i" using assms(2) [OF i'] j by simp
    have "input_ids ! (offset counts (Suc i) - ds ! i + j) = toks i ! (first i + (counts ! i - ds ! i + j))"
      unfolding assms(3) pos nth_flat [OF i' lt] prod.case ..
    also have "first i + (counts ! i - ds ! i + j) = length known + j" using all assms(2) [OF i'] by simp
    also have "toks i ! \<dots> = drafts i ! j" unfolding k(1) by simp
    finally show "map drafts [0..<length ds] ! i ! j = map (\<lambda>k. input_ids ! (offset counts (Suc i) - ds ! i + k)) [0..<ds ! i] ! j"
      using i j by simp
  qed
qed simp

text \<open>
  C28. The logits of speculative decoding: after \<^verbatim>\<open>_prepare_inputs\<close>, when every draft token of the step is in
  its row (the request was in the batch before) behind all known tokens of the request, the draft tokens that go to the
  rejection sampler are the scheduled ones in batch order with their numbers; the logits that are
  kept are, for each request, those of its last token and of its draft tokens, the target indices
  select all of these but the last one and the bonus indices the last one.
\<close>

theorem spec_decode_metadata_correct:
  assumes "synced env {} spec rn" "holes (rn_batch rn) = {}" "inputs_ok bufs spec rn si"
    "prepare_inputs bufs (rn_batch rn) si (sum_list (map (count_of si) (batch_ids (rn_batch rn)))) = Inr p"
    "si_scheduled_spec_decode_tokens si \<noteq> []" "distinct (map fst (si_scheduled_spec_decode_tokens si))"
    "fst ` set (si_scheduled_spec_decode_tokens si) \<subseteq> batch_dom (rn_batch rn)"
    "\<And>r. r \<in> batch_dom (rn_batch rn) \<Longrightarrow> spec r = spec_tokens_of si r \<and>
       (spec r \<noteq> [] \<longrightarrow> length (spec r) < count_of si r \<and> computed_of rn r + count_of si r = length (tokens_of spec rn r))"
    "counts = map (count_of si) (batch_ids (rn_batch rn))" "ds = map (\<lambda>r. length (spec r)) (batch_ids (rn_batch rn))"
  shows "\<exists>m. logits_indices_of bufs (rn_batch rn) si p = Inr (sd_logits_indices m, Some m) \<and>
    sd_draft_token_ids m = concat (map spec (batch_ids (rn_batch rn))) \<and>
    sd_num_draft_tokens m = ds \<and> sd_cu_num_draft_tokens m = cumulative ds \<and>
    sd_logits_indices m = concat (map (\<lambda>i. map int [offset counts (Suc i) - Suc (ds ! i)..<offset counts (Suc i)]) [0..<length ds]) \<and>
    map (\<lambda>t. sd_logits_indices m ! nat t) (sd_target_logits_indices m) =
      concat (map (\<lambda>i. map int [offset counts (Suc i) - Suc (ds ! i)..<offset counts (Suc i) - 1]) [0..<length ds]) \<and>
    map (\<lambda>t. sd_logits_indices m ! nat t) (sd_bonus_logits_indices m) = map (\<lambda>i. int (offset counts (Suc i) - 1)) [0..<length ds]"
proof -
  let ?B = "rn_batch rn" and ?ids = "batch_ids (rn_batch rn)"
  have c: "condensed ?B" using assms(1,2) by (simp add: synced_def updating_def condensed_def)
  have n: "length ?ids = num_reqs ?B" "0 < num_reqs ?B" using condensedD(7) [OF c] assms(3) by (simp_all add: inputs_ok_def)
  have dom: "r \<in> set ?ids \<longleftrightarrow> r \<in> batch_dom ?B" for r using in_batch_ids [OF c] by (auto simp: batch_dom_def)
  note row = batch_row [OF assms(1,2) _ refl] and fits = input_row [OF assms(1-3) _ refl]
  have len: "length ds = length counts" "length counts = num_reqs ?B" "ds \<noteq> []" using assms(9,10) n by auto
  have at: "counts ! i = count_of si (?ids ! i)" "ds ! i = length (spec (?ids ! i))" if "i < length counts" for i
    using that n(1) len(2) by (simp_all add: assms(9,10))
  have small: "ds ! i < counts ! i" if "i < length counts" for i
    using assms(8) [OF row(2) [of i]] fits(1) [of i] at [OF that] that len(2) by (cases "spec (?ids ! i) = []") auto
  have p: "pi_query_start_loc p = 0 # cumulative counts"
    "pi_input_ids p = concat (map (\<lambda>r. slice (computed_of rn r) (computed_of rn r + count_of si r) (tokens_of spec rn r)) ?ids)"
    using prepare_inputs_ok [OF assms(1-3) refl] assms(4,9) by (auto simp: Let_def)
  have flat_ids: "pi_input_ids p = map (\<lambda>(i, k). tokens_of spec rn (?ids ! i) ! (computed_of rn (?ids ! i) + k)) (flat counts)"
    unfolding p(2)
    by (rule concat_slices [symmetric]) (use slice_as_map [OF fits(3)] at(1) len(2) n(1) in \<open>simp_all add: assms(9)\<close>)
  have ds: "num_draft_tokens_of ?B si = Inr ds"
  proof -
    have "map (\<lambda>r. case map_of (si_scheduled_spec_decode_tokens si) r of None \<Rightarrow> 0 | Some ts \<Rightarrow> length ts) ?ids = ds"
      unfolding assms(10) using assms(8) dom by (auto simp: spec_tokens_of_def split: option.split)
    then show ?thesis
      using num_draft_tokens_ok [OF c assms(6)] assms(7) dom by (simp add: num_draft_tokens_of_def subset_iff)
  qed
  have total: "sum_list counts \<le> ri_arange_len bufs" using assms(3,9) by (simp add: inputs_ok_def buffers_ok_def)
  have lp: "length (pi_input_ids p) = sum_list counts" by (simp add: flat_ids)
  note meta = calc_spec_decode_metadata_ok [OF len(3,1) small total lp]
  have drafts: "map (\<lambda>(i, k). pi_input_ids p ! (offset counts (Suc i) - ds ! i + k)) (flat ds) = concat (map spec ?ids)"
  proof -
    have "\<exists>known. tokens_of spec rn (?ids ! i) = known @ spec (?ids ! i) \<and> length (spec (?ids ! i)) = ds ! i \<and>
        (spec (?ids ! i) \<noteq> [] \<longrightarrow> computed_of rn (?ids ! i) + counts ! i = length (tokens_of spec rn (?ids ! i)))"
      if "i < length counts" for i
      using assms(8) [OF row(2) [of i]] at [OF that] that len(2)
      by (intro exI [of _ "cr_prompt_token_ids (request_of rn (?ids ! i)) @ cr_output_token_ids (request_of rn (?ids ! i))"])
        (simp add: tokens_of_def)
    moreover have "map (\<lambda>i. spec (?ids ! i)) [0..<length ds] = map spec ?ids" using len n by (intro nth_equalityI) simp_all
    ultimately show ?thesis using drafts_read_back [OF len(1) small flat_ids, of "\<lambda>i. spec (?ids ! i)"] by simp
  qed
  obtain m where m: "calc_spec_decode_metadata bufs ds (cumulative counts) (pi_input_ids p) = Inr m"
    "sd_draft_token_ids m = concat (map spec ?ids)" "sd_num_draft_tokens m = ds" "sd_cu_num_draft_tokens m = cumulative ds"
    "sd_target_logits_indices m = map (\<lambda>(i, k). int (offset (map Suc ds) i + k)) (flat ds)"
    "sd_bonus_logits_indices m = map (\<lambda>c. int c - 1) (cumulative (map Suc ds))"
    "sd_logits_indices m = map (\<lambda>(i, k). int (offset counts (Suc i) - Suc (ds ! i) + k)) (flat (map Suc ds))"
    by (rule that [OF meta]) (simp_all add: drafts)
  have "logits_indices_of bufs ?B si p = Inr (sd_logits_indices m, Some m)"
    using assms(5) ds m(1) by (simp add: logits_indices_of_def p(1))
  moreover note logits_selected [OF len(1) small m(7)]
  ultimately show ?thesis using m(2-4) unfolding m(5,6) [symmetric] by blast
qed

subsection \<open>The second step of the small run\<close>

definition second_updated :: "(list_builder, nat \<Rightarrow> int list list, unit, unit) runner" where
  "second_updated = (case start_step list_runner_env after_first second_input of Some (Inr rn) \<Rightarrow> rn | _ \<Rightarrow> demo_runner)"

definition demo_buffers :: input_buffers where
  "demo_buffers =
     \<lparr>ri_max_num_tokens = 8, ri_arange_len = 8, ri_max_num_blocks_per_req = 2, ri_block_size = 2,
      ri_block_table = [[7, 8], [7, 0], [0, 0]]\<rparr>"

lemma second_updated_facts:
  "map_option (\<lambda>q. (cr_prompt_token_ids q, cr_output_token_ids q, cr_num_computed_tokens q, cr_block_ids q))
     (rn_requests second_updated ''a'') = Some ([1, 2], [3], 2, [[7, 8]])"
  "map_option (\<lambda>q. (cr_prompt_token_ids q, cr_output_token_ids q, cr_num_computed_tokens q, cr_block_ids q))
     (rn_requests second_updated ''b'') = Some ([1, 2], [], 1, [[7]])"
  "batch_ids (rn_batch second_updated) = [''a'', ''b'']" "num_reqs (rn_batch second_updated) = 2"
  "req_id_to_index (rn_batch second_updated) = [(''a'', 0), (''b'', 1)]"
  by code_simp+

lemma second_updated_synced:
  "synced list_runner_env {} (step_spec after_first second_input) second_updated" "holes (rn_batch second_updated) = {}"
  "batch_dom (rn_batch second_updated) = {''a'', ''b''}"
proof -
  obtain rn1 where u: "start_step list_runner_env after_first second_input = Some (Inr rn1)"
    "synced list_runner_env {} (step_spec after_first second_input) rn1" "holes (rn_batch rn1) = {}"
    "batch_dom (rn_batch rn1) = scheduled second_input"
    using list_runner.start_step_ok [OF first_step(2) _ second_ok] by (auto simp: list_runner_env_def)
  then have "second_updated = rn1" by (simp add: second_updated_def)
  then show "synced list_runner_env {} (step_spec after_first second_input) second_updated"
    "holes (rn_batch second_updated) = {}" "batch_dom (rn_batch second_updated) = {''a'', ''b''}"
    using u by (simp_all add: second_input_def)
qed

lemma second_spec:
  "step_spec after_first second_input ''a'' = [2]" "step_spec after_first second_input ''b'' = []"
  "spec_tokens_of second_input ''a'' = [2]" "spec_tokens_of second_input ''b'' = []"
  using first_step(3) by (simp_all add: step_spec_def second_input_def spec_tokens_of_def)

lemma second_requests:
  "cr_prompt_token_ids (request_of second_updated ''a'') = [1, 2]" "cr_output_token_ids (request_of second_updated ''a'') = [3]"
  "cr_num_computed_tokens (request_of second_updated ''a'') = 2" "cr_block_ids (request_of second_updated ''a'') = [[7, 8]]"
  "cr_prompt_token_ids (request_of second_updated ''b'') = [1, 2]" "cr_output_token_ids (request_of second_updated ''b'') = []"
  "cr_num_computed_tokens (request_of second_updated ''b'') = 1" "cr_block_ids (request_of second_updated ''b'') = [[7]]"
  using second_updated_facts(1,2) by (auto simp: request_of_def)

lemma second_counts: "count_of second_input ''a'' = 2" "count_of second_input ''b'' = 1"
  by (simp_all add: count_of_def second_input_def)

lemma second_tokens:
  "tokens_of (step_spec after_first second_input) second_updated ''a'' = [1, 2, 3, 2]"
  "tokens_of (step_spec after_first second_input) second_updated ''b'' = [1, 2]"
  "computed_of second_updated ''a'' = 2" "computed_of second_updated ''b'' = 1"
  by (simp_all add: tokens_of_def computed_of_def second_requests second_spec)

lemma second_inputs_ok: "inputs_ok demo_buffers (step_spec after_first second_input) second_updated second_input"
proof -
  have "batch_dom (rn_batch second_updated) \<subseteq> scheduled second_input"
    using second_updated_synced(3) by (simp add: second_input_def)
  then show ?thesis
    by (simp add: inputs_ok_def buffers_ok_def demo_buffers_def second_updated_facts second_updated_synced(3) second_counts
        second_requests second_tokens)
qed

theorem prepare_inputs_correct_witness:
  "\<exists>p. prepare_inputs demo_buffers (rn_batch second_updated) second_input 3 = Inr p \<and>
     pi_input_ids p = [3, 2, 2] \<and> pi_positions p = [2, 3, 1] \<and> pi_slot_mapping p = [16, 17, 15]"
proof -
  have n: "3 = sum_list (map (count_of second_input) (batch_ids (rn_batch second_updated)))"
    by (simp add: second_updated_facts second_counts)
  have two: "[0..<2] = [0, 1 :: nat]" by (simp add: numeral_2_eq_2)
  show ?thesis
    using prepare_inputs_correct [OF second_updated_synced(1,2) second_inputs_ok n]
    by (auto simp: Let_def second_updated_facts second_counts second_tokens second_requests slice_def slot_of_def demo_buffers_def two)
qed

theorem spec_decode_metadata_correct_witness:
  "\<exists>p m. logits_indices_of demo_buffers (rn_batch second_updated) second_input p = Inr ([0, 1, 2], Some m) \<and>
     sd_draft_token_ids m = [2] \<and> sd_num_draft_tokens m = [1, 0]"
proof -
  let ?spec = "step_spec after_first second_input"
  have n: "sum_list (map (count_of second_input) (batch_ids (rn_batch second_updated))) = 3"
    by (simp add: second_updated_facts second_counts)
  obtain p where p: "prepare_inputs demo_buffers (rn_batch second_updated) second_input 3 = Inr p"
    by (rule that [of "case prepare_inputs demo_buffers (rn_batch second_updated) second_input 3 of Inr p \<Rightarrow> p"]) code_simp
  have si: "si_scheduled_spec_decode_tokens second_input \<noteq> []" "distinct (map fst (si_scheduled_spec_decode_tokens second_input))"
    "fst ` set (si_scheduled_spec_decode_tokens second_input) \<subseteq> batch_dom (rn_batch second_updated)"
    using second_updated_synced(3) by (simp_all add: second_input_def)
  have spec: "?spec r = spec_tokens_of second_input r \<and>
      (?spec r \<noteq> [] \<longrightarrow> length (?spec r) < count_of second_input r \<and>
        computed_of second_updated r + count_of second_input r = length (tokens_of ?spec second_updated r))"
    if "r \<in> batch_dom (rn_batch second_updated)" for r
    using that unfolding second_updated_synced(3) by (auto simp: second_spec second_counts second_tokens)
  have two: "[0..<2] = [0, 1 :: nat]" by (simp add: numeral_2_eq_2)
  show ?thesis
    using spec_decode_metadata_correct [OF second_updated_synced(1,2) second_inputs_ok p [folded n] si spec refl refl]
    by (intro exI [of _ p]) (auto simp: second_updated_facts second_counts second_spec two numeral_2_eq_2 upt_rec)
qed

end
