(* ===== verification/Mla_Metadata.thy ===== *)
theory Mla_Metadata
  imports Runner_Inputs
begin

section \<open>The metadata of multi-head latent attention\<close>

text \<open>
  \<^verbatim>\<open>split_decodes_and_prefills\<close> of \<^verbatim>\<open>vllm_ascend/attention/utils.py\<close> and \<^verbatim>\<open>AscendMLAMetadataBuilder\<close> of
  \<^verbatim>\<open>vllm_ascend/attention/mla_v1.py\<close>: the batch is cut into decode and prefill requests, and the computed
  context of the prefills into chunks that fit the workspace. Tensors are lists, their copies to the device are left
  out, and so are the layout of the rotary tables (\<^verbatim>\<open>unsqueeze\<close>) and their type; entries are far below
  the bounds of \<^verbatim>\<open>int32\<close>. \<^verbatim>\<open>cdiv\<close> and \<^verbatim>\<open>round_down\<close> are vLLM's and are arguments.
\<close>

subsection \<open>Decodes and prefills\<close>

record 'm common_metadata =
  cm_query_start_loc :: "nat list"
  cm_seq_lens :: "int list"
  cm_num_reqs :: nat
  cm_num_actual_tokens :: nat
  cm_max_query_len :: nat
  cm_decode_token_per_req :: nat
  cm_block_table :: "int list list"
  cm_slot_mapping :: "int list"
  cm_actual_seq_lengths_q :: "nat list"
  cm_positions :: "int list"
  cm_attn_mask :: 'm
  cm_spec_attn_mask :: 'm
  cm_attn_state :: attn_state
  cm_enable_dbo_across_dp :: bool
  cm_is_only_prefill :: bool
  cm_graph_pad_size :: int

definition query_lens_of :: "nat list \<Rightarrow> int list" where
  "query_lens_of locs = map2 (\<lambda>b a. int b - int a) (tl locs) (butlast locs)"

text \<open>The numbers of decodes, prefills, decode tokens and prefill tokens.\<close>

definition split_decodes_and_prefills ::
  "'m common_metadata \<Rightarrow> nat \<Rightarrow> (nat \<times> int \<times> nat \<times> int) result" where
  "split_decodes_and_prefills m decode_threshold =
     (let n = cm_num_reqs m; tokens = cm_num_actual_tokens m in
      if cm_max_query_len m \<le> decode_threshold then Inr (n, 0, tokens, 0)
      else
        let query_lens = query_lens_of (cm_query_start_loc m);
            is_prefill = map (\<lambda>l. int decode_threshold < l) query_lens in
        if \<not> (True \<in> set is_prefill) then Inr (n, 0, tokens, 0)
        else
          let first_prefill = length (takeWhile Not is_prefill) in
          res_bind (py_assert (\<forall>l \<in> set (drop first_prefill query_lens). int decode_threshold \<le> l)) (\<lambda>_.
          res_bind (py_assert (\<forall>l \<in> set (take first_prefill query_lens). l \<le> int decode_threshold)) (\<lambda>_.
          res_bind (nth_item (cm_query_start_loc m) first_prefill) (\<lambda>decode_tokens.
          Inr (first_prefill, int n - int first_prefill, decode_tokens, int tokens - int decode_tokens)))))"

subsection \<open>The builder\<close>

record mla_builder =
  mb_block_size :: nat
  mb_max_blocks :: nat
  mb_chunked_prefill_enabled :: bool
  mb_workspace_size :: nat

definition mla_builder_init :: "nat \<Rightarrow> nat \<Rightarrow> nat \<Rightarrow> bool \<Rightarrow> mla_builder result" where
  "mla_builder_init model_len block_size max_num_seqs chunked_prefill =
     (let workspace = min (max (8 * model_len) (4 * max_num_seqs * block_size)) (128 * 1024) in
      res_bind (if chunked_prefill then py_assert (max_num_seqs * block_size \<le> workspace) else Inr ()) (\<lambda>_.
      Inr \<lparr>mb_block_size = block_size, mb_max_blocks = (model_len + block_size - 1) div block_size,
           mb_chunked_prefill_enabled = chunked_prefill, mb_workspace_size = workspace\<rparr>))"

text \<open>\<^verbatim>\<open>max().item()\<close> of an empty tensor raises.\<close>

definition tensor_max :: "int list \<Rightarrow> int result" where
  "tensor_max xs = (case xs of [] \<Rightarrow> Inl RuntimeError | x # ys \<Rightarrow> Inr (foldl max x ys))"

definition running_sums :: "int list \<Rightarrow> int list" where
  "running_sums xs = map (\<lambda>i. sum_list (take (Suc i) xs)) [0..<length xs]"

record chunked_context_metadata =
  cc_cu_seq_lens :: "int list list"
  cc_starts :: "int list list"
  cc_seq_tot :: "int list"
  cc_max_seq_lens :: "int list"
  cc_chunk_seq_lens :: "int list list"

text \<open>The rows of the matrices are the chunks, the columns the prefills.\<close>

definition chunk_context ::
  "(int \<Rightarrow> int \<Rightarrow> int) \<Rightarrow> (int \<Rightarrow> int \<Rightarrow> int) \<Rightarrow> mla_builder \<Rightarrow> nat \<Rightarrow> int list \<Rightarrow> int \<Rightarrow> chunked_context_metadata result" where
  "chunk_context cdiv round_down mb num_prefills context_lens max_context_len =
     (let num_prefills_with_context = length (filter (\<lambda>c. 0 < c) context_lens);
          max_context_chunk =
            round_down (int (mb_workspace_size mb div num_prefills_with_context)) (int (mb_block_size mb)) in
      res_bind (py_assert (0 < max_context_chunk)) (\<lambda>_.
      let num_chunks = nat (cdiv max_context_len max_context_chunk);
          chunk_starts = map (\<lambda>i. replicate num_prefills (int i * max_context_chunk)) [0..<num_chunks] in
      res_bind (res_map (\<lambda>row. bcast RuntimeError min context_lens (map (\<lambda>s. s + max_context_chunk) row)) chunk_starts) (\<lambda>chunk_ends.
      res_bind (res_map (\<lambda>(e, s). bcast RuntimeError (\<lambda>e s. max 0 (e - s)) e s) (zip chunk_ends chunk_starts)) (\<lambda>chunk_seq_lens.
      res_bind (res_map tensor_max chunk_seq_lens) (\<lambda>max_seq_lens.
      Inr \<lparr>cc_cu_seq_lens = map (\<lambda>r. 0 # running_sums r) chunk_seq_lens, cc_starts = chunk_starts,
           cc_seq_tot = map sum_list chunk_seq_lens, cc_max_seq_lens = max_seq_lens, cc_chunk_seq_lens = chunk_seq_lens\<rparr>)))))"

record ('m, 'c) prefill_metadata =
  pm_attn_mask :: 'm
  pm_query_lens :: "int list"
  pm_seq_lens :: "int list"
  pm_context_lens :: "int list"
  pm_input_positions :: "int list"
  pm_block_table :: "int list list"
  pm_max_query_len :: int
  pm_max_seq_lens :: int
  pm_query_start_loc :: "int list"
  pm_chunked_context :: "chunked_context_metadata option"
  pm_cos_sin :: "'c list"

record ('m, 'c) decode_metadata =
  dm_input_positions :: "int list"
  dm_block_table :: "int list list"
  dm_seq_lens :: "int list"
  dm_max_seq_lens :: int
  dm_attn_mask :: 'm
  dm_actual_seq_lengths_q :: "nat list"
  dm_cos_sin :: "'c list"

record ('m, 'c) mla_metadata =
  mm_num_actual_tokens :: nat
  mm_slot_mapping :: "int list"
  mm_query_start_loc :: "nat list"
  mm_seq_lens :: "int list"
  mm_block_tables :: "int list list"
  mm_num_decodes :: nat
  mm_num_decode_tokens :: nat
  mm_num_prefills :: int
  mm_query_lens :: "int list"
  mm_attn_mask :: 'm
  mm_attn_state :: attn_state
  mm_prefill :: "('m, 'c) prefill_metadata option"
  mm_decode :: "('m, 'c) decode_metadata option"
  mm_enable_dbo_across_dp :: bool

text \<open>\<open>cos_sin\<close> has an entry per position, the pair of its rows in the two rotary tables.\<close>

definition build_prefill ::
  "(int \<Rightarrow> int \<Rightarrow> int) \<Rightarrow> (int \<Rightarrow> int \<Rightarrow> int) \<Rightarrow> mla_builder \<Rightarrow> 'c list \<Rightarrow> 'm common_metadata \<Rightarrow> int list \<Rightarrow> nat \<Rightarrow> nat \<Rightarrow> nat \<Rightarrow>
   ('m, 'c) prefill_metadata result" where
  "build_prefill cdiv round_down mb cos_sin m num_computed reqs_start num_prefills tokens_start =
     (let n = cm_num_reqs m;
          query_lens = take n (query_lens_of (cm_query_start_loc m));
          seq_lens = take n (cm_seq_lens m);
          positions = take (cm_num_actual_tokens m) (cm_positions m) in
      res_bind (tensor_max (drop tokens_start query_lens)) (\<lambda>max_query_len.
      res_bind (tensor_max (drop tokens_start seq_lens)) (\<lambda>max_seq_lens.
      res_bind (nth_item (cm_query_start_loc m) reqs_start) (\<lambda>first_loc.
      let query_start_loc = map (\<lambda>l. int l - int first_loc) (drop reqs_start (cm_query_start_loc m));
          context_lens = drop reqs_start (take n num_computed) in
      res_bind (tensor_max context_lens) (\<lambda>max_context_len.
      res_bind
        (if mb_chunked_prefill_enabled mb \<and> 0 < max_context_len
         then res_bind (chunk_context cdiv round_down mb num_prefills context_lens max_context_len) (\<lambda>c. Inr (Some c))
         else Inr None) (\<lambda>chunked.
      res_bind (res_map (list_item cos_sin) (drop tokens_start positions)) (\<lambda>rotary.
      Inr \<lparr>pm_attn_mask = cm_attn_mask m, pm_query_lens = drop tokens_start query_lens, pm_seq_lens = seq_lens,
           pm_context_lens = drop tokens_start seq_lens, pm_input_positions = drop tokens_start positions,
           pm_block_table = drop reqs_start (take n (cm_block_table m)), pm_max_query_len = max_query_len,
           pm_max_seq_lens = max_seq_lens, pm_query_start_loc = query_start_loc, pm_chunked_context = chunked,
           pm_cos_sin = rotary\<rparr>)))))))"

definition build_decode ::
  "'c list \<Rightarrow> 'm common_metadata \<Rightarrow> nat \<Rightarrow> nat \<Rightarrow> ('m, 'c) decode_metadata result" where
  "build_decode cos_sin m num_decodes num_decode_tokens =
     (let n = cm_num_reqs m;
          seq_lens = take n (cm_seq_lens m);
          positions = take num_decode_tokens (take (cm_num_actual_tokens m) (cm_positions m)) in
      res_bind (tensor_max (take num_decodes seq_lens)) (\<lambda>max_seq_lens.
      res_bind (res_map (list_item cos_sin) positions) (\<lambda>rotary.
      Inr \<lparr>dm_input_positions = positions, dm_block_table = take num_decode_tokens (take n (cm_block_table m)),
           dm_seq_lens = take num_decode_tokens seq_lens, dm_max_seq_lens = max_seq_lens,
           dm_attn_mask = cm_spec_attn_mask m, dm_actual_seq_lengths_q = slice 1 (num_decodes + 1) (cm_query_start_loc m),
           dm_cos_sin = rotary\<rparr>)))"

text \<open>When there are decodes, the metadata keep the sequence lengths and the block table of these only.\<close>

definition mla_build ::
  "(int \<Rightarrow> int \<Rightarrow> int) \<Rightarrow> (int \<Rightarrow> int \<Rightarrow> int) \<Rightarrow> mla_builder \<Rightarrow> 'c list \<Rightarrow> 'm common_metadata \<Rightarrow> ('m, 'c) mla_metadata result" where
  "mla_build cdiv round_down mb cos_sin m =
     res_bind (split_decodes_and_prefills m 1) (\<lambda>(num_decodes, num_prefills, decode_tokens, prefill_tokens).
     res_bind (py_assert (int num_decodes + num_prefills = int (cm_num_reqs m))) (\<lambda>_.
     res_bind (py_assert (int decode_tokens + prefill_tokens = int (cm_num_actual_tokens m))) (\<lambda>_.
     res_bind (bcast RuntimeError (-) (take (cm_num_reqs m) (cm_seq_lens m)) (take (cm_num_reqs m) (query_lens_of (cm_query_start_loc m))))
       (\<lambda>num_computed.
     res_bind
       (if 0 < num_prefills
        then res_bind (build_prefill cdiv round_down mb cos_sin m num_computed num_decodes (nat num_prefills) decode_tokens) (\<lambda>p. Inr (Some p))
        else Inr None) (\<lambda>prefill.
     res_bind
       (if 0 < num_decodes then res_bind (build_decode cos_sin m num_decodes decode_tokens) (\<lambda>d. Inr (Some d)) else Inr None)
       (\<lambda>decode.
     let n = cm_num_reqs m; cut = (if 0 < num_decodes then take decode_tokens else (\<lambda>xs. xs));
         cut_table = (if 0 < num_decodes then take decode_tokens else (\<lambda>xs. xs)) in
     Inr \<lparr>mm_num_actual_tokens = cm_num_actual_tokens m, mm_slot_mapping = take (cm_num_actual_tokens m) (cm_slot_mapping m),
          mm_query_start_loc = cm_query_start_loc m, mm_seq_lens = cut (take n (cm_seq_lens m)),
          mm_block_tables = cut_table (take n (cm_block_table m)), mm_num_decodes = num_decodes,
          mm_num_decode_tokens = decode_tokens, mm_num_prefills = num_prefills,
          mm_query_lens = take n (query_lens_of (cm_query_start_loc m)), mm_attn_mask = cm_attn_mask m,
          mm_attn_state = cm_attn_state m, mm_prefill = prefill, mm_decode = decode,
          mm_enable_dbo_across_dp = cm_enable_dbo_across_dp m\<rparr>))))))"

subsection \<open>The common metadata of a step\<close>

text \<open>
  What \<^verbatim>\<open>_prepare_inputs\<close> of the runner passes to the builder. The buffers of sequence lengths, slots and positions are
  longer than the step; \<open>stale\<close> is what is left behind its entries.
\<close>

definition common_metadata_of ::
  "input_buffers \<Rightarrow> prepared \<Rightarrow> nat \<Rightarrow> nat \<Rightarrow> attn_state \<Rightarrow> 'm \<Rightarrow> 'm \<Rightarrow> bool \<Rightarrow> nat list \<Rightarrow> nat \<Rightarrow>
   int list \<times> int list \<times> int list \<Rightarrow> 'm common_metadata" where
  "common_metadata_of bufs p n n_tokens state attn_mask spec_mask dbo actual_q decode_tokens stale =
     (case stale of (stale_lens, stale_slots, stale_positions) \<Rightarrow>
     \<lparr>cm_query_start_loc = pi_query_start_loc p, cm_seq_lens = pi_seq_lens p @ stale_lens, cm_num_reqs = n,
      cm_num_actual_tokens = n_tokens, cm_max_query_len = pi_max_num_scheduled_tokens p,
      cm_decode_token_per_req = decode_tokens, cm_block_table = ri_block_table bufs,
      cm_slot_mapping = pi_slot_mapping p @ stale_slots, cm_actual_seq_lengths_q = actual_q,
      cm_positions = pi_positions p @ stale_positions, cm_attn_mask = attn_mask, cm_spec_attn_mask = spec_mask,
      cm_attn_state = state, cm_enable_dbo_across_dp = dbo, cm_is_only_prefill = (\<forall>v \<in> set (pi_valid p). v \<noteq> 1),
      cm_graph_pad_size = - 1\<rparr>)"

end
