(* ===== verification/Mla_Props.thy ===== *)
theory Mla_Props
  imports Mla_Metadata Runner_Input_Props
begin

section \<open>The metadata describe the batch\<close>

text \<open>
  For a reordered batch \<^verbatim>\<open>split_decodes_and_prefills\<close> finds the border between decodes and prefills; the
  chunks of the context partition the computed tokens of every prefill and fit the workspace.
\<close>

subsection \<open>The border\<close>

lemma query_lens_cumulative: "query_lens_of (0 # cumulative counts) = map int counts"
proof (rule nth_equalityI)
  fix i assume "i < length (query_lens_of (0 # cumulative counts))"
  then have i: "i < length counts" by (simp add: query_lens_of_def)
  have "butlast (0 # cumulative counts) ! i = offset counts i"
    using nth_butlast [of i "0 # cumulative counts"] i by (cases i) (simp_all add: cumulative_def del: butlast.simps)
  then show "query_lens_of (0 # cumulative counts) ! i = map int counts ! i"
    using i offset_Suc [OF i] by (simp add: query_lens_of_def cumulative_def del: butlast.simps)
qed (cases counts; simp add: query_lens_of_def cumulative_def)

lemma start_nth: "i \<le> length xs \<Longrightarrow> (0 # cumulative xs) ! i = offset xs i"
  by (cases i) (simp_all add: cumulative_def)

text \<open>The decodes, one token each, come first.\<close>

definition decodes_first :: "nat list \<Rightarrow> nat \<Rightarrow> bool" where
  "decodes_first counts nd \<longleftrightarrow> nd \<le> length counts \<and> (\<forall>x < length counts. 0 < counts ! x \<and> (counts ! x = 1 \<longleftrightarrow> x < nd))"

lemma decode_offsets: "decodes_first counts nd \<Longrightarrow> k \<le> nd \<Longrightarrow> offset counts k = k"
proof (induction k)
  case (Suc k)
  then show ?case using offset_Suc [of k counts] by (simp add: decodes_first_def)
qed simp

lemma decode_counts: "decodes_first counts nd \<Longrightarrow> take nd counts = replicate nd 1"
  by (intro nth_equalityI) (auto simp: decodes_first_def)

lemma foldl_max_le: "foldl max a xs \<le> (b :: nat) \<longleftrightarrow> a \<le> b \<and> (\<forall>x \<in> set xs. x \<le> b)"
  by (induction xs arbitrary: a) auto

lemma take_while_border:
  assumes "nd \<le> length xs" "\<And>x. x < length xs \<Longrightarrow> P (xs ! x) \<longleftrightarrow> x < nd"
  shows "length (takeWhile P xs) = nd"
proof -
  have "takeWhile P xs = take nd xs" by (rule takeWhile_eq_take_P_nth) (use assms in auto)
  then show ?thesis using assms(1) by simp
qed

lemma split_ok:
  assumes "decodes_first counts nd" "cm_query_start_loc m = 0 # cumulative counts" "cm_num_reqs m = length counts"
    "cm_num_actual_tokens m = sum_list counts" "cm_max_query_len m = foldl max 0 counts"
  shows "split_decodes_and_prefills m 1 = Inr (nd, int (length counts - nd), nd, int (sum_list counts) - int nd)"
proof (cases "nd = length counts")
  case True
  then have ones: "counts = replicate nd 1" using decode_counts [OF assms(1)] by simp
  have "x = 1" if "x \<in> set counts" for x using that arg_cong [OF ones, of set] by (cases nd) auto
  then have "cm_max_query_len m \<le> 1" unfolding assms(5) foldl_max_le by auto
  moreover have "sum_list counts = nd" using arg_cong [OF ones, of sum_list] by (simp add: sum_list_replicate)
  ultimately show ?thesis using True assms(3,4) by (simp add: split_decodes_and_prefills_def Let_def)
next
  case False
  let ?n = "length counts"
  have d: "nd < ?n" "\<And>x. x < ?n \<Longrightarrow> 0 < counts ! x \<and> (counts ! x = 1 \<longleftrightarrow> x < nd)" using assms(1) False by (auto simp: decodes_first_def)
  have long: "1 < counts ! x \<longleftrightarrow> nd \<le> x" if "x < ?n" for x using d(2) [OF that] by linarith
  have "\<not> cm_max_query_len m \<le> 1"
    unfolding assms(5) foldl_max_le using long [OF d(1)] nth_mem [OF d(1)] by (meson leD order_refl)
  moreover have some: "True \<in> set (map (\<lambda>l. int 1 < l) (map int counts))"
    using long [OF d(1)] nth_mem [OF d(1)] by (force simp: image_iff)
  have border: "length (takeWhile Not (map (\<lambda>l. int 1 < l) (map int counts))) = nd"
    by (rule take_while_border) (use d(1) long in auto)
  have 1: "\<forall>l \<in> set (drop nd (map int counts)). int 1 \<le> l" "\<forall>l \<in> set (take nd (map int counts)). l \<le> int 1"
  proof -
    have "1 \<le> counts ! x" if "x < ?n" for x using d(2) [OF that] by linarith
    then show "\<forall>l \<in> set (drop nd (map int counts)). int 1 \<le> l" by (auto simp: in_set_conv_nth drop_map)
    have "counts ! x \<le> 1" if "x < nd" for x using d(2) [of x] d(1) that by simp
    then show "\<forall>l \<in> set (take nd (map int counts)). l \<le> int 1" by (auto simp: in_set_conv_nth take_map)
  qed
  have loc: "nth_item (cm_query_start_loc m) nd = Inr nd"
    unfolding assms(2) using d(1) decode_offsets [OF assms(1), of nd] by (cases nd) (simp_all add: nth_item_def cumulative_def)
  ultimately show ?thesis
    using d(1) unfolding split_decodes_and_prefills_def Let_def assms(2-4) query_lens_cumulative border
    by (simp only: some 1 not_True_eq_False if_False py_assert_simps res_bind_Inr loc [unfolded assms(2)]) (use 1 in \<open>simp add: of_nat_diff\<close>)
qed

subsection \<open>The chunks of the context\<close>

lemma tensor_max_eq: "xs \<noteq> [] \<Longrightarrow> tensor_max xs = Inr (Max (set xs))"
proof (cases xs)
  case (Cons x ys)
  have "foldl max x ys = Max (insert x (set ys))"
  proof (induction ys arbitrary: x)
    case (Cons y ys)
    then show ?case by (cases "ys = []") (simp_all add: max.assoc)
  qed simp
  then show ?thesis using Cons by (simp add: tensor_max_def)
qed simp

lemma tensor_max_nat: "xs \<noteq> [] \<Longrightarrow> tensor_max (map int xs) = Inr (int (Max (set xs)))"
  using mono_Max_commute [of int "set xs"] by (simp add: tensor_max_eq mono_def)

text \<open>The pieces of a context of length \<open>c\<close> in chunks of length \<open>K\<close> are the positions before \<open>c\<close> in order.\<close>

lemma chunks_tile: "concat (map (\<lambda>i. [i * K..<i * K + (min c (i * K + K) - i * K)]) [0..<k]) = [0..<min c (k * K)]"
proof (induction k)
  case (Suc k)
  show ?case
  proof (cases "c \<le> k * K")
    case False
    then have "[0..<min c (Suc k * K)] = [0..<k * K] @ [k * K..<min c (k * K + K)]"
      using upt_add_eq_append [of 0 "k * K" "min c (k * K + K) - k * K"] by (simp add: add.commute)
    then show ?thesis using Suc False by simp
  qed (use Suc in simp)
qed simp

lemma sum_chunk_le:
  "sum_list (map (\<lambda>c. min c (i * K + K) - i * K) cs) \<le> length (filter (\<lambda>c. 0 < c) cs) * (K :: nat)"
  by (induction cs) auto

text \<open>The documented behaviour of vLLM's \<^verbatim>\<open>cdiv\<close> and \<^verbatim>\<open>round_down\<close>.\<close>

definition vllm_division :: "(int \<Rightarrow> int \<Rightarrow> int) \<Rightarrow> (int \<Rightarrow> int \<Rightarrow> int) \<Rightarrow> bool" where
  "vllm_division cdiv round_down \<longleftrightarrow> (\<forall>a b. 0 < b \<longrightarrow> cdiv a b = - (a div (- b)) \<and> round_down a b = (a div b) * b)"

lemma chunk_size_ok:
  assumes "vllm_division cdiv round_down" "0 < bs" "length (filter (\<lambda>c. 0 < c) cs) \<le> P" "P * bs \<le> ws"
    "n = length (filter (\<lambda>c. 0 < (c :: nat)) cs)" "0 < n"
  shows "\<exists>K. round_down (int (ws div n)) (int bs) = int K \<and> 0 < K \<and> bs dvd K \<and> n * K \<le> ws"
proof (intro exI conjI)
  let ?K = "ws div n div bs * bs"
  show "round_down (int (ws div n)) (int bs) = int ?K" using assms(1,2) by (simp add: vllm_division_def zdiv_int)
  have "n * bs \<le> P * bs" by (rule mult_le_mono1) (use assms(3,5) in simp)
  then have "bs * n \<le> ws" using assms(4) unfolding mult.commute [of bs] by (rule le_trans)
  then have "bs \<le> ws div n" using assms(6) by (simp add: less_eq_div_iff_mult_less_eq)
  then show "0 < ?K" using assms(2) by (simp add: div_greater_zero_iff)
  have "n * ?K \<le> n * (ws div n)" by simp
  also have "\<dots> \<le> ws" by simp
  finally show "n * ?K \<le> ws" .
qed simp

lemma num_chunks_ok:
  assumes "vllm_division cdiv round_down" "0 < K"
  shows "int c \<le> cdiv (int c) (int K) * int K"
proof -
  have "- (int c div - int K) * int K = int c + (- int c) mod int K"
    using assms(2) by (simp add: div_minus_right minus_div_mult_eq_mod [symmetric])
  moreover have "0 \<le> (- int c) mod int K" using assms(2) by simp
  ultimately show ?thesis using assms by (simp add: vllm_division_def)
qed

text \<open>The chunks of a batch of prefills: \<open>K\<close> positions each, \<open>k\<close> of them.\<close>

definition chunk_lens :: "nat \<Rightarrow> nat list \<Rightarrow> nat \<Rightarrow> nat list" where
  "chunk_lens K cs i = map (\<lambda>c. min c (i * K + K) - i * K) cs"

lemma chunk_context_ok:
  assumes "vllm_division cdiv round_down" "0 < mb_block_size mb" "length cs * mb_block_size mb \<le> mb_workspace_size mb"
    "cs \<noteq> []" "mx = int (Max (set cs))" "0 < mx"
  shows "\<exists>K k cc. chunk_context cdiv round_down mb (length cs) (map int cs) mx = Inr cc \<and> 0 < K \<and> mb_block_size mb dvd K \<and>
    cc_starts cc = map (\<lambda>i. replicate (length cs) (int (i * K))) [0..<k] \<and>
    cc_chunk_seq_lens cc = map (\<lambda>i. map int (chunk_lens K cs i)) [0..<k] \<and>
    cc_seq_tot cc = map (\<lambda>i. int (sum_list (chunk_lens K cs i))) [0..<k] \<and>
    cc_max_seq_lens cc = map (\<lambda>i. int (Max (set (chunk_lens K cs i)))) [0..<k] \<and>
    cc_cu_seq_lens cc = map (\<lambda>i. 0 # map int (cumulative (chunk_lens K cs i))) [0..<k] \<and>
    (\<forall>c \<in> set cs. concat (map (\<lambda>i. [i * K..<i * K + (min c (i * K + K) - i * K)]) [0..<k]) = [0..<c]) \<and>
    (\<forall>i. sum_list (chunk_lens K cs i) \<le> mb_workspace_size mb)"
proof -
  let ?n = "length (filter (\<lambda>c. 0 < c) cs)" and ?ws = "mb_workspace_size mb"
  have "Max (set cs) \<in> set cs" using assms(4) by simp
  then have "0 < ?n" using assms(5,6) by (auto simp: length_greater_0_conv filter_empty_conv simp del: Max_in)
  then obtain K where K: "round_down (int (?ws div ?n)) (int (mb_block_size mb)) = int K" "0 < K" "mb_block_size mb dvd K" "?n * K \<le> ?ws"
    using chunk_size_ok [OF assms(1,2) length_filter_le assms(3) refl] by blast
  define k where "k = nat (cdiv mx (int K))"
  have "mx \<le> cdiv mx (int K) * int K" using num_chunks_ok [OF assms(1) K(2)] assms(5) by simp
  moreover from this have "0 < cdiv mx (int K)" using assms(6) K(2) zero_less_mult_pos2 [of "cdiv mx (int K)" "int K"] by simp
  ultimately have "mx \<le> int (k * K)" by (simp add: k_def)
  then have "Max (set cs) \<le> k * K" unfolding assms(5) of_nat_le_iff .
  then have all: "c \<le> k * K" if "c \<in> set cs" for c using that Max_ge [of "set cs" c] by (meson List.finite_set le_trans)
  have n: "length (filter (\<lambda>c. 0 < c) (map int cs)) = ?n" by (induction cs) simp_all
  have ends: "res_map (\<lambda>row. bcast RuntimeError min (map int cs) (map (\<lambda>s. s + int K) row)) (map (\<lambda>i. replicate (length cs) (int i * int K)) [0..<k]) =
      Inr (map (\<lambda>i. map (\<lambda>c. int (min c (i * K + K))) cs) [0..<k])"
    by (simp add: res_map_eq_Inr list_all2_map1 list_all2_map2 list_all2_same bcast_def map_replicate zip_replicate2 comp_def of_nat_min)
  have lens: "res_map (\<lambda>(e, s). bcast RuntimeError (\<lambda>e s. max 0 (e - s)) e s)
        (zip (map (\<lambda>i. map (\<lambda>c. int (min c (i * K + K))) cs) [0..<k]) (map (\<lambda>i. replicate (length cs) (int i * int K)) [0..<k])) =
      Inr (map (\<lambda>i. map int (chunk_lens K cs i)) [0..<k])"
  proof -
    have "max 0 (int a - int i * int K) = int (a - i * K)" for a i by (simp add: nat_le_iff max_def of_nat_diff flip: of_nat_mult)
    then show ?thesis
      by (simp add: zip_map_same res_map_eq_Inr list_all2_map1 list_all2_map2 list_all2_same bcast_def zip_replicate2 chunk_lens_def comp_def)
  qed
  have maxs: "res_map tensor_max (map (\<lambda>i. map int (chunk_lens K cs i)) [0..<k]) = Inr (map (\<lambda>i. int (Max (set (chunk_lens K cs i)))) [0..<k])"
  proof -
    have "chunk_lens K cs i \<noteq> []" for i using assms(4) by (simp add: chunk_lens_def)
    then show ?thesis by (simp add: res_map_eq_Inr list_all2_map1 list_all2_map2 list_all2_same tensor_max_nat)
  qed
  have sums: "running_sums (map int xs) = map int (cumulative xs)" for xs
    by (simp add: running_sums_def cumulative_def take_map sum_list_of_nat)
  have "sum_list (chunk_lens K cs i) \<le> ?ws" for i using sum_chunk_le [where cs = cs and i = i and K = K] K(4) by (simp add: chunk_lens_def)
  moreover have "concat (map (\<lambda>i. [i * K..<i * K + (min c (i * K + K) - i * K)]) [0..<k]) = [0..<c]" if "c \<in> set cs" for c
    using chunks_tile [of K c k] all [OF that] by simp
  moreover have "chunk_context cdiv round_down mb (length cs) (map int cs) mx = Inr
      \<lparr>cc_cu_seq_lens = map (\<lambda>i. 0 # map int (cumulative (chunk_lens K cs i))) [0..<k],
       cc_starts = map (\<lambda>i. replicate (length cs) (int (i * K))) [0..<k],
       cc_seq_tot = map (\<lambda>i. int (sum_list (chunk_lens K cs i))) [0..<k],
       cc_max_seq_lens = map (\<lambda>i. int (Max (set (chunk_lens K cs i)))) [0..<k],
       cc_chunk_seq_lens = map (\<lambda>i. map int (chunk_lens K cs i)) [0..<k]\<rparr>"
  proof -
    have "py_assert (0 < int K) = Inr ()" using K(2) by (simp add: py_assert_def)
    then show ?thesis
      unfolding chunk_context_def Let_def n K(1) k_def [symmetric]
      by (simp only: res_bind_Inr ends lens maxs) (simp add: sums sum_list_of_nat comp_def)
  qed
  ultimately show ?thesis using K(2,3) by (intro exI [of _ K] exI [of _ k]) simp
qed

subsection \<open>The built metadata\<close>

definition chunks_ok :: "mla_builder \<Rightarrow> nat list \<Rightarrow> chunked_context_metadata \<Rightarrow> bool" where
  "chunks_ok mb cs cc \<longleftrightarrow>
     (\<exists>K k. 0 < K \<and> mb_block_size mb dvd K \<and>
        cc_starts cc = map (\<lambda>i. replicate (length cs) (int (i * K))) [0..<k] \<and>
        cc_chunk_seq_lens cc = map (\<lambda>i. map int (chunk_lens K cs i)) [0..<k] \<and>
        cc_seq_tot cc = map (\<lambda>i. int (sum_list (chunk_lens K cs i))) [0..<k] \<and>
        cc_max_seq_lens cc = map (\<lambda>i. int (Max (set (chunk_lens K cs i)))) [0..<k] \<and>
        cc_cu_seq_lens cc = map (\<lambda>i. 0 # map int (cumulative (chunk_lens K cs i))) [0..<k] \<and>
        (\<forall>c \<in> set cs. concat (map (\<lambda>i. [i * K..<i * K + (min c (i * K + K) - i * K)]) [0..<k]) = [0..<c]) \<and>
        (\<forall>i. sum_list (chunk_lens K cs i) \<le> mb_workspace_size mb))"

text \<open>\<open>cs\<close> and \<open>counts\<close> are the computed and the scheduled tokens of the rows, \<open>table\<close> and \<open>poss\<close> their blocks and positions.\<close>

definition describes_decodes ::
  "'c list \<Rightarrow> nat list \<Rightarrow> int list list \<Rightarrow> int list \<Rightarrow> nat \<Rightarrow> ('m, 'c) decode_metadata \<Rightarrow> bool" where
  "describes_decodes cos_sin cs table poss nd d \<longleftrightarrow>
     dm_seq_lens d = map (\<lambda>c. int (Suc c)) (take nd cs) \<and> dm_max_seq_lens d = int (Suc (Max (set (take nd cs)))) \<and>
     dm_block_table d = take nd table \<and> dm_input_positions d = take nd poss \<and>
     dm_actual_seq_lengths_q d = [1..<Suc nd] \<and> dm_cos_sin d = map (\<lambda>q. cos_sin ! nat q) (take nd poss)"

definition describes_prefills ::
  "mla_builder \<Rightarrow> 'c list \<Rightarrow> nat list \<Rightarrow> nat list \<Rightarrow> int list list \<Rightarrow> int list \<Rightarrow> nat \<Rightarrow> ('m, 'c) prefill_metadata \<Rightarrow> bool" where
  "describes_prefills mb cos_sin cs counts table poss nd q \<longleftrightarrow>
     pm_query_lens q = map int (drop nd counts) \<and> pm_max_query_len q = int (Max (set (drop nd counts))) \<and>
     pm_context_lens q = map int (drop nd (map2 (+) cs counts)) \<and> pm_max_seq_lens q = int (Max (set (drop nd (map2 (+) cs counts)))) \<and>
     pm_block_table q = drop nd table \<and> pm_input_positions q = drop nd poss \<and>
     pm_query_start_loc q = map int (0 # cumulative (drop nd counts)) \<and>
     pm_cos_sin q = map (\<lambda>x. cos_sin ! nat x) (drop nd poss) \<and>
     (case pm_chunked_context q of
        None \<Rightarrow> mb_chunked_prefill_enabled mb \<longrightarrow> (\<forall>c \<in> set (drop nd cs). c = 0)
      | Some cc \<Rightarrow> mb_chunked_prefill_enabled mb \<and> chunks_ok mb (drop nd cs) cc)"

definition mla_input_ok ::
  "mla_builder \<Rightarrow> 'c list \<Rightarrow> 'm common_metadata \<Rightarrow> nat list \<Rightarrow> nat list \<Rightarrow> bool" where
  "mla_input_ok mb cos_sin m cs counts \<longleftrightarrow>
     cm_query_start_loc m = 0 # cumulative counts \<and> cm_num_reqs m = length counts \<and> length cs = length counts \<and> counts \<noteq> [] \<and>
     cm_num_actual_tokens m = sum_list counts \<and> cm_max_query_len m = foldl max 0 counts \<and>
     take (length counts) (cm_seq_lens m) = map int (map2 (+) cs counts) \<and>
     (\<forall>q \<in> set (take (sum_list counts) (cm_positions m)). 0 \<le> q \<and> nat q < length cos_sin) \<and>
     0 < mb_block_size mb \<and> (mb_chunked_prefill_enabled mb \<longrightarrow> length counts * mb_block_size mb \<le> mb_workspace_size mb)"

lemma rotary_rows:
  assumes "\<forall>q \<in> set qs. 0 \<le> q \<and> nat q < length cos_sin"
  shows "res_map (list_item cos_sin) qs = Inr (map (\<lambda>q. cos_sin ! nat q) qs)"
  by (rule res_map_Inr) (use assms in \<open>auto simp: list_item_def\<close>)

lemma decode_lens: "decodes_first counts nd \<Longrightarrow> length cs = length counts \<Longrightarrow> take nd (map2 (+) cs counts) = map Suc (take nd cs)"
  by (intro nth_equalityI) (auto simp: decodes_first_def)

lemma build_decode_ok:
  assumes "mla_input_ok mb cos_sin m cs counts" "decodes_first counts nd" "0 < nd"
  shows "\<exists>d. build_decode cos_sin m nd nd = Inr d \<and>
    describes_decodes cos_sin cs (take (length counts) (cm_block_table m)) (take (sum_list counts) (cm_positions m)) nd d"
proof -
  note i = assms(1) [unfolded mla_input_ok_def]
  have cs: "length cs = length counts" and L: "take (cm_num_reqs m) (cm_seq_lens m) = map int (map2 (+) cs counts)" using i by simp_all
  have nd: "nd \<le> length counts" "take nd cs \<noteq> []" using assms(2,3) i by (auto simp: decodes_first_def)
  have lens: "take nd (take (cm_num_reqs m) (cm_seq_lens m)) = map int (map Suc (take nd cs))"
    by (simp only: L take_map [of nd int] decode_lens [OF assms(2) cs])
  have mx: "tensor_max (take nd (take (cm_num_reqs m) (cm_seq_lens m))) = Inr (int (Suc (Max (set (take nd cs)))))"
    unfolding lens using nd(2) mono_Max_commute [of Suc "set (take nd cs)"] by (subst tensor_max_nat) (simp_all add: mono_def)
  have rot: "res_map (list_item cos_sin) (take nd (take (cm_num_actual_tokens m) (cm_positions m))) =
      Inr (map (\<lambda>q. cos_sin ! nat q) (take nd (take (cm_num_actual_tokens m) (cm_positions m))))"
    by (rule rotary_rows, rule ballI, drule in_set_takeD) (use i in simp)
  have q: "slice 1 (nd + 1) (cm_query_start_loc m) = [1..<Suc nd]"
    using i nd(1) decode_offsets [OF assms(2)] by (intro nth_equalityI) (simp_all add: slice_def cumulative_def del: upt_Suc)
  show ?thesis
    unfolding build_decode_def Let_def unfolding mx rot res_bind_Inr unfolding lens q
    using i by (simp add: describes_decodes_def comp_def del: upt_Suc)
qed

lemma build_prefill_ok:
  assumes "mla_input_ok mb cos_sin m cs counts" "decodes_first counts nd" "nd < length counts" "vllm_division cdiv round_down"
  shows "\<exists>q. build_prefill cdiv round_down mb cos_sin m (map int cs) nd (length counts - nd) nd = Inr q \<and>
    describes_prefills mb cos_sin cs counts (take (length counts) (cm_block_table m)) (take (sum_list counts) (cm_positions m)) nd q"
proof -
  note i = assms(1) [unfolded mla_input_ok_def]
  let ?cs = "drop nd cs"
  have cs: "length cs = length counts" and L: "take (cm_num_reqs m) (cm_seq_lens m) = map int (map2 (+) cs counts)"
    and Q: "take (cm_num_reqs m) (query_lens_of (cm_query_start_loc m)) = map int counts" and n: "cm_num_reqs m = length counts"
    using i query_lens_cumulative [of counts] by simp_all
  have ne: "drop nd counts \<noteq> []" "?cs \<noteq> []" "drop nd (map2 (+) cs counts) \<noteq> []" using assms(3) cs by simp_all
  have mx: "tensor_max (drop nd (take (cm_num_reqs m) (query_lens_of (cm_query_start_loc m)))) = Inr (int (Max (set (drop nd counts))))"
    "tensor_max (drop nd (take (cm_num_reqs m) (cm_seq_lens m))) = Inr (int (Max (set (drop nd (map2 (+) cs counts)))))"
    unfolding Q L drop_map [of nd int] by (fact tensor_max_nat [OF ne(1)], fact tensor_max_nat [OF ne(3)])
  have mx3: "tensor_max (drop nd (take (cm_num_reqs m) (map int cs))) = Inr (int (Max (set ?cs)))"
    using cs n tensor_max_nat [OF ne(2)] by (simp add: drop_map)
  have ctx: "drop nd (take (cm_num_reqs m) (map int cs)) = map int ?cs" using cs n by (simp add: drop_map)
  have rot: "res_map (list_item cos_sin) (drop nd (take (cm_num_actual_tokens m) (cm_positions m))) =
      Inr (map (\<lambda>q. cos_sin ! nat q) (drop nd (take (cm_num_actual_tokens m) (cm_positions m))))"
    by (rule rotary_rows, rule ballI, drule in_set_dropD) (use i in simp)
  have first: "nth_item (cm_query_start_loc m) nd = Inr nd"
    using i assms(3) decode_offsets [OF assms(2), of nd] by (cases nd) (simp_all add: nth_item_def cumulative_def)
  have locs: "map (\<lambda>l. int l - int nd) (drop nd (cm_query_start_loc m)) = map int (0 # cumulative (drop nd counts))"
  proof (rule nth_equalityI)
    fix j assume "j < length (map (\<lambda>l. int l - int nd) (drop nd (cm_query_start_loc m)))"
    then have j: "nd + j \<le> length counts" using i assms(3) by simp
    have "offset counts (nd + j) = nd + offset (drop nd counts) j" using decode_offsets [OF assms(2) order_refl] by (simp add: take_add)
    moreover have "drop nd (cm_query_start_loc m) ! j = offset counts (nd + j)"
      using i j assms(3) start_nth [OF j] nth_drop [of nd "cm_query_start_loc m" j] by (simp del: nth_drop)
    moreover have "map int (0 # cumulative (drop nd counts)) ! j = int (offset (drop nd counts) j)"
      using j assms(3) start_nth [of j "drop nd counts"] nth_map [of j "0 # cumulative (drop nd counts)" int] by (simp del: nth_map list.map)
    ultimately show "map (\<lambda>l. int l - int nd) (drop nd (cm_query_start_loc m)) ! j = map int (0 # cumulative (drop nd counts)) ! j"
      using i j assms(3) by (simp del: list.map nth_drop)
  qed (use i assms(3) in simp)
  obtain ch where ch: "(if mb_chunked_prefill_enabled mb \<and> 0 < int (Max (set ?cs))
       then res_bind (chunk_context cdiv round_down mb (length counts - nd) (drop nd (take (cm_num_reqs m) (map int cs))) (int (Max (set ?cs)))) (\<lambda>c. Inr (Some c))
       else Inr None) = Inr ch"
    "case ch of None \<Rightarrow> mb_chunked_prefill_enabled mb \<longrightarrow> (\<forall>c \<in> set ?cs. c = 0)
      | Some cc \<Rightarrow> mb_chunked_prefill_enabled mb \<and> chunks_ok mb ?cs cc"
  proof (cases "mb_chunked_prefill_enabled mb \<and> 0 < int (Max (set ?cs))")
    case True
    have "length counts * mb_block_size mb \<le> mb_workspace_size mb" using i True by simp
    then have "length ?cs * mb_block_size mb \<le> mb_workspace_size mb"
      by (rule le_trans [rotated]) (rule mult_le_mono1, simp add: cs)
    moreover have "0 < mb_block_size mb" using i by simp
    ultimately have ws: "length ?cs * mb_block_size mb \<le> mb_workspace_size mb" "0 < mb_block_size mb" .
    obtain cc where "chunk_context cdiv round_down mb (length ?cs) (map int ?cs) (int (Max (set ?cs))) = Inr cc" "chunks_ok mb ?cs cc"
      using chunk_context_ok [OF assms(4) ws(2,1) ne(2) refl conjunct2 [OF True]] unfolding chunks_ok_def by blast
    then show ?thesis using True cs by (intro that [of "Some cc"]) (simp_all add: ctx)
  next
    case False
    have "c = 0" if "mb_chunked_prefill_enabled mb" "c \<in> set ?cs" for c
      using that False Max_ge [OF List.finite_set that(2)] by simp
    then have "mb_chunked_prefill_enabled mb \<longrightarrow> (\<forall>c \<in> set ?cs. c = 0)" by blast
    then show ?thesis by (intro that [of None]) (simp_all only: False if_False option.case)
  qed
  show ?thesis
    unfolding build_prefill_def Let_def unfolding mx first mx3 ch(1) rot res_bind_Inr locs unfolding Q L drop_map [of nd int]
    using ch(2) i by (simp add: describes_prefills_def)
qed

lemma mla_build_ok:
  assumes "mla_input_ok mb cos_sin m cs counts" "decodes_first counts nd" "vllm_division cdiv round_down"
  shows "\<exists>md. mla_build cdiv round_down mb cos_sin m = Inr md \<and> mm_num_decodes md = nd \<and> mm_num_decode_tokens md = nd \<and>
    mm_num_prefills md = int (length counts - nd) \<and> mm_query_lens md = map int counts \<and>
    mm_slot_mapping md = take (sum_list counts) (cm_slot_mapping m) \<and>
    (case mm_decode md of None \<Rightarrow> nd = 0 | Some d \<Rightarrow> 0 < nd \<and>
       describes_decodes cos_sin cs (take (length counts) (cm_block_table m)) (take (sum_list counts) (cm_positions m)) nd d) \<and>
    (case mm_prefill md of None \<Rightarrow> nd = length counts | Some q \<Rightarrow> nd < length counts \<and>
       describes_prefills mb cos_sin cs counts (take (length counts) (cm_block_table m)) (take (sum_list counts) (cm_positions m)) nd q)"
proof -
  note i = assms(1) [unfolded mla_input_ok_def]
  let ?n = "length counts"
  have le: "nd \<le> ?n" using assms(2) by (simp add: decodes_first_def)
  have split: "split_decodes_and_prefills m 1 = Inr (nd, int (?n - nd), nd, int (sum_list counts) - int nd)"
    by (rule split_ok [OF assms(2)]) (use i in simp_all)
  have computed: "bcast RuntimeError (-) (take (cm_num_reqs m) (cm_seq_lens m)) (take (cm_num_reqs m) (query_lens_of (cm_query_start_loc m))) = Inr (map int cs)"
    using i query_lens_cumulative [of counts] by (auto simp: bcast_def intro!: nth_equalityI)
  obtain pq where pq: "(if 0 < int (?n - nd) then res_bind (build_prefill cdiv round_down mb cos_sin m (map int cs) nd (nat (int (?n - nd))) nd) (\<lambda>p. Inr (Some p))
      else Inr None) = Inr pq"
    "case pq of None \<Rightarrow> nd = ?n | Some q \<Rightarrow> nd < ?n \<and>
       describes_prefills mb cos_sin cs counts (take ?n (cm_block_table m)) (take (sum_list counts) (cm_positions m)) nd q"
  proof (cases "nd < ?n")
    case True
    obtain q where "build_prefill cdiv round_down mb cos_sin m (map int cs) nd (?n - nd) nd = Inr q"
      "describes_prefills mb cos_sin cs counts (take ?n (cm_block_table m)) (take (sum_list counts) (cm_positions m)) nd q"
      using build_prefill_ok [OF assms(1,2) True assms(3)] by blast
    moreover have "0 < int (?n - nd)" "nat (int (?n - nd)) = ?n - nd" using True by simp_all
    ultimately show ?thesis using True by (intro that [of "Some q"]) (simp_all only: if_True res_bind_Inr option.case simp_thms)
  next
    case False
    then show ?thesis using le by (intro that [of None]) simp_all
  qed
  obtain dq where dq: "(if 0 < nd then res_bind (build_decode cos_sin m nd nd) (\<lambda>d. Inr (Some d)) else Inr None) = Inr dq"
    "case dq of None \<Rightarrow> nd = 0 | Some d \<Rightarrow> 0 < nd \<and>
       describes_decodes cos_sin cs (take ?n (cm_block_table m)) (take (sum_list counts) (cm_positions m)) nd d"
  proof (cases "0 < nd")
    case True
    then show ?thesis using build_decode_ok [OF assms(1,2) True] by (elim exE conjE) (rule that [of "Some _"], simp_all)
  next
    case False
    then show ?thesis by (intro that [of None]) simp_all
  qed
  have asserts: "py_assert (int nd + int (?n - nd) = int (cm_num_reqs m)) = Inr ()"
    "py_assert (int nd + (int (sum_list counts) - int nd) = int (cm_num_actual_tokens m)) = Inr ()"
    using i le by (simp_all add: py_assert_def)
  have q: "take ?n (query_lens_of (cm_query_start_loc m)) = map int counts" using i query_lens_cumulative [of counts] by simp
  show ?thesis
    unfolding mla_build_def split res_bind_Inr prod.case asserts computed pq(1) dq(1) Let_def
    using i pq(2) dq(2) q by simp
qed

subsection \<open>From the reordered batch to the metadata\<close>

lemma length_pieces: "(\<And>r. r \<in> set ids \<Longrightarrow> length (f r) = n r) \<Longrightarrow> length (concat (map f ids)) = sum_list (map n ids)"
  by (induction ids) simp_all

lemma mla_decode_count: "mla_decode Mla_builder si r \<longleftrightarrow> count_of si r = 1"
  by (simp add: mla_decode_def count_of_def Let_def)

lemma prefix_set:
  assumes "\<forall>x < length xs. P (xs ! x) \<longleftrightarrow> x < n"
  shows "r \<in> set (take n xs) \<longleftrightarrow> r \<in> set xs \<and> P r"
  using assms by (auto simp: in_set_conv_nth)

lemma suffix_set:
  assumes "\<forall>x < length xs. P (xs ! x) \<longleftrightarrow> x < n"
  shows "r \<in> set (drop n xs) \<longleftrightarrow> r \<in> set xs \<and> \<not> P r"
proof
  assume "r \<in> set (drop n xs)"
  then obtain i where "i < length xs - n" "r = xs ! (n + i)" by (auto simp: in_set_conv_nth)
  then show "r \<in> set xs \<and> \<not> P r" using assms by auto
next
  assume "r \<in> set xs \<and> \<not> P r"
  then obtain i where "i < length xs" "xs ! i = r" "n \<le> i" using assms by (auto simp: in_set_conv_nth)
  then show "r \<in> set (drop n xs)" unfolding in_set_conv_nth by (intro exI [of _ "i - n"]) simp
qed

lemma step_input_ok:
  assumes "synced env {} spec rn" "holes (rn_batch rn) = {}" "inputs_ok bufs spec rn si"
    "n_tokens = sum_list (map (count_of si) (batch_ids (rn_batch rn)))" "prepare_inputs bufs (rn_batch rn) si n_tokens = Inr p"
    "mla_builder_init model_len (ri_block_size bufs) max_seqs chunked = Inr mb" "num_reqs (rn_batch rn) \<le> max_seqs"
    "\<forall>q \<in> set (pi_positions p). nat q < length cos_sin"
    "m = common_metadata_of bufs p (num_reqs (rn_batch rn)) n_tokens state attn_mask spec_mask dbo actual_q per_req stale"
  shows "mla_input_ok mb cos_sin m (map (computed_of rn) (batch_ids (rn_batch rn))) (map (count_of si) (batch_ids (rn_batch rn)))"
    "take n_tokens (cm_positions m) = pi_positions p" "take n_tokens (cm_slot_mapping m) = pi_slot_mapping p"
proof -
  let ?ids = "batch_ids (rn_batch rn)" and ?n = "count_of si" and ?c = "computed_of rn"
  have c: "condensed (rn_batch rn)" using assms(1,2) by (simp add: synced_def updating_def condensed_def)
  have n: "length ?ids = num_reqs (rn_batch rn)" "?ids \<noteq> []" using condensedD(7) [OF c] assms(3) by (auto simp: inputs_ok_def)
  have p: "pi_positions p = concat (map (\<lambda>r. map (\<lambda>k. int (?c r + k)) [0..<?n r]) ?ids)"
    "pi_slot_mapping p = concat (map (\<lambda>r. map (\<lambda>k. slot_of (ri_block_size bufs) (hd (cr_block_ids (request_of rn r))) (?c r + k)) [0..<?n r]) ?ids)"
    "pi_seq_lens p = map (\<lambda>r. int (?c r + ?n r)) ?ids" "pi_query_start_loc p = 0 # cumulative (map ?n ?ids)"
    "pi_max_num_scheduled_tokens p = foldl max 0 (map ?n ?ids)"
    using prepare_inputs_ok [OF assms(1-4)] assms(5) by (auto simp: Let_def)
  have len: "length (pi_positions p) = n_tokens" "length (pi_slot_mapping p) = n_tokens"
    unfolding p assms(4) by (simp_all add: length_pieces)
  obtain sl ss sp where st: "stale = (sl, ss, sp)" by (cases stale)
  show pos: "take n_tokens (cm_positions m) = pi_positions p" "take n_tokens (cm_slot_mapping m) = pi_slot_mapping p"
    unfolding assms(9) using len by (simp_all add: common_metadata_of_def st)
  have nonneg: "0 \<le> q" if "q \<in> set (pi_positions p)" for q using that unfolding p(1) by auto
  have "mb_block_size mb = ri_block_size bufs" "mb_chunked_prefill_enabled mb \<longrightarrow> max_seqs * mb_block_size mb \<le> mb_workspace_size mb"
    using assms(6) by (auto simp: mla_builder_init_def Let_def res_bind_eq_Inr py_assert_eq_Inr split: if_splits)
  moreover from this have "mb_chunked_prefill_enabled mb \<longrightarrow> length ?ids * mb_block_size mb \<le> mb_workspace_size mb"
    using mult_le_mono1 [OF assms(7), of "mb_block_size mb"] n(1) le_trans by metis
  moreover have "0 < ri_block_size bufs" using assms(3) by (simp add: inputs_ok_def buffers_ok_def)
  moreover have "map int (map2 (+) (map ?c ?ids) (map ?n ?ids)) = map (\<lambda>r. int (?c r + ?n r)) ?ids"
    by (intro nth_equalityI) simp_all
  ultimately show "mla_input_ok mb cos_sin m (map ?c ?ids) (map ?n ?ids)"
    using n p(3-5) assms(8) nonneg pos(1) [unfolded assms(4)] unfolding mla_input_ok_def assms(9)
    by (simp add: common_metadata_of_def st assms(4))
qed

text \<open>
  C10. The metadata of latent attention: after \<^verbatim>\<open>reorder_batch\<close> and \<^verbatim>\<open>_prepare_inputs\<close>, \<^verbatim>\<open>build\<close> succeeds, none
  of its assertions fails, its decodes are exactly the requests with one token and its prefills the others,
  each with its own lengths, blocks and positions; with chunked prefill the chunks of a prefill, laid end to end, are the
  positions of its computed context, they start at block borders and every chunk of the batch fits the workspace.
\<close>

theorem mla_metadata_correct:
  assumes "runner_parts env accepting" "re_attn_builder env = Mla_builder" "synced env {} spec rn"
    "accepting (batch_update_builder (rn_batch rn))" "holes (rn_batch rn) = {}" "batch_dom (rn_batch rn) \<subseteq> scheduled si"
    "reorder_batch env (rn_batch rn) si = Inr (B, moved)" "inputs_ok bufs spec (rn\<lparr>rn_batch := B\<rparr>) si"
    "n_tokens = sum_list (map (count_of si) (batch_ids B))" "prepare_inputs bufs B si n_tokens = Inr p"
    "vllm_division cdiv round_down" "mla_builder_init model_len (ri_block_size bufs) max_seqs chunked = Inr mb"
    "num_reqs B \<le> max_seqs" "\<forall>q \<in> set (pi_positions p). nat q < length cos_sin"
    "m = common_metadata_of bufs p (num_reqs B) n_tokens state attn_mask spec_mask dbo actual_q per_req stale"
  shows "\<exists>md. mla_build cdiv round_down mb cos_sin m = Inr md \<and>
    (let ids = batch_ids B; n = map (count_of si) ids; c = map (computed_of (rn\<lparr>rn_batch := B\<rparr>)) ids;
         nd = mm_num_decodes md; table = take (length ids) (ri_block_table bufs) in
     set (take nd ids) = {r \<in> batch_dom B. count_of si r = 1} \<and> set (drop nd ids) = {r \<in> batch_dom B. count_of si r \<noteq> 1} \<and>
     mm_num_prefills md = int (length ids - nd) \<and> mm_query_lens md = map int n \<and> mm_slot_mapping md = pi_slot_mapping p \<and>
     (case mm_decode md of None \<Rightarrow> nd = 0 | Some d \<Rightarrow> 0 < nd \<and> describes_decodes cos_sin c table (pi_positions p) nd d) \<and>
     (case mm_prefill md of None \<Rightarrow> nd = length ids
      | Some q \<Rightarrow> nd < length ids \<and> describes_prefills mb cos_sin c n table (pi_positions p) nd q))"
proof -
  let ?rn = "rn\<lparr>rn_batch := B\<rparr>" and ?ids = "batch_ids B" and ?n = "map (count_of si) (batch_ids B)"
  let ?nd = "card {r \<in> batch_dom B. count_of si r = 1}"
  have B: "synced env {} spec ?rn" "holes B = {}" "\<forall>x < num_reqs B. count_of si (?ids ! x) = 1 \<longleftrightarrow> x < ?nd"
    using runner_parts.reorder_runner_ok [OF assms(1,3-6)] assms(2,7) by (auto simp: mla_decode_count)
  have c: "condensed B" using B(1,2) by (simp add: synced_def updating_def condensed_def)
  have len: "length ?ids = num_reqs B" by (rule condensedD(7) [OF c])
  have dom: "r \<in> set ?ids \<longleftrightarrow> r \<in> batch_dom B" for r using in_batch_ids [OF c] by (auto simp: batch_dom_def)
  have "?nd \<le> length ?ids"
  proof -
    have "?nd \<le> card (set ?ids)" by (rule card_mono) (use dom in auto)
    then show ?thesis using card_length [of ?ids] by simp
  qed
  then have first: "decodes_first ?n ?nd"
    using B(3) len input_row(1) [OF B(1) _ assms(8) _ refl] B(2) by (simp add: decodes_first_def)
  note input = step_input_ok [OF B(1) _ assms(8), simplified, OF B(2) assms(9,10,12,13,14,15)]
  have front: "set (take ?nd ?ids) = {r \<in> batch_dom B. count_of si r = 1}"
    using prefix_set [of ?ids "\<lambda>r. count_of si r = 1" ?nd] B(3) len dom by auto
  moreover have "set (drop ?nd ?ids) = {r \<in> batch_dom B. count_of si r \<noteq> 1}"
    using suffix_set [of ?ids "\<lambda>r. count_of si r = 1" ?nd] B(3) len dom by auto
  moreover have table: "cm_block_table m = ri_block_table bufs" unfolding assms(15) by (cases stale) (simp add: common_metadata_of_def)
  ultimately have sets: "set (take ?nd ?ids) = {r \<in> batch_dom B. count_of si r = 1}"
    "set (drop ?nd ?ids) = {r \<in> batch_dom B. count_of si r \<noteq> 1}" "cm_block_table m = ri_block_table bufs" by simp_all
  have slots: "take (sum_list ?n) (cm_slot_mapping m) = pi_slot_mapping p" using input(3) assms(9) by simp
  have pos: "take (sum_list ?n) (cm_positions m) = pi_positions p" using input(2) assms(9) by simp
  obtain md where md: "mla_build cdiv round_down mb cos_sin m = Inr md \<and> mm_num_decodes md = ?nd \<and> mm_num_decode_tokens md = ?nd \<and>
    mm_num_prefills md = int (length ?ids - ?nd) \<and> mm_query_lens md = map int ?n \<and> mm_slot_mapping md = pi_slot_mapping p \<and>
    (case mm_decode md of None \<Rightarrow> ?nd = 0 | Some d \<Rightarrow> 0 < ?nd \<and>
       describes_decodes cos_sin (map (computed_of ?rn) ?ids) (take (length ?ids) (ri_block_table bufs)) (pi_positions p) ?nd d) \<and>
    (case mm_prefill md of None \<Rightarrow> ?nd = length ?ids | Some q \<Rightarrow> ?nd < length ?ids \<and>
       describes_prefills mb cos_sin (map (computed_of ?rn) ?ids) ?n (take (length ?ids) (ri_block_table bufs)) (pi_positions p) ?nd q)"
    using mla_build_ok [OF input(1) first assms(11), unfolded length_map sets(3) pos slots] by blast
  then have nd: "mm_num_decodes md = ?nd" by blast
  show ?thesis using md sets(1,2) unfolding Let_def nd [symmetric] by blast
qed

text \<open>The second step of the small run: the second request has one token, the first one two tokens behind a context of two.\<close>

definition mla_buffers :: input_buffers where
  "mla_buffers = demo_buffers\<lparr>ri_block_table := [[7, 0], [7, 8], [0, 0]]\<rparr>"

definition second_reordered :: "(list_builder, nat \<Rightarrow> int list list, unit) input_batch" where
  "second_reordered =
     (case reorder_batch mla_runner_env (rn_batch second_updated) second_input of Inr (B, _) \<Rightarrow> B | _ \<Rightarrow> rn_batch second_updated)"

lemma second_reordered_facts:
  "map_sum (\<lambda>e. e) snd (reorder_batch mla_runner_env (rn_batch second_updated) second_input) = Inr True"
  "req_id_to_index second_reordered = [(''a'', 1), (''b'', 0)]" "batch_ids second_reordered = [''b'', ''a'']"
  "num_reqs second_reordered = 2"
  by code_simp+

lemma mla_frame: "synced mla_runner_env X spec rn = synced list_runner_env X spec rn"
  by (simp add: synced_def stands_for_def mla_runner_env_def)

lemma second_mla_inputs_ok:
  "inputs_ok mla_buffers (step_spec after_first second_input) (second_updated\<lparr>rn_batch := second_reordered\<rparr>) second_input"
proof -
  let ?rn = "second_updated\<lparr>rn_batch := second_reordered\<rparr>"
  have dom: "batch_dom second_reordered = {''a'', ''b''}" by (auto simp: batch_dom_def second_reordered_facts)
  have q: "request_of ?rn = request_of second_updated" "computed_of ?rn = computed_of second_updated"
    "tokens_of (step_spec after_first second_input) ?rn = tokens_of (step_spec after_first second_input) second_updated"
    by (simp_all add: request_of_def computed_of_def tokens_of_def fun_eq_iff)
  have "batch_dom second_reordered \<subseteq> scheduled second_input" by (simp add: dom second_input_def)
  then show ?thesis
    by (simp add: inputs_ok_def buffers_ok_def mla_buffers_def demo_buffers_def q dom second_reordered_facts second_counts
        second_requests second_tokens)
qed

theorem mla_metadata_correct_witness:
  "\<exists>p mb md. prepare_inputs mla_buffers second_reordered second_input 3 = Inr p \<and> mla_builder_init 4 2 3 True = Inr mb \<and>
     mla_build (\<lambda>a b. - (a div (- b))) (\<lambda>a b. a div b * b) mb [10, 11, 12, 13 :: nat]
       (common_metadata_of mla_buffers p 2 3 ChunkedPrefill () () False [] 1 ([], [], [])) = Inr md \<and>
     mm_num_decodes md = 1 \<and> mm_num_prefills md = 1 \<and> mm_query_lens md = [1, 2]"
proof -
  let ?spec = "step_spec after_first second_input" and ?cd = "\<lambda>a b :: int. - (a div (- b))" and ?rd = "\<lambda>a b :: int. a div b * b"
  obtain moved where r: "reorder_batch mla_runner_env (rn_batch second_updated) second_input = Inr (second_reordered, moved)"
    using second_reordered_facts(1)
    by (cases "reorder_batch mla_runner_env (rn_batch second_updated) second_input") (auto simp: second_reordered_def)
  have pre: "re_attn_builder mla_runner_env = Mla_builder" "synced mla_runner_env {} ?spec second_updated"
    "batch_dom (rn_batch second_updated) \<subseteq> scheduled second_input"
    using second_updated_synced by (simp_all add: mla_frame) (simp_all add: mla_runner_env_def second_input_def)
  have n: "3 = sum_list (map (count_of second_input) (batch_ids second_reordered))"
    by (simp add: second_reordered_facts second_counts)
  have "map_sum (\<lambda>e. e) (\<lambda>p. pi_positions p) (prepare_inputs mla_buffers second_reordered second_input 3) = Inr [1, 2, 3]"
    by code_simp
  then obtain p where p: "prepare_inputs mla_buffers second_reordered second_input 3 = Inr p" "pi_positions p = [1, 2, 3]"
    by (cases "prepare_inputs mla_buffers second_reordered second_input 3") auto
  have div: "vllm_division ?cd ?rd" by (simp add: vllm_division_def)
  obtain mb where mb: "mla_builder_init 4 2 3 True = Inr mb" by (simp add: mla_builder_init_def py_assert_def)
  then have mb': "mla_builder_init 4 (ri_block_size mla_buffers) 3 True = Inr mb" by (simp add: mla_buffers_def demo_buffers_def)
  have fits: "num_reqs second_reordered \<le> 3" "\<forall>q \<in> set (pi_positions p). nat q < length [10, 11, 12, 13 :: nat]"
    by (simp_all add: second_reordered_facts p(2))
  have dom: "{r \<in> batch_dom second_reordered. count_of second_input r = 1} = {''b''}"
    by (auto simp: batch_dom_def second_reordered_facts second_counts)
  let ?m = "common_metadata_of mla_buffers p (num_reqs second_reordered) 3 ChunkedPrefill () () False [] 1 ([], [], [])"
  obtain md where md: "mla_build ?cd ?rd mb [10, 11, 12, 13 :: nat] ?m = Inr md"
    "set (take (mm_num_decodes md) (batch_ids second_reordered)) = {r \<in> batch_dom second_reordered. count_of second_input r = 1}"
    "mm_num_prefills md = int (length (batch_ids second_reordered) - mm_num_decodes md)"
    "mm_query_lens md = map int (map (count_of second_input) (batch_ids second_reordered))"
    using mla_metadata_correct [OF mla_runner.runner_parts_axioms pre(1,2) TrueI second_updated_synced(2) pre(3) r second_mla_inputs_ok
        n p(1) div mb' fits refl, of ChunkedPrefill "()" "()" False "[]" 1 "([], [], [])"]
    unfolding Let_def by (elim exE conjE) (rule that)
  note md = md [unfolded dom, unfolded second_reordered_facts]
  have "mm_num_decodes md = 1"
    using md(2) by (cases "mm_num_decodes md"; cases "mm_num_decodes md - 1") (auto split: if_splits)
  then show ?thesis using p(1) mb md(1,3,4) by (intro exI [of _ p] exI [of _ mb] exI [of _ md]) (simp add: second_counts)
qed

end
