(* ===== verification/Py_Heapq.thy ===== *)
theory Py_Heapq
  imports Prelude "HOL-Library.Multiset"
begin

section \<open>Priority queues of \<^verbatim>\<open>heapq\<close>\<close>

text \<open>
  Python's \<^verbatim>\<open>heapq\<close> on lists: \<^verbatim>\<open>heappush\<close>, \<^verbatim>\<open>heappop\<close> and \<^verbatim>\<open>heapify\<close> with their two loops, which move a hole
  through the list. The contract \<open>priority_queue\<close> is what a client relies on: the entries as a multiset, an
  order invariant, and the least entry at the front.
\<close>

subsection \<open>The loops\<close>

definition parent :: "nat \<Rightarrow> nat" where
  "parent i = (i - 1) div 2"

lemma parent_less: "0 < i \<Longrightarrow> parent i < i"
  by (simp add: parent_def)

lemma parent_eq: "0 < c \<Longrightarrow> parent c = p \<longleftrightarrow> c = 2 * p + 1 \<or> c = 2 * p + 2"
  unfolding parent_def by presburger

function siftdown :: "'a::linorder list \<Rightarrow> nat \<Rightarrow> nat \<Rightarrow> 'a \<Rightarrow> 'a list" where
  "siftdown heap startpos pos newitem =
     (if startpos < pos \<and> newitem < heap ! parent pos
      then siftdown (heap[pos := heap ! parent pos]) startpos (parent pos) newitem
      else heap[pos := newitem])"
  by auto
termination by (relation "measure (\<lambda>(_, _, pos, _). pos)") (auto intro: parent_less)

declare siftdown.simps [simp del]

definition smaller_child :: "'a::linorder list \<Rightarrow> nat \<Rightarrow> nat" where
  "smaller_child heap pos =
     (let childpos = 2 * pos + 1; rightpos = childpos + 1 in
      if rightpos < length heap \<and> \<not> heap ! childpos < heap ! rightpos then rightpos else childpos)"

function siftup :: "'a::linorder list \<Rightarrow> nat \<Rightarrow> nat \<Rightarrow> 'a \<Rightarrow> 'a list" where
  "siftup heap startpos pos newitem =
     (if 2 * pos + 1 < length heap
      then siftup (heap[pos := heap ! smaller_child heap pos]) startpos (smaller_child heap pos) newitem
      else siftdown heap startpos pos newitem)"
  by auto
termination
  by (relation "measure (\<lambda>(heap, _, pos, _). length heap - pos)") (auto simp: smaller_child_def Let_def)

declare siftup.simps [simp del]

definition heappush :: "'a::linorder list \<Rightarrow> 'a \<Rightarrow> 'a list" where
  "heappush heap item = siftdown (heap @ [item]) 0 (length heap) item"

definition heappop :: "'a::linorder list \<Rightarrow> ('a \<times> 'a list) result" where
  "heappop heap =
     (if heap = [] then Inl IndexError
      else if butlast heap = [] then Inr (last heap, [])
      else Inr (hd heap, siftup (butlast heap) 0 0 (last heap)))"

definition heapify :: "'a::linorder list \<Rightarrow> 'a list" where
  "heapify xs = foldl (\<lambda>heap i. siftup heap i i (heap ! i)) xs (rev [0..<length xs div 2])"

subsection \<open>The entries\<close>

lemma mset_fill:
  "pos < length heap \<Longrightarrow> p < length heap \<Longrightarrow> p \<noteq> pos \<Longrightarrow>
   mset (heap[pos := heap ! p, p := x]) = mset (heap[pos := x])"
  by (simp add: mset_update nth_list_update add_mset_commute diff_union_swap in_set_conv_nth)

lemma length_siftdown [simp]: "length (siftdown heap s pos x) = length heap"
  by (induction heap s pos x rule: siftdown.induct) (subst siftdown.simps, auto)

lemma siftdown_end: "\<not> (startpos < pos \<and> x < heap ! parent pos) \<Longrightarrow> siftdown heap startpos pos x = heap[pos := x]"
  by (subst siftdown.simps) (simp only: if_False)

lemma siftdown_step:
  "startpos < pos \<and> x < heap ! parent pos \<Longrightarrow>
   siftdown heap startpos pos x = siftdown (heap[pos := heap ! parent pos]) startpos (parent pos) x"
  by (subst siftdown.simps) (simp only: simp_thms if_True)

lemma mset_siftdown: "pos < length heap \<Longrightarrow> mset (siftdown heap s pos x) = mset (heap[pos := x])"
proof (induction heap s pos x rule: siftdown.induct)
  case (1 heap s pos x)
  show ?case
  proof (cases "s < pos \<and> x < heap ! parent pos")
    case True
    then have "parent pos < length heap" "parent pos \<noteq> pos" using 1(2) parent_less [of pos] by auto
    then show ?thesis using 1(1) [OF True] 1(2) siftdown_step [OF True] mset_fill [of pos heap "parent pos" x] by simp
  next
    case False
    then show ?thesis by (simp only: siftdown_end not_False_eq_True)
  qed
qed

lemma smaller_child_child:
  assumes "2 * pos + 1 < length heap"
  shows "smaller_child heap pos < length heap" "parent (smaller_child heap pos) = pos" "pos < smaller_child heap pos"
    "\<And>c. c < length heap \<Longrightarrow> 0 < c \<Longrightarrow> parent c = pos \<Longrightarrow> heap ! smaller_child heap pos \<le> heap ! c"
proof -
  show "smaller_child heap pos < length heap" "parent (smaller_child heap pos) = pos" "pos < smaller_child heap pos"
    using assms by (auto simp: smaller_child_def Let_def parent_def)
  fix c assume c: "c < length heap" "0 < c" "parent c = pos"
  then have "c = 2 * pos + 1 \<or> c = 2 * pos + 2" using parent_eq by blast
  then show "heap ! smaller_child heap pos \<le> heap ! c" using c(1) by (auto simp: smaller_child_def Let_def)
qed

lemma mset_siftup: "pos < length heap \<Longrightarrow> mset (siftup heap s pos x) = mset (heap[pos := x])"
proof (induction heap s pos x rule: siftup.induct)
  case (1 heap s pos x)
  show ?case
  proof (cases "2 * pos + 1 < length heap")
    case True
    note c = smaller_child_child [OF True]
    show ?thesis using 1(1) [OF True] 1(2) True c(1,3) mset_fill [of pos heap "smaller_child heap pos" x] by (subst siftup.simps) simp
  next
    case False
    then show ?thesis using mset_siftdown [OF 1(2)] by (subst siftup.simps) simp
  qed
qed

subsection \<open>The order\<close>

definition heap_from :: "nat \<Rightarrow> 'a::linorder list \<Rightarrow> bool" where
  "heap_from s xs \<longleftrightarrow> (\<forall>i < length xs. 0 < i \<and> s \<le> parent i \<longrightarrow> xs ! parent i \<le> xs ! i)"

text \<open>The positions of the subtree with root \<open>s\<close>.\<close>

inductive below :: "nat \<Rightarrow> nat \<Rightarrow> bool" for s where
  below_root: "below s s"
| below_child: "below s p \<Longrightarrow> parent c = p \<Longrightarrow> 0 < c \<Longrightarrow> below s c"

inductive_cases belowE: "below s c"

lemma below_le: "below s p \<Longrightarrow> s \<le> p"
proof (induction rule: below.induct)
  case (below_child p c)
  then show ?case using parent_less [of c] by simp
qed simp

lemma below_parent: "below s p \<Longrightarrow> s < p \<Longrightarrow> below s (parent p) \<and> s \<le> parent p"
  by (erule belowE) (auto dest: below_le)

text \<open>A hole at \<open>pos\<close>: everything is in order but the edges at the hole, and the edges across it are.\<close>

definition hole_at :: "nat \<Rightarrow> nat \<Rightarrow> 'a::linorder list \<Rightarrow> bool" where
  "hole_at s pos xs \<longleftrightarrow> below s pos \<and> pos < length xs \<and>
     (\<forall>i < length xs. 0 < i \<and> s \<le> parent i \<and> i \<noteq> pos \<and> parent i \<noteq> pos \<longrightarrow> xs ! parent i \<le> xs ! i) \<and>
     (s < pos \<longrightarrow> (\<forall>c < length xs. 0 < c \<and> parent c = pos \<longrightarrow> xs ! parent pos \<le> xs ! c))"

lemma hole_up:
  assumes "hole_at s pos xs" "s < pos"
  shows "hole_at s (parent pos) (xs[pos := xs ! parent pos])"
proof -
  let ?p = "parent pos"
  have b: "below s ?p" "s \<le> ?p" "?p \<noteq> pos" "pos < length xs" "?p < length xs"
    using below_parent [of s pos] parent_less [of pos] assms by (auto simp: hole_at_def)
  have ord: "xs ! parent i \<le> xs ! i" if "i < length xs" "0 < i" "s \<le> parent i" "i \<noteq> pos" "parent i \<noteq> pos" for i
    using assms(1) that by (simp add: hole_at_def)
  have across: "xs ! ?p \<le> xs ! c" if "c < length xs" "0 < c" "parent c = pos" for c using assms that by (simp add: hole_at_def)
  have 1: "xs[pos := xs ! ?p] ! parent i \<le> xs[pos := xs ! ?p] ! i"
    if "i < length xs" "0 < i" "s \<le> parent i" "i \<noteq> ?p" "parent i \<noteq> ?p" for i
    using that ord across b(4) by (cases "parent i = pos") (auto simp: nth_list_update)
  have 2: "xs[pos := xs ! ?p] ! parent ?p \<le> xs[pos := xs ! ?p] ! c" if "s < ?p" "c < length xs" "0 < c" "parent c = ?p" for c
  proof -
    have q: "s \<le> parent ?p" "parent ?p < ?p" "?p < pos"
      using below_parent [OF b(1) that(1)] parent_less [of ?p] parent_less [of pos] that(1) assms(2) by auto
    then have "parent ?p \<noteq> pos" by simp
    have "xs ! parent ?p \<le> xs ! ?p" using ord [of ?p] b that(1) q by simp
    moreover have "xs ! ?p \<le> xs ! c" if "c \<noteq> pos" using ord [of c] \<open>parent c = ?p\<close> \<open>0 < c\<close> \<open>c < length xs\<close> b that by simp
    ultimately show ?thesis using that(2) \<open>parent ?p \<noteq> pos\<close> b(4) by (auto simp: nth_list_update)
  qed
  show ?thesis using b 1 2 by (simp add: hole_at_def)
qed

lemma siftdown_order:
  "hole_at s pos xs \<Longrightarrow> \<forall>c < length xs. 0 < c \<and> parent c = pos \<longrightarrow> x \<le> xs ! c \<Longrightarrow> heap_from s (siftdown xs s pos x)"
proof (induction xs s pos x rule: siftdown.induct)
  case (1 xs s pos x)
  show ?case
  proof (cases "s < pos \<and> x < xs ! parent pos")
    case True
    have p: "parent pos \<noteq> pos" "pos < length xs" using True 1(2) parent_less [of pos] by (auto simp: hole_at_def)
    have "x \<le> xs[pos := xs ! parent pos] ! c" if "c < length xs" "0 < c" "parent c = parent pos" for c
    proof (cases "c = pos")
      case False
      have "xs ! parent pos \<le> xs ! c"
        using 1(2) that False p True below_parent [of s pos] by (auto simp: hole_at_def)
      then have "x \<le> xs ! c" using conjunct2 [OF True] by simp
      then show ?thesis using False by simp
    qed (use conjunct2 [OF True] p in simp)
    then show ?thesis using 1(1) [OF True hole_up [OF 1(2)]] True siftdown_step [OF True] by simp
  next
    case False
    have "xs[pos := x] ! parent i \<le> xs[pos := x] ! i" if "i < length xs" "0 < i" "s \<le> parent i" for i
    proof -
      have "parent i < i" using that(2) by (rule parent_less)
      then show ?thesis
        using that 1(2,3) False by (cases "i = pos"; cases "parent i = pos") (auto simp: hole_at_def not_less)
    qed
    then show ?thesis unfolding siftdown_end [OF False] by (simp add: heap_from_def)
  qed
qed

lemma hole_down:
  assumes "hole_at s pos xs" "2 * pos + 1 < length xs"
  shows "hole_at s (smaller_child xs pos) (xs[pos := xs ! smaller_child xs pos])"
proof -
  let ?c = "smaller_child xs pos"
  note c = smaller_child_child [OF assms(2)]
  have b: "below s pos" "s \<le> pos" "pos < length xs" using assms(1) below_le by (auto simp: hole_at_def)
  have ord: "xs ! parent i \<le> xs ! i" if "i < length xs" "0 < i" "s \<le> parent i" "i \<noteq> pos" "parent i \<noteq> pos" for i
    using assms(1) that by (simp add: hole_at_def)
  have 1: "xs[pos := xs ! ?c] ! parent i \<le> xs[pos := xs ! ?c] ! i"
    if "i < length xs" "0 < i" "s \<le> parent i" "i \<noteq> ?c" "parent i \<noteq> ?c" for i
  proof -
    have "parent i < i" using that(2) by (rule parent_less)
    moreover have "xs ! parent pos \<le> xs ! ?c" if "s < pos" using assms(1) that c by (simp add: hole_at_def)
    ultimately show ?thesis
      using that ord c(4) [of i] b by (cases "i = pos"; cases "parent i = pos") (auto simp: nth_list_update)
  qed
  have 2: "xs[pos := xs ! ?c] ! parent ?c \<le> xs[pos := xs ! ?c] ! d" if "d < length xs" "0 < d" "parent d = ?c" for d
  proof -
    have "d \<noteq> pos" using that(3) c(3) parent_less [OF that(2)] by auto
    then show ?thesis using ord [of d] that c b by simp
  qed
  show ?thesis using below_child [OF b(1) c(2)] c 1 2 by (simp add: hole_at_def)
qed

lemma siftup_order: "hole_at s pos xs \<Longrightarrow> heap_from s (siftup xs s pos x)"
proof (induction xs s pos x rule: siftup.induct)
  case (1 xs s pos x)
  show ?case
  proof (cases "2 * pos + 1 < length xs")
    case True
    then show ?thesis using 1(1) [OF True hole_down [OF 1(2) True]] by (subst siftup.simps) simp
  next
    case False
    then have "\<forall>c < length xs. 0 < c \<and> parent c = pos \<longrightarrow> x \<le> xs ! c" 
    proof (intro allI impI)
      fix c assume c: "c < length xs" "0 < c \<and> parent c = pos"
      then have "c = 2 * pos + 1 \<or> c = 2 * pos + 2" using parent_eq [of c pos] by simp
      then show "x \<le> xs ! c" using c(1) False by linarith
    qed
    then show ?thesis using siftdown_order [OF 1(2)] False by (subst siftup.simps) simp
  qed
qed

lemma root_least: "heap_from 0 xs \<Longrightarrow> i < length xs \<Longrightarrow> xs ! 0 \<le> xs ! i"
proof (induction i rule: less_induct)
  case (less i)
  show ?case
  proof (cases "i = 0")
    case False
    then have "parent i < i" by (simp add: parent_less)
    then have "xs ! 0 \<le> xs ! parent i" "xs ! parent i \<le> xs ! i" using less False by (auto simp: heap_from_def)
    then show ?thesis by simp
  qed simp
qed

lemma mset_heappush: "mset (heappush xs x) = add_mset x (mset xs)"
  by (simp add: heappush_def mset_siftdown list_update_append)

lemma heap_heappush:
  assumes "heap_from 0 xs" shows "heap_from 0 (heappush xs x)"
proof -
  have lt: "parent i < length xs" if "0 < i" "i < Suc (length xs)" for i using parent_less [OF that(1)] that(2) by simp
  have b: "below 0 i" for i
  proof (induction i rule: less_induct)
    case (less i)
    show ?case
      by (cases "i = 0") (auto intro: below_root below_child [OF less.IH [of "parent i"] refl] parent_less)
  qed
  have "(xs @ [x]) ! parent i \<le> (xs @ [x]) ! i"
    if "i < length (xs @ [x])" "0 < i" "i \<noteq> length xs" for i
  proof -
    have "i < length xs" using that(1,3) by simp
    moreover from this have "parent i < length xs" using parent_less [OF that(2)] by simp
    ultimately show ?thesis using assms that(2) by (simp add: heap_from_def nth_append)
  qed
  moreover have no_child: "parent c \<noteq> length xs" if "c < length (xs @ [x])" "0 < c" for c using lt [OF that(2)] that(1) by simp
  ultimately have "hole_at 0 (length xs) (xs @ [x])"
    unfolding hole_at_def using b [of "length xs"] by (intro conjI allI impI) (simp_all, metis no_child length_append_singleton)
  moreover have "\<forall>c < length (xs @ [x]). 0 < c \<and> parent c = length xs \<longrightarrow> x \<le> (xs @ [x]) ! c" using no_child by blast
  ultimately show ?thesis by (simp add: heappush_def siftdown_order)
qed

lemma heappop_ok:
  assumes "xs \<noteq> []"
  shows "\<exists>x ys. heappop xs = Inr (x, ys) \<and> x = hd xs \<and> mset xs = add_mset x (mset ys) \<and> (heap_from 0 xs \<longrightarrow> heap_from 0 ys)"
proof (cases "butlast xs")
  case Nil
  then have "xs = [last xs]" using assms append_butlast_last_id [OF assms] by simp
  then show ?thesis using assms Nil by (cases xs) (auto simp: heappop_def heap_from_def)
next
  case (Cons y zs)
  have xs: "xs = butlast xs @ [last xs]" using assms by simp
  have hd: "hd xs = y" using arg_cong [OF xs, of hd] Cons by simp
  have "mset (siftup (butlast xs) 0 0 (last xs)) = mset (last xs # zs)" using Cons mset_siftup [of 0 "butlast xs" 0 "last xs"] by simp
  moreover have "mset xs = mset (y # zs @ [last xs])" using arg_cong [OF xs, of mset] Cons by simp
  moreover have "heap_from 0 (siftup (butlast xs) 0 0 (last xs))" if "heap_from 0 xs"
  proof (rule siftup_order)
    have "butlast xs ! parent i \<le> butlast xs ! i" if i: "i < length (butlast xs)" "0 < i" for i
    proof -
      have "parent i < length (butlast xs)" using parent_less [OF i(2)] i(1) by simp
      then show ?thesis using \<open>heap_from 0 xs\<close> i by (simp only: heap_from_def nth_butlast) simp
    qed
    moreover have "0 < length (butlast xs)" using Cons by simp
    ultimately show "hole_at 0 0 (butlast xs)" unfolding hole_at_def using below_root by blast
  qed
  ultimately show ?thesis using assms Cons hd by (simp add: heappop_def)
qed

lemma heappop_least: "heap_from 0 xs \<Longrightarrow> heappop xs = Inr (x, ys) \<Longrightarrow> \<forall>y \<in># mset xs. x \<le> y"
  using heappop_ok [of xs] root_least [of xs] by (cases xs) (fastforce simp: heappop_def in_set_conv_nth)+

lemma heapify_ok: "mset (heapify xs) = mset xs \<and> heap_from 0 (heapify xs)"
proof -
  have "mset ys = mset xs \<and> heap_from k ys \<Longrightarrow> k \<le> length xs div 2 \<Longrightarrow>
      mset (foldl (\<lambda>heap i. siftup heap i i (heap ! i)) ys (rev [0..<k])) = mset xs \<and>
      heap_from 0 (foldl (\<lambda>heap i. siftup heap i i (heap ! i)) ys (rev [0..<k]))" for k and ys :: "'a list"
  proof (induction k arbitrary: ys)
    case (Suc k)
    let ?zs = "siftup ys k k (ys ! k)"
    have len: "length ys = length xs" using Suc.prems(1) mset_eq_length by blast
    have k: "k < length ys" using Suc.prems(2) len by simp
    have "hole_at k k ys" using Suc.prems(1) k by (auto simp: hole_at_def below_root heap_from_def)
    then have "heap_from k ?zs" by (rule siftup_order)
    moreover have "mset ?zs = mset xs" using mset_siftup [OF k, of k "ys ! k"] Suc.prems(1) by simp
    ultimately show ?case using Suc.IH [of ?zs] Suc.prems(2) by simp
  qed simp
  moreover have "heap_from (length xs div 2) xs" by (auto simp: heap_from_def parent_def)
  ultimately show ?thesis by (simp add: heapify_def)
qed

subsection \<open>The contract\<close>

locale priority_queue =
  fixes push :: "'q \<Rightarrow> 'a::linorder \<Rightarrow> 'q"
    and pop :: "'q \<Rightarrow> ('a \<times> 'q) result"
    and entries :: "'q \<Rightarrow> 'a multiset"
    and in_order :: "'q \<Rightarrow> bool"
  assumes push_entries: "entries (push q x) = add_mset x (entries q)"
    and push_order: "in_order q \<Longrightarrow> in_order (push q x)"
    and pop_entries: "entries q \<noteq> {#} \<Longrightarrow> \<exists>x q'. pop q = Inr (x, q') \<and> entries q = add_mset x (entries q')"
    and pop_order: "in_order q \<Longrightarrow> pop q = Inr (x, q') \<Longrightarrow> in_order q' \<and> (\<forall>y \<in># entries q. x \<le> y)"

interpretation heapq: priority_queue heappush heappop mset "heap_from 0"
proof unfold_locales
  fix q :: "'a list" and x q'
  show "mset q \<noteq> {#} \<Longrightarrow> \<exists>x q'. heappop q = Inr (x, q') \<and> mset q = add_mset x (mset q')" using heappop_ok [of q] by auto
  assume q: "heap_from 0 q" "heappop q = Inr (x, q')"
  then have "q \<noteq> []" by (auto simp: heappop_def)
  then have "heap_from 0 q'" using heappop_ok [of q] q by auto
  then show "heap_from 0 q' \<and> (\<forall>y \<in># mset q. x \<le> y)" using heappop_least [OF q] by (intro conjI)
qed (simp_all add: mset_heappush heap_heappush)

end
