(* ===== verification/Proxy_Server.thy ===== *)
theory Proxy_Server
  imports Py_Heapq "HOL-Library.Product_Lexorder"
begin

section \<open>The load balancing proxy\<close>

text \<open>
  The proxy in front of the prefill and decode servers (\<^verbatim>\<open>load_balance_proxy_server_example.py\<close>):
  \<^verbatim>\<open>ServerState\<close> and \<^verbatim>\<open>ProxyState\<close> with their priority queues, the two loops that retry a request, and the
  handler of a completion request. The handler is a coroutine; the code between two of its suspension points runs
  without interruption and is one definition here (\<open>arrive\<close>, \<open>prefill_replied\<close>, \<open>stream_chunk\<close>,
  \<open>stream_finished\<close>, \<open>stream_failed\<close>), and \<open>loop_step\<close> interleaves those of all requests in every order.
  Scores are rational numbers, where Python has floats. Request ids are the numbers whose decimals the code uses.
\<close>

subsection \<open>State\<close>

record server =
  srv_host :: string
  srv_port :: int
  active_tokens :: rat
  active_kv_cache :: rat
  aborted_requests :: "nat set"

definition server_init :: "string \<times> int \<Rightarrow> server" where
  "server_init hp = \<lparr>srv_host = fst hp, srv_port = snd hp, active_tokens = 0, active_kv_cache = 0, aborted_requests = {}\<rparr>"

type_synonym load_queue = "(rat \<times> nat) list"

record proxy =
  prefillers :: "server list"
  decoders :: "server list"
  req_id_counter :: nat
  prefiller_heap :: load_queue
  decoder_heap :: load_queue

definition proxy_init :: "(string \<times> int) list \<Rightarrow> (string \<times> int) list \<Rightarrow> proxy" where
  "proxy_init prefiller_instances decoder_instances =
     \<lparr>prefillers = map server_init prefiller_instances, decoders = map server_init decoder_instances, req_id_counter = 0,
      prefiller_heap = heapify (map (\<lambda>i. (0, i)) [0..<length prefiller_instances]),
      decoder_heap = heapify (map (\<lambda>i. (0, i)) [0..<length decoder_instances])\<rparr>"

definition zip_instances :: "string list \<Rightarrow> int list \<Rightarrow> (string \<times> int) list result" where
  "zip_instances hosts ports = (if length hosts \<noteq> length ports then Inl ValueError else Inr (zip hosts ports))"

subsection \<open>Choosing and releasing a server\<close>

definition prefiller_priority :: "server \<Rightarrow> rat" where
  "prefiller_priority s = active_tokens s + active_kv_cache s * (3 / 10)"

text \<open>The old entry of the server is filtered out of the list and the new one is pushed onto what is left.\<close>

definition replace_entry :: "nat \<Rightarrow> rat \<Rightarrow> load_queue \<Rightarrow> load_queue" where
  "replace_entry server_idx priority heap = heappush (filter (\<lambda>e. snd e \<noteq> server_idx) heap) (priority, server_idx)"

definition update_prefiller_priority :: "nat \<Rightarrow> proxy \<Rightarrow> proxy result" where
  "update_prefiller_priority i p =
     (if i < length (prefillers p)
      then Inr (p\<lparr>prefiller_heap := replace_entry i (prefiller_priority (prefillers p ! i)) (prefiller_heap p)\<rparr>)
      else Inl IndexError)"

definition update_decoder_priority :: "nat \<Rightarrow> proxy \<Rightarrow> proxy result" where
  "update_decoder_priority i p =
     (if i < length (decoders p)
      then Inr (p\<lparr>decoder_heap := replace_entry i (active_tokens (decoders p ! i)) (decoder_heap p)\<rparr>)
      else Inl IndexError)"

definition on_prefiller :: "nat \<Rightarrow> (server \<Rightarrow> server) \<Rightarrow> proxy \<Rightarrow> proxy result" where
  "on_prefiller i f p =
     (if i < length (prefillers p) then Inr (p\<lparr>prefillers := (prefillers p)[i := f (prefillers p ! i)]\<rparr>) else Inl IndexError)"

definition on_decoder :: "nat \<Rightarrow> (server \<Rightarrow> server) \<Rightarrow> proxy \<Rightarrow> proxy result" where
  "on_decoder i f p =
     (if i < length (decoders p) then Inr (p\<lparr>decoders := (decoders p)[i := f (decoders p ! i)]\<rparr>) else Inl IndexError)"

definition abort_prefiller_request :: "nat \<Rightarrow> nat \<Rightarrow> proxy \<Rightarrow> proxy result" where
  "abort_prefiller_request i r = on_prefiller i (\<lambda>s. s\<lparr>aborted_requests := insert r (aborted_requests s)\<rparr>)"

definition aquire_aborted_prefiller_requests :: "nat \<Rightarrow> proxy \<Rightarrow> (nat set \<times> proxy) result" where
  "aquire_aborted_prefiller_requests i p =
     res_bind (on_prefiller i (\<lambda>s. s\<lparr>aborted_requests := {}\<rparr>) p) (\<lambda>p'. Inr (aborted_requests (prefillers p ! i), p'))"

definition next_req_id :: "proxy \<Rightarrow> nat \<times> proxy" where
  "next_req_id p = (req_id_counter p + 1, p\<lparr>req_id_counter := req_id_counter p + 1\<rparr>)"

definition select_prefiller :: "rat \<Rightarrow> proxy \<Rightarrow> (nat \<times> proxy) result" where
  "select_prefiller token_count p =
     (if prefiller_heap p = [] then Inl RuntimeError
      else res_bind (heappop (prefiller_heap p)) (\<lambda>((_, chosen), heap).
        res_bind (on_prefiller chosen
            (\<lambda>s. s\<lparr>active_tokens := active_tokens s + token_count, active_kv_cache := active_kv_cache s + token_count\<rparr>)
            (p\<lparr>prefiller_heap := heap\<rparr>)) (\<lambda>p1.
        res_bind (update_prefiller_priority chosen p1) (\<lambda>p2. Inr (chosen, p2)))))"

definition release_prefiller :: "nat \<Rightarrow> rat \<Rightarrow> proxy \<Rightarrow> proxy result" where
  "release_prefiller i token_count p =
     res_bind (on_prefiller i (\<lambda>s. s\<lparr>active_tokens := active_tokens s - token_count\<rparr>) p) (update_prefiller_priority i)"

definition release_prefiller_kv :: "nat \<Rightarrow> rat \<Rightarrow> proxy \<Rightarrow> proxy result" where
  "release_prefiller_kv i token_count p =
     res_bind (on_prefiller i (\<lambda>s. if 0 < active_kv_cache s then s\<lparr>active_kv_cache := active_kv_cache s - token_count\<rparr> else s) p)
       (update_prefiller_priority i)"

definition select_decoder :: "rat \<Rightarrow> proxy \<Rightarrow> (nat \<times> proxy) result" where
  "select_decoder token_count p =
     (if decoder_heap p = [] then Inl RuntimeError
      else res_bind (heappop (decoder_heap p)) (\<lambda>((_, chosen), heap).
        res_bind (on_decoder chosen (\<lambda>s. s\<lparr>active_tokens := active_tokens s + token_count\<rparr>) (p\<lparr>decoder_heap := heap\<rparr>)) (\<lambda>p1.
        res_bind (update_decoder_priority chosen p1) (\<lambda>p2. Inr (chosen, p2)))))"

definition release_decoder :: "nat \<Rightarrow> rat \<Rightarrow> proxy \<Rightarrow> proxy result" where
  "release_decoder i token_count p =
     res_bind (on_decoder i (\<lambda>s. s\<lparr>active_tokens := active_tokens s - token_count\<rparr>) p) (update_decoder_priority i)"

definition calculate_prefill_scores :: "nat \<Rightarrow> rat" where
  "calculate_prefill_scores request_length = of_nat request_length / 4 * (345 / 10000) + 1200745 / 10000"

definition calculate_decode_scores :: "nat \<Rightarrow> rat" where
  "calculate_decode_scores request_length = of_nat request_length"

subsection \<open>Retries\<close>

text \<open>What an attempt meets: an answer, an \<^verbatim>\<open>httpx.RequestError\<close> or \<^verbatim>\<open>HTTPStatusError\<close>, another exception.\<close>

datatype http_error = RequestError | HTTPStatusError | OtherError

fun transient :: "http_error \<Rightarrow> bool" where
  "transient OtherError = False"
| "transient _ = True"

datatype 'r reply = Answer 'r | Raised http_error | NoAnswer

text \<open>
  Attempts \<open>attempt\<close> to \<open>max_retries\<close>; the second component lists the delays slept, in units of \<open>base_delay\<close>.
  A loop without an attempt falls through and returns \<^verbatim>\<open>None\<close>: \<open>NoAnswer\<close>.
\<close>

function post_attempts :: "nat \<Rightarrow> (nat \<Rightarrow> http_error + 'r) \<Rightarrow> nat \<Rightarrow> 'r reply \<times> nat list" where
  "post_attempts max_retries post attempt =
     (if max_retries < attempt then (NoAnswer, [])
      else case post attempt of
          Inr response \<Rightarrow> (Answer response, [])
        | Inl e \<Rightarrow>
            if \<not> transient e then (Raised e, [])
            else if attempt < max_retries
            then (let (r, delays) = post_attempts max_retries post (attempt + 1) in (r, 2 ^ (attempt - 1) # delays))
            else (Raised e, []))"
  by auto
termination by (relation "measure (\<lambda>(m, _, a). m - a)") auto

declare post_attempts.simps [simp del]

definition send_request_to_service :: "nat \<Rightarrow> (nat \<Rightarrow> http_error + 'r) \<Rightarrow> 'r reply \<times> nat list" where
  "send_request_to_service max_retries post = post_attempts max_retries post 1"

text \<open>
  A streaming attempt fails before the answer starts (\<open>Refused\<close>), or yields chunks and then ends or fails.
  \<^verbatim>\<open>first_chunk_sent\<close> is a local of the whole loop: it is reset when an answer starts, not when an attempt does.
\<close>

datatype 'c stream = Refused http_error | Chunks "'c list" "http_error option"

function stream_attempts :: "nat \<Rightarrow> (nat \<Rightarrow> 'c stream) \<Rightarrow> bool \<Rightarrow> nat \<Rightarrow> 'c list \<times> http_error option" where
  "stream_attempts max_retries open_stream first_chunk_sent attempt =
     (if max_retries < attempt then ([], None)
      else
        let (chunks, failure, sent) =
              (case open_stream attempt of
                 Refused e \<Rightarrow> ([], Some e, first_chunk_sent)
               | Chunks cs f \<Rightarrow> (cs, f, cs \<noteq> []));
            retry = (if attempt < max_retries
                     then (let (more, r) = stream_attempts max_retries open_stream sent (attempt + 1) in (chunks @ more, r))
                     else (chunks, failure)) in
        case failure of
          None \<Rightarrow> (chunks, None)
        | Some e \<Rightarrow> if transient e then retry else if sent then (chunks, None) else retry)"
  by auto
termination by (relation "measure (\<lambda>(m, _, _, a). m - a)") auto

declare stream_attempts.simps [simp del]

definition stream_service_response_with_retry :: "nat \<Rightarrow> (nat \<Rightarrow> 'c stream) \<Rightarrow> 'c list \<times> http_error option" where
  "stream_service_response_with_retry max_retries open_stream = stream_attempts max_retries open_stream False 1"

subsection \<open>The handler of a request\<close>

text \<open>
  Where a request of a given length is: turned away, at a prefiller, streaming from a decoder (with the flag
  \<^verbatim>\<open>released_kv\<close>), ended, or given up at one of these points.
\<close>

datatype phase =
    Rejected
  | Prefilling nat nat
  | PrefillFailed nat nat
  | NoDecoder nat nat
  | Streaming nat nat nat bool
  | Finished nat nat bool
  | StreamFailed nat nat bool
  | Cancelled nat nat nat bool

record proxy_loop =
  px :: proxy
  phases :: "phase list"

text \<open>
  Up to the first suspension: the id, the prefiller, the ids of aborted requests that are sent along. The
  request with id \<open>k + 1\<close> is in phase \<open>phases ! k\<close>.
\<close>

definition arrive :: "nat \<Rightarrow> proxy_loop \<Rightarrow> (nat set \<times> proxy_loop)" where
  "arrive request_length s =
     (let (request_id, p1) = next_req_id (px s) in
      case res_bind (select_prefiller (calculate_prefill_scores request_length) p1) (\<lambda>(prefiller_idx, p2).
           res_bind (aquire_aborted_prefiller_requests prefiller_idx p2) (\<lambda>(aborted, p3). Inr (prefiller_idx, aborted, p3)))
      of Inl _ \<Rightarrow> ({}, \<lparr>px = p1, phases = phases s @ [Rejected]\<rparr>)
       | Inr (prefiller_idx, aborted, p3) \<Rightarrow>
           (aborted, \<lparr>px = p3, phases = phases s @ [Prefilling prefiller_idx request_length]\<rparr>))"

text \<open>
  The prefiller has answered, with a JSON body or without one: the body is decoded after the prefiller is released.
  Without a body, or without a decoder, the handler raises.
\<close>

definition prefill_replied :: "bool \<Rightarrow> nat \<Rightarrow> nat \<Rightarrow> nat \<Rightarrow> proxy_loop \<Rightarrow> proxy_loop result" where
  "prefill_replied has_json k prefiller_idx request_length s =
     res_bind (release_prefiller prefiller_idx (calculate_prefill_scores request_length) (px s)) (\<lambda>p1.
       let raised = \<lparr>px = p1, phases = (phases s)[k := NoDecoder prefiller_idx request_length]\<rparr> in
       if \<not> has_json then Inr raised
       else case select_decoder (calculate_decode_scores request_length) p1 of
           Inl _ \<Rightarrow> Inr raised
         | Inr (decoder_idx, p2) \<Rightarrow>
             Inr \<lparr>px = p2, phases = (phases s)[k := Streaming prefiller_idx request_length decoder_idx False]\<rparr>)"

definition stream_chunk :: "bool \<Rightarrow> nat \<Rightarrow> nat \<Rightarrow> nat \<Rightarrow> nat \<Rightarrow> bool \<Rightarrow> proxy_loop \<Rightarrow> proxy_loop result" where
  "stream_chunk nonempty k prefiller_idx request_length decoder_idx released_kv s =
     (if \<not> released_kv \<and> nonempty
      then res_bind (release_prefiller_kv prefiller_idx (calculate_prefill_scores request_length) (px s)) (\<lambda>p.
        Inr \<lparr>px = p, phases = (phases s)[k := Streaming prefiller_idx request_length decoder_idx True]\<rparr>)
      else Inr s)"

definition stream_finished :: "nat \<Rightarrow> nat \<Rightarrow> nat \<Rightarrow> nat \<Rightarrow> bool \<Rightarrow> proxy_loop \<Rightarrow> proxy_loop result" where
  "stream_finished k prefiller_idx request_length decoder_idx released_kv s =
     res_bind (release_decoder decoder_idx (calculate_decode_scores request_length) (px s)) (\<lambda>p.
       Inr \<lparr>px = p, phases = (phases s)[k := Finished prefiller_idx request_length released_kv]\<rparr>)"

definition stream_failed :: "nat \<Rightarrow> nat \<Rightarrow> nat \<Rightarrow> nat \<Rightarrow> bool \<Rightarrow> proxy_loop \<Rightarrow> proxy_loop result" where
  "stream_failed k prefiller_idx request_length decoder_idx released_kv s =
     res_bind (abort_prefiller_request prefiller_idx (k + 1) (px s)) (\<lambda>p1.
     res_bind (release_prefiller_kv prefiller_idx (calculate_prefill_scores request_length) p1) (\<lambda>p2.
     res_bind (release_decoder decoder_idx (calculate_decode_scores request_length) p2) (\<lambda>p3.
       Inr \<lparr>px = p3, phases = (phases s)[k := StreamFailed prefiller_idx request_length released_kv]\<rparr>)))"

text \<open>
  The events of the loop. When the request to the prefiller raises, and when the client goes away (the generator
  is closed, which is not an \<^verbatim>\<open>Exception\<close>), no code touches the state of the proxy.
\<close>

datatype loop_event =
    Arrive nat | PrefillReply nat bool | PrefillError nat
  | Chunk nat bool | StreamEnd nat | StreamError nat | Disconnect nat

definition give_up :: "nat \<Rightarrow> phase \<Rightarrow> proxy_loop \<Rightarrow> proxy_loop" where
  "give_up k ph s = s\<lparr>phases := (phases s)[k := ph]\<rparr>"

text \<open>\<open>None\<close>: the event does not occur in this state. \<open>Some (Inl e)\<close>: the code raises \<open>e\<close> where nothing handles it.\<close>

definition phase_of :: "proxy_loop \<Rightarrow> nat \<Rightarrow> phase" where
  "phase_of s k = (if k < length (phases s) then phases s ! k else Rejected)"

fun proxy_handle :: "loop_event \<Rightarrow> proxy_loop \<Rightarrow> proxy_loop result option" where
  "proxy_handle (Arrive n) s = Some (Inr (snd (arrive n s)))"
| "proxy_handle (PrefillReply k has_json) s =
     (case phase_of s k of Prefilling i n \<Rightarrow> Some (prefill_replied has_json k i n s) | _ \<Rightarrow> None)"
| "proxy_handle (PrefillError k) s =
     (case phase_of s k of Prefilling i n \<Rightarrow> Some (Inr (give_up k (PrefillFailed i n) s)) | _ \<Rightarrow> None)"
| "proxy_handle (Chunk k nonempty) s =
     (case phase_of s k of Streaming i n d b \<Rightarrow> Some (stream_chunk nonempty k i n d b s) | _ \<Rightarrow> None)"
| "proxy_handle (StreamEnd k) s =
     (case phase_of s k of Streaming i n d b \<Rightarrow> Some (stream_finished k i n d b s) | _ \<Rightarrow> None)"
| "proxy_handle (StreamError k) s =
     (case phase_of s k of Streaming i n d b \<Rightarrow> Some (stream_failed k i n d b s) | _ \<Rightarrow> None)"
| "proxy_handle (Disconnect k) s =
     (case phase_of s k of Streaming i n d b \<Rightarrow> Some (Inr (give_up k (Cancelled i n d b) s)) | _ \<Rightarrow> None)"

inductive loop_step :: "proxy_loop \<Rightarrow> loop_event \<Rightarrow> proxy_loop \<Rightarrow> bool" where
  loop_step: "proxy_handle e s = Some (Inr t) \<Longrightarrow> loop_step s e t"

inductive_simps loop_step_iff: "loop_step s e t"

definition loop_init :: "(string \<times> int) list \<Rightarrow> (string \<times> int) list \<Rightarrow> proxy_loop" where
  "loop_init ps ds = \<lparr>px = proxy_init ps ds, phases = []\<rparr>"

text \<open>A sequence of events, for runs that are computed.\<close>

fun proxy_handle_all :: "loop_event list \<Rightarrow> proxy_loop \<Rightarrow> proxy_loop option" where
  "proxy_handle_all [] s = Some s"
| "proxy_handle_all (e # es) s = (case proxy_handle e s of Some (Inr t) \<Rightarrow> proxy_handle_all es t | _ \<Rightarrow> None)"

end
