(* ===== verification/Proxy_Proofs.thy ===== *)
theory Proxy_Proofs
  imports Proxy_Server
begin

section \<open>Proofs about the proxy\<close>

text \<open>
  A queue holds one entry per server with its current priority (\<open>queue\<close>), whatever its order; with at most three
  servers it also stays in order. What the requests in their phases hold of a server's load is added up by \<open>held\<close>;
  \<open>loop_inv\<close> says that the loads of all servers are these sums, and every event keeps it.
\<close>

subsection \<open>Queues\<close>

definition queue :: "(nat \<Rightarrow> rat) \<Rightarrow> nat \<Rightarrow> load_queue \<Rightarrow> bool" where
  "queue f n heap \<longleftrightarrow> mset heap = image_mset (\<lambda>j. (f j, j)) (mset_set {..<n})"

lemma queue_cong: "(\<And>j. j < n \<Longrightarrow> f j = g j) \<Longrightarrow> queue f n heap \<longleftrightarrow> queue g n heap"
  unfolding queue_def by (subst image_mset_cong [of _ "\<lambda>j. (f j, j)" "\<lambda>j. (g j, j)"]) auto

lemma queue_set: "queue f n heap \<Longrightarrow> set heap = (\<lambda>j. (f j, j)) ` {..<n}"
  unfolding queue_def by (metis finite_lessThan finite_set_mset_mset_set set_image_mset set_mset_mset)

lemma queue_length: "queue f n heap \<Longrightarrow> length heap = n"
  unfolding queue_def by (metis card_lessThan size_image_mset size_mset size_mset_set)

lemma filter_mset_all: "\<forall>x \<in># M. P x \<Longrightarrow> filter_mset P M = M"
  by (induction M) auto

lemma queue_others:
  assumes "queue f n heap" "i < n"
  shows "filter_mset (\<lambda>e. snd e \<noteq> i) (mset heap) = image_mset (\<lambda>j. (f j, j)) (mset_set ({..<n} - {i}))"
    "mset heap = add_mset (f i, i) (image_mset (\<lambda>j. (f j, j)) (mset_set ({..<n} - {i})))"
proof -
  have "image_mset (\<lambda>j. (f j, j)) (mset_set {..<n}) = image_mset (\<lambda>j. (f j, j)) (add_mset i (mset_set ({..<n} - {i})))"
    using mset_set.remove [of "{..<n}" i] assms(2) by (intro arg_cong [of _ _ "image_mset (\<lambda>j. (f j, j))"]) simp
  also have "... = add_mset (f i, i) (image_mset (\<lambda>j. (f j, j)) (mset_set ({..<n} - {i})))" by simp
  finally show m: "mset heap = add_mset (f i, i) (image_mset (\<lambda>j. (f j, j)) (mset_set ({..<n} - {i})))"
    using assms(1) by (simp only: queue_def)
  moreover have "filter_mset (\<lambda>e. snd e \<noteq> i) (image_mset (\<lambda>j. (f j, j)) (mset_set ({..<n} - {i}))) =
    image_mset (\<lambda>j. (f j, j)) (mset_set ({..<n} - {i}))"
    by (rule filter_mset_all) auto
  ultimately show "filter_mset (\<lambda>e. snd e \<noteq> i) (mset heap) = image_mset (\<lambda>j. (f j, j)) (mset_set ({..<n} - {i}))"
    by (simp only: m filter_mset_add_mset snd_conv simp_thms if_False)
qed

lemma mset_replace_entry: "mset (replace_entry i p heap) = add_mset (p, i) (filter_mset (\<lambda>e. snd e \<noteq> i) (mset heap))"
  by (simp add: replace_entry_def mset_heappush)

lemma queue_replaced:
  assumes "filter_mset (\<lambda>e. snd e \<noteq> i) (mset heap) = image_mset (\<lambda>j. (f j, j)) (mset_set ({..<n} - {i}))" "i < n"
    and "g i = p" "\<And>j. j < n \<Longrightarrow> j \<noteq> i \<Longrightarrow> g j = f j"
  shows "queue g n (replace_entry i p heap)"
proof -
  have "mset_set {..<n} = add_mset i (mset_set ({..<n} - {i}))" using mset_set.remove [of "{..<n}" i] assms(2) by simp
  moreover have "image_mset (\<lambda>j. (g j, j)) (mset_set ({..<n} - {i})) = image_mset (\<lambda>j. (f j, j)) (mset_set ({..<n} - {i}))"
    using assms(4) by (intro image_mset_cong) simp
  ultimately show ?thesis
    using assms(3) by (simp only: queue_def mset_replace_entry assms(1) image_mset_add_mset)
qed

lemma queue_release:
  "queue f n heap \<Longrightarrow> i < n \<Longrightarrow> g i = p \<Longrightarrow> (\<And>j. j < n \<Longrightarrow> j \<noteq> i \<Longrightarrow> g j = f j) \<Longrightarrow> queue g n (replace_entry i p heap)"
  by (rule queue_replaced [OF queue_others(1)])

text \<open>What \<^verbatim>\<open>heappop\<close> does on a queue with at least one server.\<close>

lemma queue_pop:
  assumes "queue f n heap" "0 < n"
  obtains i rest where "heappop heap = Inr ((f i, i), rest)" "i < n" "i \<notin> snd ` set rest"
    "filter_mset (\<lambda>e. snd e \<noteq> i) (mset rest) = image_mset (\<lambda>j. (f j, j)) (mset_set ({..<n} - {i}))"
    "heap_from 0 heap \<longrightarrow> heap_from 0 rest \<and> (\<forall>j < n. f i \<le> f j)"
proof -
  have "heap \<noteq> []" using queue_length [OF assms(1)] assms(2) by auto
  then obtain e rest where e: "heappop heap = Inr (e, rest)" "mset heap = add_mset e (mset rest)"
    "heap_from 0 heap \<longrightarrow> heap_from 0 rest" using heappop_ok by blast
  have "e \<in> set heap" using arg_cong [OF e(2), of set_mset] by simp
  then obtain i where i: "e = (f i, i)" "i < n" using queue_set [OF assms(1)] by auto
  have rest: "mset rest = image_mset (\<lambda>j. (f j, j)) (mset_set ({..<n} - {i}))"
    using queue_others(2) [OF assms(1) i(2)] e(2) i(1) by simp
  have "f i \<le> f j" if "heap_from 0 heap" "j < n" for j
  proof -
    have "(f j, j) \<in># mset heap" using queue_set [OF assms(1)] that(2) by simp
    then have "(f i, i) \<le> (f j, j)" using heapq.pop_order [OF that(1) e(1)] i(1) by blast
    then show ?thesis by (simp add: less_eq_prod_def) linarith
  qed
  moreover have out: "i \<notin> snd ` set rest" using arg_cong [OF rest, of set_mset] by auto
  moreover have "filter_mset (\<lambda>e. snd e \<noteq> i) (mset rest) = mset rest"
    using out by (intro filter_mset_all) auto
  ultimately show ?thesis using that [of i rest] e(1,3) i rest by metis
qed

text \<open>With at most three entries a list is in order when its first entry is the least.\<close>

lemma small_heap: "length xs \<le> 3 \<Longrightarrow> heap_from 0 xs \<longleftrightarrow> (\<forall>x \<in> set xs. hd xs \<le> x)"
proof -
  assume l: "length xs \<le> 3"
  have p: "parent (Suc 0) = 0" "parent 2 = 0" by (simp_all add: parent_def)
  consider "xs = []" | a where "xs = [a]" | a b where "xs = [a, b]" | a b c where "xs = [a, b, c]"
    using l by (cases xs; cases "tl xs"; cases "tl (tl xs)") auto
  then show ?thesis by cases (auto simp: heap_from_def less_Suc_eq p numeral_2_eq_2 parent_def)
qed

lemma push_least:
  assumes "length xs \<le> 2" "\<forall>x \<in> set xs. y < x" shows "heap_from 0 (heappush xs y)"
proof -
  consider "xs = []" | a where "xs = [a]" | a b where "xs = [a, b]"
    using assms(1) by (cases xs; cases "tl xs") auto
  then show ?thesis
  proof cases
    case 1
    then show ?thesis by (intro heap_heappush) (simp add: heap_from_def)
  next
    case 2
    then show ?thesis by (intro heap_heappush) (simp add: heap_from_def parent_def)
  next
    case 3
    have "siftdown [a, b, y] 0 2 y = siftdown ([a, b, y][2 := [a, b, y] ! parent 2]) 0 (parent 2) y"
      by (rule siftdown_step) (use 3 assms(2) in \<open>simp add: parent_def\<close>)
    also have "... = [y, b, a]" by (simp add: parent_def siftdown_end)
    finally have "heappush xs y = [y, b, a]" using 3 by (simp add: heappush_def numeral_2_eq_2)
    then show ?thesis using 3 assms(2) by (simp add: small_heap less_imp_le)
  qed
qed

lemma release_in_order:
  assumes "queue f n heap" "n \<le> 3" "i < n" "heap_from 0 heap" "p \<le> f i"
  shows "heap_from 0 (replace_entry i p heap)"
proof -
  let ?rest = "filter (\<lambda>e. snd e \<noteq> i) heap"
  have heap: "heap \<noteq> []" "length heap \<le> 3" using queue_length [OF assms(1)] assms(2,3) by auto
  have "(f i, i) \<in> set heap" using queue_set [OF assms(1)] assms(3) by auto
  then have "length ?rest < length heap" by (intro length_filter_less) auto
  then have len: "length ?rest \<le> 2" using heap(2) by simp
  have least: "\<forall>x \<in> set heap. hd heap \<le> x" using small_heap [OF heap(2)] assms(4) by simp
  show ?thesis
  proof (cases "snd (hd heap) = i")
    case True
    have "(p, i) < x" if x: "x \<in> set ?rest" for x
    proof -
      have "hd heap = (f i, i)" using queue_set [OF assms(1)] True heap(1) hd_in_set [OF heap(1)] by auto
      then have "(f i, i) \<le> x" "snd x \<noteq> i" using least x by auto
      then show ?thesis using assms(5) by (cases x) (auto simp: less_eq_prod_def less_prod_def)
    qed
    then show ?thesis unfolding replace_entry_def using push_least [OF len] by blast
  next
    case False
    then have "hd ?rest = hd heap" using heap(1) by (cases heap) auto
    then have "heap_from 0 ?rest" using small_heap [of ?rest] len least by simp
    then show ?thesis unfolding replace_entry_def by (rule heap_heappush)
  qed
qed

lemma select_in_order: "i \<notin> snd ` set rest \<Longrightarrow> heap_from 0 rest \<Longrightarrow> heap_from 0 (replace_entry i p rest)"
  unfolding replace_entry_def by (subst filter_True) (auto intro: heap_heappush)

subsection \<open>Operations\<close>

definition queues_ok :: "nat \<Rightarrow> nat \<Rightarrow> proxy \<Rightarrow> bool" where
  "queues_ok np nd p \<longleftrightarrow> length (prefillers p) = np \<and> length (decoders p) = nd \<and>
     queue (\<lambda>i. prefiller_priority (prefillers p ! i)) np (prefiller_heap p) \<and>
     queue (\<lambda>d. active_tokens (decoders p ! d)) nd (decoder_heap p) \<and>
     (np \<le> 3 \<longrightarrow> heap_from 0 (prefiller_heap p)) \<and> (nd \<le> 3 \<longrightarrow> heap_from 0 (decoder_heap p))"

lemma queue_init: "queue (\<lambda>_. 0) n (heapify (map (\<lambda>i. (0, i)) [0..<n]))"
  unfolding queue_def conjunct1 [OF heapify_ok] mset_map by (simp add: atLeast0LessThan)

lemma queues_init: "queues_ok (length ps) (length ds) (proxy_init ps ds)"
proof -
  have "queue (\<lambda>i. prefiller_priority (map server_init ps ! i)) (length ps) (heapify (map (\<lambda>i. (0, i)) [0..<length ps]))"
    by (rule iffD1 [OF queue_cong queue_init]) (simp add: prefiller_priority_def server_init_def)
  moreover have "queue (\<lambda>d. active_tokens (map server_init ds ! d)) (length ds) (heapify (map (\<lambda>i. (0, i)) [0..<length ds]))"
    by (rule iffD1 [OF queue_cong queue_init]) (simp add: server_init_def)
  ultimately show ?thesis by (simp add: queues_ok_def proxy_init_def heapify_ok)
qed

lemma prefiller_changed:
  assumes "queues_ok np nd p" "i < np" "prefiller_priority (f (prefillers p ! i)) \<le> prefiller_priority (prefillers p ! i)"
  obtains p' where "res_bind (on_prefiller i f p) (update_prefiller_priority i) = Inr p'" "queues_ok np nd p'"
    "prefillers p' = (prefillers p)[i := f (prefillers p ! i)]" "decoders p' = decoders p" "req_id_counter p' = req_id_counter p"
proof -
  let ?q = "\<lambda>j. prefiller_priority ((prefillers p)[i := f (prefillers p ! i)] ! j)"
  have i: "i < length (prefillers p)" and q: "queue (\<lambda>j. prefiller_priority (prefillers p ! j)) np (prefiller_heap p)"
    using assms(1,2) by (simp_all add: queues_ok_def)
  have "queue ?q np (replace_entry i (?q i) (prefiller_heap p))"
    using assms(2) i by (intro queue_release [OF q]) simp_all
  moreover have "heap_from 0 (replace_entry i (?q i) (prefiller_heap p))" if "np \<le> 3"
    using assms that i by (intro release_in_order [OF q that assms(2)]) (simp_all add: queues_ok_def)
  ultimately show ?thesis using assms(1) i
    by (intro that [of "p\<lparr>prefillers := (prefillers p)[i := f (prefillers p ! i)],
        prefiller_heap := replace_entry i (?q i) (prefiller_heap p)\<rparr>"])
      (simp_all add: on_prefiller_def update_prefiller_priority_def queues_ok_def)
qed

lemma decoder_changed:
  assumes "queues_ok np nd p" "d < nd" "active_tokens (f (decoders p ! d)) \<le> active_tokens (decoders p ! d)"
  obtains p' where "res_bind (on_decoder d f p) (update_decoder_priority d) = Inr p'" "queues_ok np nd p'"
    "decoders p' = (decoders p)[d := f (decoders p ! d)]" "prefillers p' = prefillers p" "req_id_counter p' = req_id_counter p"
proof -
  let ?q = "\<lambda>j. active_tokens ((decoders p)[d := f (decoders p ! d)] ! j)"
  have d: "d < length (decoders p)" and q: "queue (\<lambda>j. active_tokens (decoders p ! j)) nd (decoder_heap p)"
    using assms(1,2) by (simp_all add: queues_ok_def)
  have "queue ?q nd (replace_entry d (?q d) (decoder_heap p))"
    using assms(2) d by (intro queue_release [OF q]) simp_all
  moreover have "heap_from 0 (replace_entry d (?q d) (decoder_heap p))" if "nd \<le> 3"
    using assms that d by (intro release_in_order [OF q that assms(2)]) (simp_all add: queues_ok_def)
  ultimately show ?thesis using assms(1) d
    by (intro that [of "p\<lparr>decoders := (decoders p)[d := f (decoders p ! d)],
        decoder_heap := replace_entry d (?q d) (decoder_heap p)\<rparr>"])
      (simp_all add: on_decoder_def update_decoder_priority_def queues_ok_def)
qed

lemma release_prefiller_ok:
  assumes "queues_ok np nd p" "i < np" "0 \<le> c"
  obtains p' where "release_prefiller i c p = Inr p'" "queues_ok np nd p'" "decoders p' = decoders p"
    "req_id_counter p' = req_id_counter p"
    "prefillers p' = (prefillers p)[i := (prefillers p ! i)\<lparr>active_tokens := active_tokens (prefillers p ! i) - c\<rparr>]"
  using prefiller_changed [OF assms(1,2), of "\<lambda>s. s\<lparr>active_tokens := active_tokens s - c\<rparr>"] assms(3)
  by (auto simp: release_prefiller_def prefiller_priority_def)

lemma release_kv_ok:
  assumes "queues_ok np nd p" "i < np" "0 \<le> c"
  obtains p' where "release_prefiller_kv i c p = Inr p'" "queues_ok np nd p'" "decoders p' = decoders p"
    "req_id_counter p' = req_id_counter p"
    "prefillers p' = (prefillers p)[i := (if 0 < active_kv_cache (prefillers p ! i)
       then (prefillers p ! i)\<lparr>active_kv_cache := active_kv_cache (prefillers p ! i) - c\<rparr> else prefillers p ! i)]"
proof -
  let ?f = "\<lambda>s. if 0 < active_kv_cache s then s\<lparr>active_kv_cache := active_kv_cache s - c\<rparr> else s"
  have "prefiller_priority (?f (prefillers p ! i)) \<le> prefiller_priority (prefillers p ! i)"
    using assms(3) by (simp add: prefiller_priority_def)
  then show ?thesis
    by (rule prefiller_changed [OF assms(1,2)]) (rule that, simp_all add: release_prefiller_kv_def)
qed

lemma release_decoder_ok:
  assumes "queues_ok np nd p" "d < nd" "0 \<le> c"
  obtains p' where "release_decoder d c p = Inr p'" "queues_ok np nd p'" "prefillers p' = prefillers p"
    "req_id_counter p' = req_id_counter p"
    "decoders p' = (decoders p)[d := (decoders p ! d)\<lparr>active_tokens := active_tokens (decoders p ! d) - c\<rparr>]"
  using decoder_changed [OF assms(1,2), of "\<lambda>s. s\<lparr>active_tokens := active_tokens s - c\<rparr>"] assms(3)
  by (auto simp: release_decoder_def)

lemma on_prefiller_quiet:
  assumes "queues_ok np nd p" "i < np" "prefiller_priority (f (prefillers p ! i)) = prefiller_priority (prefillers p ! i)"
  obtains p' where "on_prefiller i f p = Inr p'" "queues_ok np nd p'" "decoders p' = decoders p"
    "req_id_counter p' = req_id_counter p" "prefillers p' = (prefillers p)[i := f (prefillers p ! i)]"
proof -
  have "queue (\<lambda>j. prefiller_priority ((prefillers p)[i := f (prefillers p ! i)] ! j)) np (prefiller_heap p)"
    using assms by (subst queue_cong [of _ _ "\<lambda>j. prefiller_priority (prefillers p ! j)"])
      (auto simp: queues_ok_def nth_list_update)
  then show ?thesis using assms(1,2)
    by (intro that [of "p\<lparr>prefillers := (prefillers p)[i := f (prefillers p ! i)]\<rparr>"]) (simp_all add: on_prefiller_def queues_ok_def)
qed

lemma select_prefiller_ok:
  assumes "queues_ok np nd p" "0 < np"
  obtains i p' where "select_prefiller c p = Inr (i, p')" "i < np" "queues_ok np nd p'" "decoders p' = decoders p"
    "req_id_counter p' = req_id_counter p"
    "prefillers p' = (prefillers p)[i := (prefillers p ! i)\<lparr>active_tokens := active_tokens (prefillers p ! i) + c,
       active_kv_cache := active_kv_cache (prefillers p ! i) + c\<rparr>]"
    "np \<le> 3 \<longrightarrow> (\<forall>j < np. prefiller_priority (prefillers p ! i) \<le> prefiller_priority (prefillers p ! j))"
proof -
  have q: "queue (\<lambda>j. prefiller_priority (prefillers p ! j)) np (prefiller_heap p)" "length (prefillers p) = np"
    using assms(1) by (simp_all add: queues_ok_def)
  obtain i rest where pop: "heappop (prefiller_heap p) = Inr ((prefiller_priority (prefillers p ! i), i), rest)" "i < np"
      "i \<notin> snd ` set rest"
      "filter_mset (\<lambda>e. snd e \<noteq> i) (mset rest) = image_mset (\<lambda>j. (prefiller_priority (prefillers p ! j), j)) (mset_set ({..<np} - {i}))"
      "heap_from 0 (prefiller_heap p) \<longrightarrow> heap_from 0 rest \<and> (\<forall>j < np. prefiller_priority (prefillers p ! i) \<le> prefiller_priority (prefillers p ! j))"
    using queue_pop [OF q(1) assms(2)] .
  let ?s = "(prefillers p ! i)\<lparr>active_tokens := active_tokens (prefillers p ! i) + c,
    active_kv_cache := active_kv_cache (prefillers p ! i) + c\<rparr>"
  let ?heap = "replace_entry i (prefiller_priority ?s) rest"
  have "queue (\<lambda>j. prefiller_priority ((prefillers p)[i := ?s] ! j)) np ?heap"
    using pop(2) q(2) by (intro queue_replaced [OF pop(4,2)]) simp_all
  moreover have "heap_from 0 ?heap" if "np \<le> 3"
    using select_in_order [OF pop(3)] pop(5) assms(1) that by (simp add: queues_ok_def)
  moreover have "prefiller_heap p \<noteq> []" using queue_length [OF q(1)] assms(2) by auto
  ultimately show ?thesis using assms(1) pop q(2)
    by (intro that [of i "p\<lparr>prefillers := (prefillers p)[i := ?s], prefiller_heap := ?heap\<rparr>"])
      (simp_all add: select_prefiller_def on_prefiller_def update_prefiller_priority_def queues_ok_def)
qed

lemma select_decoder_ok:
  assumes "queues_ok np nd p" "0 < nd"
  obtains d p' where "select_decoder c p = Inr (d, p')" "d < nd" "queues_ok np nd p'" "prefillers p' = prefillers p"
    "req_id_counter p' = req_id_counter p"
    "decoders p' = (decoders p)[d := (decoders p ! d)\<lparr>active_tokens := active_tokens (decoders p ! d) + c\<rparr>]"
    "nd \<le> 3 \<longrightarrow> (\<forall>j < nd. active_tokens (decoders p ! d) \<le> active_tokens (decoders p ! j))"
proof -
  have q: "queue (\<lambda>j. active_tokens (decoders p ! j)) nd (decoder_heap p)" "length (decoders p) = nd"
    using assms(1) by (simp_all add: queues_ok_def)
  obtain d rest where pop: "heappop (decoder_heap p) = Inr ((active_tokens (decoders p ! d), d), rest)" "d < nd"
      "d \<notin> snd ` set rest"
      "filter_mset (\<lambda>e. snd e \<noteq> d) (mset rest) = image_mset (\<lambda>j. (active_tokens (decoders p ! j), j)) (mset_set ({..<nd} - {d}))"
      "heap_from 0 (decoder_heap p) \<longrightarrow> heap_from 0 rest \<and> (\<forall>j < nd. active_tokens (decoders p ! d) \<le> active_tokens (decoders p ! j))"
    using queue_pop [OF q(1) assms(2)] .
  let ?s = "(decoders p ! d)\<lparr>active_tokens := active_tokens (decoders p ! d) + c\<rparr>"
  let ?heap = "replace_entry d (active_tokens ?s) rest"
  have "queue (\<lambda>j. active_tokens ((decoders p)[d := ?s] ! j)) nd ?heap"
    using pop(2) q(2) by (intro queue_replaced [OF pop(4,2)]) simp_all
  moreover have "heap_from 0 ?heap" if "nd \<le> 3"
    using select_in_order [OF pop(3)] pop(5) assms(1) that by (simp add: queues_ok_def)
  moreover have "decoder_heap p \<noteq> []" using queue_length [OF q(1)] assms(2) by auto
  ultimately show ?thesis using assms(1) pop q(2)
    by (intro that [of d "p\<lparr>decoders := (decoders p)[d := ?s], decoder_heap := ?heap\<rparr>"])
      (simp_all add: select_decoder_def on_decoder_def update_decoder_priority_def queues_ok_def)
qed

end
