(* ===== verification/Proxy_Props.thy ===== *)
theory Proxy_Props
  imports Proxy_Proofs
begin

section \<open>Properties of the proxy\<close>

text \<open>
  The loads of the servers are what the requests in flight and the requests given up hold; with at most three servers
  of a kind a request goes to a least loaded one, with five it need not; and what the two retry loops return.
\<close>

subsection \<open>What a request holds\<close>

fun tokens_held :: "nat \<Rightarrow> phase \<Rightarrow> rat" where
  "tokens_held i (Prefilling j n) = (if j = i then calculate_prefill_scores n else 0)"
| "tokens_held i (PrefillFailed j n) = (if j = i then calculate_prefill_scores n else 0)"
| "tokens_held i _ = 0"

text \<open>The score counts as cache until a first chunk of the answer is passed on, or the stream fails.\<close>

fun kv_held :: "nat \<Rightarrow> phase \<Rightarrow> rat" where
  "kv_held i Rejected = 0"
| "kv_held i (Prefilling j n) = (if j = i then calculate_prefill_scores n else 0)"
| "kv_held i (PrefillFailed j n) = (if j = i then calculate_prefill_scores n else 0)"
| "kv_held i (NoDecoder j n) = (if j = i then calculate_prefill_scores n else 0)"
| "kv_held i (Streaming j n d released) = (if j = i \<and> \<not> released then calculate_prefill_scores n else 0)"
| "kv_held i (Finished j n released) = (if j = i \<and> \<not> released then calculate_prefill_scores n else 0)"
| "kv_held i (StreamFailed j n released) = 0"
| "kv_held i (Cancelled j n d released) = (if j = i \<and> \<not> released then calculate_prefill_scores n else 0)"

fun decode_held :: "nat \<Rightarrow> phase \<Rightarrow> rat" where
  "decode_held d (Streaming i n e released) = (if e = d then calculate_decode_scores n else 0)"
| "decode_held d (Cancelled i n e released) = (if e = d then calculate_decode_scores n else 0)"
| "decode_held d _ = 0"

definition held :: "(phase \<Rightarrow> rat) \<Rightarrow> phase list \<Rightarrow> rat" where
  "held h phs = sum_list (map h phs)"

fun servers_of :: "phase \<Rightarrow> nat \<Rightarrow> nat \<Rightarrow> bool" where
  "servers_of Rejected np nd = True"
| "servers_of (Prefilling i n) np nd = (i < np)"
| "servers_of (PrefillFailed i n) np nd = (i < np)"
| "servers_of (NoDecoder i n) np nd = (i < np)"
| "servers_of (Streaming i n d b) np nd = (i < np \<and> d < nd)"
| "servers_of (Finished i n b) np nd = (i < np)"
| "servers_of (StreamFailed i n b) np nd = (i < np)"
| "servers_of (Cancelled i n d b) np nd = (i < np \<and> d < nd)"

text \<open>The score of a request whose stream failed after a chunk of it was passed on: it is released twice.\<close>

fun late_held :: "nat \<Rightarrow> phase \<Rightarrow> rat" where
  "late_held i (StreamFailed j n released) = (if j = i \<and> released then calculate_prefill_scores n else 0)"
| "late_held i _ = 0"

text \<open>The score that was released from the cache load of a prefiller, once or twice.\<close>

fun released_score :: "nat \<Rightarrow> phase \<Rightarrow> rat" where
  "released_score i (Streaming j n d released) = (if j = i \<and> released then calculate_prefill_scores n else 0)"
| "released_score i (Finished j n released) = (if j = i \<and> released then calculate_prefill_scores n else 0)"
| "released_score i (StreamFailed j n released) = (if j = i then calculate_prefill_scores n else 0)"
| "released_score i (Cancelled j n d released) = (if j = i \<and> released then calculate_prefill_scores n else 0)"
| "released_score i _ = 0"

text \<open>
  The bounds of the cache load of prefiller \<open>i\<close>: at most what is held, less by no more than the scores released twice,
  and below zero by less than a score that was released, because only a positive load is reduced.
\<close>

definition cache_ok :: "nat \<Rightarrow> rat \<Rightarrow> phase list \<Rightarrow> bool" where
  "cache_ok i load phs \<longleftrightarrow>
     held (kv_held i) phs - held (late_held i) phs \<le> load \<and> load \<le> held (kv_held i) phs \<and>
     (0 \<le> load \<or> (\<exists>ph \<in> set phs. - released_score i ph < load))"

definition loads_ok :: "nat \<Rightarrow> nat \<Rightarrow> proxy \<Rightarrow> phase list \<Rightarrow> bool" where
  "loads_ok np nd p phs \<longleftrightarrow>
     (\<forall>i < np. active_tokens (prefillers p ! i) = held (tokens_held i) phs) \<and>
     (\<forall>i < np. cache_ok i (active_kv_cache (prefillers p ! i)) phs) \<and>
     (\<forall>d < nd. active_tokens (decoders p ! d) = held (decode_held d) phs)"

definition loop_inv :: "nat \<Rightarrow> nat \<Rightarrow> proxy_loop \<Rightarrow> bool" where
  "loop_inv np nd s \<longleftrightarrow> queues_ok np nd (px s) \<and> loads_ok np nd (px s) (phases s) \<and>
     req_id_counter (px s) = length (phases s) \<and> (\<forall>ph \<in> set (phases s). servers_of ph np nd)"

lemma scores_nonneg: "0 < calculate_prefill_scores n" "0 \<le> calculate_decode_scores n"
  by (simp_all add: calculate_prefill_scores_def calculate_decode_scores_def add_nonneg_pos)

lemma held_append [simp]: "held h (phs @ [ph]) = held h phs + h ph"
  by (simp add: held_def)

lemma held_update: "k < length phs \<Longrightarrow> held h (phs[k := ph]) = held h phs - h (phs ! k) + h ph"
proof (induction phs arbitrary: k)
  case (Cons x phs)
  then show ?case by (cases k) (auto simp: held_def)
qed simp

lemma kv_held_nonneg: "0 \<le> kv_held i ph"
  using scores_nonneg less_imp_le by (cases ph) auto

lemma held_kv_nonneg: "0 \<le> held (kv_held i) phs"
  unfolding held_def by (rule sum_list_nonneg) (auto simp: kv_held_nonneg)

text \<open>A request moves on and nothing is released; its score is released; a request arrives.\<close>

lemma cache_keep:
  assumes "cache_ok i load phs" "k < length phs" "kv_held i ph = kv_held i (phs ! k)"
    and "late_held i ph = late_held i (phs ! k)" "released_score i (phs ! k) \<le> released_score i ph"
  shows "cache_ok i load (phs[k := ph])"
proof -
  have "\<exists>x \<in> set (phs[k := ph]). - released_score i x < load" if y: "y \<in> set phs" "- released_score i y < load" for y
  proof -
    obtain m where m: "m < length phs" "phs ! m = y" using y(1) by (metis in_set_conv_nth)
    then have "phs[k := ph] ! m \<in> set (phs[k := ph])" by (intro nth_mem) simp
    moreover have "- released_score i (phs[k := ph] ! m) < load"
      using m y(2) assms(5) by (cases "m = k") auto
    ultimately show ?thesis by blast
  qed
  then show ?thesis using assms(1,3,4) unfolding cache_ok_def held_update [OF assms(2)] by fastforce
qed

lemma cache_release:
  assumes "cache_ok i load phs" "k < length phs"
    and "kv_held i (phs ! k) - kv_held i ph + (late_held i ph - late_held i (phs ! k)) = c" "0 \<le> late_held i ph - late_held i (phs ! k)"
    and "released_score i (phs ! k) \<le> released_score i ph" "released_score i ph = c" "kv_held i ph \<le> kv_held i (phs ! k)"
    and "kv_held i (phs ! k) = kv_held i ph + c \<or> kv_held i (phs ! k) = kv_held i ph"
  shows "cache_ok i (if 0 < load then load - c else load) (phs[k := ph])"
proof (cases "0 < load")
  case True
  have "ph \<in> set (phs[k := ph])" using assms(2) by (rule set_update_memI)
  then have "\<exists>x \<in> set (phs[k := ph]). - released_score i x < load - c" using True assms(6) by force
  then show ?thesis using True assms(1,3,4,7) unfolding cache_ok_def held_update [OF assms(2)] by auto
next
  case False
  have "cache_ok i load phs" by fact
  moreover have "0 \<le> held (kv_held i) (phs[k := ph])" by (rule held_kv_nonneg)
  moreover have "\<exists>x \<in> set (phs[k := ph]). - released_score i x < load" if y: "y \<in> set phs" "- released_score i y < load" for y
  proof -
    obtain m where m: "m < length phs" "phs ! m = y" using y(1) by (metis in_set_conv_nth)
    then have "phs[k := ph] ! m \<in> set (phs[k := ph])" by (intro nth_mem) simp
    moreover have "- released_score i (phs[k := ph] ! m) < load"
      using m y(2) assms(5) by (cases "m = k") auto
    ultimately show ?thesis by blast
  qed
  ultimately show ?thesis using False assms(3,4,7) unfolding cache_ok_def held_update [OF assms(2)] by fastforce
qed

lemma cache_arrive:
  assumes "cache_ok j load phs"
  shows "j = i \<Longrightarrow> cache_ok j (load + calculate_prefill_scores n) (phs @ [Prefilling i n])"
    and "j \<noteq> i \<Longrightarrow> cache_ok j load (phs @ [Prefilling i n])"
  using assms scores_nonneg(1) [of n] unfolding cache_ok_def held_append by fastforce+

lemma servers_of_update:
  "\<forall>ph \<in> set phs. servers_of ph np nd \<Longrightarrow> servers_of ph np nd \<Longrightarrow> \<forall>ph \<in> set (phs[k := ph]). servers_of ph np nd"
  using set_update_subset_insert [of phs k ph] by auto

lemma loads_change:
  assumes "loads_ok np nd p phs" "k < length phs"
    and "\<And>i. i < np \<Longrightarrow> active_tokens (prefillers p' ! i) =
           active_tokens (prefillers p ! i) - tokens_held i (phs ! k) + tokens_held i ph"
    and "\<And>i. i < np \<Longrightarrow> cache_ok i (active_kv_cache (prefillers p ! i)) phs \<Longrightarrow>
           cache_ok i (active_kv_cache (prefillers p' ! i)) (phs[k := ph])"
    and "\<And>d. d < nd \<Longrightarrow> active_tokens (decoders p' ! d) =
           active_tokens (decoders p ! d) - decode_held d (phs ! k) + decode_held d ph"
  shows "loads_ok np nd p' (phs[k := ph])"
  using assms by (simp add: loads_ok_def held_update [OF assms(2)])

lemma loop_changed:
  assumes "loop_inv np nd s" "k < length (phases s)" "queues_ok np nd p'" "servers_of ph np nd"
    "req_id_counter p' = req_id_counter (px s)" "loads_ok np nd p' ((phases s)[k := ph])"
  shows "loop_inv np nd \<lparr>px = p', phases = (phases s)[k := ph]\<rparr>"
  using assms servers_of_update [of "phases s" np nd ph k] by (simp add: loop_inv_def)

lemma give_up_inv:
  assumes "loop_inv np nd s" "k < length (phases s)" "servers_of ph np nd"
    "\<And>i. tokens_held i ph = tokens_held i (phases s ! k)" "\<And>i. kv_held i ph = kv_held i (phases s ! k)"
    "\<And>i. late_held i ph = late_held i (phases s ! k)" "\<And>i. released_score i (phases s ! k) \<le> released_score i ph"
    "\<And>d. decode_held d ph = decode_held d (phases s ! k)"
  shows "loop_inv np nd (give_up k ph s)"
proof -
  have "loads_ok np nd (px s) ((phases s)[k := ph])"
    using assms by (intro loads_change [of np nd "px s"] cache_keep) (simp_all add: loop_inv_def)
  then show ?thesis using assms servers_of_update [of "phases s" np nd ph k] by (simp add: loop_inv_def give_up_def)
qed

subsection \<open>Every event\<close>

lemma arrive_ok:
  assumes "loop_inv np nd s" "0 < np"
  obtains i aborted p where "arrive n s = (aborted, \<lparr>px = p, phases = phases s @ [Prefilling i n]\<rparr>)"
    "loop_inv np nd \<lparr>px = p, phases = phases s @ [Prefilling i n]\<rparr>" "i < np"
    "np \<le> 3 \<longrightarrow> (\<forall>j < np. prefiller_priority (prefillers (px s) ! i) \<le> prefiller_priority (prefillers (px s) ! j))"
proof -
  let ?c = "calculate_prefill_scores n" and ?p1 = "snd (next_req_id (px s))"
  have p1: "queues_ok np nd ?p1" "prefillers ?p1 = prefillers (px s)" "decoders ?p1 = decoders (px s)"
      "req_id_counter ?p1 = length (phases s) + 1"
    using assms(1) by (simp_all add: loop_inv_def queues_ok_def next_req_id_def)
  obtain i p2 where sel: "select_prefiller ?c ?p1 = Inr (i, p2)" "i < np" "queues_ok np nd p2" "decoders p2 = decoders ?p1"
      "req_id_counter p2 = req_id_counter ?p1"
      "prefillers p2 = (prefillers ?p1)[i := (prefillers ?p1 ! i)\<lparr>active_tokens := active_tokens (prefillers ?p1 ! i) + ?c,
         active_kv_cache := active_kv_cache (prefillers ?p1 ! i) + ?c\<rparr>]"
      "np \<le> 3 \<longrightarrow> (\<forall>j < np. prefiller_priority (prefillers ?p1 ! i) \<le> prefiller_priority (prefillers ?p1 ! j))"
    using select_prefiller_ok [OF p1(1) assms(2), of ?c] .
  obtain p3 where ab: "on_prefiller i (\<lambda>s. s\<lparr>aborted_requests := {}\<rparr>) p2 = Inr p3" "queues_ok np nd p3"
      "decoders p3 = decoders p2" "req_id_counter p3 = req_id_counter p2"
      "prefillers p3 = (prefillers p2)[i := (prefillers p2 ! i)\<lparr>aborted_requests := {}\<rparr>]"
    using on_prefiller_quiet [OF sel(3,2), of "\<lambda>s. s\<lparr>aborted_requests := {}\<rparr>"] by (auto simp: prefiller_priority_def)
  have len: "length (prefillers (px s)) = np" using assms(1) by (simp add: loop_inv_def queues_ok_def)
  have "loads_ok np nd p3 (phases s @ [Prefilling i n])"
    using assms(1) len sel(2,4,6) ab(3,5) p1(2,3)
    by (auto simp: loop_inv_def loads_ok_def nth_list_update intro: cache_arrive)
  then have "loop_inv np nd \<lparr>px = p3, phases = phases s @ [Prefilling i n]\<rparr>"
    using assms(1) ab(2,4) sel(2,5) p1(4) by (simp add: loop_inv_def)
  moreover have "arrive n s = (aborted_requests (prefillers p2 ! i), \<lparr>px = p3, phases = phases s @ [Prefilling i n]\<rparr>)"
    using sel(1) ab(1) by (simp add: arrive_def next_req_id_def aquire_aborted_prefiller_requests_def)
  ultimately show ?thesis using that sel(2,7) p1(2) by simp
qed

lemma counter_ok: "queues_ok np nd (p\<lparr>req_id_counter := c\<rparr>) = queues_ok np nd p"
    "loads_ok np nd (p\<lparr>req_id_counter := c\<rparr>) phs = loads_ok np nd p phs"
  by (simp_all add: queues_ok_def loads_ok_def)

lemma loop_inv_at:
  assumes "loop_inv np nd s" "k < length (phases s)"
  shows "queues_ok np nd (px s)" "loads_ok np nd (px s) (phases s)" "length (prefillers (px s)) = np"
    "length (decoders (px s)) = nd" "servers_of (phases s ! k) np nd"
  using assms by (simp_all add: loop_inv_def queues_ok_def)

lemma rejected_inv:
  assumes "loop_inv 0 nd s" shows "loop_inv 0 nd (snd (arrive n s))"
proof -
  have "prefiller_heap (px s) = []" using assms queue_length by (force simp: loop_inv_def queues_ok_def)
  then have "arrive n s = ({}, \<lparr>px = (px s)\<lparr>req_id_counter := req_id_counter (px s) + 1\<rparr>, phases = phases s @ [Rejected]\<rparr>)"
    by (simp add: arrive_def next_req_id_def select_prefiller_def)
  then show ?thesis using assms by (simp add: loop_inv_def counter_ok) (simp add: loads_ok_def)
qed

lemma prefill_replied_ok:
  assumes "loop_inv np nd s" "k < length (phases s)" "phases s ! k = Prefilling i n"
  obtains p ph where "prefill_replied has_json k i n s = Inr \<lparr>px = p, phases = (phases s)[k := ph]\<rparr>"
    "loop_inv np nd \<lparr>px = p, phases = (phases s)[k := ph]\<rparr>"
    "has_json \<and> 0 < nd \<longrightarrow> (\<exists>d. ph = Streaming i n d False \<and> d < nd \<and>
       (nd \<le> 3 \<longrightarrow> (\<forall>j < nd. active_tokens (decoders (px s) ! d) \<le> active_tokens (decoders (px s) ! j))))"
    "\<not> (has_json \<and> 0 < nd) \<longrightarrow> ph = NoDecoder i n"
proof -
  have s: "queues_ok np nd (px s)" "loads_ok np nd (px s) (phases s)" "i < np" "length (prefillers (px s)) = np"
    "length (decoders (px s)) = nd"
    using loop_inv_at [OF assms(1,2)] assms(3) by simp_all
  note c = less_imp_le [OF scores_nonneg(1) [of n]]
  obtain p1 where rel: "release_prefiller i (calculate_prefill_scores n) (px s) = Inr p1" "queues_ok np nd p1"
      "decoders p1 = decoders (px s)" "req_id_counter p1 = req_id_counter (px s)"
      "prefillers p1 = (prefillers (px s))[i := (prefillers (px s) ! i)\<lparr>active_tokens :=
         active_tokens (prefillers (px s) ! i) - calculate_prefill_scores n\<rparr>]"
    using release_prefiller_ok [OF s(1,3) c] .
  have "loads_ok np nd p1 ((phases s)[k := NoDecoder i n])"
    using s rel(3,5) assms(2,3) by (intro loads_change [OF s(2) assms(2)]) (auto simp: nth_list_update intro!: cache_keep)
  then have no: "loop_inv np nd \<lparr>px = p1, phases = (phases s)[k := NoDecoder i n]\<rparr>"
    using s rel by (intro loop_changed [OF assms(1,2)]) auto
  show ?thesis
  proof (cases "has_json \<and> 0 < nd")
    case False
    have "select_decoder (calculate_decode_scores n) p1 = Inl RuntimeError" if "nd = 0"
      using rel(2) that queue_length by (force simp: queues_ok_def select_decoder_def)
    then show ?thesis using False rel(1) no by (intro that [OF _ no]) (auto simp: prefill_replied_def Let_def)
  next
    case True
    then have nd: "0 < nd" by simp
    obtain d p2 where sel: "select_decoder (calculate_decode_scores n) p1 = Inr (d, p2)" "d < nd" "queues_ok np nd p2"
        "prefillers p2 = prefillers p1" "req_id_counter p2 = req_id_counter p1"
        "decoders p2 = (decoders p1)[d := (decoders p1 ! d)\<lparr>active_tokens := active_tokens (decoders p1 ! d) + calculate_decode_scores n\<rparr>]"
        "nd \<le> 3 \<longrightarrow> (\<forall>j < nd. active_tokens (decoders p1 ! d) \<le> active_tokens (decoders p1 ! j))"
      using select_decoder_ok [OF rel(2) nd, of "calculate_decode_scores n"] .
    have "loads_ok np nd p2 ((phases s)[k := Streaming i n d False])"
      using s rel(3,5) sel(4,6) assms(2,3) by (intro loads_change [OF s(2) assms(2)]) (auto simp: nth_list_update intro!: cache_keep)
    then have "loop_inv np nd \<lparr>px = p2, phases = (phases s)[k := Streaming i n d False]\<rparr>"
      using s rel sel by (intro loop_changed [OF assms(1,2)]) auto
    then show ?thesis using True rel(1,3) sel(1,2,7)
      by (intro that [of p2 "Streaming i n d False"]) (auto simp: prefill_replied_def)
  qed
qed

lemma stream_chunk_ok:
  assumes "loop_inv np nd s" "k < length (phases s)" "phases s ! k = Streaming i n d b"
  shows "\<exists>t. stream_chunk nonempty k i n d b s = Inr t \<and> loop_inv np nd t"
proof (cases "\<not> b \<and> nonempty")
  case True
  note s = loop_inv_at [OF assms(1,2)] and c = less_imp_le [OF scores_nonneg(1) [of n]]
  have i: "i < np" "d < nd" using s(5) assms(3) by simp_all
  obtain p1 where rel: "release_prefiller_kv i (calculate_prefill_scores n) (px s) = Inr p1" "queues_ok np nd p1"
      "decoders p1 = decoders (px s)" "req_id_counter p1 = req_id_counter (px s)"
      "prefillers p1 = (prefillers (px s))[i := (if 0 < active_kv_cache (prefillers (px s) ! i)
       then (prefillers (px s) ! i)\<lparr>active_kv_cache := active_kv_cache (prefillers (px s) ! i) - calculate_prefill_scores n\<rparr>
       else prefillers (px s) ! i)]"
    using release_kv_ok [OF s(1) i(1) c] .
  have "loads_ok np nd p1 ((phases s)[k := Streaming i n d True])"
  proof (intro loads_change [OF s(2) assms(2)])
    fix j assume j: "j < np" "cache_ok j (active_kv_cache (prefillers (px s) ! j)) (phases s)"
    show "cache_ok j (active_kv_cache (prefillers p1 ! j)) ((phases s)[k := Streaming i n d True])"
    proof (cases "j = i")
      case True
      then have "active_kv_cache (prefillers p1 ! j) = (if 0 < active_kv_cache (prefillers (px s) ! j)
          then active_kv_cache (prefillers (px s) ! j) - calculate_prefill_scores n else active_kv_cache (prefillers (px s) ! j))"
        using rel(5) s(3) i by simp
      then show ?thesis
        using cache_release [OF j(2) assms(2), of "Streaming i n d True" "calculate_prefill_scores n"]
          assms(3) c \<open>\<not> b \<and> nonempty\<close> True by simp
    next
      case False
      then show ?thesis using j rel(5) assms(2,3) by (auto intro!: cache_keep)
    qed
  qed (use True s(3,4) i rel(3,5) assms(2,3) in \<open>auto simp: nth_list_update\<close>)
  then have "loop_inv np nd \<lparr>px = p1, phases = (phases s)[k := Streaming i n d True]\<rparr>"
    using i rel by (intro loop_changed [OF assms(1,2)]) auto
  then show ?thesis using True rel(1) by (simp add: stream_chunk_def)
next
  case False
  then have "stream_chunk nonempty k i n d b s = Inr s" by (auto simp: stream_chunk_def)
  then show ?thesis using assms(1) by simp
qed

lemma stream_finished_ok:
  assumes "loop_inv np nd s" "k < length (phases s)" "phases s ! k = Streaming i n d b"
  shows "\<exists>t. stream_finished k i n d b s = Inr t \<and> loop_inv np nd t"
proof -
  note s = loop_inv_at [OF assms(1,2)]
  have i: "i < np" "d < nd" using s(5) assms(3) by simp_all
  obtain p1 where rel: "release_decoder d (calculate_decode_scores n) (px s) = Inr p1" "queues_ok np nd p1"
      "prefillers p1 = prefillers (px s)" "req_id_counter p1 = req_id_counter (px s)"
      "decoders p1 = (decoders (px s))[d := (decoders (px s) ! d)\<lparr>active_tokens :=
         active_tokens (decoders (px s) ! d) - calculate_decode_scores n\<rparr>]"
    using release_decoder_ok [OF s(1) i(2) scores_nonneg(2)] .
  have "loads_ok np nd p1 ((phases s)[k := Finished i n b])"
    using s(3,4) i rel(3,5) assms(2,3) by (intro loads_change [OF s(2) assms(2)]) (auto simp: nth_list_update intro!: cache_keep)
  then have "loop_inv np nd \<lparr>px = p1, phases = (phases s)[k := Finished i n b]\<rparr>"
    using i rel by (intro loop_changed [OF assms(1,2)]) auto
  then show ?thesis using rel(1) by (simp add: stream_finished_def)
qed

lemma stream_failed_ok:
  assumes "loop_inv np nd s" "k < length (phases s)" "phases s ! k = Streaming i n d b"
  shows "\<exists>t. stream_failed k i n d b s = Inr t \<and> loop_inv np nd t"
proof -
  note s = loop_inv_at [OF assms(1,2)] and c = less_imp_le [OF scores_nonneg(1) [of n]]
  have i: "i < np" "d < nd" using s(5) assms(3) by simp_all
  obtain p0 where ab: "abort_prefiller_request i (k + 1) (px s) = Inr p0" "queues_ok np nd p0"
      "decoders p0 = decoders (px s)" "req_id_counter p0 = req_id_counter (px s)"
      "prefillers p0 = (prefillers (px s))[i := (prefillers (px s) ! i)\<lparr>aborted_requests :=
         insert (k + 1) (aborted_requests (prefillers (px s) ! i))\<rparr>]"
    using on_prefiller_quiet [OF s(1) i(1), of "\<lambda>s. s\<lparr>aborted_requests := insert (k + 1) (aborted_requests s)\<rparr>"]
    by (auto simp: prefiller_priority_def abort_prefiller_request_def)
  obtain p1 where rel: "release_prefiller_kv i (calculate_prefill_scores n) p0 = Inr p1" "queues_ok np nd p1"
      "decoders p1 = decoders p0" "req_id_counter p1 = req_id_counter p0"
      "prefillers p1 = (prefillers p0)[i := (if 0 < active_kv_cache (prefillers p0 ! i)
       then (prefillers p0 ! i)\<lparr>active_kv_cache := active_kv_cache (prefillers p0 ! i) - calculate_prefill_scores n\<rparr>
       else prefillers p0 ! i)]"
    using release_kv_ok [OF ab(2) i(1) c] .
  obtain p2 where dec: "release_decoder d (calculate_decode_scores n) p1 = Inr p2" "queues_ok np nd p2"
      "prefillers p2 = prefillers p1" "req_id_counter p2 = req_id_counter p1"
      "decoders p2 = (decoders p1)[d := (decoders p1 ! d)\<lparr>active_tokens :=
         active_tokens (decoders p1 ! d) - calculate_decode_scores n\<rparr>]"
    using release_decoder_ok [OF rel(2) i(2) scores_nonneg(2)] .
  have "loads_ok np nd p2 ((phases s)[k := StreamFailed i n b])"
  proof (intro loads_change [OF s(2) assms(2)])
    fix j assume j: "j < np" "cache_ok j (active_kv_cache (prefillers (px s) ! j)) (phases s)"
    show "cache_ok j (active_kv_cache (prefillers p2 ! j)) ((phases s)[k := StreamFailed i n b])"
    proof (cases "j = i")
      case True
      then have "active_kv_cache (prefillers p2 ! j) = (if 0 < active_kv_cache (prefillers (px s) ! j)
          then active_kv_cache (prefillers (px s) ! j) - calculate_prefill_scores n else active_kv_cache (prefillers (px s) ! j))"
        using ab(5) rel(5) dec(3) s(3) i by simp
      then show ?thesis
        using cache_release [OF j(2) assms(2), of "StreamFailed i n b" "calculate_prefill_scores n"] assms(3) c True
        by (cases b) simp_all
    next
      case False
      then show ?thesis using j ab(5) rel(5) dec(3) assms(2,3) by (auto intro!: cache_keep)
    qed
  qed (use s(3,4) i ab(3,5) rel(3,5) dec(3,5) assms(2,3) in \<open>auto simp: nth_list_update\<close>)
  then have "loop_inv np nd \<lparr>px = p2, phases = (phases s)[k := StreamFailed i n b]\<rparr>"
    using i ab rel dec by (intro loop_changed [OF assms(1,2)]) auto
  then show ?thesis using ab(1) rel(1) dec(1) by (simp add: stream_failed_def)
qed

lemma proxy_handle_ok:
  assumes "loop_inv np nd s" "proxy_handle e s = Some r" shows "\<exists>t. r = Inr t \<and> loop_inv np nd t"
proof -
  have at: "k < length (phases s) \<and> phases s ! k = phase_of s k" if "phase_of s k \<noteq> Rejected" for k
    using that by (simp add: phase_of_def split: if_splits)
  have up: "loop_inv np nd (give_up k ph s)"
    if "phase_of s k \<noteq> Rejected" "servers_of ph np nd"
      "\<And>i. tokens_held i ph = tokens_held i (phase_of s k)" "\<And>i. kv_held i ph = kv_held i (phase_of s k)"
      "\<And>i. late_held i ph = late_held i (phase_of s k)" "\<And>i. released_score i (phase_of s k) \<le> released_score i ph"
      "\<And>d. decode_held d ph = decode_held d (phase_of s k)" for k ph
    using at [OF that(1)] that by (intro give_up_inv [OF assms(1)]) simp_all
  have ok: "servers_of (phase_of s k) np nd" if "phase_of s k \<noteq> Rejected" for k
    using at [OF that] loop_inv_at(5) [OF assms(1)] by metis
  show ?thesis
  proof (cases e)
    case (Arrive n)
    show ?thesis
    proof (cases "np = 0")
      case True then show ?thesis using rejected_inv assms Arrive by auto
    next
      case False
      then have "0 < np" by simp
      then show ?thesis using arrive_ok [OF assms(1), of n] assms(2) Arrive by fastforce
    qed
  next
    case (PrefillReply k j)
    then obtain i n where ph: "phase_of s k = Prefilling i n" "r = prefill_replied j k i n s"
      using assms(2) by (auto split: phase.splits)
    then show ?thesis using prefill_replied_ok [OF assms(1), of k i n j] at [of k] by (metis phase.distinct(1))
  next
    case (PrefillError k)
    then obtain i n where ph: "phase_of s k = Prefilling i n" "r = Inr (give_up k (PrefillFailed i n) s)"
      using assms(2) by (auto split: phase.splits)
    then show ?thesis using up [of k "PrefillFailed i n"] ok [of k] by simp
  next
    case (Chunk k j)
    then obtain i n d b where ph: "phase_of s k = Streaming i n d b" "r = stream_chunk j k i n d b s"
      using assms(2) by (auto split: phase.splits)
    then show ?thesis using stream_chunk_ok [OF assms(1), of k i n d b j] at [of k] by simp
  next
    case (StreamEnd k)
    then obtain i n d b where ph: "phase_of s k = Streaming i n d b" "r = stream_finished k i n d b s"
      using assms(2) by (auto split: phase.splits)
    then show ?thesis using stream_finished_ok [OF assms(1), of k i n d b] at [of k] by simp
  next
    case (StreamError k)
    then obtain i n d b where ph: "phase_of s k = Streaming i n d b" "r = stream_failed k i n d b s"
      using assms(2) by (auto split: phase.splits)
    then show ?thesis using stream_failed_ok [OF assms(1), of k i n d b] at [of k] by simp
  next
    case (Disconnect k)
    then obtain i n d b where ph: "phase_of s k = Streaming i n d b" "r = Inr (give_up k (Cancelled i n d b) s)"
      using assms(2) by (auto split: phase.splits)
    then show ?thesis using up [of k "Cancelled i n d b"] ok [of k] by simp
  qed
qed

lemma loop_init_inv: "loop_inv (length ps) (length ds) (loop_init ps ds)"
  using queues_init [of ps ds]
  by (simp add: loop_inv_def loop_init_def loads_ok_def cache_ok_def held_def) (simp add: proxy_init_def server_init_def)

interpretation proxy: inv_system "\<lambda>s. s = loop_init ps ds" loop_step "loop_inv (length ps) (length ds)" for ps ds
  by unfold_locales (auto simp: loop_step_iff loop_init_inv dest: proxy_handle_ok)

lemma proxy_handle_all_reachable:
  "proxy_handle_all es s = Some t \<Longrightarrow> reachable init loop_step s \<Longrightarrow> reachable init loop_step t"
  by (induction es arbitrary: s) (auto split: option.splits sum.splits intro: reach_step loop_step)

text \<open>One prefiller, two decoders: a stream under way, and a request whose prefill failed.\<close>

definition small_events :: "loop_event list" where
  "small_events = [Arrive 40, PrefillReply 0 True, Arrive 8, PrefillError 1, Arrive 20, Chunk 0 True]"

definition small_servers :: "(string \<times> int) list" where
  "small_servers = [(''a'', 8001), (''b'', 8002)]"

text \<open>Five decoders and the requests after which the list of the queue is out of order.\<close>

definition five_servers :: "(string \<times> int) list" where
  "five_servers = map (\<lambda>i. (''d'', i)) [0..4]"

definition five_events :: "loop_event list" where
  "five_events = map Arrive [2, 1, 3, 5, 1, 3, 4] @ map (\<lambda>k. PrefillReply k True) [0..<6] @
     [StreamEnd 4, StreamEnd 1, PrefillReply 6 True]"

definition small_state :: proxy_loop where
  "small_state = the (proxy_handle_all small_events (loop_init small_servers small_servers))"

lemma small_run: "proxy_handle_all small_events (loop_init small_servers small_servers) = Some small_state"
proof -
  have "proxy_handle_all small_events (loop_init small_servers small_servers) \<noteq> None" by code_simp
  then show ?thesis by (auto simp: small_state_def)
qed

lemma small_phases:
  "phases small_state = [Streaming 0 40 0 True, PrefillFailed 1 8, Prefilling 0 20]"
  by code_simp

lemma small_reachable: "reachable (\<lambda>s. s = loop_init small_servers small_servers) loop_step small_state"
  using proxy_handle_all_reachable [OF small_run] by (simp add: reach_init)

text \<open>The stream breaks off after its first chunk: its score is released from the cache load a second time.\<close>

definition late_state :: proxy_loop where
  "late_state = the (proxy_handle_all (small_events @ [StreamError 0]) (loop_init small_servers small_servers))"

lemma late_run: "proxy_handle_all (small_events @ [StreamError 0]) (loop_init small_servers small_servers) = Some late_state"
proof -
  have "proxy_handle_all (small_events @ [StreamError 0]) (loop_init small_servers small_servers) \<noteq> None" by code_simp
  then show ?thesis by (auto simp: late_state_def)
qed

lemma late_phases: "phases late_state = [StreamFailed 0 40 True, PrefillFailed 1 8, Prefilling 0 20]"
  by code_simp

lemma late_reachable: "reachable (\<lambda>s. s = loop_init small_servers small_servers) loop_step late_state"
  using proxy_handle_all_reachable [OF late_run] by (simp add: reach_init)

lemma five_run:
  "\<exists>s. proxy_handle_all five_events (loop_init [(''p'', 8000)] five_servers) = Some s \<and>
     (case select_decoder 1 (px s) of Inl _ \<Rightarrow> False
      | Inr (d, p) \<Rightarrow> active_tokens (decoders (px s) ! 0) < active_tokens (decoders (px s) ! d))"
proof -
  have "case proxy_handle_all five_events (loop_init [(''p'', 8000)] five_servers) of None \<Rightarrow> False
    | Some s \<Rightarrow> (case select_decoder 1 (px s) of Inl _ \<Rightarrow> False
        | Inr (d, p) \<Rightarrow> active_tokens (decoders (px s) ! 0) < active_tokens (decoders (px s) ! d))"
    by code_simp
  then show ?thesis by (auto split: option.splits)
qed

text \<open>A first attempt that breaks off after two chunks and a second one that succeeds.\<close>

definition twice :: "nat \<Rightarrow> nat stream" where
  "twice a = (if a = 1 then Chunks [1, 2] (Some RequestError) else Chunks [1, 2, 3] None)"

subsection \<open>The retry loops\<close>

lemma post_attempts_ok:
  assumes "1 \<le> attempt" "attempt \<le> max_retries"
  shows "\<exists>k. attempt \<le> k \<and> k \<le> max_retries \<and> (\<forall>a. attempt \<le> a \<and> a < k \<longrightarrow> (\<exists>e. post a = Inl e \<and> transient e)) \<and>
     fst (post_attempts max_retries post attempt) = (case post k of Inr r \<Rightarrow> Answer r | Inl e \<Rightarrow> Raised e) \<and>
     (k = max_retries \<or> (\<forall>e. post k = Inl e \<longrightarrow> \<not> transient e)) \<and>
     snd (post_attempts max_retries post attempt) = map (\<lambda>a. 2 ^ (a - 1)) [attempt..<k]"
  using assms
proof (induction max_retries post attempt rule: post_attempts.induct)
  case (1 m post a)
  show ?case
  proof (cases "\<exists>e. post a = Inl e \<and> transient e \<and> a < m")
    case True
    then obtain e where e: "post a = Inl e" "transient e" "a < m" by blast
    obtain k where k: "a + 1 \<le> k" "k \<le> m" "\<forall>b. a + 1 \<le> b \<and> b < k \<longrightarrow> (\<exists>e. post b = Inl e \<and> transient e)"
        "fst (post_attempts m post (a + 1)) = (case post k of Inr r \<Rightarrow> Answer r | Inl e \<Rightarrow> Raised e)"
        "k = m \<or> (\<forall>e. post k = Inl e \<longrightarrow> \<not> transient e)"
        "snd (post_attempts m post (a + 1)) = map (\<lambda>a. 2 ^ (a - 1)) [a + 1..<k]"
      using 1(1) [OF _ e(1)] e(2,3) by auto
    have "\<exists>e. post b = Inl e \<and> transient e" if "a \<le> b" "b < k" for b
      using k(3) e that by (cases "b = a") auto
    moreover have "post_attempts m post a =
        (fst (post_attempts m post (a + 1)), 2 ^ (a - 1) # snd (post_attempts m post (a + 1)))"
      using e by (subst post_attempts.simps) (simp add: case_prod_unfold Let_def)
    ultimately show ?thesis using k by (intro exI [of _ k]) (simp add: upt_conv_Cons)
  next
    case False
    then show ?thesis using 1(3)
      by (intro exI [of _ a]) (subst post_attempts.simps, cases "post a", auto simp: 1(2))+
  qed
qed

text \<open>
  With at least one attempt \<^verbatim>\<open>send_request_to_service\<close> ends with the outcome of the first attempt that is not a
  transient failure, or of the last one, after doubling delays.
\<close>

lemma send_request_returns:
  assumes "1 \<le> max_retries"
  shows "\<exists>k. 1 \<le> k \<and> k \<le> max_retries \<and> (\<forall>a. 1 \<le> a \<and> a < k \<longrightarrow> (\<exists>e. post a = Inl e \<and> transient e)) \<and>
     send_request_to_service max_retries post =
       (case post k of Inr r \<Rightarrow> Answer r | Inl e \<Rightarrow> Raised e, map (\<lambda>a. 2 ^ (a - 1)) [1..<k])"
proof -
  obtain k where "1 \<le> k" "k \<le> max_retries" "\<forall>a. 1 \<le> a \<and> a < k \<longrightarrow> (\<exists>e. post a = Inl e \<and> transient e)"
      "fst (post_attempts max_retries post 1) = (case post k of Inr r \<Rightarrow> Answer r | Inl e \<Rightarrow> Raised e)"
      "snd (post_attempts max_retries post 1) = map (\<lambda>a. 2 ^ (a - 1)) [1..<k]"
    using post_attempts_ok [OF order.refl assms, of post] by blast
  then show ?thesis unfolding send_request_to_service_def by (intro exI [of _ k] conjI) (simp_all add: prod_eq_iff)
qed

fun chunks_of :: "'c stream \<Rightarrow> 'c list" where
  "chunks_of (Refused e) = []"
| "chunks_of (Chunks cs f) = cs"

fun failure_of :: "'c stream \<Rightarrow> http_error option" where
  "failure_of (Refused e) = Some e"
| "failure_of (Chunks cs f) = f"

fun sent_after :: "'c stream \<Rightarrow> bool \<Rightarrow> bool" where
  "sent_after (Refused e) sent = sent"
| "sent_after (Chunks cs f) sent = (cs \<noteq> [])"

lemma stream_attempts_step:
  "stream_attempts m op sent a =
     (if m < a then ([], None)
      else if failure_of (op a) = None then (chunks_of (op a), None)
      else if a < m \<and> (transient (the (failure_of (op a))) \<or> \<not> sent_after (op a) sent)
      then (chunks_of (op a) @ fst (stream_attempts m op (sent_after (op a) sent) (a + 1)),
            snd (stream_attempts m op (sent_after (op a) sent) (a + 1)))
      else if \<not> transient (the (failure_of (op a))) \<and> sent_after (op a) sent then (chunks_of (op a), None)
      else (chunks_of (op a), failure_of (op a)))"
proof (cases "op a")
  case (Refused e)
  then show ?thesis by (subst stream_attempts.simps) (simp add: Let_def case_prod_unfold)
next
  case (Chunks cs f)
  then show ?thesis by (subst stream_attempts.simps) (cases f, simp_all add: Let_def case_prod_unfold)
qed

lemma stream_attempts_ok:
  assumes "a \<le> m" "sent \<longrightarrow> (\<exists>b < a. chunks_of (op b) \<noteq> [])"
  shows "\<exists>k. a \<le> k \<and> k \<le> m \<and> fst (stream_attempts m op sent a) = concat (map (chunks_of \<circ> op) [a..<Suc k]) \<and>
     (\<forall>b. a \<le> b \<and> b < k \<longrightarrow> (\<exists>e. failure_of (op b) = Some e \<and> (transient e \<or> chunks_of (op b) = []))) \<and>
     (case snd (stream_attempts m op sent a) of
        Some e \<Rightarrow> k = m \<and> failure_of (op k) = Some e
      | None \<Rightarrow> failure_of (op k) = None \<or> (failure_of (op k) = Some OtherError \<and> (\<exists>b \<le> k. chunks_of (op b) \<noteq> [])))"
  using assms
proof (induction "m - a" arbitrary: a sent)
  case 0
  then have "a = m" by simp
  moreover have "\<exists>b \<le> m. chunks_of (op b) \<noteq> []" if "sent_after (op m) sent"
    using that 0 \<open>a = m\<close> by (cases "op m") (auto intro: less_imp_le)
  moreover have "failure_of (op m) = Some e \<Longrightarrow> \<not> transient e \<Longrightarrow> e = OtherError" for e
    by (cases e) simp_all
  moreover have "stream_attempts m op sent m = (chunks_of (op m),
      if failure_of (op m) = None \<or> (\<not> transient (the (failure_of (op m))) \<and> sent_after (op m) sent) then None
      else failure_of (op m))"
    by (subst stream_attempts_step) simp
  ultimately show ?case by (intro exI [of _ m]) (cases "failure_of (op m)", auto)
next
  case (Suc x)
  let ?sent = "sent_after (op a) sent"
  have some: "\<exists>b \<le> a. chunks_of (op b) \<noteq> []" if ?sent
    using that Suc.prems by (cases "op a") (auto intro: less_imp_le)
  show ?case
  proof (cases "\<exists>e. failure_of (op a) = Some e \<and> (transient e \<or> \<not> ?sent)")
    case True
    then obtain e where e: "failure_of (op a) = Some e" "transient e \<or> \<not> ?sent" by blast
    have am: "a < m" using Suc.hyps(2) by simp
    have eq: "stream_attempts m op sent a = (chunks_of (op a) @ fst (stream_attempts m op ?sent (a + 1)),
        snd (stream_attempts m op ?sent (a + 1)))"
      using e am by (subst stream_attempts_step) auto
    have quiet: "transient e \<or> chunks_of (op a) = []" using e(2) by (cases "op a") auto
    have "?sent \<longrightarrow> (\<exists>b < a + 1. chunks_of (op b) \<noteq> [])" using some by (metis Suc_eq_plus1 less_Suc_eq_le)
    then obtain k where k: "a + 1 \<le> k" "k \<le> m"
        "fst (stream_attempts m op ?sent (a + 1)) = concat (map (chunks_of \<circ> op) [a + 1..<Suc k])"
        "\<forall>b. a + 1 \<le> b \<and> b < k \<longrightarrow> (\<exists>e. failure_of (op b) = Some e \<and> (transient e \<or> chunks_of (op b) = []))"
        "case snd (stream_attempts m op ?sent (a + 1)) of
           Some e \<Rightarrow> k = m \<and> failure_of (op k) = Some e
         | None \<Rightarrow> failure_of (op k) = None \<or> (failure_of (op k) = Some OtherError \<and> (\<exists>b \<le> k. chunks_of (op b) \<noteq> []))"
      using Suc.hyps(1) [of "a + 1" ?sent] Suc.hyps(2) am by force
    have "\<exists>e. failure_of (op b) = Some e \<and> (transient e \<or> chunks_of (op b) = [])" if "a \<le> b" "b < k" for b
      using k(4) e(1) quiet that by (cases "b = a") auto
    moreover have "[a..<Suc k] = a # [a + 1..<Suc k]" using k(1) by (simp add: upt_conv_Cons del: upt_Suc)
    ultimately show ?thesis using k eq by (intro exI [of _ k]) (simp del: upt_Suc)
  next
    case False
    then have "failure_of (op a) = None \<or> (failure_of (op a) = Some OtherError \<and> ?sent)"
      by (cases "failure_of (op a)") (auto elim: transient.elims(3))
    then have "stream_attempts m op sent a = (chunks_of (op a), None)"
      using Suc.prems(1) by (subst stream_attempts_step) auto
    then show ?thesis using Suc.prems(1) some \<open>_ \<or> _\<close> by (intro exI [of _ a]) auto
  qed
qed

subsection \<open>The properties\<close>

text \<open>
  C7. In every state that the proxy reaches, whatever the interleaving of arrivals, answers, chunks, failures and
  disconnections, the loads of the servers are accounted for. The token load of a prefiller is the sum of the scores of
  the requests that wait for it or whose prefill failed (which is never released), and the load of a decoder is the
  sum over the requests that stream from it or whose client went away. The cache load of a prefiller is at most the sum
  over its requests that have passed on no chunk, and smaller by no more than the scores of its requests whose stream failed
  after a chunk, which are released a second time: while there is none, it is exactly this sum. It falls below zero by less than
  the score of one request that was released. No event raises outside the handler.
\<close>

theorem proxy_loads_accounted:
  assumes "reachable (\<lambda>s. s = loop_init ps ds) loop_step s"
  shows "(\<forall>i < length ps. active_tokens (prefillers (px s) ! i) = held (tokens_held i) (phases s)) \<and>
    (\<forall>d < length ds. active_tokens (decoders (px s) ! d) = held (decode_held d) (phases s)) \<and>
    (\<forall>i < length ps.
       held (kv_held i) (phases s) - held (late_held i) (phases s) \<le> active_kv_cache (prefillers (px s) ! i) \<and>
       active_kv_cache (prefillers (px s) ! i) \<le> held (kv_held i) (phases s) \<and>
       (0 \<le> active_kv_cache (prefillers (px s) ! i) \<or>
        (\<exists>ph \<in> set (phases s). - released_score i ph < active_kv_cache (prefillers (px s) ! i)))) \<and>
    (\<forall>e err. proxy_handle e s \<noteq> Some (Inl err))"
proof -
  have inv: "loop_inv (length ps) (length ds) s" using assms by (rule proxy.reachable_inv)
  then have "proxy_handle e s \<noteq> Some (Inl err)" for e err using proxy_handle_ok by fastforce
  then show ?thesis using inv unfolding loop_inv_def loads_ok_def cache_ok_def by blast
qed

theorem proxy_loads_accounted_witness:
  "reachable (\<lambda>s. s = loop_init small_servers small_servers) loop_step late_state \<and>
     active_tokens (prefillers (px late_state) ! 1) = calculate_prefill_scores 8 \<and>
     calculate_prefill_scores 20 - calculate_prefill_scores 40 \<le> active_kv_cache (prefillers (px late_state) ! 0) \<and>
     active_kv_cache (prefillers (px late_state) ! 0) \<le> calculate_prefill_scores 20 \<and>
     active_kv_cache (prefillers (px late_state) ! 1) = calculate_prefill_scores 8"
  using late_reachable proxy_loads_accounted [OF late_reachable] late_phases
  by (auto simp: small_servers_def held_def less_Suc_eq)

text \<open>
  C8. With at most three prefillers, respectively decoders, a request goes to one with the least load, in every
  state that the proxy reaches.
\<close>

theorem proxy_selects_least:
  assumes "reachable (\<lambda>s. s = loop_init ps ds) loop_step s"
  shows "(0 < length ps \<and> length ps \<le> 3 \<longrightarrow>
      (\<exists>i p. snd (arrive n s) = \<lparr>px = p, phases = phases s @ [Prefilling i n]\<rparr> \<and> i < length ps \<and>
        (\<forall>j < length ps. prefiller_priority (prefillers (px s) ! i) \<le> prefiller_priority (prefillers (px s) ! j)))) \<and>
    (0 < length ds \<and> length ds \<le> 3 \<and> k < length (phases s) \<and> phases s ! k = Prefilling i m \<longrightarrow>
      (\<exists>d p. prefill_replied True k i m s = Inr \<lparr>px = p, phases = (phases s)[k := Streaming i m d False]\<rparr> \<and> d < length ds \<and>
        (\<forall>j < length ds. active_tokens (decoders (px s) ! d) \<le> active_tokens (decoders (px s) ! j))))"
proof (intro conjI impI)
  have inv: "loop_inv (length ps) (length ds) s" using assms by (rule proxy.reachable_inv)
  show "\<exists>i p. snd (arrive n s) = \<lparr>px = p, phases = phases s @ [Prefilling i n]\<rparr> \<and> i < length ps \<and>
      (\<forall>j < length ps. prefiller_priority (prefillers (px s) ! i) \<le> prefiller_priority (prefillers (px s) ! j))"
    if "0 < length ps \<and> length ps \<le> 3"
    using arrive_ok [OF inv, of n] that by fastforce
  show "\<exists>d p. prefill_replied True k i m s = Inr \<lparr>px = p, phases = (phases s)[k := Streaming i m d False]\<rparr> \<and> d < length ds \<and>
      (\<forall>j < length ds. active_tokens (decoders (px s) ! d) \<le> active_tokens (decoders (px s) ! j))"
    if "0 < length ds \<and> length ds \<le> 3 \<and> k < length (phases s) \<and> phases s ! k = Prefilling i m"
    using prefill_replied_ok [OF inv, of k i m True] that by (metis (no_types, lifting))
qed

theorem proxy_selects_least_witness:
  "\<exists>d p. prefill_replied True 2 0 20 small_state = Inr \<lparr>px = p, phases = (phases small_state)[2 := Streaming 0 20 d False]\<rparr> \<and>
     (\<forall>j < 2. active_tokens (decoders (px small_state) ! d) \<le> active_tokens (decoders (px small_state) ! j))"
  using conjunct2 [OF proxy_selects_least [OF small_reachable, of 0 2 0 20]] small_phases by (auto simp: small_servers_def)

text \<open>
  C34. With five decoders a request may go to a decoder that has more load than another: a released decoder is
  filtered out of the list of the queue, which then need not be a heap any more.
\<close>

theorem proxy_selects_loaded_server:
  "\<exists>s d p. reachable (\<lambda>s. s = loop_init [(''p'', 8000)] five_servers) loop_step s \<and> select_decoder 1 (px s) = Inr (d, p) \<and>
     active_tokens (decoders (px s) ! 0) < active_tokens (decoders (px s) ! d)"
proof -
  obtain s where s: "proxy_handle_all five_events (loop_init [(''p'', 8000)] five_servers) = Some s"
      "case select_decoder 1 (px s) of Inl _ \<Rightarrow> False
       | Inr (d, p) \<Rightarrow> active_tokens (decoders (px s) ! 0) < active_tokens (decoders (px s) ! d)"
    using five_run by blast
  have "reachable (\<lambda>s. s = loop_init [(''p'', 8000)] five_servers) loop_step s"
    using proxy_handle_all_reachable [OF s(1)] by (simp add: reach_init)
  then show ?thesis using s(2) by (cases "select_decoder 1 (px s)") auto
qed

text \<open>
  C20. With at least one attempt, the chunks passed on to the client are the chunks of all attempts up to the last one.
  An attempt is repeated only after a failure, and if it had passed on chunks, after a transient one: those chunks are then followed
  by those of the repetition. An exception reaches the handler only from the last possible attempt.
\<close>

theorem stream_retries:
  assumes "1 \<le> max_retries"
  shows "\<exists>k. 1 \<le> k \<and> k \<le> max_retries \<and>
     fst (stream_service_response_with_retry max_retries op) = concat (map (chunks_of \<circ> op) [1..<Suc k]) \<and>
     (\<forall>b. 1 \<le> b \<and> b < k \<longrightarrow> (\<exists>e. failure_of (op b) = Some e \<and> (transient e \<or> chunks_of (op b) = []))) \<and>
     (case snd (stream_service_response_with_retry max_retries op) of
        Some e \<Rightarrow> k = max_retries \<and> failure_of (op k) = Some e
      | None \<Rightarrow> failure_of (op k) = None \<or> (failure_of (op k) = Some OtherError \<and> (\<exists>b \<le> k. chunks_of (op b) \<noteq> [])))"
  unfolding stream_service_response_with_retry_def using assms by (intro stream_attempts_ok) simp_all

theorem stream_retries_witness:
  "stream_service_response_with_retry 2 twice = ([1, 2, 1, 2, 3], None) \<and>
   (\<exists>k. 1 \<le> k \<and> k \<le> 2 \<and> fst (stream_service_response_with_retry 2 twice) = concat (map (chunks_of \<circ> twice) [1..<Suc k]))"
proof -
  have "stream_service_response_with_retry 2 twice = ([1, 2, 1, 2, 3], None)"
    by (simp add: stream_service_response_with_retry_def stream_attempts_step twice_def)
  then show ?thesis using stream_retries [of 2 twice] by auto
qed

end
