(* ===== verification/Token_Dispatch.thy ===== *)
theory Token_Dispatch
  imports Prelude
begin

section \<open>Dispatch of tokens to experts\<close>

text \<open>
  The token dispatchers of \<^verbatim>\<open>vllm_ascend/ops/moe_dispatcher/token_dispatcher.py\<close>. Tensors of hidden states are lists of
  rows. A rank's code is cut at the collectives: the functions on the record \<open>a2av\<close> are what one rank does
  between them, and \<open>token_dispatch_all\<close> and \<open>token_combine_all\<close> run them on the ranks \<open>0, 1, \<dots>\<close> of the group with
  the collectives in between. The kernels of \<^verbatim>\<open>torch_npu\<close> and the collectives of \<^verbatim>\<open>torch.distributed\<close> are the fields of
  \<open>npu_ops\<close>; what their documentation promises is the locale \<open>moe_device\<close>.
\<close>

subsection \<open>Kernels and collectives\<close>

record ('h, 'w, 's) npu_ops =
  moe_token_permute :: "'h list \<Rightarrow> nat list list \<Rightarrow> 'h list \<times> nat list"
  moe_token_unpermute :: "'h list \<Rightarrow> nat list \<Rightarrow> 'h list"
  moe_token_unpermute_probs :: "'h list \<Rightarrow> nat list \<Rightarrow> 'w list list \<Rightarrow> 'h list"
  dynamic_quant :: "'h list \<Rightarrow> 'h list \<times> 's list"
  moe_init_routing_v2 :: "'h list \<Rightarrow> nat list \<Rightarrow> 's list \<Rightarrow> 'h list \<times> nat list \<times> 's list"
  all_to_all_rows :: "'h list list \<Rightarrow> nat list list \<Rightarrow> nat list list \<Rightarrow> 'h list list"
  all_to_all_scales :: "'s list list \<Rightarrow> nat list list \<Rightarrow> nat list list \<Rightarrow> 's list list"
  all_gather_counts :: "nat list list \<Rightarrow> nat list"

text \<open>\<^verbatim>\<open>torch.split\<close> with a list of sizes.\<close>

fun split_by :: "nat list \<Rightarrow> 'a list \<Rightarrow> 'a list list" where
  "split_by [] xs = []"
| "split_by (n # ns) xs = take n xs # split_by ns (drop n xs)"

text \<open>\<open>input_splits ! r\<close> are the sizes of the pieces that rank \<open>r\<close> sends to the ranks, \<open>output_splits ! g\<close> of those that rank \<open>g\<close> receives.\<close>

definition splits_agree :: "'a list list \<Rightarrow> nat list list \<Rightarrow> nat list list \<Rightarrow> bool" where
  "splits_agree inputs output_splits input_splits \<longleftrightarrow>
     length output_splits = length inputs \<and> length input_splits = length inputs \<and>
     (\<forall>r < length inputs. length (input_splits ! r) = length inputs \<and> length (output_splits ! r) = length inputs \<and>
       sum_list (input_splits ! r) = length (inputs ! r) \<and>
       (\<forall>g < length inputs. output_splits ! g ! r = input_splits ! r ! g))"

locale moe_device =
  fixes smul :: "'w \<Rightarrow> 'h::comm_monoid_add \<Rightarrow> 'h" and ops :: "('h, 'w, 's) npu_ops"
  assumes permute_rows: "length indices = length toks \<Longrightarrow> \<forall>row \<in> set indices. length row = k \<Longrightarrow>
      moe_token_permute ops toks indices = (permuted, mapping) \<Longrightarrow>
      length permuted = length toks * k \<and> length mapping = length toks * k \<and>
      distinct mapping \<and> set mapping = {..<length toks * k} \<and>
      (\<forall>i < length toks * k. permuted ! (mapping ! i) = toks ! (i div k)) \<and>
      (\<forall>i < length toks * k. \<forall>j < length toks * k. mapping ! i < mapping ! j \<longrightarrow> concat indices ! i \<le> concat indices ! j)"
    and unpermute_rows: "length mapping = length permuted \<Longrightarrow> set mapping \<subseteq> {..<length permuted} \<Longrightarrow>
      moe_token_unpermute ops permuted mapping = map (\<lambda>p. permuted ! p) mapping"
    and unpermute_weighted: "length permuted = length probs * k \<Longrightarrow> \<forall>row \<in> set probs. length row = k \<Longrightarrow>
      length mapping = length permuted \<Longrightarrow> set mapping \<subseteq> {..<length permuted} \<Longrightarrow>
      moe_token_unpermute_probs ops permuted mapping probs =
        map (\<lambda>t. \<Sum>j<k. smul (probs ! t ! j) (permuted ! (mapping ! (t * k + j)))) [0..<length probs]"
    and exchange_rows: "splits_agree inputs outs ins \<Longrightarrow>
      all_to_all_rows ops inputs outs ins =
        map (\<lambda>g. concat (map (\<lambda>r. split_by (ins ! r) (inputs ! r) ! g) [0..<length inputs])) [0..<length inputs]"
    and gather_counts: "all_gather_counts ops counts = concat counts"

subsection \<open>\<^verbatim>\<open>TokenDispatcherWithAll2AllV\<close>\<close>

record 'w a2av =
  av_num_local_experts :: nat
  av_num_experts :: nat
  av_ep_rank :: nat
  av_ep_size :: nat
  av_with_quant :: bool
  av_expert_ids_per_ep_rank :: "nat list"
  av_local_expert_indices :: "nat list"
  av_topk_weights :: "'w list list"
  av_num_out_tokens :: nat
  av_input_splits :: "nat list option"
  av_output_splits :: "nat list option"
  av_num_global_tokens_per_local_expert :: "nat list list option"
  av_local_experts_indices :: "nat list"
  av_reversed_local_mapping :: "nat list"
  av_reversed_global_mapping :: "nat list"

definition a2av_init :: "nat \<Rightarrow> nat \<Rightarrow> nat \<Rightarrow> nat \<Rightarrow> nat \<Rightarrow> bool \<Rightarrow> 'w a2av result" where
  "a2av_init num_local_experts num_experts num_global_redundant_experts ep_rank ep_size with_quant =
     (let n = num_experts + num_global_redundant_experts in
      if num_local_experts = 0 then Inl AssertionError
      else Inr \<lparr>av_num_local_experts = num_local_experts, av_num_experts = n, av_ep_rank = ep_rank, av_ep_size = ep_size,
             av_with_quant = with_quant,
             av_expert_ids_per_ep_rank = (if num_local_experts > 1 then map (\<lambda>i. i mod num_local_experts) [0..<n] else []),
             av_local_expert_indices = map (\<lambda>i. ep_rank * num_local_experts + i) [0..<num_local_experts],
             av_topk_weights = [], av_num_out_tokens = 0, av_input_splits = None, av_output_splits = None,
             av_num_global_tokens_per_local_expert = None, av_local_experts_indices = [],
             av_reversed_local_mapping = [], av_reversed_global_mapping = []\<rparr>)"

text \<open>\<^verbatim>\<open>torch.histc\<close> with unit bins: the last bin also counts its right end.\<close>

definition histc :: "nat list \<Rightarrow> nat \<Rightarrow> nat list" where
  "histc xs bins = map (\<lambda>b. length (filter (\<lambda>x. x = b \<or> (b = bins - 1 \<and> x = bins)) xs)) [0..<bins]"

text \<open>\<^verbatim>\<open>reshape(rows, cols)\<close> of a flat tensor.\<close>

definition reshape2 :: "nat \<Rightarrow> nat \<Rightarrow> 'a list \<Rightarrow> 'a list list result" where
  "reshape2 rows cols xs =
     (if length xs = rows * cols then Inr (map (\<lambda>r. take cols (drop (r * cols) xs)) [0..<rows]) else Inl RuntimeError)"

text \<open>\<^verbatim>\<open>_preprocess\<close> up to the gathering of the counts, and from there on.\<close>

definition count_local :: "nat list list \<Rightarrow> 'w a2av \<Rightarrow> (nat list \<times> 'w a2av) result" where
  "count_local topk_ids d =
     (let counts = histc (concat topk_ids) (av_num_experts d) in
      res_bind (reshape2 (av_ep_size d) (av_num_local_experts d) counts) (\<lambda>m.
        Inr (counts, d\<lparr>av_num_out_tokens := length (concat topk_ids), av_input_splits := Some (map sum_list m)\<rparr>)))"

definition gather_from_sequence_parallel_region :: "('h, 'w, 's) npu_ops \<Rightarrow> nat list list \<Rightarrow> nat list" where
  "gather_from_sequence_parallel_region ops counts = (if length counts = 1 then hd counts else all_gather_counts ops counts)"

definition count_global :: "nat list \<Rightarrow> 'w a2av \<Rightarrow> (nat list \<times> 'w a2av) result" where
  "count_global gathered d =
     res_bind (reshape2 (av_ep_size d) (av_num_experts d) gathered) (\<lambda>per_expert.
       let first = hd (av_local_expert_indices d); stop = last (av_local_expert_indices d) + 1;
           mine = map (\<lambda>row. take (stop - first) (drop first row)) per_expert;
           tokens_per_local_expert = map (\<lambda>j. sum_list (map (\<lambda>row. row ! j) mine)) [0..<av_num_local_experts d];
           d1 = d\<lparr>av_num_global_tokens_per_local_expert := Some mine, av_output_splits := Some (map sum_list mine)\<rparr> in
       if av_num_local_experts d > 1
       then if length (av_expert_ids_per_ep_rank d) \<noteq> length (concat mine) then Inl RuntimeError
            else Inr (tokens_per_local_expert, d1\<lparr>av_local_experts_indices :=
              concat (map2 (\<lambda>e c. replicate c e) (av_expert_ids_per_ep_rank d) (concat mine))\<rparr>)
       else Inr (tokens_per_local_expert, d1))"

text \<open>\<^verbatim>\<open>log2phy[topk_ids]\<close>.\<close>

definition index_rows :: "nat list \<Rightarrow> nat list list \<Rightarrow> nat list list result" where
  "index_rows table rows = res_map (res_map (\<lambda>e. if e < length table then Inr (table ! e) else Inl IndexError)) rows"

definition map_ids :: "nat list option \<Rightarrow> nat list list \<Rightarrow> nat list list result" where
  "map_ids log2phy topk_ids = (case log2phy of None \<Rightarrow> Inr topk_ids | Some table \<Rightarrow> index_rows table topk_ids)"

definition dispatch_postprocess :: "('h, 'w, 's) npu_ops \<Rightarrow> 'h list \<Rightarrow> 's list option \<Rightarrow> 'w a2av \<Rightarrow>
    ('h list \<times> 's list option) \<times> 'w a2av" where
  "dispatch_postprocess ops toks dynamic_scale d =
     (if av_num_local_experts d \<le> 1 then ((toks, None), d)
      else if av_with_quant d
      then if length (av_local_experts_indices d) \<le> 0
           then ((toks, dynamic_scale), d\<lparr>av_reversed_global_mapping := av_local_experts_indices d\<rparr>)
           else (let (rows, mapping, scale) = moe_init_routing_v2 ops toks (av_local_experts_indices d) (the dynamic_scale) in
             ((rows, Some scale), d\<lparr>av_reversed_global_mapping := mapping\<rparr>))
      else (let (rows, mapping) = moe_token_permute ops toks (map (\<lambda>j. [j]) (av_local_experts_indices d)) in
        ((rows, None), d\<lparr>av_reversed_global_mapping := mapping\<rparr>)))"

record ('h, 's) dispatched =
  dp_hidden_states :: "'h list"
  dp_group_list :: "nat list"
  dp_dynamic_scale :: "'s list option"

text \<open>All ranks: \<open>xs\<close>, \<open>ws\<close>, \<open>ids\<close> are the hidden states, weights and expert ids of each rank, \<open>tables\<close> its \<^verbatim>\<open>log2phy\<close>.\<close>

definition token_dispatch_all :: "('h, 'w, 's) npu_ops \<Rightarrow> 'h list list \<Rightarrow> 'w list list list \<Rightarrow> nat list list list \<Rightarrow>
    nat list option list \<Rightarrow> 'w a2av list \<Rightarrow> (('h, 's) dispatched list \<times> 'w a2av list) result" where
  "token_dispatch_all ops xs ws ids tables ds =
     res_bind (res_map (\<lambda>(t, i). map_ids t i) (zip tables ids)) (\<lambda>ids.
     res_bind (res_map (\<lambda>(i, w, d). count_local i (d\<lparr>av_topk_weights := w\<rparr>)) (zip ids (zip ws ds))) (\<lambda>counted.
     res_bind (res_map (\<lambda>(_, d). count_global (gather_from_sequence_parallel_region ops (map fst counted)) d) counted) (\<lambda>counted.
     let permuted = map2 (moe_token_permute ops) xs ids;
         ds = map2 (\<lambda>(_, d) (_, mapping). d\<lparr>av_reversed_local_mapping := mapping\<rparr>) counted permuted;
         quant = map2 (\<lambda>d (rows, _). if av_with_quant d then (fst (dynamic_quant ops rows), Some (snd (dynamic_quant ops rows)))
           else (rows, None)) ds permuted;
         outs = map (\<lambda>d. the (av_output_splits d)) ds; ins = map (\<lambda>d. the (av_input_splits d)) ds;
         scales = (if list_all av_with_quant ds
           then map Some (all_to_all_scales ops (map (\<lambda>q. the (snd q)) quant) outs ins) else map (\<lambda>_. None) ds);
         received = all_to_all_rows ops (map fst quant) outs ins;
         post = map2 (\<lambda>(r, s) d. dispatch_postprocess ops r s d) (zip received scales) ds in
     Inr (map2 (\<lambda>((rows, scale), _) (n, _). \<lparr>dp_hidden_states = rows, dp_group_list = n, dp_dynamic_scale = scale\<rparr>) post counted,
          map snd post))))"

definition combine_preprocess :: "('h, 'w, 's) npu_ops \<Rightarrow> 'h list \<Rightarrow> 'w a2av \<Rightarrow> 'h list" where
  "combine_preprocess ops rows d =
     (if length rows > 0 \<and> av_num_local_experts d > 1
      then moe_token_unpermute ops rows (av_reversed_global_mapping d) else rows)"

definition combine_postprocess :: "('h, 'w, 's) npu_ops \<Rightarrow> 'h list \<Rightarrow> 'w a2av \<Rightarrow> 'h list" where
  "combine_postprocess ops rows d = moe_token_unpermute_probs ops rows (av_reversed_local_mapping d) (av_topk_weights d)"

definition token_combine_all :: "('h, 'w, 's) npu_ops \<Rightarrow> 'h list list \<Rightarrow> 'w a2av list \<Rightarrow> 'h list list \<times> 'w a2av list" where
  "token_combine_all ops outputs ds =
     (let rows = map2 (combine_preprocess ops) outputs ds;
          back = all_to_all_rows ops rows (map (\<lambda>d. the (av_input_splits d)) ds) (map (\<lambda>d. the (av_output_splits d)) ds) in
      (map2 (combine_postprocess ops) back ds,
       map (\<lambda>d. d\<lparr>av_input_splits := None, av_output_splits := None, av_num_global_tokens_per_local_expert := None\<rparr>) ds))"

end
