(* ===== verification/Token_Dispatch_Proofs.thy ===== *)
theory Token_Dispatch_Proofs
  imports Token_Dispatch
begin

section \<open>Proofs about the dispatch of tokens\<close>

text \<open>
  Sorting by a key and cutting at its counts gives the classes of the key (\<open>split_by_sorted\<close>): both the exchange
  between the ranks and the sorting by local experts are of this form. A permuted tensor is followed through both
  exchanges by the list of the positions its rows come from.
\<close>

subsection \<open>Sorting and cutting\<close>

lemma sorted_least_first:
  "sorted (map t xs) \<Longrightarrow> \<forall>x \<in> set xs. k \<le> t x \<Longrightarrow>
   filter (\<lambda>x. t x = k) xs @ filter (\<lambda>x. t x \<noteq> k) xs = xs" for t :: "'a \<Rightarrow> nat"
proof (induction xs)
  case (Cons x xs)
  show ?case
  proof (cases "t x = k")
    case False
    then have "\<forall>y \<in> set xs. t y \<noteq> k" using Cons.prems by fastforce
    then have "filter (\<lambda>x. t x = k) xs = []" "filter (\<lambda>x. t x \<noteq> k) xs = xs" by (auto simp: filter_empty_conv filter_id_conv)
    then show ?thesis using False by simp
  qed (use Cons in simp)
qed simp

lemma split_by_from:
  assumes "sorted (map t xs)" "\<forall>x \<in> set xs. k \<le> t x \<and> t x < n"
  shows "split_by (map (\<lambda>j. length (filter (\<lambda>x. t x = j) xs)) [k..<n]) xs = map (\<lambda>j. filter (\<lambda>x. t x = j) xs) [k..<n] \<and>
     concat (map (\<lambda>j. filter (\<lambda>x. t x = j) xs) [k..<n]) = xs"
  using assms
proof (induction "n - k" arbitrary: k xs)
  case 0
  then have "xs = []" by (cases xs) auto
  then show ?case using 0 by simp
next
  case (Suc m)
  let ?a = "filter (\<lambda>x. t x = k) xs" and ?b = "filter (\<lambda>x. t x \<noteq> k) xs"
  have xs: "?a @ ?b = xs" using Suc.prems by (intro sorted_least_first) auto
  have kn: "[k..<n] = k # [Suc k..<n]" using Suc.hyps(2) by (simp add: upt_conv_Cons)
  have cls: "filter (\<lambda>x. t x = j) ?b = filter (\<lambda>x. t x = j) xs" if "j \<in> set [Suc k..<n]" for j
    using that by (auto intro: filter_cong)
  have ih: "split_by (map (\<lambda>j. length (filter (\<lambda>x. t x = j) ?b)) [Suc k..<n]) ?b = map (\<lambda>j. filter (\<lambda>x. t x = j) ?b) [Suc k..<n] \<and>
     concat (map (\<lambda>j. filter (\<lambda>x. t x = j) ?b) [Suc k..<n]) = ?b"
  proof (rule Suc.hyps(1))
    show "sorted (map t ?b)" using Suc.prems(1) by (rule sorted_filter)
    show "\<forall>x \<in> set ?b. Suc k \<le> t x \<and> t x < n" using Suc.prems(2) by fastforce
  qed (use Suc.hyps(2) in simp)
  have maps: "map (\<lambda>j. filter (\<lambda>x. t x = j) ?b) [Suc k..<n] = map (\<lambda>j. filter (\<lambda>x. t x = j) xs) [Suc k..<n]"
    "map (\<lambda>j. length (filter (\<lambda>x. t x = j) ?b)) [Suc k..<n] = map (\<lambda>j. length (filter (\<lambda>x. t x = j) xs)) [Suc k..<n]"
    by (rule map_cong [OF refl], simp only: cls)+
  have "take (length ?a) (?a @ ?b) = ?a" "drop (length ?a) (?a @ ?b) = ?b" by simp_all
  then have td: "take (length ?a) xs = ?a" "drop (length ?a) xs = ?b" by (simp_all only: xs)
  have "split_by (map (\<lambda>j. length (filter (\<lambda>x. t x = j) xs)) (k # [Suc k..<n])) xs = map (\<lambda>j. filter (\<lambda>x. t x = j) xs) (k # [Suc k..<n])"
    using conjunct1 [OF ih [unfolded maps]] by (simp add: td)
  moreover have "concat (map (\<lambda>j. filter (\<lambda>x. t x = j) xs) (k # [Suc k..<n])) = xs"
    using conjunct2 [OF ih [unfolded maps]] xs by simp
  ultimately show ?case unfolding kn by blast
qed

lemma split_by_sorted:
  assumes "sorted (map t xs)" "\<forall>x \<in> set xs. t x < n"
  shows "split_by (map (\<lambda>j. length (filter (\<lambda>x. t x = j) xs)) [0..<n]) xs = map (\<lambda>j. filter (\<lambda>x. t x = j) xs) [0..<n]"
    "concat (map (\<lambda>j. filter (\<lambda>x. t x = j) xs) [0..<n]) = xs"
proof -
  have "\<forall>x \<in> set xs. 0 \<le> t x \<and> t x < n" using assms(2) by simp
  note split_by_from [OF assms(1) this]
  then show "split_by (map (\<lambda>j. length (filter (\<lambda>x. t x = j) xs)) [0..<n]) xs = map (\<lambda>j. filter (\<lambda>x. t x = j) xs) [0..<n]"
    "concat (map (\<lambda>j. filter (\<lambda>x. t x = j) xs) [0..<n]) = xs" by blast+
qed

lemma split_by_map: "split_by ns (map h xs) = map (map h) (split_by ns xs)"
  by (induction ns arbitrary: xs) (simp_all add: take_map drop_map)

lemma split_by_concat: "split_by (map length xss) (concat xss) = xss"
  by (induction xss) simp_all

lemma length_split_by [simp]: "length (split_by ns xs) = length ns"
  by (induction ns arbitrary: xs) simp_all

lemma sum_list_classes: "\<forall>x \<in> set xs. t x < (n::nat) \<Longrightarrow> sum_list (map (\<lambda>j. length (filter (\<lambda>x. t x = j) xs)) [0..<n]) = length xs"
proof (induction xs)
  case (Cons x xs)
  have "sum_list (map (\<lambda>j. length (filter (\<lambda>y. t y = j) (x # xs))) [0..<n]) =
      sum_list (map (\<lambda>j. (if j = t x then 1 else 0) + length (filter (\<lambda>y. t y = j) xs)) [0..<n])"
    by (intro arg_cong [of _ _ sum_list] map_cong) auto
  also have "... = sum_list (map (\<lambda>j. if j = t x then 1 else 0) [0..<n]) + sum_list (map (\<lambda>j. length (filter (\<lambda>y. t y = j) xs)) [0..<n])"
    by (rule sum_list_addf)
  also have "sum_list (map (\<lambda>j. if j = t x then 1 else (0::nat)) [0..<n]) = 1"
    using Cons.prems by (simp add: interv_sum_list_conv_sum_set_nat)
  finally show ?case using Cons by simp
qed simp

text \<open>What the experts of a rank compute: \<open>f e\<close> for the rows of expert \<open>e\<close>, cut out by the group list.\<close>

definition experts_stage :: "(nat \<Rightarrow> 'h \<Rightarrow> 'h) \<Rightarrow> nat \<Rightarrow> nat list \<Rightarrow> 'h list \<Rightarrow> 'h list" where
  "experts_stage f first group_list rows =
     concat (map2 (\<lambda>j seg. map (f (first + j)) seg) [0..<length group_list] (split_by group_list rows))"

lemma experts_stage_sorted:
  assumes "sorted (map t xs)" "\<forall>x \<in> set xs. t x < n"
  shows "experts_stage f first (map (\<lambda>j. length (filter (\<lambda>x. t x = j) xs)) [0..<n]) (map h xs) = map (\<lambda>x. f (first + t x) (h x)) xs"
proof -
  have "experts_stage f first (map (\<lambda>j. length (filter (\<lambda>x. t x = j) xs)) [0..<n]) (map h xs) =
      concat (map (\<lambda>j. map (\<lambda>x. f (first + j) (h x)) (filter (\<lambda>x. t x = j) xs)) [0..<n])"
    by (simp add: experts_stage_def split_by_map split_by_sorted(1) [OF assms] zip_map2 zip_same_conv_map comp_def)
  also have "... = concat (map (\<lambda>j. map (\<lambda>x. f (first + t x) (h x)) (filter (\<lambda>x. t x = j) xs)) [0..<n])"
    by (intro arg_cong [of _ _ concat] map_cong) auto
  also have "... = map (\<lambda>x. f (first + t x) (h x)) xs"
    using arg_cong [OF split_by_sorted(2) [OF assms], of "map (\<lambda>x. f (first + t x) (h x))"] by (simp add: map_concat comp_def)
  finally show ?thesis .
qed

lemma mset_positions:
  assumes "distinct src" "set src = {..<length xs}"
  shows "mset (map (\<lambda>i. xs ! i) src) = mset xs"
proof -
  have "set src = set [0..<length xs]" using assms(2) by (simp add: atLeast0LessThan)
  then have "mset src = mset [0..<length xs]" using set_eq_iff_mset_eq_distinct [OF assms(1) distinct_upt] by blast
  then have "mset (map (\<lambda>i. xs ! i) src) = image_mset (\<lambda>i. xs ! i) (mset [0..<length xs])" by (simp only: mset_map)
  also have "... = mset (map (\<lambda>i. xs ! i) [0..<length xs])" by (simp only: mset_map)
  finally show ?thesis by (simp only: map_nth)
qed

lemma filter_positions:
  assumes "distinct src" "set src = {..<length xs}"
  shows "length (filter (\<lambda>i. P (xs ! i)) src) = length (filter P xs)"
proof -
  have "mset (filter P (map (\<lambda>i. xs ! i) src)) = mset (filter P xs)" by (simp only: mset_filter mset_positions [OF assms])
  then have "length (filter P (map (\<lambda>i. xs ! i) src)) = length (filter P xs)" by (rule mset_eq_length)
  then show ?thesis by (simp add: filter_map comp_def)
qed

subsection \<open>The kernels\<close>

context moe_device
begin

lemma permute_positions:
  assumes "length indices = length toks" "\<forall>row \<in> set indices. length row = k"
  obtains src mapping where "moe_token_permute ops toks indices = (map (\<lambda>i. toks ! (i div k)) src, mapping)"
    "distinct src" "set src = {..<length toks * k}" "length src = length toks * k" "length mapping = length toks * k"
    "set mapping = {..<length toks * k}" "\<forall>i < length toks * k. src ! (mapping ! i) = i"
    "sorted (map (\<lambda>i. concat indices ! i) src)"
proof -
  let ?n = "length toks * k"
  obtain permuted mapping where p: "moe_token_permute ops toks indices = (permuted, mapping)" by (cases "moe_token_permute ops toks indices")
  have law: "length permuted = ?n" "length mapping = ?n" "distinct mapping" "set mapping = {..<?n}"
    "\<And>i. i < ?n \<Longrightarrow> permuted ! (mapping ! i) = toks ! (i div k)"
    "\<And>i j. i < ?n \<Longrightarrow> j < ?n \<Longrightarrow> mapping ! i < mapping ! j \<Longrightarrow> concat indices ! i \<le> concat indices ! j"
    using permute_rows [OF assms p] by blast+
  have "\<exists>i. i < ?n \<and> mapping ! i = q" if "q < ?n" for q
  proof -
    have "q \<in> set mapping" using law(4) that by simp
    then show ?thesis using law(2) by (metis in_set_conv_nth)
  qed
  then obtain pos where pos: "\<And>q. q < ?n \<Longrightarrow> pos q < ?n \<and> mapping ! pos q = q" by metis
  have m: "mapping ! i < ?n" if "i < ?n" for i
  proof -
    have "mapping ! i \<in> set mapping" using that law(2) by simp
    then show ?thesis using law(4) by simp
  qed
  have home: "pos (mapping ! i) = i" if "i < ?n" for i
    using pos [OF m [OF that]] law(2,3) that by (metis nth_eq_iff_index_eq)
  let ?src = "map pos [0..<?n]"
  have eq: "permuted = map (\<lambda>i. toks ! (i div k)) ?src"
  proof (rule nth_equalityI)
    fix q assume "q < length permuted"
    then have q: "q < ?n" using law(1) by simp
    then have "permuted ! q = toks ! (pos q div k)" using pos [OF q] law(5) [of "pos q"] by simp
    then show "permuted ! q = map (\<lambda>i. toks ! (i div k)) ?src ! q" using q by simp
  qed (simp add: law(1))
  have dist: "distinct ?src"
  proof -
    have "inj_on pos {0..<?n}" by (rule inj_on_inverseI [of _ "\<lambda>i. mapping ! i"]) (use pos in simp)
    then show ?thesis by (simp add: distinct_map)
  qed
  have "set": "set ?src = {..<?n}"
  proof -
    have "i \<in> pos ` {0..<?n}" if "i < ?n" for i using home [OF that] m [OF that] by (intro image_eqI [of _ _ "mapping ! i"]) simp_all
    then show ?thesis using pos by auto
  qed
  have srt: "sorted (map (\<lambda>i. concat indices ! i) ?src)"
    unfolding sorted_iff_nth_mono_less using pos law(6) by simp
  have inverse: "\<forall>i < ?n. ?src ! (mapping ! i) = i" using m home by simp
  show ?thesis by (rule that [OF p [unfolded eq] dist "set" _ law(2,4) inverse srt]) simp
qed

text \<open>On one rank: sorting by local expert, the experts and the way back apply each row's expert to it, in place.\<close>

lemma experts_stage_positions:
  assumes "distinct src" "set src = {..<length toks}" "length idx = length toks" "\<forall>j \<in> set idx. j < n"
    "sorted (map (\<lambda>i. idx ! i) src)"
  shows "experts_stage f first (map (\<lambda>j. length (filter (\<lambda>x. x = j) idx)) [0..<n]) (map (\<lambda>i. toks ! i) src) =
    map (\<lambda>i. f (first + idx ! i) (toks ! i)) src"
proof -
  have "length (filter (\<lambda>i. idx ! i = j) src) = length (filter (\<lambda>x. x = j) idx)" for j
    using assms(2,3) by (intro filter_positions [OF assms(1)]) simp
  moreover have "\<forall>i \<in> set src. idx ! i < n" using assms(2-4) by simp
  ultimately show ?thesis using experts_stage_sorted [OF assms(5), of n f first "\<lambda>i. toks ! i"] by simp
qed

lemma rank_stage:
  assumes "length idx = length toks" "\<forall>j \<in> set idx. j < nl" "0 < nl" "av_num_local_experts d = nl" "\<not> av_with_quant d"
    "nl > 1 \<longrightarrow> av_local_experts_indices d = idx"
  obtains rows mapping where
    "dispatch_postprocess ops toks scale d = ((rows, None), d\<lparr>av_reversed_global_mapping := mapping\<rparr>)"
    "combine_preprocess ops (experts_stage f first (map (\<lambda>j. length (filter (\<lambda>x. x = j) idx)) [0..<nl]) rows)
       (d\<lparr>av_reversed_global_mapping := mapping\<rparr>) = map2 (\<lambda>j x. f (first + j) x) idx toks"
proof (cases "nl > 1")
  case False
  then have zero: "\<forall>j \<in> set idx. j = 0" "nl = 1" using assms(2,3) by auto
  then have "idx ! i = 0" if "i < length toks" for i using that assms(1) by simp
  then have "sorted (map (\<lambda>i. idx ! i) [0..<length toks])" by (simp add: sorted_iff_nth_mono)
  then have "experts_stage f first (map (\<lambda>j. length (filter (\<lambda>x. x = j) idx)) [0..<nl]) (map (\<lambda>i. toks ! i) [0..<length toks]) =
      map (\<lambda>i. f (first + idx ! i) (toks ! i)) [0..<length toks]"
    using assms(1,2) by (intro experts_stage_positions) (simp_all add: atLeast0LessThan)
  also have "... = map2 (\<lambda>j x. f (first + j) x) idx toks" using assms(1) by (intro nth_equalityI) simp_all
  finally show ?thesis using assms(4) False
    by (intro that [of toks "av_reversed_global_mapping d"]) (simp_all add: dispatch_postprocess_def combine_preprocess_def map_nth)
next
  case True
  have shape: "length (map (\<lambda>j. [j]) idx) = length toks" "\<forall>row \<in> set (map (\<lambda>j. [j]) idx). length row = 1"
    using assms(1) by simp_all
  obtain src mapping where p: "moe_token_permute ops toks (map (\<lambda>j. [j]) idx) = (map (\<lambda>i. toks ! (i div 1)) src, mapping)"
      "distinct src" "set src = {..<length toks * 1}" "length src = length toks * 1" "length mapping = length toks * 1"
      "set mapping = {..<length toks * 1}" "\<forall>i < length toks * 1. src ! (mapping ! i) = i"
      "sorted (map (\<lambda>i. concat (map (\<lambda>j. [j]) idx) ! i) src)"
    using permute_positions [OF shape] .
  let ?out = "map (\<lambda>i. f (first + idx ! i) (toks ! i)) src"
  have "concat (map (\<lambda>j. [j]) idx) = idx" by (induction idx) simp_all
  then have out: "experts_stage f first (map (\<lambda>j. length (filter (\<lambda>x. x = j) idx)) [0..<nl]) (map (\<lambda>i. toks ! i) src) = ?out"
    using p assms(1,2) by (intro experts_stage_positions) simp_all
  have at: "?out ! (mapping ! i) = f (first + idx ! i) (toks ! i)" if "i < length toks" for i
  proof -
    have "mapping ! i \<in> set mapping" using that p(5) by simp
    then show ?thesis using that p(4,6,7) by simp
  qed
  have "moe_token_unpermute ops ?out mapping = map (\<lambda>q. ?out ! q) mapping"
    using p(4-6) by (intro unpermute_rows) simp_all
  also have "... = map2 (\<lambda>j x. f (first + j) x) idx toks"
    using p(5) assms(1) at by (intro nth_equalityI) simp_all
  finally have "combine_preprocess ops ?out (d\<lparr>av_reversed_global_mapping := mapping\<rparr>) = map2 (\<lambda>j x. f (first + j) x) idx toks"
    using True assms(1,4) p(4) by (auto simp: combine_preprocess_def)
  then show ?thesis using True assms(4-6) p(1) out
    by (intro that [of "map (\<lambda>i. toks ! i) src" mapping]) (simp_all add: dispatch_postprocess_def)
qed

text \<open>The exchange there and back.\<close>

lemma exchange_back:
  assumes "\<And>r. r < R \<Longrightarrow> length (pieces r) = R" "R = length ins" "R = length outs"
    "\<And>r. r < R \<Longrightarrow> ins ! r = map length (pieces r)" "\<And>g. g < R \<Longrightarrow> outs ! g = map (\<lambda>r. length (pieces r ! g)) [0..<R]"
  shows "all_to_all_rows ops (map (\<lambda>r. map h (concat (pieces r))) [0..<R]) outs ins =
      map (\<lambda>g. map h (concat (map (\<lambda>r. pieces r ! g) [0..<R]))) [0..<R]"
    "all_to_all_rows ops (map (\<lambda>g. map h (concat (map (\<lambda>r. pieces r ! g) [0..<R]))) [0..<R]) ins outs =
      map (\<lambda>r. map h (concat (pieces r))) [0..<R]"
proof -
  have cat: "sum_list (map length xss) = length (concat xss)" for xss :: "'z list list" by (simp add: length_concat)
  have cut: "split_by (map length xss) (map k (concat xss)) ! g = map k (xss ! g)" if "g < length xss" for xss :: "'z list list" and k :: "'z \<Rightarrow> 'h" and g
    using that by (simp add: split_by_map split_by_concat)
  have len: "sum_list (outs ! g) = length (concat (map (\<lambda>r. pieces r ! g) [0..<R]))" if "g < R" for g
    using assms(5) [OF that] by (simp add: length_concat comp_def)
  have agree: "splits_agree (map (\<lambda>r. map h (concat (pieces r))) [0..<R]) outs ins"
    "splits_agree (map (\<lambda>g. map h (concat (map (\<lambda>r. pieces r ! g) [0..<R]))) [0..<R]) ins outs"
    using assms len by (simp_all add: splits_agree_def cat)
  show "all_to_all_rows ops (map (\<lambda>r. map h (concat (pieces r))) [0..<R]) outs ins =
      map (\<lambda>g. map h (concat (map (\<lambda>r. pieces r ! g) [0..<R]))) [0..<R]"
    unfolding exchange_rows [OF agree(1)] using assms cut [of _ "pieces _" h]
    by (auto simp: map_concat comp_def intro!: arg_cong [of _ _ concat] map_cong)
  let ?rows = "map (\<lambda>g. map h (concat (map (\<lambda>r. pieces r ! g) [0..<R]))) [0..<R]"
  have "concat (map (\<lambda>g. split_by (outs ! g) (?rows ! g) ! r) [0..<R]) = map h (concat (pieces r))" if r: "r < R" for r
  proof -
    have "split_by (outs ! g) (?rows ! g) ! r = map h (pieces r ! g)" if "g < R" for g
      using cut [of r "map (\<lambda>r. pieces r ! g) [0..<R]" h] that r assms(5) [OF that] by (simp add: comp_def)
    then have "map (\<lambda>g. split_by (outs ! g) (?rows ! g) ! r) [0..<R] = map (\<lambda>g. map h (pieces r ! g)) [0..<R]"
      by (intro map_cong refl) simp
    also have "... = map (map h) (pieces r)" using assms(1) [OF r] by (intro nth_equalityI) simp_all
    finally show ?thesis by (simp add: map_concat)
  qed
  then show "all_to_all_rows ops ?rows ins outs = map (\<lambda>r. map h (concat (pieces r))) [0..<R]"
    unfolding exchange_rows [OF agree(2)] by (intro map_cong) simp_all
qed

end

end
