(* ===== verification/Token_Dispatch_Props.thy ===== *)
theory Token_Dispatch_Props
  imports Token_Dispatch_Proofs
begin

section \<open>Properties of the dispatch of tokens\<close>

text \<open>
  Dispatching, computing the experts where they live and combining gives every token the weighted sum of its experts,
  on every rank.
\<close>

subsection \<open>Counts\<close>

lemma histc_valid: "\<forall>x \<in> set xs. x < n \<Longrightarrow> histc xs n = map (\<lambda>b. length (filter (\<lambda>x. x = b) xs)) [0..<n]"
  unfolding histc_def by (intro map_cong refl arg_cong [of _ _ length] filter_cong) auto

lemma window: "r < R \<Longrightarrow> take n (drop (r * n) (map g [0..<R * n])) = map (\<lambda>j. g (r * n + j)) [0..<n]"
proof -
  assume "r < R"
  then have "Suc r * n \<le> R * n" by (intro mult_le_mono1) simp
  then have le: "r * n + n \<le> R * n" by simp
  show ?thesis
  proof (rule nth_equalityI)
    fix j assume "j < length (take n (drop (r * n) (map g [0..<R * n])))"
    then have j: "j < n" "r * n + j < R * n" using le by simp_all
    have "r * n \<le> length (map g [0..<R * n])" using le by (metis add_leD1 length_map length_upt minus_nat.diff_0)
    then have "drop (r * n) (map g [0..<R * n]) ! j = map g [0..<R * n] ! (r * n + j)" by (rule nth_drop)
    then show "take n (drop (r * n) (map g [0..<R * n])) ! j = map (\<lambda>j. g (r * n + j)) [0..<n] ! j" using j by simp
  qed (use le in simp)
qed

lemma reshape2_map: "reshape2 R n (map g [0..<R * n]) = Inr (map (\<lambda>r. map (\<lambda>j. g (r * n + j)) [0..<n]) [0..<R])"
  by (simp add: reshape2_def window cong: map_cong)

lemma length_concat_uniform: "\<forall>xs \<in> set xss. length xs = n \<Longrightarrow> length (concat xss) = length xss * n"
  by (induction xss) simp_all

lemma concat_window:
  "\<forall>xs \<in> set xss. length xs = n \<Longrightarrow> r < length xss \<Longrightarrow> take n (drop (r * n) (concat xss)) = xss ! r"
proof (induction xss arbitrary: r)
  case (Cons xs xss)
  then show ?case by (cases r) simp_all
qed simp

lemma nth_concat_uniform:
  "\<forall>xs \<in> set xss. length xs = n \<Longrightarrow> t < length xss \<Longrightarrow> j < n \<Longrightarrow> concat xss ! (t * n + j) = xss ! t ! j"
proof (induction xss arbitrary: t)
  case (Cons xs xss)
  then show ?case by (cases t) (simp_all add: nth_append)
qed simp

lemma reshape2_concat:
  assumes "\<forall>xs \<in> set xss. length xs = n"
  shows "reshape2 (length xss) n (concat xss) = Inr xss"
proof -
  have "map (\<lambda>r. take n (drop (r * n) (concat xss))) [0..<length xss] = map (\<lambda>r. xss ! r) [0..<length xss]"
    using concat_window [OF assms] by (intro map_cong) simp_all
  then show ?thesis by (simp add: reshape2_def length_concat_uniform [OF assms] map_nth)
qed

lemma class_sum:
  assumes "0 < (n::nat)"
  shows "sum_list (map (\<lambda>j. length (filter (\<lambda>x. x = g * n + j) xs)) [0..<n]) = length (filter (\<lambda>x. x div n = g) xs)"
proof -
  have "filter (\<lambda>x. x mod n = j) (filter (\<lambda>x. x div n = g) xs) = filter (\<lambda>x. x = g * n + j) xs" if "j < n" for j
    using that assms by (auto intro!: filter_cong simp: mult.commute)
  then have "sum_list (map (\<lambda>j. length (filter (\<lambda>x. x = g * n + j) xs)) [0..<n]) =
      sum_list (map (\<lambda>j. length (filter (\<lambda>x. x mod n = j) (filter (\<lambda>x. x div n = g) xs))) [0..<n])"
    by (intro arg_cong [of _ _ sum_list] map_cong) simp_all
  then show ?thesis using sum_list_classes [of "filter (\<lambda>x. x div n = g) xs" "\<lambda>x. x mod n" n] assms by simp
qed

lemma length_filter_concat: "length (filter P (concat xss)) = sum_list (map (\<lambda>xs. length (filter P xs)) xss)"
  by (induction xss) simp_all

lemma repeat_rows: "map (\<lambda>i. i mod n) [0..<R * n] = concat (map (\<lambda>_. [0..<n]) [0..<R])"
proof (induction R)
  case (Suc R)
  have "[0..<Suc R * n] = [0..<R * n] @ map (\<lambda>j. R * n + j) [0..<n]"
    using upt_add_eq_append [of 0 "R * n" n] map_add_upt [of "R * n" n] by (simp add: add.commute)
  moreover have "map (\<lambda>j. (R * n + j) mod n) [0..<n] = [0..<n]" by (rule map_idI) simp
  ultimately show ?case using Suc by (simp add: comp_def)
qed simp

lemma map2_concat:
  "length xss = length yss \<Longrightarrow> \<forall>r < length xss. length (xss ! r) = length (yss ! r) \<Longrightarrow>
   map2 g (concat xss) (concat yss) = concat (map2 (map2 g) xss yss)"
proof (induction xss yss rule: list_induct2)
  case (Cons xs xss ys yss)
  have "length xs = length ys" using Cons.prems [rule_format, of 0] by simp
  moreover have "\<forall>r < length xss. length (xss ! r) = length (yss ! r)" using Cons.prems by fastforce
  ultimately show ?case using Cons.IH by simp
qed simp

lemma flat_rows: "concat (concat (map h xs)) = concat (map (\<lambda>x. concat (h x)) xs)"
  by (induction xs) simp_all

text \<open>The counts of local experts, repeated, are the local experts of the received rows.\<close>

lemma local_experts_repeated:
  "concat (map2 (\<lambda>e c. replicate c e) (map (\<lambda>i. i mod n) [0..<R * n]) (concat (map (\<lambda>s. map (c s) [0..<n]) [0..<R]))) =
   concat (map (\<lambda>s. concat (map (\<lambda>j. replicate (c s j) j) [0..<n])) [0..<R])"
proof -
  have row: "map2 (\<lambda>e c. replicate c e) [0..<n] (map (c s) [0..<n]) = map (\<lambda>j. replicate (c s j) j) [0..<n]" for s
    using map2_map_map [of "\<lambda>e c. replicate c e" "\<lambda>j. j" "[0..<n]" "c s"] by simp
  have "map2 (\<lambda>e c. replicate c e) (map (\<lambda>i. i mod n) [0..<R * n]) (concat (map (\<lambda>s. map (c s) [0..<n]) [0..<R])) =
      concat (map2 (map2 (\<lambda>e c. replicate c e)) (map (\<lambda>_. [0..<n]) [0..<R]) (map (\<lambda>s. map (c s) [0..<n]) [0..<R]))"
    unfolding repeat_rows by (rule map2_concat) simp_all
  also have "... = concat (map (\<lambda>s. map (\<lambda>j. replicate (c s j) j) [0..<n]) [0..<R])"
    unfolding map2_map_map row by (rule refl)
  finally show ?thesis by (simp only: flat_rows)
qed

subsection \<open>All ranks\<close>

definition phys :: "nat list option \<Rightarrow> nat \<Rightarrow> nat" where
  "phys table e = (case table of None \<Rightarrow> e | Some t \<Rightarrow> t ! e)"

definition in_table :: "nat list option \<Rightarrow> nat \<Rightarrow> bool" where
  "in_table table e \<longleftrightarrow> (case table of None \<Rightarrow> True | Some t \<Rightarrow> e < length t)"

text \<open>\<open>R\<close> ranks with \<open>n\<close> experts each, \<open>k\<close> experts for every token; one dispatcher per rank, fresh or reused.\<close>

definition ranks_ok :: "nat \<Rightarrow> nat \<Rightarrow> nat \<Rightarrow> 'h list list \<Rightarrow> 'w list list list \<Rightarrow> nat list list list \<Rightarrow> nat list option list \<Rightarrow>
    'w a2av list \<Rightarrow> bool" where
  "ranks_ok R n k xs ws ids tables ds \<longleftrightarrow> 0 < R \<and> 0 < n \<and> length xs = R \<and> length ws = R \<and> length ids = R \<and>
     length tables = R \<and> length ds = R \<and>
     (\<forall>r < R. length (ids ! r) = length (xs ! r) \<and> length (ws ! r) = length (xs ! r) \<and>
       (\<forall>row \<in> set (ws ! r). length row = k) \<and>
       (\<forall>row \<in> set (ids ! r). length row = k \<and> (\<forall>e \<in> set row. in_table (tables ! r) e \<and> phys (tables ! r) e < R * n)) \<and>
       av_num_local_experts (ds ! r) = n \<and> av_num_experts (ds ! r) = R * n \<and> av_ep_rank (ds ! r) = r \<and>
       av_ep_size (ds ! r) = R \<and> \<not> av_with_quant (ds ! r) \<and>
       (n > 1 \<longrightarrow> av_expert_ids_per_ep_rank (ds ! r) = map (\<lambda>i. i mod n) [0..<R * n]) \<and>
       av_local_expert_indices (ds ! r) = map (\<lambda>i. r * n + i) [0..<n])"

lemma init_ok:
  "a2av_init n (E - red) red r R False = Inr d \<Longrightarrow> red \<le> E \<Longrightarrow> E = R * n \<Longrightarrow>
   0 < n \<and> av_num_local_experts d = n \<and> av_num_experts d = R * n \<and> av_ep_rank d = r \<and> av_ep_size d = R \<and> \<not> av_with_quant d \<and>
   (n > 1 \<longrightarrow> av_expert_ids_per_ep_rank d = map (\<lambda>i. i mod n) [0..<R * n]) \<and>
   av_local_expert_indices d = map (\<lambda>i. r * n + i) [0..<n]"
  by (auto simp: a2av_init_def Let_def split: if_splits)

lemma map_ids_ok:
  assumes "\<forall>row \<in> set rows. \<forall>e \<in> set row. in_table table e"
  shows "map_ids table rows = Inr (map (map (phys table)) rows)"
proof (cases table)
  case None
  then show ?thesis by (simp add: map_ids_def phys_def map_idI)
next
  case (Some t)
  have "res_map (\<lambda>e. if e < length t then Inr (t ! e) else Inl IndexError) row = Inr (map (phys table) row)" if "row \<in> set rows" for row
    using assms that Some by (intro res_map_Inr) (auto simp: phys_def in_table_def)
  then show ?thesis using Some by (simp add: map_ids_def index_rows_def)
qed

definition expert_count :: "nat list list \<Rightarrow> nat \<Rightarrow> nat" where
  "expert_count rows e = length (filter (\<lambda>x. x = e) (concat rows))"

lemma count_local_ok:
  assumes "\<forall>row \<in> set rows. \<forall>e \<in> set row. e < R * n" "av_num_experts d = R * n" "av_ep_size d = R" "av_num_local_experts d = n" "0 < n"
  shows "count_local rows d = Inr (map (expert_count rows) [0..<R * n], d\<lparr>av_num_out_tokens := length (concat rows),
      av_input_splits := Some (map (\<lambda>g. length (filter (\<lambda>x. x div n = g) (concat rows))) [0..<R])\<rparr>)"
proof -
  have "histc (concat rows) (R * n) = map (expert_count rows) [0..<R * n]"
    using assms(1) by (subst histc_valid) (auto simp: expert_count_def)
  moreover have "sum_list (map (\<lambda>j. expert_count rows (g * n + j)) [0..<n]) = length (filter (\<lambda>x. x div n = g) (concat rows))" for g
    unfolding expert_count_def by (rule class_sum [OF assms(5)])
  ultimately show ?thesis using assms(2-4) by (simp add: count_local_def reshape2_map comp_def)
qed

lemma gather_ok:
  "moe_device smul ops \<Longrightarrow> gather_from_sequence_parallel_region ops counts = concat counts"
  by (auto simp: gather_from_sequence_parallel_region_def moe_device.gather_counts length_Suc_conv)

lemma count_global_ok:
  assumes "av_num_experts d = R * n" "av_ep_size d = R" "av_num_local_experts d = n" "av_local_expert_indices d = map (\<lambda>i. g * n + i) [0..<n]"
    "n > 1 \<longrightarrow> av_expert_ids_per_ep_rank d = map (\<lambda>i. i mod n) [0..<R * n]" "g < R" "0 < n"
  shows "\<exists>d'. count_global (concat (map (\<lambda>s. map (c s) [0..<R * n]) [0..<R])) d =
      Inr (map (\<lambda>j. sum_list (map (\<lambda>s. c s (g * n + j)) [0..<R])) [0..<n], d') \<and>
    (\<exists>m ix. d' = d\<lparr>av_num_global_tokens_per_local_expert := Some m, av_output_splits :=
       Some (map (\<lambda>s. sum_list (map (\<lambda>j. c s (g * n + j)) [0..<n])) [0..<R]), av_local_experts_indices := ix\<rparr> \<and>
     (n > 1 \<longrightarrow> ix = concat (map (\<lambda>s. concat (map (\<lambda>j. replicate (c s (g * n + j)) j) [0..<n])) [0..<R])))"
proof -
  let ?mine = "map (\<lambda>s. map (\<lambda>j. c s (g * n + j)) [0..<n]) [0..<R]"
  have shape: "reshape2 R (R * n) (concat (map (\<lambda>s. map (c s) [0..<R * n]) [0..<R])) = Inr (map (\<lambda>s. map (c s) [0..<R * n]) [0..<R])"
    using reshape2_concat [of "map (\<lambda>s. map (c s) [0..<R * n]) [0..<R]" "R * n"] by simp
  have ends: "hd (av_local_expert_indices d) = g * n" "last (av_local_expert_indices d) + 1 - g * n = n"
    using assms(4,7) by (simp_all add: hd_map last_map)
  have mine: "map (\<lambda>row. take n (drop (g * n) row)) (map (\<lambda>s. map (c s) [0..<R * n]) [0..<R]) = ?mine"
    by (simp only: map_map comp_def window [OF assms(6)])
  have cols: "map (\<lambda>j. sum_list (map (\<lambda>row. row ! j) ?mine)) [0..<n] = map (\<lambda>j. sum_list (map (\<lambda>s. c s (g * n + j)) [0..<R])) [0..<n]"
    by (intro map_cong refl) (simp add: comp_def)
  have len: "length (concat ?mine) = R * n" using length_concat_uniform [of ?mine n] by simp
  have splits: "map sum_list ?mine = map (\<lambda>s. sum_list (map (\<lambda>j. c s (g * n + j)) [0..<n])) [0..<R]" by simp
  show ?thesis
  proof (cases "n > 1")
    case True
    have "count_global (concat (map (\<lambda>s. map (c s) [0..<R * n]) [0..<R])) d =
        Inr (map (\<lambda>j. sum_list (map (\<lambda>s. c s (g * n + j)) [0..<R])) [0..<n],
          d\<lparr>av_num_global_tokens_per_local_expert := Some ?mine, av_output_splits := Some (map sum_list ?mine),
            av_local_experts_indices := concat (map2 (\<lambda>e c. replicate c e) (map (\<lambda>i. i mod n) [0..<R * n]) (concat ?mine))\<rparr>)"
      unfolding count_global_def assms(1-3) shape res_bind_Inr Let_def ends mine cols using True assms(5) len by simp
    then show ?thesis unfolding splits local_experts_repeated by auto
  next
    case False
    have "count_global (concat (map (\<lambda>s. map (c s) [0..<R * n]) [0..<R])) d =
        Inr (map (\<lambda>j. sum_list (map (\<lambda>s. c s (g * n + j)) [0..<R])) [0..<n],
          d\<lparr>av_num_global_tokens_per_local_expert := Some ?mine, av_output_splits := Some (map sum_list ?mine),
            av_local_experts_indices := av_local_experts_indices d\<rparr>)"
      unfolding count_global_def assms(1-3) shape res_bind_Inr Let_def ends mine cols using False by simp
    then show ?thesis unfolding splits using False by blast
  qed
qed

lemma zip_ranks: "length xs = R \<Longrightarrow> length ys = R \<Longrightarrow> zip xs ys = map (\<lambda>r. (xs ! r, ys ! r)) [0..<R]"
  by (intro nth_equalityI) simp_all

lemma map2_ranks: "map2 f (map g [0..<R]) (map h [0..<R]) = map (\<lambda>r. f (g r) (h r)) [0..<(R::nat)]"
  by (rule map2_map_map)

text \<open>The structure of \<open>token_dispatch_all\<close>, rank by rank.\<close>

lemma dispatch_eval:
  assumes "length xs = R" "length ws = R" "length ids = R" "length tables = R" "length ds = R" "0 < R"
    and "\<And>r. r < R \<Longrightarrow> map_ids (tables ! r) (ids ! r) = Inr (rid r)"
    and "\<And>r. r < R \<Longrightarrow> count_local (rid r) ((ds ! r)\<lparr>av_topk_weights := ws ! r\<rparr>) = Inr (c r, da r)"
    and "\<And>r. r < R \<Longrightarrow> count_global (gather_from_sequence_parallel_region ops (map c [0..<R])) (da r) = Inr (n r, db r)"
    and "\<And>r. r < R \<Longrightarrow> moe_token_permute ops (xs ! r) (rid r) = (p r, m r)"
    and "\<And>r. r < R \<Longrightarrow> \<not> av_with_quant (db r)"
    and "all_to_all_rows ops (map p [0..<R]) (map (\<lambda>r. the (av_output_splits (db r))) [0..<R])
      (map (\<lambda>r. the (av_input_splits (db r))) [0..<R]) = map received [0..<R]"
    and "\<And>r. r < R \<Longrightarrow> dispatch_postprocess ops (received r) None ((db r)\<lparr>av_reversed_local_mapping := m r\<rparr>) = ((rows r, sc r), dc r)"
  shows "token_dispatch_all ops xs ws ids tables ds =
    Inr (map (\<lambda>r. \<lparr>dp_hidden_states = rows r, dp_group_list = n r, dp_dynamic_scale = sc r\<rparr>) [0..<R], map dc [0..<R])"
proof -
  let ?d = "\<lambda>r. (db r)\<lparr>av_reversed_local_mapping := m r\<rparr>"
  have rm: "res_map F (map h [0..<R]) = Inr (map y [0..<R])" if "\<And>r. r < R \<Longrightarrow> F (h r) = Inr (y r)" for F :: "'x \<Rightarrow> 'y result" and h y
    using that by (simp add: res_map_eq_Inr list_all2_conv_all_nth)
  have 1: "res_map (\<lambda>(t, i). map_ids t i) (zip tables ids) = Inr (map rid [0..<R])"
    unfolding zip_ranks [OF assms(4,3)] using assms(7) by (intro rm) simp
  have "zip (map rid [0..<R]) (zip ws ds) = map (\<lambda>r. (rid r, ws ! r, ds ! r)) [0..<R]"
    using assms(2,5) by (intro nth_equalityI) simp_all
  then have 2: "res_map (\<lambda>(i, w, d). count_local i (d\<lparr>av_topk_weights := w\<rparr>)) (zip (map rid [0..<R]) (zip ws ds)) =
      Inr (map (\<lambda>r. (c r, da r)) [0..<R])"
    using assms(8) by (simp only:) (intro rm, simp)
  have 3: "res_map (\<lambda>(_, d). count_global (gather_from_sequence_parallel_region ops (map fst (map (\<lambda>r. (c r, da r)) [0..<R]))) d)
      (map (\<lambda>r. (c r, da r)) [0..<R]) = Inr (map (\<lambda>r. (n r, db r)) [0..<R])"
    using assms(9) by (intro rm) (simp add: comp_def)
  have 4: "map2 (moe_token_permute ops) xs (map rid [0..<R]) = map (\<lambda>r. (p r, m r)) [0..<R]"
    using assms(1,10) by (intro nth_equalityI) simp_all
  have 5: "map2 (\<lambda>(_, d) (_, mapping). d\<lparr>av_reversed_local_mapping := mapping\<rparr>) (map (\<lambda>r. (n r, db r)) [0..<R]) (map (\<lambda>r. (p r, m r)) [0..<R]) =
      map ?d [0..<R]"
    unfolding map2_ranks by simp
  have 6: "map2 (\<lambda>d (rows, _). if av_with_quant d then (fst (dynamic_quant ops rows), Some (snd (dynamic_quant ops rows)))
      else (rows, None)) (map ?d [0..<R]) (map (\<lambda>r. (p r, m r)) [0..<R]) = map (\<lambda>r. (p r, None)) [0..<R]"
    unfolding map2_ranks using assms(11) by (intro map_cong refl) simp
  have 7: "\<not> list_all av_with_quant (map ?d [0..<R])" using assms(6,11) by (auto simp: list_all_iff)
  have 8: "map2 (\<lambda>(r, s) d. dispatch_postprocess ops r s d) (zip (map received [0..<R]) (map (\<lambda>_. None) (map ?d [0..<R]))) (map ?d [0..<R]) =
      map (\<lambda>r. ((rows r, sc r), dc r)) [0..<R]"
    using assms(13) by (intro nth_equalityI) simp_all
  have 9: "map2 (\<lambda>((rows, scale), _) (n, _). \<lparr>dp_hidden_states = rows, dp_group_list = n, dp_dynamic_scale = scale\<rparr>)
      (map (\<lambda>r. ((rows r, sc r), dc r)) [0..<R]) (map (\<lambda>r. (n r, db r)) [0..<R]) =
      map (\<lambda>r. \<lparr>dp_hidden_states = rows r, dp_group_list = n r, dp_dynamic_scale = sc r\<rparr>) [0..<R]"
    unfolding map2_ranks by simp
  have outs: "map (\<lambda>d. the (av_output_splits d)) (map ?d [0..<R]) = map (\<lambda>r. the (av_output_splits (db r))) [0..<R]"
    "map (\<lambda>d. the (av_input_splits d)) (map ?d [0..<R]) = map (\<lambda>r. the (av_input_splits (db r))) [0..<R]"
    "map fst (map (\<lambda>r. (p r, None :: 's list option)) [0..<R]) = map p [0..<R]" for dummy :: 's
    by simp_all
  show ?thesis
    unfolding token_dispatch_all_def 1 2 res_bind_Inr 3 Let_def 4 5 6
    unfolding outs assms(12) if_not_P [OF 7] 8 9 by (simp add: comp_def)
qed

lemma combine_eval:
  assumes "all_to_all_rows ops (map (\<lambda>r. combine_preprocess ops (o' r) (d r)) [0..<R]) (map (\<lambda>r. the (av_input_splits (d r))) [0..<R])
      (map (\<lambda>r. the (av_output_splits (d r))) [0..<R]) = map sent [0..<R]"
  shows "fst (token_combine_all ops (map o' [0..<R]) (map d [0..<R])) = map (\<lambda>r. combine_postprocess ops (sent r) (d r)) [0..<R]"
  using assms by (simp add: token_combine_all_def Let_def map2_ranks comp_def)

text \<open>On one rank: the rows of \<open>xs\<close> in the order of the kernel, cut into the pieces for the ranks.\<close>

lemma pieces_ok:
  assumes "distinct src" "set src = {..<length fl}" "sorted (map (\<lambda>i. fl ! i) src)" "\<forall>x \<in> set fl. x < R * n" "0 < (n::nat)"
  shows "concat (map (\<lambda>g. filter (\<lambda>i. fl ! i div n = g) src) [0..<R]) = src"
    "length (filter (\<lambda>i. fl ! i div n = g) src) = length (filter (\<lambda>x. x div n = g) fl)"
    "map (\<lambda>i. fl ! i mod n) (filter (\<lambda>i. fl ! i div n = g) src) =
      concat (map (\<lambda>j. replicate (length (filter (\<lambda>x. x = g * n + j) fl)) j) [0..<n])"
proof -
  have "sorted (map (\<lambda>i. fl ! i div n) src)"
    using assms(3) by (simp add: sorted_iff_nth_mono div_le_mono)
  moreover have "\<forall>i \<in> set src. fl ! i div n < R" using assms(2,4,5) by (auto simp: less_mult_imp_div_less)
  ultimately show "concat (map (\<lambda>g. filter (\<lambda>i. fl ! i div n = g) src) [0..<R]) = src" by (rule split_by_sorted(2))
  show "length (filter (\<lambda>i. fl ! i div n = g) src) = length (filter (\<lambda>x. x div n = g) fl)"
    using assms(1,2) by (rule filter_positions)
  let ?mine = "filter (\<lambda>i. fl ! i div n = g) src"
  have srt: "sorted (map (\<lambda>i. fl ! i) ?mine)" using assms(3) by (rule sorted_filter)
  have "sorted (map (\<lambda>i. fl ! i mod n) ?mine)"
    unfolding sorted_iff_nth_mono length_map
  proof (intro allI impI)
    fix a b assume ab: "a \<le> b" "b < length ?mine"
    have g: "fl ! (?mine ! c) div n = g" if "c < length ?mine" for c using nth_mem [OF that] by simp
    have "fl ! (?mine ! a) \<le> fl ! (?mine ! b)" using sorted_nth_mono [OF srt ab(1)] ab by simp
    moreover have split: "fl ! (?mine ! c) = g * n + fl ! (?mine ! c) mod n" if "c < length ?mine" for c
      using div_mult_mod_eq [of "fl ! (?mine ! c)" n] g [OF that] by simp
    have "fl ! (?mine ! a) = g * n + fl ! (?mine ! a) mod n" "fl ! (?mine ! b) = g * n + fl ! (?mine ! b) mod n"
      using ab by (intro split, simp)+
    ultimately have "fl ! (?mine ! a) mod n \<le> fl ! (?mine ! b) mod n" by linarith
    then show "map (\<lambda>i. fl ! i mod n) ?mine ! a \<le> map (\<lambda>i. fl ! i mod n) ?mine ! b" using ab by simp
  qed
  moreover have "\<forall>i \<in> set ?mine. fl ! i mod n < n" using assms(5) by simp
  ultimately have "concat (map (\<lambda>j. filter (\<lambda>i. fl ! i mod n = j) ?mine) [0..<n]) = ?mine" by (rule split_by_sorted(2))
  then have "map (\<lambda>i. fl ! i mod n) ?mine = map (\<lambda>i. fl ! i mod n) (concat (map (\<lambda>j. filter (\<lambda>i. fl ! i mod n = j) ?mine) [0..<n]))"
    by (simp only:)
  also have "... = concat (map (\<lambda>j. map (\<lambda>i. fl ! i mod n) (filter (\<lambda>i. fl ! i mod n = j) ?mine)) [0..<n])"
    by (simp only: map_concat map_map comp_def)
  also have "... = concat (map (\<lambda>j. replicate (length (filter (\<lambda>x. x = g * n + j) fl)) j) [0..<n])"
  proof (intro arg_cong [of _ _ concat] map_cong refl)
    fix j assume "j \<in> set [0..<n]"
    then have "filter (\<lambda>i. fl ! i mod n = j) ?mine = filter (\<lambda>i. fl ! i = g * n + j) src"
      by (auto intro!: filter_cong simp: mult.commute)
    moreover have "length (filter (\<lambda>i. fl ! i = g * n + j) src) = length (filter (\<lambda>x. x = g * n + j) fl)"
      using assms(1,2) by (rule filter_positions)
    ultimately have "length (filter (\<lambda>i. fl ! i mod n = j) ?mine) = length (filter (\<lambda>x. x = g * n + j) fl)" by simp
    moreover have "map (\<lambda>i. fl ! i mod n) (filter (\<lambda>i. fl ! i mod n = j) ?mine) =
        replicate (length (filter (\<lambda>i. fl ! i mod n = j) ?mine)) j"
      by (intro replicate_eqI [symmetric, THEN sym]) auto
    ultimately show "map (\<lambda>i. fl ! i mod n) (filter (\<lambda>i. fl ! i mod n = j) ?mine) =
        replicate (length (filter (\<lambda>x. x = g * n + j) fl)) j" by simp
  qed
  finally show "map (\<lambda>i. fl ! i mod n) ?mine = concat (map (\<lambda>j. replicate (length (filter (\<lambda>x. x = g * n + j) fl)) j) [0..<n])" .
qed

lemma count_replicates: "j < n \<Longrightarrow> length (filter (\<lambda>x. x = j) (concat (map (\<lambda>i. replicate (c i) i) [0..<n]))) = c j"
proof (induction n)
  case (Suc n)
  have "filter (\<lambda>x. x = n) (concat (map (\<lambda>i. replicate (c i) i) [0..<n])) = []" by (auto simp: filter_empty_conv)
  then show ?case using Suc by (cases "j = n") simp_all
qed simp

text \<open>Where the row of slot \<open>(r, i)\<close>, the \<open>i\<close>-th pair of token and expert of rank \<open>r\<close>, goes.\<close>

definition pieces :: "nat \<Rightarrow> nat \<Rightarrow> nat list \<Rightarrow> nat list \<Rightarrow> nat \<Rightarrow> (nat \<times> nat) list list" where
  "pieces R n fl src r = map (\<lambda>g. map (Pair r) (filter (\<lambda>i. fl ! i div n = g) src)) [0..<R]"

definition arriving :: "nat \<Rightarrow> nat \<Rightarrow> (nat \<Rightarrow> nat list) \<Rightarrow> (nat \<Rightarrow> nat list) \<Rightarrow> nat \<Rightarrow> (nat \<times> nat) list" where
  "arriving R n fl src g = concat (map (\<lambda>r. pieces R n (fl r) (src r) r ! g) [0..<R])"

lemma arriving_eq: "g < R \<Longrightarrow> arriving R n fl src g = concat (map (\<lambda>r. map (Pair r) (filter (\<lambda>i. fl r ! i div n = g) (src r))) [0..<R])"
  by (simp add: arriving_def pieces_def cong: map_cong)

lemma arriving_experts:
  assumes "\<And>r. r < R \<Longrightarrow> distinct (src r) \<and> set (src r) = {..<length (fl r)} \<and> sorted (map (\<lambda>i. fl r ! i) (src r))"
    and "\<And>r. r < R \<Longrightarrow> \<forall>x \<in> set (fl r). x < R * n" "0 < n" "g < R"
  shows "map (\<lambda>(r, i). fl r ! i mod n) (arriving R n fl src g) =
      concat (map (\<lambda>s. concat (map (\<lambda>j. replicate (length (filter (\<lambda>x. x = g * n + j) (fl s))) j) [0..<n])) [0..<R])"
    "map (\<lambda>j. sum_list (map (\<lambda>s. length (filter (\<lambda>x. x = g * n + j) (fl s))) [0..<R])) [0..<n] =
      map (\<lambda>j. length (filter (\<lambda>x. x = j) (map (\<lambda>(r, i). fl r ! i mod n) (arriving R n fl src g)))) [0..<n]"
proof -
  have row: "map (\<lambda>i. fl s ! i mod n) (filter (\<lambda>i. fl s ! i div n = g) (src s)) =
      concat (map (\<lambda>j. replicate (length (filter (\<lambda>x. x = g * n + j) (fl s))) j) [0..<n])" if "s < R" for s
    using assms(1) [OF that] assms(2) [OF that] assms(3) by (intro pieces_ok(3)) blast+
  have "map (\<lambda>(r, i). fl r ! i mod n) (arriving R n fl src g) =
      concat (map (\<lambda>s. map (\<lambda>i. fl s ! i mod n) (filter (\<lambda>i. fl s ! i div n = g) (src s))) [0..<R])"
    unfolding arriving_eq [OF assms(4)] by (simp only: map_concat map_map comp_def prod.case)
  also have "... = concat (map (\<lambda>s. concat (map (\<lambda>j. replicate (length (filter (\<lambda>x. x = g * n + j) (fl s))) j) [0..<n])) [0..<R])"
    by (intro arg_cong [of _ _ concat] map_cong refl) (simp only: row atLeastLessThan_iff set_upt)
  finally show idx: "map (\<lambda>(r, i). fl r ! i mod n) (arriving R n fl src g) =
      concat (map (\<lambda>s. concat (map (\<lambda>j. replicate (length (filter (\<lambda>x. x = g * n + j) (fl s))) j) [0..<n])) [0..<R])" .
  show "map (\<lambda>j. sum_list (map (\<lambda>s. length (filter (\<lambda>x. x = g * n + j) (fl s))) [0..<R])) [0..<n] =
      map (\<lambda>j. length (filter (\<lambda>x. x = j) (map (\<lambda>(r, i). fl r ! i mod n) (arriving R n fl src g)))) [0..<n]"
    unfolding idx length_filter_concat [of _ "map _ [0..<R]"] map_map comp_def
    by (intro map_cong refl arg_cong [of _ _ sum_list]) (simp add: count_replicates)
qed

text \<open>The exchange of all ranks and what each rank does with the rows that arrive.\<close>

definition placed :: "nat \<Rightarrow> nat \<Rightarrow> nat \<Rightarrow> nat list list \<Rightarrow> nat list \<Rightarrow> nat list \<Rightarrow> bool" where
  "placed T k n rid src mp \<longleftrightarrow> distinct src \<and> set src = {..<T * k} \<and> length mp = T * k \<and> set mp = {..<T * k} \<and>
     (\<forall>i < T * k. src ! (mp ! i) = i) \<and> sorted (map (\<lambda>i. concat rid ! i) src) \<and> length src = T * k"

lemma permute_placed:
  assumes "moe_device smul ops" "length rid = length toks" "\<forall>row \<in> set rid. length row = k"
  shows "\<exists>src mp. moe_token_permute ops toks rid = (map (\<lambda>i. toks ! (i div k)) src, mp) \<and> placed (length toks) k n rid src mp"
  using moe_device.permute_positions [OF assms] unfolding placed_def by metis

lemma experts_on_arrival:
  assumes "moe_device smul ops" "g < R" "0 < n"
    and slots: "\<And>r. r < R \<Longrightarrow> distinct (src r) \<and> set (src r) = {..<length (fl r)} \<and> sorted (map (\<lambda>i. fl r ! i) (src r))"
    and "\<And>r. r < R \<Longrightarrow> \<forall>x \<in> set (fl r). x < R * n"
    and "av_num_local_experts d = n" "\<not> av_with_quant d"
    and "n > 1 \<longrightarrow> av_local_experts_indices d =
      concat (map (\<lambda>s. concat (map (\<lambda>j. replicate (length (filter (\<lambda>x. x = g * n + j) (fl s))) j) [0..<n])) [0..<R])"
  shows "\<exists>rows mapping. dispatch_postprocess ops (map h (arriving R n fl src g)) None d = ((rows, None), d\<lparr>av_reversed_global_mapping := mapping\<rparr>) \<and>
    combine_preprocess ops (experts_stage f (g * n)
        (map (\<lambda>j. sum_list (map (\<lambda>s. length (filter (\<lambda>x. x = g * n + j) (fl s))) [0..<R])) [0..<n]) rows)
      (d\<lparr>av_reversed_global_mapping := mapping\<rparr>) = map (\<lambda>(r, i). f (fl r ! i) (h (r, i))) (arriving R n fl src g)"
proof -
  let ?arr = "arriving R n fl src g" and ?idx = "map (\<lambda>(r, i). fl r ! i mod n) (arriving R n fl src g)"
  have idx: "?idx = concat (map (\<lambda>s. concat (map (\<lambda>j. replicate (length (filter (\<lambda>x. x = g * n + j) (fl s))) j) [0..<n])) [0..<R])"
    using slots assms(5) assms(3,2) by (rule arriving_experts(1))
  have sizes: "map (\<lambda>j. sum_list (map (\<lambda>s. length (filter (\<lambda>x. x = g * n + j) (fl s))) [0..<R])) [0..<n] =
      map (\<lambda>j. length (filter (\<lambda>x. x = j) ?idx)) [0..<n]"
    using slots assms(5) assms(3,2) by (rule arriving_experts(2))
  have i1: "\<forall>j \<in> set ?idx. j < n" using assms(3) by auto
  have i2: "n > 1 \<longrightarrow> av_local_experts_indices d = ?idx" using assms(8) idx by (simp only:)
  have i3: "length ?idx = length (map h ?arr)" by simp
  obtain rows mapping where r:
      "dispatch_postprocess ops (map h ?arr) None d = ((rows, None), d\<lparr>av_reversed_global_mapping := mapping\<rparr>)"
      "combine_preprocess ops (experts_stage f (g * n) (map (\<lambda>j. length (filter (\<lambda>x. x = j) ?idx)) [0..<n]) rows)
         (d\<lparr>av_reversed_global_mapping := mapping\<rparr>) = map2 (\<lambda>j x. f (g * n + j) x) ?idx (map h ?arr)"
    by (rule moe_device.rank_stage [OF assms(1) i3 i1 assms(3,6,7) i2, where scale = None and f = f and first = "g * n"])
  have w: "map2 (\<lambda>j x. f (g * n + j) x) ?idx (map h ?arr) = map (\<lambda>(r, i). f (fl r ! i) (h (r, i))) ?arr"
  proof -
    have "g * n + fl r ! i mod n = fl r ! i" if "(r, i) \<in> set ?arr" for r i
      using that div_mult_mod_eq [of "fl r ! i" n] unfolding arriving_eq [OF assms(2)] by auto
    then show ?thesis unfolding map2_map_map by (intro map_cong refl) auto
  qed
  show ?thesis unfolding sizes by (intro exI [of _ rows] exI [of _ mapping] conjI r(1)) (simp only: r(2) w)
qed

lemma weighted_rows:
  assumes "moe_device smul ops" "placed T k n rid src mp" "length ws = T" "\<forall>row \<in> set ws. length row = k"
  shows "moe_token_unpermute_probs ops (map h (map (Pair r) src)) mp ws =
    map (\<lambda>t. \<Sum>j<k. smul (ws ! t ! j) (h (r, t * k + j))) [0..<T]"
proof -
  have p: "length src = T * k" "length mp = T * k" "set mp = {..<T * k}" "\<forall>i < T * k. src ! (mp ! i) = i"
    using assms(2) by (simp_all add: placed_def)
  have at: "map h (map (Pair r) src) ! (mp ! (t * k + j)) = h (r, t * k + j)" if "t < T" "j < k" for t j
  proof -
    have "Suc t * k \<le> T * k" using that(1) by (intro mult_le_mono1) simp
    then have i: "t * k + j < T * k" using that(2) by simp
    then have "mp ! (t * k + j) \<in> set mp" using p(2) by (metis nth_mem)
    then show ?thesis using p i by simp
  qed
  have "moe_token_unpermute_probs ops (map h (map (Pair r) src)) mp ws =
      map (\<lambda>t. \<Sum>j<k. smul (ws ! t ! j) (map h (map (Pair r) src) ! (mp ! (t * k + j)))) [0..<length ws]"
    using p(1-3) assms(3,4) by (intro moe_device.unpermute_weighted [OF assms(1)]) simp_all
  also have "... = map (\<lambda>t. \<Sum>j<k. smul (ws ! t ! j) (h (r, t * k + j))) [0..<T]"
    unfolding assms(3) by (intro map_cong refl sum.cong) (simp only: at set_upt atLeastLessThan_iff lessThan_iff)
  finally show ?thesis .
qed

lemma combined_rows:
  assumes "moe_device smul ops" "placed (length xs) k n rid src mp" "length ws = length xs" "\<forall>row \<in> set ws. length row = k"
    "length rid = length xs" "\<forall>row \<in> set rid. length row = k"
    and "\<And>i. i < length xs * k \<Longrightarrow> h i = f (concat rid ! i) (xs ! (i div k))"
  shows "moe_token_unpermute_probs ops (map h src) mp ws = map (\<lambda>t. \<Sum>j<k. smul (ws ! t ! j) (f (rid ! t ! j) (xs ! t))) [0..<length xs]"
proof -
  have rows: "h (t * k + j) = f (rid ! t ! j) (xs ! t)" if "t < length xs" "j < k" for t j
  proof -
    have "Suc t * k \<le> length xs * k" using that(1) by (intro mult_le_mono1) simp
    then have "t * k + j < length xs * k" using that(2) by simp
    then show ?thesis using assms(5-7) that by (simp add: nth_concat_uniform)
  qed
  have "moe_token_unpermute_probs ops (map h src) mp ws = map (\<lambda>t. \<Sum>j<k. smul (ws ! t ! j) (h (t * k + j))) [0..<length xs]"
    using weighted_rows [OF assms(1-4), of "\<lambda>(r, i). h i" 0] by (simp add: comp_def)
  also have "... = map (\<lambda>t. \<Sum>j<k. smul (ws ! t ! j) (f (rid ! t ! j) (xs ! t))) [0..<length xs]"
    by (intro map_cong refl sum.cong) (simp only: rows set_upt atLeastLessThan_iff lessThan_iff)
  finally show ?thesis .
qed

text \<open>The physical experts of rank \<open>r\<close>'s tokens, and the sizes that the ranks agree on.\<close>

definition rank_ids :: "nat list option list \<Rightarrow> nat list list list \<Rightarrow> nat \<Rightarrow> nat list list" where
  "rank_ids tables ids r = map (map (phys (tables ! r))) (ids ! r)"

definition flat_ids :: "nat list option list \<Rightarrow> nat list list list \<Rightarrow> nat \<Rightarrow> nat list" where
  "flat_ids tables ids r = concat (rank_ids tables ids r)"

definition sent_sizes :: "nat \<Rightarrow> nat \<Rightarrow> (nat \<Rightarrow> nat list) \<Rightarrow> nat \<Rightarrow> nat list" where
  "sent_sizes R n fl r = map (\<lambda>g. length (filter (\<lambda>x. x div n = g) (fl r))) [0..<R]"

definition received_sizes :: "nat \<Rightarrow> nat \<Rightarrow> (nat \<Rightarrow> nat list) \<Rightarrow> nat \<Rightarrow> nat list" where
  "received_sizes R n fl g = map (\<lambda>s. length (filter (\<lambda>x. x div n = g) (fl s))) [0..<R]"

definition groups :: "nat \<Rightarrow> nat \<Rightarrow> (nat \<Rightarrow> nat list) \<Rightarrow> nat \<Rightarrow> nat list" where
  "groups R n fl g = map (\<lambda>j. sum_list (map (\<lambda>s. length (filter (\<lambda>x. x = g * n + j) (fl s))) [0..<R])) [0..<n]"

definition in_place :: "nat \<Rightarrow> (nat \<Rightarrow> nat list) \<Rightarrow> (nat \<Rightarrow> nat list) \<Rightarrow> bool" where
  "in_place R fl src \<longleftrightarrow> (\<forall>r < R. distinct (src r) \<and> set (src r) = {..<length (fl r)} \<and> sorted (map (\<lambda>i. fl r ! i) (src r)))"

lemma rank_ids_ok:
  assumes "ranks_ok R n k xs ws ids tables ds" "r < R"
  shows "length (rank_ids tables ids r) = length (xs ! r)" "\<forall>row \<in> set (rank_ids tables ids r). length row = k"
    "\<forall>row \<in> set (rank_ids tables ids r). \<forall>e \<in> set row. e < R * n" "length (flat_ids tables ids r) = length (xs ! r) * k"
    "\<forall>x \<in> set (flat_ids tables ids r). x < R * n" "map_ids (tables ! r) (ids ! r) = Inr (rank_ids tables ids r)"
proof -
  have ok: "length (ids ! r) = length (xs ! r)"
    "\<forall>row \<in> set (ids ! r). length row = k \<and> (\<forall>e \<in> set row. in_table (tables ! r) e \<and> phys (tables ! r) e < R * n)"
    using assms by (simp_all add: ranks_ok_def)
  show ids: "length (rank_ids tables ids r) = length (xs ! r)" "\<forall>row \<in> set (rank_ids tables ids r). length row = k"
    "\<forall>row \<in> set (rank_ids tables ids r). \<forall>e \<in> set row. e < R * n"
    using ok by (auto simp: rank_ids_def)
  then show "length (flat_ids tables ids r) = length (xs ! r) * k" "\<forall>x \<in> set (flat_ids tables ids r). x < R * n"
    using length_concat_uniform [of "rank_ids tables ids r" k] by (auto simp: flat_ids_def)
  show "map_ids (tables ! r) (ids ! r) = Inr (rank_ids tables ids r)"
    unfolding rank_ids_def using ok(2) by (intro map_ids_ok) blast
qed

lemma ranks_placed:
  assumes "moe_device smul ops" "ranks_ok R n k xs ws ids tables ds"
  obtains src mp where "\<And>r. r < R \<Longrightarrow> moe_token_permute ops (xs ! r) (rank_ids tables ids r) = (map (\<lambda>i. xs ! r ! (i div k)) (src r), mp r)"
    "\<And>r. r < R \<Longrightarrow> placed (length (xs ! r)) k n (rank_ids tables ids r) (src r) (mp r)" "in_place R (flat_ids tables ids) src"
proof -
  have "\<forall>r. \<exists>s m. r < R \<longrightarrow> moe_token_permute ops (xs ! r) (rank_ids tables ids r) = (map (\<lambda>i. xs ! r ! (i div k)) s, m) \<and>
      placed (length (xs ! r)) k n (rank_ids tables ids r) s m"
    using permute_placed [OF assms(1)] rank_ids_ok(1,2) [OF assms(2)] by metis
  then obtain src mp where p: "\<And>r. r < R \<Longrightarrow> moe_token_permute ops (xs ! r) (rank_ids tables ids r) = (map (\<lambda>i. xs ! r ! (i div k)) (src r), mp r) \<and>
      placed (length (xs ! r)) k n (rank_ids tables ids r) (src r) (mp r)" by metis
  moreover have "in_place R (flat_ids tables ids) src"
    using p rank_ids_ok(4) [OF assms(2)] by (simp add: in_place_def placed_def) (simp add: flat_ids_def)
  ultimately show ?thesis using that by blast
qed

lemma ranks_counted:
  assumes "moe_device smul ops" "ranks_ok R n k xs ws ids tables ds"
  obtains da db where
    "\<And>r. r < R \<Longrightarrow> count_local (rank_ids tables ids r) ((ds ! r)\<lparr>av_topk_weights := ws ! r\<rparr>) =
      Inr (map (expert_count (rank_ids tables ids r)) [0..<R * n], da r)"
    "\<And>r. r < R \<Longrightarrow> count_global (gather_from_sequence_parallel_region ops
      (map (\<lambda>s. map (expert_count (rank_ids tables ids s)) [0..<R * n]) [0..<R])) (da r) = Inr (groups R n (flat_ids tables ids) r, db r)"
    "\<And>r. r < R \<Longrightarrow> av_num_local_experts (db r) = n \<and> \<not> av_with_quant (db r) \<and> av_topk_weights (db r) = ws ! r \<and>
      av_input_splits (db r) = Some (sent_sizes R n (flat_ids tables ids) r) \<and>
      av_output_splits (db r) = Some (received_sizes R n (flat_ids tables ids) r) \<and>
      (n > 1 \<longrightarrow> av_local_experts_indices (db r) = concat (map (\<lambda>s. concat (map (\<lambda>j.
        replicate (length (filter (\<lambda>x. x = r * n + j) (flat_ids tables ids s))) j) [0..<n])) [0..<R]))"
proof -
  let ?fl = "flat_ids tables ids" and ?c = "\<lambda>r. expert_count (rank_ids tables ids r)"
  have n: "0 < n" using assms(2) by (simp add: ranks_ok_def)
  have c_fl: "?c s e = length (filter (\<lambda>x. x = e) (?fl s))" for s e by (simp add: expert_count_def flat_ids_def)
  have sums: "sum_list (map (\<lambda>j. ?c s (g * n + j)) [0..<n]) = length (filter (\<lambda>x. x div n = g) (?fl s))" for s g
    unfolding c_fl by (rule class_sum [OF n])
  define da where "da = (\<lambda>r. (ds ! r)\<lparr>av_topk_weights := ws ! r, av_num_out_tokens := length (?fl r),
    av_input_splits := Some (sent_sizes R n ?fl r)\<rparr>)"
  have counted: "count_local (rank_ids tables ids r) ((ds ! r)\<lparr>av_topk_weights := ws ! r\<rparr>) = Inr (map (?c r) [0..<R * n], da r)" if "r < R" for r
    using count_local_ok [of "rank_ids tables ids r" R n "(ds ! r)\<lparr>av_topk_weights := ws ! r\<rparr>"] rank_ids_ok(3) [OF assms(2) that] assms(2) that
    by (simp add: da_def ranks_ok_def flat_ids_def sent_sizes_def)
  define G where "G = (\<lambda>r d'. count_global (concat (map (\<lambda>s. map (?c s) [0..<R * n]) [0..<R])) (da r) = Inr (groups R n ?fl r, d') \<and>
      (\<exists>m ix. d' = (da r)\<lparr>av_num_global_tokens_per_local_expert := Some m, av_output_splits := Some (received_sizes R n ?fl r),
          av_local_experts_indices := ix\<rparr> \<and>
        (n > 1 \<longrightarrow> ix = concat (map (\<lambda>s. concat (map (\<lambda>j. replicate (?c s (r * n + j)) j) [0..<n])) [0..<R]))))"
  have "\<exists>d'. G r d'" if "r < R" for r
  proof -
    have "av_num_experts (da r) = R * n" "av_ep_size (da r) = R" "av_num_local_experts (da r) = n"
      "av_local_expert_indices (da r) = map (\<lambda>i. r * n + i) [0..<n]"
      "n > 1 \<longrightarrow> av_expert_ids_per_ep_rank (da r) = map (\<lambda>i. i mod n) [0..<R * n]"
      using assms(2) that by (simp_all add: da_def ranks_ok_def)
    from count_global_ok [OF this that n, of ?c] show ?thesis
      unfolding G_def received_sizes_def groups_def c_fl class_sum [OF n] .
  qed
  then obtain db where G: "\<And>r. r < R \<Longrightarrow> G r (db r)" using someI_ex [of "G _"] by metis
  show ?thesis
  proof (rule that [OF counted])
    show "count_global (gather_from_sequence_parallel_region ops (map (\<lambda>s. map (?c s) [0..<R * n]) [0..<R])) (da r) =
        Inr (groups R n ?fl r, db r)" if "r < R" for r
      unfolding gather_ok [OF assms(1)] using G [OF that] by (simp only: G_def)
    show "av_num_local_experts (db r) = n \<and> \<not> av_with_quant (db r) \<and> av_topk_weights (db r) = ws ! r \<and>
      av_input_splits (db r) = Some (sent_sizes R n ?fl r) \<and> av_output_splits (db r) = Some (received_sizes R n ?fl r) \<and>
      (n > 1 \<longrightarrow> av_local_experts_indices (db r) = concat (map (\<lambda>s. concat (map (\<lambda>j.
        replicate (length (filter (\<lambda>x. x = r * n + j) (?fl s))) j) [0..<n])) [0..<R]))" if "r < R" for r
      using G [OF that] assms(2) that unfolding G_def c_fl by (auto simp: da_def ranks_ok_def)
  qed
qed

text \<open>What rank \<open>r\<close> sends arrives, and comes back to where it was.\<close>

lemma slots_exchanged:
  assumes "moe_device smul ops" "in_place R fl src" "\<And>r. r < R \<Longrightarrow> \<forall>x \<in> set (fl r). x < R * n" "0 < n"
  shows "all_to_all_rows ops (map (\<lambda>r. map h (map (Pair r) (src r))) [0..<R]) (map (received_sizes R n fl) [0..<R])
      (map (sent_sizes R n fl) [0..<R]) = map (\<lambda>g. map h (arriving R n fl src g)) [0..<R]"
    "all_to_all_rows ops (map (\<lambda>g. map h (arriving R n fl src g)) [0..<R]) (map (sent_sizes R n fl) [0..<R])
      (map (received_sizes R n fl) [0..<R]) = map (\<lambda>r. map h (map (Pair r) (src r))) [0..<R]"
proof -
  let ?pieces = "\<lambda>r. pieces R n (fl r) (src r) r"
  have slots: "distinct (src r)" "set (src r) = {..<length (fl r)}" "sorted (map (\<lambda>i. fl r ! i) (src r))" if "r < R" for r
    using assms(2) that by (simp_all add: in_place_def)
  have piece: "?pieces r ! g = map (Pair r) (filter (\<lambda>i. fl r ! i div n = g) (src r))" if "g < R" for r g
    using that by (simp add: pieces_def)
  have size: "length (filter (\<lambda>i. fl r ! i div n = g) (src r)) = length (filter (\<lambda>x. x div n = g) (fl r))" if "r < R" for r g
    using slots [OF that] assms(3) [OF that] assms(4) by (rule pieces_ok(2))
  have cat: "concat (?pieces r) = map (Pair r) (src r)" if "r < R" for r
  proof -
    have "concat (map (\<lambda>g. filter (\<lambda>i. fl r ! i div n = g) (src r)) [0..<R]) = src r"
      using slots [OF that] assms(3) [OF that] assms(4) by (rule pieces_ok(1))
    moreover have "concat (?pieces r) = map (Pair r) (concat (map (\<lambda>g. filter (\<lambda>i. fl r ! i div n = g) (src r)) [0..<R]))"
      by (simp add: pieces_def map_concat comp_def)
    ultimately show ?thesis by (simp only:)
  qed
  have ins: "map (sent_sizes R n fl) [0..<R] ! r = map length (?pieces r)" if "r < R" for r
    using that size [OF that] by (simp add: pieces_def sent_sizes_def)
  have outs: "map (received_sizes R n fl) [0..<R] ! g = map (\<lambda>r. length (?pieces r ! g)) [0..<R]" if "g < R" for g
    using that size by (simp add: piece received_sizes_def cong: map_cong)
  have lens: "length (?pieces r) = R" if "r < R" for r by (simp add: pieces_def)
  have arr: "concat (map (\<lambda>r. ?pieces r ! g) [0..<R]) = arriving R n fl src g" for g by (simp add: arriving_def)
  have catmap: "map (\<lambda>r. map h (concat (?pieces r))) [0..<R] = map (\<lambda>r. map h (map (Pair r) (src r))) [0..<R]"
    by (intro map_cong refl arg_cong [of _ _ "map h"] cat) simp
  have lI: "R = length (map (sent_sizes R n fl) [0..<R])" and lO: "R = length (map (received_sizes R n fl) [0..<R])" by simp_all
  note both = moe_device.exchange_back [OF assms(1) lens lI lO ins outs, where h = h, unfolded arr catmap]
  show "all_to_all_rows ops (map (\<lambda>r. map h (map (Pair r) (src r))) [0..<R]) (map (received_sizes R n fl) [0..<R])
      (map (sent_sizes R n fl) [0..<R]) = map (\<lambda>g. map h (arriving R n fl src g)) [0..<R]" by (rule both(1))
  show "all_to_all_rows ops (map (\<lambda>g. map h (arriving R n fl src g)) [0..<R]) (map (sent_sizes R n fl) [0..<R])
      (map (received_sizes R n fl) [0..<R]) = map (\<lambda>r. map h (map (Pair r) (src r))) [0..<R]" by (rule both(2))
qed

text \<open>The experts of all ranks, and what a mixture of experts is.\<close>

definition experts_all :: "(nat \<Rightarrow> 'h \<Rightarrow> 'h) \<Rightarrow> nat \<Rightarrow> ('h, 's) dispatched list \<Rightarrow> 'h list list" where
  "experts_all f n out = map (\<lambda>g. experts_stage f (g * n) (dp_group_list (out ! g)) (dp_hidden_states (out ! g))) [0..<length out]"

definition mixture :: "('w \<Rightarrow> 'h \<Rightarrow> 'h::comm_monoid_add) \<Rightarrow> (nat \<Rightarrow> 'h \<Rightarrow> 'h) \<Rightarrow> nat \<Rightarrow> 'h list \<Rightarrow> 'w list list \<Rightarrow> nat list list \<Rightarrow> 'h list" where
  "mixture smul f k xs ws es = map (\<lambda>t. \<Sum>j<k. smul (ws ! t ! j) (f (es ! t ! j) (xs ! t))) [0..<length xs]"

lemma arrivals_computed:
  assumes "moe_device smul ops" "in_place R fl src" "\<And>r. r < R \<Longrightarrow> \<forall>x \<in> set (fl r). x < R * n" "0 < n"
    and "\<And>g. g < R \<Longrightarrow> av_num_local_experts (d g) = n \<and> \<not> av_with_quant (d g) \<and>
      (n > 1 \<longrightarrow> av_local_experts_indices (d g) =
        concat (map (\<lambda>s. concat (map (\<lambda>j. replicate (length (filter (\<lambda>x. x = g * n + j) (fl s))) j) [0..<n])) [0..<R]))"
  obtains rows mapping where
    "\<And>g. g < R \<Longrightarrow> dispatch_postprocess ops (map h (arriving R n fl src g)) None (d g) =
       ((rows g, None), (d g)\<lparr>av_reversed_global_mapping := mapping g\<rparr>)"
    "\<And>g. g < R \<Longrightarrow> combine_preprocess ops (experts_stage f (g * n) (groups R n fl g) (rows g)) ((d g)\<lparr>av_reversed_global_mapping := mapping g\<rparr>) =
       map (\<lambda>(r, i). f (fl r ! i) (h (r, i))) (arriving R n fl src g)"
proof -
  define K where "K = (\<lambda>g rm. dispatch_postprocess ops (map h (arriving R n fl src g)) None (d g) =
      ((fst rm, None), (d g)\<lparr>av_reversed_global_mapping := snd rm\<rparr>) \<and>
      combine_preprocess ops (experts_stage f (g * n) (groups R n fl g) (fst rm)) ((d g)\<lparr>av_reversed_global_mapping := snd rm\<rparr>) =
        map (\<lambda>(r, i). f (fl r ! i) (h (r, i))) (arriving R n fl src g))"
  have "\<exists>rm. K g rm" if "g < R" for g
  proof -
    have "\<exists>rows mapping. dispatch_postprocess ops (map h (arriving R n fl src g)) None (d g) =
        ((rows, None), (d g)\<lparr>av_reversed_global_mapping := mapping\<rparr>) \<and>
      combine_preprocess ops (experts_stage f (g * n)
          (map (\<lambda>j. sum_list (map (\<lambda>s. length (filter (\<lambda>x. x = g * n + j) (fl s))) [0..<R])) [0..<n]) rows)
        ((d g)\<lparr>av_reversed_global_mapping := mapping\<rparr>) = map (\<lambda>(r, i). f (fl r ! i) (h (r, i))) (arriving R n fl src g)"
      using assms(2) assms(5) [OF that] by (intro experts_on_arrival [OF assms(1) that assms(4) _ assms(3)]) (simp_all add: in_place_def)
    then show ?thesis by (simp add: K_def groups_def)
  qed
  then obtain rm where "\<And>g. g < R \<Longrightarrow> K g (rm g)" using someI_ex [of "K _"] by metis
  then show ?thesis by (intro that [of "\<lambda>g. fst (rm g)" "\<lambda>g. snd (rm g)"]) (simp_all add: K_def)
qed

lemma dispatch_combine_ok:
  fixes ops :: "('h::comm_monoid_add, 'w, 's) npu_ops"
  assumes "moe_device smul ops" "ranks_ok R n k xs ws ids tables ds"
  shows "\<exists>out ds'. token_dispatch_all ops xs ws ids tables ds = Inr (out, ds') \<and>
    fst (token_combine_all ops (experts_all f n out) ds') =
    map (\<lambda>r. mixture smul f k (xs ! r) (ws ! r) (rank_ids tables ids r)) [0..<R]"
proof -
  let ?fl = "flat_ids tables ids"
  have shape: "0 < R" "0 < n" "length xs = R" "length ws = R" "length ids = R" "length tables = R" "length ds = R"
    using assms(2) by (simp_all add: ranks_ok_def)
  have w: "length (ws ! r) = length (xs ! r)" "\<forall>row \<in> set (ws ! r). length row = k" if "r < R" for r
    using assms(2) that by (simp_all add: ranks_ok_def)
  note valid = rank_ids_ok(5) [OF assms(2)]
  obtain src mp where perm: "\<And>r. r < R \<Longrightarrow> moe_token_permute ops (xs ! r) (rank_ids tables ids r) = (map (\<lambda>i. xs ! r ! (i div k)) (src r), mp r)"
      and pl: "\<And>r. r < R \<Longrightarrow> placed (length (xs ! r)) k n (rank_ids tables ids r) (src r) (mp r)" and inp: "in_place R ?fl src"
    by (rule ranks_placed [OF assms]) (rule that, (simp only: | blast)+)
  obtain da db where cnt: "\<And>r. r < R \<Longrightarrow> count_local (rank_ids tables ids r) ((ds ! r)\<lparr>av_topk_weights := ws ! r\<rparr>) =
        Inr (map (expert_count (rank_ids tables ids r)) [0..<R * n], da r)"
      "\<And>r. r < R \<Longrightarrow> count_global (gather_from_sequence_parallel_region ops
        (map (\<lambda>s. map (expert_count (rank_ids tables ids s)) [0..<R * n]) [0..<R])) (da r) = Inr (groups R n ?fl r, db r)"
    and db: "\<And>r. r < R \<Longrightarrow> av_num_local_experts (db r) = n \<and> \<not> av_with_quant (db r) \<and> av_topk_weights (db r) = ws ! r \<and>
        av_input_splits (db r) = Some (sent_sizes R n ?fl r) \<and> av_output_splits (db r) = Some (received_sizes R n ?fl r) \<and>
        (n > 1 \<longrightarrow> av_local_experts_indices (db r) = concat (map (\<lambda>s. concat (map (\<lambda>j.
          replicate (length (filter (\<lambda>x. x = r * n + j) (?fl s))) j) [0..<n])) [0..<R]))"
    by (rule ranks_counted [OF assms]) (rule that, (simp only: | blast)+)
  define h where "h = (\<lambda>(r, i). xs ! r ! (i div k))"
  define h' where "h' = (\<lambda>(r, i). f (?fl r ! i) (h (r, i)))"
  let ?d = "\<lambda>r. (db r)\<lparr>av_reversed_local_mapping := mp r\<rparr>"
  have pre: "av_num_local_experts (?d g) = n \<and> \<not> av_with_quant (?d g) \<and> (n > 1 \<longrightarrow> av_local_experts_indices (?d g) =
      concat (map (\<lambda>s. concat (map (\<lambda>j. replicate (length (filter (\<lambda>x. x = g * n + j) (?fl s))) j) [0..<n])) [0..<R]))"
    if "g < R" for g using db [OF that] by simp
  obtain rows mapping where K:
      "\<And>g. g < R \<Longrightarrow> dispatch_postprocess ops (map h (arriving R n ?fl src g)) None (?d g) = ((rows g, None), (?d g)\<lparr>av_reversed_global_mapping := mapping g\<rparr>)"
      "\<And>g. g < R \<Longrightarrow> combine_preprocess ops (experts_stage f (g * n) (groups R n ?fl g) (rows g)) ((?d g)\<lparr>av_reversed_global_mapping := mapping g\<rparr>) =
        map (\<lambda>(r, i). f (?fl r ! i) (h (r, i))) (arriving R n ?fl src g)"
    by (rule arrivals_computed [OF assms(1) inp valid shape(2) pre, where h = h and f = f], assumption, assumption) (rule that, (simp only: | blast)+)
  note K = K [folded h'_def]
  note there = slots_exchanged(1) [OF assms(1) inp valid shape(2), of h] and home = slots_exchanged(2) [OF assms(1) inp valid shape(2), of h']
  have splits: "map (\<lambda>r. the (av_output_splits (db r))) [0..<R] = map (received_sizes R n ?fl) [0..<R]"
    "map (\<lambda>r. the (av_input_splits (db r))) [0..<R] = map (sent_sizes R n ?fl) [0..<R]"
    by (intro map_cong refl, simp add: db)+
  let ?d3 = "\<lambda>g. (?d g)\<lparr>av_reversed_global_mapping := mapping g\<rparr>"
  let ?out = "map (\<lambda>g. \<lparr>dp_hidden_states = rows g, dp_group_list = groups R n ?fl g, dp_dynamic_scale = None\<rparr>) [0..<R]"
  have D1: "token_dispatch_all ops xs ws ids tables ds = Inr (?out, map ?d3 [0..<R])"
  proof (rule dispatch_eval [where rid = "rank_ids tables ids" and da = da and db = db and m = mp
        and c = "\<lambda>r. map (expert_count (rank_ids tables ids r)) [0..<R * n]"
        and p = "\<lambda>r. map h (map (Pair r) (src r))" and received = "\<lambda>g. map h (arriving R n ?fl src g)"])
    show "all_to_all_rows ops (map (\<lambda>r. map h (map (Pair r) (src r))) [0..<R]) (map (\<lambda>r. the (av_output_splits (db r))) [0..<R])
        (map (\<lambda>r. the (av_input_splits (db r))) [0..<R]) = map (\<lambda>g. map h (arriving R n ?fl src g)) [0..<R]"
      unfolding splits by (rule there)
    show "moe_token_permute ops (xs ! r) (rank_ids tables ids r) = (map h (map (Pair r) (src r)), mp r)" if "r < R" for r
      using perm [OF that] by (simp add: h_def comp_def)
  qed (use shape cnt db K rank_ids_ok(6) [OF assms(2)] in simp_all)
  have D2: "fst (token_combine_all ops (experts_all f n ?out) (map ?d3 [0..<R])) =
      map (\<lambda>r. combine_postprocess ops (map h' (map (Pair r) (src r))) (?d3 r)) [0..<R]"
  proof -
    have e: "experts_all f n ?out = map (\<lambda>g. experts_stage f (g * n) (groups R n ?fl g) (rows g)) [0..<R]"
      unfolding experts_all_def by (intro nth_equalityI) simp_all
    have A: "map (\<lambda>g. combine_preprocess ops (experts_stage f (g * n) (groups R n ?fl g) (rows g)) (?d3 g)) [0..<R] =
        map (\<lambda>g. map h' (arriving R n ?fl src g)) [0..<R]" using K(2) by (intro map_cong refl) simp
    have B: "map (\<lambda>r. the (av_output_splits (?d3 r))) [0..<R] = map (received_sizes R n ?fl) [0..<R]"
      "map (\<lambda>r. the (av_input_splits (?d3 r))) [0..<R] = map (sent_sizes R n ?fl) [0..<R]" using splits by simp_all
    show ?thesis unfolding e by (rule combine_eval) (subst A, subst B(1), subst B(2), rule home)
  qed
  have D3: "combine_postprocess ops (map h' (map (Pair r) (src r))) (?d3 r) =
      mixture smul f k (xs ! r) (ws ! r) (rank_ids tables ids r)" if "r < R" for r
    using combined_rows [OF assms(1) pl [OF that] w [OF that] rank_ids_ok(1,2) [OF assms(2) that], of "\<lambda>i. h' (r, i)" f] db [OF that]
    by (simp add: combine_postprocess_def h'_def h_def flat_ids_def comp_def mixture_def)
  have "map (\<lambda>r. combine_postprocess ops (map h' (map (Pair r) (src r))) (?d3 r)) [0..<R] =
      map (\<lambda>r. mixture smul f k (xs ! r) (ws ! r) (rank_ids tables ids r)) [0..<R]"
    by (intro map_cong refl D3) simp
  then show ?thesis by (intro exI [of _ ?out] exI [of _ "map ?d3 [0..<R]"] conjI D1) (rule trans [OF D2])
qed

end
