(* ===== verification/Expert_Placement.thy ===== *)
theory Expert_Placement
  imports Prelude
begin

section \<open>Placement of experts\<close>

text \<open>
  \<^verbatim>\<open>ExpertLoadBalancer\<close> (\<^verbatim>\<open>vllm_ascend/ops/expert_load_balancer.py\<close>): a file says which logical expert each slot of each
  device of each layer holds; from it come the map of a device's experts to its slots and, per rank, the map of logical
  experts to physical ones, the position of the slot among all slots of the layer. An expert that several devices hold
  is taken on the own rank, otherwise at random: \<open>pick\<close> stands for \<^verbatim>\<open>random.choice\<close>.
\<close>

record expert_layer =
  device_count :: nat
  device_list :: "nat list list"

record expert_file =
  moe_layer_count :: nat
  layer_list :: "expert_layer list"

record load_balancer =
  global_expert_num :: nat
  expert_map_tensor :: "nat list list list"
  layers_num :: nat
  ranks_num :: nat

text \<open>\<^verbatim>\<open>torch.tensor\<close> of a nested list needs rows of one length.\<close>

definition rectangular :: "nat list list list \<Rightarrow> bool" where
  "rectangular t \<longleftrightarrow> (\<forall>l \<in> set t. length l = length (hd t) \<and> (\<forall>row \<in> set l. length row = length (hd (hd t))))"

definition load_balancer_init :: "expert_file \<Rightarrow> nat \<Rightarrow> load_balancer result" where
  "load_balancer_init data n =
     (if layer_list data = [] then Inl IndexError
      else let t = map device_list (layer_list data) in
        if \<not> rectangular t then Inl ValueError
        else Inr \<lparr>global_expert_num = n, expert_map_tensor = t, layers_num = moe_layer_count data,
               ranks_num = device_count (hd (layer_list data))\<rparr>)"

text \<open>A dictionary per row, from each value to its index in the concatenation of the rows.\<close>

definition index_dict :: "nat \<Rightarrow> nat list \<Rightarrow> (nat \<times> nat) list" where
  "index_dict current_idx row = foldl (\<lambda>d i. dict_set (row ! i) (current_idx + i) d) [] [0..<length row]"

fun index_dicts_from :: "nat \<Rightarrow> nat list list \<Rightarrow> (nat \<times> nat) list list" where
  "index_dicts_from current_idx [] = []"
| "index_dicts_from current_idx (row # rows) = index_dict current_idx row # index_dicts_from (current_idx + length row) rows"

definition generate_index_dicts :: "nat list list \<Rightarrow> (nat \<times> nat) list list" where
  "generate_index_dicts = index_dicts_from 0"

text \<open>An item of a tensor row; assigning it.\<close>

definition row_item :: "'a list \<Rightarrow> nat \<Rightarrow> 'a result" where
  "row_item xs i = (if i < length xs then Inr (xs ! i) else Inl IndexError)"

definition row_set :: "int list \<Rightarrow> nat \<Rightarrow> int \<Rightarrow> int list result" where
  "row_set xs i v = (if i < length xs then Inr (xs[i := v]) else Inl IndexError)"

definition placement_row :: "nat \<Rightarrow> nat list \<Rightarrow> int list result" where
  "placement_row n e_ids = res_foldl (\<lambda>row i. row_set row (e_ids ! i) (int i)) (replicate n (-1)) [0..<length e_ids]"

definition generate_expert_placement_map :: "load_balancer \<Rightarrow> int list list list result" where
  "generate_expert_placement_map b =
     res_map (\<lambda>layer_id. res_map (\<lambda>gpu_id.
       res_bind (row_item (expert_map_tensor b) layer_id) (\<lambda>l. res_bind (row_item l gpu_id) (placement_row (global_expert_num b))))
       [0..<ranks_num b]) [0..<layers_num b]"

definition expert_positions :: "nat list \<Rightarrow> (nat \<times> nat list) list" where
  "expert_positions concatenated =
     foldl (\<lambda>d idx. dict_set (concatenated ! idx) (case map_of d (concatenated ! idx) of None \<Rightarrow> [idx] | Some l \<Rightarrow> l @ [idx]) d)
       [] [0..<length concatenated]"

definition log2phy_row :: "nat \<Rightarrow> (nat \<Rightarrow> nat list \<Rightarrow> nat) \<Rightarrow> (nat \<times> nat list) list \<Rightarrow> (nat \<times> nat) list \<Rightarrow> int list result" where
  "log2phy_row n pick result_dict own =
     res_foldl (\<lambda>row (key, indices). row_set row key (int (case map_of own key of Some p \<Rightarrow> p | None \<Rightarrow> pick key indices)))
       (replicate n (-1)) result_dict"

definition generate_log2phy_expert_map :: "(nat \<Rightarrow> nat \<Rightarrow> nat list \<Rightarrow> nat) \<Rightarrow> load_balancer \<Rightarrow> nat \<Rightarrow> int list list result" where
  "generate_log2phy_expert_map pick b layer_id =
     res_bind (row_item (expert_map_tensor b) layer_id) (\<lambda>l.
       res_map (\<lambda>rank. res_bind (row_item (generate_index_dicts l) rank) (\<lambda>own.
           log2phy_row (global_expert_num b) (pick rank) (expert_positions (concat l)) own)) [0..<ranks_num b])"

definition get_rank_placement_map :: "load_balancer \<Rightarrow> nat \<Rightarrow> nat \<Rightarrow> (nat \<times> int list) result" where
  "get_rank_placement_map b layer_id rank_id =
     res_bind (generate_expert_placement_map b) (\<lambda>m. res_bind (row_item m layer_id) (\<lambda>l. res_bind (row_item l rank_id) (\<lambda>row.
       Inr (length (filter (\<lambda>e. e \<noteq> -1) row), row))))"

definition get_rank_log2phy_map :: "(nat \<Rightarrow> nat \<Rightarrow> nat list \<Rightarrow> nat) \<Rightarrow> load_balancer \<Rightarrow> nat \<Rightarrow> nat \<Rightarrow> int list result" where
  "get_rank_log2phy_map pick b layer_id rank_id =
     res_bind (generate_log2phy_expert_map pick b layer_id) (\<lambda>m. row_item m rank_id)"

definition get_global_redundant_expert_num :: "load_balancer \<Rightarrow> int result" where
  "get_global_redundant_expert_num b =
     res_bind (row_item (expert_map_tensor b) 0) (\<lambda>l. res_bind (row_item l 0) (\<lambda>row.
       Inr (int (length row * ranks_num b) - int (global_expert_num b))))"

subsection \<open>Dictionaries of positions\<close>

lemma dict_set_lookup: "map_of (dict_set k v d) = (map_of d)(k \<mapsto> v)"
  by (rule update_conv')

lemma index_dict_lookup:
  assumes "map_of (index_dict c row) e = Some p"
  shows "c \<le> p \<and> p - c < length row \<and> row ! (p - c) = e"
proof -
  have "map_of (foldl (\<lambda>d i. dict_set (row ! i) (c + i) d) [] [0..<n]) e = Some p \<Longrightarrow> c \<le> p \<and> p - c < n \<and> row ! (p - c) = e" for n
    by (induction n arbitrary: p) (auto simp: dict_set_lookup split: if_splits intro: less_SucI)
  then show ?thesis using assms unfolding index_dict_def by blast
qed

lemma index_dict_known: "e \<in> set row \<Longrightarrow> map_of (index_dict c row) e \<noteq> None"
proof -
  have "i < n \<Longrightarrow> map_of (foldl (\<lambda>d i. dict_set (row ! i) (c + i) d) [] [0..<n]) (row ! i) \<noteq> None" for i n
    by (induction n) (auto simp: dict_set_lookup less_Suc_eq)
  then show "e \<in> set row \<Longrightarrow> map_of (index_dict c row) e \<noteq> None" unfolding index_dict_def in_set_conv_nth by blast
qed

lemma index_dicts_nth:
  "r < length rows \<Longrightarrow> index_dicts_from c rows ! r = index_dict (c + length (concat (take r rows))) (rows ! r)"
proof (induction rows arbitrary: c r)
  case (Cons row rows)
  then show ?case by (cases r) (simp_all add: add.assoc)
qed simp

lemma length_index_dicts [simp]: "length (index_dicts_from c rows) = length rows"
  by (induction rows arbitrary: c) simp_all

lemma expert_positions_lookup:
  "map_of (expert_positions xs) e = (if e \<in> set xs then Some (filter (\<lambda>i. xs ! i = e) [0..<length xs]) else None)"
proof -
  let ?step = "\<lambda>d idx. dict_set (xs ! idx) (case map_of d (xs ! idx) of None \<Rightarrow> [idx] | Some l \<Rightarrow> l @ [idx]) d"
  have "map_of (foldl ?step [] [0..<n]) e = (if \<exists>i < n. xs ! i = e then Some (filter (\<lambda>i. xs ! i = e) [0..<n]) else None)" for n e
  proof (induction n arbitrary: e)
    case (Suc n)
    have "filter (\<lambda>i. xs ! i = xs ! n) [0..<n] = []" if "\<not> (\<exists>i < n. xs ! i = xs ! n)" using that by (auto simp: filter_empty_conv)
    then show ?case using Suc [of e] Suc [of "xs ! n"] by (auto simp: dict_set_lookup less_Suc_eq)
  qed simp
  then show ?thesis unfolding expert_positions_def in_set_conv_nth by simp
qed

lemma distinct_expert_positions: "distinct (map fst (expert_positions xs))"
proof -
  have "distinct (map fst (foldl (\<lambda>d i. dict_set (xs ! i) (g d i) d) [] ns))" for g :: "(nat \<times> nat list) list \<Rightarrow> nat \<Rightarrow> nat list" and ns
    by (induction ns rule: rev_induct) (simp_all add: distinct_update)
  then show ?thesis unfolding expert_positions_def .
qed

end
