(* ===== verification/Moe_Props.thy ===== *)
theory Moe_Props
  imports Token_Dispatch_Props Expert_Placement
begin

section \<open>A layer of experts on several ranks\<close>

text \<open>
  The maps of the load balancer are right: a physical expert holds the logical expert that it stands for. With them
  the dispatch of tokens computes the mixture of logical experts, wherever their replicas are.
\<close>

subsection \<open>Rows of the maps\<close>

lemma pairs_assigned:
  assumes "distinct (map fst d)" "\<forall>key \<in> fst ` set d. key < length row0"
  shows "\<exists>row. res_foldl (\<lambda>row (key, v). row_set row key (g key v)) row0 d = Inr row \<and> length row = length row0 \<and>
    (\<forall>e < length row0. row ! e = (case map_of d e of Some v \<Rightarrow> g e v | None \<Rightarrow> row0 ! e))"
  using assms
proof (induction d arbitrary: row0)
  case (Cons kv d)
  obtain key v where kv: "kv = (key, v)" by (cases kv)
  let ?row = "row0[key := g key v]"
  have k: "key < length row0" "map_of d key = None" using Cons.prems kv by (auto simp: map_of_eq_None_iff)
  obtain row where row: "res_foldl (\<lambda>row (key, v). row_set row key (g key v)) ?row d = Inr row" "length row = length ?row"
      "\<forall>e < length ?row. row ! e = (case map_of d e of Some v \<Rightarrow> g e v | None \<Rightarrow> ?row ! e)"
    using Cons.IH [of ?row] Cons.prems by fastforce
  have "row ! e = (case map_of (kv # d) e of Some v \<Rightarrow> g e v | None \<Rightarrow> row0 ! e)" if "e < length row0" for e
    using row(3) that k kv by (cases "e = key") (auto split: option.splits)
  then show ?case using row(1,2) k kv by (simp add: row_set_def)
qed simp

lemma placement_row_ok:
  assumes "distinct es" "\<forall>e \<in> set es. e < n"
  shows "\<exists>row. placement_row n es = Inr row \<and> length row = n \<and> (\<forall>i < length es. row ! (es ! i) = int i) \<and>
    (\<forall>e < n. e \<notin> set es \<longrightarrow> row ! e = -1)"
proof -
  have "k \<le> length es \<Longrightarrow> \<exists>row. res_foldl (\<lambda>row i. row_set row (es ! i) (int i)) (replicate n (-1)) [0..<k] = Inr row \<and> length row = n \<and>
      (\<forall>i < k. row ! (es ! i) = int i) \<and> (\<forall>e < n. e \<notin> set (take k es) \<longrightarrow> row ! e = -1)" for k
  proof (induction k)
    case (Suc k)
    then obtain row where row: "res_foldl (\<lambda>row i. row_set row (es ! i) (int i)) (replicate n (-1)) [0..<k] = Inr row" "length row = n"
        "\<forall>i < k. row ! (es ! i) = int i" "\<forall>e < n. e \<notin> set (take k es) \<longrightarrow> row ! e = -1" by auto
    have k: "k < length es" "es ! k < n" using Suc.prems assms(2) by simp_all
    have "es ! k \<noteq> es ! i" if "i < k" for i using that k(1) assms(1) by (simp add: nth_eq_iff_index_eq)
    then have "\<forall>i < Suc k. row[es ! k := int k] ! (es ! i) = int i" using row(2,3) k(2) by (auto simp: less_Suc_eq)
    moreover have "\<forall>e < n. e \<notin> set (take (Suc k) es) \<longrightarrow> row[es ! k := int k] ! e = -1"
      using row(4) k(1) by (auto simp: take_Suc_conv_app_nth)
    ultimately show ?case using row(1,2) k by (simp add: res_foldl_append row_set_def)
  qed simp
  from this [of "length es"] show ?thesis unfolding placement_row_def using order.refl [of "length es"] by force
qed

text \<open>A load balancer for \<open>R\<close> ranks with \<open>n\<close> slots each and \<open>E\<close> logical experts.\<close>

definition balancer_ok :: "load_balancer \<Rightarrow> nat \<Rightarrow> nat \<Rightarrow> nat \<Rightarrow> bool" where
  "balancer_ok b R n E \<longleftrightarrow> ranks_num b = R \<and> global_expert_num b = E \<and> layers_num b = length (expert_map_tensor b) \<and>
     (\<forall>l \<in> set (expert_map_tensor b). length l = R \<and> (\<forall>row \<in> set l. length row = n \<and> distinct row \<and> (\<forall>e \<in> set row. e < E)))"

definition pick_ok :: "(nat \<Rightarrow> nat \<Rightarrow> nat list \<Rightarrow> nat) \<Rightarrow> bool" where
  "pick_ok pick \<longleftrightarrow> (\<forall>r e l. l \<noteq> [] \<longrightarrow> pick r e l \<in> set l)"

definition layer_slots :: "load_balancer \<Rightarrow> nat \<Rightarrow> nat list" where
  "layer_slots b layer = concat (expert_map_tensor b ! layer)"

lemma log2phy_row_ok:
  assumes "pick_ok pick" "\<forall>row \<in> set l. length row = n" "\<forall>e \<in> set (concat l). e < E" "r < length l" "0 < n"
  shows "\<exists>row. log2phy_row E (pick r) (expert_positions (concat l)) (generate_index_dicts l ! r) = Inr row \<and> length row = E \<and>
    (\<forall>e < E. if e \<in> set (concat l)
       then \<exists>p < length l * n. row ! e = int p \<and> concat l ! p = e \<and> (e \<in> set (l ! r) \<longrightarrow> p div n = r)
       else row ! e = -1)"
proof -
  let ?own = "generate_index_dicts l ! r"
  define phy where "phy = (\<lambda>e. case map_of ?own e of Some p \<Rightarrow> p | None \<Rightarrow> pick r e (filter (\<lambda>i. concat l ! i = e) [0..<length (concat l)]))"
  have own: "?own = index_dict (r * n) (l ! r)"
  proof -
    have "\<forall>row \<in> set (take r l). length row = n" using assms(2) by (auto dest: in_set_takeD)
    then have "length (concat (take r l)) = r * n" using length_concat_uniform [of "take r l" n] assms(4) by simp
    then show ?thesis using index_dicts_nth [OF assms(4), of 0] by (simp only: generate_index_dicts_def add_0)
  qed
  have len: "length (concat l) = length l * n" using assms(2) by (rule length_concat_uniform)
  have good: "phy e < length l * n \<and> concat l ! phy e = e \<and> (e \<in> set (l ! r) \<longrightarrow> phy e div n = r)" if e: "e \<in> set (concat l)" for e
  proof (cases "map_of ?own e")
    case None
    let ?ix = "filter (\<lambda>i. concat l ! i = e) [0..<length (concat l)]"
    obtain i where "i < length (concat l)" "concat l ! i = e" using e by (meson in_set_conv_nth)
    then have "i \<in> set ?ix" by simp
    then have "?ix \<noteq> []" by (metis empty_iff list.set(1))
    then have "pick r e ?ix \<in> set ?ix" using assms(1) unfolding pick_ok_def by blast
    moreover have "phy e = pick r e ?ix" unfolding phy_def None by (simp only: option.case)
    ultimately have "phy e \<in> set ?ix" by (simp only:)
    then show ?thesis using None own len index_dict_known [of e "l ! r" "r * n"] by auto
  next
    case (Some p)
    then have p: "r * n \<le> p" "p - r * n < n" "l ! r ! (p - r * n) = e"
      using index_dict_lookup [of "r * n" "l ! r" e p] own assms(2,4) by auto
    have "Suc r * n \<le> length l * n" using assms(4) by (intro mult_le_mono1) simp
    then have "p < length l * n" using p(1,2) by simp
    moreover have "concat l ! p = e" using nth_concat_uniform [OF assms(2,4) p(2)] p(1,3) by simp
    moreover have "p div n = r" using p(1,2) by (intro div_nat_eqI) (simp_all add: mult.commute)
    ultimately show ?thesis using Some by (simp add: phy_def)
  qed
  obtain row where row: "log2phy_row E (pick r) (expert_positions (concat l)) ?own = Inr row" "length row = E"
      "\<forall>e < E. row ! e = (case map_of (expert_positions (concat l)) e of
         Some ix \<Rightarrow> int (case map_of ?own e of Some p \<Rightarrow> p | None \<Rightarrow> pick r e ix) | None \<Rightarrow> -1)"
  proof -
    have "\<forall>key \<in> fst ` set (expert_positions (concat l)). key < E"
    proof
      fix key assume "key \<in> fst ` set (expert_positions (concat l))"
      then have "map_of (expert_positions (concat l)) key \<noteq> None" by (simp add: map_of_eq_None_iff)
      then show "key < E" using assms(3) by (auto simp: expert_positions_lookup split: if_splits)
    qed
    then have "\<exists>row. res_foldl (\<lambda>row (key, v). row_set row key (int (case map_of ?own key of Some p \<Rightarrow> p | None \<Rightarrow> pick r key v)))
        (replicate E (-1)) (expert_positions (concat l)) = Inr row \<and> length row = E \<and>
      (\<forall>e < E. row ! e = (case map_of (expert_positions (concat l)) e of
         Some v \<Rightarrow> int (case map_of ?own e of Some p \<Rightarrow> p | None \<Rightarrow> pick r e v) | None \<Rightarrow> -1))"
      using pairs_assigned [OF distinct_expert_positions, of "concat l" "replicate E (-1)"
          "\<lambda>key v. int (case map_of ?own key of Some p \<Rightarrow> p | None \<Rightarrow> pick r key v)"] by (simp cong: option.case_cong)
    then show ?thesis using that unfolding log2phy_row_def by blast
  qed
  have "row ! e = (if e \<in> set (concat l) then int (phy e) else -1)" if "e < E" for e
    using row(3) that by (simp only: expert_positions_lookup phy_def split: if_split) simp
  then show ?thesis using row(1,2) good by (intro exI [of _ row]) simp
qed

lemma layer_shape:
  assumes "balancer_ok b R n E" "layer < layers_num b"
  shows "row_item (expert_map_tensor b) layer = Inr (expert_map_tensor b ! layer)" "length (expert_map_tensor b ! layer) = R"
    "\<forall>row \<in> set (expert_map_tensor b ! layer). length row = n \<and> distinct row \<and> (\<forall>e \<in> set row. e < E)"
    "\<forall>e \<in> set (layer_slots b layer). e < E" "length (layer_slots b layer) = R * n"
proof -
  have l: "expert_map_tensor b ! layer \<in> set (expert_map_tensor b)" using assms by (simp add: balancer_ok_def)
  then show sh: "length (expert_map_tensor b ! layer) = R"
    "\<forall>row \<in> set (expert_map_tensor b ! layer). length row = n \<and> distinct row \<and> (\<forall>e \<in> set row. e < E)"
    using assms(1) unfolding balancer_ok_def by blast+
  show "row_item (expert_map_tensor b) layer = Inr (expert_map_tensor b ! layer)" using assms by (simp add: row_item_def balancer_ok_def)
  show "\<forall>e \<in> set (layer_slots b layer). e < E" using sh(2) by (auto simp: layer_slots_def)
  show "length (layer_slots b layer) = R * n"
    using length_concat_uniform [of "expert_map_tensor b ! layer" n] sh by (simp add: layer_slots_def)
qed

lemma res_map_upt:
  assumes "\<And>i. i < n \<Longrightarrow> f i = Inr (g i)" shows "res_map f [0..<n] = Inr (map g [0..<n])"
  by (rule res_map_Inr) (use assms in simp)

lemma log2phy_ok:
  assumes "balancer_ok b R n E" "pick_ok pick" "layer < layers_num b" "r < R" "0 < n"
  shows "\<exists>row. get_rank_log2phy_map pick b layer r = Inr row \<and> length row = E \<and>
    (\<forall>e < E. if e \<in> set (layer_slots b layer)
       then \<exists>p < R * n. row ! e = int p \<and> layer_slots b layer ! p = e \<and> (e \<in> set (expert_map_tensor b ! layer ! r) \<longrightarrow> p div n = r)
       else row ! e = -1)"
proof -
  let ?l = "expert_map_tensor b ! layer"
  note sh = layer_shape [OF assms(1,3)]
  define P where "P = (\<lambda>q row. log2phy_row E (pick q) (expert_positions (concat ?l)) (generate_index_dicts ?l ! q) = Inr row \<and> length row = E \<and>
    (\<forall>e < E. if e \<in> set (concat ?l)
       then \<exists>p < R * n. row ! e = int p \<and> concat ?l ! p = e \<and> (e \<in> set (?l ! q) \<longrightarrow> p div n = q) else row ! e = -1))"
  have "\<exists>row. P q row" if "q < R" for q
  proof -
    have a: "\<forall>row \<in> set ?l. length row = n" using sh(3) by blast
    have b: "\<forall>e \<in> set (concat ?l). e < E" using sh(4) by (simp only: layer_slots_def)
    have c: "q < length ?l" using sh(2) that by simp
    from log2phy_row_ok [OF assms(2) a b c assms(5)] show ?thesis unfolding P_def sh(2) .
  qed
  then obtain row where row: "\<And>q. q < R \<Longrightarrow> P q (row q)" using someI_ex [of "P _"] by metis
  have "generate_log2phy_expert_map pick b layer = Inr (map row [0..<R])"
    unfolding generate_log2phy_expert_map_def sh(1) res_bind_Inr using assms(1) row sh(2)
    by (simp add: balancer_ok_def, intro res_map_upt) (simp add: row_item_def generate_index_dicts_def P_def)
  then have "get_rank_log2phy_map pick b layer r = Inr (row r)" using assms(4) by (simp add: get_rank_log2phy_map_def row_item_def)
  then show ?thesis using row [OF assms(4)] unfolding P_def layer_slots_def by blast
qed

lemma placement_ok:
  assumes "balancer_ok b R n E" "layer < layers_num b" "r < R"
  shows "\<exists>row. get_rank_placement_map b layer r = Inr (n, row) \<and> length row = E \<and>
    (\<forall>i < n. row ! (expert_map_tensor b ! layer ! r ! i) = int i) \<and> (\<forall>e < E. e \<notin> set (expert_map_tensor b ! layer ! r) \<longrightarrow> row ! e = -1)"
proof -
  define P where "P = (\<lambda>l q row. placement_row E (expert_map_tensor b ! l ! q) = Inr row \<and> length row = E \<and>
    (\<forall>i < n. row ! (expert_map_tensor b ! l ! q ! i) = int i) \<and> (\<forall>e < E. e \<notin> set (expert_map_tensor b ! l ! q) \<longrightarrow> row ! e = -1))"
  have row_in: "expert_map_tensor b ! l ! q \<in> set (expert_map_tensor b ! l)" if "l < layers_num b" "q < R" for l q
    using layer_shape(2) [OF assms(1) that(1)] that(2) by simp
  have "\<exists>row. P l q row" if "l < layers_num b" "q < R" for l q
    using placement_row_ok [of "expert_map_tensor b ! l ! q" E] layer_shape(3) [OF assms(1) that(1)] row_in [OF that] unfolding P_def by force
  then obtain row where row: "\<And>l q. l < layers_num b \<Longrightarrow> q < R \<Longrightarrow> P l q (row l q)" using someI_ex [of "P _ _"] by metis
  have "generate_expert_placement_map b = Inr (map (\<lambda>l. map (row l) [0..<R]) [0..<layers_num b])"
    unfolding generate_expert_placement_map_def
  proof (rule res_map_upt)
    fix l assume l: "l < layers_num b"
    show "res_map (\<lambda>gpu_id. res_bind (row_item (expert_map_tensor b) l) (\<lambda>x. res_bind (row_item x gpu_id) (placement_row (global_expert_num b))))
        [0..<ranks_num b] = Inr (map (row l) [0..<R])"
      using assms(1) row [OF l] layer_shape(1,2) [OF assms(1) l]
      by (simp add: balancer_ok_def, intro res_map_upt) (simp add: row_item_def P_def)
  qed
  moreover have "length (filter (\<lambda>e. e \<noteq> -1) (row layer r)) = n"
  proof -
    let ?es = "expert_map_tensor b ! layer ! r" and ?row = "row layer r"
    have es: "length ?es = n" "distinct ?es" "\<forall>e \<in> set ?es. e < E" using layer_shape(3) [OF assms(1,2)] row_in [OF assms(2,3)] by blast+
    have p: "length ?row = E" "\<forall>i < n. ?row ! (?es ! i) = int i" "\<forall>e < E. e \<notin> set ?es \<longrightarrow> ?row ! e = -1"
      using row [OF assms(2,3)] unfolding P_def by blast+
    have "{e. e < length ?row \<and> ?row ! e \<noteq> -1} = set ?es"
    proof (rule set_eqI)
      fix e
      show "e \<in> {e. e < length ?row \<and> ?row ! e \<noteq> -1} \<longleftrightarrow> e \<in> set ?es"
      proof (cases "e \<in> set ?es")
        case True
        then obtain i where "i < n" "?es ! i = e" using es(1) by (auto simp: in_set_conv_nth)
        then have "?row ! e \<noteq> -1" using p(2) by auto
        then show ?thesis using True p(1) es(3) by simp
      next
        case False
        then show ?thesis using p(1,3) by auto
      qed
    qed
    then show ?thesis using es(1,2) by (simp add: length_filter_conv_card distinct_card)
  qed
  ultimately show ?thesis using row [OF assms(2,3)] assms(2,3) unfolding P_def by (simp add: get_rank_placement_map_def row_item_def)
qed

subsection \<open>A device\<close>

text \<open>Kernels that keep the promises of \<open>moe_device\<close>, by a stable sort.\<close>

definition sorted_slots :: "nat list \<Rightarrow> nat list" where
  "sorted_slots keys = sort_key (\<lambda>i. keys ! i) [0..<length keys]"

definition ref_permute :: "'h list \<Rightarrow> nat list list \<Rightarrow> 'h list \<times> nat list" where
  "ref_permute toks indices =
     (let src = sorted_slots (concat indices); k = length (concat indices) div length toks in
      (map (\<lambda>i. toks ! (i div k)) src, map (\<lambda>i. length (takeWhile (\<lambda>j. j \<noteq> i) src)) [0..<length src]))"

definition ref_exchange :: "'a list list \<Rightarrow> nat list list \<Rightarrow> nat list list \<Rightarrow> 'a list list" where
  "ref_exchange inputs outs ins =
     map (\<lambda>g. concat (map (\<lambda>r. split_by (ins ! r) (inputs ! r) ! g) [0..<length inputs])) [0..<length inputs]"

definition ref_device :: "('w \<Rightarrow> 'h \<Rightarrow> 'h::comm_monoid_add) \<Rightarrow> ('h, 'w, 's) npu_ops" where
  "ref_device smul = \<lparr>moe_token_permute = ref_permute,
     moe_token_unpermute = (\<lambda>permuted mapping. map (\<lambda>p. permuted ! p) mapping),
     moe_token_unpermute_probs = (\<lambda>permuted mapping probs.
       map (\<lambda>t. sum_list (map (\<lambda>j. smul (probs ! t ! j) (permuted ! (mapping ! (t * length (probs ! t) + j)))) [0..<length (probs ! t)]))
         [0..<length probs]),
     dynamic_quant = (\<lambda>rows. (rows, [])), moe_init_routing_v2 = (\<lambda>rows idx scale. (rows, idx, scale)),
     all_to_all_rows = ref_exchange, all_to_all_scales = ref_exchange, all_gather_counts = concat\<rparr>"

lemma position_in: "x \<in> set xs \<Longrightarrow> length (takeWhile (\<lambda>j. j \<noteq> x) xs) < length xs \<and> xs ! length (takeWhile (\<lambda>j. j \<noteq> x) xs) = x"
  by (induction xs) auto

lemma ref_permute_ok:
  assumes "length indices = length toks" "\<forall>row \<in> set indices. length row = k" "ref_permute toks indices = (permuted, mapping)"
  shows "length permuted = length toks * k \<and> length mapping = length toks * k \<and> distinct mapping \<and> set mapping = {..<length toks * k} \<and>
    (\<forall>i < length toks * k. permuted ! (mapping ! i) = toks ! (i div k)) \<and>
    (\<forall>i < length toks * k. \<forall>j < length toks * k. mapping ! i < mapping ! j \<longrightarrow> concat indices ! i \<le> concat indices ! j)"
proof -
  let ?n = "length toks * k" and ?src = "sorted_slots (concat indices)" and ?pos = "\<lambda>i. length (takeWhile (\<lambda>j. j \<noteq> i) (sorted_slots (concat indices)))"
  have len: "length (concat indices) = ?n" using length_concat_uniform [OF assms(2)] assms(1) by simp
  have src: "length ?src = ?n" "set ?src = {..<?n}" "distinct ?src" "sorted (map (\<lambda>i. concat indices ! i) ?src)"
    using len by (simp_all add: sorted_slots_def atLeast0LessThan)
  have pos: "?pos i < ?n" "?src ! ?pos i = i" if "i < ?n" for i
    using position_in [of i ?src] src(1,2) that by auto
  have inj: "inj_on ?pos {..<?n}" by (rule inj_on_inverseI [of _ "\<lambda>q. ?src ! q"]) (use pos in simp)
  have onto: "?pos ` {..<?n} = {..<?n}"
    by (rule endo_inj_surj [OF _ _ inj]) (use pos in auto)
  have pm: "permuted = map (\<lambda>i. toks ! (i div (?n div length toks))) ?src" "mapping = map ?pos [0..<?n]"
    using assms(3) src(1) len by (simp_all add: ref_permute_def Let_def)
  have "permuted ! (mapping ! i) = toks ! (i div k)" if "i < ?n" for i
    using pos [OF that] that src(1) by (cases "length toks = 0") (simp_all add: pm)
  moreover have "concat indices ! i \<le> concat indices ! j" if "i < ?n" "j < ?n" "mapping ! i < mapping ! j" for i j
    using sorted_nth_mono [OF src(4), of "?pos i" "?pos j"] pos [OF that(1)] pos [OF that(2)] that src(1) by (simp add: pm)
  moreover have "distinct mapping" using inj by (simp add: pm distinct_map atLeast0LessThan)
  moreover have "set mapping = {..<?n}" using onto by (simp add: pm atLeast0LessThan)
  ultimately show ?thesis using src(1) by (simp add: pm)
qed

interpretation reference: moe_device smul "ref_device smul" for smul :: "'w \<Rightarrow> 'h::comm_monoid_add \<Rightarrow> 'h"
proof unfold_locales
  fix indices :: "nat list list" and toks :: "'h list" and k permuted mapping
  assume "length indices = length toks" "\<forall>row \<in> set indices. length row = k"
    "moe_token_permute (ref_device smul) toks indices = (permuted, mapping)"
  then show "length permuted = length toks * k \<and> length mapping = length toks * k \<and> distinct mapping \<and> set mapping = {..<length toks * k} \<and>
    (\<forall>i < length toks * k. permuted ! (mapping ! i) = toks ! (i div k)) \<and>
    (\<forall>i < length toks * k. \<forall>j < length toks * k. mapping ! i < mapping ! j \<longrightarrow> concat indices ! i \<le> concat indices ! j)"
    by (intro ref_permute_ok) (simp_all add: ref_device_def)
next
  fix permuted :: "'h list" and probs :: "'w list list" and k mapping
  assume "\<forall>row \<in> set probs. length row = k"
  then have "length (probs ! t) = k" if "t < length probs" for t using that by simp
  then show "moe_token_unpermute_probs (ref_device smul) permuted mapping probs =
      map (\<lambda>t. \<Sum>j<k. smul (probs ! t ! j) (permuted ! (mapping ! (t * k + j)))) [0..<length probs]"
    by (simp add: ref_device_def interv_sum_list_conv_sum_set_nat atLeast0LessThan cong: map_cong)
qed (simp_all add: ref_device_def ref_exchange_def)

subsection \<open>The properties\<close>

definition balancer_tables :: "(nat \<Rightarrow> nat \<Rightarrow> nat list \<Rightarrow> nat) \<Rightarrow> load_balancer \<Rightarrow> nat \<Rightarrow> nat \<Rightarrow> nat list option list" where
  "balancer_tables pick b layer R =
     map (\<lambda>r. case get_rank_log2phy_map pick b layer r of Inl _ \<Rightarrow> None | Inr row \<Rightarrow> Some (map nat row)) [0..<R]"

lemma tables_ok:
  assumes "balancer_ok b R n E" "pick_ok pick" "layer < layers_num b" "0 < n" "r < R" "e < E" "e \<in> set (layer_slots b layer)"
  shows "in_table (balancer_tables pick b layer R ! r) e" "phys (balancer_tables pick b layer R ! r) e < R * n"
    "layer_slots b layer ! phys (balancer_tables pick b layer R ! r) e = e"
proof -
  obtain row where row: "get_rank_log2phy_map pick b layer r = Inr row" "length row = E"
      "\<forall>e < E. if e \<in> set (layer_slots b layer)
         then \<exists>p < R * n. row ! e = int p \<and> layer_slots b layer ! p = e \<and> (e \<in> set (expert_map_tensor b ! layer ! r) \<longrightarrow> p div n = r)
         else row ! e = -1"
    using log2phy_ok [OF assms(1-3,5,4)] by blast
  then obtain p where p: "p < R * n" "row ! e = int p" "layer_slots b layer ! p = e" using assms(6,7) by metis
  have "balancer_tables pick b layer R ! r = Some (map nat row)" using assms(5) row(1) by (simp add: balancer_tables_def)
  then show "in_table (balancer_tables pick b layer R ! r) e" "phys (balancer_tables pick b layer R ! r) e < R * n"
    "layer_slots b layer ! phys (balancer_tables pick b layer R ! r) e = e"
    using p row(2) assms(6) by (simp_all add: in_table_def phys_def)
qed

lemma moe_layer_ok:
  fixes ops :: "('h::comm_monoid_add, 'w, 's) npu_ops"
  assumes "moe_device smul ops" "balancer_ok b R n E" "pick_ok pick" "layer < layers_num b" "\<forall>e < E. e \<in> set (layer_slots b layer)"
    and "ranks_ok R n k xs ws ids (replicate R None) ds" "\<forall>r < R. \<forall>row \<in> set (ids ! r). \<forall>e \<in> set row. e < E"
  shows "\<exists>out ds'. token_dispatch_all ops xs ws ids (balancer_tables pick b layer R) ds = Inr (out, ds') \<and>
    fst (token_combine_all ops (experts_all (\<lambda>p. F (layer_slots b layer ! p)) n out) ds') =
    map (\<lambda>r. mixture smul F k (xs ! r) (ws ! r) (ids ! r)) [0..<R]"
proof -
  let ?tb = "balancer_tables pick b layer R"
  have n: "0 < n" using assms(6) by (simp add: ranks_ok_def)
  note tb = tables_ok [OF assms(2-4) n]
  have ok: "ranks_ok R n k xs ws ids ?tb ds"
    using assms(6,7) tb(1,2) assms(5) unfolding ranks_ok_def by (auto simp: balancer_tables_def)
  have "mixture smul (\<lambda>p. F (layer_slots b layer ! p)) k (xs ! r) (ws ! r) (rank_ids ?tb ids r) = mixture smul F k (xs ! r) (ws ! r) (ids ! r)"
    if r: "r < R" for r
  proof -
    have id: "length (ids ! r) = length (xs ! r)" "\<forall>row \<in> set (ids ! r). length row = k" using ok r by (simp_all add: ranks_ok_def)
    have "layer_slots b layer ! (rank_ids ?tb ids r ! t ! j) = ids ! r ! t ! j" if "t < length (xs ! r)" "j < k" for t j
    proof -
      have row: "ids ! r ! t \<in> set (ids ! r)" "length (ids ! r ! t) = k" using id that(1) by simp_all
      then have e: "ids ! r ! t ! j < E" using assms(7) r that(2) by (metis nth_mem)
      then show ?thesis using tb(3) [OF r e] assms(5) id that row(2) by (simp add: rank_ids_def)
    qed
    then show ?thesis unfolding mixture_def by (intro map_cong refl sum.cong) simp
  qed
  then have "map (\<lambda>r. mixture smul (\<lambda>p. F (layer_slots b layer ! p)) k (xs ! r) (ws ! r) (rank_ids ?tb ids r)) [0..<R] =
      map (\<lambda>r. mixture smul F k (xs ! r) (ws ! r) (ids ! r)) [0..<R]"
    by (intro map_cong refl) simp
  with dispatch_combine_ok [OF assms(1) ok, of "\<lambda>p. F (layer_slots b layer ! p)"] show ?thesis by (simp only:)
qed

text \<open>
  C31. A layer of experts on several ranks computes the mixture of its experts: when the placement file holds every
  logical expert and each rank maps its token's experts with its map of the load balancer, the tokens that
  \<^verbatim>\<open>token_dispatch\<close> sends around, the experts in the slots where they arrive and \<^verbatim>\<open>token_combine\<close> give, on
  every rank and for every token in its place, the weighted sum of its logical experts, for all kernels and collectives
  that keep the promises of \<open>moe_device\<close>, whatever replica of an expert is chosen.
\<close>

theorem moe_layer_correct:
  fixes ops :: "('h::comm_monoid_add, 'w, 's) npu_ops"
  assumes "moe_device smul ops" "balancer_ok b R n E" "pick_ok pick" "layer < layers_num b" "\<forall>e < E. e \<in> set (layer_slots b layer)"
    and "ranks_ok R n k xs ws ids (replicate R None) ds" "\<forall>r < R. \<forall>row \<in> set (ids ! r). \<forall>e \<in> set row. e < E"
  shows "\<exists>out ds'. token_dispatch_all ops xs ws ids (balancer_tables pick b layer R) ds = Inr (out, ds') \<and>
    fst (token_combine_all ops (experts_all (\<lambda>p. F (layer_slots b layer ! p)) n out) ds') =
    map (\<lambda>r. mixture smul F k (xs ! r) (ws ! r) (ids ! r)) [0..<R]"
  using assms by (rule moe_layer_ok)

text \<open>Two ranks with two slots each for three logical experts, expert 0 on both.\<close>

definition demo_balancer :: load_balancer where
  "demo_balancer = \<lparr>global_expert_num = 3, expert_map_tensor = [[[0, 1], [2, 0]]], layers_num = 1, ranks_num = 2\<rparr>"

definition demo_dispatchers :: "nat a2av list" where
  "demo_dispatchers = map (\<lambda>r. projr (a2av_init 2 3 1 r 2 False)) [0..<2]"

definition demo_hidden :: "nat list list" where
  "demo_hidden = [[10, 20], [30]]"

definition demo_weights :: "nat list list list" where
  "demo_weights = [[[1, 2], [3, 1]], [[2, 5]]]"

definition demo_experts :: "nat list list list" where
  "demo_experts = [[[0, 2], [1, 0]], [[0, 1]]]"

lemma demo_moe_ok:
  "balancer_ok demo_balancer 2 2 3" "pick_ok (\<lambda>_ _. hd)" "0 < layers_num demo_balancer"
  "\<forall>e < 3. e \<in> set (layer_slots demo_balancer 0)"
  "ranks_ok 2 2 2 demo_hidden demo_weights demo_experts (replicate 2 None) demo_dispatchers"
  "\<forall>r < 2. \<forall>row \<in> set (demo_experts ! r). \<forall>e \<in> set row. e < 3"
proof -
  show "\<forall>e < 3. e \<in> set (layer_slots demo_balancer 0)"
    by (simp add: layer_slots_def demo_balancer_def less_Suc_eq numeral_3_eq_3 numeral_2_eq_2)
  show "\<forall>r < 2. \<forall>row \<in> set (demo_experts ! r). \<forall>e \<in> set row. e < 3"
    by (simp add: demo_experts_def less_Suc_eq numeral_2_eq_2)
  show "ranks_ok 2 2 2 demo_hidden demo_weights demo_experts (replicate 2 None) demo_dispatchers"
    by (simp add: ranks_ok_def demo_hidden_def demo_weights_def demo_experts_def demo_dispatchers_def a2av_init_def Let_def
        in_table_def phys_def less_Suc_eq numeral_2_eq_2 upt_rec)
qed (simp_all add: balancer_ok_def demo_balancer_def pick_ok_def)

abbreviation demo_ops :: "(nat, nat, nat) npu_ops" where
  "demo_ops \<equiv> ref_device (*)"

theorem moe_layer_correct_witness:
  "\<exists>out ds'. token_dispatch_all demo_ops demo_hidden demo_weights demo_experts
      (balancer_tables (\<lambda>_ _. hd) demo_balancer 0 2) demo_dispatchers = Inr (out, ds') \<and>
    fst (token_combine_all demo_ops (experts_all (\<lambda>p x. x + 1000 * (layer_slots demo_balancer 0 ! p)) 2 out) ds') =
      [[4030, 3080], [5210]]"
proof -
  have "map (\<lambda>r. mixture (*) (\<lambda>e x. x + 1000 * e) 2 (demo_hidden ! r) (demo_weights ! r) (demo_experts ! r)) [0..<2] = [[4030, 3080], [5210]]"
    by (simp add: mixture_def demo_hidden_def demo_weights_def demo_experts_def numeral_2_eq_2 upt_rec)
  then show ?thesis
    using moe_layer_correct [where ops = demo_ops, OF reference.moe_device_axioms demo_moe_ok,
      where F = "\<lambda>e x. x + 1000 * e"] by (simp only:)
qed

end
