(* ===== verification/Spec2Isabelle.thy ===== *)
theory Spec2Isabelle
  imports Scheduler_Props Mooncake_Props Mooncake_Handover Input_Batch_Metadata Datadist_Props
    Rejection_Props Ascend_Config Camem_Allocator Acl_Graph Runner_Props Runner_Input_Props Mla_Props
    Proxy_Props Moe_Props
begin

text \<open>
  A verification of vllm-ascend, the plugin that runs vLLM on Ascend NPUs. vLLM itself, torch, the
  messaging libraries and the device are not in the repository; the model covers the plugin's own logic
  around them and takes what it uses of them as parameters.

  \<^bold>\<open>The program and its parts.\<close> An engine process schedules requests and sends the plan of every step to worker
  processes; each worker keeps the state of the requests in the batch, prepares the tensors of the step,
  runs the model, samples tokens and returns them. In a disaggregated deployment a prefill engine hands the
  KV cache of a finished prompt over to a decode engine.

  \<^item> \<open>Prelude\<close>: the Python exceptions as values, the result type \<open>py_error + 'a\<close>, loops that may raise
    (\<open>res_foldl\<close>, \<open>res_map\<close>), loops with \<^verbatim>\<open>break\<close>, dictionaries as association lists, indexing with
    negative indices, decimal strings, and reachability with its invariant rule (locale \<open>inv_system\<close>).
    \<open>Engine_Types\<close>: vLLM's request, its connector parameters, and the contract \<open>kv_connector\<close> between
    the scheduler and a KV connector.
  \<^item> \<open>Ascend_Scheduler\<close>, \<open>Scheduler_Proofs\<close>, \<open>Scheduler_Props\<close>: \<^verbatim>\<open>AscendScheduler\<close> of
    \<^verbatim>\<open>vllm_ascend/core/scheduler.py\<close>. \<open>schedule\<close> is the prefill loop, then the decode loop with preemption, then
    the assertions, the output and the advance of the computed tokens; the KV cache manager and vLLM's
    base class are parameters. The lemmas follow both loops by an invariant; the theorems say that the
    assertions hold, that no request is lost, in which order requests are admitted and preempted, and that marks
    of scheduled requests are taken back.
  \<^item> \<open>Ascend_Config\<close>: \<^verbatim>\<open>vllm_ascend/ascend_config.py\<close> and \<^verbatim>\<open>vllm_ascend/core/schedule_config.py\<close>, the options and their
    checks, up to the scheduler that is configured with them.
  \<^item> \<open>Mooncake_Connector\<close>, \<open>Mooncake_Props\<close>, \<open>Mooncake_Handover\<close>: \<^verbatim>\<open>vllm_ascend/distributed/mooncake_connector.py\<close>,
    the tracker of finished ranks, the receiving thread with its sockets, the copies of cache regions, the scheduler
    and worker sides. \<open>Datadist_Connector\<close>, \<open>Datadist_Props\<close>: the same for
    \<^verbatim>\<open>vllm_ascend/distributed/llmdatadist_c_mgr_connector.py\<close>, with the links between clusters. Both interpret
    \<open>kv_connector\<close>; the round-trip theorems follow a request from the prefill scheduler over its parameters
    to the transfer that a decode worker queues.
  \<^item> \<open>Input_Batch\<close>, \<open>Input_Batch_Inv\<close>, \<open>Input_Batch_Add\<close>, \<open>Input_Batch_Moves\<close>, \<open>Input_Batch_Props\<close>,
    \<open>Input_Batch_Metadata\<close>: the persistent batch of \<^verbatim>\<open>vllm_ascend/worker/npu_input_batch.py\<close>. The abstraction is \<open>view\<close>, a map
    from request ids to rows; adding, removing, swapping and condensing refine operations on it. The sampling metadata
    holds values of its own and reads generators, bad words and output tokens from the batch, with which it shares
    them. \<open>batch_step\<close> has the order of calls of the runner.
  \<^item> \<open>Model_Runner\<close>, \<open>Runner_Batch\<close>, \<open>Runner_Step\<close>, \<open>Runner_Output\<close>, \<open>Runner_Props\<close>: the bookkeeping of
    \<^verbatim>\<open>NPUModelRunner\<close> (\<^verbatim>\<open>vllm_ascend/worker/model_runner_v1.py\<close>) over a step: \<open>update_states\<close>, \<open>reorder_runner\<close>, \<open>finish_step\<close>.
    \<open>synced\<close> says that every row is the cached state of its request; \<open>runner_trans\<close> is the step relation
    whose reachable states keep it.
  \<^item> \<open>Batch_Reorder\<close>: \<^verbatim>\<open>reorder_batch\<close> of the attention builders. \<open>Runner_Inputs\<close>, \<open>Runner_Input_Props\<close>:
    the vectorised index arithmetic of \<^verbatim>\<open>_prepare_inputs\<close> and of the logits of speculative decoding, proved equal to a
    description request by request. \<open>Mla_Metadata\<close>, \<open>Mla_Props\<close>: \<^verbatim>\<open>vllm_ascend/attention/utils.py\<close> and the
    builder of \<^verbatim>\<open>vllm_ascend/attention/mla_v1.py\<close>, composed with the two.
  \<^item> \<open>Rejection_Sampler\<close>, \<open>Rejection_Greedy\<close>, \<open>Rejection_Random\<close>, \<open>Rejection_Props\<close>:
    \<^verbatim>\<open>vllm_ascend/sample/rejection_sampler.py\<close>. The flat, vectorised code is proved equal to the sequential algorithm
    of speculative decoding, request by request. Probabilities are rational numbers, with a
    rounding for Python's floats and one for the elements of tensors.
  \<^item> \<open>Camem_Allocator\<close>: \<^verbatim>\<open>vllm_ascend/device_allocator/camem.py\<close>, the calls of \<^verbatim>\<open>worker_v1.py\<close> that put a worker to sleep
    and wake it up, and the callbacks and mapping functions of \<^verbatim>\<open>csrc/camem_allocator.cpp\<close>; which calls of the driver
    fail, without a report to the caller, is a parameter (\<open>driver\<close>). \<open>Acl_Graph\<close>:
    \<^verbatim>\<open>vllm_ascend/compilation/acl_graph.py\<close>, the caches of captured graphs of all wrappers of a process, which share one counter.
  \<^item> \<open>Py_Heapq\<close>: Python's \<^verbatim>\<open>heapq\<close> and its contract \<open>priority_queue\<close>. \<open>Proxy_Server\<close>, \<open>Proxy_Proofs\<close>, \<open>Proxy_Props\<close>:
    the proxy of \<^verbatim>\<open>examples/disaggregated_prefill_v1\<close> that spreads requests over prefill and decode engines. Its coroutines
    are events between suspension points, \<open>proxy_handle\<close> one event and \<open>loop_step\<close> the step relation; the theorems say what
    the loads of the servers are in every reachable state and when a least loaded one is chosen. Scores are rational numbers.
  \<^item> \<open>Token_Dispatch\<close>, \<open>Token_Dispatch_Proofs\<close>, \<open>Token_Dispatch_Props\<close>: the all-to-all dispatcher of
    \<^verbatim>\<open>vllm_ascend/ops/moe_dispatcher/token_dispatcher.py\<close>, all ranks of a group together, with rows of an arbitrary
    commutative monoid. \<open>Expert_Placement\<close>: \<^verbatim>\<open>vllm_ascend/ops/expert_load_balancer.py\<close>. \<open>Moe_Props\<close> composes them: the layer
    computes the mixture of logical experts, wherever their replicas are.

  \<^bold>\<open>Conventions.\<close> A method is a function on the record of its object; attributes are fields with a prefix. An
  exception is \<open>Inl\<close> of its class and discards the state, except where a \<^verbatim>\<open>finally\<close> or a caller that catches
  it makes the state visible. Tensors and numpy arrays are lists, matrices lists of rows; copies between the
  host and the device are left out. Sizes, ids and token ids are far below the bounds of their machine integers and are
  \<open>nat\<close> or \<open>int\<close>. A loop over a set whose order Python leaves open takes the order as a parameter.

  \<^bold>\<open>Interfaces.\<close> What a client relies on is a locale: \<open>kv_connector\<close> (scheduler and connector),
  \<open>update_builder\<close>, \<open>block_rows\<close> and \<open>batch_parts\<close> (what the batch relies on of vLLM's update builder and block
  table), \<open>runner_parts\<close> (the same for the runner), \<open>priority_queue\<close> (the proxy and \<^verbatim>\<open>heapq\<close>), \<open>moe_device\<close> (the dispatcher, the kernels and the
  collectives), \<open>inv_system\<close> (step relations). Each is
  interpreted on the model's definitions, or, for vLLM's classes, and the device, on an executable instance built on lists.

  \<^bold>\<open>Termination.\<close> The prefill, decode and preemption loops and \<open>skip_empty\<close> are functions with a measure, so
  they are total, and so are the loops of \<^verbatim>\<open>heapq\<close> and the retry loops of the proxy. \<open>wait_link\<close> (polling for a link) and \<open>condense_loop\<close> are partial functions with
  values in \<open>option\<close>; \<open>condense_refines\<close> and \<open>add_remote_agent_returns\<close> say when they return.

  \<^bold>\<open>Not modelled.\<close> The neural networks, kernels and collectives (models, quantization, operators, LoRA, native code) are
  floating-point tensor programs of the device; process groups, HTTP transport and platform registration only
  call libraries; graph compilation and multi-stream execution are scheduling of device work. Of the runner, the calls of the
  model, the multi-modal encoder, prompt log-probabilities, dummy runs and memory profiling are left out.
  Concurrency is modelled where a component has several threads and a lock or queue between them
  (the Mooncake receiver and tracker, the datadist worker) or several coroutines (the proxy), as sequences of atomic steps.
\<close>

end
